(* ===== verification/Gw_Prelude.thy ===== *)
theory Gw_Prelude
  imports Main "HOL-Library.Word"
begin

text \<open>
  Shared vocabulary of the gateway development: the fixed-width integer types of the C
  sources, the error codes of \<open>gateway/include/gateway/error.h\<close>, the fact collections the
  component theories fill, and the generic lemmas on lists and words they share.
\<close>

unbundle bit_operations_syntax

subsection \<open>Machine integers\<close>

type_synonym u8 = "8 word"
type_synonym u16 = "16 word"
type_synonym u32 = "32 word"
type_synonym u64 = "64 word"
type_synonym bytes = "8 word list"

text \<open>\<open>UINT64_MAX\<close> as a natural number: cursors that the code guards against overflow are
  naturals, and the guards compare them with this bound.\<close>

definition u64_max :: nat where
  "u64_max = 2 ^ 64 - 1"

text \<open>\<open>struct timespec\<close>, its fields as mathematical integers.\<close>

record timespec =
  tv_sec :: int
  tv_nsec :: int

subsection \<open>Error codes\<close>

text \<open>\<open>gateway_error_code\<close>: the C enumeration, constructor by constructor.\<close>

datatype gateway_error_code =
    GATEWAY_OK
  | GATEWAY_ERROR_ARGUMENT
  | GATEWAY_ERROR_IO
  | GATEWAY_ERROR_PARSE
  | GATEWAY_ERROR_UNKNOWN_KEY
  | GATEWAY_ERROR_DUPLICATE_KEY
  | GATEWAY_ERROR_RANGE
  | GATEWAY_ERROR_INVALID_VALUE
  | GATEWAY_ERROR_TIMEOUT
  | GATEWAY_ERROR_CLOSED
  | GATEWAY_ERROR_SYSTEM
  | GATEWAY_ERROR_CAPACITY

fun gateway_error_string :: "gateway_error_code \<Rightarrow> string" where
  "gateway_error_string GATEWAY_OK = ''ok''"
| "gateway_error_string GATEWAY_ERROR_ARGUMENT = ''invalid argument''"
| "gateway_error_string GATEWAY_ERROR_IO = ''I/O error''"
| "gateway_error_string GATEWAY_ERROR_PARSE = ''parse error''"
| "gateway_error_string GATEWAY_ERROR_UNKNOWN_KEY = ''unknown configuration key''"
| "gateway_error_string GATEWAY_ERROR_DUPLICATE_KEY = ''duplicate configuration key''"
| "gateway_error_string GATEWAY_ERROR_RANGE = ''value out of range''"
| "gateway_error_string GATEWAY_ERROR_INVALID_VALUE = ''invalid value''"
| "gateway_error_string GATEWAY_ERROR_TIMEOUT = ''timeout''"
| "gateway_error_string GATEWAY_ERROR_CLOSED = ''closed''"
| "gateway_error_string GATEWAY_ERROR_SYSTEM = ''system error''"
| "gateway_error_string GATEWAY_ERROR_CAPACITY = ''capacity limit reached''"

subsection \<open>Fact collections\<close>

named_theorems byte_simps \<open>reading back what a byte codec wrote, and lengths of encodings\<close>
named_theorems frame_simps \<open>fields an operation leaves alone\<close>

subsection \<open>Lists\<close>

lemma nth_append_at: "n = length xs \<Longrightarrow> (xs @ y # ys) ! n = y"
  by simp

lemma take_drop_append_eq:
  "length xs = n \<Longrightarrow> length ys = m \<Longrightarrow> take m (drop n (xs @ ys @ zs)) = ys"
  by simp

lemma list_update_differs:
  "i < length xs \<Longrightarrow> xs ! i \<noteq> y \<Longrightarrow> xs[i := y] \<noteq> xs"
  by (metis nth_list_update_eq)

lemma sorted_wrt_snoc:
  "sorted_wrt R (xs @ [y]) \<longleftrightarrow> sorted_wrt R xs \<and> (\<forall>x\<in>set xs. R x y)"
  by (simp add: sorted_wrt_append)

lemma sorted_wrt_less_lastD:
  fixes f :: "'a \<Rightarrow> 'b::order"
  assumes "sorted_wrt (\<lambda>a b. f a < f b) xs" and "x \<in> set xs"
  shows "f x \<le> f (last xs)"
  using assms by (induction xs) (auto simp: order.order_iff_strict)

subsection \<open>Words\<close>

lemma unat_u64_max: "unat (x :: u64) \<le> u64_max"
proof -
  have "unat x < 2 ^ LENGTH(64)" by (rule unsigned_less)
  then show ?thesis by (simp add: u64_max_def)
qed

lemma unat_of_nat_u64: "n \<le> u64_max \<Longrightarrow> unat (of_nat n :: u64) = n"
  by (simp add: u64_max_def unat_of_nat take_bit_nat_eq_self)

lemma xor_left_cancel: "(a XOR b = a XOR c) \<longleftrightarrow> b = (c :: 'a::len word)"
  by (metis xor.assoc xor_self_eq xor.left_neutral)

lemma xor_right_cancel: "(b XOR a = c XOR a) \<longleftrightarrow> b = (c :: 'a::len word)"
  by (metis xor_left_cancel xor.commute)

lemma unat_ucast_mod: "unat (ucast (w :: 'a::len word) :: 'b::len word) = unat w mod 2 ^ LENGTH('b)"
  by (simp add: unsigned_ucast_eq take_bit_eq_mod)

end
