(* ===== verification/Wire_Codec.thy ===== *)
theory Wire_Codec
  imports Gw_Prelude
begin

text \<open>
  The byte codecs both spool implementations carry (\<open>spool.c\<close> and \<open>spool_v2.c\<close> hold the
  same static functions): little-endian integers and the reflected CRC-32 that protects every
  record and state image. The lemmas show that reading inverts writing and that the checksum
  of two byte strings of equal length differs whenever they differ in one byte.
\<close>

subsection \<open>Little-endian integers\<close>

definition put_u16 :: "u16 \<Rightarrow> bytes" where
  "put_u16 v = [ucast v, ucast (drop_bit 8 v)]"

definition put_u32 :: "u32 \<Rightarrow> bytes" where
  "put_u32 v = [ucast v, ucast (drop_bit 8 v), ucast (drop_bit 16 v), ucast (drop_bit 24 v)]"

definition put_u64 :: "u64 \<Rightarrow> bytes" where
  "put_u64 v = map (\<lambda>index. ucast (drop_bit (index * 8) v)) [0..<8]"

definition get_u16 :: "bytes \<Rightarrow> u16" where
  "get_u16 source = ucast (source ! 0) OR push_bit 8 (ucast (source ! 1))"

definition get_u32 :: "bytes \<Rightarrow> u32" where
  "get_u32 source = ucast (source ! 0) OR push_bit 8 (ucast (source ! 1)) OR
     push_bit 16 (ucast (source ! 2)) OR push_bit 24 (ucast (source ! 3))"

definition get_u64 :: "bytes \<Rightarrow> u64" where
  "get_u64 source =
     fold (\<lambda>index value. value OR push_bit (index * 8) (ucast (source ! index))) [0..<8] 0"

lemma length_put [byte_simps, simp]:
  "length (put_u16 a) = 2" "length (put_u32 b) = 4" "length (put_u64 c) = 8"
  by (simp_all add: put_u16_def put_u32_def put_u64_def)

text \<open>Each getter is a disjunction of shifted bytes; a bit of the result comes from the one byte
  whose range holds its index.\<close>

lemma bit_byte_of:
  "bit (push_bit k (ucast (ucast (drop_bit k v) :: u8)) :: 'a::len word) n \<longleftrightarrow>
     n < LENGTH('a) \<and> k \<le> n \<and> n < k + 8 \<and> bit (v :: 'a word) n"
  by (auto simp: bit_simps dest: bit_imp_le_length)

lemma bit_byte_0:
  "bit (ucast (ucast v :: u8) :: 'a::len word) n \<longleftrightarrow> n < 8 \<and> bit (v :: 'a word) n"
  by (auto simp: bit_simps dest: bit_imp_le_length)

lemma get_put_u16 [byte_simps, simp]: "get_u16 (put_u16 v @ rest) = v"
  by (rule bit_word_eqI) (auto simp: get_u16_def put_u16_def bit_or_iff bit_byte_of bit_byte_0)

lemma get_put_u32 [byte_simps, simp]: "get_u32 (put_u32 v @ rest) = v"
  by (rule bit_word_eqI) (auto simp: get_u32_def put_u32_def bit_or_iff bit_byte_of bit_byte_0)

lemma upt_0_8: "[0..<8] = [0, 1, 2, 3, 4, 5, 6, 7 :: nat]"
  by (simp add: upt_rec)

lemma get_put_u64 [byte_simps, simp]: "get_u64 (put_u64 v @ rest) = v"
proof (rule bit_word_eqI)
  fix n assume "n < LENGTH(64)"
  then show "bit (get_u64 (put_u64 v @ rest)) n = bit v n"
    by (auto simp: get_u64_def put_u64_def upt_0_8 bit_or_iff bit_byte_of bit_byte_0)
qed

text \<open>And writing inverts reading: a getter determines the bytes it read.\<close>

lemma bit_byte_beyond: "8 \<le> n \<Longrightarrow> \<not> bit (b :: u8) n"
  using bit_imp_le_length by fastforce

lemma put_get_u16 [byte_simps]:
  assumes "2 \<le> length bs" shows "put_u16 (get_u16 bs) = take 2 bs"
proof -
  obtain b0 b1 rest where bs: "bs = b0 # b1 # rest"
    using assms by (auto simp: numeral_eq_Suc Suc_le_length_iff)
  have "put_u16 (get_u16 bs) = [b0, b1]"
    unfolding bs put_u16_def get_u16_def list.inject
    by (intro conjI bit_word_eqI)
      (simp_all add: bit_or_iff bit_ucast_iff bit_push_bit_iff bit_drop_bit_eq bit_byte_beyond)
  then show ?thesis by (simp add: bs)
qed

lemma put_get_u32 [byte_simps]:
  assumes "4 \<le> length bs" shows "put_u32 (get_u32 bs) = take 4 bs"
proof -
  obtain b0 b1 b2 b3 rest where bs: "bs = b0 # b1 # b2 # b3 # rest"
    using assms by (auto simp: numeral_eq_Suc Suc_le_length_iff)
  have "put_u32 (get_u32 bs) = [b0, b1, b2, b3]"
    unfolding bs put_u32_def get_u32_def list.inject
    by (intro conjI bit_word_eqI)
      (simp_all add: bit_or_iff bit_ucast_iff bit_push_bit_iff bit_drop_bit_eq bit_byte_beyond)
  then show ?thesis by (simp add: bs)
qed

lemma put_get_u64 [byte_simps]:
  assumes "8 \<le> length bs" shows "put_u64 (get_u64 bs) = take 8 bs"
proof -
  obtain b0 b1 b2 b3 b4 b5 b6 b7 rest where
      bs: "bs = b0 # b1 # b2 # b3 # b4 # b5 # b6 # b7 # rest"
    using assms by (auto simp: numeral_eq_Suc Suc_le_length_iff)
  have "put_u64 (get_u64 bs) = [b0, b1, b2, b3, b4, b5, b6, b7]"
    unfolding bs put_u64_def get_u64_def upt_0_8 list.map list.inject
    by (intro conjI bit_word_eqI)
      (simp_all add: bit_or_iff bit_ucast_iff bit_push_bit_iff bit_drop_bit_eq bit_byte_beyond)
  then show ?thesis by (simp add: bs)
qed

subsection \<open>CRC-32\<close>

text \<open>One pass of the inner loop. The C expression \<open>(uint32_t)-(int32_t)(crc & 1U)\<close> is all ones
  or zero, which the negated word is as well.\<close>

definition crc32_bit :: "u32 \<Rightarrow> u32" where
  "crc32_bit crc = (let mask = - (crc AND 1) in drop_bit 1 crc XOR (0xedb88320 AND mask))"

definition crc32_step :: "u32 \<Rightarrow> u8 \<Rightarrow> u32" where
  "crc32_step crc byte = (crc32_bit ^^ 8) (crc XOR ucast byte)"

definition crc32_bytes :: "bytes \<Rightarrow> u32" where
  "crc32_bytes bs = NOT (fold (\<lambda>byte crc. crc32_step crc byte) bs 0xffffffff)"

lemma crc32_bit_if:
  "crc32_bit c = (if bit c 0 then drop_bit 1 c XOR 0xedb88320 else drop_bit 1 c)"
proof -
  have "c AND 1 = (if bit c 0 then 1 else 0)"
    by (simp add: and_one_eq bit_0 odd_iff_mod_2_eq_one mod2_eq_if)
  then show ?thesis by (simp add: crc32_bit_def)
qed

lemma crc32_bit_top: "bit (crc32_bit c) 31 \<longleftrightarrow> bit c 0"
  by (auto simp: crc32_bit_if bit_xor_iff bit_drop_bit_eq dest: bit_imp_le_length)

lemma inj_crc32_bit: "inj crc32_bit"
proof (rule injI)
  fix a b assume eq: "crc32_bit a = crc32_bit b"
  then have low: "bit a 0 \<longleftrightarrow> bit b 0" by (metis crc32_bit_top)
  with eq have high: "drop_bit 1 a = drop_bit 1 b"
    by (auto simp: crc32_bit_if xor_right_cancel split: if_splits)
  show "a = b"
  proof (rule bit_word_eqI)
    fix n assume "n < LENGTH(32)"
    show "bit a n = bit b n"
    proof (cases n)
      case 0
      then show ?thesis using low by simp
    next
      case (Suc m)
      then show ?thesis using arg_cong [OF high, of "\<lambda>w. bit w m"]
        by (simp add: bit_drop_bit_eq)
    qed
  qed
qed

lemma inj_crc32_bits: "inj (crc32_bit ^^ n)"
  by (rule inj_fn [OF inj_crc32_bit])

lemma crc32_bit_xor: "crc32_bit (a XOR b) = crc32_bit a XOR crc32_bit b"
  by (auto simp: crc32_bit_if bit_xor_iff drop_bit_xor ac_simps)

lemma crc32_bits_xor: "(crc32_bit ^^ n) (a XOR b) = (crc32_bit ^^ n) a XOR (crc32_bit ^^ n) b"
  by (induction n) (simp_all add: crc32_bit_xor)

text \<open>Eight passes move a byte that sits above eight clear bits down by eight places.\<close>

lemma crc32_bits_clear:
  "(\<And>i. i < n \<Longrightarrow> \<not> bit c i) \<Longrightarrow> (crc32_bit ^^ n) c = drop_bit n c"
proof (induction n)
  case 0
  then show ?case by simp
next
  case (Suc n)
  then have "(crc32_bit ^^ n) c = drop_bit n c" by simp
  moreover have "\<not> bit (drop_bit n c) 0" using Suc.prems by (simp add: bit_drop_bit_eq)
  ultimately have "crc32_bit ((crc32_bit ^^ n) c) = drop_bit 1 (drop_bit n c)"
    by (simp add: crc32_bit_if [of "drop_bit n c"])
  then show ?case by simp
qed

text \<open>Up to four bytes as one word, the first byte lowest.\<close>

fun pack_bytes :: "bytes \<Rightarrow> u32" where
  "pack_bytes [] = 0"
| "pack_bytes (b # bs) = ucast b XOR push_bit 8 (pack_bytes bs)"

lemma bit_pack_bytes:
  "bit (pack_bytes bs) n \<longleftrightarrow> n < 32 \<and> n div 8 < length bs \<and> bit (bs ! (n div 8)) (n mod 8)"
proof (induction bs arbitrary: n)
  case Nil
  then show ?case by simp
next
  case (Cons b bs)
  show ?case
  proof (cases "n < 8")
    case True
    then show ?thesis by (auto simp: bit_xor_iff bit_push_bit_iff bit_ucast_iff)
  next
    case False
    then have "n div 8 = Suc ((n - 8) div 8)" and "n mod 8 = (n - 8) mod 8"
      by (simp_all add: div_if [of n] mod_if [of n])
    with False show ?thesis
      by (auto simp: bit_xor_iff bit_push_bit_iff bit_ucast_iff Cons.IH dest: bit_imp_le_length)
  qed
qed

lemma fold_crc32_step_pack:
  "length bs \<le> 4 \<Longrightarrow>
     fold (\<lambda>byte crc. crc32_step crc byte) bs c = (crc32_bit ^^ (8 * length bs)) (c XOR pack_bytes bs)"
proof (induction bs arbitrary: c)
  case Nil
  then show ?case by simp
next
  case (Cons b bs)
  have "(crc32_bit ^^ 8) (push_bit 8 (pack_bytes bs)) = drop_bit 8 (push_bit 8 (pack_bytes bs))"
    by (rule crc32_bits_clear) (simp add: bit_push_bit_iff)
  also have "\<dots> = pack_bytes bs"
  proof (rule bit_word_eqI)
    fix n assume "n < LENGTH(32)"
    show "bit (drop_bit 8 (push_bit 8 (pack_bytes bs))) n = bit (pack_bytes bs) n"
      using Cons.prems by (auto simp: bit_drop_bit_eq bit_push_bit_iff bit_pack_bytes)
  qed
  finally have "(crc32_bit ^^ 8) (c XOR ucast b XOR push_bit 8 (pack_bytes bs)) =
      crc32_step c b XOR pack_bytes bs"
    by (simp add: crc32_step_def crc32_bits_xor xor.assoc)
  moreover have "(crc32_bit ^^ (8 + 8 * length bs)) x =
      (crc32_bit ^^ (8 * length bs)) ((crc32_bit ^^ 8) x)" for x
    by (simp only: funpow_add add.commute [of 8] o_apply)
  ultimately show ?case using Cons by (simp add: xor.assoc)
qed

lemma pack_bytes_inj:
  assumes "length xs = length ys" and "length xs \<le> 4" and "pack_bytes xs = pack_bytes ys"
  shows "xs = ys"
proof (rule nth_equalityI [OF assms(1)])
  fix i assume i: "i < length xs"
  show "xs ! i = ys ! i"
  proof (rule bit_word_eqI)
    fix n assume n: "n < LENGTH(8)"
    then have "(8 * i + n) div 8 = i" and "(8 * i + n) mod 8 = n" by simp_all
    moreover have "8 * i + n < 32" using i n assms(2) by simp
    ultimately show "bit (xs ! i) n = bit (ys ! i) n"
      using bit_pack_bytes [of xs "8 * i + n"] bit_pack_bytes [of ys "8 * i + n"] assms i by simp
  qed
qed

lemma inj_crc32_step: "inj (\<lambda>crc. crc32_step crc byte)"
proof (rule injI)
  fix a b assume "crc32_step a byte = crc32_step b byte"
  then have "a XOR ucast byte = b XOR ucast byte"
    unfolding crc32_step_def by (rule injD [OF inj_crc32_bits])
  then show "a = b" by (simp add: xor_right_cancel)
qed

lemma inj_fold_crc32_step: "inj (fold (\<lambda>byte crc. crc32_step crc byte) bs)"
proof (induction bs)
  case Nil
  then show ?case by simp
next
  case (Cons b bs)
  then show ?case using inj_compose [OF Cons.IH inj_crc32_step [of b]] by (simp add: comp_def)
qed

lemma crc32_burst_eq:
  assumes "length xs = length ys" and "length xs \<le> 4"
    and "crc32_bytes (pre @ xs @ post) = crc32_bytes (pre @ ys @ post)"
  shows "xs = ys"
proof -
  let ?c = "fold (\<lambda>byte crc. crc32_step crc byte) pre 0xffffffff"
  have "fold (\<lambda>byte crc. crc32_step crc byte) xs ?c = fold (\<lambda>byte crc. crc32_step crc byte) ys ?c"
    using assms(3) injD [OF inj_fold_crc32_step [of post]]
    by (simp add: crc32_bytes_def bit.compl_eq_compl_iff)
  then have "?c XOR pack_bytes xs = ?c XOR pack_bytes ys"
    using assms(1,2) injD [OF inj_crc32_bits] by (simp add: fold_crc32_step_pack)
  then have "pack_bytes xs = pack_bytes ys" by (simp only: xor_left_cancel)
  with assms show ?thesis by (blast intro: pack_bytes_inj)
qed

text \<open>One changed byte is the burst of length one.\<close>

lemma crc32_byte_detected:
  assumes "i < length bs" and "bs ! i \<noteq> b"
  shows "crc32_bytes (bs[i := b]) \<noteq> crc32_bytes bs"
proof
  assume "crc32_bytes (bs[i := b]) = crc32_bytes bs"
  then have "crc32_bytes (take i bs @ [b] @ drop (Suc i) bs) =
      crc32_bytes (take i bs @ [bs ! i] @ drop (Suc i) bs)"
    using assms(1) by (simp add: upd_conv_take_nth_drop id_take_nth_drop [symmetric])
  from crc32_burst_eq [OF _ _ this] assms(2) show False by simp
qed



text \<open>Evaluation on numerals, and the published check value of this CRC: the digits 1 to 9 give
  \<open>0xcbf43926\<close>.\<close>

lemma crc32_step_eval:
  "crc32_step c b = crc32_bit (crc32_bit (crc32_bit (crc32_bit (crc32_bit (crc32_bit
     (crc32_bit (crc32_bit (c XOR ucast b))))))))"
  by (simp add: crc32_step_def numeral_eq_Suc)

lemmas crc32_bit_eval = crc32_bit_if [of 0] crc32_bit_if [of 1] crc32_bit_if [of "numeral n"] for n

lemma crc32_check_value: "crc32_bytes [49, 50, 51, 52, 53, 54, 55, 56, 57] = 0xcbf43926"
  by (simp add: crc32_bytes_def crc32_step_eval crc32_bit_eval)

end
