(* ===== verification/Telemetry.thy ===== *)
theory Telemetry
  imports Wire_Codec
begin

text \<open>
  The 64-byte \<open>telemetry_record\<close> that travels from the CAN receiver through the queue into the
  spool (\<open>telemetry_record.h\<close>), and its 80-byte on-disk images: the legacy GSP1 entry of
  \<open>spool.c\<close> and the GSP2 entry of \<open>spool_v2.c\<close>. The lemmas give the round trip of both codecs,
  and that a decoder rejects corrupted payloads and the entries of the other format.
\<close>

subsection \<open>The record\<close>

definition GATEWAY_CAN_DATA_SIZE :: nat where
  "GATEWAY_CAN_DATA_SIZE = 8"

definition GATEWAY_DECODED_PAYLOAD_SIZE :: nat where
  "GATEWAY_DECODED_PAYLOAD_SIZE = 32"

definition GATEWAY_RECORD_STATUS_KERNEL_TIMESTAMP_VALID :: u16 where
  "GATEWAY_RECORD_STATUS_KERNEL_TIMESTAMP_VALID = push_bit 0 1"

definition GATEWAY_RECORD_STATUS_CHECKSUM_VALID :: u16 where
  "GATEWAY_RECORD_STATUS_CHECKSUM_VALID = push_bit 1 1"

definition GATEWAY_RECORD_STATUS_DECODED_VALID :: u16 where
  "GATEWAY_RECORD_STATUS_DECODED_VALID = push_bit 2 1"

lemmas status_defs = GATEWAY_RECORD_STATUS_KERNEL_TIMESTAMP_VALID_def
  GATEWAY_RECORD_STATUS_CHECKSUM_VALID_def GATEWAY_RECORD_STATUS_DECODED_VALID_def

text \<open>The timestamp is the C \<open>int64_t\<close>: a 64-bit word read with \<^const>\<open>sint\<close>. The two arrays
  are lists whose lengths \<open>wf_record\<close> fixes to the declared sizes.\<close>

record telemetry_record =
  gateway_seq :: u64
  kernel_timestamp_ns :: u64
  can_id :: u32
  data :: bytes
  status_flags :: u16
  dlc :: u8
  ecu_counter :: u8
  decoded_payload :: bytes

definition wf_record :: "telemetry_record \<Rightarrow> bool" where
  "wf_record r \<longleftrightarrow>
     length (data r) = GATEWAY_CAN_DATA_SIZE \<and>
     length (decoded_payload r) = GATEWAY_DECODED_PAYLOAD_SIZE"

text \<open>\<open>memset(record, 0, sizeof(*record))\<close>.\<close>

definition zero_record :: telemetry_record where
  "zero_record = \<lparr>gateway_seq = 0, kernel_timestamp_ns = 0, can_id = 0,
     data = replicate GATEWAY_CAN_DATA_SIZE 0, status_flags = 0, dlc = 0, ecu_counter = 0,
     decoded_payload = replicate GATEWAY_DECODED_PAYLOAD_SIZE 0\<rparr>"

lemma wf_zero_record [simp]: "wf_record zero_record"
  by (simp add: wf_record_def zero_record_def)

subsection \<open>On-disk entries\<close>

definition GATEWAY_SPOOL_ENTRY_SIZE :: nat where
  "GATEWAY_SPOOL_ENTRY_SIZE = 80"

definition ENTRY_MAGIC :: bytes where
  "ENTRY_MAGIC = map (of_nat \<circ> of_char) ''GSP1''"

definition V2_ENTRY_MAGIC :: bytes where
  "V2_ENTRY_MAGIC = map (of_nat \<circ> of_char) ''GSP2''"

text \<open>The 64 payload bytes, the same in both formats.\<close>

definition encode_payload :: "telemetry_record \<Rightarrow> bytes" where
  "encode_payload r =
     put_u64 (gateway_seq r) @ put_u64 (kernel_timestamp_ns r) @ put_u32 (can_id r) @ data r @
     put_u16 (status_flags r) @ [dlc r] @ [ecu_counter r] @ decoded_payload r"

definition decode_payload :: "bytes \<Rightarrow> telemetry_record" where
  "decode_payload payload = zero_record\<lparr>
     gateway_seq := get_u64 payload,
     kernel_timestamp_ns := get_u64 (drop 8 payload),
     can_id := get_u32 (drop 16 payload),
     data := take GATEWAY_CAN_DATA_SIZE (drop 20 payload),
     status_flags := get_u16 (drop 28 payload),
     dlc := payload ! 30,
     ecu_counter := payload ! 31,
     decoded_payload := take GATEWAY_DECODED_PAYLOAD_SIZE (drop 32 payload)\<rparr>"

text \<open>Bytes 12 to 15 of an entry are left zero by the \<open>memset\<close>.\<close>

definition encode_record :: "telemetry_record \<Rightarrow> bytes" where
  "encode_record r =
     (let payload = encode_payload r in
      ENTRY_MAGIC @ put_u16 1 @ put_u16 (of_nat GATEWAY_SPOOL_ENTRY_SIZE) @
      put_u32 (crc32_bytes payload) @ replicate 4 0 @ payload)"

definition decode_record :: "bytes \<Rightarrow> gateway_error_code + telemetry_record" where
  "decode_record entry =
     (let payload = drop 16 entry in
      if take 4 entry \<noteq> ENTRY_MAGIC \<or> get_u16 (drop 4 entry) \<noteq> 1 \<or>
         get_u16 (drop 6 entry) \<noteq> of_nat GATEWAY_SPOOL_ENTRY_SIZE \<or>
         get_u32 (drop 8 entry) \<noteq> crc32_bytes (take 64 payload)
      then Inl GATEWAY_ERROR_INVALID_VALUE
      else let r = decode_payload payload in
        if gateway_seq r = 0 then Inl GATEWAY_ERROR_INVALID_VALUE else Inr r)"

definition v2_encode_record :: "telemetry_record \<Rightarrow> bytes" where
  "v2_encode_record r =
     (let payload = encode_payload r in
      V2_ENTRY_MAGIC @ put_u16 2 @ put_u16 (of_nat GATEWAY_SPOOL_ENTRY_SIZE) @
      put_u32 (crc32_bytes payload) @ replicate 4 0 @ payload)"

definition v2_decode_record :: "bytes \<Rightarrow> gateway_error_code + telemetry_record" where
  "v2_decode_record entry =
     (let payload = drop 16 entry in
      if take 4 entry \<noteq> V2_ENTRY_MAGIC \<or> get_u16 (drop 4 entry) \<noteq> 2 \<or>
         get_u16 (drop 6 entry) \<noteq> of_nat GATEWAY_SPOOL_ENTRY_SIZE \<or>
         get_u32 (drop 8 entry) \<noteq> crc32_bytes (take 64 payload) \<or>
         get_u32 (drop 12 entry) \<noteq> 0
      then Inl GATEWAY_ERROR_INVALID_VALUE
      else let r = decode_payload payload in
        if gateway_seq r = 0 then Inl GATEWAY_ERROR_INVALID_VALUE else Inr r)"

lemmas record_sizes = GATEWAY_CAN_DATA_SIZE_def GATEWAY_DECODED_PAYLOAD_SIZE_def
  GATEWAY_SPOOL_ENTRY_SIZE_def

lemma length_magic [simp]: "length ENTRY_MAGIC = 4" "length V2_ENTRY_MAGIC = 4"
  by (simp_all add: ENTRY_MAGIC_def V2_ENTRY_MAGIC_def)

lemma magic_differs: "ENTRY_MAGIC \<noteq> V2_ENTRY_MAGIC"
  by (simp add: ENTRY_MAGIC_def V2_ENTRY_MAGIC_def)

lemma length_encode_payload [simp]: "wf_record r \<Longrightarrow> length (encode_payload r) = 64"
  by (simp add: encode_payload_def wf_record_def record_sizes)

lemma length_encode_record [simp]:
  "wf_record r \<Longrightarrow> length (encode_record r) = GATEWAY_SPOOL_ENTRY_SIZE"
  "wf_record r \<Longrightarrow> length (v2_encode_record r) = GATEWAY_SPOOL_ENTRY_SIZE"
  by (simp_all add: encode_record_def v2_encode_record_def Let_def record_sizes)

lemma wf_decode_payload: "64 \<le> length bs \<Longrightarrow> wf_record (decode_payload bs)"
  by (simp add: decode_payload_def wf_record_def record_sizes zero_record_def)

subsection \<open>Round trips\<close>

lemma decode_encode_payload: "wf_record r \<Longrightarrow> decode_payload (encode_payload r @ rest) = r"
  by (simp add: decode_payload_def encode_payload_def wf_record_def record_sizes zero_record_def
      nth_append)

lemma drop_append_exact: "n = length xs \<Longrightarrow> drop n (xs @ ys) = ys"
  by simp

text \<open>Bytes regrouped: a list of known length is the concatenation of its windows.\<close>

lemma take_drop_split:
  "n + m \<le> length bs \<Longrightarrow> take m (drop n bs) @ drop (n + m) bs = drop n bs"
  by (metis add.commute append_take_drop_id drop_drop)

lemma encode_decode_payload:
  assumes "length bs = 64"
  shows "encode_payload (decode_payload bs) = bs"
proof -
  have "encode_payload (decode_payload bs) =
      take 8 bs @ take 8 (drop 8 bs) @ take 4 (drop 16 bs) @ take 8 (drop 20 bs) @
      take 2 (drop 28 bs) @ [bs ! 30] @ [bs ! 31] @ take 32 (drop 32 bs)"
    using assms by (simp add: encode_payload_def decode_payload_def record_sizes byte_simps)
  also have "[bs ! 30] @ [bs ! 31] @ take 32 (drop 32 bs) = drop 30 bs"
    using assms by (simp add: Cons_nth_drop_Suc [symmetric] numeral_eq_Suc)
  finally show ?thesis
    using take_drop_split [of 28 2 bs] take_drop_split [of 20 8 bs] take_drop_split [of 16 4 bs]
      take_drop_split [of 8 8 bs] assms by simp
qed

text \<open>The windows of an encoded entry, as the decoders read them.\<close>

lemma entry_windows:
  assumes "length m = 4"
  shows "take 4 (m @ put_u16 a @ put_u16 b @ put_u32 c @ z @ p) = m"
    and "drop 4 (m @ put_u16 a @ put_u16 b @ put_u32 c @ z @ p) = put_u16 a @ put_u16 b @ put_u32 c @ z @ p"
    and "drop 6 (m @ put_u16 a @ put_u16 b @ put_u32 c @ z @ p) = put_u16 b @ put_u32 c @ z @ p"
    and "drop 8 (m @ put_u16 a @ put_u16 b @ put_u32 c @ z @ p) = put_u32 c @ z @ p"
    and "drop 12 (m @ put_u16 a @ put_u16 b @ put_u32 c @ z @ p) = z @ p"
    and "length z = 4 \<Longrightarrow> drop 16 (m @ put_u16 a @ put_u16 b @ put_u32 c @ z @ p) = p"
  using assms by simp_all

lemma get_u32_zeros [simp]: "get_u32 (replicate 4 0 @ bs) = 0"
  by (simp add: get_u32_def numeral_eq_Suc)

lemma decode_encode_record:
  assumes "wf_record r" and "gateway_seq r \<noteq> 0"
  shows "decode_record (encode_record r) = Inr r"
  using assms decode_encode_payload [of r "[]"]
  by (simp add: decode_record_def encode_record_def Let_def entry_windows)

lemma v2_decode_encode_record:
  assumes "wf_record r" and "gateway_seq r \<noteq> 0"
  shows "v2_decode_record (v2_encode_record r) = Inr r"
  using assms decode_encode_payload [of r "[]"]
  by (simp add: v2_decode_record_def v2_encode_record_def Let_def entry_windows)

lemma decode_record_InrD:
  assumes "decode_record e = Inr r" and "length e = 80"
  shows "wf_record r" and "gateway_seq r \<noteq> 0"
  using assms wf_decode_payload [of "drop 16 e"]
  by (auto simp: decode_record_def Let_def split: if_splits)

lemma v2_decode_record_InrD:
  assumes "v2_decode_record e = Inr r" and "length e = 80"
  shows "wf_record r" and "gateway_seq r \<noteq> 0"
  using assms wf_decode_payload [of "drop 16 e"]
  by (auto simp: v2_decode_record_def Let_def split: if_splits)

text \<open>An entry is its six windows.\<close>

lemma entry_split:
  assumes "length e = 80"
  shows "e = take 4 e @ take 2 (drop 4 e) @ take 2 (drop 6 e) @ take 4 (drop 8 e) @
    take 4 (drop 12 e) @ drop 16 e"
  using assms take_drop_split [of 12 4 e] take_drop_split [of 8 4 e] take_drop_split [of 6 2 e]
    take_drop_split [of 4 2 e] take_drop_split [of 0 4 e] by simp

lemma v2_decode_canonical:
  assumes ok: "v2_decode_record e = Inr r" and len: "length e = 80"
  shows "e = v2_encode_record r"
proof -
  have fields: "take 4 e = V2_ENTRY_MAGIC" "get_u16 (drop 4 e) = 2" "get_u16 (drop 6 e) = 80"
      "get_u32 (drop 8 e) = crc32_bytes (drop 16 e)" "get_u32 (drop 12 e) = 0"
      and r: "r = decode_payload (drop 16 e)"
    using ok len by (auto simp: v2_decode_record_def Let_def record_sizes split: if_splits)
  have "encode_payload r = drop 16 e"
    unfolding r by (rule encode_decode_payload) (simp add: len)
  moreover have "take 2 (drop 4 e) = put_u16 2" "take 2 (drop 6 e) = put_u16 80"
      "take 4 (drop 8 e) = put_u32 (crc32_bytes (drop 16 e))" "take 4 (drop 12 e) = put_u32 0"
    using put_get_u16 [of "drop 4 e"] put_get_u16 [of "drop 6 e"] put_get_u32 [of "drop 8 e"]
      put_get_u32 [of "drop 12 e"] fields len by simp_all
  moreover have "put_u32 0 = replicate 4 0" by (simp add: put_u32_def numeral_eq_Suc)
  ultimately show ?thesis
    using entry_split [OF len] fields(1)
    by (simp add: v2_encode_record_def Let_def record_sizes)
qed

text \<open>C25: both spool formats are lossless for every record with a non-zero sequence number, and an
  entry of one format is rejected by the decoder of the other, so a spool never reads records
  written under the other format.\<close>

theorem record_codec_roundtrip:
  assumes "wf_record r" and "gateway_seq r \<noteq> 0"
  shows "decode_record (encode_record r) = Inr r \<and>
    v2_decode_record (v2_encode_record r) = Inr r \<and>
    decode_record (v2_encode_record r) = Inl GATEWAY_ERROR_INVALID_VALUE \<and>
    v2_decode_record (encode_record r) = Inl GATEWAY_ERROR_INVALID_VALUE"
proof (intro conjI)
  show "decode_record (v2_encode_record r) = Inl GATEWAY_ERROR_INVALID_VALUE"
    using magic_differs by (simp add: decode_record_def v2_encode_record_def Let_def)
  show "v2_decode_record (encode_record r) = Inl GATEWAY_ERROR_INVALID_VALUE"
    using magic_differs by (simp add: v2_decode_record_def encode_record_def Let_def)
qed (rule decode_encode_record [OF assms], rule v2_decode_encode_record [OF assms])

theorem record_codec_roundtrip_witness:
  "wf_record (zero_record\<lparr>gateway_seq := 7\<rparr>) \<and>
   decode_record (encode_record (zero_record\<lparr>gateway_seq := 7\<rparr>)) = Inr (zero_record\<lparr>gateway_seq := 7\<rparr>)"
  using record_codec_roundtrip [of "zero_record\<lparr>gateway_seq := 7\<rparr>"]
  by (simp add: wf_record_def zero_record_def)

text \<open>C26: the GSP2 decoder accepts exactly the images of the encoder, and any single corrupted byte
  of a stored entry, header or payload, makes it reject the entry.\<close>

theorem v2_entry_corruption_detected:
  assumes "wf_record r" and "i < GATEWAY_SPOOL_ENTRY_SIZE" and "v2_encode_record r ! i \<noteq> b"
  shows "v2_decode_record ((v2_encode_record r)[i := b]) = Inl GATEWAY_ERROR_INVALID_VALUE"
proof (cases "v2_decode_record ((v2_encode_record r)[i := b])")
  case (Inl err)
  then show ?thesis by (auto simp: v2_decode_record_def Let_def split: if_splits)
next
  case (Inr r')
  let ?e = "v2_encode_record r"
  have len: "length ?e = 80" using assms(1) by (simp add: record_sizes)
  have "?e[i := b] = v2_encode_record r'"
    by (rule v2_decode_canonical [OF Inr]) (simp add: len)
  moreover have wf: "wf_record r'"
    by (rule v2_decode_record_InrD [OF Inr]) (simp add: len)
  ultimately have hdr: "take 16 (?e[i := b]) = take 16 (v2_encode_record r')"
      and pay: "drop 16 (?e[i := b]) = encode_payload r'"
    by (simp_all add: v2_encode_record_def Let_def entry_windows)
  have pay0: "drop 16 ?e = encode_payload r"
    by (simp add: v2_encode_record_def Let_def entry_windows)
  have crc: "get_u32 (drop 8 (?e[i := b])) = crc32_bytes (encode_payload r')"
    using \<open>?e[i := b] = v2_encode_record r'\<close>
    by (simp add: v2_encode_record_def Let_def entry_windows)
  have crc0: "get_u32 (drop 8 ?e) = crc32_bytes (encode_payload r)"
    by (simp add: v2_encode_record_def Let_def entry_windows)
  have False
  proof (cases "i < 16")
    case True
    then have "encode_payload r' = encode_payload r" using pay pay0 by simp
    then have "?e[i := b] = ?e"
      using \<open>?e[i := b] = v2_encode_record r'\<close> by (simp add: v2_encode_record_def Let_def)
    then show False
      using list_update_differs [of i ?e b] assms(2,3) len by (simp add: record_sizes)
  next
    case False
    have changed: "encode_payload r' = (encode_payload r)[i - 16 := b]"
      using pay pay0 False by (simp add: drop_update_swap)
    moreover have "crc32_bytes (encode_payload r') = crc32_bytes (encode_payload r)"
      using crc crc0 False by (simp add: drop_update_swap get_u32_def)
    moreover have "encode_payload r ! (i - 16) = ?e ! i"
      using False len pay0 [symmetric] by simp
    moreover have "i - 16 < length (encode_payload r)"
      using assms False by (simp add: record_sizes)
    ultimately show False
      using crc32_byte_detected [of "i - 16" "encode_payload r" b] assms(3) by simp
  qed
  then show ?thesis ..
qed

theorem v2_entry_corruption_detected_witness:
  "v2_decode_record ((v2_encode_record (zero_record\<lparr>gateway_seq := 7\<rparr>))[16 := 99]) =
     Inl GATEWAY_ERROR_INVALID_VALUE"
  by (rule v2_entry_corruption_detected)
    (simp_all add: wf_record_def zero_record_def record_sizes v2_encode_record_def Let_def
      nth_append encode_payload_def put_u64_def)

end
