(* ===== verification/Vehicle_Decoder.thy ===== *)
theory Vehicle_Decoder
  imports Telemetry
begin

text \<open>
  The static DBC decoder of \<open>gateway/src/vehicle_decoder.c\<close>: a supported eight-byte frame whose
  last byte is the XOR of the first seven becomes a \<open>gateway_decoded_payload\<close>, which is copied
  byte for byte into the 32-byte area of the telemetry record. The C union of the three signal
  structs is the datatype \<open>gateway_decoded_signals\<close>; its byte image is the little-endian layout
  that the static assertions of \<open>vehicle_decoder.h\<close> fix on the ARM and x86 targets.
\<close>

subsection \<open>Types\<close>

definition GATEWAY_CAN_ID_VEHICLE_DYNAMICS :: u32 where
  "GATEWAY_CAN_ID_VEHICLE_DYNAMICS = 0x100"

definition GATEWAY_CAN_ID_POWER_STATUS :: u32 where
  "GATEWAY_CAN_ID_POWER_STATUS = 0x101"

definition GATEWAY_CAN_ID_BODY_STATUS :: u32 where
  "GATEWAY_CAN_ID_BODY_STATUS = 0x102"

lemmas can_id_defs = GATEWAY_CAN_ID_VEHICLE_DYNAMICS_def GATEWAY_CAN_ID_POWER_STATUS_def
  GATEWAY_CAN_ID_BODY_STATUS_def

definition GATEWAY_DECODED_SCHEMA_VERSION :: u8 where "GATEWAY_DECODED_SCHEMA_VERSION = 1"
definition GATEWAY_VEHICLE_SIGNAL_MASK :: u32 where "GATEWAY_VEHICLE_SIGNAL_MASK = 0x0f"
definition GATEWAY_POWER_SIGNAL_MASK :: u32 where "GATEWAY_POWER_SIGNAL_MASK = 0x0f"
definition GATEWAY_BODY_SIGNAL_MASK :: u32 where "GATEWAY_BODY_SIGNAL_MASK = 0x07"

lemmas payload_constants = GATEWAY_DECODED_SCHEMA_VERSION_def GATEWAY_VEHICLE_SIGNAL_MASK_def
  GATEWAY_POWER_SIGNAL_MASK_def GATEWAY_BODY_SIGNAL_MASK_def

datatype gateway_message_type =
    GATEWAY_MESSAGE_TYPE_NONE
  | GATEWAY_MESSAGE_TYPE_VEHICLE_DYNAMICS
  | GATEWAY_MESSAGE_TYPE_POWER_STATUS
  | GATEWAY_MESSAGE_TYPE_BODY_STATUS

fun message_type_value :: "gateway_message_type \<Rightarrow> u8" where
  "message_type_value GATEWAY_MESSAGE_TYPE_NONE = 0"
| "message_type_value GATEWAY_MESSAGE_TYPE_VEHICLE_DYNAMICS = 1"
| "message_type_value GATEWAY_MESSAGE_TYPE_POWER_STATUS = 2"
| "message_type_value GATEWAY_MESSAGE_TYPE_BODY_STATUS = 3"

datatype gateway_decode_result =
    GATEWAY_DECODE_OK
  | GATEWAY_DECODE_INVALID_ARGUMENT
  | GATEWAY_DECODE_UNSUPPORTED_ID
  | GATEWAY_DECODE_INVALID_DLC
  | GATEWAY_DECODE_CHECKSUM_MISMATCH

fun gateway_decode_result_name :: "gateway_decode_result \<Rightarrow> string" where
  "gateway_decode_result_name GATEWAY_DECODE_OK = ''ok''"
| "gateway_decode_result_name GATEWAY_DECODE_INVALID_ARGUMENT = ''invalid_argument''"
| "gateway_decode_result_name GATEWAY_DECODE_UNSUPPORTED_ID = ''unsupported_id''"
| "gateway_decode_result_name GATEWAY_DECODE_INVALID_DLC = ''invalid_dlc''"
| "gateway_decode_result_name GATEWAY_DECODE_CHECKSUM_MISMATCH = ''checksum_mismatch''"

record gateway_vehicle_dynamics_signals =
  vehicle_speed_centi_kph :: u32
  engine_speed_quarter_rpm :: u32
  throttle_tenth_percent :: u16
  gear :: u8

record gateway_power_status_signals =
  battery_millivolt :: u32
  coolant_celsius :: u16
  soc_tenth_percent :: u16
  fault_flags :: u16

record gateway_body_status_signals =
  odometer_tenth_km :: u32
  door_flags :: u8
  ignition_state :: u8

text \<open>The union, tagged by the member last written; \<open>Signal_bytes\<close> is the member \<open>bytes\<close>, which
  \<open>memset\<close> and \<open>memcpy\<close> write. \<open>coolant_celsius\<close> is the C \<open>int16_t\<close>, read with \<^const>\<open>sint\<close>.\<close>

datatype gateway_decoded_signals =
    Vehicle_dynamics gateway_vehicle_dynamics_signals
  | Power_status gateway_power_status_signals
  | Body_status gateway_body_status_signals
  | Signal_bytes bytes

record gateway_decoded_payload =
  schema_version :: u8
  message_type :: u8
  rolling_counter :: u8
  checksum :: u8
  valid_signal_mask :: u32
  signals :: gateway_decoded_signals

definition zero_decoded_payload :: gateway_decoded_payload where
  "zero_decoded_payload = \<lparr>schema_version = 0, message_type = 0, rolling_counter = 0,
     checksum = 0, valid_signal_mask = 0, signals = Signal_bytes (replicate 24 0)\<rparr>"

subsection \<open>Byte image of the payload\<close>

text \<open>Members in declaration order; the trailing \<open>reserved\<close> arrays are zero because the payload
  was cleared before the members were assigned.\<close>

fun signals_bytes :: "gateway_decoded_signals \<Rightarrow> bytes" where
  "signals_bytes (Vehicle_dynamics s) =
     put_u32 (vehicle_speed_centi_kph s) @ put_u32 (engine_speed_quarter_rpm s) @
     put_u16 (throttle_tenth_percent s) @ [gear s] @ replicate 13 0"
| "signals_bytes (Power_status s) =
     put_u32 (battery_millivolt s) @ put_u16 (coolant_celsius s) @
     put_u16 (soc_tenth_percent s) @ put_u16 (fault_flags s) @ replicate 14 0"
| "signals_bytes (Body_status s) =
     put_u32 (odometer_tenth_km s) @ [door_flags s] @ [ignition_state s] @ replicate 18 0"
| "signals_bytes (Signal_bytes bs) = bs"

definition payload_bytes :: "gateway_decoded_payload \<Rightarrow> bytes" where
  "payload_bytes p =
     [schema_version p, message_type p, rolling_counter p, checksum p] @
     put_u32 (valid_signal_mask p) @ signals_bytes (signals p)"

definition payload_of_bytes :: "bytes \<Rightarrow> gateway_decoded_payload" where
  "payload_of_bytes bs = \<lparr>schema_version = bs ! 0, message_type = bs ! 1,
     rolling_counter = bs ! 2, checksum = bs ! 3, valid_signal_mask = get_u32 (drop 4 bs),
     signals = Signal_bytes (take 24 (drop 8 bs))\<rparr>"

text \<open>Reading a struct member of the union reinterprets the bytes of whatever was written last.\<close>

definition as_vehicle_dynamics :: "gateway_decoded_signals \<Rightarrow> gateway_vehicle_dynamics_signals" where
  "as_vehicle_dynamics u = (let bs = signals_bytes u in
     \<lparr>vehicle_speed_centi_kph = get_u32 bs, engine_speed_quarter_rpm = get_u32 (drop 4 bs),
      throttle_tenth_percent = get_u16 (drop 8 bs), gear = bs ! 10\<rparr>)"

definition as_power_status :: "gateway_decoded_signals \<Rightarrow> gateway_power_status_signals" where
  "as_power_status u = (let bs = signals_bytes u in
     \<lparr>battery_millivolt = get_u32 bs, coolant_celsius = get_u16 (drop 4 bs),
      soc_tenth_percent = get_u16 (drop 6 bs), fault_flags = get_u16 (drop 8 bs)\<rparr>)"

definition as_body_status :: "gateway_decoded_signals \<Rightarrow> gateway_body_status_signals" where
  "as_body_status u = (let bs = signals_bytes u in
     \<lparr>odometer_tenth_km = get_u32 bs, door_flags = bs ! 4, ignition_state = bs ! 5\<rparr>)"

subsection \<open>Decoding a frame\<close>

definition read_u16_le :: "bytes \<Rightarrow> u16" where
  "read_u16_le d = ucast (d ! 0) OR push_bit 8 (ucast (d ! 1))"

definition read_u24_le :: "bytes \<Rightarrow> u32" where
  "read_u24_le d = ucast (d ! 0) OR push_bit 8 (ucast (d ! 1)) OR push_bit 16 (ucast (d ! 2))"

definition calculate_xor :: "bytes \<Rightarrow> u8" where
  "calculate_xor d = fold (\<lambda>index cs. cs XOR d ! index) [0..<GATEWAY_CAN_DATA_SIZE - 1] 0"

definition initialize_decoded_payload ::
    "gateway_message_type \<Rightarrow> bytes \<Rightarrow> gateway_decoded_payload" where
  "initialize_decoded_payload mt d = zero_decoded_payload\<lparr>
     schema_version := GATEWAY_DECODED_SCHEMA_VERSION, message_type := message_type_value mt,
     rolling_counter := d ! 6, checksum := d ! 7\<rparr>"

fun message_type_of_id :: "u32 \<Rightarrow> gateway_message_type" where
  "message_type_of_id cid =
     (if cid = GATEWAY_CAN_ID_VEHICLE_DYNAMICS then GATEWAY_MESSAGE_TYPE_VEHICLE_DYNAMICS
      else if cid = GATEWAY_CAN_ID_POWER_STATUS then GATEWAY_MESSAGE_TYPE_POWER_STATUS
      else if cid = GATEWAY_CAN_ID_BODY_STATUS then GATEWAY_MESSAGE_TYPE_BODY_STATUS
      else GATEWAY_MESSAGE_TYPE_NONE)"

text \<open>The second \<open>switch\<close>: assign the signals of the frame's type.\<close>

fun decode_signals :: "gateway_message_type \<Rightarrow> bytes \<Rightarrow> gateway_decoded_payload \<Rightarrow>
    gateway_decode_result \<times> gateway_decoded_payload" where
  "decode_signals GATEWAY_MESSAGE_TYPE_VEHICLE_DYNAMICS d p =
     (GATEWAY_DECODE_OK, p\<lparr>valid_signal_mask := GATEWAY_VEHICLE_SIGNAL_MASK,
        signals := Vehicle_dynamics \<lparr>
          vehicle_speed_centi_kph = ucast (read_u16_le d),
          engine_speed_quarter_rpm = ucast (read_u16_le (drop 2 d)),
          throttle_tenth_percent = ucast (d ! 4) * 4, gear = d ! 5\<rparr>\<rparr>)"
| "decode_signals GATEWAY_MESSAGE_TYPE_POWER_STATUS d p =
     (GATEWAY_DECODE_OK, p\<lparr>valid_signal_mask := GATEWAY_POWER_SIGNAL_MASK,
        signals := Power_status \<lparr>
          battery_millivolt = ucast (read_u16_le d), coolant_celsius = ucast (d ! 2) - 40,
          soc_tenth_percent = ucast (d ! 3) * 4, fault_flags = read_u16_le (drop 4 d)\<rparr>\<rparr>)"
| "decode_signals GATEWAY_MESSAGE_TYPE_BODY_STATUS d p =
     (GATEWAY_DECODE_OK, p\<lparr>valid_signal_mask := GATEWAY_BODY_SIGNAL_MASK,
        signals := Body_status \<lparr>
          odometer_tenth_km = read_u24_le d, door_flags = d ! 3 AND 0x0f,
          ignition_state = d ! 4 AND 0x03\<rparr>\<rparr>)"
| "decode_signals GATEWAY_MESSAGE_TYPE_NONE d p = (GATEWAY_DECODE_UNSUPPORTED_ID, p)"

text \<open>A pointer argument is an option, \<open>None\<close> being \<open>NULL\<close>; the result carries what \<open>*decoded\<close>
  holds afterwards. It is cleared before the frame is looked at, so it is zero on every error.\<close>

definition gateway_vehicle_decode_frame :: "u32 \<Rightarrow> u8 \<Rightarrow> bytes option \<Rightarrow>
    gateway_decoded_payload option \<Rightarrow> gateway_decode_result \<times> gateway_decoded_payload option" where
  "gateway_vehicle_decode_frame cid dlc_arg data_arg decoded =
     (case decoded of
        None \<Rightarrow> (GATEWAY_DECODE_INVALID_ARGUMENT, None)
      | Some _ \<Rightarrow>
        (case data_arg of
           None \<Rightarrow> (GATEWAY_DECODE_INVALID_ARGUMENT, Some zero_decoded_payload)
         | Some d \<Rightarrow>
           let mt = message_type_of_id cid in
           if mt = GATEWAY_MESSAGE_TYPE_NONE
           then (GATEWAY_DECODE_UNSUPPORTED_ID, Some zero_decoded_payload)
           else if dlc_arg \<noteq> of_nat GATEWAY_CAN_DATA_SIZE
           then (GATEWAY_DECODE_INVALID_DLC, Some zero_decoded_payload)
           else if calculate_xor d \<noteq> d ! 7
           then (GATEWAY_DECODE_CHECKSUM_MISMATCH, Some zero_decoded_payload)
           else let (res, p) = decode_signals mt d (initialize_decoded_payload mt d)
                in (res, Some p)))"

subsection \<open>Decoding a record in place\<close>

definition decode_flag_mask :: u16 where
  "decode_flag_mask =
     GATEWAY_RECORD_STATUS_CHECKSUM_VALID OR GATEWAY_RECORD_STATUS_DECODED_VALID"

definition gateway_vehicle_decode_record ::
    "telemetry_record option \<Rightarrow> gateway_decode_result \<times> telemetry_record option" where
  "gateway_vehicle_decode_record record_arg =
     (case record_arg of
        None \<Rightarrow> (GATEWAY_DECODE_INVALID_ARGUMENT, None)
      | Some r0 \<Rightarrow>
        let r = r0\<lparr>status_flags := status_flags r0 AND NOT decode_flag_mask,
                   decoded_payload := replicate GATEWAY_DECODED_PAYLOAD_SIZE 0\<rparr> in
        (case gateway_vehicle_decode_frame (can_id r) (dlc r) (Some (data r))
                (Some zero_decoded_payload) of
           (GATEWAY_DECODE_OK, Some p) \<Rightarrow>
             (GATEWAY_DECODE_OK,
              Some (r\<lparr>ecu_counter := rolling_counter p, decoded_payload := payload_bytes p,
                      status_flags := status_flags r OR decode_flag_mask\<rparr>))
         | (res, _) \<Rightarrow> (res, Some r)))"

definition gateway_vehicle_read_decoded_payload ::
    "telemetry_record option \<Rightarrow> gateway_decoded_payload option \<Rightarrow>
     bool \<times> gateway_decoded_payload option" where
  "gateway_vehicle_read_decoded_payload record_arg decoded =
     (case (record_arg, decoded) of
        (Some r, Some _) \<Rightarrow>
          if status_flags r AND GATEWAY_RECORD_STATUS_DECODED_VALID = 0 then (False, decoded)
          else (True, Some (payload_of_bytes (decoded_payload r)))
      | _ \<Rightarrow> (False, decoded))"

subsection \<open>When a frame is decoded\<close>

lemma calculate_xor_eval:
  "calculate_xor d = d ! 0 XOR d ! 1 XOR d ! 2 XOR d ! 3 XOR d ! 4 XOR d ! 5 XOR d ! 6"
proof -
  have "[0..<7] = [0, 1, 2, 3, 4, 5, 6::nat]"
    by (simp add: upt_rec)
  then show ?thesis
    by (simp add: calculate_xor_def GATEWAY_CAN_DATA_SIZE_def ac_simps)
qed

definition supported_can_id :: "u32 \<Rightarrow> bool" where
  "supported_can_id cid \<longleftrightarrow> message_type_of_id cid \<noteq> GATEWAY_MESSAGE_TYPE_NONE"

lemma supported_can_id_iff: "supported_can_id cid \<longleftrightarrow> cid \<in> {0x100, 0x101, 0x102}"
  by (simp add: supported_can_id_def can_id_defs)

lemma decode_signals_supported:
  "mt \<noteq> GATEWAY_MESSAGE_TYPE_NONE \<Longrightarrow> fst (decode_signals mt d p) = GATEWAY_DECODE_OK"
  by (cases mt) simp_all

lemma decode_frame_cases:
  "gateway_vehicle_decode_frame cid dl (Some d) (Some q) =
     (if \<not> supported_can_id cid then (GATEWAY_DECODE_UNSUPPORTED_ID, Some zero_decoded_payload)
      else if dl \<noteq> 8 then (GATEWAY_DECODE_INVALID_DLC, Some zero_decoded_payload)
      else if calculate_xor d \<noteq> d ! 7
      then (GATEWAY_DECODE_CHECKSUM_MISMATCH, Some zero_decoded_payload)
      else (GATEWAY_DECODE_OK, Some (snd (decode_signals (message_type_of_id cid) d
              (initialize_decoded_payload (message_type_of_id cid) d)))))"
  using decode_signals_supported [of "message_type_of_id cid" d
      "initialize_decoded_payload (message_type_of_id cid) d"]
  by (auto simp: gateway_vehicle_decode_frame_def supported_can_id_def GATEWAY_CAN_DATA_SIZE_def
      Let_def split: prod.splits)

lemma decode_frame_ok_iff:
  "fst (gateway_vehicle_decode_frame cid dl (Some d) (Some q)) = GATEWAY_DECODE_OK \<longleftrightarrow>
     supported_can_id cid \<and> dl = 8 \<and> calculate_xor d = d ! 7"
  by (simp add: decode_frame_cases)

lemma decode_frame_error_zero:
  "gateway_vehicle_decode_frame cid dl da (Some q) = (res, p) \<Longrightarrow> res \<noteq> GATEWAY_DECODE_OK \<Longrightarrow>
     p = Some zero_decoded_payload"
  by (cases da) (auto simp: decode_frame_cases gateway_vehicle_decode_frame_def split: if_splits)

text \<open>The checksum sees every change of a single byte, the checksum byte included.\<close>

definition xor_all :: "bytes \<Rightarrow> u8" where
  "xor_all d = foldr (XOR) d 0"

lemma xor_all_update: "i < length d \<Longrightarrow> xor_all (d[i := b]) = xor_all d XOR d ! i XOR b"
proof (induction d arbitrary: i)
  case Nil
  then show ?case by simp
next
  case (Cons x d)
  show ?case
  proof (cases i)
    case 0
    have "b XOR xor_all d = (x XOR x) XOR (xor_all d XOR b)"
      by (simp add: xor.commute)
    also have "\<dots> = x XOR xor_all d XOR x XOR b"
      by (metis xor.assoc xor.commute)
    finally have "b XOR xor_all d = x XOR xor_all d XOR x XOR b" .
    then show ?thesis
      using 0 by (simp add: xor_all_def xor.assoc)
  next
    case (Suc j)
    then show ?thesis
      using Cons.IH [of j] Cons.prems by (simp add: xor_all_def xor.assoc)
  qed
qed

lemma xor_valid_iff: "length d = 8 \<Longrightarrow> calculate_xor d = d ! 7 \<longleftrightarrow> xor_all d = 0"
proof -
  assume "length d = 8"
  then obtain a b c e f g h k where d: "d = [a, b, c, e, f, g, h, k]"
    by (auto simp: numeral_eq_Suc length_Suc_conv)
  have "xor_all d = calculate_xor d XOR d ! 7"
    by (simp add: d xor_all_def calculate_xor_eval xor.assoc)
  then show ?thesis
    by (metis xor_self_eq xor_right_cancel)
qed

lemma xor_byte_changed:
  assumes "length d = 8" "i < 8" "b \<noteq> d ! i" "calculate_xor d = d ! 7"
  shows "calculate_xor (d[i := b]) \<noteq> (d[i := b]) ! 7"
proof -
  have "xor_all (d[i := b]) = d ! i XOR b"
    using assms by (simp add: xor_all_update xor_valid_iff)
  also have "\<dots> \<noteq> 0"
    using assms(3) by (metis xor_self_eq xor_left_cancel)
  finally show ?thesis
    using assms(1) by (simp add: xor_valid_iff)
qed

text \<open>C34: Any change of one data byte of a frame the decoder accepts, its checksum byte included, is
  reported as a checksum mismatch and leaves the output payload zero.\<close>

theorem decoder_detects_byte_change:
  assumes "gateway_vehicle_decode_frame cid dl (Some d) (Some q) = (GATEWAY_DECODE_OK, p)"
    and "length d = 8" and "i < 8" and "b \<noteq> d ! i"
  shows "gateway_vehicle_decode_frame cid dl (Some (d[i := b])) (Some q) =
           (GATEWAY_DECODE_CHECKSUM_MISMATCH, Some zero_decoded_payload)"
  using assms xor_byte_changed [OF assms(2-4)] by (auto simp: decode_frame_cases split: if_splits)

lemma decoder_detects_byte_change_witness:
  "gateway_vehicle_decode_frame 0x102 8 (Some [1, 2, 3, 4, 5, 6, 7, 0x80]) (Some zero_decoded_payload)
     = (GATEWAY_DECODE_CHECKSUM_MISMATCH, Some zero_decoded_payload)"
proof -
  have "gateway_vehicle_decode_frame 0x102 8 (Some [1, 2, 3, 4, 5, 6, 7, 0]) (Some zero_decoded_payload)
     = (GATEWAY_DECODE_OK, snd (gateway_vehicle_decode_frame 0x102 8 (Some [1, 2, 3, 4, 5, 6, 7, 0])
          (Some zero_decoded_payload)))"
    by code_simp
  from decoder_detects_byte_change [OF this, of 7 "0x80"] show ?thesis
    by simp
qed

subsection \<open>The payload survives the copy into the record\<close>

definition wf_signals :: "gateway_decoded_signals \<Rightarrow> bool" where
  "wf_signals u \<longleftrightarrow> length (signals_bytes u) = 24"

lemma wf_signals_struct [simp]:
  "wf_signals (Vehicle_dynamics v)" "wf_signals (Power_status w)" "wf_signals (Body_status b)"
  by (simp_all add: wf_signals_def)

lemma length_payload_bytes [simp]:
  "wf_signals (signals p) \<Longrightarrow> length (payload_bytes p) = GATEWAY_DECODED_PAYLOAD_SIZE"
  by (simp add: payload_bytes_def wf_signals_def record_sizes)

lemma payload_of_bytes_payload_bytes:
  "wf_signals (signals p) \<Longrightarrow>
     payload_of_bytes (payload_bytes p) = p\<lparr>signals := Signal_bytes (signals_bytes (signals p))\<rparr>"
  by (simp add: payload_of_bytes_def payload_bytes_def wf_signals_def)

lemma union_views [simp]:
  "as_vehicle_dynamics (Vehicle_dynamics v) = v"
  "as_power_status (Power_status w) = w"
  "as_body_status (Body_status b) = b"
  by (simp_all add: as_vehicle_dynamics_def as_power_status_def as_body_status_def nth_append)

lemma union_views_bytes [simp]:
  "as_vehicle_dynamics (Signal_bytes (signals_bytes u)) = as_vehicle_dynamics u"
  "as_power_status (Signal_bytes (signals_bytes u)) = as_power_status u"
  "as_body_status (Signal_bytes (signals_bytes u)) = as_body_status u"
  by (simp_all add: as_vehicle_dynamics_def as_power_status_def as_body_status_def)

lemma decode_frame_wf:
  "gateway_vehicle_decode_frame cid dl (Some d) (Some q) = (GATEWAY_DECODE_OK, Some p) \<Longrightarrow>
     wf_signals (signals p) \<and> rolling_counter p = d ! 6 \<and> checksum p = d ! 7 \<and>
     schema_version p = 1 \<and> message_type p = message_type_value (message_type_of_id cid)"
  by (cases "message_type_of_id cid")
    (auto simp: decode_frame_cases supported_can_id_def initialize_decoded_payload_def
      GATEWAY_DECODED_SCHEMA_VERSION_def split: if_splits)

lemma status_bit_set: "(s OR decode_flag_mask) AND GATEWAY_RECORD_STATUS_DECODED_VALID \<noteq> 0"
proof
  assume "(s OR decode_flag_mask) AND GATEWAY_RECORD_STATUS_DECODED_VALID = 0"
  then have "bit ((s OR decode_flag_mask) AND GATEWAY_RECORD_STATUS_DECODED_VALID) 2 = bit (0 :: u16) 2"
    by (rule arg_cong)
  then show False
    by (simp add: decode_flag_mask_def status_defs bit_simps)
qed

lemma status_bit_cleared: "(s AND NOT decode_flag_mask) AND GATEWAY_RECORD_STATUS_DECODED_VALID = 0"
proof -
  have "NOT decode_flag_mask AND GATEWAY_RECORD_STATUS_DECODED_VALID = 0"
    by code_simp
  then show ?thesis
    by (simp add: and.assoc)
qed

lemma wf_decode_record_result:
  assumes "wf_record r" "gateway_vehicle_decode_record (Some r) = (res, Some r')"
  shows "wf_record r' \<and> can_id r' = can_id r \<and> data r' = data r \<and> dlc r' = dlc r \<and>
     gateway_seq r' = gateway_seq r \<and> kernel_timestamp_ns r' = kernel_timestamp_ns r"
  using assms
  by (auto simp: gateway_vehicle_decode_record_def wf_record_def Let_def
      dest!: decode_frame_wf split: prod.splits option.splits gateway_decode_result.splits)

lemma decode_record_cases:
  "gateway_vehicle_decode_record (Some r) =
     (let r1 = r\<lparr>status_flags := status_flags r AND NOT decode_flag_mask,
                 decoded_payload := replicate GATEWAY_DECODED_PAYLOAD_SIZE 0\<rparr>;
          f = gateway_vehicle_decode_frame (can_id r) (dlc r) (Some (data r)) (Some zero_decoded_payload)
      in if fst f = GATEWAY_DECODE_OK
         then (GATEWAY_DECODE_OK, Some (r1\<lparr>ecu_counter := data r ! 6,
                 decoded_payload := payload_bytes (the (snd f)),
                 status_flags := status_flags r1 OR decode_flag_mask\<rparr>))
         else (fst f, Some r1))"
  using decode_frame_wf [of "can_id r" "dlc r" "data r" zero_decoded_payload]
  by (auto simp: gateway_vehicle_decode_record_def decode_frame_cases Let_def split: if_splits)

text \<open>After a successful in-place decode of a record, reading the payload back gives exactly the
  payload that the frame decoder computed, seen through any member of the signal union; after a
  failed decode there is nothing to read, whatever payload the record carried before.\<close>

theorem decoded_payload_readback:
  assumes "gateway_vehicle_decode_record (Some r) = (res, r')"
  shows "gateway_vehicle_read_decoded_payload r' (Some q) =
     (if res = GATEWAY_DECODE_OK
      then (let p = the (snd (gateway_vehicle_decode_frame (can_id r) (dlc r) (Some (data r)) (Some q)))
            in (True, Some (p\<lparr>signals := Signal_bytes (signals_bytes (signals p))\<rparr>)))
      else (False, Some q))"
proof (cases "fst (gateway_vehicle_decode_frame (can_id r) (dlc r) (Some (data r))
    (Some zero_decoded_payload)) = GATEWAY_DECODE_OK")
  case True
  then obtain p where p: "gateway_vehicle_decode_frame (can_id r) (dlc r) (Some (data r))
      (Some zero_decoded_payload) = (GATEWAY_DECODE_OK, Some p)"
    by (auto simp: decode_frame_cases split: if_splits)
  then have same: "gateway_vehicle_decode_frame (can_id r) (dlc r) (Some (data r)) (Some q) =
      (GATEWAY_DECODE_OK, Some p)"
    by (simp add: decode_frame_cases)
  show ?thesis
    using assms p same decode_frame_wf [OF p]
    by (auto simp: decode_record_cases gateway_vehicle_read_decoded_payload_def Let_def
        status_bit_set payload_of_bytes_payload_bytes)
next
  case False
  then show ?thesis
    using assms
    by (auto simp: decode_record_cases gateway_vehicle_read_decoded_payload_def Let_def
        status_bit_cleared)
qed

definition sample_dynamics_record :: telemetry_record where
  "sample_dynamics_record = zero_record\<lparr>gateway_seq := 9, can_id := 0x100, dlc := 8,
     data := [0x10, 0x27, 0x40, 0x1f, 50, 3, 7, 0x5e]\<rparr>"

lemma decoded_payload_readback_witness:
  "gateway_vehicle_read_decoded_payload
     (snd (gateway_vehicle_decode_record (Some sample_dynamics_record)))
     (Some zero_decoded_payload) =
   (True, Some \<lparr>schema_version = 1, message_type = 1, rolling_counter = 7, checksum = 0x5e,
      valid_signal_mask = 0x0f, signals = Signal_bytes (signals_bytes (Vehicle_dynamics
        \<lparr>vehicle_speed_centi_kph = 10000, engine_speed_quarter_rpm = 8000,
         throttle_tenth_percent = 200, gear = 3\<rparr>))\<rparr>)"
proof -
  have e: "gateway_vehicle_decode_record (Some sample_dynamics_record) =
     (GATEWAY_DECODE_OK, snd (gateway_vehicle_decode_record (Some sample_dynamics_record)))"
    by code_simp
  show ?thesis
    unfolding decoded_payload_readback [OF e] by code_simp
qed

lemma decode_record_twice:
  assumes "gateway_vehicle_decode_record (Some r) = (res, Some r')"
  shows "gateway_vehicle_decode_record (Some r') = (res, Some r')"
proof -
  have mask: "((s AND NOT decode_flag_mask) OR decode_flag_mask) AND NOT decode_flag_mask =
      s AND NOT decode_flag_mask" for s :: u16
    by (rule bit_word_eqI) (auto simp: bit_simps)
  have keep: "s AND NOT decode_flag_mask AND NOT decode_flag_mask = s AND NOT decode_flag_mask"
    for s :: u16
    by (rule bit_word_eqI) (auto simp: bit_simps)
  show ?thesis
    using assms
    by (auto simp: decode_record_cases Let_def mask keep split: if_splits)
qed

end
