(* ===== verification/Ecu_Firmware.thy ===== *)
theory Ecu_Firmware
  imports Vehicle_Decoder
begin

text \<open>
  The STM32 side (\<open>Core/Src/main.c\<close>, \<open>Core/Src/can.c\<close>): the 60 s deterministic drive cycle, the
  three message encoders, the periodic and the 100-slot schedulers and the blocking CAN send.
  The HAL and the bus are environment: what the HAL calls return is an argument. The
  compile-time profile is the argument \<open>profile\<close>; \<open>tx_log\<close> is a ghost field that lists the frames
  for which the send reported success, oldest first.
\<close>

subsection \<open>Blocking CAN send (\<open>can.c\<close>)\<close>

datatype hal_status = HAL_OK | HAL_ERROR | HAL_BUSY | HAL_TIMEOUT

definition CAN_TX_TIMEOUT_MS :: u32 where "CAN_TX_TIMEOUT_MS = 100"

definition CAN_GetTxCompleteFlag :: "u32 \<Rightarrow> u32" where
  "CAN_GetTxCompleteFlag mailbox =
     (if mailbox = 1 then 0x500 else if mailbox = 2 then 0x508 else 0x510)"

definition CAN_GetTxOkFlag :: "u32 \<Rightarrow> u32" where
  "CAN_GetTxOkFlag mailbox =
     (if mailbox = 1 then 0x501 else if mailbox = 2 then 0x509 else 0x511)"

text \<open>What the HAL answers during one call: the driver state, the result of queueing the frame, the
  tick when waiting starts, then per poll of the mailbox whether it is still pending and the tick
  that the time-out test reads, and last the status flags.\<close>

record can_hal =
  hal_listening :: bool
  hal_add_status :: hal_status
  hal_mailbox :: u32
  hal_tick_start :: u32
  hal_polls :: "(bool \<times> u32) list"
  hal_flag_set :: "u32 \<Rightarrow> bool"

text \<open>The \<open>while\<close> loop: \<open>None\<close> while every poll so far found the frame pending in time,
  \<open>Some True\<close> when it left the mailbox, \<open>Some False\<close> on the time-out, which aborts the request.\<close>

fun wait_tx_complete :: "u32 \<Rightarrow> (bool \<times> u32) list \<Rightarrow> bool option" where
  "wait_tx_complete tick_start [] = None"
| "wait_tx_complete tick_start ((pending, tick) # polls) =
     (if \<not> pending then Some True
      else if tick - tick_start \<ge> CAN_TX_TIMEOUT_MS then Some False
      else wait_tx_complete tick_start polls)"

text \<open>The frame handed to the HAL (identifier, bytes copied into the zeroed eight-byte buffer,
  length), if any, and the status returned (\<open>None\<close>: still waiting).\<close>

definition CAN_SendMessage :: "can_hal \<Rightarrow> u16 \<Rightarrow> bytes option \<Rightarrow> u8 \<Rightarrow>
    (u16 \<times> bytes \<times> u8) option \<times> hal_status option" where
  "CAN_SendMessage hal sid data_arg len =
     (if sid > 0x7FF \<or> len > 8 \<or> (data_arg = None \<and> len > 0) then (None, Some HAL_ERROR)
      else if \<not> hal_listening hal then (None, Some HAL_ERROR)
      else let tx_data = fold (\<lambda>index tx. tx[index := the data_arg ! index]) [0..<unat len]
                           (replicate 8 0);
               frame = Some (sid, tx_data, len) in
        if hal_add_status hal \<noteq> HAL_OK then (frame, Some (hal_add_status hal))
        else (frame, (case wait_tx_complete (hal_tick_start hal) (hal_polls hal) of
                None \<Rightarrow> None
              | Some False \<Rightarrow> Some HAL_TIMEOUT
              | Some True \<Rightarrow>
                  Some (if hal_flag_set hal (CAN_GetTxOkFlag (hal_mailbox hal))
                        then HAL_OK else HAL_ERROR))))"

subsection \<open>State (\<open>main.c\<close>)\<close>

datatype traffic_profile = PROFILE_111 | PROFILE_500 | PROFILE_1000

record ecu_message =
  std_id :: u16
  period_ms :: u32
  last_release_ms :: u32
  tx_success_count :: u32
  tx_failure_count :: u32
  msg_counter :: u8

record ecu_vehicle =
  ecu_speed_centi_kph :: u16
  ecu_engine_quarter_rpm :: u16
  ecu_throttle_tenth_percent :: u16
  ecu_battery_millivolt :: u16
  ecu_odometer_tenth_km :: u32
  ecu_coolant_celsius :: u16
  ecu_soc_tenth_percent :: u16
  ecu_fault_flags :: u16
  ecu_gear :: u8
  ecu_door_flags :: u8
  ecu_ignition_state :: u8

record firmware =
  ecu_messages :: "ecu_message list"
  ecu_vehicle_state :: ecu_vehicle
  ecu_drive_cycle_tick :: u32
  ecu_distance_accumulator :: u32
  ecu_warmup_tick_count :: u16
  ecu_cooldown_tick_count :: u16
  ecu_stress_last_release_ms :: u32
  ecu_stress_state_last_advance_ms :: u32
  ecu_stress_missed_slot_count :: u32
  ecu_stress_slot :: u8
  tx_log :: "(u16 \<times> bytes) list"

definition ECU_VEHICLE_DYNAMICS_ID :: u16 where "ECU_VEHICLE_DYNAMICS_ID = 0x100"
definition ECU_POWER_STATUS_ID :: u16 where "ECU_POWER_STATUS_ID = 0x101"
definition ECU_BODY_STATUS_ID :: u16 where "ECU_BODY_STATUS_ID = 0x102"
definition ECU_DRIVE_CYCLE_TICKS :: u32 where "ECU_DRIVE_CYCLE_TICKS = 6000"
definition ECU_ENGINE_START_TICK :: u32 where "ECU_ENGINE_START_TICK = 300"
definition ECU_ACCEL_START_TICK :: u32 where "ECU_ACCEL_START_TICK = 500"
definition ECU_CRUISE_START_TICK :: u32 where "ECU_CRUISE_START_TICK = 2000"
definition ECU_DECEL_START_TICK :: u32 where "ECU_DECEL_START_TICK = 4000"
definition ECU_IDLE_STOP_TICK :: u32 where "ECU_IDLE_STOP_TICK = 5500"
definition ECU_ENGINE_STOP_TICK :: u32 where "ECU_ENGINE_STOP_TICK = 5800"
definition ECU_CRUISE_SPEED_CENTI_KPH :: u32 where "ECU_CRUISE_SPEED_CENTI_KPH = 6000"
definition ECU_IDLE_SPEED_RPM :: u32 where "ECU_IDLE_SPEED_RPM = 800"
definition ECU_THROTTLE_ACCEL_TENTH :: u16 where "ECU_THROTTLE_ACCEL_TENTH = 320"
definition ECU_THROTTLE_CRUISE_TENTH :: u16 where "ECU_THROTTLE_CRUISE_TENTH = 160"
definition ECU_BATTERY_OFF_MILLIVOLT :: u16 where "ECU_BATTERY_OFF_MILLIVOLT = 12600"
definition ECU_BATTERY_RUNNING_MILLIVOLT :: u16 where "ECU_BATTERY_RUNNING_MILLIVOLT = 13800"
definition ECU_INITIAL_COOLANT_CELSIUS :: int where "ECU_INITIAL_COOLANT_CELSIUS = 20"
definition ECU_MAX_COOLANT_CELSIUS :: int where "ECU_MAX_COOLANT_CELSIUS = 90"
definition ECU_INITIAL_SOC_TENTH :: u16 where "ECU_INITIAL_SOC_TENTH = 800"
definition ECU_INITIAL_ODOMETER_TENTH_KM :: u32 where "ECU_INITIAL_ODOMETER_TENTH_KM = 1234567"
definition ECU_ODOMETER_MAX_TENTH_KM :: u32 where "ECU_ODOMETER_MAX_TENTH_KM = 0xFFFFFF"
definition ECU_DISTANCE_DIVISOR :: u32 where "ECU_DISTANCE_DIVISOR = 3600000"
definition ECU_STRESS_SUPERFRAME_SLOTS :: u32 where "ECU_STRESS_SUPERFRAME_SLOTS = 100"

lemmas ecu_id_defs = ECU_VEHICLE_DYNAMICS_ID_def ECU_POWER_STATUS_ID_def ECU_BODY_STATUS_ID_def

lemmas ecu_phase_defs = ECU_DRIVE_CYCLE_TICKS_def ECU_ENGINE_START_TICK_def
  ECU_ACCEL_START_TICK_def ECU_CRUISE_START_TICK_def ECU_DECEL_START_TICK_def
  ECU_IDLE_STOP_TICK_def ECU_ENGINE_STOP_TICK_def ECU_CRUISE_SPEED_CENTI_KPH_def
  ECU_IDLE_SPEED_RPM_def ECU_THROTTLE_ACCEL_TENTH_def ECU_THROTTLE_CRUISE_TENTH_def
  ECU_BATTERY_OFF_MILLIVOLT_def ECU_BATTERY_RUNNING_MILLIVOLT_def

lemmas ecu_state_defs = ECU_INITIAL_COOLANT_CELSIUS_def ECU_MAX_COOLANT_CELSIUS_def
  ECU_INITIAL_SOC_TENTH_def ECU_INITIAL_ODOMETER_TENTH_KM_def ECU_ODOMETER_MAX_TENTH_KM_def
  ECU_DISTANCE_DIVISOR_def ECU_STRESS_SUPERFRAME_SLOTS_def

text \<open>Defined by the two stress builds only; the 111 build never reads it.\<close>

definition ECU_STRESS_SLOT_PERIOD_MS :: "traffic_profile \<Rightarrow> u32" where
  "ECU_STRESS_SLOT_PERIOD_MS profile = (if profile = PROFILE_500 then 2 else 1)"

definition initial_ecu_messages :: "ecu_message list" where
  "initial_ecu_messages =
    [\<lparr>std_id = ECU_VEHICLE_DYNAMICS_ID, period_ms = 10, last_release_ms = 0,
      tx_success_count = 0, tx_failure_count = 0, msg_counter = 0\<rparr>,
     \<lparr>std_id = ECU_POWER_STATUS_ID, period_ms = 100, last_release_ms = 0,
      tx_success_count = 0, tx_failure_count = 0, msg_counter = 0\<rparr>,
     \<lparr>std_id = ECU_BODY_STATUS_ID, period_ms = 1000, last_release_ms = 0,
      tx_success_count = 0, tx_failure_count = 0, msg_counter = 0\<rparr>]"

definition initial_ecu_vehicle :: ecu_vehicle where
  "initial_ecu_vehicle = \<lparr>ecu_speed_centi_kph = 0, ecu_engine_quarter_rpm = 0,
     ecu_throttle_tenth_percent = 0, ecu_battery_millivolt = ECU_BATTERY_OFF_MILLIVOLT,
     ecu_odometer_tenth_km = ECU_INITIAL_ODOMETER_TENTH_KM,
     ecu_coolant_celsius = of_int ECU_INITIAL_COOLANT_CELSIUS,
     ecu_soc_tenth_percent = ECU_INITIAL_SOC_TENTH, ecu_fault_flags = 0, ecu_gear = 0,
     ecu_door_flags = 1, ecu_ignition_state = 0\<rparr>"

definition reset_firmware :: firmware where
  "reset_firmware = \<lparr>ecu_messages = initial_ecu_messages, ecu_vehicle_state = initial_ecu_vehicle,
     ecu_drive_cycle_tick = 0, ecu_distance_accumulator = 0, ecu_warmup_tick_count = 0,
     ecu_cooldown_tick_count = 0, ecu_stress_last_release_ms = 0,
     ecu_stress_state_last_advance_ms = 0, ecu_stress_missed_slot_count = 0,
     ecu_stress_slot = 0, tx_log = []\<rparr>"

text \<open>The stress variables exist only in the stress builds; in the 111 build no operation reads
  them, so setting them is harmless there.\<close>

definition ECU_InitSchedule :: "u32 \<Rightarrow> firmware \<Rightarrow> firmware" where
  "ECU_InitSchedule now fw = fw\<lparr>
     ecu_messages := map (\<lambda>m. m\<lparr>last_release_ms := now\<rparr>) (ecu_messages fw),
     ecu_stress_last_release_ms := now, ecu_stress_state_last_advance_ms := now,
     ecu_stress_missed_slot_count := 0, ecu_stress_slot := 0\<rparr>"

subsection \<open>Drive cycle\<close>

definition ECU_SelectGear :: "u16 \<Rightarrow> u8" where
  "ECU_SelectGear speed =
     (if speed \<le> 1200 then 1 else if speed \<le> 2500 then 2 else if speed \<le> 4000 then 3 else 4)"

definition ECU_CalculateEngineSpeed :: "u16 \<Rightarrow> u8 \<Rightarrow> u16" where
  "ECU_CalculateEngineSpeed speed gear_arg =
     (let engine_rpm :: u32 =
            (if speed = 0 then ECU_IDLE_SPEED_RPM
             else if gear_arg = 1 then 900 + (ucast speed * 7) div 5
             else if gear_arg = 2 then 900 + (ucast speed * 7) div 10
             else if gear_arg = 3 then 900 + (ucast speed * 9) div 20
             else 900 + ucast speed div 4)
      in ucast (engine_rpm * 4))"

text \<open>The five phases; the value assigned to each field, then the battery voltage from the engine
  speed just stored.\<close>

definition update_phase :: "u32 \<Rightarrow> ecu_vehicle \<Rightarrow> ecu_vehicle" where
  "update_phase phase_tick v =
     (if phase_tick < ECU_ENGINE_START_TICK \<or> phase_tick \<ge> ECU_ENGINE_STOP_TICK then
        v\<lparr>ecu_speed_centi_kph := 0, ecu_engine_quarter_rpm := 0, ecu_throttle_tenth_percent := 0,
          ecu_gear := 0, ecu_ignition_state := 0, ecu_door_flags := 1\<rparr>
      else if phase_tick < ECU_ACCEL_START_TICK \<or> phase_tick \<ge> ECU_IDLE_STOP_TICK then
        v\<lparr>ecu_speed_centi_kph := 0, ecu_engine_quarter_rpm := ucast (ECU_IDLE_SPEED_RPM * 4),
          ecu_throttle_tenth_percent := 0, ecu_gear := 0, ecu_ignition_state := 2,
          ecu_door_flags := 0\<rparr>
      else if phase_tick < ECU_CRUISE_START_TICK then
        let ramp_tick = phase_tick - ECU_ACCEL_START_TICK;
            speed = ucast ((ramp_tick * ECU_CRUISE_SPEED_CENTI_KPH) div
                           (ECU_CRUISE_START_TICK - ECU_ACCEL_START_TICK));
            g = ECU_SelectGear speed in
        v\<lparr>ecu_speed_centi_kph := speed, ecu_throttle_tenth_percent := ECU_THROTTLE_ACCEL_TENTH,
          ecu_gear := g, ecu_engine_quarter_rpm := ECU_CalculateEngineSpeed speed g,
          ecu_ignition_state := 2, ecu_door_flags := 0\<rparr>
      else if phase_tick < ECU_DECEL_START_TICK then
        let speed = ucast ECU_CRUISE_SPEED_CENTI_KPH in
        v\<lparr>ecu_speed_centi_kph := speed, ecu_throttle_tenth_percent := ECU_THROTTLE_CRUISE_TENTH,
          ecu_gear := 4, ecu_engine_quarter_rpm := ECU_CalculateEngineSpeed speed 4,
          ecu_ignition_state := 2, ecu_door_flags := 0\<rparr>
      else
        let ramp_tick = phase_tick - ECU_DECEL_START_TICK;
            speed = ucast (ECU_CRUISE_SPEED_CENTI_KPH -
                           (ramp_tick * ECU_CRUISE_SPEED_CENTI_KPH) div
                           (ECU_IDLE_STOP_TICK - ECU_DECEL_START_TICK));
            g = ECU_SelectGear speed in
        v\<lparr>ecu_speed_centi_kph := speed, ecu_throttle_tenth_percent := 0,
          ecu_gear := g, ecu_engine_quarter_rpm := ECU_CalculateEngineSpeed speed g,
          ecu_ignition_state := 2, ecu_door_flags := 0\<rparr>)"

definition ECU_UpdateVehicleState :: "firmware \<Rightarrow> firmware" where
  "ECU_UpdateVehicleState fw =
     (let v = update_phase (ecu_drive_cycle_tick fw) (ecu_vehicle_state fw) in
      fw\<lparr>ecu_vehicle_state := v\<lparr>ecu_battery_millivolt :=
        (if ecu_engine_quarter_rpm v = 0 then ECU_BATTERY_OFF_MILLIVOLT
         else ECU_BATTERY_RUNNING_MILLIVOLT)\<rparr>\<rparr>)"

definition advance_distance :: "firmware \<Rightarrow> firmware" where
  "advance_distance fw =
     (let acc = ecu_distance_accumulator fw + ucast (ecu_speed_centi_kph (ecu_vehicle_state fw)) in
      if acc \<ge> ECU_DISTANCE_DIVISOR then
        fw\<lparr>ecu_distance_accumulator := acc - ECU_DISTANCE_DIVISOR,
           ecu_vehicle_state :=
             (if ecu_odometer_tenth_km (ecu_vehicle_state fw) < ECU_ODOMETER_MAX_TENTH_KM
              then (ecu_vehicle_state fw)\<lparr>ecu_odometer_tenth_km :=
                     ecu_odometer_tenth_km (ecu_vehicle_state fw) + 1\<rparr>
              else ecu_vehicle_state fw)\<rparr>
      else fw\<lparr>ecu_distance_accumulator := acc\<rparr>)"

text \<open>\<open>coolant_celsius\<close> is an \<open>int16_t\<close>: compared with \<^const>\<open>sint\<close>, stepped modulo \<open>2 ^ 16\<close>.\<close>

definition advance_temperature :: "firmware \<Rightarrow> firmware" where
  "advance_temperature fw =
     (let v = ecu_vehicle_state fw in
      if ecu_engine_quarter_rpm v \<noteq> 0 then
        let warm = ecu_warmup_tick_count fw + 1; fw1 = fw\<lparr>ecu_cooldown_tick_count := 0\<rparr> in
        if warm \<ge> 100 then
          fw1\<lparr>ecu_warmup_tick_count := 0, ecu_vehicle_state :=
            (if sint (ecu_coolant_celsius v) < ECU_MAX_COOLANT_CELSIUS
             then v\<lparr>ecu_coolant_celsius := ecu_coolant_celsius v + 1\<rparr> else v)\<rparr>
        else fw1\<lparr>ecu_warmup_tick_count := warm\<rparr>
      else
        let cool = ecu_cooldown_tick_count fw + 1; fw1 = fw\<lparr>ecu_warmup_tick_count := 0\<rparr> in
        if cool \<ge> 500 then
          fw1\<lparr>ecu_cooldown_tick_count := 0, ecu_vehicle_state :=
            (if sint (ecu_coolant_celsius v) > ECU_INITIAL_COOLANT_CELSIUS
             then v\<lparr>ecu_coolant_celsius := ecu_coolant_celsius v - 1\<rparr> else v)\<rparr>
        else fw1\<lparr>ecu_cooldown_tick_count := cool\<rparr>)"

definition advance_cycle_tick :: "firmware \<Rightarrow> firmware" where
  "advance_cycle_tick fw =
     (let tick = ecu_drive_cycle_tick fw + 1 in
      fw\<lparr>ecu_drive_cycle_tick := (if tick \<ge> ECU_DRIVE_CYCLE_TICKS then 0 else tick)\<rparr>)"

definition ECU_AdvanceVehicleState :: "firmware \<Rightarrow> firmware" where
  "ECU_AdvanceVehicleState fw = advance_cycle_tick (advance_temperature (advance_distance fw))"

subsection \<open>Payload encoders\<close>

definition ECU_EncodeTenthPercent :: "u16 \<Rightarrow> u8" where
  "ECU_EncodeTenthPercent tenth = ucast ((if tenth > 1000 then 1000 else tenth) div 4)"

definition ECU_PackU16Le :: "bytes \<Rightarrow> nat \<Rightarrow> u16 \<Rightarrow> bytes" where
  "ECU_PackU16Le payload offset value =
     payload[offset := ucast (value AND 0xFF), offset + 1 := ucast (drop_bit 8 value)]"

definition ECU_PackU24Le :: "bytes \<Rightarrow> nat \<Rightarrow> u32 \<Rightarrow> bytes" where
  "ECU_PackU24Le payload offset value =
     payload[offset := ucast (value AND 0xFF), offset + 1 := ucast (drop_bit 8 value AND 0xFF),
             offset + 2 := ucast (drop_bit 16 value AND 0xFF)]"

definition ECU_FinalizePayload :: "u8 \<Rightarrow> bytes \<Rightarrow> bytes" where
  "ECU_FinalizePayload cnt payload =
     (let p = payload[6 := cnt] in
      p[7 := fold (\<lambda>byte_index x. x XOR p ! byte_index) [0..<7] 0])"

definition ECU_BuildPayload :: "ecu_vehicle \<Rightarrow> ecu_message \<Rightarrow> bytes \<Rightarrow> bytes" where
  "ECU_BuildPayload v m payload =
     ECU_FinalizePayload (msg_counter m)
      (if std_id m = ECU_VEHICLE_DYNAMICS_ID then
         let p1 = ECU_PackU16Le payload 0 (ecu_speed_centi_kph v);
             p2 = ECU_PackU16Le p1 2 (ecu_engine_quarter_rpm v) in
         p2[4 := ECU_EncodeTenthPercent (ecu_throttle_tenth_percent v), 5 := ecu_gear v]
       else if std_id m = ECU_POWER_STATUS_ID then
         let p1 = ECU_PackU16Le payload 0 (ecu_battery_millivolt v);
             p2 = p1[2 := ucast (ecu_coolant_celsius v + 40),
                     3 := ECU_EncodeTenthPercent (ecu_soc_tenth_percent v)] in
         ECU_PackU16Le p2 4 (ecu_fault_flags v)
       else
         (ECU_PackU24Le payload 0 (ecu_odometer_tenth_km v))
           [3 := ecu_door_flags v AND 0x0F, 4 := ecu_ignition_state v AND 0x03])"

subsection \<open>Scheduling\<close>

text \<open>What \<open>CAN_SendMessage\<close> returns for an identifier and its bytes during one pass.\<close>

type_synonym can_send = "u16 \<Rightarrow> bytes \<Rightarrow> hal_status"

definition ECU_TransmitMessage :: "can_send \<Rightarrow> nat \<Rightarrow> firmware \<Rightarrow> u8 \<times> firmware" where
  "ECU_TransmitMessage send i fw =
     (let m = ecu_messages fw ! i;
          tx_data = ECU_BuildPayload (ecu_vehicle_state fw) m (replicate 8 0) in
      if send (std_id m) tx_data = HAL_OK then
        (1, fw\<lparr>ecu_messages := (ecu_messages fw)[i := m\<lparr>msg_counter := msg_counter m + 1,
                 tx_success_count := tx_success_count m + 1\<rparr>],
               tx_log := tx_log fw @ [(std_id m, tx_data)]\<rparr>)
      else
        (0, fw\<lparr>ecu_messages := (ecu_messages fw)[i := m\<lparr>tx_failure_count := tx_failure_count m + 1\<rparr>]\<rparr>))"

definition ECU_ProcessMessage :: "can_send \<Rightarrow> nat \<Rightarrow> u32 \<Rightarrow> firmware \<Rightarrow> u8 \<times> firmware" where
  "ECU_ProcessMessage send i now fw =
     (let m = ecu_messages fw ! i; elapsed = now - last_release_ms m in
      if elapsed < period_ms m then (0, fw)
      else ECU_TransmitMessage send i
        (fw\<lparr>ecu_messages := (ecu_messages fw)[i := m\<lparr>last_release_ms :=
              last_release_ms m + (elapsed div period_ms m) * period_ms m\<rparr>]\<rparr>))"

definition ECU_StressMessageIndex :: "u8 \<Rightarrow> u8" where
  "ECU_StressMessageIndex slot =
     (if (ucast slot :: u32) = ECU_STRESS_SUPERFRAME_SLOTS - 1 then 2
      else if (ucast slot + 1 :: u32) mod 10 = 0 then 1 else 0)"

definition ECU_ProcessStressSlot ::
    "traffic_profile \<Rightarrow> can_send \<Rightarrow> u32 \<Rightarrow> firmware \<Rightarrow> u8 \<times> firmware" where
  "ECU_ProcessStressSlot profile send now fw =
     (let elapsed = now - ecu_stress_last_release_ms fw in
      if elapsed < ECU_STRESS_SLOT_PERIOD_MS profile then (0, fw)
      else
        let elapsed_slots = elapsed div ECU_STRESS_SLOT_PERIOD_MS profile;
            fw1 = fw\<lparr>ecu_stress_last_release_ms := ecu_stress_last_release_ms fw +
                      elapsed_slots * ECU_STRESS_SLOT_PERIOD_MS profile\<rparr>;
            fw2 = (if elapsed_slots > 1 then
                     fw1\<lparr>ecu_stress_missed_slot_count :=
                           ecu_stress_missed_slot_count fw1 + (elapsed_slots - 1),
                         ecu_stress_slot :=
                           ucast ((ucast (ecu_stress_slot fw1) + (elapsed_slots - 1) mod
                                   ECU_STRESS_SUPERFRAME_SLOTS) mod ECU_STRESS_SUPERFRAME_SLOTS)\<rparr>
                   else fw1);
            message_index = ECU_StressMessageIndex (ecu_stress_slot fw2);
            (sent, fw3) = ECU_TransmitMessage send (unat message_index) fw2;
            slot = ecu_stress_slot fw3 + 1;
            fw4 = fw3\<lparr>ecu_stress_slot :=
              (if ucast slot \<ge> ECU_STRESS_SUPERFRAME_SLOTS then 0 else slot)\<rparr>
        in (if message_index = 0 then sent else 0, fw4))"

definition ECU_ProcessStressStateClock :: "u32 \<Rightarrow> firmware \<Rightarrow> firmware" where
  "ECU_ProcessStressStateClock now fw =
     (let elapsed = now - ecu_stress_state_last_advance_ms fw;
          state_ticks = elapsed div 10 in
      ((\<lambda>s. ECU_UpdateVehicleState (ECU_AdvanceVehicleState s)) ^^ unat state_ticks)
        (fw\<lparr>ecu_stress_state_last_advance_ms :=
              ecu_stress_state_last_advance_ms fw + state_ticks * 10\<rparr>))"

text \<open>One pass of the \<open>while (1)\<close> loop of \<open>main\<close>.\<close>

definition main_loop_pass :: "traffic_profile \<Rightarrow> u32 \<Rightarrow> can_send \<Rightarrow> firmware \<Rightarrow> firmware" where
  "main_loop_pass profile now send fw0 =
     (let fw = ECU_UpdateVehicleState fw0 in
      if profile = PROFILE_111 then
        let (dynamics_sent, fw1) = ECU_ProcessMessage send 0 now fw;
            (_, fw2) = ECU_ProcessMessage send 1 now fw1;
            (_, fw3) = ECU_ProcessMessage send 2 now fw2 in
        if dynamics_sent \<noteq> 0 then ECU_AdvanceVehicleState fw3 else fw3
      else
        let (_, fw1) = ECU_ProcessStressSlot profile send now fw in
        ECU_ProcessStressStateClock now fw1)"

text \<open>From reset: \<open>ECU_InitSchedule\<close> at the start tick, then one pass per element.\<close>

definition run_firmware :: "traffic_profile \<Rightarrow> u32 \<Rightarrow> (u32 \<times> can_send) list \<Rightarrow> firmware" where
  "run_firmware profile start passes =
     fold (\<lambda>(now, send). main_loop_pass profile now send) passes
       (ECU_InitSchedule start reset_firmware)"

subsection \<open>The speed profile\<close>

lemma unat_ramp:
  assumes "unat (r :: u32) < 1500"
  shows "unat ((r * 6000) div 1500) = 4 * unat r"
proof -
  have "unat (r * 6000) = unat r * 6000"
    using assms by (simp add: unat_word_ariths)
  then show ?thesis
    by (simp add: unat_div)
qed

text \<open>The reference profile over the cycle, in 0.01 km/h: two 15 s linear ramps of 4 per tick.\<close>

definition cycle_speed :: "nat \<Rightarrow> nat" where
  "cycle_speed t = (if t < 500 \<or> 5500 \<le> t then 0 else if t < 2000 then 4 * (t - 500)
     else if t < 4000 then 6000 else 6000 - 4 * (t - 4000))"

lemma cycle_speed_le: "cycle_speed t \<le> 6000"
  by (simp add: cycle_speed_def) linarith

lemma accel_speed:
  assumes "500 \<le> unat (tk :: u32)" "unat tk < 2000"
  shows "unat (ucast (((tk - 500) * 6000) div 1500) :: u16) = 4 * (unat tk - 500)"
proof -
  have d: "unat (tk - 500) = unat tk - 500"
    using assms by (subst unat_sub) (simp_all add: word_le_nat_alt)
  then have "unat (((tk - 500) * 6000) div 1500) = 4 * (unat tk - 500)"
    using assms by (subst unat_ramp) simp_all
  then show ?thesis
    using assms by (simp add: unat_ucast_mod)
qed

lemma decel_speed:
  assumes "4000 \<le> unat (tk :: u32)" "unat tk < 5500"
  shows "unat (ucast (6000 - ((tk - 4000) * 6000) div 1500) :: u16) = 6000 - 4 * (unat tk - 4000)"
proof -
  have d: "unat (tk - 4000) = unat tk - 4000"
    using assms by (subst unat_sub) (simp_all add: word_le_nat_alt)
  then have r: "unat (((tk - 4000) * 6000) div 1500) = 4 * (unat tk - 4000)"
    using assms by (subst unat_ramp) simp_all
  then have "unat (6000 - ((tk - 4000) * 6000) div 1500) = 6000 - 4 * (unat tk - 4000)"
    using assms by (subst unat_sub) (simp_all add: word_le_nat_alt)
  then show ?thesis
    using assms by (simp add: unat_ucast_mod)
qed

lemma update_phase_speed:
  "unat (ecu_speed_centi_kph (update_phase tk v)) = cycle_speed (unat tk)"
proof -
  consider "unat tk < 500" | "5500 \<le> unat tk" | "500 \<le> unat tk \<and> unat tk < 2000"
    | "2000 \<le> unat tk \<and> unat tk < 4000" | "4000 \<le> unat tk \<and> unat tk < 5500"
    by linarith
  then show ?thesis
  proof cases
    case 3
    then show ?thesis
      using accel_speed [of tk]
      by (simp add: update_phase_def ecu_phase_defs cycle_speed_def Let_def word_less_nat_alt
          word_le_nat_alt)
  next
    case 5
    then show ?thesis
      using decel_speed [of tk]
      by (simp add: update_phase_def ecu_phase_defs cycle_speed_def Let_def word_less_nat_alt
          word_le_nat_alt)
  qed (auto simp: update_phase_def ecu_phase_defs cycle_speed_def Let_def word_less_nat_alt
      word_le_nat_alt)
qed

subsection \<open>Engine speed\<close>

lemma quarter_rpm:
  assumes "unat (x :: u32) \<le> 1800"
  shows "unat (ucast ((900 + x) * 4) :: u16) = 3600 + 4 * unat x"
proof -
  have "unat (900 + x) = 900 + unat x"
    using assms by (simp add: unat_word_ariths)
  then have "unat ((900 + x) * 4) = 3600 + 4 * unat x"
    using assms by (simp add: unat_word_ariths)
  then show ?thesis
    using assms by (simp add: unat_ucast_mod)
qed

lemma engine_speed_bound:
  assumes "unat speed \<le> 6000"
  shows "unat (ECU_CalculateEngineSpeed speed (ECU_SelectGear speed)) \<in> {3200..10800}"
proof -
  let ?s = "unat speed"
  have m: "unat ((ucast speed :: u32) * 7) = ?s * 7" "unat ((ucast speed :: u32) * 9) = ?s * 9"
    using assms by (simp_all add: unat_word_ariths unat_ucast_mod)
  have d: "unat ((ucast speed * 7 :: u32) div 5) = ?s * 7 div 5"
    "unat ((ucast speed * 7 :: u32) div 10) = ?s * 7 div 10"
    "unat ((ucast speed * 9 :: u32) div 20) = ?s * 9 div 20"
    "unat ((ucast speed :: u32) div 4) = ?s div 4"
    using assms by (simp_all only: unat_div m) (simp_all add: unat_ucast_mod)
  consider "speed = 0" | "speed \<noteq> 0 \<and> ?s \<le> 1200" | "1200 < ?s \<and> ?s \<le> 2500"
    | "2500 < ?s \<and> ?s \<le> 4000" | "4000 < ?s"
    by linarith
  then show ?thesis
  proof cases
    case 1
    then show ?thesis
      by (simp add: ECU_CalculateEngineSpeed_def ECU_IDLE_SPEED_RPM_def)
  next
    case 2
    then have "?s * 7 div 5 \<le> 1800"
      by linarith
    with 2 quarter_rpm [of "(ucast speed * 7) div 5"] d show ?thesis
      by (simp add: ECU_CalculateEngineSpeed_def ECU_SelectGear_def word_le_nat_alt Let_def)
  next
    case 3
    then have "?s * 7 div 10 \<le> 1800" "speed \<noteq> 0"
      by (linarith, auto)
    with 3 quarter_rpm [of "(ucast speed * 7) div 10"] d show ?thesis
      by (simp add: ECU_CalculateEngineSpeed_def ECU_SelectGear_def word_le_nat_alt Let_def)
  next
    case 4
    then have "?s * 9 div 20 \<le> 1800" "speed \<noteq> 0"
      by (linarith, auto)
    with 4 quarter_rpm [of "(ucast speed * 9) div 20"] d show ?thesis
      by (simp add: ECU_CalculateEngineSpeed_def ECU_SelectGear_def word_le_nat_alt Let_def)
  next
    case 5
    then have "?s div 4 \<le> 1500" "speed \<noteq> 0"
      using assms by (linarith, auto)
    with 5 quarter_rpm [of "ucast speed div 4"] d show ?thesis
      by (simp add: ECU_CalculateEngineSpeed_def ECU_SelectGear_def word_le_nat_alt Let_def)
  qed
qed

subsection \<open>State invariant\<close>

definition wf_vehicle :: "ecu_vehicle \<Rightarrow> bool" where
  "wf_vehicle v \<longleftrightarrow> unat (ecu_speed_centi_kph v) \<le> 6000 \<and>
     unat (ecu_engine_quarter_rpm v) \<le> 10800 \<and>
     ecu_throttle_tenth_percent v \<in> {0, 160, 320} \<and>
     ecu_battery_millivolt v \<in> {12600, 13800} \<and>
     unat (ecu_odometer_tenth_km v) \<le> 0xFFFFFF \<and>
     20 \<le> sint (ecu_coolant_celsius v) \<and> sint (ecu_coolant_celsius v) \<le> 90 \<and>
     ecu_soc_tenth_percent v = 800 \<and> ecu_fault_flags v = 0 \<and>
     unat (ecu_gear v) \<le> 4 \<and> ecu_door_flags v \<in> {0, 1} \<and> ecu_ignition_state v \<in> {0, 2}"

definition wf_messages :: "ecu_message list \<Rightarrow> bool" where
  "wf_messages ms \<longleftrightarrow>
     map (\<lambda>m. (std_id m, period_ms m)) ms = [(0x100, 10), (0x101, 100), (0x102, 1000)]"

definition wf_firmware :: "firmware \<Rightarrow> bool" where
  "wf_firmware fw \<longleftrightarrow> wf_messages (ecu_messages fw) \<and> wf_vehicle (ecu_vehicle_state fw) \<and>
     unat (ecu_drive_cycle_tick fw) < 6000 \<and> unat (ecu_distance_accumulator fw) < 3600000 \<and>
     unat (ecu_warmup_tick_count fw) < 100 \<and> unat (ecu_cooldown_tick_count fw) < 500 \<and>
     unat (ecu_stress_slot fw) < 100"

lemma select_gear_le: "unat (ECU_SelectGear speed) \<le> 4"
  by (simp add: ECU_SelectGear_def)

lemma update_phase_wf:
  assumes "wf_vehicle v"
  shows "wf_vehicle (update_phase tk v)"
proof -
  let ?w = "update_phase tk v"
  have speed: "unat (ecu_speed_centi_kph ?w) \<le> 6000"
    by (simp add: update_phase_speed cycle_speed_le)
  have cases_rpm: "ecu_engine_quarter_rpm ?w \<in> {0, 3200} \<or> ecu_engine_quarter_rpm ?w =
      ECU_CalculateEngineSpeed (ecu_speed_centi_kph ?w) (ECU_SelectGear (ecu_speed_centi_kph ?w))"
    by (simp add: update_phase_def Let_def ECU_IDLE_SPEED_RPM_def ECU_CRUISE_SPEED_CENTI_KPH_def
        ECU_SelectGear_def)
  have rpm: "unat (ecu_engine_quarter_rpm ?w) \<le> 10800"
    using cases_rpm engine_speed_bound [OF speed] by auto
  have gear: "unat (ecu_gear ?w) \<le> 4"
    using select_gear_le by (auto simp: update_phase_def Let_def)
  have rest: "ecu_throttle_tenth_percent ?w \<in> {0, 160, 320}" "ecu_door_flags ?w \<in> {0, 1}"
    "ecu_ignition_state ?w \<in> {0, 2}"
    by (simp_all add: update_phase_def Let_def ECU_THROTTLE_ACCEL_TENTH_def
        ECU_THROTTLE_CRUISE_TENTH_def)
  have kept: "ecu_battery_millivolt ?w = ecu_battery_millivolt v"
    "ecu_odometer_tenth_km ?w = ecu_odometer_tenth_km v"
    "ecu_coolant_celsius ?w = ecu_coolant_celsius v"
    "ecu_soc_tenth_percent ?w = ecu_soc_tenth_percent v" "ecu_fault_flags ?w = ecu_fault_flags v"
    by (simp_all add: update_phase_def Let_def)
  show ?thesis
    using assms speed rpm gear rest unfolding wf_vehicle_def kept by blast
qed

lemma update_wf: "wf_firmware fw \<Longrightarrow> wf_firmware (ECU_UpdateVehicleState fw)"
  using update_phase_wf [of "ecu_vehicle_state fw" "ecu_drive_cycle_tick fw"]
  by (auto simp: wf_firmware_def ECU_UpdateVehicleState_def Let_def wf_vehicle_def
      ECU_BATTERY_OFF_MILLIVOLT_def ECU_BATTERY_RUNNING_MILLIVOLT_def)

lemma sint_step:
  fixes c :: u16
  shows "\<bar>sint c\<bar> < 1000 \<Longrightarrow> sint (c + 1) = sint c + 1"
    and "\<bar>sint c\<bar> < 1000 \<Longrightarrow> sint (c - 1) = sint c - 1"
  by (simp_all add: sint_word_ariths signed_take_bit_int_eq_self)

lemma advance_distance_wf: "wf_firmware fw \<Longrightarrow> wf_firmware (advance_distance fw)"
proof -
  assume wf: "wf_firmware fw"
  let ?acc = "ecu_distance_accumulator fw + ucast (ecu_speed_centi_kph (ecu_vehicle_state fw))"
  have acc: "unat ?acc =
      unat (ecu_distance_accumulator fw) + unat (ecu_speed_centi_kph (ecu_vehicle_state fw))"
    using wf by (simp add: wf_firmware_def wf_vehicle_def unat_word_ariths unat_ucast_mod)
  have sub: "unat (?acc - 3600000) = unat ?acc - 3600000" if "3600000 \<le> ?acc"
    using that by (subst unat_sub) simp_all
  have odo: "unat (ecu_odometer_tenth_km (ecu_vehicle_state fw) + 1) \<le> 0xFFFFFF"
    if "ecu_odometer_tenth_km (ecu_vehicle_state fw) < 0xFFFFFF"
    using that by (simp add: unat_word_ariths word_less_nat_alt)
  show ?thesis
    using wf acc sub odo
    by (auto simp: advance_distance_def Let_def ecu_state_defs wf_firmware_def wf_vehicle_def
        word_le_nat_alt)
qed

lemma advance_temperature_wf: "wf_firmware fw \<Longrightarrow> wf_firmware (advance_temperature fw)"
proof -
  assume wf: "wf_firmware fw"
  have "unat (ecu_warmup_tick_count fw + 1) = unat (ecu_warmup_tick_count fw) + 1"
    "unat (ecu_cooldown_tick_count fw + 1) = unat (ecu_cooldown_tick_count fw) + 1"
    using wf by (simp_all add: wf_firmware_def unat_word_ariths)
  then show ?thesis
    using wf sint_step [of "ecu_coolant_celsius (ecu_vehicle_state fw)"]
    by (auto simp: advance_temperature_def Let_def ecu_state_defs wf_firmware_def wf_vehicle_def
        word_le_nat_alt)
qed

lemma advance_cycle_tick_wf: "wf_firmware fw \<Longrightarrow> wf_firmware (advance_cycle_tick fw)"
proof -
  assume wf: "wf_firmware fw"
  have "unat (ecu_drive_cycle_tick fw + 1) = unat (ecu_drive_cycle_tick fw) + 1"
    using wf by (simp add: wf_firmware_def unat_word_ariths)
  then show ?thesis
    using wf by (auto simp: advance_cycle_tick_def Let_def ECU_DRIVE_CYCLE_TICKS_def wf_firmware_def
        word_le_nat_alt)
qed

lemma advance_wf: "wf_firmware fw \<Longrightarrow> wf_firmware (ECU_AdvanceVehicleState fw)"
  by (simp add: ECU_AdvanceVehicleState_def advance_distance_wf advance_temperature_wf
      advance_cycle_tick_wf)

lemma wf_messages_length: "wf_messages ms \<Longrightarrow> length ms = 3"
  by (auto simp: wf_messages_def dest: arg_cong [where f = length])

lemma wf_messages_update:
  assumes "wf_messages ms" "std_id m = std_id (ms ! i)" "period_ms m = period_ms (ms ! i)"
  shows "wf_messages (ms[i := m])"
proof (cases "i < length ms")
  case True
  then have "map (\<lambda>m. (std_id m, period_ms m)) (ms[i := m]) = map (\<lambda>m. (std_id m, period_ms m)) ms"
    using assms by (intro nth_equalityI) (auto simp: nth_list_update)
  then show ?thesis
    using assms by (simp add: wf_messages_def)
qed (use assms in \<open>simp add: list_update_beyond\<close>)

lemma transmit_wf: "wf_firmware fw \<Longrightarrow> wf_firmware (snd (ECU_TransmitMessage send i fw))"
  by (auto simp: ECU_TransmitMessage_def Let_def wf_firmware_def intro!: wf_messages_update)

lemma set_messages_wf:
  "wf_firmware fw \<Longrightarrow> wf_messages ms \<Longrightarrow> wf_firmware (fw\<lparr>ecu_messages := ms\<rparr>)"
  by (simp add: wf_firmware_def)

lemma wf_firmware_messages: "wf_firmware fw \<Longrightarrow> wf_messages (ecu_messages fw)"
  by (simp add: wf_firmware_def)

lemma process_wf: "wf_firmware fw \<Longrightarrow> wf_firmware (snd (ECU_ProcessMessage send i now fw))"
  unfolding ECU_ProcessMessage_def Let_def
  by (simp add: transmit_wf set_messages_wf wf_messages_update wf_firmware_messages)

lemma slot_advance_less: "unat (ucast ((x :: u32) mod 100) :: u8) < 100"
proof -
  have "unat (x mod 100) < 100"
    by (simp add: unat_mod)
  then show ?thesis
    by (simp add: unat_ucast_mod del: unat_mod)
qed

lemma next_slot_wf:
  assumes "wf_firmware g"
  shows "wf_firmware (g\<lparr>ecu_stress_slot := if ucast (ecu_stress_slot g + 1) \<ge> (100 :: u32)
           then 0 else ecu_stress_slot g + 1\<rparr>)"
proof -
  have "unat (if ucast (s + 1) \<ge> (100 :: u32) then 0 else s + 1) < 100"
    if "unat s < 100" for s :: u8
    using that by (simp add: word_le_nat_alt unat_ucast_mod unat_word_ariths)
  then show ?thesis
    using assms by (simp add: wf_firmware_def)
qed

lemma stress_slot_wf: "wf_firmware fw \<Longrightarrow> wf_firmware (snd (ECU_ProcessStressSlot p send now fw))"
proof -
  assume wf: "wf_firmware fw"
  have rel: "wf_firmware (fw\<lparr>ecu_stress_last_release_ms := r\<rparr>)" for r
    using wf by (simp add: wf_firmware_def)
  have skip: "wf_firmware (fw\<lparr>ecu_stress_last_release_ms := r, ecu_stress_missed_slot_count := k,
      ecu_stress_slot := ucast ((y :: u32) mod 100)\<rparr>)" for r k y
    using wf slot_advance_less by (simp add: wf_firmware_def)
  show ?thesis
    unfolding ECU_ProcessStressSlot_def Let_def ECU_STRESS_SUPERFRAME_SLOTS_def case_prod_beta
    using wf by (simp add: next_slot_wf transmit_wf rel skip del: unat_mod)
qed

lemma funpow_invariant: "P x \<Longrightarrow> (\<And>y. P y \<Longrightarrow> P (f y)) \<Longrightarrow> P ((f ^^ n) x)"
  by (induction n) simp_all

lemma state_clock_wf: "wf_firmware fw \<Longrightarrow> wf_firmware (ECU_ProcessStressStateClock now fw)"
proof -
  assume "wf_firmware fw"
  then have "wf_firmware (fw\<lparr>ecu_stress_state_last_advance_ms := t\<rparr>)" for t
    by (simp add: wf_firmware_def)
  then show ?thesis
    unfolding ECU_ProcessStressStateClock_def Let_def
    by (intro funpow_invariant [where P = wf_firmware]) (simp_all add: update_wf advance_wf)
qed

lemma main_loop_pass_wf: "wf_firmware fw \<Longrightarrow> wf_firmware (main_loop_pass p now send fw)"
  by (simp add: main_loop_pass_def Let_def case_prod_beta update_wf process_wf advance_wf
      stress_slot_wf state_clock_wf)

lemma reset_wf: "wf_firmware (ECU_InitSchedule start reset_firmware)"
  by (simp add: ECU_InitSchedule_def reset_firmware_def wf_firmware_def wf_messages_def
      initial_ecu_messages_def ecu_id_defs wf_vehicle_def initial_ecu_vehicle_def ecu_state_defs
      ECU_BATTERY_OFF_MILLIVOLT_def)

text \<open>From reset, whatever the HAL tick reads and whichever sends fail, in every traffic profile
  and after any number of main-loop passes, every quantity the simulation keeps stays in its
  physical range: speed at most 60 km/h, engine at most 2700 rpm, coolant between 20 and 90
  degrees, the odometer within its 24 bits, the cycle tick, distance remainder, temperature
  counters and superframe slot below their periods, and the message table keeps its identifiers
  and periods.\<close>

theorem firmware_state_bounded: "wf_firmware (run_firmware profile start passes)"
proof -
  have "wf_firmware fw \<Longrightarrow>
      wf_firmware (fold (\<lambda>(now, send). main_loop_pass profile now send) passes fw)" for fw
    by (induction passes arbitrary: fw) (auto simp: main_loop_pass_wf)
  then show ?thesis
    by (simp add: run_firmware_def reset_wf)
qed

subsection \<open>The gateway decodes what the firmware sends\<close>

definition expected_signals :: "ecu_vehicle \<Rightarrow> u16 \<Rightarrow> gateway_decoded_signals" where
  "expected_signals v sid =
     (if sid = ECU_VEHICLE_DYNAMICS_ID then Vehicle_dynamics
        \<lparr>vehicle_speed_centi_kph = ucast (ecu_speed_centi_kph v),
         engine_speed_quarter_rpm = ucast (ecu_engine_quarter_rpm v),
         throttle_tenth_percent = ecu_throttle_tenth_percent v, gear = ecu_gear v\<rparr>
      else if sid = ECU_POWER_STATUS_ID then Power_status
        \<lparr>battery_millivolt = ucast (ecu_battery_millivolt v), coolant_celsius = ecu_coolant_celsius v,
         soc_tenth_percent = ecu_soc_tenth_percent v, fault_flags = ecu_fault_flags v\<rparr>
      else Body_status
        \<lparr>odometer_tenth_km = ecu_odometer_tenth_km v, door_flags = ecu_door_flags v,
         ignition_state = ecu_ignition_state v\<rparr>)"

definition expected_payload :: "ecu_vehicle \<Rightarrow> u16 \<Rightarrow> u8 \<Rightarrow> u8 \<Rightarrow> gateway_decoded_payload" where
  "expected_payload v sid cnt cs = \<lparr>schema_version = 1,
     message_type = message_type_value (message_type_of_id (ucast sid)),
     rolling_counter = cnt, checksum = cs,
     valid_signal_mask = (if sid = ECU_BODY_STATUS_ID then 0x07 else 0x0f),
     signals = expected_signals v sid\<rparr>"

lemma upt_0_7: "[0..<7] = [0, 1, 2, 3, 4, 5, 6::nat]"
  by (simp add: upt_rec)

lemma replicate_8_0: "replicate 8 (0 :: u8) = [0, 0, 0, 0, 0, 0, 0, 0]"
  by (simp add: numeral_eq_Suc)

lemma build_dynamics:
  "std_id m = ECU_VEHICLE_DYNAMICS_ID \<Longrightarrow> \<exists>cs. ECU_BuildPayload v m (replicate 8 0) =
     [ucast (ecu_speed_centi_kph v AND 0xFF), ucast (drop_bit 8 (ecu_speed_centi_kph v)),
      ucast (ecu_engine_quarter_rpm v AND 0xFF), ucast (drop_bit 8 (ecu_engine_quarter_rpm v)),
      ECU_EncodeTenthPercent (ecu_throttle_tenth_percent v), ecu_gear v, msg_counter m, cs]"
  by (simp add: ECU_BuildPayload_def ECU_FinalizePayload_def ECU_PackU16Le_def Let_def
      replicate_8_0)

lemma build_power:
  "std_id m = ECU_POWER_STATUS_ID \<Longrightarrow> \<exists>cs. ECU_BuildPayload v m (replicate 8 0) =
     [ucast (ecu_battery_millivolt v AND 0xFF), ucast (drop_bit 8 (ecu_battery_millivolt v)),
      ucast (ecu_coolant_celsius v + 40), ECU_EncodeTenthPercent (ecu_soc_tenth_percent v),
      ucast (ecu_fault_flags v AND 0xFF), ucast (drop_bit 8 (ecu_fault_flags v)), msg_counter m, cs]"
  by (simp add: ECU_BuildPayload_def ECU_FinalizePayload_def ECU_PackU16Le_def Let_def ecu_id_defs
      replicate_8_0)

lemma build_body:
  "std_id m = ECU_BODY_STATUS_ID \<Longrightarrow> \<exists>cs. ECU_BuildPayload v m (replicate 8 0) =
     [ucast (ecu_odometer_tenth_km v AND 0xFF), ucast (drop_bit 8 (ecu_odometer_tenth_km v) AND 0xFF),
      ucast (drop_bit 16 (ecu_odometer_tenth_km v) AND 0xFF), ecu_door_flags v AND 0x0F,
      ecu_ignition_state v AND 0x03, 0, msg_counter m, cs]"
  by (simp add: ECU_BuildPayload_def ECU_FinalizePayload_def ECU_PackU24Le_def Let_def ecu_id_defs
      replicate_8_0)

lemma finalize_xor:
  "length p = 8 \<Longrightarrow> calculate_xor (ECU_FinalizePayload c p) = ECU_FinalizePayload c p ! 7"
  by (simp add: calculate_xor_eval ECU_FinalizePayload_def Let_def upt_0_7 ac_simps)

lemma length_build [simp]: "length (ECU_BuildPayload v m (replicate 8 0)) = 8"
  by (simp add: ECU_BuildPayload_def ECU_FinalizePayload_def Let_def ECU_PackU16Le_def
      ECU_PackU24Le_def)

lemma build_xor:
  "calculate_xor (ECU_BuildPayload v m (replicate 8 0)) = ECU_BuildPayload v m (replicate 8 0) ! 7"
  unfolding ECU_BuildPayload_def
  by (rule finalize_xor) (simp add: Let_def ECU_PackU16Le_def ECU_PackU24Le_def)

lemma and_ff: "(w :: u16) AND 0xFF = take_bit 8 w" "(u :: u32) AND 0xFF = take_bit 8 u"
  by (simp_all add: take_bit_eq_mask mask_eq_exp_minus_1)

lemma read_packed_u16:
  "read_u16_le (ucast (w AND 0xFF) # ucast (drop_bit 8 w) # rest) = w"
  unfolding and_ff
  by (rule bit_word_eqI)
    (auto simp: read_u16_le_def bit_or_iff bit_take_bit_iff bit_ucast_iff bit_push_bit_iff
      bit_drop_bit_eq)

lemma high_bits_clear:
  assumes "unat (w :: u32) < 2 ^ n" "n \<le> i"
  shows "\<not> bit w i"
proof -
  have "take_bit n (unat w) = unat w"
    using assms(1) by (simp add: take_bit_nat_eq_self)
  then have "\<not> bit (unat w) i"
    using assms(2) by (metis bit_take_bit_iff not_less)
  then show ?thesis
    by (simp add: bit_unsigned_iff)
qed

lemma read_packed_u24:
  assumes "unat w \<le> 0xFFFFFF"
  shows "read_u24_le (ucast (w AND 0xFF) # ucast (drop_bit 8 w AND 0xFF) #
    ucast (drop_bit 16 w AND 0xFF) # rest) = w"
proof -
  have high: "\<not> bit w n" if "24 \<le> n" for n
    using assms that by (intro high_bits_clear [of w 24]) simp_all
  show ?thesis
    unfolding and_ff
  proof (rule bit_word_eqI)
    fix n :: nat
    have "n < 8 \<or> 8 \<le> n \<and> n < 16 \<or> 16 \<le> n \<and> n < 24 \<or> 24 \<le> n"
      by linarith
    then show "bit (read_u24_le (ucast (take_bit 8 w) # ucast (take_bit 8 (drop_bit 8 w)) #
        ucast (take_bit 8 (drop_bit 16 w)) # rest)) n = bit w n"
      by (elim disjE) (simp_all add: read_u24_le_def bit_or_iff bit_take_bit_iff bit_ucast_iff
          bit_push_bit_iff bit_drop_bit_eq high less_diff_conv2)
  qed
qed

lemma coolant_roundtrip:
  assumes "20 \<le> sint (c :: u16)" "sint c \<le> 90"
  shows "ucast (ucast (c + 40) :: u8) - 40 = c"
proof -
  have "uint c = sint c"
    using assms by (simp add: uint_sint take_bit_int_eq_self)
  then have "c \<le> 90"
    using assms by (simp add: word_le_def)
  then have c: "unat c \<le> 90"
    by (simp add: word_le_nat_alt)
  then have "unat (c + 40) = unat c + 40"
    by (simp add: unat_word_ariths)
  with c have "ucast (ucast (c + 40) :: u8) = c + 40"
    by (intro word_unat_eq_iff [THEN iffD2]) (simp add: unat_ucast_mod)
  then show ?thesis
    by simp
qed

lemma encode_tenth_values:
  "t \<in> {0, 160, 320, 800} \<Longrightarrow> ucast (ECU_EncodeTenthPercent t) * 4 = t"
  by (auto simp: ECU_EncodeTenthPercent_def)

lemma build_counter: "ECU_BuildPayload v m (replicate 8 0) ! 6 = msg_counter m"
  by (simp add: ECU_BuildPayload_def ECU_FinalizePayload_def Let_def ECU_PackU16Le_def
      ECU_PackU24Le_def)

lemma decode_signals_build:
  assumes "wf_vehicle v"
    and "std_id m \<in> {ECU_VEHICLE_DYNAMICS_ID, ECU_POWER_STATUS_ID, ECU_BODY_STATUS_ID}"
  shows "snd (decode_signals (message_type_of_id (ucast (std_id m)))
       (ECU_BuildPayload v m (replicate 8 0)) p) =
     p\<lparr>valid_signal_mask := if std_id m = ECU_BODY_STATUS_ID then 0x07 else 0x0f,
       signals := expected_signals v (std_id m)\<rparr>"
proof -
  have v: "20 \<le> sint (ecu_coolant_celsius v)" "sint (ecu_coolant_celsius v) \<le> 90"
    "ecu_throttle_tenth_percent v \<in> {0, 160, 320, 800}"
    "ecu_soc_tenth_percent v \<in> {0, 160, 320, 800}"
    "unat (ecu_odometer_tenth_km v) \<le> 0xFFFFFF"
    "ecu_door_flags v AND 0x0F AND 0x0F = ecu_door_flags v"
    "ecu_ignition_state v AND 0x03 AND 0x03 = ecu_ignition_state v"
    using assms(1) by (auto simp: wf_vehicle_def)
  consider (dynamics) "std_id m = ECU_VEHICLE_DYNAMICS_ID" | (power) "std_id m = ECU_POWER_STATUS_ID"
    | (body) "std_id m = ECU_BODY_STATUS_ID"
    using assms(2) by blast
  then show ?thesis
  proof cases
    case dynamics
    obtain cs where "ECU_BuildPayload v m (replicate 8 0) = [ucast (ecu_speed_centi_kph v AND 0xFF),
        ucast (drop_bit 8 (ecu_speed_centi_kph v)), ucast (ecu_engine_quarter_rpm v AND 0xFF),
        ucast (drop_bit 8 (ecu_engine_quarter_rpm v)),
        ECU_EncodeTenthPercent (ecu_throttle_tenth_percent v), ecu_gear v, msg_counter m, cs]"
      using build_dynamics [OF dynamics, of v] by blast
    then show ?thesis
      using dynamics encode_tenth_values [OF v(3)]
      by (simp add: ecu_id_defs can_id_defs payload_constants expected_signals_def read_packed_u16)
  next
    case power
    obtain cs where "ECU_BuildPayload v m (replicate 8 0) = [ucast (ecu_battery_millivolt v AND 0xFF),
        ucast (drop_bit 8 (ecu_battery_millivolt v)), ucast (ecu_coolant_celsius v + 40),
        ECU_EncodeTenthPercent (ecu_soc_tenth_percent v), ucast (ecu_fault_flags v AND 0xFF),
        ucast (drop_bit 8 (ecu_fault_flags v)), msg_counter m, cs]"
      using build_power [OF power, of v] by blast
    then show ?thesis
      using power encode_tenth_values [OF v(4)] coolant_roundtrip [OF v(1,2)]
      by (simp add: ecu_id_defs can_id_defs payload_constants expected_signals_def read_packed_u16)
  next
    case body
    obtain cs where "ECU_BuildPayload v m (replicate 8 0) = [ucast (ecu_odometer_tenth_km v AND 0xFF),
        ucast (drop_bit 8 (ecu_odometer_tenth_km v) AND 0xFF),
        ucast (drop_bit 16 (ecu_odometer_tenth_km v) AND 0xFF), ecu_door_flags v AND 0x0F,
        ecu_ignition_state v AND 0x03, 0, msg_counter m, cs]"
      using build_body [OF body, of v] by blast
    then show ?thesis
      using body read_packed_u24 [OF v(5)] v(6,7)
      by (simp add: ecu_id_defs can_id_defs payload_constants expected_signals_def)
  qed
qed

text \<open>C15: Every frame the firmware builds from a well-formed vehicle state is accepted by the
  gateway's decoder, which recovers exactly the simulated signals, the message type and the
  rolling counter.\<close>

theorem firmware_frames_decode:
  assumes "wf_vehicle v"
    and "std_id m \<in> {ECU_VEHICLE_DYNAMICS_ID, ECU_POWER_STATUS_ID, ECU_BODY_STATUS_ID}"
  shows "gateway_vehicle_decode_frame (ucast (std_id m)) 8
       (Some (ECU_BuildPayload v m (replicate 8 0))) (Some q) =
     (GATEWAY_DECODE_OK, Some (expected_payload v (std_id m) (msg_counter m)
        (ECU_BuildPayload v m (replicate 8 0) ! 7)))"
proof -
  have id: "supported_can_id (ucast (std_id m))"
    using assms(2) by (auto simp: supported_can_id_iff ecu_id_defs)
  show ?thesis
    by (simp add: decode_frame_cases id build_xor decode_signals_build [OF assms] build_counter
        initialize_decoded_payload_def expected_payload_def zero_decoded_payload_def
        GATEWAY_DECODED_SCHEMA_VERSION_def del: message_type_of_id.simps)
qed

lemma firmware_frames_decode_witness:
  "gateway_vehicle_decode_frame 0x101 8
       (Some (ECU_BuildPayload initial_ecu_vehicle (initial_ecu_messages ! 1) (replicate 8 0)))
       (Some zero_decoded_payload) =
     (GATEWAY_DECODE_OK, Some (expected_payload initial_ecu_vehicle 0x101 0
        (ECU_BuildPayload initial_ecu_vehicle (initial_ecu_messages ! 1) (replicate 8 0) ! 7)))"
proof -
  have wf: "wf_vehicle initial_ecu_vehicle"
    using reset_wf [of 0] by (simp add: wf_firmware_def ECU_InitSchedule_def reset_firmware_def)
  have id: "std_id (initial_ecu_messages ! 1) = 0x101" "msg_counter (initial_ecu_messages ! 1) = 0"
    by (simp_all add: initial_ecu_messages_def ecu_id_defs)
  show ?thesis
    using firmware_frames_decode [OF wf, of "initial_ecu_messages ! 1" zero_decoded_payload]
    unfolding id by (simp add: ecu_id_defs)
qed

subsection \<open>The frames on the bus\<close>

definition sent_for :: "u16 \<Rightarrow> (u16 \<times> bytes) list \<Rightarrow> bytes list" where
  "sent_for sid log = map snd (filter (\<lambda>f. fst f = sid) log)"

lemma sent_for_append [simp]:
  "sent_for sid (log @ [f]) = sent_for sid log @ (if fst f = sid then [snd f] else [])"
  by (simp add: sent_for_def)

text \<open>The part of the state that the log invariant speaks about; only a send changes it.\<close>

definition log_view :: "firmware \<Rightarrow> (u16 \<times> u8 \<times> u32) list \<times> (u16 \<times> bytes) list" where
  "log_view fw = (map (\<lambda>m. (std_id m, msg_counter m, tx_success_count m)) (ecu_messages fw), tx_log fw)"

definition counters_ok :: "(u16 \<times> bytes) list \<Rightarrow> u16 \<times> u8 \<times> u32 \<Rightarrow> bool" where
  "counters_ok log row = (case row of (sid, cnt, ok_count) \<Rightarrow>
     let frames = sent_for sid log; n = length frames in
     map (\<lambda>bs. bs ! 6) frames = map of_nat [0..<n] \<and> cnt = of_nat n \<and> ok_count = of_nat n)"

definition log_ok :: "firmware \<Rightarrow> bool" where
  "log_ok fw \<longleftrightarrow> (case log_view fw of (rows, log) \<Rightarrow>
     (\<forall>row\<in>set rows. counters_ok log row) \<and>
     (\<forall>(sid, bs)\<in>set log. sid \<in> fst ` set rows \<and>
        fst (gateway_vehicle_decode_frame (ucast sid) 8 (Some bs) (Some zero_decoded_payload)) =
          GATEWAY_DECODE_OK))"

lemma log_ok_cong: "log_view fw = log_view fw' \<Longrightarrow> log_ok fw \<longleftrightarrow> log_ok fw'"
  by (simp add: log_ok_def)

lemma log_view_frame [frame_simps]:
  "log_view (ECU_UpdateVehicleState fw) = log_view fw"
  "log_view (ECU_AdvanceVehicleState fw) = log_view fw"
  by (simp_all add: log_view_def ECU_UpdateVehicleState_def ECU_AdvanceVehicleState_def Let_def
      advance_cycle_tick_def advance_temperature_def advance_distance_def)

lemma log_view_release [frame_simps]:
  "log_view (fw\<lparr>ecu_messages := (ecu_messages fw)[i := (ecu_messages fw ! i)\<lparr>last_release_ms := t\<rparr>]\<rparr>)
     = log_view fw"
  by (cases "i < length (ecu_messages fw)")
    (auto simp: log_view_def list_update_beyond intro!: nth_equalityI simp: nth_list_update)

lemma wf_messages_cases:
  assumes "wf_messages ms"
  obtains a b c where "ms = [a, b, c]" "std_id a = ECU_VEHICLE_DYNAMICS_ID"
    "std_id b = ECU_POWER_STATUS_ID" "std_id c = ECU_BODY_STATUS_ID"
    "period_ms a = 10" "period_ms b = 100" "period_ms c = 1000"
proof -
  have "length ms = 3"
    by (rule wf_messages_length [OF assms])
  then obtain a b c where "ms = [a, b, c]"
    by (auto simp: numeral_eq_Suc length_Suc_conv)
  then show ?thesis
    using assms that by (simp add: wf_messages_def ecu_id_defs)
qed

lemma wf_message_at:
  assumes "wf_messages ms" "i < 3"
  shows "std_id (ms ! i) \<in> {ECU_VEHICLE_DYNAMICS_ID, ECU_POWER_STATUS_ID, ECU_BODY_STATUS_ID}"
proof -
  have "i = 0 \<or> i = 1 \<or> i = 2"
    using assms(2) by arith
  then show ?thesis
    using assms(1) by (elim wf_messages_cases) auto
qed

lemma counters_ok_other:
  "sid \<noteq> fst row \<Longrightarrow> counters_ok (log @ [(sid, bs)]) row = counters_ok log row"
  by (auto simp: counters_ok_def Let_def split: prod.splits)

lemma counters_ok_step:
  "counters_ok log (sid, cnt, n) \<Longrightarrow> bs ! 6 = cnt \<Longrightarrow>
     counters_ok (log @ [(sid, bs)]) (sid, cnt + 1, n + 1)"
  by (auto simp: counters_ok_def Let_def add.commute)

lemma transmit_log_ok:
  assumes "wf_firmware fw" "log_ok fw" "i < 3"
  shows "log_ok (snd (ECU_TransmitMessage send i fw))"
proof -
  obtain a b c where ms: "ecu_messages fw = [a, b, c]" "std_id a = ECU_VEHICLE_DYNAMICS_ID"
    "std_id b = ECU_POWER_STATUS_ID" "std_id c = ECU_BODY_STATUS_ID"
    using wf_firmware_messages [OF assms(1)] by (elim wf_messages_cases)
  have i: "i = 0 \<or> i = 1 \<or> i = 2"
    using assms(3) by arith
  let ?m = "ecu_messages fw ! i"
  let ?bs = "ECU_BuildPayload (ecu_vehicle_state fw) ?m (replicate 8 0)"
  have "wf_vehicle (ecu_vehicle_state fw)"
    using assms(1) by (simp add: wf_firmware_def)
  then have dec: "fst (gateway_vehicle_decode_frame (ucast (std_id ?m)) 8 (Some ?bs)
      (Some zero_decoded_payload)) = GATEWAY_DECODE_OK"
    using wf_message_at [OF wf_firmware_messages [OF assms(1)] assms(3)]
    by (simp add: decode_frame_ok_iff supported_can_id_iff ecu_id_defs build_xor) auto
  show ?thesis
  proof (cases "send (std_id ?m) ?bs = HAL_OK")
    case True
    then show ?thesis
      using i dec assms(2) ms
      by (elim disjE)
        (auto simp: log_ok_def log_view_def ECU_TransmitMessage_def Let_def counters_ok_other
          ecu_id_defs build_counter intro!: counters_ok_step)
  next
    case False
    then have "log_view (snd (ECU_TransmitMessage send i fw)) = log_view fw"
      using i ms by (auto simp: log_view_def ECU_TransmitMessage_def Let_def)
    then show ?thesis
      using assms(2) log_ok_cong by blast
  qed
qed

lemma process_log_ok:
  assumes "wf_firmware fw" "log_ok fw" "i < 3"
  shows "log_ok (snd (ECU_ProcessMessage send i now fw))"
proof -
  have "log_ok (snd (ECU_TransmitMessage send i (fw\<lparr>ecu_messages :=
      (ecu_messages fw)[i := (ecu_messages fw ! i)\<lparr>last_release_ms := t\<rparr>]\<rparr>)))" for t
    using assms by (intro transmit_log_ok set_messages_wf wf_messages_update)
      (auto simp: wf_firmware_messages log_ok_cong [OF log_view_release])
  then show ?thesis
    using assms(2) by (simp add: ECU_ProcessMessage_def Let_def)
qed

lemma stress_index_less: "unat (ECU_StressMessageIndex slot) < 3"
  by (simp add: ECU_StressMessageIndex_def)

lemma stress_log_ok:
  assumes "wf_firmware fw" "log_ok fw"
  shows "log_ok (snd (ECU_ProcessStressSlot p send now fw))"
proof -
  have wf: "wf_firmware (fw\<lparr>ecu_stress_last_release_ms := r\<rparr>)"
    "wf_firmware (fw\<lparr>ecu_stress_last_release_ms := r, ecu_stress_missed_slot_count := k,
      ecu_stress_slot := ucast ((y :: u32) mod 100)\<rparr>)" for r k y
    using assms(1) slot_advance_less by (simp_all add: wf_firmware_def del: unat_mod)
  have lg: "log_ok (fw\<lparr>ecu_stress_last_release_ms := r\<rparr>)"
    "log_ok (fw\<lparr>ecu_stress_last_release_ms := r, ecu_stress_missed_slot_count := k,
      ecu_stress_slot := x\<rparr>)" for r k x
    using assms(2) by (simp_all add: log_ok_def log_view_def)
  have slot: "log_ok (g\<lparr>ecu_stress_slot := x\<rparr>) \<longleftrightarrow> log_ok g" for g x
    by (simp add: log_ok_def log_view_def)
  show ?thesis
    unfolding ECU_ProcessStressSlot_def Let_def ECU_STRESS_SUPERFRAME_SLOTS_def case_prod_beta
    using assms by (auto simp: slot intro!: transmit_log_ok wf lg stress_index_less)
qed

lemma state_clock_log_ok: "log_ok fw \<Longrightarrow> log_ok (ECU_ProcessStressStateClock now fw)"
proof -
  assume "log_ok fw"
  then have "log_ok (fw\<lparr>ecu_stress_state_last_advance_ms := t\<rparr>)" for t
    by (simp add: log_ok_def log_view_def)
  then show ?thesis
    unfolding ECU_ProcessStressStateClock_def Let_def
    by (intro funpow_invariant [where P = log_ok]) (simp_all add: log_ok_def frame_simps)
qed

lemma main_loop_pass_log_ok:
  assumes "wf_firmware fw" "log_ok fw"
  shows "log_ok (main_loop_pass p now send fw)"
proof -
  have u: "log_ok (ECU_UpdateVehicleState fw)"
    using assms(2) log_ok_cong [OF log_view_frame(1)] by blast
  have a: "log_ok (ECU_AdvanceVehicleState g) \<longleftrightarrow> log_ok g" for g
    by (rule log_ok_cong [OF log_view_frame(2)])
  show ?thesis
    using assms(1) u
    by (simp add: main_loop_pass_def Let_def case_prod_beta a process_log_ok process_wf update_wf
        stress_log_ok state_clock_log_ok)
qed

lemma run_log_ok: "log_ok (run_firmware profile start passes)"
proof -
  have step: "wf_firmware fw \<Longrightarrow> log_ok fw \<Longrightarrow>
      log_ok (fold (\<lambda>(now, send). main_loop_pass profile now send) passes fw)" for fw
    by (induction passes arbitrary: fw) (auto simp: main_loop_pass_wf main_loop_pass_log_ok)
  have "log_ok (ECU_InitSchedule start reset_firmware)"
    by (simp add: log_ok_def log_view_def ECU_InitSchedule_def reset_firmware_def
        initial_ecu_messages_def counters_ok_def sent_for_def)
  then show ?thesis
    by (simp add: run_firmware_def reset_wf step)
qed

text \<open>C29: In every run of the firmware, every frame that reached the bus is accepted by the gateway's
  decoder, and for each identifier the rolling counters of its frames count 0, 1, 2, ... modulo
  256 without gap or repetition, whichever sends failed in between.\<close>

theorem firmware_bus_trace:
  "(\<forall>(sid, bs)\<in>set (tx_log (run_firmware profile start passes)).
      fst (gateway_vehicle_decode_frame (ucast sid) 8 (Some bs) (Some zero_decoded_payload)) =
        GATEWAY_DECODE_OK) \<and>
   map (\<lambda>bs. bs ! 6) (sent_for sid (tx_log (run_firmware profile start passes))) =
     map of_nat [0..<length (sent_for sid (tx_log (run_firmware profile start passes)))]"
proof -
  let ?fw = "run_firmware profile start passes"
  have ok: "log_ok ?fw"
    by (rule run_log_ok)
  have "sent_for sid (tx_log ?fw) = []" if "sid \<notin> std_id ` set (ecu_messages ?fw)"
    using ok that
    by (fastforce simp: sent_for_def log_ok_def log_view_def filter_empty_conv image_image)
  then show ?thesis
    using ok by (cases "sid \<in> std_id ` set (ecu_messages ?fw)")
      (auto simp: log_ok_def log_view_def counters_ok_def Let_def)
qed

lemma firmware_bus_trace_witness:
  "map (\<lambda>bs. bs ! 6) (sent_for 0x100 (tx_log (run_firmware PROFILE_111 0
     [(10, \<lambda>_ _. HAL_OK), (20, \<lambda>_ _. HAL_TIMEOUT), (30, \<lambda>_ _. HAL_OK)]))) = [0, 1]"
proof -
  let ?log = "tx_log (run_firmware PROFILE_111 0
     [(10, \<lambda>_ _. HAL_OK), (20, \<lambda>_ _. HAL_TIMEOUT), (30, \<lambda>_ _. HAL_OK)])"
  have n: "length (sent_for 0x100 ?log) = 2"
    by code_simp
  show ?thesis
    using firmware_bus_trace [of PROFILE_111 0
      "[(10, \<lambda>_ _. HAL_OK), (20, \<lambda>_ _. HAL_TIMEOUT), (30, \<lambda>_ _. HAL_OK)]" "0x100"]
    by (simp add: n upt_rec)
qed

subsection \<open>Distance over a drive cycle\<close>

definition drive_step :: "firmware \<Rightarrow> firmware" where
  "drive_step fw = ECU_AdvanceVehicleState (ECU_UpdateVehicleState fw)"

text \<open>Distance in units of 1 / 36 mm: the odometer counts 3600000 of them per 0.1 km.\<close>

definition total_distance :: "firmware \<Rightarrow> nat" where
  "total_distance fw = 3600000 * unat (ecu_odometer_tenth_km (ecu_vehicle_state fw)) +
     unat (ecu_distance_accumulator fw)"

lemma advance_distance_total:
  assumes "wf_firmware fw" "unat (ecu_odometer_tenth_km (ecu_vehicle_state fw)) < 0xFFFFFF"
  shows "total_distance (advance_distance fw) =
     total_distance fw + unat (ecu_speed_centi_kph (ecu_vehicle_state fw))"
proof -
  let ?acc = "ecu_distance_accumulator fw + ucast (ecu_speed_centi_kph (ecu_vehicle_state fw))"
  have acc: "unat ?acc =
      unat (ecu_distance_accumulator fw) + unat (ecu_speed_centi_kph (ecu_vehicle_state fw))"
    using assms(1) by (simp add: wf_firmware_def wf_vehicle_def unat_word_ariths unat_ucast_mod)
  have sub: "unat (?acc - 3600000) = unat ?acc - 3600000" if "3600000 \<le> ?acc"
    using that by (subst unat_sub) simp_all
  have odo: "unat (ecu_odometer_tenth_km (ecu_vehicle_state fw) + 1) =
      unat (ecu_odometer_tenth_km (ecu_vehicle_state fw)) + 1"
    using assms(2) by (simp add: unat_word_ariths)
  show ?thesis
  proof (cases "3600000 \<le> ?acc")
    case True
    then show ?thesis
      using acc sub odo assms(2)
      by (simp add: advance_distance_def total_distance_def ecu_state_defs word_less_nat_alt
          word_le_nat_alt)
  next
    case False
    then show ?thesis
      using acc by (simp add: advance_distance_def total_distance_def ecu_state_defs)
  qed
qed

lemma temperature_keeps_distance:
  "total_distance (advance_cycle_tick (advance_temperature fw)) = total_distance fw"
  "ecu_drive_cycle_tick (advance_temperature (advance_distance fw)) = ecu_drive_cycle_tick fw"
  by (simp_all add: total_distance_def advance_cycle_tick_def advance_temperature_def
      advance_distance_def Let_def)

lemma drive_step_tick:
  assumes "wf_firmware fw"
  shows "unat (ecu_drive_cycle_tick (drive_step fw)) = (unat (ecu_drive_cycle_tick fw) + 1) mod 6000"
proof -
  have tick: "unat (ecu_drive_cycle_tick fw) < 6000"
    using assms by (simp add: wf_firmware_def)
  then have "unat (ecu_drive_cycle_tick fw + 1) = unat (ecu_drive_cycle_tick fw) + 1"
    by (simp add: unat_word_ariths)
  moreover have "ecu_drive_cycle_tick (ECU_UpdateVehicleState fw) = ecu_drive_cycle_tick fw"
    by (simp add: ECU_UpdateVehicleState_def Let_def)
  ultimately show ?thesis
    using tick temperature_keeps_distance(2) [of "ECU_UpdateVehicleState fw"]
    by (auto simp: drive_step_def ECU_AdvanceVehicleState_def advance_cycle_tick_def Let_def
        ECU_DRIVE_CYCLE_TICKS_def word_le_nat_alt mod_Suc)
qed

lemma drive_step_distance:
  assumes "wf_firmware fw" "unat (ecu_odometer_tenth_km (ecu_vehicle_state fw)) < 0xFFFFFF"
  shows "total_distance (drive_step fw) =
     total_distance fw + cycle_speed (unat (ecu_drive_cycle_tick fw))"
proof -
  let ?u = "ECU_UpdateVehicleState fw"
  have odo: "ecu_odometer_tenth_km (ecu_vehicle_state ?u) = ecu_odometer_tenth_km (ecu_vehicle_state fw)"
    "ecu_distance_accumulator ?u = ecu_distance_accumulator fw"
    by (simp_all add: ECU_UpdateVehicleState_def update_phase_def Let_def)
  have speed: "unat (ecu_speed_centi_kph (ecu_vehicle_state ?u)) =
      cycle_speed (unat (ecu_drive_cycle_tick fw))"
    by (simp add: ECU_UpdateVehicleState_def Let_def update_phase_speed)
  have "total_distance (drive_step fw) = total_distance (advance_distance ?u)"
    by (simp add: drive_step_def ECU_AdvanceVehicleState_def temperature_keeps_distance)
  also have "\<dots> = total_distance ?u + cycle_speed (unat (ecu_drive_cycle_tick fw))"
    using advance_distance_total [OF update_wf [OF assms(1)]] assms(2) odo speed by simp
  finally show ?thesis
    by (simp add: total_distance_def odo)
qed

lemma drive_steps_wf: "wf_firmware fw \<Longrightarrow> wf_firmware ((drive_step ^^ n) fw)"
  by (induction n) (simp_all add: drive_step_def update_wf advance_wf)

lemma drive_steps_tick:
  "wf_firmware fw \<Longrightarrow> unat (ecu_drive_cycle_tick ((drive_step ^^ n) fw)) =
     (unat (ecu_drive_cycle_tick fw) + n) mod 6000"
proof (induction n)
  case 0
  then show ?case by (simp add: wf_firmware_def)
next
  case (Suc n)
  then show ?case
    using drive_step_tick [OF drive_steps_wf [OF Suc.prems, of n]] by (simp add: mod_Suc_eq)
qed

lemma odometer_of_total:
  "wf_firmware fw \<Longrightarrow> unat (ecu_odometer_tenth_km (ecu_vehicle_state fw)) = total_distance fw div 3600000"
  by (simp add: wf_firmware_def total_distance_def)

lemma drive_steps_distance:
  assumes "wf_firmware fw"
    and "total_distance fw + (\<Sum>i<n. cycle_speed ((unat (ecu_drive_cycle_tick fw) + i) mod 6000))
       < 0xFFFFFF * 3600000"
  shows "total_distance ((drive_step ^^ n) fw) = total_distance fw +
     (\<Sum>i<n. cycle_speed ((unat (ecu_drive_cycle_tick fw) + i) mod 6000))"
  using assms(2)
proof (induction n)
  case (Suc n)
  let ?g = "(drive_step ^^ n) fw"
  have wf: "wf_firmware ?g"
    by (rule drive_steps_wf [OF assms(1)])
  have IH: "total_distance ?g = total_distance fw +
      (\<Sum>i<n. cycle_speed ((unat (ecu_drive_cycle_tick fw) + i) mod 6000))"
    using Suc by simp
  then have "unat (ecu_odometer_tenth_km (ecu_vehicle_state ?g)) < 0xFFFFFF"
    using Suc.prems odometer_of_total [OF wf] by (simp add: less_mult_imp_div_less)
  from drive_step_distance [OF wf this] show ?case
    by (simp add: IH drive_steps_tick [OF assms(1)])
qed simp

lemma cycle_prefix:
  defines "S \<equiv> \<lambda>n. \<Sum>i<n. cycle_speed i"
  shows "n \<le> 500 \<Longrightarrow> S n = 0"
    and "n \<le> 1500 \<Longrightarrow> S (500 + n) + 2 * n = 2 * n * n"
    and "n \<le> 2000 \<Longrightarrow> S (2000 + n) = 4497000 + 6000 * n"
    and "n \<le> 1500 \<Longrightarrow> S (4000 + n) + 2 * n * n = 16497000 + 6002 * n"
    and "n \<le> 500 \<Longrightarrow> S (5500 + n) = 21000000"
proof -
  have step: "S (Suc m) = S m + cycle_speed m" for m
    by (simp add: S_def)
  show idle: "S n = 0" if "n \<le> 500" for n
    using that unfolding S_def by (induction n) (simp_all add: cycle_speed_def)
  show accel: "S (500 + n) + 2 * n = 2 * n * n" if "n \<le> 1500" for n
    using that
  proof (induction n)
    case 0
    then show ?case using idle [of 500] by simp
  next
    case (Suc n)
    have "cycle_speed (500 + n) = 4 * n"
      using Suc.prems by (simp add: cycle_speed_def)
    then have "S (500 + Suc n) = S (500 + n) + 4 * n"
      using step [of "500 + n"] by simp
    then show ?case using Suc by (simp add: algebra_simps)
  qed
  show cruise: "S (2000 + n) = 4497000 + 6000 * n" if "n \<le> 2000" for n
    using that
  proof (induction n)
    case 0
    then show ?case using accel [of 1500] by simp
  next
    case (Suc n)
    have "cycle_speed (2000 + n) = 6000"
      using Suc.prems by (simp add: cycle_speed_def)
    then have "S (2000 + Suc n) = S (2000 + n) + 6000"
      using step [of "2000 + n"] by simp
    then show ?case using Suc by simp
  qed
  show decel: "S (4000 + n) + 2 * n * n = 16497000 + 6002 * n" if "n \<le> 1500" for n
    using that
  proof (induction n)
    case 0
    then show ?case using cruise [of 2000] by simp
  next
    case (Suc n)
    have "cycle_speed (4000 + n) = 6000 - 4 * n"
      using Suc.prems by (simp add: cycle_speed_def)
    then have "S (4000 + Suc n) + 4 * n = S (4000 + n) + 6000"
      using Suc.prems step [of "4000 + n"] by simp
    then show ?case using Suc by (simp add: algebra_simps)
  qed
  show "S (5500 + n) = 21000000" if "n \<le> 500" for n
    using that
  proof (induction n)
    case 0
    then show ?case using decel [of 1500] by simp
  next
    case (Suc n)
    have "cycle_speed (5500 + n) = 0"
      by (simp add: cycle_speed_def)
    then have "S (5500 + Suc n) = S (5500 + n)"
      using step [of "5500 + n"] by simp
    then show ?case using Suc by simp
  qed
qed

lemma sum_rotate:
  fixes t n :: nat
  shows "0 < n \<Longrightarrow> (\<Sum>i<n. f ((t + i) mod n)) = (\<Sum>i<n. f i :: nat)"
proof (induction t)
  case (Suc t)
  have "(\<Sum>i<n. f ((Suc t + i) mod n)) + f (t mod n) = (\<Sum>i<Suc n. f ((t + i) mod n))"
    unfolding sum.lessThan_Suc_shift by simp
  also have "\<dots> = (\<Sum>i<n. f ((t + i) mod n)) + f (t mod n)"
    by simp
  finally show ?case
    using Suc by simp
qed simp

text \<open>A full 60 s drive cycle of 6000 ticks returns to the tick it started from and adds exactly
  21,000,000 distance units, that is 5 tenths of a kilometre and a remainder of 3,000,000 of the
  3,600,000 units of the next tenth, as long as the odometer does not reach its 24-bit limit.\<close>

theorem drive_cycle_distance:
  assumes "wf_firmware fw" and "total_distance fw + 21000000 < 0xFFFFFF * 3600000"
  shows "total_distance ((drive_step ^^ 6000) fw) = total_distance fw + 21000000 \<and>
     ecu_drive_cycle_tick ((drive_step ^^ 6000) fw) = ecu_drive_cycle_tick fw"
proof
  have sum: "(\<Sum>i<6000. cycle_speed ((unat (ecu_drive_cycle_tick fw) + i) mod 6000)) = 21000000"
    using cycle_prefix(5) [of 500] sum_rotate [of 6000 cycle_speed] by simp
  show "total_distance ((drive_step ^^ 6000) fw) = total_distance fw + 21000000"
    using drive_steps_distance [OF assms(1), of 6000] assms(2) sum by simp
  show "ecu_drive_cycle_tick ((drive_step ^^ 6000) fw) = ecu_drive_cycle_tick fw"
    using drive_steps_tick [OF assms(1), of 6000] assms(1)
    by (simp add: word_unat_eq_iff wf_firmware_def)
qed

lemma drive_cycle_distance_witness:
  "total_distance ((drive_step ^^ 6000) (ECU_InitSchedule 0 reset_firmware)) =
     1234567 * 3600000 + 21000000"
proof -
  have t: "total_distance (ECU_InitSchedule 0 reset_firmware) = 1234567 * 3600000"
    by (simp add: total_distance_def ECU_InitSchedule_def reset_firmware_def
        initial_ecu_vehicle_def ECU_INITIAL_ODOMETER_TENTH_KM_def)
  have "total_distance (ECU_InitSchedule 0 reset_firmware) + 21000000 < 0xFFFFFF * 3600000"
    unfolding t by simp
  from drive_cycle_distance [OF reset_wf this] show ?thesis
    unfolding t by blast
qed

subsection \<open>Schedules keep their phase\<close>

lemma word_mod_as_sub:
  fixes e p :: "'a::len word"
  shows "e - e div p * p = e mod p"
  by (metis add_diff_cancel_left' div_mult_mod_eq)

text \<open>Releasing a periodic message keeps the phase of its schedule across missed periods and
  the wrap of the 32-bit tick: when less than a period has passed nothing happens, and otherwise
  the release time moves by a whole number of periods to within one period of \<open>now\<close>.\<close>

theorem release_keeps_phase:
  fixes now :: u32
  assumes "i < length (ecu_messages fw)"
  shows "let m = ecu_messages fw ! i; fw' = snd (ECU_ProcessMessage send i now fw);
             m' = ecu_messages fw' ! i; elapsed = now - last_release_ms m in
     if elapsed < period_ms m then fw' = fw
     else last_release_ms m' = last_release_ms m + elapsed div period_ms m * period_ms m \<and>
          now - last_release_ms m' = elapsed mod period_ms m"
proof -
  have keep: "last_release_ms (ecu_messages (snd (ECU_TransmitMessage send i g)) ! i) =
      last_release_ms (ecu_messages g ! i)" if "i < length (ecu_messages g)" for g
    using that by (simp add: ECU_TransmitMessage_def Let_def)
  have diff: "now - (l + (now - l) div p * p) = (now - l) mod p" for l p :: u32
    using word_mod_as_sub [of "now - l" p] by (simp add: algebra_simps)
  show ?thesis
    using assms by (simp add: Let_def ECU_ProcessMessage_def keep diff)
qed

lemma release_keeps_phase_witness:
  "last_release_ms (ecu_messages (snd (ECU_ProcessMessage (\<lambda>_ _. HAL_OK) 0 37
     (ECU_InitSchedule 0 reset_firmware))) ! 0) = 30"
proof -
  have i: "0 < length (ecu_messages (ECU_InitSchedule 0 reset_firmware))"
    by code_simp
  have m: "last_release_ms (ecu_messages (ECU_InitSchedule 0 reset_firmware) ! 0) = 0"
    "period_ms (ecu_messages (ECU_InitSchedule 0 reset_firmware) ! 0) = 10"
    by code_simp+
  show ?thesis
    using release_keeps_phase [OF i, of "\<lambda>_ _. HAL_OK" 37] by (simp add: Let_def m)
qed

subsection \<open>The 100-slot superframe\<close>

lemma unat_next_slot:
  assumes "unat (x :: u8) < 100"
  shows "unat (if ucast (x + 1) \<ge> (100 :: u32) then 0 else x + 1) = (unat x + 1) mod 100"
proof -
  have "unat (x + 1) = unat x + 1"
    using assms by (simp add: unat_word_ariths)
  then show ?thesis
    using assms by (auto simp: word_le_nat_alt unat_ucast_mod mod_Suc)
qed

lemma unat_skipped_slot:
  assumes "unat (x :: u8) < 100" "1 < (k :: u32)"
  shows "unat (ucast ((ucast x + (k - 1) mod 100) mod 100) :: u8) = (unat x + (unat k - 1)) mod 100"
proof -
  have k1: "unat (k - 1) = unat k - 1"
    using assms(2) by (subst unat_sub) (simp_all add: word_less_nat_alt word_le_nat_alt)
  have "(unat k - 1) mod 100 < 100"
    by simp
  then have "unat x + (unat k - 1) mod 100 < 200"
    using assms(1) by linarith
  then have "unat (ucast x + (k - 1) mod 100) = unat x + (unat k - 1) mod 100"
    using assms(1) k1 by (simp add: unat_word_ariths unat_ucast_mod unat_mod)
  then show ?thesis
    by (simp add: unat_ucast_mod unat_mod mod_add_right_eq)
qed

definition slot_after_skip :: "traffic_profile \<Rightarrow> u32 \<Rightarrow> firmware \<Rightarrow> u8" where
  "slot_after_skip profile now fw =
     (let slots = (now - ecu_stress_last_release_ms fw) div ECU_STRESS_SLOT_PERIOD_MS profile in
      if slots > 1 then ucast ((ucast (ecu_stress_slot fw) + (slots - 1) mod 100) mod 100)
      else ecu_stress_slot fw)"

lemma slot_after_pass:
  assumes "\<not> now - ecu_stress_last_release_ms fw < ECU_STRESS_SLOT_PERIOD_MS profile"
  shows "ecu_stress_slot (snd (ECU_ProcessStressSlot profile send now fw)) =
     (let x = slot_after_skip profile now fw in if ucast (x + 1) \<ge> (100 :: u32) then 0 else x + 1)"
  using assms by (simp add: ECU_ProcessStressSlot_def ECU_STRESS_SUPERFRAME_SLOTS_def Let_def
      case_prod_beta ECU_TransmitMessage_def slot_after_skip_def)

lemma transmit_frame [frame_simps]:
  "ecu_stress_slot (snd (ECU_TransmitMessage send i fw)) = ecu_stress_slot fw"
  "ecu_stress_last_release_ms (snd (ECU_TransmitMessage send i fw)) = ecu_stress_last_release_ms fw"
  "ecu_stress_missed_slot_count (snd (ECU_TransmitMessage send i fw)) = ecu_stress_missed_slot_count fw"
  by (simp_all add: ECU_TransmitMessage_def Let_def)

lemma stress_slot_step:
  assumes "wf_firmware fw"
  shows "let P = ECU_STRESS_SLOT_PERIOD_MS profile; elapsed = now - ecu_stress_last_release_ms fw;
             fw' = snd (ECU_ProcessStressSlot profile send now fw) in
     if elapsed < P then fw' = fw
     else unat (ecu_stress_slot fw') = (unat (ecu_stress_slot fw) + unat (elapsed div P)) mod 100 \<and>
          ecu_stress_missed_slot_count fw' = ecu_stress_missed_slot_count fw + (elapsed div P - 1) \<and>
          now - ecu_stress_last_release_ms fw' = elapsed mod P"
proof -
  let ?P = "ECU_STRESS_SLOT_PERIOD_MS profile"
  let ?e = "now - ecu_stress_last_release_ms fw"
  let ?k = "?e div ?P"
  let ?fw' = "snd (ECU_ProcessStressSlot profile send now fw)"
  have slot: "unat (ecu_stress_slot fw) < 100"
    using assms by (simp add: wf_firmware_def)
  have diff: "now - (l + (now - l) div p * p) = (now - l) mod p" for l p :: u32
    using word_mod_as_sub [of "now - l" p] by (simp add: algebra_simps)
  show ?thesis
  proof (cases "?e < ?P")
    case True
    then show ?thesis
      by (simp add: ECU_ProcessStressSlot_def Let_def)
  next
    case False
    have "0 < unat ?P"
      by (simp add: ECU_STRESS_SLOT_PERIOD_MS_def)
    then have k: "1 \<le> unat ?k"
      using False by (simp add: unat_div word_le_nat_alt not_less Suc_leI div_greater_zero_iff)
    have skipped: "unat (slot_after_skip profile now fw) =
        (unat (ecu_stress_slot fw) + (unat ?k - 1)) mod 100"
    proof (cases "1 < ?k")
      case True
      then show ?thesis
        using unat_skipped_slot [OF slot True] by (simp add: slot_after_skip_def)
    next
      case False
      then have "unat ?k = 1"
        using k by (simp add: word_less_nat_alt del: unat_div)
      then show ?thesis
        using False slot by (simp add: slot_after_skip_def del: unat_div)
    qed
    then have less: "unat (slot_after_skip profile now fw) < 100"
      by simp
    have "unat (ecu_stress_slot ?fw') = (unat (slot_after_skip profile now fw) + 1) mod 100"
      unfolding slot_after_pass [OF False] Let_def by (rule unat_next_slot [OF less])
    then have "unat (ecu_stress_slot ?fw') = (unat (ecu_stress_slot fw) + unat ?k) mod 100"
      using k unfolding skipped by (simp add: mod_Suc_eq del: unat_div)
    moreover have "?k = 1" if "\<not> 1 < ?k"
      using that k by (simp add: word_less_nat_alt word_unat_eq_iff del: unat_div)
    then have "ecu_stress_missed_slot_count ?fw' = ecu_stress_missed_slot_count fw + (?k - 1)"
      using False
      by (auto simp: ECU_ProcessStressSlot_def Let_def case_prod_beta frame_simps)
    moreover have "now - ecu_stress_last_release_ms ?fw' = ?e mod ?P"
      using False
      by (simp add: ECU_ProcessStressSlot_def Let_def case_prod_beta frame_simps diff)
    ultimately show ?thesis
      using False by (simp add: Let_def)
  qed
qed

text \<open>A stress pass that comes late advances the superframe slot by as many slots as have
  elapsed, modulo 100, counts all but the current one as missed, and leaves the release time less
  than one slot period behind \<open>now\<close>; a pass that comes early changes nothing.\<close>

theorem stress_slot_tracks_clock:
  assumes "wf_firmware fw"
  shows "let P = ECU_STRESS_SLOT_PERIOD_MS profile; elapsed = now - ecu_stress_last_release_ms fw;
             fw' = snd (ECU_ProcessStressSlot profile send now fw) in
     if elapsed < P then fw' = fw
     else unat (ecu_stress_slot fw') = (unat (ecu_stress_slot fw) + unat (elapsed div P)) mod 100 \<and>
          ecu_stress_missed_slot_count fw' = ecu_stress_missed_slot_count fw + (elapsed div P - 1) \<and>
          now - ecu_stress_last_release_ms fw' = elapsed mod P"
  by (rule stress_slot_step [OF assms])

lemma stress_slot_tracks_clock_witness:
  "unat (ecu_stress_slot (snd (ECU_ProcessStressSlot PROFILE_500 (\<lambda>_ _. HAL_OK) 7
     (ECU_InitSchedule 0 reset_firmware)))) = 3"
  using stress_slot_tracks_clock [OF reset_wf, of PROFILE_500 7 0 "\<lambda>_ _. HAL_OK"]
  by (simp add: Let_def ECU_InitSchedule_def reset_firmware_def ECU_STRESS_SLOT_PERIOD_MS_def)

text \<open>Stress passes that each come exactly one slot after the previous one, every send succeeding.\<close>

fun on_time_passes :: "traffic_profile \<Rightarrow> nat \<Rightarrow> firmware \<Rightarrow> firmware" where
  "on_time_passes profile 0 fw = fw"
| "on_time_passes profile (Suc n) fw =
     (let g = on_time_passes profile n fw in
      main_loop_pass profile (ecu_stress_last_release_ms g + ECU_STRESS_SLOT_PERIOD_MS profile)
        (\<lambda>_ _. HAL_OK) g)"

definition slot_id :: "nat \<Rightarrow> u16" where
  "slot_id n = (if n = 99 then ECU_BODY_STATUS_ID else if (n + 1) mod 10 = 0 then ECU_POWER_STATUS_ID
     else ECU_VEHICLE_DYNAMICS_ID)"

lemma stress_index_id:
  assumes "wf_messages ms" "unat slot < 100"
  shows "std_id (ms ! unat (ECU_StressMessageIndex slot)) = slot_id (unat slot)"
proof -
  obtain a b c where ms: "ms = [a, b, c]" "std_id a = ECU_VEHICLE_DYNAMICS_ID"
    "std_id b = ECU_POWER_STATUS_ID" "std_id c = ECU_BODY_STATUS_ID"
    using assms(1) by (rule wf_messages_cases)
  have last: "(ucast slot :: u32) = 99 \<longleftrightarrow> unat slot = 99"
    using assms(2) by (simp add: word_unat_eq_iff unat_ucast_mod)
  have tenth: "(ucast slot + 1 :: u32) mod 10 = 0 \<longleftrightarrow> (unat slot + 1) mod 10 = 0"
    using assms(2) by (simp add: word_unat_eq_iff unat_mod unat_word_ariths unat_ucast_mod)
  show ?thesis
    by (simp add: ECU_StressMessageIndex_def ECU_STRESS_SUPERFRAME_SLOTS_def last tenth slot_id_def ms)
qed

lemma vehicle_frame [frame_simps]:
  "tx_log (ECU_UpdateVehicleState fw) = tx_log fw"
  "tx_log (ECU_AdvanceVehicleState fw) = tx_log fw"
  "ecu_stress_slot (ECU_UpdateVehicleState fw) = ecu_stress_slot fw"
  "ecu_stress_slot (ECU_AdvanceVehicleState fw) = ecu_stress_slot fw"
  by (simp_all add: ECU_UpdateVehicleState_def ECU_AdvanceVehicleState_def Let_def
      advance_cycle_tick_def advance_temperature_def advance_distance_def)

lemma state_clock_log: "tx_log (ECU_ProcessStressStateClock now fw) = tx_log fw"
  "ecu_stress_slot (ECU_ProcessStressStateClock now fw) = ecu_stress_slot fw"
proof -
  let ?f = "\<lambda>s. ECU_UpdateVehicleState (ECU_AdvanceVehicleState s)"
  have "tx_log ((?f ^^ n) g) = tx_log g \<and> ecu_stress_slot ((?f ^^ n) g) = ecu_stress_slot g" for n g
    by (induction n) (simp_all add: frame_simps)
  then show "tx_log (ECU_ProcessStressStateClock now fw) = tx_log fw"
    "ecu_stress_slot (ECU_ProcessStressStateClock now fw) = ecu_stress_slot fw"
    by (simp_all add: ECU_ProcessStressStateClock_def Let_def)
qed

lemma on_time_pass:
  assumes "wf_firmware fw" "profile \<noteq> PROFILE_111"
  defines "fw' \<equiv> main_loop_pass profile
      (ecu_stress_last_release_ms fw + ECU_STRESS_SLOT_PERIOD_MS profile) (\<lambda>_ _. HAL_OK) fw"
  shows "map fst (tx_log fw') = map fst (tx_log fw) @ [slot_id (unat (ecu_stress_slot fw))]"
    and "unat (ecu_stress_slot fw') = (unat (ecu_stress_slot fw) + 1) mod 100"
proof -
  let ?P = "ECU_STRESS_SLOT_PERIOD_MS profile"
  let ?u = "ECU_UpdateVehicleState fw"
  let ?now = "ecu_stress_last_release_ms fw + ?P"
  have u: "wf_firmware ?u" "ecu_stress_last_release_ms ?u = ecu_stress_last_release_ms fw"
    "ecu_stress_slot ?u = ecu_stress_slot fw" "tx_log ?u = tx_log fw"
    "ecu_messages ?u = ecu_messages fw"
    using update_wf [OF assms(1)] by (simp_all add: ECU_UpdateVehicleState_def Let_def)
  have one: "?P div ?P = 1"
    by (simp add: ECU_STRESS_SLOT_PERIOD_MS_def)
  have slot: "unat (ecu_stress_slot fw) < 100"
    using assms(1) by (simp add: wf_firmware_def)
  have id: "std_id (ecu_messages fw ! unat (ECU_StressMessageIndex (ecu_stress_slot fw))) =
      slot_id (unat (ecu_stress_slot fw))"
    by (rule stress_index_id [OF wf_firmware_messages [OF assms(1)] slot])
  have fw': "tx_log fw' = tx_log (snd (ECU_ProcessStressSlot profile (\<lambda>_ _. HAL_OK) ?now ?u))"
    "ecu_stress_slot fw' = ecu_stress_slot (snd (ECU_ProcessStressSlot profile (\<lambda>_ _. HAL_OK) ?now ?u))"
    using assms(2) by (simp_all add: fw'_def main_loop_pass_def Let_def case_prod_beta state_clock_log)
  show "map fst (tx_log fw') = map fst (tx_log fw) @ [slot_id (unat (ecu_stress_slot fw))]"
    unfolding fw' by (simp add: ECU_ProcessStressSlot_def Let_def case_prod_beta u one
        ECU_TransmitMessage_def id)
  show "unat (ecu_stress_slot fw') = (unat (ecu_stress_slot fw) + 1) mod 100"
    using stress_slot_step [OF u(1), of profile ?now "\<lambda>_ _. HAL_OK"] unfolding fw'
    by (simp add: Let_def u one)
qed

lemma on_time_passes_wf: "wf_firmware fw \<Longrightarrow> wf_firmware (on_time_passes profile n fw)"
  by (induction n) (simp_all add: Let_def main_loop_pass_wf)

lemma on_time_trace:
  assumes "wf_firmware fw" "profile \<noteq> PROFILE_111"
  shows "map fst (tx_log (on_time_passes profile n fw)) =
       map fst (tx_log fw) @ map (\<lambda>k. slot_id ((unat (ecu_stress_slot fw) + k) mod 100)) [0..<n] \<and>
     unat (ecu_stress_slot (on_time_passes profile n fw)) = (unat (ecu_stress_slot fw) + n) mod 100"
proof (induction n)
  case 0
  then show ?case using assms(1) by (simp add: wf_firmware_def)
next
  case (Suc n)
  then show ?case
    using on_time_pass [OF on_time_passes_wf [OF assms(1)] assms(2), of profile n]
    by (simp add: Let_def mod_Suc_eq)
qed

lemma count_list_upt: "count_list (map f [0..<n]) x = (\<Sum>i<n. if f i = x then 1 else 0)"
  by (induction n) auto

text \<open>Whatever slot the superframe is at, 100 on-time stress passes put exactly 90 frames of
  0x100, 9 of 0x101 and one of 0x102 on the bus, and return to the same slot.\<close>

theorem superframe_mix:
  assumes "wf_firmware fw" "profile \<noteq> PROFILE_111" "tx_log fw = []"
  defines "ids \<equiv> map fst (tx_log (on_time_passes profile 100 fw))"
  shows "count_list ids 0x100 = 90 \<and> count_list ids 0x101 = 9 \<and> count_list ids 0x102 = 1 \<and>
     ecu_stress_slot (on_time_passes profile 100 fw) = ecu_stress_slot fw"
proof -
  let ?s = "unat (ecu_stress_slot fw)"
  have "count_list ids x = (\<Sum>i<100. if slot_id i = x then 1 else 0)" for x
    using on_time_trace [OF assms(1,2), of 100] assms(3)
      sum_rotate [of 100 "\<lambda>i. if slot_id i = x then 1 else 0" ?s]
    by (simp add: ids_def count_list_upt)
  moreover have "(\<Sum>i<100. if slot_id i = 0x100 then 1 else 0) = (90::nat)"
    "(\<Sum>i<100. if slot_id i = 0x101 then 1 else 0) = (9::nat)"
    "(\<Sum>i<100. if slot_id i = 0x102 then 1 else 0) = (1::nat)"
    by code_simp+
  moreover have "ecu_stress_slot (on_time_passes profile 100 fw) = ecu_stress_slot fw"
    using on_time_trace [OF assms(1,2), of 100] assms(1)
    by (simp add: word_unat_eq_iff wf_firmware_def)
  ultimately show ?thesis
    by simp
qed

lemma superframe_mix_witness:
  "count_list (map fst (tx_log (on_time_passes PROFILE_1000 100
     (ECU_InitSchedule 0 reset_firmware)))) 0x101 = 9"
  using superframe_mix [OF reset_wf, of PROFILE_1000 0]
  by (simp add: ECU_InitSchedule_def reset_firmware_def)

subsection \<open>The blocking send returns\<close>

lemma wait_tx_timeout:
  "(pending, tick) \<in> set polls \<Longrightarrow> tick - t0 \<ge> CAN_TX_TIMEOUT_MS \<Longrightarrow> wait_tx_complete t0 polls \<noteq> None"
  by (induction t0 polls rule: wait_tx_complete.induct) auto

text \<open>C35: The blocking send always returns once a poll reads a tick at least 100 ms after it began
  waiting, even across the wrap of the tick, and it reports success only for an in-range frame
  that was queued while the controller was listening, left its mailbox, and whose
  transmission-OK flag is set.\<close>

theorem send_returns_and_is_honest:
  "((\<exists>(pending, tick)\<in>set (hal_polls hal). tick - hal_tick_start hal \<ge> CAN_TX_TIMEOUT_MS) \<longrightarrow>
      snd (CAN_SendMessage hal sid d len) \<noteq> None) \<and>
   (snd (CAN_SendMessage hal sid d len) = Some HAL_OK \<longrightarrow>
      sid \<le> 0x7FF \<and> len \<le> 8 \<and> hal_listening hal \<and> hal_add_status hal = HAL_OK \<and>
      False \<in> fst ` set (hal_polls hal) \<and> hal_flag_set hal (CAN_GetTxOkFlag (hal_mailbox hal)))"
proof -
  have left_mailbox: "wait_tx_complete t0 polls = Some True \<Longrightarrow> False \<in> fst ` set polls" for t0 polls
    by (induction t0 polls rule: wait_tx_complete.induct) (auto split: if_splits)
  show ?thesis
    using wait_tx_timeout [of _ _ "hal_polls hal" "hal_tick_start hal"]
      left_mailbox [of "hal_tick_start hal" "hal_polls hal"]
    by (auto simp: CAN_SendMessage_def Let_def not_less split: option.splits if_splits bool.splits)
qed

lemma send_returns_and_is_honest_witness:
  "snd (CAN_SendMessage \<lparr>hal_listening = True, hal_add_status = HAL_OK, hal_mailbox = 1,
     hal_tick_start = 0xFFFFFFF0, hal_polls = [(True, 0xFFFFFFFF), (True, 0x60)],
     hal_flag_set = (\<lambda>_. False)\<rparr> 0x100 (Some [1, 2]) 2) \<noteq> None"
  using send_returns_and_is_honest [of "\<lparr>hal_listening = True, hal_add_status = HAL_OK,
     hal_mailbox = 1, hal_tick_start = 0xFFFFFFF0, hal_polls = [(True, 0xFFFFFFFF), (True, 0x60)],
     hal_flag_set = (\<lambda>_. False)\<rparr>" "0x100" "Some [1, 2]" 2]
  by (simp add: CAN_TX_TIMEOUT_MS_def)

text \<open>Cruising at 60 km/h in gear 4 means 2400 rpm (in quarters) and 16 % throttle (in tenths).\<close>

lemma cruise_differs_from_protocol:
  "ECU_CalculateEngineSpeed (ucast ECU_CRUISE_SPEED_CENTI_KPH) 4 = 4 * 2400" "ECU_THROTTLE_CRUISE_TENTH = 10 * 16"
  by code_simp+

end
