(* ===== verification/Gw_Stats.thy ===== *)
theory Gw_Stats
  imports Gw_Prelude
begin

text \<open>
  The shared counters of \<open>gateway/src/stats.c\<close>. Every access happens inside the mutex, so an
  access is one atomic function on the snapshot; the mutex itself is not part of the state. The
  counter array is indexed by the enumeration, which makes the range check of
  \<open>gateway_stats_add\<close> true by typing; counters are 64-bit words and wrap.
\<close>

datatype gateway_stat_counter =
    GATEWAY_STAT_QUEUE_PUSH_ATTEMPTS
  | GATEWAY_STAT_QUEUE_PUSH_SUCCESS
  | GATEWAY_STAT_QUEUE_PUSH_TIMEOUTS
  | GATEWAY_STAT_QUEUE_PUSH_CLOSED
  | GATEWAY_STAT_QUEUE_POP_SUCCESS
  | GATEWAY_STAT_QUEUE_POP_CLOSED
  | GATEWAY_STAT_CAN_RECEIVE_ATTEMPTS
  | GATEWAY_STAT_CAN_RECEIVE_SUCCESS
  | GATEWAY_STAT_CAN_RECEIVE_TIMEOUTS
  | GATEWAY_STAT_CAN_REJECTED_LENGTH
  | GATEWAY_STAT_CAN_REJECTED_DLC
  | GATEWAY_STAT_CAN_REJECTED_ID
  | GATEWAY_STAT_CAN_TIMESTAMP_ERRORS
  | GATEWAY_STAT_CAN_RECEIVE_ERRORS
  | GATEWAY_STAT_CAN_DECODE_SUCCESS
  | GATEWAY_STAT_CAN_DECODE_ERRORS
  | GATEWAY_STAT_MQTT_CONNECT_ATTEMPTS
  | GATEWAY_STAT_MQTT_CONNECT_SUCCESS
  | GATEWAY_STAT_MQTT_PUBLISH_ATTEMPTS
  | GATEWAY_STAT_MQTT_PUBLISH_ACCEPTED
  | GATEWAY_STAT_MQTT_PUBACK_MATCHED
  | GATEWAY_STAT_MQTT_PUBACK_UNEXPECTED
  | GATEWAY_STAT_MQTT_RECORDS_ACKED
  | GATEWAY_STAT_MQTT_ERRORS
  | GATEWAY_STAT_MQTT_RECONNECTS
  | GATEWAY_STAT_SPOOL_RECORDS_APPENDED
  | GATEWAY_STAT_SPOOL_RECORDS_REPLAYED
  | GATEWAY_STAT_SPOOL_RECORDS_ACKED
  | GATEWAY_STAT_SPOOL_TAIL_RECOVERIES
  | GATEWAY_STAT_SPOOL_STATE_RECOVERIES
  | GATEWAY_STAT_SPOOL_CORRUPTIONS
  | GATEWAY_STAT_SPOOL_ERRORS

fun stat_index :: "gateway_stat_counter \<Rightarrow> nat" where
  "stat_index GATEWAY_STAT_QUEUE_PUSH_ATTEMPTS = 0"
| "stat_index GATEWAY_STAT_QUEUE_PUSH_SUCCESS = 1"
| "stat_index GATEWAY_STAT_QUEUE_PUSH_TIMEOUTS = 2"
| "stat_index GATEWAY_STAT_QUEUE_PUSH_CLOSED = 3"
| "stat_index GATEWAY_STAT_QUEUE_POP_SUCCESS = 4"
| "stat_index GATEWAY_STAT_QUEUE_POP_CLOSED = 5"
| "stat_index GATEWAY_STAT_CAN_RECEIVE_ATTEMPTS = 6"
| "stat_index GATEWAY_STAT_CAN_RECEIVE_SUCCESS = 7"
| "stat_index GATEWAY_STAT_CAN_RECEIVE_TIMEOUTS = 8"
| "stat_index GATEWAY_STAT_CAN_REJECTED_LENGTH = 9"
| "stat_index GATEWAY_STAT_CAN_REJECTED_DLC = 10"
| "stat_index GATEWAY_STAT_CAN_REJECTED_ID = 11"
| "stat_index GATEWAY_STAT_CAN_TIMESTAMP_ERRORS = 12"
| "stat_index GATEWAY_STAT_CAN_RECEIVE_ERRORS = 13"
| "stat_index GATEWAY_STAT_CAN_DECODE_SUCCESS = 14"
| "stat_index GATEWAY_STAT_CAN_DECODE_ERRORS = 15"
| "stat_index GATEWAY_STAT_MQTT_CONNECT_ATTEMPTS = 16"
| "stat_index GATEWAY_STAT_MQTT_CONNECT_SUCCESS = 17"
| "stat_index GATEWAY_STAT_MQTT_PUBLISH_ATTEMPTS = 18"
| "stat_index GATEWAY_STAT_MQTT_PUBLISH_ACCEPTED = 19"
| "stat_index GATEWAY_STAT_MQTT_PUBACK_MATCHED = 20"
| "stat_index GATEWAY_STAT_MQTT_PUBACK_UNEXPECTED = 21"
| "stat_index GATEWAY_STAT_MQTT_RECORDS_ACKED = 22"
| "stat_index GATEWAY_STAT_MQTT_ERRORS = 23"
| "stat_index GATEWAY_STAT_MQTT_RECONNECTS = 24"
| "stat_index GATEWAY_STAT_SPOOL_RECORDS_APPENDED = 25"
| "stat_index GATEWAY_STAT_SPOOL_RECORDS_REPLAYED = 26"
| "stat_index GATEWAY_STAT_SPOOL_RECORDS_ACKED = 27"
| "stat_index GATEWAY_STAT_SPOOL_TAIL_RECOVERIES = 28"
| "stat_index GATEWAY_STAT_SPOOL_STATE_RECOVERIES = 29"
| "stat_index GATEWAY_STAT_SPOOL_CORRUPTIONS = 30"
| "stat_index GATEWAY_STAT_SPOOL_ERRORS = 31"

lemma stat_index_inject: "stat_index a = stat_index b \<Longrightarrow> a = b"
  by (cases a; cases b) simp_all

text \<open>The order of the enumeration, which is the order of the array.\<close>

instantiation gateway_stat_counter :: linorder
begin

definition "a \<le> b \<longleftrightarrow> stat_index a \<le> stat_index b"
definition "a < b \<longleftrightarrow> stat_index a < stat_index b"

instance
  by standard (auto simp: less_eq_gateway_stat_counter_def less_gateway_stat_counter_def
      dest: stat_index_inject)

end

definition GATEWAY_STAT_COUNT :: nat where
  "GATEWAY_STAT_COUNT = 32"

lemma stat_index_bound: "stat_index c < GATEWAY_STAT_COUNT"
  by (cases c) (simp_all add: GATEWAY_STAT_COUNT_def)

record gateway_stats =
  counters :: "gateway_stat_counter \<Rightarrow> u64"
  queue_high_watermark :: nat

definition zero_stats :: gateway_stats where
  "zero_stats = \<lparr>counters = (\<lambda>_. 0), queue_high_watermark = 0\<rparr>"

text \<open>\<open>mutex_ok\<close> is what \<open>pthread_mutex_init\<close> returns; \<open>None\<close> is a \<open>NULL\<close> pointer.\<close>

definition gateway_stats_init ::
    "bool \<Rightarrow> gateway_stats option \<Rightarrow> gateway_error_code \<times> gateway_stats option" where
  "gateway_stats_init mutex_ok stats =
     (case stats of
        None \<Rightarrow> (GATEWAY_ERROR_ARGUMENT, None)
      | Some s \<Rightarrow> if \<not> mutex_ok then (GATEWAY_ERROR_SYSTEM, Some s)
                  else (GATEWAY_OK, Some zero_stats))"

definition gateway_stats_add :: "gateway_stat_counter \<Rightarrow> u64 \<Rightarrow> gateway_stats \<Rightarrow> gateway_stats" where
  "gateway_stats_add c value s = s\<lparr>counters := (counters s)(c := counters s c + value)\<rparr>"

definition gateway_stats_increment :: "gateway_stat_counter \<Rightarrow> gateway_stats \<Rightarrow> gateway_stats" where
  "gateway_stats_increment c s = gateway_stats_add c 1 s"

definition gateway_stats_update_queue_high_watermark :: "nat \<Rightarrow> gateway_stats \<Rightarrow> gateway_stats" where
  "gateway_stats_update_queue_high_watermark n s =
     (if n > queue_high_watermark s then s\<lparr>queue_high_watermark := n\<rparr> else s)"

definition gateway_stats_read :: "gateway_stats \<Rightarrow> gateway_stats" where
  "gateway_stats_read s = s"

lemma counters_add [simp]:
  "counters (gateway_stats_add c v s) = (counters s)(c := counters s c + v)"
  "queue_high_watermark (gateway_stats_add c v s) = queue_high_watermark s"
  by (simp_all add: gateway_stats_add_def)

lemma counters_increment [simp]:
  "counters (gateway_stats_increment c s) = (counters s)(c := counters s c + 1)"
  "queue_high_watermark (gateway_stats_increment c s) = queue_high_watermark s"
  by (simp_all add: gateway_stats_increment_def)

lemma counters_watermark [simp]:
  "counters (gateway_stats_update_queue_high_watermark n s) = counters s"
  "queue_high_watermark (gateway_stats_update_queue_high_watermark n s) =
     max n (queue_high_watermark s)"
  by (simp_all add: gateway_stats_update_queue_high_watermark_def max_def)

end
