(* ===== verification/Ring_Buffer.thy ===== *)
theory Ring_Buffer
  imports Gw_Stats Telemetry
begin

text \<open>
  The bounded queue between the CAN producer and the consumer (\<open>gateway/src/ring_buffer.c\<close>).
  The mutex makes each pass through a critical section atomic, so an operation is a function on
  the pair of the ring and the shared counters. A condition wait releases the mutex: it is a list
  of wake-ups, each with the status that \<open>pthread_cond_timedwait\<close> returned and the shared state
  found when the mutex was taken again. A call whose list is exhausted is still blocked (\<open>None\<close>).
\<close>

subsection \<open>State\<close>

datatype clock_id = CLOCK_REALTIME | CLOCK_MONOTONIC

record gateway_ring_buffer =
  rb_records :: "telemetry_record list"
  rb_capacity :: nat
  rb_head :: nat
  rb_tail :: nat
  rb_count :: nat
  rb_closed :: bool
  rb_condition_clock :: clock_id

type_synonym shared = "gateway_ring_buffer \<times> gateway_stats"

definition deadline_after :: "timespec \<Rightarrow> u32 \<Rightarrow> timespec" where
  "deadline_after now timeout_ms =
     (let d = \<lparr>tv_sec = tv_sec now + uint (timeout_ms div 1000),
              tv_nsec = tv_nsec now + uint (timeout_ms mod 1000) * 1000000\<rparr> in
      if tv_nsec d \<ge> 1000000000
      then \<lparr>tv_sec = tv_sec d + 1, tv_nsec = tv_nsec d - 1000000000\<rparr> else d)"

lemma deadline_normalised:
  assumes "0 \<le> tv_nsec now" "tv_nsec now < 1000000000"
  shows "let d = deadline_after now timeout_ms in 0 \<le> tv_nsec d \<and> tv_nsec d < 1000000000 \<and>
     tv_sec d * 1000000000 + tv_nsec d =
       tv_sec now * 1000000000 + tv_nsec now + uint timeout_ms * 1000000"
proof -
  have "uint (timeout_ms div 1000) * 1000 + uint (timeout_ms mod 1000) = uint timeout_ms"
    by (simp add: uint_div uint_mod)
  moreover have "uint (timeout_ms mod 1000) < 1000" "0 \<le> uint (timeout_ms mod 1000)"
    by (simp_all add: uint_mod)
  ultimately show ?thesis
    using assms by (simp add: deadline_after_def Let_def)
qed

text \<open>What the library calls of \<open>gateway_ring_buffer_create\<close> return, in order.\<close>

record create_env =
  calloc_queue_ok :: bool
  calloc_records_ok :: bool
  mutex_init_ok :: bool
  condattr_init_ok :: bool
  setclock_ok :: bool
  cond_not_empty_ok :: bool
  cond_not_full_ok :: bool

definition gateway_ring_buffer_create ::
    "create_env \<Rightarrow> bool \<Rightarrow> nat \<Rightarrow> bool \<Rightarrow> gateway_error_code \<times> gateway_ring_buffer option" where
  "gateway_ring_buffer_create env queue_given capacity stats_given =
     (if \<not> queue_given \<or> capacity = 0 \<or> \<not> stats_given then (GATEWAY_ERROR_ARGUMENT, None)
      else if \<not> calloc_queue_ok env then (GATEWAY_ERROR_SYSTEM, None)
      else if \<not> calloc_records_ok env then (GATEWAY_ERROR_SYSTEM, None)
      else if \<not> mutex_init_ok env then (GATEWAY_ERROR_SYSTEM, None)
      else if \<not> condattr_init_ok env then (GATEWAY_ERROR_SYSTEM, None)
      else if \<not> cond_not_empty_ok env then (GATEWAY_ERROR_SYSTEM, None)
      else if \<not> cond_not_full_ok env then (GATEWAY_ERROR_SYSTEM, None)
      else (GATEWAY_OK, Some \<lparr>rb_records = replicate capacity zero_record,
        rb_capacity = capacity, rb_head = 0, rb_tail = 0, rb_count = 0, rb_closed = False,
        rb_condition_clock = (if setclock_ok env then CLOCK_MONOTONIC else CLOCK_REALTIME)\<rparr>))"

subsection \<open>Operations\<close>

datatype wait_status = WAIT_OK | WAIT_ETIMEDOUT | WAIT_ERROR

type_synonym wakeup = "wait_status \<times> shared"

text \<open>The waiting loop of \<open>gateway_ring_buffer_push\<close>; it yields \<open>result\<close> and the state at its exit.\<close>

fun push_wait :: "u32 \<Rightarrow> wakeup list \<Rightarrow> shared \<Rightarrow> (gateway_error_code \<times> shared) option" where
  "push_wait timeout_ms wakeups (q, st) =
     (if rb_count q = rb_capacity q \<and> \<not> rb_closed q then
        if timeout_ms = 0 then Some (GATEWAY_ERROR_TIMEOUT, (q, st))
        else (case wakeups of
            [] \<Rightarrow> None
          | (WAIT_ETIMEDOUT, s') # _ \<Rightarrow> Some (GATEWAY_ERROR_TIMEOUT, s')
          | (WAIT_ERROR, s') # _ \<Rightarrow> Some (GATEWAY_ERROR_SYSTEM, s')
          | (WAIT_OK, s') # rest \<Rightarrow> push_wait timeout_ms rest s')
      else Some (GATEWAY_OK, (q, st)))"

definition ring_put :: "telemetry_record \<Rightarrow> gateway_ring_buffer \<Rightarrow> gateway_ring_buffer" where
  "ring_put r q = q\<lparr>rb_records := (rb_records q)[rb_tail q := r],
     rb_tail := (rb_tail q + 1) mod rb_capacity q, rb_count := rb_count q + 1\<rparr>"

definition ring_get :: "gateway_ring_buffer \<Rightarrow> telemetry_record \<times> gateway_ring_buffer" where
  "ring_get q = (rb_records q ! rb_head q,
     q\<lparr>rb_head := (rb_head q + 1) mod rb_capacity q, rb_count := rb_count q - 1\<rparr>)"

text \<open>From the end of the waiting loop to the unlock.\<close>

definition push_finish ::
    "telemetry_record \<Rightarrow> gateway_error_code \<Rightarrow> shared \<Rightarrow> gateway_error_code \<times> shared" where
  "push_finish r result0 s =
     (case s of (q, st) \<Rightarrow>
      let result = (if result0 = GATEWAY_OK \<and> rb_closed q then GATEWAY_ERROR_CLOSED else result0) in
      if result = GATEWAY_OK then
        let q' = ring_put r q in
        (result, (q', gateway_stats_update_queue_high_watermark (rb_count q')
                        (gateway_stats_increment GATEWAY_STAT_QUEUE_PUSH_SUCCESS st)))
      else if result = GATEWAY_ERROR_TIMEOUT then
        (result, (q, gateway_stats_increment GATEWAY_STAT_QUEUE_PUSH_TIMEOUTS st))
      else if result = GATEWAY_ERROR_CLOSED then
        (result, (q, gateway_stats_increment GATEWAY_STAT_QUEUE_PUSH_CLOSED st))
      else (result, (q, st)))"

text \<open>\<open>locked\<close> is the state found when \<open>pthread_mutex_lock\<close> succeeds, or \<open>None\<close> when it fails; the
  attempt has been counted before, in the state \<open>s\<close> of the call.\<close>

definition push_attempt :: "shared \<Rightarrow> shared" where
  "push_attempt s = (fst s, gateway_stats_increment GATEWAY_STAT_QUEUE_PUSH_ATTEMPTS (snd s))"

definition gateway_ring_buffer_push ::
    "(shared \<Rightarrow> shared option) \<Rightarrow> telemetry_record option \<Rightarrow> u32 \<Rightarrow> wakeup list \<Rightarrow> shared option \<Rightarrow>
     (gateway_error_code \<times> shared option) option" where
  "gateway_ring_buffer_push lock rec_arg timeout_ms wakeups queue =
     (case (queue, rec_arg) of
        (Some s, Some r) \<Rightarrow>
          (case lock (push_attempt s) of
             None \<Rightarrow> Some (GATEWAY_ERROR_SYSTEM, Some (push_attempt s))
           | Some locked \<Rightarrow>
             (case push_wait timeout_ms wakeups locked of
                None \<Rightarrow> None
              | Some (result, s') \<Rightarrow>
                  (case push_finish r result s' of (code, s'') \<Rightarrow> Some (code, Some s''))))
      | _ \<Rightarrow> Some (GATEWAY_ERROR_ARGUMENT, queue))"

fun pop_wait :: "wakeup list \<Rightarrow> shared \<Rightarrow> (gateway_error_code \<times> shared) option" where
  "pop_wait wakeups (q, st) =
     (if rb_count q = 0 \<and> \<not> rb_closed q then
        (case wakeups of
            [] \<Rightarrow> None
          | (WAIT_OK, s') # rest \<Rightarrow> pop_wait rest s'
          | (_, s') # _ \<Rightarrow> Some (GATEWAY_ERROR_SYSTEM, s'))
      else Some (GATEWAY_OK, (q, st)))"

fun pop_timed_wait :: "u32 \<Rightarrow> wakeup list \<Rightarrow> shared \<Rightarrow> (gateway_error_code \<times> shared) option" where
  "pop_timed_wait timeout_ms wakeups (q, st) =
     (if rb_count q = 0 \<and> \<not> rb_closed q then
        if timeout_ms = 0 then Some (GATEWAY_ERROR_TIMEOUT, (q, st))
        else (case wakeups of
            [] \<Rightarrow> None
          | (WAIT_ETIMEDOUT, s') # _ \<Rightarrow> Some (GATEWAY_ERROR_TIMEOUT, s')
          | (WAIT_ERROR, s') # _ \<Rightarrow> Some (GATEWAY_ERROR_SYSTEM, s')
          | (WAIT_OK, s') # rest \<Rightarrow> pop_timed_wait timeout_ms rest s')
      else Some (GATEWAY_OK, (q, st)))"

definition pop_finish ::
    "gateway_error_code \<Rightarrow> shared \<Rightarrow> gateway_error_code \<times> telemetry_record option \<times> shared" where
  "pop_finish result0 s =
     (case s of (q, st) \<Rightarrow>
      let result = (if result0 = GATEWAY_OK \<and> rb_count q = 0 \<and> rb_closed q
                    then GATEWAY_ERROR_CLOSED else result0) in
      if result = GATEWAY_OK then
        let (r, q') = ring_get q in
        (result, Some r, (q', gateway_stats_increment GATEWAY_STAT_QUEUE_POP_SUCCESS st))
      else if result = GATEWAY_ERROR_CLOSED then
        (result, None, (q, gateway_stats_increment GATEWAY_STAT_QUEUE_POP_CLOSED st))
      else (result, None, (q, st)))"

definition gateway_ring_buffer_pop ::
    "(shared \<Rightarrow> shared option) \<Rightarrow> bool \<Rightarrow> wakeup list \<Rightarrow> shared option \<Rightarrow>
     (gateway_error_code \<times> telemetry_record option \<times> shared option) option" where
  "gateway_ring_buffer_pop lock rec_given wakeups queue =
     (case queue of
        None \<Rightarrow> Some (GATEWAY_ERROR_ARGUMENT, None, None)
      | Some s \<Rightarrow>
        if \<not> rec_given then Some (GATEWAY_ERROR_ARGUMENT, None, Some s)
        else (case lock s of
            None \<Rightarrow> Some (GATEWAY_ERROR_SYSTEM, None, Some s)
          | Some locked \<Rightarrow>
            (case pop_wait wakeups locked of
               None \<Rightarrow> None
             | Some (result, s') \<Rightarrow>
                 (case pop_finish result s' of (code, r, s'') \<Rightarrow> Some (code, r, Some s'')))))"

definition gateway_ring_buffer_pop_timed ::
    "(shared \<Rightarrow> shared option) \<Rightarrow> bool \<Rightarrow> u32 \<Rightarrow> wakeup list \<Rightarrow> shared option \<Rightarrow>
     (gateway_error_code \<times> telemetry_record option \<times> shared option) option" where
  "gateway_ring_buffer_pop_timed lock rec_given timeout_ms wakeups queue =
     (case queue of
        None \<Rightarrow> Some (GATEWAY_ERROR_ARGUMENT, None, None)
      | Some s \<Rightarrow>
        if \<not> rec_given then Some (GATEWAY_ERROR_ARGUMENT, None, Some s)
        else (case lock s of
            None \<Rightarrow> Some (GATEWAY_ERROR_SYSTEM, None, Some s)
          | Some locked \<Rightarrow>
            (case pop_timed_wait timeout_ms wakeups locked of
               None \<Rightarrow> None
             | Some (result, s') \<Rightarrow>
                 (case pop_finish result s' of (code, r, s'') \<Rightarrow> Some (code, r, Some s'')))))"

definition ring_close :: "gateway_ring_buffer \<Rightarrow> gateway_ring_buffer" where
  "ring_close q = q\<lparr>rb_closed := True\<rparr>"

definition gateway_ring_buffer_close ::
    "bool \<Rightarrow> gateway_ring_buffer option \<Rightarrow> gateway_error_code \<times> gateway_ring_buffer option" where
  "gateway_ring_buffer_close lock_ok queue =
     (case queue of
        None \<Rightarrow> (GATEWAY_ERROR_ARGUMENT, None)
      | Some q \<Rightarrow> if \<not> lock_ok then (GATEWAY_ERROR_SYSTEM, Some q)
                  else (GATEWAY_OK, Some (ring_close q)))"

record gateway_ring_buffer_snapshot =
  snap_capacity :: nat
  snap_count :: nat
  snap_closed :: bool

definition gateway_ring_buffer_read ::
    "gateway_ring_buffer \<Rightarrow> gateway_ring_buffer_snapshot" where
  "gateway_ring_buffer_read q =
     \<lparr>snap_capacity = rb_capacity q, snap_count = rb_count q, snap_closed = rb_closed q\<rparr>"

subsection \<open>The contract of a bounded queue\<close>

text \<open>What the pipeline relies on: a queue of at most \<open>limit\<close> items, first in first out.\<close>

locale bounded_fifo =
  fixes inv :: "'q \<Rightarrow> bool"
    and items :: "'q \<Rightarrow> 'a list"
    and limit :: "'q \<Rightarrow> nat"
    and enq :: "'a \<Rightarrow> 'q \<Rightarrow> 'q"
    and deq :: "'q \<Rightarrow> 'a \<times> 'q"
  assumes bounded: "inv q \<Longrightarrow> length (items q) \<le> limit q"
    and enq_inv: "inv q \<Longrightarrow> length (items q) < limit q \<Longrightarrow> inv (enq x q)"
    and enq_items: "inv q \<Longrightarrow> length (items q) < limit q \<Longrightarrow> items (enq x q) = items q @ [x]"
    and deq_inv: "inv q \<Longrightarrow> items q \<noteq> [] \<Longrightarrow> inv (snd (deq q))"
    and deq_items: "inv q \<Longrightarrow> items q \<noteq> [] \<Longrightarrow> items q = fst (deq q) # items (snd (deq q))"
begin

text \<open>The ledger of everything ever put in and taken out, in order.\<close>

definition ledger :: "'a list \<Rightarrow> 'a list \<Rightarrow> 'q \<Rightarrow> bool" where
  "ledger pushed popped q \<longleftrightarrow> inv q \<and> pushed = popped @ items q"

lemma ledger_enq:
  "ledger pushed popped q \<Longrightarrow> length (items q) < limit q \<Longrightarrow> ledger (pushed @ [x]) popped (enq x q)"
  by (simp add: ledger_def enq_inv enq_items)

lemma ledger_deq:
  "ledger pushed popped q \<Longrightarrow> items q \<noteq> [] \<Longrightarrow>
     ledger pushed (popped @ [fst (deq q)]) (snd (deq q))"
  using deq_items [of q] by (simp add: ledger_def deq_inv)

lemma ledger_prefix: "ledger pushed popped q \<Longrightarrow> take (length popped) pushed = popped"
  by (simp add: ledger_def)

lemma ledger_length: "ledger pushed popped q \<Longrightarrow> length pushed - length popped \<le> limit q"
  using bounded by (simp add: ledger_def)

end

subsection \<open>The ring implements it\<close>

definition ring_inv :: "gateway_ring_buffer \<Rightarrow> bool" where
  "ring_inv q \<longleftrightarrow> 0 < rb_capacity q \<and> length (rb_records q) = rb_capacity q \<and>
     rb_head q < rb_capacity q \<and> rb_count q \<le> rb_capacity q \<and>
     rb_tail q = (rb_head q + rb_count q) mod rb_capacity q"

definition ring_items :: "gateway_ring_buffer \<Rightarrow> telemetry_record list" where
  "ring_items q =
     map (\<lambda>i. rb_records q ! ((rb_head q + i) mod rb_capacity q)) [0..<rb_count q]"

lemma length_ring_items [simp]: "length (ring_items q) = rb_count q"
  by (simp add: ring_items_def)

lemma ring_slot_distinct:
  fixes h i n c :: nat
  assumes "i < n" "n < c"
  shows "(h + n) mod c \<noteq> (h + i) mod c"
proof
  assume "(h + n) mod c = (h + i) mod c"
  then have "c dvd (h + n) - (h + i)"
    using assms(1) by (intro mod_eq_dvd_iff_nat [THEN iffD1]) simp_all
  then have "c dvd n - i"
    by simp
  then show False
    using assms dvd_imp_le [of c "n - i"] by simp
qed

lemma ring_put_items:
  assumes "ring_inv q" "rb_count q < rb_capacity q"
  shows "ring_inv (ring_put r q) \<and> ring_items (ring_put r q) = ring_items q @ [r]"
proof
  show "ring_inv (ring_put r q)"
    using assms by (simp add: ring_inv_def ring_put_def mod_Suc_eq)
  have old: "(rb_records q)[rb_tail q := r] ! ((rb_head q + i) mod rb_capacity q) =
      rb_records q ! ((rb_head q + i) mod rb_capacity q)" if "i < rb_count q" for i
    using that assms ring_slot_distinct [of i "rb_count q" "rb_capacity q" "rb_head q"]
    by (simp add: ring_inv_def)
  have new: "(rb_records q)[rb_tail q := r] ! ((rb_head q + rb_count q) mod rb_capacity q) = r"
    using assms by (simp add: ring_inv_def)
  show "ring_items (ring_put r q) = ring_items q @ [r]"
    using old new by (simp add: ring_items_def ring_put_def)
qed

lemma ring_get_items:
  assumes "ring_inv q" "ring_items q \<noteq> []"
  shows "ring_inv (snd (ring_get q)) \<and>
     ring_items q = fst (ring_get q) # ring_items (snd (ring_get q))"
proof
  have n: "0 < rb_count q"
    using assms(2) by (metis length_greater_0_conv length_ring_items)
  then obtain k where k: "rb_count q = Suc k"
    using gr0_implies_Suc by blast
  then show "ring_inv (snd (ring_get q))"
    using assms(1) by (simp add: ring_inv_def ring_get_def mod_Suc_eq mod_add_left_eq)
  have "ring_items q = rb_records q ! ((rb_head q + 0) mod rb_capacity q) #
      map (\<lambda>i. rb_records q ! ((rb_head q + Suc i) mod rb_capacity q)) [0..<k]"
    unfolding ring_items_def k upt_conv_Cons [OF zero_less_Suc] map_Suc_upt [symmetric]
    by (simp add: comp_def)
  then show "ring_items q = fst (ring_get q) # ring_items (snd (ring_get q))"
    using assms(1) k by (simp add: ring_items_def ring_get_def ring_inv_def mod_add_left_eq)
qed

interpretation rq: bounded_fifo ring_inv ring_items rb_capacity ring_put ring_get
proof
  show "ring_inv q \<Longrightarrow> length (ring_items q) \<le> rb_capacity q" for q
    by (simp add: ring_inv_def)
qed (use ring_put_items ring_get_items in auto)

subsection \<open>All interleavings\<close>

text \<open>The threads only meet in the critical sections, so a history of the queue is a sequence of
  completed sections, whichever threads run them. \<open>pushed\<close> and \<open>popped\<close> record what the calls
  that returned \<open>GATEWAY_OK\<close> put in and took out.\<close>

record ring_world =
  w_ring :: gateway_ring_buffer
  w_stats :: gateway_stats
  w_pushed :: "telemetry_record list"
  w_popped :: "telemetry_record list"

datatype ring_action =
    Attempt
  | Push_section telemetry_record gateway_error_code
  | Pop_section gateway_error_code
  | Close_section

text \<open>The results with which a waiting loop can end in a given state.\<close>

fun loop_exit_push :: "gateway_error_code \<Rightarrow> gateway_ring_buffer \<Rightarrow> bool" where
  "loop_exit_push GATEWAY_OK q \<longleftrightarrow> rb_count q \<noteq> rb_capacity q \<or> rb_closed q"
| "loop_exit_push code q \<longleftrightarrow> code = GATEWAY_ERROR_TIMEOUT \<or> code = GATEWAY_ERROR_SYSTEM"

fun loop_exit_pop :: "gateway_error_code \<Rightarrow> gateway_ring_buffer \<Rightarrow> bool" where
  "loop_exit_pop GATEWAY_OK q \<longleftrightarrow> rb_count q \<noteq> 0 \<or> rb_closed q"
| "loop_exit_pop code q \<longleftrightarrow> code = GATEWAY_ERROR_TIMEOUT \<or> code = GATEWAY_ERROR_SYSTEM"

inductive ring_step :: "ring_world \<Rightarrow> ring_action \<Rightarrow> ring_world \<Rightarrow> bool" where
  attempt: "ring_step w Attempt
     (w\<lparr>w_stats := gateway_stats_increment GATEWAY_STAT_QUEUE_PUSH_ATTEMPTS (w_stats w)\<rparr>)"
| push: "loop_exit_push c (w_ring w) \<Longrightarrow> push_finish r c (w_ring w, w_stats w) = (code, (q, st)) \<Longrightarrow>
     ring_step w (Push_section r c) (w\<lparr>w_ring := q, w_stats := st,
       w_pushed := w_pushed w @ (if code = GATEWAY_OK then [r] else [])\<rparr>)"
| pop: "loop_exit_pop c (w_ring w) \<Longrightarrow> pop_finish c (w_ring w, w_stats w) = (code, out, (q, st)) \<Longrightarrow>
     ring_step w (Pop_section c) (w\<lparr>w_ring := q, w_stats := st,
       w_popped := w_popped w @ (case out of Some r \<Rightarrow> [r] | None \<Rightarrow> [])\<rparr>)"
| close: "ring_step w Close_section (w\<lparr>w_ring := ring_close (w_ring w)\<rparr>)"

inductive_cases ring_stepE: "ring_step w a w'"

inductive ring_reach :: "gateway_ring_buffer \<Rightarrow> ring_world \<Rightarrow> bool" for q0 where
  start: "ring_reach q0 \<lparr>w_ring = q0, w_stats = zero_stats, w_pushed = [], w_popped = []\<rparr>"
| step: "ring_reach q0 w \<Longrightarrow> ring_step w a w' \<Longrightarrow> ring_reach q0 w'"

declare push_wait.simps [simp del] pop_wait.simps [simp del] pop_timed_wait.simps [simp del]

text \<open>The waiting loops end only in those states, so each completed call is such a step.\<close>

lemma push_wait_exit:
  "push_wait t wakeups s = Some (c, s') \<Longrightarrow>
     loop_exit_push c (fst s') \<and> (s' = s \<or> s' \<in> snd ` set wakeups)"
proof (induction wakeups arbitrary: s)
  case Nil
  then show ?case
    by (cases s) (auto simp: push_wait.simps [of t "[]"] split: if_splits)
next
  case (Cons x wakeups)
  then show ?case
    by (cases s) (auto simp: push_wait.simps [of t "_ # _"] split: if_splits prod.splits wait_status.splits)
qed

lemma pop_wait_exit:
  "pop_wait wakeups s = Some (c, s') \<Longrightarrow>
     loop_exit_pop c (fst s') \<and> (s' = s \<or> s' \<in> snd ` set wakeups)"
proof (induction wakeups arbitrary: s)
  case Nil
  then show ?case
    by (cases s) (auto simp: pop_wait.simps [of "[]"] split: if_splits)
next
  case (Cons x wakeups)
  then show ?case
    by (cases s) (auto simp: pop_wait.simps [of "_ # _"] split: if_splits prod.splits wait_status.splits)
qed

lemma pop_timed_wait_exit:
  "pop_timed_wait t wakeups s = Some (c, s') \<Longrightarrow>
     loop_exit_pop c (fst s') \<and> (s' = s \<or> s' \<in> snd ` set wakeups)"
proof (induction wakeups arbitrary: s)
  case Nil
  then show ?case
    by (cases s) (auto simp: pop_timed_wait.simps [of t "[]"] split: if_splits)
next
  case (Cons x wakeups)
  then show ?case
    by (cases s) (auto simp: pop_timed_wait.simps [of t "_ # _"] split: if_splits prod.splits wait_status.splits)
qed

definition ring_world_ok :: "gateway_ring_buffer \<Rightarrow> ring_world \<Rightarrow> bool" where
  "ring_world_ok q0 w \<longleftrightarrow> rq.ledger (w_pushed w) (w_popped w) (w_ring w) \<and>
     rb_capacity (w_ring w) = rb_capacity q0 \<and>
     counters (w_stats w) GATEWAY_STAT_QUEUE_PUSH_SUCCESS = of_nat (length (w_pushed w)) \<and>
     counters (w_stats w) GATEWAY_STAT_QUEUE_POP_SUCCESS = of_nat (length (w_popped w)) \<and>
     rb_count (w_ring w) \<le> queue_high_watermark (w_stats w) \<and>
     queue_high_watermark (w_stats w) \<le> rb_capacity q0"

lemma push_step_ok:
  assumes "ring_world_ok q0 w" "loop_exit_push c (w_ring w)"
    "push_finish r c (w_ring w, w_stats w) = (code, (q, st))"
  shows "ring_world_ok q0 (w\<lparr>w_ring := q, w_stats := st,
     w_pushed := w_pushed w @ (if code = GATEWAY_OK then [r] else [])\<rparr>)"
proof (cases "code = GATEWAY_OK")
  case True
  then have c: "c = GATEWAY_OK" "\<not> rb_closed (w_ring w)" "q = ring_put r (w_ring w)"
    "st = gateway_stats_update_queue_high_watermark (rb_count q)
       (gateway_stats_increment GATEWAY_STAT_QUEUE_PUSH_SUCCESS (w_stats w))"
    using assms(3) by (auto simp: push_finish_def Let_def split: if_splits)
  have "ring_inv (w_ring w)"
    using assms(1) by (simp add: ring_world_ok_def rq.ledger_def)
  then have room: "length (ring_items (w_ring w)) < rb_capacity (w_ring w)"
    using assms(2) c by (auto simp: ring_inv_def)
  have kept: "rb_capacity q = rb_capacity (w_ring w)" "rb_count q = rb_count (w_ring w) + 1"
    by (simp_all add: c(3) ring_put_def)
  show ?thesis
    using assms(1) True room rq.ledger_enq [OF _ room, of "w_pushed w" "w_popped w" r]
    unfolding ring_world_ok_def by (simp add: c kept) (simp add: c(3) ring_put_def)
next
  case False
  then have "q = w_ring w"
    "counters st GATEWAY_STAT_QUEUE_PUSH_SUCCESS = counters (w_stats w) GATEWAY_STAT_QUEUE_PUSH_SUCCESS"
    "counters st GATEWAY_STAT_QUEUE_POP_SUCCESS = counters (w_stats w) GATEWAY_STAT_QUEUE_POP_SUCCESS"
    "queue_high_watermark st = queue_high_watermark (w_stats w)"
    using assms(3) by (auto simp: push_finish_def Let_def split: if_splits)
  then show ?thesis
    using assms(1) False by (simp add: ring_world_ok_def)
qed

lemma pop_step_ok:
  assumes "ring_world_ok q0 w" "loop_exit_pop c (w_ring w)"
    "pop_finish c (w_ring w, w_stats w) = (code, out, (q, st))"
  shows "ring_world_ok q0 (w\<lparr>w_ring := q, w_stats := st,
     w_popped := w_popped w @ (case out of Some r \<Rightarrow> [r] | None \<Rightarrow> [])\<rparr>)"
proof (cases "code = GATEWAY_OK")
  case True
  then have c: "c = GATEWAY_OK" "\<not> (rb_count (w_ring w) = 0 \<and> rb_closed (w_ring w))"
    "q = snd (ring_get (w_ring w))" "out = Some (fst (ring_get (w_ring w)))"
    "st = gateway_stats_increment GATEWAY_STAT_QUEUE_POP_SUCCESS (w_stats w)"
    using assms(3) by (auto simp: pop_finish_def Let_def split: if_splits prod.splits)
  then have "rb_count (w_ring w) \<noteq> 0"
    using assms(2) by auto
  then have ne: "ring_items (w_ring w) \<noteq> []"
    by (metis length_ring_items list.size(3))
  have kept: "rb_capacity q = rb_capacity (w_ring w)" "rb_count q = rb_count (w_ring w) - 1"
    by (simp_all add: c(3) ring_get_def)
  show ?thesis
    using assms(1) rq.ledger_deq [OF _ ne, of "w_pushed w" "w_popped w"]
    unfolding ring_world_ok_def by (simp add: c kept) (simp add: ring_get_def le_diff_conv)
next
  case False
  then have "q = w_ring w" "out = None"
    "counters st GATEWAY_STAT_QUEUE_PUSH_SUCCESS = counters (w_stats w) GATEWAY_STAT_QUEUE_PUSH_SUCCESS"
    "counters st GATEWAY_STAT_QUEUE_POP_SUCCESS = counters (w_stats w) GATEWAY_STAT_QUEUE_POP_SUCCESS"
    "queue_high_watermark st = queue_high_watermark (w_stats w)"
    using assms(3) by (auto simp: pop_finish_def Let_def split: if_splits prod.splits)
  then show ?thesis
    using assms(1) by (simp add: ring_world_ok_def)
qed

lemma ring_step_ok: "ring_step w a w' \<Longrightarrow> ring_world_ok q0 w \<Longrightarrow> ring_world_ok q0 w'"
proof (induction rule: ring_step.induct)
  case (attempt w)
  then show ?case by (simp add: ring_world_ok_def)
next
  case (close w)
  then show ?case
    by (simp add: ring_world_ok_def rq.ledger_def ring_close_def ring_inv_def ring_items_def)
qed (blast intro: push_step_ok pop_step_ok)+

lemma created_ring:
  assumes "gateway_ring_buffer_create env True capacity True = (GATEWAY_OK, Some q)"
  shows "ring_inv q \<and> rb_capacity q = capacity \<and> rb_count q = 0 \<and> \<not> rb_closed q"
  using assms by (auto simp: gateway_ring_buffer_create_def ring_inv_def split: if_splits)

lemma ring_reach_ok:
  assumes "ring_inv q0" "rb_count q0 = 0" "ring_reach q0 w"
  shows "ring_world_ok q0 w"
  using assms(3)
proof (induction rule: ring_reach.induct)
  case start
  then show ?case
    using assms(1,2) by (simp add: ring_world_ok_def rq.ledger_def zero_stats_def ring_items_def)
qed (rule ring_step_ok)

text \<open>C11: Under every interleaving of pushes, pops and closes by any number of threads, the records
  taken out of a freshly created queue are exactly the records put in, in the same order, minus
  those still queued: nothing is lost, duplicated or reordered. The queue never holds more than
  its capacity, the high watermark stays between the current count and the capacity, and the
  success counters differ by the current count.\<close>

theorem ring_fifo_conservation:
  assumes "gateway_ring_buffer_create env True capacity True = (GATEWAY_OK, Some q0)"
    and "ring_reach q0 w"
  shows "w_pushed w = w_popped w @ ring_items (w_ring w) \<and>
     rb_count (w_ring w) \<le> capacity \<and>
     rb_count (w_ring w) \<le> queue_high_watermark (w_stats w) \<and>
     queue_high_watermark (w_stats w) \<le> capacity \<and>
     counters (w_stats w) GATEWAY_STAT_QUEUE_PUSH_SUCCESS =
       counters (w_stats w) GATEWAY_STAT_QUEUE_POP_SUCCESS + of_nat (rb_count (w_ring w))"
  using ring_reach_ok [OF _ _ assms(2)] created_ring [OF assms(1)]
  by (auto simp: ring_world_ok_def rq.ledger_def)

definition all_ok_env :: create_env where
  "all_ok_env = \<lparr>calloc_queue_ok = True, calloc_records_ok = True, mutex_init_ok = True,
     condattr_init_ok = True, setclock_ok = True, cond_not_empty_ok = True, cond_not_full_ok = True\<rparr>"

lemma ring_fifo_conservation_witness:
  "\<exists>w :: ring_world. w_pushed w = [zero_record] \<and>
     counters (w_stats w) GATEWAY_STAT_QUEUE_PUSH_SUCCESS =
       counters (w_stats w) GATEWAY_STAT_QUEUE_POP_SUCCESS + of_nat (rb_count (w_ring w))"
proof -
  let ?q = "the (snd (gateway_ring_buffer_create all_ok_env True 2 True))"
  let ?w0 = "\<lparr>w_ring = ?q, w_stats = zero_stats, w_pushed = [], w_popped = []\<rparr>"
  obtain code q st where f: "push_finish zero_record GATEWAY_OK (?q, zero_stats) = (code, (q, st))"
    by (metis surj_pair)
  have code: "code = GATEWAY_OK"
    using f by (simp add: push_finish_def gateway_ring_buffer_create_def all_ok_env_def Let_def)
  have exit: "loop_exit_push GATEWAY_OK (w_ring ?w0)"
    by (simp add: gateway_ring_buffer_create_def all_ok_env_def)
  have "ring_step ?w0 (Push_section zero_record GATEWAY_OK) (?w0\<lparr>w_ring := q, w_stats := st,
      w_pushed := w_pushed ?w0 @ (if code = GATEWAY_OK then [zero_record] else [])\<rparr>)"
    by (rule ring_step.push [OF exit]) (simp add: f)
  then have r: "ring_reach ?q (?w0\<lparr>w_ring := q, w_stats := st,
      w_pushed := w_pushed ?w0 @ (if code = GATEWAY_OK then [zero_record] else [])\<rparr>)"
    by (rule ring_reach.step [OF ring_reach.start])
  have c: "gateway_ring_buffer_create all_ok_env True 2 True = (GATEWAY_OK, Some ?q)"
    by (simp add: gateway_ring_buffer_create_def all_ok_env_def)
  let ?w1 = "?w0\<lparr>w_ring := q, w_stats := st,
      w_pushed := w_pushed ?w0 @ (if code = GATEWAY_OK then [zero_record] else [])\<rparr>"
  have "w_pushed ?w1 = [zero_record]"
    by (simp add: code)
  then show ?thesis
    using ring_fifo_conservation [OF c r] by blast
qed

text \<open>C33: A push that returns ends in a critical section of the interleaving model, entered in the
  state found at the lock or at one of its wake-ups; it is never blocked for ever by a zero
  timeout, by a closed queue or by a queue with room, and a zero timeout on a full open queue
  drops the new record: the queue is unchanged and the timeout is counted.\<close>

theorem push_call_refines_step:
  assumes "lock (push_attempt s) = Some l"
  shows "(case gateway_ring_buffer_push lock (Some r) t wakeups (Some s) of
        None \<Rightarrow> t \<noteq> 0 \<and> rb_count (fst l) = rb_capacity (fst l) \<and> \<not> rb_closed (fst l)
      | Some (code, s'') \<Rightarrow> \<exists>s' c. (s' = l \<or> s' \<in> snd ` set wakeups) \<and>
          loop_exit_push c (fst s') \<and> s'' = Some (snd (push_finish r c s')) \<and>
          code = fst (push_finish r c s')) \<and>
     (t = 0 \<and> rb_count (fst l) = rb_capacity (fst l) \<and> \<not> rb_closed (fst l) \<longrightarrow>
        gateway_ring_buffer_push lock (Some r) t wakeups (Some s) = Some (GATEWAY_ERROR_TIMEOUT,
          Some (fst l, gateway_stats_increment GATEWAY_STAT_QUEUE_PUSH_TIMEOUTS (snd l))))"
proof -
  obtain q st where l: "l = (q, st)"
    by (cases l)
  show ?thesis
  proof (cases "push_wait t wakeups l")
    case None
    then show ?thesis
      using assms l push_wait.simps [of t wakeups q st]
      by (auto simp: gateway_ring_buffer_push_def split: if_splits)
  next
    case (Some e)
    obtain c s' where e: "e = (c, s')"
      by (cases e)
    have w: "push_wait t wakeups l = Some (c, s')"
      using Some e by simp
    have call: "gateway_ring_buffer_push lock (Some r) t wakeups (Some s) =
        Some (fst (push_finish r c s'), Some (snd (push_finish r c s')))"
      using assms w by (simp add: gateway_ring_buffer_push_def case_prod_beta)
    have full: "c = GATEWAY_ERROR_TIMEOUT \<and> s' = l"
      if "t = 0 \<and> rb_count (fst l) = rb_capacity (fst l) \<and> \<not> rb_closed (fst l)"
      using that w l push_wait.simps [of t wakeups q st] by auto
    have step: "\<exists>s1 c1. (s1 = l \<or> s1 \<in> snd ` set wakeups) \<and> loop_exit_push c1 (fst s1) \<and>
        Some (snd (push_finish r c s')) = Some (snd (push_finish r c1 s1)) \<and>
        fst (push_finish r c s') = fst (push_finish r c1 s1)"
      using push_wait_exit [OF w] by blast
    have drop: "push_finish r GATEWAY_ERROR_TIMEOUT l = (GATEWAY_ERROR_TIMEOUT,
        (fst l, gateway_stats_increment GATEWAY_STAT_QUEUE_PUSH_TIMEOUTS (snd l)))"
      by (simp add: push_finish_def case_prod_beta)
    show ?thesis
      unfolding call option.case prod.case
    proof (intro conjI impI)
      show "\<exists>s1 c1. (s1 = l \<or> s1 \<in> snd ` set wakeups) \<and> loop_exit_push c1 (fst s1) \<and>
          Some (snd (push_finish r c s')) = Some (snd (push_finish r c1 s1)) \<and>
          fst (push_finish r c s') = fst (push_finish r c1 s1)"
        by (rule step)
    next
      assume "t = 0 \<and> rb_count (fst l) = rb_capacity (fst l) \<and> \<not> rb_closed (fst l)"
      then show "Some (fst (push_finish r c s'), Some (snd (push_finish r c s'))) =
          Some (GATEWAY_ERROR_TIMEOUT,
            Some (fst l, gateway_stats_increment GATEWAY_STAT_QUEUE_PUSH_TIMEOUTS (snd l)))"
        using full drop by simp
    qed
  qed
qed

lemma push_call_refines_step_witness:
  "\<exists>q. rb_count q = 1 \<and> gateway_ring_buffer_push Some (Some zero_record) 0 [] (Some (q, zero_stats)) =
     Some (GATEWAY_ERROR_TIMEOUT, Some (q, gateway_stats_increment GATEWAY_STAT_QUEUE_PUSH_TIMEOUTS
       (gateway_stats_increment GATEWAY_STAT_QUEUE_PUSH_ATTEMPTS zero_stats)))"
proof -
  let ?q = "ring_put zero_record (the (snd (gateway_ring_buffer_create all_ok_env True 1 True)))"
  have q: "rb_count ?q = 1" "rb_capacity ?q = 1" "\<not> rb_closed ?q"
    by (simp_all add: ring_put_def gateway_ring_buffer_create_def all_ok_env_def)
  show ?thesis
    using push_call_refines_step [where lock = Some and s = "(?q, zero_stats)" and t = 0 and
        l = "push_attempt (?q, zero_stats)" and r = zero_record and wakeups = "[]"] q
    by (intro exI [of _ ?q]) (simp add: push_attempt_def)
qed

subsection \<open>Closing\<close>

text \<open>A consumer that pops until the queue reports \<open>CLOSED\<close>, at most \<open>n\<close> times, alone.\<close>

fun drain :: "nat \<Rightarrow> shared \<Rightarrow> telemetry_record list \<times> gateway_error_code option \<times> shared" where
  "drain 0 s = ([], None, s)"
| "drain (Suc n) s =
     (case gateway_ring_buffer_pop Some True [] (Some s) of
        Some (GATEWAY_OK, Some r, Some s') \<Rightarrow>
          (case drain n s' of (rs, res, s'') \<Rightarrow> (r # rs, res, s''))
      | Some (code, _, Some s') \<Rightarrow> ([], Some code, s')
      | _ \<Rightarrow> ([], None, s))"

lemma pop_closed_queue:
  assumes "rb_closed q"
  shows "gateway_ring_buffer_pop Some True [] (Some (q, st)) =
     (if rb_count q = 0
      then Some (GATEWAY_ERROR_CLOSED, None,
             Some (q, gateway_stats_increment GATEWAY_STAT_QUEUE_POP_CLOSED st))
      else Some (GATEWAY_OK, Some (fst (ring_get q)), Some (snd (ring_get q),
             gateway_stats_increment GATEWAY_STAT_QUEUE_POP_SUCCESS st)))"
  using assms by (simp add: gateway_ring_buffer_pop_def pop_wait.simps pop_finish_def Let_def
      case_prod_beta)

lemma drain_closed:
  assumes "ring_inv q" "rb_closed q" "rb_count q < n"
  shows "\<exists>s'. drain n (q, st) = (ring_items q, Some GATEWAY_ERROR_CLOSED, s')"
  using assms
proof (induction n arbitrary: q st)
  case (Suc n)
  show ?case
  proof (cases "rb_count q = 0")
    case True
    then have "ring_items q = []"
      by (metis length_0_conv length_ring_items)
    then show ?thesis
      using True Suc.prems by (simp add: pop_closed_queue)
  next
    case False
    then have ne: "ring_items q \<noteq> []"
      by (metis length_ring_items list.size(3))
    have "rb_closed (snd (ring_get q))" "rb_count (snd (ring_get q)) < n"
      using Suc.prems False by (simp_all add: ring_get_def less_diff_conv2)
    then obtain s' where "drain n (snd (ring_get q),
        gateway_stats_increment GATEWAY_STAT_QUEUE_POP_SUCCESS st) =
        (ring_items (snd (ring_get q)), Some GATEWAY_ERROR_CLOSED, s')"
      using Suc.IH [of "snd (ring_get q)"] ring_get_items [OF Suc.prems(1) ne] by blast
    then show ?thesis
      using False Suc.prems ring_get_items [OF Suc.prems(1) ne] by (simp add: pop_closed_queue)
  qed
qed simp

text \<open>After \<open>close\<close>, a consumer drains every record still queued, in order, without blocking, and
  is then told \<open>CLOSED\<close>; a push after \<open>close\<close> never stores a record.\<close>

theorem close_then_drain:
  assumes "ring_inv q" and "gateway_ring_buffer_close True (Some q) = (code, Some q')"
  shows "(\<exists>s'. drain (rb_count q + 1) (q', st) =
       (ring_items q, Some GATEWAY_ERROR_CLOSED, s')) \<and>
     gateway_ring_buffer_push Some (Some r) t [] (Some (q', st)) =
       Some (GATEWAY_ERROR_CLOSED, Some (q', gateway_stats_increment GATEWAY_STAT_QUEUE_PUSH_CLOSED
         (gateway_stats_increment GATEWAY_STAT_QUEUE_PUSH_ATTEMPTS st)))"
proof
  have q': "q' = ring_close q"
    using assms(2) by (simp add: gateway_ring_buffer_close_def)
  have "ring_inv q'" "ring_items q' = ring_items q" "rb_closed q'" "rb_count q' = rb_count q"
    using assms(1) by (simp_all add: q' ring_close_def ring_inv_def ring_items_def)
  then show "\<exists>s'. drain (rb_count q + 1) (q', st) = (ring_items q, Some GATEWAY_ERROR_CLOSED, s')"
    using drain_closed [of q' "rb_count q + 1"] by simp
  show "gateway_ring_buffer_push Some (Some r) t [] (Some (q', st)) =
       Some (GATEWAY_ERROR_CLOSED, Some (q', gateway_stats_increment GATEWAY_STAT_QUEUE_PUSH_CLOSED
         (gateway_stats_increment GATEWAY_STAT_QUEUE_PUSH_ATTEMPTS st)))"
    by (simp add: q' gateway_ring_buffer_push_def push_attempt_def push_wait.simps push_finish_def
        ring_close_def)
qed

lemma close_then_drain_witness:
  "\<exists>s'. drain 2 (ring_close (ring_put zero_record
     (the (snd (gateway_ring_buffer_create all_ok_env True 2 True)))), zero_stats) =
     ([zero_record], Some GATEWAY_ERROR_CLOSED, s')"
proof -
  let ?q = "ring_put zero_record (the (snd (gateway_ring_buffer_create all_ok_env True 2 True)))"
  have inv: "ring_inv ?q" "rb_count ?q = 1" "ring_items ?q = [zero_record]"
    by (simp_all add: ring_inv_def ring_put_def gateway_ring_buffer_create_def all_ok_env_def
        ring_items_def)
  have c: "gateway_ring_buffer_close True (Some ?q) = (GATEWAY_OK, Some (ring_close ?q))"
    by (simp add: gateway_ring_buffer_close_def)
  have n: "rb_count ?q + 1 = 2"
    by (simp add: inv)
  show ?thesis
    using close_then_drain [OF inv(1) c, of zero_stats zero_record 0] unfolding n inv(3) by blast
qed

end
