(* ===== verification/Can_Receiver.thy ===== *)
theory Can_Receiver
  imports Vehicle_Decoder
begin

text \<open>
  The SocketCAN source (\<open>gateway/src/can_receiver.c\<close>). The kernel is environment: the results of
  \<open>poll\<close> and \<open>recvmsg\<close> are lists of outcomes, consumed by the loops that retry on \<open>EINTR\<close>; a call
  whose list is exhausted is still waiting (\<open>None\<close>). Socket set-up takes the results of its system
  calls and reports the descriptor it stores and the ones it closes.
\<close>

subsection \<open>Types\<close>

datatype gateway_can_reject_reason =
    GATEWAY_CAN_REJECT_NONE
  | GATEWAY_CAN_REJECT_DATAGRAM_LENGTH
  | GATEWAY_CAN_REJECT_DLC
  | GATEWAY_CAN_REJECT_ID
  | GATEWAY_CAN_REJECT_CONTROL_TRUNCATED
  | GATEWAY_CAN_REJECT_TIMESTAMP_MISSING
  | GATEWAY_CAN_REJECT_TIMESTAMP_INVALID

fun gateway_can_reject_reason_name :: "gateway_can_reject_reason \<Rightarrow> string" where
  "gateway_can_reject_reason_name GATEWAY_CAN_REJECT_NONE = ''none''"
| "gateway_can_reject_reason_name GATEWAY_CAN_REJECT_DATAGRAM_LENGTH = ''datagram_length''"
| "gateway_can_reject_reason_name GATEWAY_CAN_REJECT_DLC = ''dlc''"
| "gateway_can_reject_reason_name GATEWAY_CAN_REJECT_ID = ''can_id''"
| "gateway_can_reject_reason_name GATEWAY_CAN_REJECT_CONTROL_TRUNCATED = ''control_truncated''"
| "gateway_can_reject_reason_name GATEWAY_CAN_REJECT_TIMESTAMP_MISSING = ''timestamp_missing''"
| "gateway_can_reject_reason_name GATEWAY_CAN_REJECT_TIMESTAMP_INVALID = ''timestamp_invalid''"

record gateway_can_receiver =
  fd :: int

text \<open>A control message of the datagram, its level and type already compared with \<open>SOL_SOCKET\<close> and
  \<open>SO_TIMESTAMPNS\<close>, and whether it is long enough for a \<open>timespec\<close>.\<close>

record control_message =
  level_is_socket :: bool
  type_is_timestampns :: bool
  holds_timespec :: bool
  cmsg_timestamp :: timespec

record can_datagram =
  received_size :: nat
  flag_trunc :: bool
  flag_ctrunc :: bool
  frame_can_id :: u32
  frame_dlc :: u8
  frame_data :: bytes
  control_messages :: "control_message list"

datatype poll_outcome = Poll_eintr | Poll_error | Poll_timeout | Poll_ready bool

datatype recv_outcome = Recv_eintr | Recv_error | Recv_datagram can_datagram

definition CAN_FRAME_SIZE :: nat where "CAN_FRAME_SIZE = 16"
definition INT64_MAX :: int where "INT64_MAX = 2 ^ 63 - 1"

subsection \<open>Operations\<close>

text \<open>\<open>None\<close> is a \<open>NULL\<close> destination.\<close>

definition set_reject_reason ::
    "gateway_can_reject_reason option \<Rightarrow> gateway_can_reject_reason \<Rightarrow>
     gateway_can_reject_reason option" where
  "set_reject_reason destination reason = map_option (\<lambda>_. reason) destination"

definition timestamp_to_nanoseconds :: "timespec option \<Rightarrow> gateway_error_code + int" where
  "timestamp_to_nanoseconds timestamp =
     (case timestamp of
        None \<Rightarrow> Inl GATEWAY_ERROR_INVALID_VALUE
      | Some t \<Rightarrow>
        if tv_sec t < 0 \<or> tv_nsec t < 0 \<or> tv_nsec t \<ge> 1000000000
        then Inl GATEWAY_ERROR_INVALID_VALUE
        else if tv_sec t > (INT64_MAX - tv_nsec t) div 1000000000 then Inl GATEWAY_ERROR_RANGE
        else Inr (tv_sec t * 1000000000 + tv_nsec t))"

definition gateway_can_is_target_id :: "u32 \<Rightarrow> bool" where
  "gateway_can_is_target_id cid \<longleftrightarrow> cid = GATEWAY_CAN_ID_VEHICLE_DYNAMICS \<or>
     cid = GATEWAY_CAN_ID_POWER_STATUS \<or> cid = GATEWAY_CAN_ID_BODY_STATUS"

definition gateway_can_receiver_init ::
    "gateway_can_receiver option \<Rightarrow> gateway_can_receiver option" where
  "gateway_can_receiver_init receiver = map_option (\<lambda>r. r\<lparr>fd := - 1\<rparr>) receiver"

text \<open>The filters installed on the socket, as identifier and mask.\<close>

definition can_filters :: "(u32 \<times> u32) list" where
  "can_filters = map (\<lambda>cid. (cid, 0x7FF OR 0x80000000 OR 0x40000000))
     [GATEWAY_CAN_ID_VEHICLE_DYNAMICS, GATEWAY_CAN_ID_POWER_STATUS, GATEWAY_CAN_ID_BODY_STATUS]"

text \<open>\<open>set_options\<close> stands for the two \<open>setsockopt\<close> calls: it is given the filters.\<close>

definition gateway_can_receiver_configure_socket ::
    "((u32 \<times> u32) list \<Rightarrow> bool) \<Rightarrow> bool \<Rightarrow> int \<Rightarrow> gateway_error_code" where
  "gateway_can_receiver_configure_socket set_filters set_timestamps descriptor =
     (if descriptor < 0 then GATEWAY_ERROR_ARGUMENT
      else if \<not> set_filters can_filters \<or> \<not> set_timestamps then GATEWAY_ERROR_SYSTEM
      else GATEWAY_OK)"

record open_env =
  socket_result :: int
  getfd_ok :: bool
  setfd_ok :: bool
  set_filters_ok :: "(u32 \<times> u32) list \<Rightarrow> bool"
  set_timestamps_ok :: bool
  interface_index :: nat
  bind_ok :: bool

definition set_close_on_exec :: "open_env \<Rightarrow> bool" where
  "set_close_on_exec env \<longleftrightarrow> getfd_ok env \<and> setfd_ok env"

text \<open>Result, receiver afterwards, and the descriptors closed on the way.\<close>

definition gateway_can_receiver_open ::
    "open_env \<Rightarrow> gateway_can_receiver option \<Rightarrow> string option \<Rightarrow>
     gateway_error_code \<times> gateway_can_receiver option \<times> int list" where
  "gateway_can_receiver_open env receiver interface_name =
     (case (receiver, interface_name) of
        (Some r, Some name) \<Rightarrow>
          if name = [] \<or> fd r \<ge> 0 then (GATEWAY_ERROR_ARGUMENT, receiver, [])
          else let descriptor = socket_result env in
            if descriptor < 0 then (GATEWAY_ERROR_SYSTEM, receiver, [])
            else if \<not> set_close_on_exec env \<or>
                    gateway_can_receiver_configure_socket (set_filters_ok env)
                      (set_timestamps_ok env) descriptor \<noteq> GATEWAY_OK
            then (GATEWAY_ERROR_SYSTEM, receiver, [descriptor])
            else if interface_index env = 0 then (GATEWAY_ERROR_SYSTEM, receiver, [descriptor])
            else if \<not> bind_ok env then (GATEWAY_ERROR_SYSTEM, receiver, [descriptor])
            else (GATEWAY_OK, Some (r\<lparr>fd := descriptor\<rparr>), [])
      | _ \<Rightarrow> (GATEWAY_ERROR_ARGUMENT, receiver, []))"

definition gateway_can_receiver_close ::
    "gateway_can_receiver option \<Rightarrow> gateway_can_receiver option \<times> int list" where
  "gateway_can_receiver_close receiver =
     (case receiver of
        Some r \<Rightarrow> if fd r \<ge> 0 then (Some (r\<lparr>fd := - 1\<rparr>), [fd r]) else (Some r, [])
      | None \<Rightarrow> (None, []))"

fun poll_retry :: "poll_outcome list \<Rightarrow> poll_outcome option" where
  "poll_retry [] = None"
| "poll_retry (Poll_eintr # rest) = poll_retry rest"
| "poll_retry (outcome # _) = Some outcome"

fun recv_retry :: "recv_outcome list \<Rightarrow> recv_outcome option" where
  "recv_retry [] = None"
| "recv_retry (Recv_eintr # rest) = recv_retry rest"
| "recv_retry (outcome # _) = Some outcome"

text \<open>The walk over the control messages stops at the first timestamp.\<close>

fun find_timestamp :: "control_message list \<Rightarrow> timespec option" where
  "find_timestamp [] = None"
| "find_timestamp (c # cs) =
     (if level_is_socket c \<and> type_is_timestampns c \<and> holds_timespec c
      then Some (cmsg_timestamp c) else find_timestamp cs)"

definition classify_datagram :: "can_datagram \<Rightarrow> gateway_can_reject_reason + int" where
  "classify_datagram g =
     (if received_size g \<noteq> CAN_FRAME_SIZE \<or> flag_trunc g
      then Inl GATEWAY_CAN_REJECT_DATAGRAM_LENGTH
      else if \<not> gateway_can_is_target_id (frame_can_id g) then Inl GATEWAY_CAN_REJECT_ID
      else if frame_dlc g \<noteq> of_nat GATEWAY_CAN_DATA_SIZE then Inl GATEWAY_CAN_REJECT_DLC
      else if flag_ctrunc g then Inl GATEWAY_CAN_REJECT_CONTROL_TRUNCATED
      else (case find_timestamp (control_messages g) of
          None \<Rightarrow> Inl GATEWAY_CAN_REJECT_TIMESTAMP_MISSING
        | Some t \<Rightarrow> (case timestamp_to_nanoseconds (Some t) of
            Inl _ \<Rightarrow> Inl GATEWAY_CAN_REJECT_TIMESTAMP_INVALID
          | Inr ns \<Rightarrow> Inr ns)))"

text \<open>The three results are the code, \<open>*reject_reason\<close> and \<open>*record\<close> afterwards.\<close>

definition gateway_can_receiver_receive ::
    "poll_outcome list \<Rightarrow> recv_outcome list \<Rightarrow> gateway_can_receiver option \<Rightarrow> int \<Rightarrow> u64 \<Rightarrow>
     telemetry_record option \<Rightarrow> gateway_can_reject_reason option \<Rightarrow>
     (gateway_error_code \<times> gateway_can_reject_reason option \<times> telemetry_record option) option" where
  "gateway_can_receiver_receive polls recvs receiver timeout_ms seq rec_arg reject_arg =
     (let reject0 = set_reject_reason reject_arg GATEWAY_CAN_REJECT_NONE in
      case (receiver, rec_arg) of
        (Some r, Some _) \<Rightarrow>
          if fd r < 0 \<or> timeout_ms < - 1 then Some (GATEWAY_ERROR_ARGUMENT, reject0, rec_arg)
          else (case poll_retry polls of
              None \<Rightarrow> None
            | Some Poll_timeout \<Rightarrow> Some (GATEWAY_ERROR_TIMEOUT, reject0, rec_arg)
            | Some (Poll_ready True) \<Rightarrow>
                (case recv_retry recvs of
                   None \<Rightarrow> None
                 | Some (Recv_datagram g) \<Rightarrow>
                     (case classify_datagram g of
                        Inl reason \<Rightarrow>
                          Some (GATEWAY_ERROR_INVALID_VALUE, set_reject_reason reject0 reason, rec_arg)
                      | Inr ns \<Rightarrow> Some (GATEWAY_OK, reject0, Some (zero_record\<lparr>
                          gateway_seq := seq, kernel_timestamp_ns := of_int ns,
                          can_id := frame_can_id g,
                          data := take GATEWAY_CAN_DATA_SIZE (frame_data g),
                          status_flags := GATEWAY_RECORD_STATUS_KERNEL_TIMESTAMP_VALID,
                          dlc := frame_dlc g, ecu_counter := frame_data g ! 6\<rparr>)))
                 | Some _ \<Rightarrow> Some (GATEWAY_ERROR_SYSTEM, reject0, rec_arg))
            | Some _ \<Rightarrow> Some (GATEWAY_ERROR_SYSTEM, reject0, rec_arg))
      | _ \<Rightarrow> Some (GATEWAY_ERROR_ARGUMENT, reject0, rec_arg))"

subsection \<open>Timestamps\<close>

lemma timestamp_in_range:
  assumes "timestamp_to_nanoseconds (Some t) = Inr ns"
  shows "0 \<le> ns \<and> ns \<le> INT64_MAX \<and> ns = tv_sec t * 1000000000 + tv_nsec t"
proof -
  have t: "0 \<le> tv_sec t" "0 \<le> tv_nsec t" "tv_sec t \<le> (INT64_MAX - tv_nsec t) div 1000000000"
    "ns = tv_sec t * 1000000000 + tv_nsec t"
    using assms by (auto simp: timestamp_to_nanoseconds_def split: if_splits)
  have "tv_sec t * 1000000000 \<le> (INT64_MAX - tv_nsec t) div 1000000000 * 1000000000"
    using t(3) by simp
  also have "\<dots> \<le> INT64_MAX - tv_nsec t"
    by (simp flip: minus_mod_eq_div_mult)
  finally show ?thesis
    using t by simp
qed

lemma timestamp_complete:
  "0 \<le> tv_sec t \<Longrightarrow> 0 \<le> tv_nsec t \<Longrightarrow> tv_nsec t < 1000000000 \<Longrightarrow>
     tv_sec t * 1000000000 + tv_nsec t \<le> INT64_MAX \<Longrightarrow>
     timestamp_to_nanoseconds (Some t) = Inr (tv_sec t * 1000000000 + tv_nsec t)"
proof -
  assume t: "0 \<le> tv_sec t" "0 \<le> tv_nsec t" "tv_nsec t < 1000000000"
    "tv_sec t * 1000000000 + tv_nsec t \<le> INT64_MAX"
  then have "tv_sec t * 1000000000 div 1000000000 \<le> (INT64_MAX - tv_nsec t) div 1000000000"
    by (intro zdiv_mono1) simp_all
  then show ?thesis
    using t by (simp add: timestamp_to_nanoseconds_def)
qed

lemma sint_of_timestamp:
  "0 \<le> ns \<Longrightarrow> ns \<le> INT64_MAX \<Longrightarrow> sint (of_int ns :: u64) = ns"
  by (simp add: INT64_MAX_def signed_of_int signed_take_bit_int_eq_self)

lemma classify_ok:
  assumes "classify_datagram g = Inr ns"
  shows "received_size g = CAN_FRAME_SIZE \<and> \<not> flag_trunc g \<and> \<not> flag_ctrunc g \<and>
     gateway_can_is_target_id (frame_can_id g) \<and> frame_dlc g = 8 \<and> 0 \<le> ns \<and> ns \<le> INT64_MAX \<and>
     (\<exists>t. find_timestamp (control_messages g) = Some t \<and> ns = tv_sec t * 1000000000 + tv_nsec t)"
  using assms timestamp_in_range
  by (auto simp: classify_datagram_def GATEWAY_CAN_DATA_SIZE_def
      split: if_splits option.splits sum.splits)

lemma receive_cases:
  assumes "gateway_can_receiver_receive polls recvs receiver timeout seq (Some r0) rej =
     Some (code, rej', rec')"
  shows "(code = GATEWAY_OK \<and> (\<exists>g ns. Recv_datagram g \<in> set recvs \<and> classify_datagram g = Inr ns \<and>
       rec' = Some (zero_record\<lparr>gateway_seq := seq, kernel_timestamp_ns := of_int ns,
          can_id := frame_can_id g, data := take GATEWAY_CAN_DATA_SIZE (frame_data g),
          status_flags := GATEWAY_RECORD_STATUS_KERNEL_TIMESTAMP_VALID,
          dlc := frame_dlc g, ecu_counter := frame_data g ! 6\<rparr>))) \<or>
     (code \<in> {GATEWAY_ERROR_ARGUMENT, GATEWAY_ERROR_TIMEOUT, GATEWAY_ERROR_SYSTEM,
        GATEWAY_ERROR_INVALID_VALUE} \<and> rec' = Some r0)"
proof -
  have recv: "recv_retry l = Some o1 \<Longrightarrow> o1 \<in> set l" for l o1
    by (induction l rule: recv_retry.induct) auto
  show ?thesis
    using assms recv
    by (auto simp: gateway_can_receiver_receive_def Let_def
        split: option.splits if_splits poll_outcome.splits bool.splits recv_outcome.splits
          sum.splits)
qed

text \<open>C32: A record that the receiver delivers comes from a whole, untruncated standard frame with a
  target identifier and eight data bytes; it carries the caller's sequence number and the kernel
  timestamp in nanoseconds, which is non-negative and did not overflow, with only the timestamp
  flag set. Every other result leaves the caller's record untouched.\<close>

theorem received_record_valid:
  assumes "gateway_can_receiver_receive polls recvs receiver timeout seq (Some r0) rej =
     Some (code, rej', rec')"
    and "\<And>g. Recv_datagram g \<in> set recvs \<Longrightarrow> length (frame_data g) = 8"
  shows "if code = GATEWAY_OK then \<exists>r g t. rec' = Some r \<and> Recv_datagram g \<in> set recvs \<and>
       received_size g = CAN_FRAME_SIZE \<and> \<not> flag_trunc g \<and>
       wf_record r \<and> supported_can_id (can_id r) \<and> can_id r = frame_can_id g \<and> dlc r = 8 \<and>
       data r = frame_data g \<and> gateway_seq r = seq \<and>
       find_timestamp (control_messages g) = Some t \<and> 0 \<le> sint (kernel_timestamp_ns r) \<and>
       sint (kernel_timestamp_ns r) = tv_sec t * 1000000000 + tv_nsec t \<and>
       status_flags r = GATEWAY_RECORD_STATUS_KERNEL_TIMESTAMP_VALID
     else rec' = Some r0"
proof (cases "code = GATEWAY_OK")
  case True
  then obtain g ns where g: "Recv_datagram g \<in> set recvs" "classify_datagram g = Inr ns"
    "rec' = Some (zero_record\<lparr>gateway_seq := seq, kernel_timestamp_ns := of_int ns,
       can_id := frame_can_id g, data := take GATEWAY_CAN_DATA_SIZE (frame_data g),
       status_flags := GATEWAY_RECORD_STATUS_KERNEL_TIMESTAMP_VALID,
       dlc := frame_dlc g, ecu_counter := frame_data g ! 6\<rparr>)"
    using receive_cases [OF assms(1)] by auto
  have ids: "gateway_can_is_target_id c \<Longrightarrow> supported_can_id c" for c
    by (simp add: gateway_can_is_target_id_def supported_can_id_iff can_id_defs)
  show ?thesis
    using True g assms(2) [OF g(1)] classify_ok [OF g(2)] ids sint_of_timestamp [of ns]
    by (auto simp: wf_record_def record_sizes zero_record_def)
next
  case False
  then show ?thesis
    using receive_cases [OF assms(1)] by auto
qed

definition sample_datagram :: can_datagram where
  "sample_datagram = \<lparr>received_size = 16, flag_trunc = False, flag_ctrunc = False,
     frame_can_id = 0x101, frame_dlc = 8, frame_data = [1, 2, 3, 4, 5, 6, 7, 8],
     control_messages = [\<lparr>level_is_socket = True, type_is_timestampns = True,
       holds_timespec = True, cmsg_timestamp = \<lparr>tv_sec = 3, tv_nsec = 5\<rparr>\<rparr>]\<rparr>"

lemma received_record_valid_witness:
  "\<exists>r. snd (snd (the (gateway_can_receiver_receive [Poll_eintr, Poll_ready True]
       [Recv_eintr, Recv_datagram sample_datagram] (Some \<lparr>fd = 4\<rparr>) 100 9 (Some zero_record) None)))
     = Some r \<and> wf_record r \<and> sint (kernel_timestamp_ns r) = 3000000005"
proof -
  let ?c = "gateway_can_receiver_receive [Poll_eintr, Poll_ready True]
       [Recv_eintr, Recv_datagram sample_datagram] (Some \<lparr>fd = 4\<rparr>) 100 9 (Some zero_record) None"
  have call: "?c = Some (GATEWAY_OK, None, snd (snd (the ?c)))"
    by code_simp
  have len: "length (frame_data g) = 8"
    if "Recv_datagram g \<in> set [Recv_eintr, Recv_datagram sample_datagram]" for g
    using that by (simp add: sample_datagram_def)
  have ts: "find_timestamp (control_messages g) = Some \<lparr>tv_sec = 3, tv_nsec = 5\<rparr>"
    if "Recv_datagram g \<in> set [Recv_eintr, Recv_datagram sample_datagram]" for g
    using that by (simp add: sample_datagram_def)
  show ?thesis
    using received_record_valid [OF call len] ts by fastforce
qed

text \<open>Opening the receiver never leaks a descriptor: on success the socket is stored and not
  closed, and on every failure after the socket was created it is closed exactly once and the
  receiver is unchanged.\<close>

theorem open_never_leaks:
  assumes "gateway_can_receiver_open env receiver name = (code, receiver', closed)"
  shows "if code = GATEWAY_OK
     then \<exists>r. receiver' = Some (r\<lparr>fd := socket_result env\<rparr>) \<and> 0 \<le> socket_result env \<and> closed = [] \<and>
            receiver = Some r \<and> fd r < 0
     else receiver' = receiver \<and> (closed = [] \<or> closed = [socket_result env]) \<and>
          (code = GATEWAY_ERROR_SYSTEM \<and> 0 \<le> socket_result env \<longrightarrow> closed = [socket_result env])"
  using assms
  by (auto simp: gateway_can_receiver_open_def Let_def not_le split: option.splits if_splits)

lemma open_never_leaks_witness:
  "snd (snd (gateway_can_receiver_open \<lparr>socket_result = 7, getfd_ok = True, setfd_ok = True,
     set_filters_ok = (\<lambda>_. True), set_timestamps_ok = True, interface_index = 3, bind_ok = False\<rparr>
     (Some \<lparr>fd = - 1\<rparr>) (Some ''can0''))) = [7]"
proof -
  let ?env = "\<lparr>socket_result = 7, getfd_ok = True, setfd_ok = True,
     set_filters_ok = (\<lambda>_. True), set_timestamps_ok = True, interface_index = 3, bind_ok = False\<rparr>"
  have call: "gateway_can_receiver_open ?env (Some \<lparr>fd = - 1\<rparr>) (Some ''can0'') =
      (GATEWAY_ERROR_SYSTEM, Some \<lparr>fd = - 1\<rparr>,
       snd (snd (gateway_can_receiver_open ?env (Some \<lparr>fd = - 1\<rparr>) (Some ''can0''))))"
    by (simp add: gateway_can_receiver_open_def set_close_on_exec_def
        gateway_can_receiver_configure_socket_def)
  show ?thesis
    using open_never_leaks [OF call] by simp
qed

text \<open>The kernel matches a received identifier against a filter under the filter's mask, so the
  installed filters pass every identifier the receiver targets, and no remote or extended frame.\<close>

definition filters_accept :: "u32 \<Rightarrow> bool" where
  "filters_accept cid \<longleftrightarrow> (\<exists>(fid, mask)\<in>set can_filters. cid AND mask = fid AND mask)"

lemma filters_cover_targets: "gateway_can_is_target_id cid \<Longrightarrow> filters_accept cid"
  by (auto simp: gateway_can_is_target_id_def filters_accept_def can_filters_def)

end
