(* ===== verification/Lifecycle.thy ===== *)
theory Lifecycle
  imports Ring_Buffer
begin

text \<open>
  Stop requests and signals (\<open>gateway/src/lifecycle.c\<close>). The state is the C struct together with
  the process-wide part the module touches: the static \<open>signal_write_fd\<close>, the dispositions of
  SIGINT and SIGTERM, and the bytes waiting in the signal pipe. System calls are environment.
\<close>

subsection \<open>State\<close>

datatype disposition = Gateway_handler | Other_disposition nat

record gateway_lifecycle =
  condition_clock :: clock_id
  signal_pipe_read :: int
  signal_pipe_write :: int
  stop_requested :: bool
  stop_signal :: int
  handlers_installed :: bool
  previous_sigint :: disposition
  previous_sigterm :: disposition

record process_signals =
  signal_write_fd :: int
  sigint_action :: disposition
  sigterm_action :: disposition
  signal_pipe_bytes :: bytes

text \<open>The handler writes the low byte of the signal number; \<open>write_ok\<close> is false when the
  non-blocking pipe is full. It leaves \<open>errno\<close> as it was.\<close>

definition lifecycle_signal_handler :: "bool \<Rightarrow> int \<Rightarrow> process_signals \<Rightarrow> process_signals" where
  "lifecycle_signal_handler write_ok signal_number p =
     (if signal_write_fd p \<ge> 0 \<and> write_ok
      then p\<lparr>signal_pipe_bytes := signal_pipe_bytes p @ [of_int signal_number]\<rparr> else p)"

text \<open>\<open>timeout_ms\<close> is a non-negative C \<open>int\<close> here.\<close>

definition lifecycle_deadline_after :: "timespec \<Rightarrow> int \<Rightarrow> timespec" where
  "lifecycle_deadline_after now timeout_ms =
     (let d = \<lparr>tv_sec = tv_sec now + timeout_ms div 1000,
              tv_nsec = tv_nsec now + timeout_ms mod 1000 * 1000000\<rparr> in
      if tv_nsec d \<ge> 1000000000
      then \<lparr>tv_sec = tv_sec d + 1, tv_nsec = tv_nsec d - 1000000000\<rparr> else d)"

record init_env =
  li_mutex_ok :: bool
  li_condattr_ok :: bool
  li_setclock_ok :: bool
  li_cond_ok :: bool
  li_pipe :: "(int \<times> int) option"
  li_read_end_ok :: bool
  li_write_end_ok :: bool

text \<open>The four \<open>fcntl\<close> calls on one descriptor.\<close>

definition make_nonblocking_cloexec :: "bool \<Rightarrow> bool \<Rightarrow> bool \<Rightarrow> bool \<Rightarrow> bool" where
  "make_nonblocking_cloexec getfl_ok setfl_ok getfd_ok setfd_ok \<longleftrightarrow>
     (if \<not> getfl_ok \<or> \<not> setfl_ok then False else if \<not> getfd_ok \<or> \<not> setfd_ok then False else True)"

definition cleared_lifecycle :: gateway_lifecycle where
  "cleared_lifecycle = \<lparr>condition_clock = CLOCK_REALTIME, signal_pipe_read = - 1,
     signal_pipe_write = - 1, stop_requested = False, stop_signal = 0, handlers_installed = False,
     previous_sigint = Other_disposition 0, previous_sigterm = Other_disposition 0\<rparr>"

text \<open>Result, struct afterwards, and the descriptors closed on a failure.\<close>

definition gateway_lifecycle_init ::
    "init_env \<Rightarrow> gateway_lifecycle option \<Rightarrow>
     gateway_error_code \<times> gateway_lifecycle option \<times> int list" where
  "gateway_lifecycle_init env lifecycle =
     (case lifecycle of
        None \<Rightarrow> (GATEWAY_ERROR_ARGUMENT, None, [])
      | Some _ \<Rightarrow>
        let l0 = cleared_lifecycle in
        if \<not> li_mutex_ok env then (GATEWAY_ERROR_SYSTEM, Some l0, [])
        else if \<not> li_condattr_ok env then (GATEWAY_ERROR_SYSTEM, Some l0, [])
        else let l1 = (if li_setclock_ok env then l0\<lparr>condition_clock := CLOCK_MONOTONIC\<rparr> else l0) in
          if \<not> li_cond_ok env then (GATEWAY_ERROR_SYSTEM, Some l1, [])
          else (case li_pipe env of
              None \<Rightarrow> (GATEWAY_ERROR_SYSTEM, Some l1, [])
            | Some (r, w) \<Rightarrow>
              let l2 = l1\<lparr>signal_pipe_read := r, signal_pipe_write := w\<rparr> in
              if \<not> li_read_end_ok env \<or> \<not> li_write_end_ok env
              then (GATEWAY_ERROR_SYSTEM, Some l2, filter (\<lambda>d. 0 \<le> d) [r, w])
              else (GATEWAY_OK, Some l2, [])))"

subsection \<open>Operations\<close>

type_synonym lifecycle_state = "gateway_lifecycle \<times> process_signals"

text \<open>\<open>int_ok\<close> and \<open>term_ok\<close>: the results of installing the two handlers.\<close>

definition gateway_lifecycle_install_signal_handlers ::
    "bool \<Rightarrow> bool \<Rightarrow> lifecycle_state \<Rightarrow> gateway_error_code \<times> lifecycle_state" where
  "gateway_lifecycle_install_signal_handlers int_ok term_ok s =
     (case s of (l, p) \<Rightarrow>
      if handlers_installed l \<or> signal_write_fd p \<ge> 0 then (GATEWAY_ERROR_ARGUMENT, s)
      else let p1 = p\<lparr>signal_write_fd := signal_pipe_write l\<rparr> in
        if \<not> int_ok then (GATEWAY_ERROR_SYSTEM, (l, p1\<lparr>signal_write_fd := - 1\<rparr>))
        else let l2 = l\<lparr>previous_sigint := sigint_action p1\<rparr>;
                 p2 = p1\<lparr>sigint_action := Gateway_handler\<rparr> in
          if \<not> term_ok
          then (GATEWAY_ERROR_SYSTEM,
                (l2, p2\<lparr>sigint_action := previous_sigint l2, signal_write_fd := - 1\<rparr>))
          else (GATEWAY_OK, (l2\<lparr>previous_sigterm := sigterm_action p2, handlers_installed := True\<rparr>,
                             p2\<lparr>sigterm_action := Gateway_handler\<rparr>)))"

definition gateway_lifecycle_restore_signal_handlers :: "lifecycle_state \<Rightarrow> lifecycle_state" where
  "gateway_lifecycle_restore_signal_handlers s =
     (case s of (l, p) \<Rightarrow>
      if \<not> handlers_installed l then s
      else (l\<lparr>handlers_installed := False\<rparr>,
            p\<lparr>sigint_action := previous_sigint l, sigterm_action := previous_sigterm l,
              signal_write_fd := - 1\<rparr>))"

text \<open>The state after the call and the descriptors closed.\<close>

definition gateway_lifecycle_destroy :: "lifecycle_state \<Rightarrow> lifecycle_state \<times> int list" where
  "gateway_lifecycle_destroy s =
     (let s1 = gateway_lifecycle_restore_signal_handlers s in
      (s1, filter (\<lambda>d. 0 \<le> d) [signal_pipe_read (fst s1), signal_pipe_write (fst s1)]))"

definition gateway_lifecycle_request_stop ::
    "bool \<Rightarrow> int \<Rightarrow> gateway_lifecycle option \<Rightarrow> gateway_error_code \<times> gateway_lifecycle option" where
  "gateway_lifecycle_request_stop lock_ok signal_number lifecycle =
     (case lifecycle of
        None \<Rightarrow> (GATEWAY_ERROR_ARGUMENT, None)
      | Some l \<Rightarrow>
        if \<not> lock_ok then (GATEWAY_ERROR_SYSTEM, Some l)
        else (GATEWAY_OK, Some (if \<not> stop_requested l
               then l\<lparr>stop_requested := True, stop_signal := signal_number\<rparr> else l)))"

text \<open>Each wake-up is the status of the condition wait and the struct found then.\<close>

fun lifecycle_wait_loop ::
    "(wait_status \<times> gateway_lifecycle) list \<Rightarrow> gateway_lifecycle \<Rightarrow>
     (gateway_error_code \<times> gateway_lifecycle) option" where
  "lifecycle_wait_loop [] l = (if stop_requested l then Some (GATEWAY_OK, l) else None)"
| "lifecycle_wait_loop ((status, l') # rest) l =
     (if stop_requested l then Some (GATEWAY_OK, l)
      else if status = WAIT_ETIMEDOUT then Some (GATEWAY_ERROR_TIMEOUT, l')
      else if status \<noteq> WAIT_OK then Some (GATEWAY_ERROR_SYSTEM, l')
      else lifecycle_wait_loop rest l')"

definition gateway_lifecycle_wait ::
    "bool \<Rightarrow> (wait_status \<times> gateway_lifecycle) list \<Rightarrow> int \<Rightarrow> int option \<Rightarrow>
     gateway_lifecycle option \<Rightarrow> (gateway_error_code \<times> int option) option" where
  "gateway_lifecycle_wait lock_ok wakeups timeout_ms signal_number lifecycle =
     (case lifecycle of
        None \<Rightarrow> Some (GATEWAY_ERROR_ARGUMENT, signal_number)
      | Some l \<Rightarrow>
        if timeout_ms < - 1 then Some (GATEWAY_ERROR_ARGUMENT, signal_number)
        else if \<not> lock_ok then Some (GATEWAY_ERROR_SYSTEM, signal_number)
        else (case lifecycle_wait_loop wakeups l of
            None \<Rightarrow> None
          | Some (result, l') \<Rightarrow> Some (result,
              if result = GATEWAY_OK then map_option (\<lambda>_. stop_signal l') signal_number
              else signal_number)))"

datatype pipe_poll = Pipe_eintr | Pipe_error | Pipe_timeout | Pipe_ready bool

fun pipe_poll_retry :: "pipe_poll list \<Rightarrow> pipe_poll option" where
  "pipe_poll_retry [] = None"
| "pipe_poll_retry (Pipe_eintr # rest) = pipe_poll_retry rest"
| "pipe_poll_retry (outcome # _) = Some outcome"

text \<open>The read loop: an element is true when \<open>read\<close> was interrupted; then it takes the next byte,
  or fails when the pipe is empty.\<close>

fun pipe_read_retry :: "bool list \<Rightarrow> bytes \<Rightarrow> (u8 option \<times> bytes) option" where
  "pipe_read_retry [] pipe = None"
| "pipe_read_retry (True # rest) pipe = pipe_read_retry rest pipe"
| "pipe_read_retry (False # _) pipe =
     (case pipe of [] \<Rightarrow> Some (None, []) | b # bs \<Rightarrow> Some (Some b, bs))"

definition gateway_lifecycle_wait_signal ::
    "pipe_poll list \<Rightarrow> bool list \<Rightarrow> bool \<Rightarrow> int \<Rightarrow> int option \<Rightarrow> lifecycle_state \<Rightarrow>
     (gateway_error_code \<times> int option \<times> lifecycle_state) option" where
  "gateway_lifecycle_wait_signal polls reads lock_ok timeout_ms signal_number s =
     (case s of (l, p) \<Rightarrow>
      if timeout_ms < - 1 \<or> \<not> handlers_installed l
      then Some (GATEWAY_ERROR_ARGUMENT, signal_number, s)
      else (case pipe_poll_retry polls of
          None \<Rightarrow> None
        | Some Pipe_timeout \<Rightarrow> Some (GATEWAY_ERROR_TIMEOUT, signal_number, s)
        | Some (Pipe_ready True) \<Rightarrow>
            (case pipe_read_retry reads (signal_pipe_bytes p) of
               None \<Rightarrow> None
             | Some (None, rest) \<Rightarrow> Some (GATEWAY_ERROR_SYSTEM, signal_number, s)
             | Some (Some b, rest) \<Rightarrow>
               let p' = p\<lparr>signal_pipe_bytes := rest\<rparr> in
               (case gateway_lifecycle_request_stop lock_ok (uint b) (Some l) of
                  (GATEWAY_OK, Some l') \<Rightarrow>
                    Some (GATEWAY_OK, map_option (\<lambda>_. uint b) signal_number, (l', p'))
                | _ \<Rightarrow> Some (GATEWAY_ERROR_SYSTEM, signal_number, (l, p'))))
        | Some _ \<Rightarrow> Some (GATEWAY_ERROR_SYSTEM, signal_number, s)))"

definition gateway_lifecycle_is_stop_requested ::
    "bool \<Rightarrow> gateway_lifecycle option \<Rightarrow> int option \<Rightarrow> bool \<times> int option" where
  "gateway_lifecycle_is_stop_requested lock_ok lifecycle signal_number =
     (case lifecycle of
        None \<Rightarrow> (False, signal_number)
      | Some l \<Rightarrow>
        if \<not> lock_ok then (False, signal_number)
        else (stop_requested l, if stop_requested l then map_option (\<lambda>_. stop_signal l) signal_number
                                else signal_number))"

subsection \<open>Stop requests\<close>

lemma lifecycle_deadline_normalised:
  assumes "0 \<le> tv_nsec now" "tv_nsec now < 1000000000" "0 \<le> timeout_ms"
  shows "let d = lifecycle_deadline_after now timeout_ms in
     0 \<le> tv_nsec d \<and> tv_nsec d < 1000000000 \<and>
     tv_sec d * 1000000000 + tv_nsec d =
       tv_sec now * 1000000000 + tv_nsec now + timeout_ms * 1000000"
proof -
  define q m where qm: "q = timeout_ms div 1000" "m = timeout_ms mod 1000"
  have "timeout_ms = q * 1000 + m" "m < 1000" "0 \<le> m"
    by (simp_all add: qm)
  then show ?thesis
    using assms unfolding lifecycle_deadline_after_def Let_def qm [symmetric] by auto
qed

text \<open>Requests by any threads, in the order in which they take the lock; a failed lock is skipped.\<close>

definition request_all :: "(bool \<times> int) list \<Rightarrow> gateway_lifecycle \<Rightarrow> gateway_lifecycle" where
  "request_all reqs l =
     fold (\<lambda>(ok, sig) s. the (snd (gateway_lifecycle_request_stop ok sig (Some s)))) reqs l"

lemma request_all_requested:
  "stop_requested l \<Longrightarrow> request_all reqs l = l"
  unfolding request_all_def
  by (induction reqs arbitrary: l) (auto simp: gateway_lifecycle_request_stop_def)

lemma request_all_Cons:
  "request_all ((ok, sig) # reqs) l =
     request_all reqs (if ok \<and> \<not> stop_requested l
                       then l\<lparr>stop_requested := True, stop_signal := sig\<rparr> else l)"
  by (simp add: request_all_def gateway_lifecycle_request_stop_def)

text \<open>Whatever the order and number of stop requests, the first one that takes the lock decides
  the stop signal, later ones never change it, and a waiter that starts afterwards returns
  immediately with it.\<close>

theorem first_stop_request_wins:
  assumes "\<not> stop_requested l"
  shows "stop_requested (request_all reqs l) = (\<exists>sig. (True, sig) \<in> set reqs) \<and>
     (stop_requested (request_all reqs l) \<longrightarrow>
        stop_signal (request_all reqs l) = snd (hd (filter fst reqs)) \<and>
        gateway_lifecycle_wait True wakeups (- 1) (Some 0) (Some (request_all reqs l)) =
          Some (GATEWAY_OK, Some (snd (hd (filter fst reqs)))))"
  using assms
proof (induction reqs arbitrary: l)
  case Nil
  then show ?case by (simp add: request_all_def)
next
  case (Cons req reqs)
  obtain ok sig where req: "req = (ok, sig)"
    by (cases req)
  show ?case
  proof (cases ok)
    case True
    let ?l = "l\<lparr>stop_requested := True, stop_signal := sig\<rparr>"
    have r: "request_all (req # reqs) l = ?l"
      using True Cons.prems by (simp add: req request_all_Cons request_all_requested)
    have "lifecycle_wait_loop wakeups ?l = Some (GATEWAY_OK, ?l)"
      by (cases "(wakeups, ?l)" rule: lifecycle_wait_loop.cases) simp_all
    then show ?thesis
      unfolding r using True by (auto simp: req gateway_lifecycle_wait_def)
  next
    case False
    then show ?thesis
      using Cons by (simp add: req request_all_Cons)
  qed
qed

lemma first_stop_request_wins_witness:
  "stop_signal (request_all [(False, 1), (True, 15), (True, 2)] cleared_lifecycle) = 15"
proof -
  have "\<not> stop_requested cleared_lifecycle"
    by (simp add: cleared_lifecycle_def)
  from first_stop_request_wins [OF this, of "[(False, 1), (True, 15), (True, 2)]" "[]"] show ?thesis
    by auto
qed

subsection \<open>Signals\<close>

text \<open>C36: Installing the handlers and restoring them puts both dispositions back exactly, a failed
  installation leaves them and the write descriptor as they were, and in between every delivered
  signal is received by the main loop in delivery order, setting the stop request.\<close>

theorem signal_handlers_roundtrip:
  assumes "gateway_lifecycle_install_signal_handlers int_ok term_ok (l, p) = (code, (l1, p1))"
    and "0 \<le> signal_pipe_write l" and "signal_write_fd p = - 1" and "0 < sig" and "sig < 256"
  shows "(code \<noteq> GATEWAY_OK \<longrightarrow> sigint_action p1 = sigint_action p \<and>
       sigterm_action p1 = sigterm_action p \<and> signal_write_fd p1 = - 1) \<and>
     (code = GATEWAY_OK \<longrightarrow>
       (let (l2, p2) = gateway_lifecycle_restore_signal_handlers (l1, p1) in
          sigint_action p2 = sigint_action p \<and> sigterm_action p2 = sigterm_action p \<and>
          signal_write_fd p2 = - 1 \<and> \<not> handlers_installed l2) \<and>
       (signal_pipe_bytes p = [] \<longrightarrow>
          (\<exists>l3. gateway_lifecycle_wait_signal [Pipe_ready True] [False] True t (Some 0)
              (l1, lifecycle_signal_handler True sig p1) =
                (if t < - 1 then Some (GATEWAY_ERROR_ARGUMENT, Some 0,
                   (l1, lifecycle_signal_handler True sig p1))
                 else Some (GATEWAY_OK, Some sig, (l3, p1))) \<and>
              (stop_requested l3 \<or> t < - 1))))"
proof -
  have u: "uint (of_int sig :: u8) = sig"
    using assms(4,5) by (simp add: unsigned_of_int take_bit_int_eq_self)
  show ?thesis
    using assms(1-3) u
    by (auto simp: gateway_lifecycle_install_signal_handlers_def Let_def
        gateway_lifecycle_restore_signal_handlers_def lifecycle_signal_handler_def
        gateway_lifecycle_wait_signal_def gateway_lifecycle_request_stop_def split: if_splits)
qed

lemma signal_handlers_roundtrip_witness:
  "let l = cleared_lifecycle\<lparr>signal_pipe_read := 3, signal_pipe_write := 4\<rparr>;
       p = \<lparr>signal_write_fd = - 1, sigint_action = Other_disposition 0,
            sigterm_action = Other_disposition 1, signal_pipe_bytes = []\<rparr>;
       s1 = snd (gateway_lifecycle_install_signal_handlers True False (l, p))
   in sigint_action (snd s1) = Other_disposition 0"
proof -
  let ?l = "cleared_lifecycle\<lparr>signal_pipe_read := 3, signal_pipe_write := 4\<rparr>"
  let ?p = "\<lparr>signal_write_fd = - 1, sigint_action = Other_disposition 0,
            sigterm_action = Other_disposition 1, signal_pipe_bytes = []\<rparr>"
  have call: "gateway_lifecycle_install_signal_handlers True False (?l, ?p) =
      (GATEWAY_ERROR_SYSTEM, (fst (snd (gateway_lifecycle_install_signal_handlers True False (?l, ?p))),
       snd (snd (gateway_lifecycle_install_signal_handlers True False (?l, ?p)))))"
    by (simp add: gateway_lifecycle_install_signal_handlers_def cleared_lifecycle_def)
  show ?thesis
    using signal_handlers_roundtrip [OF call, of 15 0] by simp
qed

end
