(* ===== verification/Mock_Sink.thy ===== *)
theory Mock_Sink
  imports Vehicle_Decoder
begin

text \<open>
  The consumer used without a broker (\<open>gateway/src/mock_sink.c\<close>): it checks that each record is
  stamped, checksummed and decoded, and that gateway sequence numbers increase, counting gaps.
  The delay before each record changes no state and is left out; locks succeed unless said so.
\<close>

record gateway_mock_sink_snapshot =
  consumed :: u64
  sequence_gap_records :: u64
  non_monotonic_records :: u64
  invalid_records :: u64
  first_gateway_seq :: u64
  last_gateway_seq :: u64

record gateway_mock_sink =
  sink_values :: gateway_mock_sink_snapshot
  delay_ms :: u32
  sink_initialized :: bool

definition zero_sink_snapshot :: gateway_mock_sink_snapshot where
  "zero_sink_snapshot = \<lparr>consumed = 0, sequence_gap_records = 0, non_monotonic_records = 0,
     invalid_records = 0, first_gateway_seq = 0, last_gateway_seq = 0\<rparr>"

definition gateway_mock_sink_init ::
    "bool \<Rightarrow> gateway_mock_sink option \<Rightarrow> u32 \<Rightarrow> gateway_error_code \<times> gateway_mock_sink option" where
  "gateway_mock_sink_init mutex_ok sink delay =
     (case sink of
        None \<Rightarrow> (GATEWAY_ERROR_ARGUMENT, None)
      | Some _ \<Rightarrow>
        if \<not> mutex_ok
        then (GATEWAY_ERROR_SYSTEM, Some \<lparr>sink_values = zero_sink_snapshot, delay_ms = 0,
                sink_initialized = False\<rparr>)
        else (GATEWAY_OK, Some \<lparr>sink_values = zero_sink_snapshot, delay_ms = delay,
                sink_initialized = True\<rparr>))"

definition gateway_mock_sink_destroy :: "gateway_mock_sink option \<Rightarrow> gateway_mock_sink option" where
  "gateway_mock_sink_destroy sink =
     (case sink of
        Some s \<Rightarrow> Some (if sink_initialized s then s\<lparr>sink_initialized := False\<rparr> else s)
      | None \<Rightarrow> None)"

definition required_status :: u16 where
  "required_status = GATEWAY_RECORD_STATUS_KERNEL_TIMESTAMP_VALID OR
     GATEWAY_RECORD_STATUS_CHECKSUM_VALID OR GATEWAY_RECORD_STATUS_DECODED_VALID"

definition record_valid :: "telemetry_record \<Rightarrow> bool" where
  "record_valid r \<longleftrightarrow> status_flags r AND required_status = required_status \<and>
     fst (gateway_vehicle_read_decoded_payload (Some r) (Some zero_decoded_payload))"

definition count_record :: "telemetry_record \<Rightarrow> gateway_mock_sink_snapshot \<Rightarrow> gateway_mock_sink_snapshot" where
  "count_record r v =
     (let v1 =
        (if consumed v = 0 then v\<lparr>first_gateway_seq := gateway_seq r\<rparr>
         else if gateway_seq r \<le> last_gateway_seq v
         then v\<lparr>non_monotonic_records := non_monotonic_records v + 1\<rparr>
         else if gateway_seq r > last_gateway_seq v + 1
         then v\<lparr>sequence_gap_records := sequence_gap_records v +
                (gateway_seq r - last_gateway_seq v - 1)\<rparr>
         else v);
          v2 = v1\<lparr>last_gateway_seq := gateway_seq r, consumed := consumed v1 + 1\<rparr>
      in if record_valid r then v2 else v2\<lparr>invalid_records := invalid_records v2 + 1\<rparr>)"

definition gateway_mock_sink_consume ::
    "bool \<Rightarrow> gateway_mock_sink option \<Rightarrow> telemetry_record option \<Rightarrow>
     gateway_error_code \<times> gateway_mock_sink option" where
  "gateway_mock_sink_consume lock_ok context rec_arg =
     (case (context, rec_arg) of
        (Some sink, Some r) \<Rightarrow>
          if \<not> sink_initialized sink then (GATEWAY_ERROR_ARGUMENT, context)
          else if \<not> lock_ok then (GATEWAY_ERROR_SYSTEM, context)
          else (if record_valid r then GATEWAY_OK else GATEWAY_ERROR_INVALID_VALUE,
                Some (sink\<lparr>sink_values := count_record r (sink_values sink)\<rparr>))
      | _ \<Rightarrow> (GATEWAY_ERROR_ARGUMENT, context))"

definition gateway_mock_sink_read ::
    "gateway_mock_sink option \<Rightarrow> gateway_mock_sink_snapshot option \<Rightarrow>
     gateway_mock_sink_snapshot option" where
  "gateway_mock_sink_read sink snapshot =
     (case (sink, snapshot) of
        (Some s, Some _) \<Rightarrow> if sink_initialized s then Some (sink_values s) else snapshot
      | _ \<Rightarrow> snapshot)"

subsection \<open>Gap accounting\<close>

definition count_all :: "telemetry_record list \<Rightarrow> gateway_mock_sink_snapshot \<Rightarrow> gateway_mock_sink_snapshot" where
  "count_all rs v = fold count_record rs v"

definition no_wrap_count :: "telemetry_record list \<Rightarrow> bool" where
  "no_wrap_count rs \<longleftrightarrow> length rs < 2 ^ 64"

lemma count_all_snoc: "count_all (rs @ [r]) v = count_record r (count_all rs v)"
  by (simp add: count_all_def)

lemma count_increasing:
  assumes "rs \<noteq> []" "sorted_wrt (\<lambda>a b. gateway_seq a < gateway_seq b) rs" "length rs < 2 ^ 64"
  shows "consumed (count_all rs zero_sink_snapshot) = of_nat (length rs) \<and>
     first_gateway_seq (count_all rs zero_sink_snapshot) = gateway_seq (hd rs) \<and>
     last_gateway_seq (count_all rs zero_sink_snapshot) = gateway_seq (last rs) \<and>
     non_monotonic_records (count_all rs zero_sink_snapshot) = 0 \<and>
     sequence_gap_records (count_all rs zero_sink_snapshot) =
       gateway_seq (last rs) - gateway_seq (hd rs) + 1 - of_nat (length rs) \<and>
     invalid_records (count_all rs zero_sink_snapshot) =
       of_nat (length (filter (\<lambda>r. \<not> record_valid r) rs))"
  using assms
proof (induction rs rule: rev_induct)
  case (snoc r rs)
  show ?case
  proof (cases "rs = []")
    case True
    then show ?thesis
      by (simp add: count_all_def count_record_def zero_sink_snapshot_def)
  next
    case False
    let ?v = "count_all rs zero_sink_snapshot"
    have IH: "consumed ?v = of_nat (length rs)" "first_gateway_seq ?v = gateway_seq (hd rs)"
      "last_gateway_seq ?v = gateway_seq (last rs)" "non_monotonic_records ?v = 0"
      "sequence_gap_records ?v =
         gateway_seq (last rs) - gateway_seq (hd rs) + 1 - of_nat (length rs)"
      "invalid_records ?v = of_nat (length (filter (\<lambda>r. \<not> record_valid r) rs))"
      using snoc False by (simp_all add: sorted_wrt_append)
    have up: "gateway_seq (last rs) < gateway_seq r"
      using snoc.prems(2) False by (simp add: sorted_wrt_append)
    have "of_nat (length rs) \<noteq> (0 :: u64)"
      using False snoc.prems(3) by (simp add: word_unat_eq_iff unat_of_nat take_bit_nat_eq_self)
    then have n: "consumed ?v \<noteq> 0"
      by (simp add: IH)
    have adj: "gateway_seq r = gateway_seq (last rs) + 1"
      if "\<not> gateway_seq (last rs) + 1 < gateway_seq r"
      using that up by (metis inc_le not_less_iff_gr_or_eq leD)
    show ?thesis
      using n up adj False
      by (auto simp: count_all_snoc count_record_def Let_def IH not_le)
  qed
qed simp

text \<open>Consuming records with strictly increasing sequence numbers never reports a non-monotonic
  record, and the counted gaps are exactly the sequence numbers missing between the first and the
  last record; records that are not stamped, checksummed and decoded are counted as invalid.\<close>

theorem mock_sink_counts_gaps:
  assumes "rs \<noteq> []" and "sorted_wrt (\<lambda>a b. gateway_seq a < gateway_seq b) rs"
    and "length rs < 2 ^ 64"
  shows "let v = sink_values (the (fold (\<lambda>r s. snd (gateway_mock_sink_consume True s (Some r))) rs
             (snd (gateway_mock_sink_init True (Some sink) delay)))) in
     consumed v = of_nat (length rs) \<and> non_monotonic_records v = 0 \<and>
     sequence_gap_records v = gateway_seq (last rs) - gateway_seq (hd rs) + 1 - of_nat (length rs) \<and>
     invalid_records v = of_nat (length (filter (\<lambda>r. \<not> record_valid r) rs))"
proof -
  have "fold (\<lambda>r s. snd (gateway_mock_sink_consume True s (Some r))) rs
      (Some \<lparr>sink_values = v, delay_ms = d, sink_initialized = True\<rparr>) =
      Some \<lparr>sink_values = count_all rs v, delay_ms = d, sink_initialized = True\<rparr>" for v d
    by (induction rs arbitrary: v) (simp_all add: gateway_mock_sink_consume_def count_all_def)
  then show ?thesis
    using count_increasing [OF assms] by (simp add: gateway_mock_sink_init_def Let_def)
qed

lemma mock_sink_counts_gaps_witness:
  "sequence_gap_records (sink_values (the (fold (\<lambda>r s. snd (gateway_mock_sink_consume True s (Some r)))
     [zero_record\<lparr>gateway_seq := 3\<rparr>, zero_record\<lparr>gateway_seq := 7\<rparr>]
     (snd (gateway_mock_sink_init True (Some \<lparr>sink_values = zero_sink_snapshot, delay_ms = 0,
        sink_initialized = False\<rparr>) 0))))) = 3"
  using mock_sink_counts_gaps [of "[zero_record\<lparr>gateway_seq := 3\<rparr>, zero_record\<lparr>gateway_seq := 7\<rparr>]"
      "\<lparr>sink_values = zero_sink_snapshot, delay_ms = 0, sink_initialized = False\<rparr>" 0]
  by (simp add: Let_def)

end
