(* ===== verification/Pipeline.thy ===== *)
theory Pipeline
  imports Can_Receiver Lifecycle Mock_Sink "HOL-Library.Sublist"
begin

text \<open>
  The two worker threads around the queue (\<open>gateway/src/pipeline.c\<close>). A pass of a thread's loop is
  one function on the shared state; a blocking push is a pass of its own (\<open>P_push\<close>), so that the
  other thread runs in between, and it completes with one of the results that the waiting loop of
  the ring allows. The receive, consume and idle callbacks are arguments; \<open>g_received\<close>,
  \<open>g_offered\<close>, \<open>g_pushed\<close> and \<open>g_consumed\<close> are ghost fields listing the records that were received,
  decoded, stored and handed to the consumer, and \<open>g_push_failures\<close> counts system errors of a push.
  The state mutex and the lifecycle mutex are taken to lock successfully.
\<close>

subsection \<open>State\<close>

text \<open>The receive callback: for an environment and a sequence number, the code, the reject reason
  and the record it leaves, or \<open>None\<close> while it has not returned.\<close>

type_synonym 'e receive_fn =
  "'e \<Rightarrow> u64 \<Rightarrow> (gateway_error_code \<times> gateway_can_reject_reason \<times> telemetry_record) option"

record 'c gateway_pipeline_config =
  queue_capacity :: nat
  queue_push_timeout_ms :: u32
  receive_timeout_ms :: int
  receive_given :: bool
  consume_fn :: "('c \<Rightarrow> telemetry_record \<Rightarrow> gateway_error_code \<times> 'c) option"
  consumer_idle_timeout_ms :: u32
  consume_idle :: "('c \<Rightarrow> gateway_error_code \<times> 'c) option"
  lifecycle_given :: bool
  stats_given :: bool
  initial_gateway_seq :: u64

datatype producer_point = P_loop | P_push telemetry_record | P_exit
datatype consumer_point = C_loop | C_exit

record 'c gateway_pipeline =
  config :: "'c gateway_pipeline_config"
  queue :: gateway_ring_buffer
  pl_stats :: gateway_stats
  pl_lifecycle :: gateway_lifecycle
  sink_state :: 'c
  producer_created :: bool
  consumer_created :: bool
  producer_done :: bool
  consumer_done :: bool
  joined :: bool
  producer_error :: gateway_error_code
  consumer_error :: gateway_error_code
  next_gateway_seq :: u64
  producer_at :: producer_point
  consumer_at :: consumer_point
  g_received :: "telemetry_record list"
  g_offered :: "telemetry_record list"
  g_pushed :: "telemetry_record list"
  g_consumed :: "telemetry_record list"
  g_push_failures :: nat

definition count :: "gateway_stat_counter \<Rightarrow> 'c gateway_pipeline \<Rightarrow> 'c gateway_pipeline" where
  "count c p = p\<lparr>pl_stats := gateway_stats_increment c (pl_stats p)\<rparr>"

fun rejection_counter :: "gateway_can_reject_reason \<Rightarrow> gateway_stat_counter" where
  "rejection_counter GATEWAY_CAN_REJECT_DATAGRAM_LENGTH = GATEWAY_STAT_CAN_REJECTED_LENGTH"
| "rejection_counter GATEWAY_CAN_REJECT_DLC = GATEWAY_STAT_CAN_REJECTED_DLC"
| "rejection_counter GATEWAY_CAN_REJECT_ID = GATEWAY_STAT_CAN_REJECTED_ID"
| "rejection_counter GATEWAY_CAN_REJECT_CONTROL_TRUNCATED = GATEWAY_STAT_CAN_TIMESTAMP_ERRORS"
| "rejection_counter GATEWAY_CAN_REJECT_TIMESTAMP_MISSING = GATEWAY_STAT_CAN_TIMESTAMP_ERRORS"
| "rejection_counter GATEWAY_CAN_REJECT_TIMESTAMP_INVALID = GATEWAY_STAT_CAN_TIMESTAMP_ERRORS"
| "rejection_counter GATEWAY_CAN_REJECT_NONE = GATEWAY_STAT_CAN_RECEIVE_ERRORS"

definition count_can_rejection ::
    "gateway_can_reject_reason \<Rightarrow> 'c gateway_pipeline \<Rightarrow> 'c gateway_pipeline" where
  "count_can_rejection reason p = count (rejection_counter reason) p"

definition mark_producer_done ::
    "gateway_error_code \<Rightarrow> 'c gateway_pipeline \<Rightarrow> 'c gateway_pipeline" where
  "mark_producer_done error p = p\<lparr>producer_error := error, producer_done := True\<rparr>"

definition mark_consumer_done ::
    "gateway_error_code \<Rightarrow> 'c gateway_pipeline \<Rightarrow> 'c gateway_pipeline" where
  "mark_consumer_done error p = p\<lparr>consumer_error := error, consumer_done := True\<rparr>"

definition close_queue :: "'c gateway_pipeline \<Rightarrow> 'c gateway_pipeline" where
  "close_queue p = p\<lparr>queue := ring_close (queue p)\<rparr>"

definition request_lifecycle_stop :: "int \<Rightarrow> 'c gateway_pipeline \<Rightarrow> 'c gateway_pipeline" where
  "request_lifecycle_stop sig p = p\<lparr>pl_lifecycle :=
     the (snd (gateway_lifecycle_request_stop True sig (Some (pl_lifecycle p))))\<rparr>"

definition stop_after_worker_error :: "'c gateway_pipeline \<Rightarrow> 'c gateway_pipeline" where
  "stop_after_worker_error p = close_queue (request_lifecycle_stop 0 p)"

subsection \<open>Producer\<close>

text \<open>The statements after the loop.\<close>

definition producer_leave :: "gateway_error_code \<Rightarrow> 'c gateway_pipeline \<Rightarrow> 'c gateway_pipeline" where
  "producer_leave worker_error p =
     (mark_producer_done worker_error (close_queue p))\<lparr>producer_at := P_exit\<rparr>"

text \<open>One pass up to the push; the push counts its attempt before it takes the lock.\<close>

definition producer_pass ::
    "'e receive_fn \<Rightarrow> 'e \<Rightarrow> 'c gateway_pipeline \<Rightarrow> 'c gateway_pipeline option" where
  "producer_pass receive env p =
     (if fst (gateway_lifecycle_is_stop_requested True (Some (pl_lifecycle p)) None)
      then Some (producer_leave GATEWAY_OK p)
      else (case receive env (next_gateway_seq p) of
          None \<Rightarrow> None
        | Some (code, reason, r) \<Rightarrow>
          if code = GATEWAY_ERROR_CLOSED then Some (producer_leave GATEWAY_OK p)
          else let p1 = count GATEWAY_STAT_CAN_RECEIVE_ATTEMPTS p in
            if code = GATEWAY_ERROR_TIMEOUT then Some (count GATEWAY_STAT_CAN_RECEIVE_TIMEOUTS p1)
            else if code = GATEWAY_ERROR_INVALID_VALUE then Some (count_can_rejection reason p1)
            else if code \<noteq> GATEWAY_OK
            then Some (producer_leave code
                   (stop_after_worker_error (count GATEWAY_STAT_CAN_RECEIVE_ERRORS p1)))
            else let p2 = (count GATEWAY_STAT_CAN_RECEIVE_SUCCESS p1)\<lparr>
                   next_gateway_seq := next_gateway_seq p1 + 1, g_received := g_received p1 @ [r]\<rparr> in
              (case gateway_vehicle_decode_record (Some r) of
                 (GATEWAY_DECODE_OK, Some r') \<Rightarrow>
                   Some ((count GATEWAY_STAT_QUEUE_PUSH_ATTEMPTS
                           (count GATEWAY_STAT_CAN_DECODE_SUCCESS p2))\<lparr>
                         producer_at := P_push r', g_offered := g_offered p2 @ [r']\<rparr>)
               | _ \<Rightarrow> Some (count GATEWAY_STAT_CAN_DECODE_ERRORS p2))))"

text \<open>How a push completes: its lock failed, or its waiting loop ended with this result.\<close>

datatype push_event = Push_lock_failed | Push_loop_end gateway_error_code

definition push_complete ::
    "telemetry_record \<Rightarrow> push_event \<Rightarrow> 'c gateway_pipeline \<Rightarrow> gateway_error_code \<times> 'c gateway_pipeline" where
  "push_complete r event p =
     (case event of
        Push_lock_failed \<Rightarrow> (GATEWAY_ERROR_SYSTEM, p\<lparr>g_push_failures := g_push_failures p + 1\<rparr>)
      | Push_loop_end c \<Rightarrow>
          (case push_finish r c (queue p, pl_stats p) of
             (code, (q, st)) \<Rightarrow> (code, p\<lparr>queue := q, pl_stats := st,
               g_pushed := g_pushed p @ (if code = GATEWAY_OK then [r] else []),
               g_push_failures := g_push_failures p +
                 (if code = GATEWAY_ERROR_SYSTEM then 1 else 0)\<rparr>)))"

definition producer_push ::
    "telemetry_record \<Rightarrow> push_event \<Rightarrow> 'c gateway_pipeline \<Rightarrow> 'c gateway_pipeline" where
  "producer_push r event p =
     (case push_complete r event p of
        (code, p1) \<Rightarrow>
          if code = GATEWAY_ERROR_TIMEOUT then p1\<lparr>producer_at := P_loop\<rparr>
          else if code = GATEWAY_ERROR_CLOSED \<and>
                  fst (gateway_lifecycle_is_stop_requested True (Some (pl_lifecycle p1)) None)
          then producer_leave GATEWAY_OK p1
          else if code \<noteq> GATEWAY_OK then producer_leave code (stop_after_worker_error p1)
          else p1\<lparr>producer_at := P_loop\<rparr>)"

subsection \<open>Consumer\<close>

datatype pop_event = Pop_lock_failed | Pop_loop_end gateway_error_code

definition consumer_leave :: "gateway_error_code \<Rightarrow> 'c gateway_pipeline \<Rightarrow> 'c gateway_pipeline" where
  "consumer_leave worker_error p = (mark_consumer_done worker_error p)\<lparr>consumer_at := C_exit\<rparr>"

definition pop_complete ::
    "pop_event \<Rightarrow> 'c gateway_pipeline \<Rightarrow>
     gateway_error_code \<times> telemetry_record option \<times> 'c gateway_pipeline" where
  "pop_complete event p =
     (case event of
        Pop_lock_failed \<Rightarrow> (GATEWAY_ERROR_SYSTEM, None, p)
      | Pop_loop_end c \<Rightarrow>
          (case pop_finish c (queue p, pl_stats p) of
             (code, r, (q, st)) \<Rightarrow> (code, r, p\<lparr>queue := q, pl_stats := st\<rparr>)))"

definition consume_record ::
    "telemetry_record \<Rightarrow> 'c gateway_pipeline \<Rightarrow> gateway_error_code \<times> 'c gateway_pipeline" where
  "consume_record r p =
     (case the (consume_fn (config p)) (sink_state p) r of
        (code, c) \<Rightarrow> (code, p\<lparr>sink_state := c, g_consumed := g_consumed p @ [r]\<rparr>))"

definition consumer_pass :: "pop_event \<Rightarrow> 'c gateway_pipeline \<Rightarrow> 'c gateway_pipeline" where
  "consumer_pass event p =
     (case pop_complete event p of
        (code, r, p1) \<Rightarrow>
          if code = GATEWAY_ERROR_CLOSED then consumer_leave GATEWAY_OK p1
          else
            let (code2, p2) =
                  (case consume_idle (config p) of
                     Some idle \<Rightarrow> if code = GATEWAY_ERROR_TIMEOUT
                       then (case idle (sink_state p1) of (ic, c) \<Rightarrow> (ic, p1\<lparr>sink_state := c\<rparr>))
                       else (code, p1)
                   | None \<Rightarrow> (code, p1));
                idle_ok = (code = GATEWAY_ERROR_TIMEOUT \<and> consume_idle (config p) \<noteq> None \<and>
                           code2 = GATEWAY_OK)
            in if idle_ok then p2
               else if code2 \<noteq> GATEWAY_OK then consumer_leave code2 (stop_after_worker_error p2)
               else let (code3, p3) = consume_record (the r) p2 in
                 if code3 \<noteq> GATEWAY_OK then consumer_leave code3 (stop_after_worker_error p3)
                 else p3)"

subsection \<open>Life of a pipeline\<close>

text \<open>The struct that \<open>create\<close> leaves: everything else is zero from \<open>calloc\<close>.\<close>

definition fresh_pipeline :: "'c gateway_pipeline_config \<Rightarrow> gateway_ring_buffer \<Rightarrow> gateway_stats \<Rightarrow>
    gateway_lifecycle \<Rightarrow> 'c \<Rightarrow> 'c gateway_pipeline" where
  "fresh_pipeline cfg q st l sink = \<lparr>config = cfg, queue = q, pl_stats = st,
     pl_lifecycle = l, sink_state = sink, producer_created = False,
     consumer_created = False, producer_done = False, consumer_done = False,
     joined = False, producer_error = GATEWAY_OK, consumer_error = GATEWAY_OK,
     next_gateway_seq = (if initial_gateway_seq cfg = 0 then 1 else initial_gateway_seq cfg),
     producer_at = P_loop, consumer_at = C_loop, g_received = [], g_offered = [],
     g_pushed = [], g_consumed = [], g_push_failures = 0\<rparr>"

definition gateway_pipeline_create ::
    "create_env \<Rightarrow> bool \<Rightarrow> bool \<Rightarrow> bool \<Rightarrow> gateway_lifecycle \<Rightarrow> gateway_stats \<Rightarrow> 'c \<Rightarrow>
     'c gateway_pipeline_config option \<Rightarrow> gateway_error_code \<times> 'c gateway_pipeline option" where
  "gateway_pipeline_create env calloc_ok mutex_ok pipeline_given l st sink cfg_arg =
     (case cfg_arg of
        None \<Rightarrow> (GATEWAY_ERROR_ARGUMENT, None)
      | Some cfg \<Rightarrow>
        if \<not> pipeline_given \<or> queue_capacity cfg = 0 \<or> receive_timeout_ms cfg < 0 \<or>
           \<not> receive_given cfg \<or> consume_fn cfg = None \<or> \<not> lifecycle_given cfg \<or>
           \<not> stats_given cfg \<or> (consume_idle cfg \<noteq> None \<and> consumer_idle_timeout_ms cfg = 0)
        then (GATEWAY_ERROR_ARGUMENT, None)
        else if \<not> calloc_ok then (GATEWAY_ERROR_SYSTEM, None)
        else if \<not> mutex_ok then (GATEWAY_ERROR_SYSTEM, None)
        else (case gateway_ring_buffer_create env True (queue_capacity cfg) True of
            (GATEWAY_OK, Some q) \<Rightarrow> (GATEWAY_OK, Some (fresh_pipeline cfg q st l sink))
          | _ \<Rightarrow> (GATEWAY_ERROR_SYSTEM, None)))"

definition gateway_pipeline_request_stop ::
    "int \<Rightarrow> 'c gateway_pipeline option \<Rightarrow> gateway_error_code \<times> 'c gateway_pipeline option" where
  "gateway_pipeline_request_stop sig pipeline =
     (case pipeline of
        None \<Rightarrow> (GATEWAY_ERROR_ARGUMENT, None)
      | Some p \<Rightarrow> (GATEWAY_OK, Some (close_queue (request_lifecycle_stop sig p))))"

text \<open>Both threads are created, consumer first. When the producer cannot be created the queue is
  closed and the consumer joined: that returns once the consumer has left its loop.\<close>

definition gateway_pipeline_start ::
    "bool \<Rightarrow> bool \<Rightarrow> 'c gateway_pipeline option \<Rightarrow>
     gateway_error_code \<times> 'c gateway_pipeline option" where
  "gateway_pipeline_start consumer_ok producer_ok pipeline =
     (case pipeline of
        None \<Rightarrow> (GATEWAY_ERROR_ARGUMENT, None)
      | Some p \<Rightarrow>
        if producer_created p \<or> consumer_created p \<or> joined p
        then (GATEWAY_ERROR_ARGUMENT, Some p)
        else if \<not> consumer_ok then (GATEWAY_ERROR_SYSTEM, Some p)
        else if \<not> producer_ok
        then (GATEWAY_ERROR_SYSTEM, Some ((close_queue p)\<lparr>consumer_created := False\<rparr>))
        else (GATEWAY_OK, Some (p\<lparr>consumer_created := True, producer_created := True\<rparr>)))"

text \<open>\<open>pthread_join\<close> returns when its thread has left: \<open>None\<close> while one of the two has not.
  The queue is closed in between.\<close>

definition gateway_pipeline_join ::
    "'c gateway_pipeline option \<Rightarrow> (gateway_error_code \<times> 'c gateway_pipeline option) option" where
  "gateway_pipeline_join pipeline =
     (case pipeline of
        None \<Rightarrow> Some (GATEWAY_ERROR_ARGUMENT, None)
      | Some p \<Rightarrow>
        if \<not> producer_created p \<or> \<not> consumer_created p then Some (GATEWAY_ERROR_ARGUMENT, Some p)
        else if joined p then Some (GATEWAY_OK, Some p)
        else if producer_at p \<noteq> P_exit then None
        else let p1 = close_queue p in
          if consumer_at p1 \<noteq> C_exit then None
          else Some (GATEWAY_OK, Some (p1\<lparr>joined := True\<rparr>)))"

record gateway_pipeline_snapshot =
  ps_started :: bool
  ps_producer_done :: bool
  ps_consumer_done :: bool
  ps_joined :: bool
  ps_producer_error :: gateway_error_code
  ps_consumer_error :: gateway_error_code
  ps_next_gateway_seq :: u64
  ps_queue_capacity :: nat
  ps_queue_count :: nat
  ps_queue_closed :: bool

definition gateway_pipeline_read :: "'c gateway_pipeline \<Rightarrow> gateway_pipeline_snapshot" where
  "gateway_pipeline_read p =
     (let s = gateway_ring_buffer_read (queue p) in
      \<lparr>ps_started = producer_created p \<and> consumer_created p, ps_producer_done = producer_done p,
       ps_consumer_done = consumer_done p, ps_joined = joined p,
       ps_producer_error = producer_error p, ps_consumer_error = consumer_error p,
       ps_next_gateway_seq = next_gateway_seq p, ps_queue_capacity = snap_capacity s,
       ps_queue_count = snap_count s, ps_queue_closed = snap_closed s\<rparr>)"

text \<open>\<open>destroy\<close>: stop and join first when the threads run (\<open>None\<close> while the join waits), then free.\<close>

definition gateway_pipeline_destroy :: "'c gateway_pipeline option \<Rightarrow> 'c gateway_pipeline option option" where
  "gateway_pipeline_destroy pipeline =
     (case pipeline of
        None \<Rightarrow> Some None
      | Some p \<Rightarrow>
        if (producer_created p \<or> consumer_created p) \<and> \<not> joined p
        then (case gateway_pipeline_join (snd (gateway_pipeline_request_stop 0 (Some p))) of
            None \<Rightarrow> None | Some (_, p') \<Rightarrow> Some p')
        else Some (Some p))"

subsection \<open>The contract of a CAN source\<close>

locale can_source =
  fixes receive :: "'e receive_fn"
    and valid_env :: "'e \<Rightarrow> bool"
  assumes ok_record: "valid_env e \<Longrightarrow> receive e sequence = Some (GATEWAY_OK, reason, r) \<Longrightarrow>
    wf_record r \<and> gateway_seq r = sequence \<and>
    status_flags r = GATEWAY_RECORD_STATUS_KERNEL_TIMESTAMP_VALID"

text \<open>Threads only meet at the passes, in any order; requests to stop, start and join come from
  outside, and a stop of the lifecycle alone may come from a signal. A pop never times out when there is no idle callback, since it then waits for ever.\<close>

fun push_event_ok :: "push_event \<Rightarrow> gateway_ring_buffer \<Rightarrow> bool" where
  "push_event_ok Push_lock_failed q = True"
| "push_event_ok (Push_loop_end c) q = loop_exit_push c q"

fun pop_event_ok :: "pop_event \<Rightarrow> 'c gateway_pipeline \<Rightarrow> bool" where
  "pop_event_ok Pop_lock_failed p = True"
| "pop_event_ok (Pop_loop_end c) p \<longleftrightarrow> loop_exit_pop c (queue p) \<and>
     (consume_idle (config p) = None \<longrightarrow> c \<noteq> GATEWAY_ERROR_TIMEOUT)"

inductive pipeline_step ::
    "'e receive_fn \<Rightarrow> ('e \<Rightarrow> bool) \<Rightarrow> 'c gateway_pipeline \<Rightarrow> 'c gateway_pipeline \<Rightarrow> bool"
  for receive valid_env where
  produce: "producer_created p \<Longrightarrow> producer_at p = P_loop \<Longrightarrow> valid_env e \<Longrightarrow>
     producer_pass receive e p = Some p' \<Longrightarrow> pipeline_step receive valid_env p p'"
| push: "producer_at p = P_push r \<Longrightarrow> push_event_ok ev (queue p) \<Longrightarrow>
     pipeline_step receive valid_env p (producer_push r ev p)"
| consume: "consumer_created p \<Longrightarrow> consumer_at p = C_loop \<Longrightarrow> pop_event_ok ev p \<Longrightarrow>
     pipeline_step receive valid_env p (consumer_pass ev p)"
| stop: "pipeline_step receive valid_env p (close_queue (request_lifecycle_stop sig p))"
| request: "pipeline_step receive valid_env p (request_lifecycle_stop sig p)"
| start: "gateway_pipeline_start ok1 ok2 (Some p) = (code, Some p') \<Longrightarrow>
     pipeline_step receive valid_env p p'"
| join: "gateway_pipeline_join (Some p) = Some (code, Some p') \<Longrightarrow>
     pipeline_step receive valid_env p p'"

inductive pipeline_reach ::
    "'e receive_fn \<Rightarrow> ('e \<Rightarrow> bool) \<Rightarrow> 'c gateway_pipeline \<Rightarrow> 'c gateway_pipeline \<Rightarrow> bool"
  for receive valid_env p0 where
  here: "pipeline_reach receive valid_env p0 p0"
| there: "pipeline_reach receive valid_env p0 p \<Longrightarrow> pipeline_step receive valid_env p p' \<Longrightarrow>
     pipeline_reach receive valid_env p0 p'"

subsection \<open>Frame facts\<close>

lemmas pipe_ops = count_def mark_producer_done_def mark_consumer_done_def close_queue_def
  request_lifecycle_stop_def stop_after_worker_error_def producer_leave_def consumer_leave_def

lemma ring_close_frame [simp]:
  "rb_count (ring_close q) = rb_count q" "rb_capacity (ring_close q) = rb_capacity q"
  "rb_closed (ring_close q)" "ring_items (ring_close q) = ring_items q"
  "ring_inv (ring_close q) = ring_inv q" "ring_close (ring_close q) = ring_close q"
  by (simp_all add: ring_close_def ring_items_def ring_inv_def)

lemma ring_close_ledger [simp]: "rq.ledger a b (ring_close q) = rq.ledger a b q"
  by (simp add: rq.ledger_def)

lemma producer_pass_cases:
  assumes "producer_pass receive e p = Some p'"
  obtains (quit) "p' = producer_leave GATEWAY_OK p"
  | (timeout) "p' = count GATEWAY_STAT_CAN_RECEIVE_TIMEOUTS (count GATEWAY_STAT_CAN_RECEIVE_ATTEMPTS p)"
  | (rejected) reason where
      "p' = count (rejection_counter reason) (count GATEWAY_STAT_CAN_RECEIVE_ATTEMPTS p)"
  | (failed) code where "code \<noteq> GATEWAY_OK"
      "p' = producer_leave code (stop_after_worker_error (count GATEWAY_STAT_CAN_RECEIVE_ERRORS
         (count GATEWAY_STAT_CAN_RECEIVE_ATTEMPTS p)))"
  | (received) reason r r' where
      "receive e (next_gateway_seq p) = Some (GATEWAY_OK, reason, r)"
      "gateway_vehicle_decode_record (Some r) = (GATEWAY_DECODE_OK, Some r')"
      "p' = (count GATEWAY_STAT_QUEUE_PUSH_ATTEMPTS (count GATEWAY_STAT_CAN_DECODE_SUCCESS
         (count GATEWAY_STAT_CAN_RECEIVE_SUCCESS (count GATEWAY_STAT_CAN_RECEIVE_ATTEMPTS p))))\<lparr>
           next_gateway_seq := next_gateway_seq p + 1, g_received := g_received p @ [r],
           producer_at := P_push r', g_offered := g_offered p @ [r']\<rparr>"
  | (undecodable) reason r where
      "receive e (next_gateway_seq p) = Some (GATEWAY_OK, reason, r)"
      "p' = (count GATEWAY_STAT_CAN_DECODE_ERRORS (count GATEWAY_STAT_CAN_RECEIVE_SUCCESS
         (count GATEWAY_STAT_CAN_RECEIVE_ATTEMPTS p)))\<lparr>
           next_gateway_seq := next_gateway_seq p + 1, g_received := g_received p @ [r]\<rparr>"
proof (cases "fst (gateway_lifecycle_is_stop_requested True (Some (pl_lifecycle p)) None)")
  case True
  then show ?thesis
    using assms quit by (simp add: producer_pass_def)
next
  case False
  then obtain code reason r where r: "receive e (next_gateway_seq p) = Some (code, reason, r)"
    using assms by (auto simp: producer_pass_def split: option.splits)
  obtain dres dr where d: "gateway_vehicle_decode_record (Some r) = (dres, dr)"
    by (cases "gateway_vehicle_decode_record (Some r)")
  have dr: "dr \<noteq> None" if "dres = GATEWAY_DECODE_OK"
    using d that by (auto simp: decode_record_cases Let_def split: if_splits)
  consider "code = GATEWAY_ERROR_CLOSED" | "code = GATEWAY_ERROR_TIMEOUT"
    | "code = GATEWAY_ERROR_INVALID_VALUE" | "code = GATEWAY_OK \<and> dres = GATEWAY_DECODE_OK"
    | "code = GATEWAY_OK \<and> dres \<noteq> GATEWAY_DECODE_OK"
    | "code \<notin> {GATEWAY_OK, GATEWAY_ERROR_CLOSED, GATEWAY_ERROR_TIMEOUT, GATEWAY_ERROR_INVALID_VALUE}"
    by blast
  then show ?thesis
  proof cases
    case 1 then show ?thesis
      using assms False r quit by (simp add: producer_pass_def)
  next
    case 2 then show ?thesis
      using assms False r timeout by (simp add: producer_pass_def)
  next
    case 3 then show ?thesis
      using assms False r by (intro rejected [of reason]) (simp add: producer_pass_def
          count_can_rejection_def)
  next
    case 4 then show ?thesis
      using assms False r d dr received by (auto simp: producer_pass_def Let_def count_def)
  next
    case 5 then show ?thesis
      using assms False r d undecodable
      by (cases dres) (auto simp: producer_pass_def Let_def count_def)
  next
    case 6 then show ?thesis
      using assms False r by (intro failed [of code]) (simp_all add: producer_pass_def)
  qed
qed

lemma producer_push_cases:
  assumes "push_event_ok ev (queue p)"
  obtains (stored) "rb_count (queue p) \<noteq> rb_capacity (queue p)" "\<not> rb_closed (queue p)"
      "producer_push r ev p = p\<lparr>queue := ring_put r (queue p),
         pl_stats := gateway_stats_update_queue_high_watermark (rb_count (ring_put r (queue p)))
           (gateway_stats_increment GATEWAY_STAT_QUEUE_PUSH_SUCCESS (pl_stats p)),
         g_pushed := g_pushed p @ [r], producer_at := P_loop\<rparr>"
  | (dropped) "producer_push r ev p = (count GATEWAY_STAT_QUEUE_PUSH_TIMEOUTS p)\<lparr>producer_at := P_loop\<rparr>"
  | (stopped) "producer_push r ev p = producer_leave GATEWAY_OK (count GATEWAY_STAT_QUEUE_PUSH_CLOSED p)"
  | (closed) "producer_push r ev p = producer_leave GATEWAY_ERROR_CLOSED
       (stop_after_worker_error (count GATEWAY_STAT_QUEUE_PUSH_CLOSED p))"
  | (failed) "producer_push r ev p = producer_leave GATEWAY_ERROR_SYSTEM
       (stop_after_worker_error (p\<lparr>g_push_failures := g_push_failures p + 1\<rparr>))"
proof (cases ev)
  case Push_lock_failed
  then show ?thesis
    using failed by (simp add: producer_push_def push_complete_def)
next
  case (Push_loop_end c)
  then have c: "loop_exit_push c (queue p)"
    using assms by simp
  consider "c = GATEWAY_OK \<and> rb_closed (queue p)" | "c = GATEWAY_OK \<and> \<not> rb_closed (queue p)"
    | "c = GATEWAY_ERROR_TIMEOUT" | "c = GATEWAY_ERROR_SYSTEM"
    using c by (cases c) auto
  then show ?thesis
  proof cases
    case 1 then show ?thesis
      using Push_loop_end stopped closed
      by (cases "fst (gateway_lifecycle_is_stop_requested True (Some (pl_lifecycle p)) None)")
        (auto simp: producer_push_def push_complete_def push_finish_def count_def Let_def)
  next
    case 2 then show ?thesis
      using Push_loop_end c stored
      by (simp add: producer_push_def push_complete_def push_finish_def Let_def)
  next
    case 3 then show ?thesis
      using Push_loop_end dropped
      by (simp add: producer_push_def push_complete_def push_finish_def count_def)
  next
    case 4 then show ?thesis
      using Push_loop_end failed
      by (simp add: producer_push_def push_complete_def push_finish_def)
  qed
qed

definition take_one :: "'c \<Rightarrow> 'c gateway_pipeline \<Rightarrow> 'c gateway_pipeline" where
  "take_one c p = p\<lparr>queue := snd (ring_get (queue p)),
     pl_stats := gateway_stats_increment GATEWAY_STAT_QUEUE_POP_SUCCESS (pl_stats p),
     sink_state := c, g_consumed := g_consumed p @ [fst (ring_get (queue p))]\<rparr>"

lemma consumer_pass_cases:
  assumes "pop_event_ok ev p"
  obtains (took) c where "rb_count (queue p) \<noteq> 0" "consumer_pass ev p = take_one c p"
      "the (consume_fn (config p)) (sink_state p) (fst (ring_get (queue p))) = (GATEWAY_OK, c)"
  | (rejected) c code where "rb_count (queue p) \<noteq> 0" "code \<noteq> GATEWAY_OK"
      "consumer_pass ev p = consumer_leave code (stop_after_worker_error (take_one c p))"
      "the (consume_fn (config p)) (sink_state p) (fst (ring_get (queue p))) = (code, c)"
  | (drained) "rb_count (queue p) = 0" "rb_closed (queue p)"
      "consumer_pass ev p = consumer_leave GATEWAY_OK (count GATEWAY_STAT_QUEUE_POP_CLOSED p)"
  | (idle) c poll where "consumer_pass ev p = p\<lparr>sink_state := c\<rparr>"
      "consume_idle (config p) = Some poll" "poll (sink_state p) = (GATEWAY_OK, c)"
  | (failed) c code where "code \<noteq> GATEWAY_OK"
      "consumer_pass ev p = consumer_leave code (stop_after_worker_error (p\<lparr>sink_state := c\<rparr>))"
      "c = sink_state p \<or> (\<exists>poll. consume_idle (config p) = Some poll \<and> poll (sink_state p) = (code, c))"
proof -
  have same: "p\<lparr>sink_state := sink_state p\<rparr> = p"
    by simp
  have sys: thesis if "pop_complete ev p = (GATEWAY_ERROR_SYSTEM, None, p)"
    using failed [of GATEWAY_ERROR_SYSTEM "sink_state p"] that same
    by (simp add: consumer_pass_def split: option.splits)
  show ?thesis
  proof (cases ev)
    case Pop_lock_failed
    then show ?thesis
      using sys by (simp add: pop_complete_def)
  next
    case (Pop_loop_end c)
    then have c: "loop_exit_pop c (queue p)"
      "consume_idle (config p) = None \<Longrightarrow> c \<noteq> GATEWAY_ERROR_TIMEOUT"
      using assms by auto
    consider (closed) "c = GATEWAY_OK \<and> rb_count (queue p) = 0"
      | (item) "c = GATEWAY_OK \<and> rb_count (queue p) \<noteq> 0"
      | (time) "c = GATEWAY_ERROR_TIMEOUT" | (system) "c = GATEWAY_ERROR_SYSTEM"
      using c by (cases c) auto
    then show ?thesis
    proof cases
      case closed then show ?thesis
        using Pop_loop_end drained c
        by (simp add: consumer_pass_def pop_complete_def pop_finish_def Let_def count_def)
    next
      case item
      obtain code sc where res:
        "the (consume_fn (config p)) (sink_state p) (fst (ring_get (queue p))) = (code, sc)"
        by (metis surj_pair)
      have "consumer_pass ev p = (if code \<noteq> GATEWAY_OK
          then consumer_leave code (stop_after_worker_error (take_one sc p)) else take_one sc p)"
        using Pop_loop_end item res
        by (simp add: consumer_pass_def pop_complete_def pop_finish_def Let_def case_prod_beta
            consume_record_def take_one_def split: option.splits)
      then show ?thesis
        using item res took rejected by (cases "code = GATEWAY_OK") auto
    next
      case time
      then obtain idle_fn where i: "consume_idle (config p) = Some idle_fn"
        using c by (cases "consume_idle (config p)") auto
      obtain ic sc where "idle_fn (sink_state p) = (ic, sc)"
        by (metis surj_pair)
      then show ?thesis
        using Pop_loop_end time i idle [of sc idle_fn] failed [of ic sc]
        by (cases "ic = GATEWAY_OK")
          (auto simp: consumer_pass_def pop_complete_def pop_finish_def Let_def)
    next
      case system
      then show ?thesis
        using Pop_loop_end sys by (simp add: pop_complete_def pop_finish_def)
    qed
  qed
qed

subsection \<open>Order of the records\<close>

definition pending_push :: "'c gateway_pipeline \<Rightarrow> telemetry_record list" where
  "pending_push p = (case producer_at p of P_push r \<Rightarrow> [r] | _ \<Rightarrow> [])"

definition numbered :: "u64 \<Rightarrow> telemetry_record list \<Rightarrow> bool" where
  "numbered first rs \<longleftrightarrow> map gateway_seq rs = map (\<lambda>i. first + of_nat i) [0..<length rs]"

lemma numbered_snoc:
  "numbered first rs \<Longrightarrow> gateway_seq r = first + of_nat (length rs) \<Longrightarrow> numbered first (rs @ [r])"
  by (simp add: numbered_def)

text \<open>\<open>first\<close> is the sequence number the pipeline started with.\<close>

definition order_ok :: "u64 \<Rightarrow> nat \<Rightarrow> 'c gateway_pipeline \<Rightarrow> bool" where
  "order_ok first cap p \<longleftrightarrow> rq.ledger (g_pushed p) (g_consumed p) (queue p) \<and>
     rb_capacity (queue p) = cap \<and>
     next_gateway_seq p = first + of_nat (length (g_received p)) \<and>
     numbered first (g_received p) \<and>
     subseq (map gateway_seq (g_offered p)) (map gateway_seq (g_received p)) \<and>
     (\<exists>rest. g_offered p = rest @ pending_push p \<and> subseq (g_pushed p) rest)"

lemma order_ok_frame:
  assumes "order_ok first cap p"
    "queue p' = queue p \<or> queue p' = ring_close (queue p)"
    "next_gateway_seq p' = next_gateway_seq p" "g_received p' = g_received p"
    "g_offered p' = g_offered p" "g_pushed p' = g_pushed p" "g_consumed p' = g_consumed p"
    "producer_at p' = producer_at p \<or> (\<forall>r. producer_at p' \<noteq> P_push r)"
  shows "order_ok first cap p'"
proof -
  obtain rest where rest: "g_offered p = rest @ pending_push p" "subseq (g_pushed p) rest"
    using assms(1) by (auto simp: order_ok_def)
  have "\<exists>rest'. g_offered p = rest' @ pending_push p' \<and> subseq (g_pushed p) rest'"
    using assms(8)
  proof
    assume "producer_at p' = producer_at p"
    then show ?thesis
      using rest by (auto simp: pending_push_def)
  next
    assume "\<forall>r. producer_at p' \<noteq> P_push r"
    then have "pending_push p' = []"
      by (simp add: pending_push_def split: producer_point.splits)
    moreover have "subseq (g_pushed p) (g_offered p)"
      using rest by (simp add: subseq_rev_drop_many)
    ultimately show ?thesis by simp
  qed
  then show ?thesis
    using assms by (auto simp: order_ok_def)
qed

lemma order_ok_receive:
  assumes "order_ok first cap p" "producer_at p = P_loop" "gateway_seq r = next_gateway_seq p"
    "queue p' = queue p" "next_gateway_seq p' = next_gateway_seq p + 1"
    "g_received p' = g_received p @ [r]" "g_pushed p' = g_pushed p" "g_consumed p' = g_consumed p"
    "(producer_at p' = P_push r' \<and> g_offered p' = g_offered p @ [r'] \<and> gateway_seq r' = gateway_seq r)
     \<or> (producer_at p' = P_loop \<and> g_offered p' = g_offered p)"
  shows "order_ok first cap p'"
proof -
  have pend: "pending_push p = []"
    using assms(2) by (simp add: pending_push_def)
  have sub: "subseq (map gateway_seq (g_offered p)) (map gateway_seq (g_received p))"
    "subseq (g_pushed p) (g_offered p)"
    using assms(1) pend by (auto simp: order_ok_def)
  show ?thesis
    using assms(9)
  proof
    assume a: "producer_at p' = P_push r' \<and> g_offered p' = g_offered p @ [r'] \<and>
        gateway_seq r' = gateway_seq r"
    then have "subseq (map gateway_seq (g_offered p')) (map gateway_seq (g_received p'))"
      using sub(1) assms(6) by (simp add: list_emb_append_mono)
    then show ?thesis
      using assms a sub(2) by (simp add: order_ok_def pending_push_def numbered_snoc)
  next
    assume a: "producer_at p' = P_loop \<and> g_offered p' = g_offered p"
    then have "subseq (map gateway_seq (g_offered p')) (map gateway_seq (g_received p'))"
      using sub(1) assms(6) by (simp add: subseq_rev_drop_many)
    then show ?thesis
      using assms a sub(2) by (simp add: order_ok_def pending_push_def numbered_snoc)
  qed
qed

lemma order_ok_stored:
  assumes "order_ok first cap p" "producer_at p = P_push r" "rb_count (queue p) \<noteq> rb_capacity (queue p)"
    "queue p' = ring_put r (queue p)" "next_gateway_seq p' = next_gateway_seq p"
    "g_received p' = g_received p" "g_offered p' = g_offered p" "g_pushed p' = g_pushed p @ [r]"
    "g_consumed p' = g_consumed p" "producer_at p' = P_loop"
  shows "order_ok first cap p'"
proof -
  have led: "rq.ledger (g_pushed p) (g_consumed p) (queue p)"
    using assms(1) by (simp add: order_ok_def)
  then have "length (ring_items (queue p)) < rb_capacity (queue p)"
    using assms(3) by (auto simp: rq.ledger_def ring_inv_def)
  from rq.ledger_enq [OF led this, of r] have "rq.ledger (g_pushed p') (g_consumed p') (queue p')"
    using assms by simp
  moreover have "subseq (g_pushed p') (g_offered p')"
    using assms by (auto simp: order_ok_def pending_push_def list_emb_append_mono)
  ultimately show ?thesis
    using assms by (simp add: order_ok_def pending_push_def ring_put_def)
qed

lemma order_ok_taken:
  assumes "order_ok first cap p" "rb_count (queue p) \<noteq> 0"
  shows "order_ok first cap (take_one c p)"
proof -
  have led: "rq.ledger (g_pushed p) (g_consumed p) (queue p)"
    using assms(1) by (simp add: order_ok_def)
  have "ring_items (queue p) \<noteq> []"
    using assms(2) by (metis length_ring_items list.size(3))
  from rq.ledger_deq [OF led this] show ?thesis
    using assms(1) by (simp add: order_ok_def take_one_def pending_push_def ring_get_def)
qed

lemma decode_keeps_seq:
  "gateway_vehicle_decode_record (Some r) = (GATEWAY_DECODE_OK, Some r') \<Longrightarrow> gateway_seq r' = gateway_seq r"
  by (auto simp: decode_record_cases Let_def split: if_splits)

lemmas pipe_frame = count_def producer_leave_def consumer_leave_def mark_producer_done_def
  mark_consumer_done_def close_queue_def request_lifecycle_stop_def stop_after_worker_error_def

lemma start_cases:
  assumes "gateway_pipeline_start ok1 ok2 (Some p) = (code, Some p')"
  obtains (same) "p' = p"
  | (closed) "producer_created p = False" "p' = (close_queue p)\<lparr>consumer_created := False\<rparr>"
  | (started) "p' = p\<lparr>consumer_created := True, producer_created := True\<rparr>"
proof -
  consider "producer_created p \<or> consumer_created p \<or> joined p \<or> \<not> ok1"
    | "\<not> (producer_created p \<or> consumer_created p \<or> joined p)" "ok1" "\<not> ok2"
    | "\<not> (producer_created p \<or> consumer_created p \<or> joined p)" "ok1" "ok2"
    by blast
  then show ?thesis
  proof cases
    case 1 then show ?thesis
      using assms same unfolding gateway_pipeline_start_def by (simp split: if_split_asm)
  next
    case 2 then show ?thesis
      using assms closed unfolding gateway_pipeline_start_def by simp
  next
    case 3 then show ?thesis
      using assms started unfolding gateway_pipeline_start_def by simp
  qed
qed

lemma join_cases:
  assumes "gateway_pipeline_join (Some p) = Some (code, Some p')"
  obtains (same) "p' = p"
  | (joined) "producer_at p = P_exit" "consumer_at p = C_exit" "p' = (close_queue p)\<lparr>joined := True\<rparr>"
proof -
  consider "\<not> producer_created p \<or> \<not> consumer_created p \<or> joined p"
    | "producer_created p" "consumer_created p" "\<not> joined p"
    by blast
  then show ?thesis
  proof cases
    case 1 then show ?thesis
      using assms same unfolding gateway_pipeline_join_def by (simp split: if_split_asm)
  next
    case 2
    then have "producer_at p = P_exit" "consumer_at p = C_exit"
      using assms by (simp_all add: gateway_pipeline_join_def Let_def close_queue_def split: if_split_asm)
    then show ?thesis
      using assms 2 joined by (simp add: gateway_pipeline_join_def Let_def close_queue_def)
  qed
qed

context can_source
begin

lemma step_order_ok:
  assumes "pipeline_step receive valid_env p p'" "order_ok first cap p"
  shows "order_ok first cap p'"
  using assms(1)
proof cases
  case (produce e)
  from produce(4) show ?thesis
  proof (cases rule: producer_pass_cases)
    case (received reason r r')
    show ?thesis
      by (rule order_ok_receive [OF assms(2) produce(2), of r p' r'])
        (use received ok_record [OF produce(3) received(1)] decode_keeps_seq [OF received(2)]
          in \<open>auto simp: count_def\<close>)
  next
    case (undecodable reason r)
    show ?thesis
      by (rule order_ok_receive [OF assms(2) produce(2), of r p' r])
        (use undecodable ok_record [OF produce(3) undecodable(1)] produce(2)
          in \<open>auto simp: count_def\<close>)
  qed (rule order_ok_frame [OF assms(2)]; auto simp: pipe_frame)+
next
  case (push r ev)
  from push(3) show ?thesis
  proof (cases rule: producer_push_cases [of ev p r])
    case stored
    show ?thesis
      by (rule order_ok_stored [OF assms(2) push(2) stored(1)]) (use push(1) stored in simp_all)
  qed (rule order_ok_frame [OF assms(2)]; use push(1) in \<open>auto simp: pipe_frame\<close>)+
next
  case (consume ev)
  from consume(4) show ?thesis
  proof (cases rule: consumer_pass_cases)
    case (took c)
    then show ?thesis
      using consume(1) order_ok_taken [OF assms(2)] by simp
  next
    case (rejected c code)
    show ?thesis
      by (rule order_ok_frame [OF order_ok_taken [OF assms(2) rejected(1), of c]])
        (use consume(1) rejected in \<open>auto simp: pipe_frame\<close>)
  qed (rule order_ok_frame [OF assms(2)]; use consume(1) in \<open>auto simp: pipe_frame\<close>)+
next
  case (stop sig)
  show ?thesis
    by (rule order_ok_frame [OF assms(2)]) (use stop in \<open>auto simp: pipe_frame\<close>)
next
  case (request sig)
  show ?thesis
    by (rule order_ok_frame [OF assms(2)]) (use request in \<open>auto simp: pipe_frame\<close>)
next
  case (start ok1 ok2 code)
  then show ?thesis
    by (cases rule: start_cases)
      (rule order_ok_frame [OF assms(2)]; simp add: pipe_frame)+
next
  case (join code)
  then show ?thesis
    by (cases rule: join_cases)
      (rule order_ok_frame [OF assms(2)]; simp add: pipe_frame)+
qed

end

subsection \<open>Accounting\<close>

definition stat :: "'c gateway_pipeline \<Rightarrow> gateway_stat_counter \<Rightarrow> u64" where
  "stat p c = counters (pl_stats p) c"

definition in_push :: "'c gateway_pipeline \<Rightarrow> u64" where
  "in_push p = (case producer_at p of P_push _ \<Rightarrow> 1 | _ \<Rightarrow> 0)"

text \<open>Each equation determines one counter, modulo \<open>2 ^ 64\<close> like the counters.\<close>

definition accounts_ok :: "'c gateway_pipeline \<Rightarrow> bool" where
  "accounts_ok p \<longleftrightarrow>
     stat p GATEWAY_STAT_CAN_RECEIVE_ATTEMPTS = of_nat (length (g_received p)) +
       stat p GATEWAY_STAT_CAN_RECEIVE_TIMEOUTS + stat p GATEWAY_STAT_CAN_REJECTED_LENGTH +
       stat p GATEWAY_STAT_CAN_REJECTED_DLC + stat p GATEWAY_STAT_CAN_REJECTED_ID +
       stat p GATEWAY_STAT_CAN_TIMESTAMP_ERRORS + stat p GATEWAY_STAT_CAN_RECEIVE_ERRORS \<and>
     stat p GATEWAY_STAT_CAN_RECEIVE_SUCCESS = of_nat (length (g_received p)) \<and>
     stat p GATEWAY_STAT_CAN_DECODE_SUCCESS = of_nat (length (g_offered p)) \<and>
     stat p GATEWAY_STAT_CAN_DECODE_ERRORS =
       of_nat (length (g_received p)) - of_nat (length (g_offered p)) \<and>
     stat p GATEWAY_STAT_QUEUE_PUSH_ATTEMPTS = of_nat (length (g_offered p)) \<and>
     stat p GATEWAY_STAT_QUEUE_PUSH_SUCCESS = of_nat (length (g_pushed p)) \<and>
     stat p GATEWAY_STAT_QUEUE_PUSH_CLOSED = of_nat (length (g_offered p)) -
       of_nat (length (g_pushed p)) - stat p GATEWAY_STAT_QUEUE_PUSH_TIMEOUTS -
       of_nat (g_push_failures p) - in_push p \<and>
     stat p GATEWAY_STAT_QUEUE_POP_SUCCESS = of_nat (length (g_consumed p))"

lemma accounts_ok_frame:
  assumes "accounts_ok p" "pl_stats p' = pl_stats p" "g_received p' = g_received p"
    "g_offered p' = g_offered p" "g_pushed p' = g_pushed p" "g_consumed p' = g_consumed p"
    "g_push_failures p' = g_push_failures p" "in_push p' = in_push p"
  shows "accounts_ok p'"
  using assms by (simp add: accounts_ok_def stat_def)

lemma pass_accounts:
  assumes "producer_pass receive e p = Some p'" "accounts_ok p" "producer_at p = P_loop"
  shows "accounts_ok p'"
  using assms(1)
proof (cases rule: producer_pass_cases)
  case (rejected reason)
  then show ?thesis
    using assms(2) by (cases reason) (simp_all add: accounts_ok_def stat_def count_def in_push_def)
qed (use assms(2,3) in \<open>simp_all add: accounts_ok_def stat_def pipe_frame in_push_def algebra_simps\<close>)

lemma push_accounts:
  assumes "push_event_ok ev (queue p)" "accounts_ok p" "producer_at p = P_push r"
  shows "accounts_ok (producer_push r ev p)"
  using assms(1)
  by (cases rule: producer_push_cases [of ev p r])
    (use assms(2,3) in \<open>simp_all add: accounts_ok_def stat_def pipe_frame in_push_def algebra_simps\<close>)

lemma pop_accounts:
  assumes "pop_event_ok ev p" "accounts_ok p"
  shows "accounts_ok (consumer_pass ev p)"
  using assms(1)
  by (cases rule: consumer_pass_cases)
    (use assms(2) in \<open>simp_all add: accounts_ok_def stat_def pipe_frame in_push_def take_one_def\<close>)

lemma step_accounts_ok:
  assumes "pipeline_step receive valid_env p p'" "accounts_ok p"
  shows "accounts_ok p'"
  using assms(1)
proof cases
  case (produce e)
  show ?thesis
    by (rule pass_accounts [OF produce(4) assms(2) produce(2)])
next
  case (push r ev)
  show ?thesis
    unfolding push(1) by (rule push_accounts [OF push(3) assms(2) push(2)])
next
  case (consume ev)
  show ?thesis
    unfolding consume(1) by (rule pop_accounts [OF consume(4) assms(2)])
next
  case (start ok1 ok2 code)
  then show ?thesis
    by (cases rule: start_cases)
      (rule accounts_ok_frame [OF assms(2)]; simp add: pipe_frame in_push_def)+
next
  case (join code)
  then show ?thesis
    by (cases rule: join_cases)
      (rule accounts_ok_frame [OF assms(2)]; simp add: pipe_frame in_push_def)+
next
  case (stop sig)
  show ?thesis
    by (rule accounts_ok_frame [OF assms(2)]) (simp_all add: stop pipe_frame in_push_def)
next
  case (request sig)
  show ?thesis
    by (rule accounts_ok_frame [OF assms(2)]) (simp_all add: request pipe_frame in_push_def)
qed

subsection \<open>What reaches the consumer\<close>

definition offers_valid :: "'c gateway_pipeline \<Rightarrow> bool" where
  "offers_valid p \<longleftrightarrow> (\<forall>r\<in>set (g_offered p). record_valid r \<and> wf_record r)"

lemma decoded_record_valid:
  assumes "gateway_vehicle_decode_record (Some r) = (GATEWAY_DECODE_OK, Some r')"
    and "status_flags r = GATEWAY_RECORD_STATUS_KERNEL_TIMESTAMP_VALID"
  shows "record_valid r'"
proof -
  have "status_flags r' =
      (GATEWAY_RECORD_STATUS_KERNEL_TIMESTAMP_VALID AND NOT decode_flag_mask) OR decode_flag_mask"
    using assms by (auto simp: decode_record_cases Let_def split: if_splits)
  then show ?thesis
    by (simp add: record_valid_def gateway_vehicle_read_decoded_payload_def status_defs
        decode_flag_mask_def required_status_def)
qed

context can_source
begin

lemma step_offers_valid:
  assumes "pipeline_step receive valid_env p p'" "offers_valid p"
  shows "offers_valid p'"
  using assms(1)
proof cases
  case (produce e)
  from produce(4) show ?thesis
  proof (cases rule: producer_pass_cases)
    case (received reason r r')
    then show ?thesis
      using assms(2) decoded_record_valid [OF received(2)] ok_record [OF produce(3) received(1)]
        wf_decode_record_result [OF _ received(2)]
      by (simp add: offers_valid_def pipe_frame)
  qed (use assms(2) in \<open>simp_all add: offers_valid_def pipe_frame\<close>)
next
  case (push r ev)
  from push(3) show ?thesis
    by (cases rule: producer_push_cases [of ev p r])
      (use assms(2) push(1) in \<open>simp_all add: offers_valid_def pipe_frame\<close>)
next
  case (consume ev)
  from consume(4) show ?thesis
    by (cases rule: consumer_pass_cases)
      (use assms(2) consume(1) in \<open>simp_all add: offers_valid_def pipe_frame take_one_def\<close>)
next
  case (start ok1 ok2 code)
  then show ?thesis
    by (cases rule: start_cases) (use assms(2) in \<open>simp_all add: offers_valid_def pipe_frame\<close>)
next
  case (join code)
  then show ?thesis
    by (cases rule: join_cases) (use assms(2) in \<open>simp_all add: offers_valid_def pipe_frame\<close>)
next
  case (stop sig)
  then show ?thesis
    using assms(2) by (simp add: offers_valid_def pipe_frame)
next
  case (request sig)
  then show ?thesis
    using assms(2) by (simp add: offers_valid_def pipe_frame)
qed

end

definition shutdown_ok :: "'c gateway_pipeline \<Rightarrow> bool" where
  "shutdown_ok p \<longleftrightarrow> (producer_done p \<longleftrightarrow> producer_at p = P_exit) \<and>
     (consumer_done p \<longleftrightarrow> consumer_at p = C_exit) \<and>
     (producer_at p = P_exit \<longrightarrow> rb_closed (queue p)) \<and>
     (consumer_at p = C_exit \<and> consumer_error p = GATEWAY_OK \<longrightarrow>
        rb_closed (queue p) \<and> rb_count (queue p) = 0) \<and>
     (joined p \<longrightarrow> producer_at p = P_exit \<and> consumer_at p = C_exit)"

lemma consumer_shutdown_ok:
  assumes "pop_event_ok ev p" "consumer_at p = C_loop" "shutdown_ok p"
  shows "shutdown_ok (consumer_pass ev p)"
  using assms(1)
  by (cases rule: consumer_pass_cases)
    (use assms(2,3) in \<open>auto simp: shutdown_ok_def pipe_frame take_one_def ring_get_def\<close>)

lemma push_shutdown_ok:
  assumes "push_event_ok ev (queue p)" "producer_at p = P_push r" "shutdown_ok p"
  shows "shutdown_ok (producer_push r ev p)"
  using assms(1)
  by (cases rule: producer_push_cases [of ev p r])
    (use assms(2,3) in \<open>auto simp: shutdown_ok_def pipe_frame ring_put_def\<close>)

lemma pass_shutdown_ok:
  assumes "producer_pass receive e p = Some p'" "producer_at p = P_loop" "shutdown_ok p"
  shows "shutdown_ok p'"
  using assms(1)
  by (cases rule: producer_pass_cases)
    (use assms(2,3) in \<open>simp_all add: shutdown_ok_def pipe_frame\<close>)

lemma step_shutdown_ok:
  assumes "pipeline_step receive valid_env p p'" "shutdown_ok p"
  shows "shutdown_ok p'"
  using assms(1)
proof cases
  case (produce e)
  show ?thesis
    by (rule pass_shutdown_ok [OF produce(4,2) assms(2)])
next
  case (push r ev)
  show ?thesis
    unfolding push(1) by (rule push_shutdown_ok [OF push(3,2) assms(2)])
next
  case (consume ev)
  show ?thesis
    unfolding consume(1) by (rule consumer_shutdown_ok [OF consume(4,3) assms(2)])
next
  case (start ok1 ok2 code)
  then show ?thesis
    by (cases rule: start_cases) (use assms(2) in \<open>simp_all add: shutdown_ok_def pipe_frame\<close>)
next
  case (join code)
  then show ?thesis
    by (cases rule: join_cases) (use assms(2) in \<open>simp_all add: shutdown_ok_def pipe_frame\<close>)
next
  case (stop sig)
  then show ?thesis
    using assms(2) by (simp add: shutdown_ok_def pipe_frame)
next
  case (request sig)
  then show ?thesis
    using assms(2) by (simp add: shutdown_ok_def pipe_frame)
qed

lemma reach_invariant:
  assumes "pipeline_reach receive valid_env p0 p" "I p0"
    and "\<And>p p'. pipeline_step receive valid_env p p' \<Longrightarrow> I p \<Longrightarrow> I p'"
  shows "I p"
  using assms by (induction rule: pipeline_reach.induct) blast+

definition created :: "'c gateway_pipeline_config \<Rightarrow> 'c gateway_pipeline \<Rightarrow> bool" where
  "created cfg p0 \<longleftrightarrow> (\<exists>env l sink.
     gateway_pipeline_create env True True True l zero_stats sink (Some cfg) = (GATEWAY_OK, Some p0))"

definition first_seq :: "'c gateway_pipeline_config \<Rightarrow> u64" where
  "first_seq cfg = (if initial_gateway_seq cfg = 0 then 1 else initial_gateway_seq cfg)"

lemma created_fields:
  assumes "created cfg p0"
  shows "ring_inv (queue p0) \<and> rb_count (queue p0) = 0 \<and> rb_capacity (queue p0) = queue_capacity cfg \<and>
     g_received p0 = [] \<and> g_offered p0 = [] \<and> g_pushed p0 = [] \<and> g_consumed p0 = [] \<and>
     g_push_failures p0 = 0 \<and> next_gateway_seq p0 = first_seq cfg \<and> producer_at p0 = P_loop \<and>
     consumer_at p0 = C_loop \<and> pl_stats p0 = zero_stats \<and> \<not> producer_done p0 \<and>
     \<not> consumer_done p0 \<and> \<not> joined p0 \<and> config p0 = cfg \<and> consumer_error p0 = GATEWAY_OK"
proof -
  obtain env l sink where c: "gateway_pipeline_create env True True True l zero_stats sink (Some cfg) =
      (GATEWAY_OK, Some p0)"
    using assms by (auto simp: created_def)
  obtain code qo where q: "gateway_ring_buffer_create env True (queue_capacity cfg) True = (code, qo)"
    by (metis surj_pair)
  obtain q' where "code = GATEWAY_OK" "qo = Some q'" "p0 = fresh_pipeline cfg q' zero_stats l sink"
    using c unfolding gateway_pipeline_create_def q option.case prod.case
    by (cases code; cases qo) (simp_all split: if_split_asm)
  then show ?thesis
    using created_ring [of env "queue_capacity cfg" q'] q by (simp add: fresh_pipeline_def first_seq_def)
qed

lemma created_ok:
  assumes "created cfg p0"
  shows "order_ok (first_seq cfg) (queue_capacity cfg) p0 \<and> accounts_ok p0 \<and> offers_valid p0 \<and>
     shutdown_ok p0"
proof -
  have "ring_items (queue p0) = []"
    using created_fields [OF assms] by (metis length_0_conv length_ring_items)
  then show ?thesis
    using created_fields [OF assms]
    by (simp add: order_ok_def rq.ledger_def numbered_def pending_push_def accounts_ok_def stat_def
        zero_stats_def in_push_def offers_valid_def shutdown_ok_def)
qed

subsection \<open>Stopping\<close>

lemma reach_trans:
  assumes "pipeline_reach receive valid_env p q" "pipeline_reach receive valid_env q s"
  shows "pipeline_reach receive valid_env p s"
  using assms(2,1) by (induction rule: pipeline_reach.induct) (auto intro: pipeline_reach.there)

lemma reach_step: "pipeline_step receive valid_env p p' \<Longrightarrow> pipeline_reach receive valid_env p p'"
  by (rule pipeline_reach.there [OF pipeline_reach.here])

lemma pop_item_pass:
  assumes "rb_count (queue p) \<noteq> 0"
    "the (consume_fn (config p)) (sink_state p) (fst (ring_get (queue p))) = (GATEWAY_OK, c)"
  shows "consumer_pass (Pop_loop_end GATEWAY_OK) p = take_one c p"
  using assms by (simp add: consumer_pass_def pop_complete_def pop_finish_def Let_def case_prod_beta
      consume_record_def take_one_def split: option.splits)

lemma pop_drained_pass:
  assumes "rb_count (queue p) = 0" "rb_closed (queue p)"
  shows "consumer_pass (Pop_loop_end GATEWAY_OK) p =
     consumer_leave GATEWAY_OK (count GATEWAY_STAT_QUEUE_POP_CLOSED p)"
  using assms by (simp add: consumer_pass_def pop_complete_def pop_finish_def Let_def count_def)

definition sink_never_fails :: "'c gateway_pipeline_config \<Rightarrow> bool" where
  "sink_never_fails cfg \<longleftrightarrow> (\<forall>c r. fst (the (consume_fn cfg) c r) = GATEWAY_OK)"

lemma consumer_drains:
  assumes "rb_count (queue p) = n" "rb_closed (queue p)" "consumer_created p" "producer_created p"
    "consumer_at p = C_loop" "sink_never_fails (config p)" "producer_at p = P_exit" "\<not> joined p"
  shows "\<exists>p'. pipeline_reach receive valid_env p p' \<and> consumer_at p' = C_exit \<and>
     consumer_error p' = GATEWAY_OK \<and> producer_error p' = producer_error p \<and>
     producer_at p' = P_exit \<and> consumer_created p' \<and> producer_created p' \<and> \<not> joined p'"
  using assms
proof (induction n arbitrary: p)
  case 0
  let ?p' = "consumer_pass (Pop_loop_end GATEWAY_OK) p"
  have eq: "?p' = consumer_leave GATEWAY_OK (count GATEWAY_STAT_QUEUE_POP_CLOSED p)"
    using 0 by (intro pop_drained_pass) auto
  have "pipeline_reach receive valid_env p ?p'"
    using 0 by (intro reach_step pipeline_step.consume) auto
  then show ?case
    unfolding eq using 0
    by (intro exI [of _ "consumer_leave GATEWAY_OK (count GATEWAY_STAT_QUEUE_POP_CLOSED p)"])
      (simp add: pipe_frame)
next
  case (Suc n)
  let ?p1 = "consumer_pass (Pop_loop_end GATEWAY_OK) p"
  obtain code c where res:
    "the (consume_fn (config p)) (sink_state p) (fst (ring_get (queue p))) = (code, c)"
    by (metis surj_pair)
  have "code = GATEWAY_OK"
    using Suc.prems(6) res unfolding sink_never_fails_def by (metis fst_conv)
  then have eq: "?p1 = take_one c p"
    using Suc.prems(1) res by (intro pop_item_pass) auto
  have step: "pipeline_reach receive valid_env p ?p1"
    using Suc.prems by (intro reach_step pipeline_step.consume) auto
  have "\<exists>p'. pipeline_reach receive valid_env ?p1 p' \<and> consumer_at p' = C_exit \<and>
     consumer_error p' = GATEWAY_OK \<and> producer_error p' = producer_error ?p1 \<and>
     producer_at p' = P_exit \<and> consumer_created p' \<and> producer_created p' \<and> \<not> joined p'"
    unfolding eq by (rule Suc.IH) (use Suc.prems in \<open>simp_all add: take_one_def ring_get_def\<close>)
  moreover have "producer_error ?p1 = producer_error p"
    by (simp add: eq take_one_def)
  ultimately show ?case
    using reach_trans [OF step] by metis
qed

lemma step_config: "pipeline_step receive valid_env p p' \<Longrightarrow> config p' = config p"
proof (induction rule: pipeline_step.induct)
  case (produce p e p')
  from produce(4) show ?case
    by (cases rule: producer_pass_cases) (simp_all add: pipe_frame)
next
  case (push p r ev)
  from push(2) show ?case
    by (cases rule: producer_push_cases [of ev p r]) (simp_all add: pipe_frame)
next
  case (consume p ev)
  from consume(3) show ?case
    by (cases rule: consumer_pass_cases) (simp_all add: pipe_frame take_one_def)
next
  case (start ok1 ok2 p code p')
  then show ?case
    by (cases rule: start_cases) (simp_all add: pipe_frame)
next
  case (join p code p')
  then show ?case
    by (cases rule: join_cases) (simp_all add: pipe_frame)
qed (simp_all add: pipe_frame)

lemma stop_requested_after: "stop_requested (pl_lifecycle (close_queue (request_lifecycle_stop sig p)))"
  by (simp add: pipe_frame gateway_lifecycle_request_stop_def)

lemma producer_stops:
  assumes "rb_closed (queue p)" "stop_requested (pl_lifecycle p)" "producer_created p"
    "producer_at p \<noteq> P_exit" "valid_env e"
  shows "\<exists>p'. pipeline_reach receive valid_env p p' \<and> producer_at p' = P_exit \<and>
     producer_error p' = GATEWAY_OK \<and> rb_closed (queue p') \<and> consumer_at p' = consumer_at p \<and>
     consumer_created p' = consumer_created p \<and> producer_created p' \<and> joined p' = joined p \<and>
     config p' = config p \<and> consumer_error p' = consumer_error p"
proof (cases "producer_at p")
  case P_loop
  have eq: "producer_pass receive e p = Some (producer_leave GATEWAY_OK p)"
    using assms(2) by (simp add: producer_pass_def gateway_lifecycle_is_stop_requested_def)
  have "pipeline_reach receive valid_env p (producer_leave GATEWAY_OK p)"
    by (rule reach_step, rule pipeline_step.produce [where e = e]) (use assms P_loop eq in simp_all)
  then show ?thesis
    using assms by (intro exI [of _ "producer_leave GATEWAY_OK p"]) (simp add: pipe_frame)
next
  case (P_push r)
  let ?p' = "producer_push r (Push_loop_end GATEWAY_OK) p"
  have eq: "?p' = producer_leave GATEWAY_OK (count GATEWAY_STAT_QUEUE_PUSH_CLOSED p)"
    using assms by (simp add: producer_push_def push_complete_def push_finish_def Let_def count_def
        gateway_lifecycle_is_stop_requested_def)
  have "pipeline_reach receive valid_env p ?p'"
    using assms(1) P_push by (intro reach_step pipeline_step.push) auto
  then show ?thesis
    unfolding eq using assms
    by (intro exI [of _ "producer_leave GATEWAY_OK (count GATEWAY_STAT_QUEUE_PUSH_CLOSED p)"])
      (simp add: pipe_frame)
qed (use assms in simp)

lemma stop_leads_to_join:
  assumes "producer_created p" "consumer_created p" "\<not> joined p" "producer_at p \<noteq> P_exit"
    "consumer_at p = C_loop" "sink_never_fails (config p)" "valid_env e"
  shows "\<exists>p'. pipeline_reach receive valid_env
       (the (snd (gateway_pipeline_request_stop sig (Some p)))) p' \<and>
     joined p' \<and> producer_error p' = GATEWAY_OK \<and> consumer_error p' = GATEWAY_OK"
proof -
  let ?s = "close_queue (request_lifecycle_stop sig p)"
  have s: "the (snd (gateway_pipeline_request_stop sig (Some p))) = ?s"
    by (simp add: gateway_pipeline_request_stop_def)
  have f: "rb_closed (queue ?s)" "producer_created ?s" "producer_at ?s \<noteq> P_exit"
    "consumer_at ?s = C_loop" "consumer_created ?s" "config ?s = config p" "\<not> joined ?s"
    using assms by (simp_all add: close_queue_def request_lifecycle_stop_def)
  obtain p1 where p1: "pipeline_reach receive valid_env ?s p1" "producer_at p1 = P_exit"
    "producer_error p1 = GATEWAY_OK" "rb_closed (queue p1)" "consumer_at p1 = C_loop"
    "consumer_created p1" "producer_created p1" "\<not> joined p1" "config p1 = config p"
    using producer_stops [where receive = receive and valid_env = valid_env, OF f(1)
        stop_requested_after f(2,3) assms(7)] f by metis
  obtain p2 where p2: "pipeline_reach receive valid_env p1 p2" "consumer_at p2 = C_exit"
    "consumer_error p2 = GATEWAY_OK" "producer_error p2 = GATEWAY_OK" "producer_at p2 = P_exit"
    "consumer_created p2" "producer_created p2" "\<not> joined p2"
    using consumer_drains [where receive = receive and valid_env = valid_env, OF refl p1(4,6,7,5)]
      p1 assms(6) by metis
  let ?j = "(close_queue p2)\<lparr>joined := True\<rparr>"
  have "gateway_pipeline_join (Some p2) = Some (GATEWAY_OK, Some ?j)"
    using p2 by (simp add: gateway_pipeline_join_def Let_def close_queue_def)
  then have "pipeline_reach receive valid_env p2 ?j"
    by (intro reach_step pipeline_step.join)
  then have "pipeline_reach receive valid_env ?s ?j"
    using reach_trans p1(1) p2(1) by metis
  then show ?thesis
    unfolding s using p2 by (intro exI [of _ ?j]) (simp add: close_queue_def)
qed

subsection \<open>The SocketCAN receiver as the source\<close>

type_synonym socket_env = "poll_outcome list \<times> recv_outcome list"

definition socket_receive :: "gateway_can_receiver \<Rightarrow> int \<Rightarrow> socket_env receive_fn" where
  "socket_receive rx timeout_ms env sequence =
     map_option (\<lambda>(code, reason, r). (code, the reason, the r))
       (gateway_can_receiver_receive (fst env) (snd env) (Some rx) timeout_ms sequence
         (Some zero_record) (Some GATEWAY_CAN_REJECT_NONE))"

text \<open>The data field of a received frame has its eight bytes.\<close>

definition valid_socket_env :: "socket_env \<Rightarrow> bool" where
  "valid_socket_env env \<longleftrightarrow>
     list_all (\<lambda>o1. case o1 of Recv_datagram g \<Rightarrow> length (frame_data g) = 8 | _ \<Rightarrow> True) (snd env)"

interpretation socket: can_source "socket_receive rx timeout_ms" valid_socket_env for rx timeout_ms
proof
  fix e sequence reason r
  assume valid: "valid_socket_env e"
    and ok: "socket_receive rx timeout_ms e sequence = Some (GATEWAY_OK, reason, r)"
  obtain rej r1 where call: "gateway_can_receiver_receive (fst e) (snd e) (Some rx) timeout_ms sequence
      (Some zero_record) (Some GATEWAY_CAN_REJECT_NONE) = Some (GATEWAY_OK, rej, r1)" "r = the r1"
    using ok by (auto simp: socket_receive_def)
  obtain g ns where g: "Recv_datagram g \<in> set (snd e)"
    "r = zero_record\<lparr>gateway_seq := sequence, kernel_timestamp_ns := of_int ns,
       can_id := frame_can_id g, data := take GATEWAY_CAN_DATA_SIZE (frame_data g),
       status_flags := GATEWAY_RECORD_STATUS_KERNEL_TIMESTAMP_VALID,
       dlc := frame_dlc g, ecu_counter := frame_data g ! 6\<rparr>"
    using receive_cases [OF call(1)] call(2) by auto
  have "length (frame_data g) = 8"
    using valid g(1) by (fastforce simp: valid_socket_env_def list_all_iff)
  then show "wf_record r \<and> gateway_seq r = sequence \<and>
      status_flags r = GATEWAY_RECORD_STATUS_KERNEL_TIMESTAMP_VALID"
    by (simp add: g(2) wf_record_def record_sizes zero_record_def)
qed

subsection \<open>Properties\<close>

lemma reach_order_ok:
  assumes "created cfg p0" "pipeline_reach (socket_receive rx t) valid_socket_env p0 p"
  shows "order_ok (first_seq cfg) (queue_capacity cfg) p \<and> offers_valid p"
proof
  have start: "order_ok (first_seq cfg) (queue_capacity cfg) p0" "offers_valid p0"
    using created_ok [OF assms(1)] by blast+
  show "order_ok (first_seq cfg) (queue_capacity cfg) p"
    using assms(2) start(1)
    by (rule reach_invariant) (rule socket.step_order_ok)
  show "offers_valid p"
    using assms(2) start(2)
    by (rule reach_invariant) (rule socket.step_offers_valid)
qed

text \<open>A concrete run: one frame is received, stored and consumed, then the pipeline is stopped.\<close>

definition demo_datagram :: can_datagram where
  "demo_datagram = sample_datagram\<lparr>frame_data := [1, 2, 3, 4, 5, 6, 7, 0]\<rparr>"

definition demo_env :: socket_env where
  "demo_env = ([Poll_ready True], [Recv_datagram demo_datagram])"

definition demo_config :: "unit gateway_pipeline_config" where
  "demo_config = \<lparr>queue_capacity = 2, queue_push_timeout_ms = 0, receive_timeout_ms = 100,
     receive_given = True, consume_fn = Some (\<lambda>c r. (GATEWAY_OK, c)), consumer_idle_timeout_ms = 0,
     consume_idle = None, lifecycle_given = True, stats_given = True, initial_gateway_seq = 5\<rparr>"

abbreviation demo_receive :: "socket_env receive_fn" where
  "demo_receive \<equiv> socket_receive \<lparr>fd = 3\<rparr> 100"

definition demo_p0 :: "unit gateway_pipeline" where
  "demo_p0 = fresh_pipeline demo_config \<lparr>rb_records = replicate 2 zero_record, rb_capacity = 2,
     rb_head = 0, rb_tail = 0, rb_count = 0, rb_closed = False,
     rb_condition_clock = CLOCK_MONOTONIC\<rparr> zero_stats cleared_lifecycle ()"

definition demo_p1 :: "unit gateway_pipeline" where
  "demo_p1 = demo_p0\<lparr>consumer_created := True, producer_created := True\<rparr>"

definition demo_p2 :: "unit gateway_pipeline" where
  "demo_p2 = the (producer_pass demo_receive demo_env demo_p1)"

definition demo_record :: telemetry_record where
  "demo_record = hd (pending_push demo_p2)"

definition demo_p3 :: "unit gateway_pipeline" where
  "demo_p3 = producer_push demo_record (Push_loop_end GATEWAY_OK) demo_p2"

definition demo_p4 :: "unit gateway_pipeline" where
  "demo_p4 = consumer_pass (Pop_loop_end GATEWAY_OK) demo_p3"

lemma demo_created: "created demo_config demo_p0"
proof -
  have "gateway_pipeline_create all_ok_env True True True cleared_lifecycle zero_stats ()
      (Some demo_config) = (GATEWAY_OK, Some demo_p0)"
    by (simp add: gateway_pipeline_create_def demo_config_def gateway_ring_buffer_create_def
        all_ok_env_def demo_p0_def)
  then show ?thesis
    unfolding created_def by blast
qed

lemma demo_points:
  "producer_at demo_p2 = P_push demo_record"
  "loop_exit_push GATEWAY_OK (queue demo_p2)"
  "consumer_created demo_p3" "consumer_at demo_p3 = C_loop"
  "loop_exit_pop GATEWAY_OK (queue demo_p3)"
  by code_simp+

lemma demo_pass: "producer_pass demo_receive demo_env demo_p1 = Some demo_p2"
proof -
  have "producer_pass demo_receive demo_env demo_p1 \<noteq> None"
    by code_simp
  then show ?thesis
    by (simp add: demo_p2_def)
qed

lemma demo_reach:
  "pipeline_reach demo_receive valid_socket_env demo_p0 demo_p4"
proof -
  have s1: "pipeline_step demo_receive valid_socket_env demo_p0 demo_p1"
    by (rule pipeline_step.start [of True True _ GATEWAY_OK])
      (simp add: gateway_pipeline_start_def demo_p0_def fresh_pipeline_def demo_p1_def)
  have "valid_socket_env demo_env"
    by (simp add: valid_socket_env_def demo_env_def demo_datagram_def)
  then have s2: "pipeline_step demo_receive valid_socket_env demo_p1 demo_p2"
    by (rule pipeline_step.produce [rotated 2])
      (simp_all add: demo_pass, simp_all add: demo_p1_def demo_p0_def fresh_pipeline_def)
  have s3: "pipeline_step demo_receive valid_socket_env demo_p2 demo_p3"
    unfolding demo_p3_def
    by (rule pipeline_step.push [OF demo_points(1)])
      (simp only: push_event_ok.simps demo_points(2))
  have s4: "pipeline_step demo_receive valid_socket_env demo_p3 demo_p4"
    unfolding demo_p4_def
    by (rule pipeline_step.consume [OF demo_points(3,4)])
      (simp only: pop_event_ok.simps demo_points(5) gateway_error_code.simps simp_thms not_False_eq_True)
  show ?thesis
    by (rule pipeline_reach.there [OF pipeline_reach.there [OF pipeline_reach.there
          [OF reach_step [OF s1] s2] s3] s4])
qed

text \<open>C4: In every interleaving of the two threads, with the SocketCAN receiver as source, the
  received records are numbered consecutively from the configured first sequence number; the
  records handed to the consumer, followed by those still queued, are those stored, a subsequence
  of the received ones in the same order; and every record handed to the consumer is stamped,
  checksummed and decoded, so that the mock sink never rejects one.\<close>

theorem pipeline_delivers_in_order:
  assumes "created cfg p0" and "pipeline_reach (socket_receive rx t) valid_socket_env p0 p"
  shows "g_pushed p = g_consumed p @ ring_items (queue p) \<and>
     subseq (map gateway_seq (g_consumed p)) (map gateway_seq (g_received p)) \<and>
     map gateway_seq (g_received p) =
       map (\<lambda>i. first_seq cfg + of_nat i) [0..<length (g_received p)] \<and>
     rb_count (queue p) \<le> queue_capacity cfg \<and>
     (\<forall>r\<in>set (g_consumed p). record_valid r)"
proof -
  have ok: "order_ok (first_seq cfg) (queue_capacity cfg) p" "offers_valid p"
    using reach_order_ok [OF assms] by auto
  then obtain rest where rest: "g_offered p = rest @ pending_push p" "subseq (g_pushed p) rest"
    by (auto simp: order_ok_def)
  have led: "ring_inv (queue p)" "g_pushed p = g_consumed p @ ring_items (queue p)"
    using ok by (simp_all add: order_ok_def rq.ledger_def)
  have "subseq (g_consumed p) (g_pushed p)"
    using led(2) by (simp add: subseq_rev_drop_many)
  moreover have "subseq (g_pushed p) (g_offered p)"
    using rest by (simp add: subseq_rev_drop_many)
  ultimately have sub: "subseq (g_consumed p) (g_offered p)"
    by (rule subseq_order.order_trans)
  have "subseq (map gateway_seq (g_consumed p)) (map gateway_seq (g_offered p))"
    using sub by (rule subseq_map)
  then have "subseq (map gateway_seq (g_consumed p)) (map gateway_seq (g_received p))"
    using ok(1) unfolding order_ok_def by (blast intro: subseq_order.order_trans)
  moreover have "set (g_consumed p) \<subseteq> set (g_offered p)"
    using sub by (auto elim!: list_emb_set)
  moreover have "numbered (first_seq cfg) (g_received p)" "rb_count (queue p) \<le> queue_capacity cfg"
    using ok(1) led(1) by (simp_all add: order_ok_def ring_inv_def)
  moreover have "\<forall>r\<in>set (g_offered p). record_valid r"
    using ok(2) by (simp add: offers_valid_def)
  ultimately show ?thesis
    using led(2) unfolding numbered_def by blast
qed

lemma pipeline_delivers_in_order_witness:
  "length (g_consumed demo_p4) = 1 \<and> map gateway_seq (g_received demo_p4) = [5] \<and>
     record_valid (hd (g_consumed demo_p4))"
proof -
  have n: "length (g_consumed demo_p4) = 1" "length (g_received demo_p4) = 1"
    by code_simp+
  then have "hd (g_consumed demo_p4) \<in> set (g_consumed demo_p4)" by (intro hd_in_set) auto
  then show ?thesis
    using pipeline_delivers_in_order [OF demo_created demo_reach]
    by (simp add: n first_seq_def demo_config_def)
qed

text \<open>C24: Every received frame is accounted for by the counters in every reachable state: attempts
  split into successes, time-outs, rejections and errors; successes into decoded and undecodable
  records; decoded records into those stored, dropped on a full queue, refused by a closed queue,
  lost to a system error, and the one being pushed.\<close>

theorem pipeline_accounting:
  assumes "created cfg p0" and "pipeline_reach (socket_receive rx t) valid_socket_env p0 p"
  shows "stat p GATEWAY_STAT_CAN_RECEIVE_ATTEMPTS = stat p GATEWAY_STAT_CAN_RECEIVE_SUCCESS +
       stat p GATEWAY_STAT_CAN_RECEIVE_TIMEOUTS + stat p GATEWAY_STAT_CAN_REJECTED_LENGTH +
       stat p GATEWAY_STAT_CAN_REJECTED_DLC + stat p GATEWAY_STAT_CAN_REJECTED_ID +
       stat p GATEWAY_STAT_CAN_TIMESTAMP_ERRORS + stat p GATEWAY_STAT_CAN_RECEIVE_ERRORS \<and>
     stat p GATEWAY_STAT_CAN_RECEIVE_SUCCESS =
       stat p GATEWAY_STAT_CAN_DECODE_SUCCESS + stat p GATEWAY_STAT_CAN_DECODE_ERRORS \<and>
     stat p GATEWAY_STAT_CAN_DECODE_SUCCESS = stat p GATEWAY_STAT_QUEUE_PUSH_SUCCESS +
       stat p GATEWAY_STAT_QUEUE_PUSH_TIMEOUTS + stat p GATEWAY_STAT_QUEUE_PUSH_CLOSED +
       of_nat (g_push_failures p) + in_push p \<and>
     stat p GATEWAY_STAT_QUEUE_PUSH_SUCCESS = stat p GATEWAY_STAT_QUEUE_POP_SUCCESS +
       of_nat (rb_count (queue p)) \<and>
     stat p GATEWAY_STAT_QUEUE_POP_SUCCESS = of_nat (length (g_consumed p))"
proof -
  have acc: "accounts_ok p"
    using assms(2) created_ok [OF assms(1), THEN conjunct2, THEN conjunct1]
    by (rule reach_invariant) (rule step_accounts_ok)
  have "length (g_pushed p) = length (g_consumed p) + rb_count (queue p)"
    using reach_order_ok [OF assms] by (simp add: order_ok_def rq.ledger_def)
  then show ?thesis
    using acc by (simp add: accounts_ok_def)
qed

lemma pipeline_accounting_witness:
  "stat demo_p4 GATEWAY_STAT_CAN_DECODE_SUCCESS = stat demo_p4 GATEWAY_STAT_QUEUE_PUSH_SUCCESS +
     stat demo_p4 GATEWAY_STAT_QUEUE_PUSH_TIMEOUTS + stat demo_p4 GATEWAY_STAT_QUEUE_PUSH_CLOSED +
     of_nat (g_push_failures demo_p4) + in_push demo_p4"
  using pipeline_accounting [OF demo_created demo_reach] by blast

text \<open>C10: When the pipeline has been joined and the consumer ended without an error, the queue is
  empty and every record that was ever stored has been handed to the consumer.\<close>

theorem pipeline_shutdown_drains:
  assumes "created cfg p0" and "pipeline_reach (socket_receive rx t) valid_socket_env p0 p"
    and "joined p" and "consumer_error p = GATEWAY_OK"
  shows "g_consumed p = g_pushed p \<and> rb_count (queue p) = 0 \<and> rb_closed (queue p) \<and>
     producer_done p \<and> consumer_done p"
proof -
  have sh: "shutdown_ok p"
    using assms(2) created_ok [OF assms(1), THEN conjunct2, THEN conjunct2, THEN conjunct2]
    by (rule reach_invariant) (rule step_shutdown_ok)
  then have "rb_count (queue p) = 0"
    using assms(3,4) by (simp add: shutdown_ok_def)
  then have "ring_items (queue p) = []"
    by (metis length_0_conv length_ring_items)
  then show ?thesis
    using sh assms(3,4) reach_order_ok [OF assms(1,2)]
    by (auto simp: shutdown_ok_def order_ok_def rq.ledger_def)
qed

lemma demo_stopped:
  "\<exists>p. pipeline_reach demo_receive valid_socket_env demo_p0 p \<and> joined p \<and>
     producer_error p = GATEWAY_OK \<and> consumer_error p = GATEWAY_OK"
proof -
  have v: "valid_socket_env demo_env"
    by (simp add: valid_socket_env_def demo_env_def demo_datagram_def)
  have at: "producer_created demo_p4" "consumer_created demo_p4" "\<not> joined demo_p4"
    "producer_at demo_p4 \<noteq> P_exit" "consumer_at demo_p4 = C_loop"
    by code_simp+
  have "config demo_p4 = config demo_p0"
    using demo_reach
    by (rule reach_invariant [where I = "\<lambda>p. config p = config demo_p0"]) (simp_all add: step_config)
  then have never: "sink_never_fails (config demo_p4)"
    by (simp add: sink_never_fails_def demo_p0_def fresh_pipeline_def demo_config_def)
  obtain p where p: "pipeline_reach demo_receive valid_socket_env
      (the (snd (gateway_pipeline_request_stop 15 (Some demo_p4)))) p"
    "joined p" "producer_error p = GATEWAY_OK" "consumer_error p = GATEWAY_OK"
    using stop_leads_to_join [where receive = demo_receive and valid_env = valid_socket_env and sig = 15,
        OF at never v] by blast
  have "pipeline_step demo_receive valid_socket_env demo_p4
      (the (snd (gateway_pipeline_request_stop 15 (Some demo_p4))))"
    by (simp add: gateway_pipeline_request_stop_def pipeline_step.stop)
  then show ?thesis
    using p reach_trans [OF pipeline_reach.there [OF demo_reach]] by blast
qed

lemma pipeline_shutdown_drains_witness:
  "\<exists>p. pipeline_reach demo_receive valid_socket_env demo_p0 p \<and> g_consumed p = g_pushed p \<and>
     consumer_done p"
proof -
  obtain p where p: "pipeline_reach demo_receive valid_socket_env demo_p0 p" "joined p"
    "consumer_error p = GATEWAY_OK"
    using demo_stopped by blast
  then show ?thesis
    using pipeline_shutdown_drains [OF demo_created p] by blast
qed



end
