(* ===== verification/Posix_Io.thy ===== *)
theory Posix_Io
  imports Gw_Prelude
begin

text \<open>
  The file system calls that the spools use: one directory of files with their page-cache
  contents, what of it has reached the medium, and the outcome of every system call. Each call
  takes the next outcome of a list, so any call may be interrupted, be short or fail; when the
  list is exhausted every further call succeeds. A descriptor is the inode it refers to. The two
  transfer loops \<open>read_exact\<close> and \<open>write_exact\<close> of \<open>gateway/src/spool.c\<close> and
  \<open>gateway/src/spool_v2.c\<close>, which are the same in both files, are modelled here.
\<close>

subsection \<open>The file system\<close>

datatype sys_outcome = Sys_ok | Sys_eintr | Sys_short nat | Sys_fail | Sys_time timespec

datatype path_status = Path_directory | Path_other | Path_missing | Path_error

record inode =
  content :: bytes
  durable :: bytes
  regular :: bool

record disk =
  inodes :: "nat \<Rightarrow> inode"
  next_inode :: nat
  names :: "(string \<times> nat) list"
  durable_names :: "(string \<times> nat) list"
  directory_status :: path_status
  now :: timespec
  outcomes :: "sys_outcome list"

definition empty_inode :: inode where
  "empty_inode = \<lparr>content = [], durable = [], regular = True\<rparr>"

text \<open>A file system in which the spool directory exists and is empty, and no call fails.\<close>

definition empty_disk :: disk where
  "empty_disk = \<lparr>inodes = (\<lambda>_. empty_inode), next_inode = 0, names = [], durable_names = [],
     directory_status = Path_directory, now = \<lparr>tv_sec = 0, tv_nsec = 0\<rparr>, outcomes = []\<rparr>"

definition next_outcome :: "disk \<Rightarrow> sys_outcome \<times> disk" where
  "next_outcome d =
     (case outcomes d of [] \<Rightarrow> (Sys_ok, d) | x # xs \<Rightarrow> (x, d\<lparr>outcomes := xs\<rparr>))"

definition sys_call :: "disk \<Rightarrow> bool \<times> disk" where
  "sys_call d = (let (x, d) = next_outcome d in (x = Sys_ok, d))"

subsection \<open>Calls on the directory\<close>

definition file_at :: "string \<Rightarrow> disk \<Rightarrow> inode option" where
  "file_at name d = map_option (inodes d) (map_of (names d) name)"

text \<open>\<open>openat\<close> of an existing file, with \<open>O_CREAT | O_TRUNC\<close>, with \<open>O_CREAT\<close> alone, and with
  \<open>O_CREAT | O_EXCL\<close>; \<open>None\<close> is a negative descriptor.\<close>

definition create_file :: "string \<Rightarrow> disk \<Rightarrow> nat \<times> disk" where
  "create_file name d = (next_inode d,
     d\<lparr>inodes := (inodes d)(next_inode d := empty_inode), next_inode := next_inode d + 1,
       names := names d @ [(name, next_inode d)]\<rparr>)"

definition sys_open :: "string \<Rightarrow> disk \<Rightarrow> nat option \<times> disk" where
  "sys_open name d =
     (let (ok, d) = sys_call d in (if ok then map_of (names d) name else None, d))"

definition sys_open_create :: "string \<Rightarrow> disk \<Rightarrow> nat option \<times> disk" where
  "sys_open_create name d =
     (let (ok, d) = sys_call d in
      if \<not> ok then (None, d)
      else case map_of (names d) name of
        Some ino \<Rightarrow> (Some ino, d)
      | None \<Rightarrow> (let (ino, d) = create_file name d in (Some ino, d)))"

definition sys_open_trunc :: "string \<Rightarrow> disk \<Rightarrow> nat option \<times> disk" where
  "sys_open_trunc name d =
     (let (ok, d) = sys_call d in
      if \<not> ok then (None, d)
      else case map_of (names d) name of
        Some ino \<Rightarrow> (Some ino, d\<lparr>inodes := (inodes d)(ino := (inodes d ino)\<lparr>content := []\<rparr>)\<rparr>)
      | None \<Rightarrow> (let (ino, d) = create_file name d in (Some ino, d)))"

definition sys_open_excl :: "string \<Rightarrow> disk \<Rightarrow> nat option \<times> disk" where
  "sys_open_excl name d =
     (let (ok, d) = sys_call d in
      if \<not> ok \<or> map_of (names d) name \<noteq> None then (None, d)
      else (let (ino, d) = create_file name d in (Some ino, d)))"

definition sys_unlink :: "string \<Rightarrow> disk \<Rightarrow> bool \<times> disk" where
  "sys_unlink name d =
     (let (ok, d) = sys_call d in
      if \<not> ok \<or> map_of (names d) name = None then (False, d)
      else (True, d\<lparr>names := filter (\<lambda>e. fst e \<noteq> name) (names d)\<rparr>))"

definition sys_rename :: "string \<Rightarrow> string \<Rightarrow> disk \<Rightarrow> bool \<times> disk" where
  "sys_rename old new d =
     (let (ok, d) = sys_call d in
      if \<not> ok then (False, d)
      else case map_of (names d) old of
        None \<Rightarrow> (False, d)
      | Some ino \<Rightarrow> (True, d\<lparr>names :=
          filter (\<lambda>e. fst e \<noteq> old \<and> fst e \<noteq> new) (names d) @ [(new, ino)]\<rparr>))"

definition sys_fsync_directory :: "disk \<Rightarrow> bool \<times> disk" where
  "sys_fsync_directory d =
     (let (ok, d) = sys_call d in
      if ok then (True, d\<lparr>durable_names := names d\<rparr>) else (False, d))"

subsection \<open>Calls on descriptors\<close>

definition sys_close :: "disk \<Rightarrow> bool \<times> disk" where
  "sys_close d = sys_call d"

definition sys_fstat :: "nat \<Rightarrow> disk \<Rightarrow> (bool \<times> nat) option \<times> disk" where
  "sys_fstat ino d =
     (let (ok, d) = sys_call d in
      (if ok then Some (regular (inodes d ino), length (content (inodes d ino))) else None, d))"

definition set_content :: "nat \<Rightarrow> bytes \<Rightarrow> disk \<Rightarrow> disk" where
  "set_content ino bs d = d\<lparr>inodes := (inodes d)(ino := (inodes d ino)\<lparr>content := bs\<rparr>)\<rparr>"

definition sys_fdatasync :: "nat \<Rightarrow> disk \<Rightarrow> bool \<times> disk" where
  "sys_fdatasync ino d =
     (let (ok, d) = sys_call d in
      if ok then (True, d\<lparr>inodes := (inodes d)(ino :=
        (inodes d ino)\<lparr>durable := content (inodes d ino)\<rparr>)\<rparr>) else (False, d))"

text \<open>A file that \<open>ftruncate\<close> or \<open>pwrite\<close> extends is padded with zero bytes.\<close>

definition resize :: "nat \<Rightarrow> bytes \<Rightarrow> bytes" where
  "resize n bs = take n bs @ replicate (n - length bs) 0"

definition overwrite :: "nat \<Rightarrow> bytes \<Rightarrow> bytes \<Rightarrow> bytes" where
  "overwrite offset new bs = resize offset bs @ new @ drop (offset + length new) bs"

definition sys_ftruncate :: "nat \<Rightarrow> nat \<Rightarrow> disk \<Rightarrow> bool \<times> disk" where
  "sys_ftruncate ino n d =
     (let (ok, d) = sys_call d in
      if ok then (True, set_content ino (resize n (content (inodes d ino))) d) else (False, d))"

definition sys_clock :: "disk \<Rightarrow> timespec option \<times> disk" where
  "sys_clock d =
     (let (x, d) = next_outcome d in
      case x of Sys_ok \<Rightarrow> (Some (now d), d)
      | Sys_time t \<Rightarrow> (Some t, d\<lparr>now := t\<rparr>)
      | _ \<Rightarrow> (None, d))"

subsection \<open>The transfer loops\<close>

text \<open>\<open>rest\<close> is the file from the offset on and \<open>got\<close> what the buffer holds so far. A \<open>pread\<close>
  returns as much as it was asked for or as is left, unless its outcome is short.\<close>

fun read_loop ::
    "bytes \<Rightarrow> nat \<Rightarrow> bytes \<Rightarrow> sys_outcome list \<Rightarrow> (gateway_error_code + bytes) \<times> sys_outcome list" where
  "read_loop rest n got [] =
     (if length got \<ge> n then (Inr got, [])
      else let chunk = take (n - length got) (drop (length got) rest) in
        if length got + length chunk < n then (Inl GATEWAY_ERROR_IO, []) else (Inr (got @ chunk), []))"
| "read_loop rest n got (x # xs) =
     (if length got \<ge> n then (Inr got, x # xs)
      else let asked = take (n - length got) (drop (length got) rest) in
        case x of
          Sys_eintr \<Rightarrow> read_loop rest n got xs
        | Sys_fail \<Rightarrow> (Inl GATEWAY_ERROR_IO, xs)
        | Sys_short k \<Rightarrow> if take k asked = [] then (Inl GATEWAY_ERROR_IO, xs)
                        else read_loop rest n (got @ take k asked) xs
        | _ \<Rightarrow> if asked = [] then (Inl GATEWAY_ERROR_IO, xs) else read_loop rest n (got @ asked) xs)"

definition read_exact :: "nat \<Rightarrow> nat \<Rightarrow> nat \<Rightarrow> disk \<Rightarrow> (gateway_error_code + bytes) \<times> disk" where
  "read_exact ino n offset d =
     (let (r, xs) = read_loop (drop offset (content (inodes d ino))) n [] (outcomes d) in
      (r, d\<lparr>outcomes := xs\<rparr>))"

fun write_loop ::
    "bytes \<Rightarrow> nat \<Rightarrow> nat \<Rightarrow> sys_outcome list \<Rightarrow> bytes \<Rightarrow> gateway_error_code \<times> sys_outcome list \<times> bytes" where
  "write_loop buffer offset completed [] bs =
     (GATEWAY_OK, [],
      if completed \<ge> length buffer then bs
      else overwrite (offset + completed) (drop completed buffer) bs)"
| "write_loop buffer offset completed (x # xs) bs =
     (if completed \<ge> length buffer then (GATEWAY_OK, x # xs, bs)
      else let asked = drop completed buffer in
        case x of
          Sys_eintr \<Rightarrow> write_loop buffer offset completed xs bs
        | Sys_fail \<Rightarrow> (GATEWAY_ERROR_IO, xs, bs)
        | Sys_short k \<Rightarrow> if k = 0 then (GATEWAY_ERROR_IO, xs, bs)
            else write_loop buffer offset (completed + length (take k asked)) xs
              (overwrite (offset + completed) (take k asked) bs)
        | _ \<Rightarrow> write_loop buffer offset (completed + length asked) xs
              (overwrite (offset + completed) asked bs))"

definition write_exact :: "nat \<Rightarrow> bytes \<Rightarrow> nat \<Rightarrow> disk \<Rightarrow> gateway_error_code \<times> disk" where
  "write_exact ino buffer offset d =
     (let (code, xs, bs) = write_loop buffer offset 0 (outcomes d) (content (inodes d ino)) in
      (code, set_content ino bs (d\<lparr>outcomes := xs\<rparr>)))"

subsection \<open>The directory as a map\<close>

text \<open>What a process sees of the directory: for each name the inode and its contents. In a
  well-formed file system every call below is a simple update of this map.\<close>

definition view :: "disk \<Rightarrow> string \<Rightarrow> (nat \<times> bytes) option" where
  "view d name = map_option (\<lambda>ino. (ino, content (inodes d ino))) (map_of (names d) name)"

definition disk_wf :: "disk \<Rightarrow> bool" where
  "disk_wf d \<longleftrightarrow>
     distinct (map fst (names d)) \<and> distinct (map snd (names d)) \<and>
     (\<forall>name ino. (name, ino) \<in> set (names d) \<longrightarrow> ino < next_inode d \<and> regular (inodes d ino))"

lemma view_update [simp]:
  "view (d\<lparr>outcomes := a\<rparr>) = view d" "view (d\<lparr>now := b\<rparr>) = view d"
  "view (d\<lparr>durable_names := c\<rparr>) = view d" "view (d\<lparr>directory_status := e\<rparr>) = view d"
  by (simp_all add: view_def fun_eq_iff)

lemma disk_wf_update [simp]:
  "disk_wf (d\<lparr>outcomes := a\<rparr>) = disk_wf d" "disk_wf (d\<lparr>now := b\<rparr>) = disk_wf d"
  "disk_wf (d\<lparr>durable_names := c\<rparr>) = disk_wf d" "disk_wf (d\<lparr>directory_status := e\<rparr>) = disk_wf d"
  by (simp_all add: disk_wf_def)

lemma view_None: "view d name = None \<longleftrightarrow> map_of (names d) name = None"
  by (simp add: view_def)

lemma view_Some: "view d name = Some (ino, c) \<longleftrightarrow>
    map_of (names d) name = Some ino \<and> c = content (inodes d ino)"
  by (auto simp: view_def)

lemma inode_unique:
  assumes "disk_wf d" "map_of (names d) a = Some i" "map_of (names d) b = Some i"
  shows "a = b"
proof -
  have "(a, i) \<in> set (names d)" "(b, i) \<in> set (names d)"
    using assms by (auto dest: map_of_SomeD)
  moreover have "inj_on snd (set (names d))"
    using assms(1) by (simp add: disk_wf_def distinct_map)
  ultimately have "(a, i) = (b, i)" by (metis inj_onD snd_conv)
  then show ?thesis by simp
qed

lemma set_content_view:
  assumes "disk_wf d" "view d name = Some (ino, c)"
  shows "disk_wf (set_content ino bs d)"
    and "view (set_content ino bs d) = (view d)(name \<mapsto> (ino, bs))"
proof -
  show "disk_wf (set_content ino bs d)"
    using assms(1) by (auto simp: disk_wf_def set_content_def)
  have "view (set_content ino bs d) n = ((view d)(name \<mapsto> (ino, bs))) n" for n
  proof (cases "map_of (names d) n")
    case None
    then show ?thesis
      using assms(2) by (auto simp: view_def set_content_def)
  next
    case (Some i)
    then show ?thesis
      using assms inode_unique [OF assms(1), of n i name]
      by (auto simp: view_Some view_def set_content_def)
  qed
  then show "view (set_content ino bs d) = (view d)(name \<mapsto> (ino, bs))" by blast
qed

lemma create_file_view:
  assumes "disk_wf d" "map_of (names d) name = None" "create_file name d = (ino, d')"
  shows "disk_wf d'" and "view d' = (view d)(name \<mapsto> (ino, []))"
proof -
  have fresh: "name \<notin> fst ` set (names d)"
    using assms(2) by (simp add: map_of_eq_None_iff)
  have old: "\<And>n i. (n, i) \<in> set (names d) \<Longrightarrow> i \<noteq> next_inode d"
    using assms(1) by (fastforce simp: disk_wf_def)
  show "disk_wf d'"
    using assms fresh old
    by (fastforce simp: disk_wf_def create_file_def empty_inode_def less_Suc_eq)
  have "view d' n = ((view d)(name \<mapsto> (ino, []))) n" for n
  proof (cases "map_of (names d) n")
    case None
    then show ?thesis
      using assms(3) by (auto simp: view_def create_file_def empty_inode_def map_add_def)
  next
    case (Some i)
    then have "i \<noteq> next_inode d" using old [of n i] by (auto dest: map_of_SomeD)
    then show ?thesis
      using assms(2,3) Some
      by (auto simp: view_def create_file_def empty_inode_def map_add_def)
  qed
  then show "view d' = (view d)(name \<mapsto> (ino, []))" by blast
qed

lemma map_of_filter_fst:
  "map_of (filter (\<lambda>e. P (fst e)) xs) n = (if P n then map_of xs n else None)"
  by (induction xs) auto

lemma disk_wf_filter: "disk_wf d \<Longrightarrow> disk_wf (d\<lparr>names := filter P (names d)\<rparr>)"
  by (auto simp: disk_wf_def distinct_map_filter)

subsection \<open>What the calls do to the map\<close>

lemma sys_call_view:
  assumes "sys_call d = (ok, d')"
  shows "view d' = view d" and "disk_wf d' = disk_wf d" and "inodes d' = inodes d"
    and "names d' = names d" and "directory_status d' = directory_status d"
  using assms by (auto simp: sys_call_def next_outcome_def Let_def split: list.split_asm)

lemma sys_close_view:
  assumes "sys_close d = (ok, d')"
  shows "view d' = view d" and "disk_wf d' = disk_wf d"
  using assms sys_call_view by (auto simp: sys_close_def)

lemma snd_sys_close_view [simp]:
  "view (snd (sys_close d)) = view d" "disk_wf (snd (sys_close d)) = disk_wf d"
  by (metis prod.collapse sys_close_view)+

lemma sys_open_view:
  assumes "sys_open name d = (r, d')"
  shows "view d' = view d" and "disk_wf d' = disk_wf d"
    and "\<And>ino. r = Some ino \<Longrightarrow> \<exists>c. view d name = Some (ino, c)"
  using assms sys_call_view
  by (auto simp: sys_open_def Let_def view_def split: prod.split_asm if_split_asm)

lemma sys_open_trunc_view:
  assumes "sys_open_trunc name d = (r, d')" and "disk_wf d"
  shows "disk_wf d'" and "r = None \<Longrightarrow> view d' = view d"
    and "\<And>ino. r = Some ino \<Longrightarrow> view d' = (view d)(name \<mapsto> (ino, []))"
proof -
  obtain ok d1 where c: "sys_call d = (ok, d1)" by (metis surj_pair)
  have v: "view d1 = view d" "disk_wf d1" "names d1 = names d"
    using sys_call_view [OF c] assms(2) by simp_all
  show "disk_wf d'" "r = None \<Longrightarrow> view d' = view d"
    "\<And>ino. r = Some ino \<Longrightarrow> view d' = (view d)(name \<mapsto> (ino, []))"
    using assms(1) v set_content_view [OF v(2), of name _ _ "[]"] create_file_view [OF v(2), of name]
    by (auto simp: sys_open_trunc_def c Let_def view_Some set_content_def [symmetric]
        split: if_split_asm option.split_asm prod.split_asm)
qed

lemma sys_open_create_view:
  assumes "sys_open_create name d = (r, d')" and "disk_wf d"
  shows "disk_wf d'" and "n \<noteq> name \<Longrightarrow> view d' n = view d n"
    and "r = None \<Longrightarrow> view d' = view d"
proof -
  obtain ok d1 where c: "sys_call d = (ok, d1)" by (metis surj_pair)
  have v: "view d1 = view d" "disk_wf d1" using sys_call_view [OF c] assms(2) by simp_all
  show "disk_wf d'" "n \<noteq> name \<Longrightarrow> view d' n = view d n" "r = None \<Longrightarrow> view d' = view d"
    using assms(1) v create_file_view [OF v(2), of name]
    by (auto simp: sys_open_create_def c Let_def split: if_split_asm option.split_asm prod.split_asm)
qed

lemma sys_open_excl_view:
  assumes "sys_open_excl name d = (r, d')" and "disk_wf d"
  shows "disk_wf d'" and "r = None \<Longrightarrow> view d' = view d"
    and "\<And>ino. r = Some ino \<Longrightarrow> view d name = None \<and> view d' = (view d)(name \<mapsto> (ino, []))"
proof -
  obtain ok d1 where c: "sys_call d = (ok, d1)" by (metis surj_pair)
  have v: "view d1 = view d" "disk_wf d1" "names d1 = names d"
    using sys_call_view [OF c] assms(2) by simp_all
  show "disk_wf d'" "r = None \<Longrightarrow> view d' = view d"
    "\<And>ino. r = Some ino \<Longrightarrow> view d name = None \<and> view d' = (view d)(name \<mapsto> (ino, []))"
    using assms(1) v create_file_view [OF v(2), of name]
    by (auto simp: sys_open_excl_def c Let_def view_None split: if_split_asm prod.split_asm)
qed

lemma sys_unlink_view:
  assumes "sys_unlink name d = (ok, d')" and "disk_wf d"
  shows "disk_wf d'" and "\<not> ok \<Longrightarrow> view d' = view d"
    and "ok \<Longrightarrow> view d name \<noteq> None \<and> view d' = (view d)(name := None)"
proof -
  obtain ok1 d1 where c: "sys_call d = (ok1, d1)" by (metis surj_pair)
  have v: "view d1 = view d" "disk_wf d1" "names d1 = names d" "inodes d1 = inodes d"
    using sys_call_view [OF c] assms(2) by simp_all
  show "disk_wf d'" "\<not> ok \<Longrightarrow> view d' = view d"
    using assms(1) v disk_wf_filter [OF v(2)]
    by (auto simp: sys_unlink_def c Let_def split: if_split_asm)
  show "ok \<Longrightarrow> view d name \<noteq> None \<and> view d' = (view d)(name := None)"
    using assms(1) v map_of_filter_fst [of "\<lambda>n. n \<noteq> name" "names d"]
    by (auto simp: sys_unlink_def c Let_def view_def fun_eq_iff split: if_split_asm)
qed

lemma sys_rename_view:
  assumes "sys_rename old new d = (ok, d')" and "disk_wf d" and "old \<noteq> new"
  shows "disk_wf d'" and "\<not> ok \<Longrightarrow> view d' = view d"
    and "ok \<Longrightarrow> view d old \<noteq> None \<and> view d' = (view d)(old := None, new := view d old)"
proof -
  obtain ok1 d1 where c: "sys_call d = (ok1, d1)" by (metis surj_pair)
  have v: "view d1 = view d" "disk_wf d1" "names d1 = names d" "inodes d1 = inodes d"
    using sys_call_view [OF c] assms(2) by simp_all
  let ?P = "\<lambda>e :: string \<times> nat. fst e \<noteq> old \<and> fst e \<noteq> new"
  have wf: "disk_wf (d1\<lparr>names := filter ?P (names d1) @ [(new, i)]\<rparr>)"
    if i: "map_of (names d1) old = Some i" for i
  proof -
    have "i \<notin> snd ` set (filter ?P (names d1))"
    proof
      assume "i \<in> snd ` set (filter ?P (names d1))"
      then obtain a where a: "(a, i) \<in> set (names d1)" "a \<noteq> old" by auto
      then have "map_of (names d1) a = Some i"
        using v(2) by (auto simp: disk_wf_def)
      then show False using inode_unique [OF v(2) i] a(2) by blast
    qed
    moreover have "i < next_inode d1 \<and> regular (inodes d1 i)"
      using v(2) i by (auto simp: disk_wf_def dest: map_of_SomeD)
    ultimately show ?thesis
      using disk_wf_filter [OF v(2), of ?P] by (auto simp: disk_wf_def)
  qed
  show "disk_wf d'" "\<not> ok \<Longrightarrow> view d' = view d"
    using assms(1) v wf by (auto simp: sys_rename_def c Let_def split: if_split_asm option.split_asm)
  show "ok \<Longrightarrow> view d old \<noteq> None \<and> view d' = (view d)(old := None, new := view d old)"
    using assms(1,3) v map_of_filter_fst [of "\<lambda>n. n \<noteq> old \<and> n \<noteq> new" "names d1"]
    by (auto simp: sys_rename_def c Let_def view_def map_add_def fun_eq_iff
        split: if_split_asm option.split_asm option.split)
qed

lemma sync_inode_view:
  "view (d\<lparr>inodes := (inodes d)(ino := (inodes d ino)\<lparr>durable := c\<rparr>)\<rparr>) = view d"
  "disk_wf (d\<lparr>inodes := (inodes d)(ino := (inodes d ino)\<lparr>durable := c\<rparr>)\<rparr>) = disk_wf d"
  by (auto simp: view_def disk_wf_def fun_eq_iff intro!: option.map_cong)

lemma sync_view:
  "sys_fsync_directory d = (ok, d') \<Longrightarrow> view d' = view d \<and> disk_wf d' = disk_wf d"
  "sys_fdatasync ino d = (ok, d') \<Longrightarrow> view d' = view d \<and> disk_wf d' = disk_wf d"
  "sys_fstat ino d = (st, d') \<Longrightarrow> view d' = view d \<and> disk_wf d' = disk_wf d"
  by (cases "sys_call d"; auto simp: sys_fsync_directory_def sys_fdatasync_def sys_fstat_def Let_def
      sync_inode_view dest: sys_call_view(1,2) split: if_split_asm)+

lemma sys_clock_view: "sys_clock d = (t, d') \<Longrightarrow> view d' = view d \<and> disk_wf d' = disk_wf d"
  by (auto simp: sys_clock_def next_outcome_def Let_def
      split: list.split_asm sys_outcome.split_asm)

lemma sys_ftruncate_view:
  assumes "sys_ftruncate ino n d = (ok, d')" and "disk_wf d" and "view d name = Some (ino, c)"
  shows "disk_wf d'" and "\<not> ok \<Longrightarrow> view d' = view d"
    and "ok \<Longrightarrow> view d' = (view d)(name \<mapsto> (ino, resize n c))"
proof -
  obtain ok1 d1 where call: "sys_call d = (ok1, d1)" by (metis surj_pair)
  have v: "view d1 = view d" "disk_wf d1" "inodes d1 = inodes d"
    using sys_call_view [OF call] assms(2) by simp_all
  have n: "view d1 name = Some (ino, c)" using assms(3) v(1) by simp
  have c: "content (inodes d ino) = c" using assms(3) by (simp add: view_Some)
  show "disk_wf d'" "\<not> ok \<Longrightarrow> view d' = view d" "ok \<Longrightarrow> view d' = (view d)(name \<mapsto> (ino, resize n c))"
    using assms(1) v set_content_view [OF v(2) n, of "resize n c"]
    by (auto simp: sys_ftruncate_def call Let_def c split: if_split_asm)
qed

subsection \<open>What the transfer loops do\<close>

lemma read_loop_result:
  assumes "read_loop rest n got xs = (r, xs')" and "rest = got @ tail" and "length got \<le> n"
  shows "r = Inr (take n rest) \<and> n \<le> length rest \<or> r = Inl GATEWAY_ERROR_IO"
  using assms
proof (induction xs arbitrary: got tail)
  case Nil
  then show ?case
    by (auto simp: Let_def split: if_split_asm)
next
  case (Cons x xs)
  let ?asked = "take (n - length got) tail"
  have "rest = (got @ take k ?asked) @ drop k ?asked @ drop (n - length got) tail"
    "length (got @ take k ?asked) \<le> n" for k
    using Cons.prems(2,3) by (metis append_assoc append_take_drop_id, simp)
  note short = Cons.IH [OF _ this]
  have "rest = (got @ ?asked) @ drop (n - length got) tail" "length (got @ ?asked) \<le> n"
    using Cons.prems(2,3) by simp_all
  note whole = Cons.IH [OF _ this]
  have asked: "take (n - length got) (drop (length got) rest) = ?asked"
    using Cons.prems(2) by simp
  show ?case
  proof (cases "length got \<ge> n")
    case True
    then show ?thesis using Cons.prems by auto
  next
    case False
    then show ?thesis
      using Cons.prems(1) short whole Cons.IH [OF _ Cons.prems(2,3)]
      by (cases x) (simp_all add: asked Let_def split: if_split_asm)
  qed
qed

lemma read_exact_view:
  assumes "read_exact ino n offset d = (r, d')" and "view d name = Some (ino, c)"
  shows "view d' = view d" and "disk_wf d' = disk_wf d"
    and "r = Inr (take n (drop offset c)) \<and> n \<le> length c - offset \<or> r = Inl GATEWAY_ERROR_IO"
proof -
  obtain xs where l: "read_loop (drop offset c) n [] (outcomes d) = (r, xs)"
    using assms by (auto simp: read_exact_def view_Some Let_def split: prod.split_asm)
  show "view d' = view d" "disk_wf d' = disk_wf d"
    using assms(1) by (auto simp: read_exact_def Let_def split: prod.split_asm)
  show "r = Inr (take n (drop offset c)) \<and> n \<le> length c - offset \<or> r = Inl GATEWAY_ERROR_IO"
    using read_loop_result [OF l] by simp
qed

text \<open>A write at the end of a file leaves a prefix of the buffer there, the whole of it when it
  reports success; a write over the beginning leaves the buffer in front.\<close>

lemma overwrite_at_end: "overwrite (length bs) new bs = bs @ new"
  by (simp add: overwrite_def resize_def)

lemma write_loop_at_end:
  assumes "write_loop buffer offset done xs bs = (code, xs', bs')"
    and "length bs = offset + done" and "done \<le> length buffer"
  shows "\<exists>k\<le>length buffer - done. bs' = bs @ take k (drop done buffer) \<and>
     (code = GATEWAY_OK \<longrightarrow> k = length buffer - done) \<and>
     (code \<noteq> GATEWAY_OK \<longrightarrow> code = GATEWAY_ERROR_IO \<and> k < length buffer - done)"
  using assms
proof (induction xs arbitrary: "done" bs)
  case Nil
  then show ?case
    using overwrite_at_end [of bs "drop done buffer"]
    by (intro exI [of _ "length buffer - done"]) (auto split: if_split_asm)
next
  case (Cons x xs)
  let ?asked = "drop done buffer"
  have at: "overwrite (offset + done) new bs = bs @ new" for new
    using overwrite_at_end [of bs new] Cons.prems(2) by simp
  have stop: ?case if "bs' = bs" "code = GATEWAY_ERROR_IO" "\<not> done \<ge> length buffer"
    using that by (intro exI [of _ 0]) simp
  have short: ?case
    if w: "write_loop buffer offset (done + length (take k ?asked)) xs (bs @ take k ?asked) = (code, xs', bs')" for k
  proof -
    let ?m = "min (length buffer - done) k"
    have "done + ?m \<le> length buffer" using Cons.prems(3) by linarith
    moreover have "length (bs @ take k ?asked) = offset + (done + ?m)"
      using Cons.prems(2) by simp
    moreover have "write_loop buffer offset (done + ?m) xs (bs @ take k ?asked) = (code, xs', bs')"
      using w by simp
    ultimately obtain j where j: "j \<le> length buffer - (done + ?m)"
        "bs' = (bs @ take k ?asked) @ take j (drop (done + ?m) buffer)"
        "code = GATEWAY_OK \<longrightarrow> j = length buffer - (done + ?m)"
        "code \<noteq> GATEWAY_OK \<longrightarrow> code = GATEWAY_ERROR_IO \<and> j < length buffer - (done + ?m)"
      using Cons.IH by blast
    have "take k ?asked = take ?m ?asked" by (metis length_drop min.commute take_take take_all nle_le)
    then have "take k ?asked @ take j (drop (done + ?m) buffer) = take (?m + j) ?asked"
      using take_add [of ?m j ?asked] by (simp add: add.commute [of ?m "done"])
    then show ?thesis
      using j \<open>done + ?m \<le> length buffer\<close> by (intro exI [of _ "?m + j"]) auto
  qed
  show ?case
  proof (cases "done \<ge> length buffer")
    case True
    then show ?thesis using Cons.prems by (intro exI [of _ 0]) auto
  next
    case False
    then show ?thesis
      using Cons.prems stop short [of "length buffer"] short Cons.IH [OF _ Cons.prems(2,3)]
      by (cases x) (simp_all add: Let_def at split: if_split_asm)
  qed
qed

lemma write_exact_at_end:
  assumes "write_exact ino buffer offset d = (code, d')" and "disk_wf d"
    and "view d name = Some (ino, c)" and "length c = offset"
  shows "disk_wf d'"
    and "\<exists>k\<le>length buffer. view d' = (view d)(name \<mapsto> (ino, c @ take k buffer)) \<and>
       (code = GATEWAY_OK \<longrightarrow> k = length buffer) \<and>
       (code \<noteq> GATEWAY_OK \<longrightarrow> code = GATEWAY_ERROR_IO \<and> k < length buffer)"
proof -
  obtain xs bs where l: "write_loop buffer offset 0 (outcomes d) c = (code, xs, bs)"
      and d': "d' = set_content ino bs (d\<lparr>outcomes := xs\<rparr>)"
    using assms(1,3) by (auto simp: write_exact_def view_Some Let_def split: prod.split_asm)
  have v: "disk_wf (d\<lparr>outcomes := xs\<rparr>)" "view (d\<lparr>outcomes := xs\<rparr>) name = Some (ino, c)"
    using assms(2,3) by simp_all
  show "disk_wf d'" using set_content_view(1) [OF v] d' by simp
  show "\<exists>k\<le>length buffer. view d' = (view d)(name \<mapsto> (ino, c @ take k buffer)) \<and>
       (code = GATEWAY_OK \<longrightarrow> k = length buffer) \<and>
       (code \<noteq> GATEWAY_OK \<longrightarrow> code = GATEWAY_ERROR_IO \<and> k < length buffer)"
    using write_loop_at_end [OF l] assms(4) set_content_view(2) [OF v, of bs] d' by auto
qed

text \<open>With no failing outcome left, every call succeeds.\<close>

lemma calls_succeed:
  assumes "outcomes d = []"
  shows "sys_call d = (True, d)"
  using assms by (simp add: sys_call_def next_outcome_def)

end
