(* ===== verification/Spool_V2.thy ===== *)
theory Spool_V2
  imports Telemetry Posix_Io
begin

text \<open>
  The segmented spool, \<open>gateway/src/spool_v2.c\<close>: its state, file formats and operations. The
  record \<open>gateway_spool_v2\<close> holds the fields of the C structure, and in \<open>io\<close> the file system its
  descriptors refer to, so that an operation is a function from the spool to a result code and
  the new spool. Cursors, sizes and generations are naturals: the code checks each of them
  against \<open>UINT64_MAX\<close> before it would wrap, and those checks are part of the definitions.
  Sequence numbers are 64-bit words and the snapshot counters are 64-bit words that wrap.
\<close>

subsection \<open>Constants and types\<close>

definition GATEWAY_SPOOL_V2_SEGMENT_RECORDS :: nat where
  "GATEWAY_SPOOL_V2_SEGMENT_RECORDS = 65536"

definition GATEWAY_SPOOL_MAX_BYTES_MAX :: nat where
  "GATEWAY_SPOOL_MAX_BYTES_MAX = 68719476736"

definition GATEWAY_SPOOL_PATH_SIZE :: nat where
  "GATEWAY_SPOOL_PATH_SIZE = 512"

text \<open>\<open>SIZE_MAX\<close> of the 32-bit target.\<close>

definition size_max :: nat where
  "size_max = 2 ^ 32 - 1"

definition V2_STATE_SIZE :: nat where
  "V2_STATE_SIZE = 112"

definition V2_STATE_MAGIC :: bytes where
  "V2_STATE_MAGIC = map (of_nat \<circ> of_char) ''GST2''"

datatype gateway_spool_fault_point =
    GATEWAY_SPOOL_FAULT_NONE
  | GATEWAY_SPOOL_FAULT_APPEND_WRITE
  | GATEWAY_SPOOL_FAULT_SEGMENT_SYNC
  | GATEWAY_SPOOL_FAULT_STATE_WRITE
  | GATEWAY_SPOOL_FAULT_STATE_SYNC
  | GATEWAY_SPOOL_FAULT_STATE_RENAME
  | GATEWAY_SPOOL_FAULT_DIRECTORY_SYNC
  | GATEWAY_SPOOL_FAULT_SEGMENT_DELETE

record gateway_spool_v2_options =
  max_bytes :: nat
  sync_records :: nat
  sync_interval_ms :: nat

record v2_segment =
  seg_number :: nat
  seg_size :: nat
  seg_first_seq :: u64
  seg_last_seq :: u64

record gateway_spool_v2 =
  directory_fd :: bool
  lock_fd :: "nat option"
  segment_fd :: "nat option"
  open_segment :: nat
  directory :: string
  options :: gateway_spool_v2_options
  segment_records :: nat
  segment_bytes :: nat
  generation :: nat
  last_allocated_seq :: u64
  sequence_fence :: u64
  last_acked_seq :: u64
  next_batch_seq :: nat
  ack_segment :: nat
  ack_offset :: nat
  write_segment :: nat
  write_offset :: nat
  prepared_segment :: nat
  prepared_offset :: nat
  prepared_last_seq :: u64
  segments :: "v2_segment list"
  segment_capacity :: nat
  physical_bytes :: nat
  records_appended :: u64
  records_replayed :: u64
  tail_recoveries :: u64
  state_recoveries :: u64
  corruptions :: u64
  segments_reclaimed :: u64
  sync_count :: u64
  sync_failures :: u64
  unsynced_records :: nat
  sync_deadline :: timespec
  sync_deadline_set :: bool
  fault_once :: gateway_spool_fault_point
  batch_prepared :: bool
  failed :: bool
  io :: disk

subsection \<open>Segment names\<close>

text \<open>\<open>"segment-%020" PRIu64 ".gsp2"\<close>: twenty decimal digits, the most a 64-bit value has.\<close>

definition digit_char :: "nat \<Rightarrow> char" where
  "digit_char n = char_of (48 + n)"

fun decimal :: "nat \<Rightarrow> nat \<Rightarrow> string" where
  "decimal 0 n = []"
| "decimal (Suc w) n = decimal w (n div 10) @ [digit_char (n mod 10)]"

definition segment_name :: "nat \<Rightarrow> string" where
  "segment_name number = ''segment-'' @ decimal 20 number @ ''.gsp2''"

text \<open>The digit loop, with its overflow guard.\<close>

fun parse_digits :: "string \<Rightarrow> nat \<Rightarrow> nat option" where
  "parse_digits [] v = Some v"
| "parse_digits (c # cs) v =
     (if of_char c < (48 :: nat) \<or> (57 :: nat) < of_char c then None
      else let digit = of_char c - 48 in
        if v > (u64_max - digit) div 10 then None else parse_digits cs (v * 10 + digit))"

definition parse_segment_name :: "string \<Rightarrow> nat option" where
  "parse_segment_name name =
     (if length name \<noteq> 33 \<or> take 8 name \<noteq> ''segment-'' \<or> drop 28 name \<noteq> ''.gsp2'' then None
      else case parse_digits (take 20 (drop 8 name)) 0 of
        None \<Rightarrow> None
      | Some v \<Rightarrow> if v = 0 then None else Some v)"

subsection \<open>Synchronisation\<close>

definition inject_fault ::
    "gateway_spool_fault_point \<Rightarrow> gateway_spool_v2 \<Rightarrow> bool \<times> gateway_spool_v2" where
  "inject_fault point s =
     (if fault_once s \<noteq> point then (False, s)
      else (True, s\<lparr>fault_once := GATEWAY_SPOOL_FAULT_NONE\<rparr>))"

text \<open>The descriptor and the \<open>directory\<close> flag of \<open>sync_descriptor\<close> in one value.\<close>

datatype sync_target = Sync_directory | Sync_file nat

definition sync_descriptor ::
    "sync_target \<Rightarrow> gateway_spool_fault_point \<Rightarrow> gateway_spool_v2 \<Rightarrow>
       gateway_error_code \<times> gateway_spool_v2" where
  "sync_descriptor descriptor point s =
     (let (hit, s) = inject_fault point s in
      if hit then (GATEWAY_ERROR_IO, s\<lparr>sync_failures := sync_failures s + 1\<rparr>)
      else let (ok, d) = (case descriptor of
                            Sync_directory \<Rightarrow> sys_fsync_directory (io s)
                          | Sync_file ino \<Rightarrow> sys_fdatasync ino (io s));
               s = s\<lparr>io := d\<rparr>
           in if \<not> ok then (GATEWAY_ERROR_IO, s\<lparr>sync_failures := sync_failures s + 1\<rparr>)
              else (GATEWAY_OK, s\<lparr>sync_count := sync_count s + 1\<rparr>))"

definition sync_directory :: "gateway_spool_v2 \<Rightarrow> gateway_error_code \<times> gateway_spool_v2" where
  "sync_directory s = sync_descriptor Sync_directory GATEWAY_SPOOL_FAULT_DIRECTORY_SYNC s"

definition sync_deadline_reached ::
    "gateway_spool_v2 \<Rightarrow> gateway_error_code \<times> bool \<times> gateway_spool_v2" where
  "sync_deadline_reached s =
     (let (t, d) = sys_clock (io s); s = s\<lparr>io := d\<rparr>; deadline = sync_deadline s in
      case t of
        None \<Rightarrow> (GATEWAY_ERROR_SYSTEM, False, s)
      | Some t \<Rightarrow> (GATEWAY_OK, tv_sec t > tv_sec deadline \<or>
          tv_sec t = tv_sec deadline \<and> tv_nsec t \<ge> tv_nsec deadline, s))"

definition set_sync_deadline :: "gateway_spool_v2 \<Rightarrow> gateway_error_code \<times> gateway_spool_v2" where
  "set_sync_deadline s =
     (let (t, d) = sys_clock (io s); s = s\<lparr>io := d\<rparr> in
      case t of
        None \<Rightarrow> (GATEWAY_ERROR_SYSTEM, s)
      | Some t \<Rightarrow>
          let sec = tv_sec t + int (sync_interval_ms (options s) div 1000);
              nsec = tv_nsec t + int (sync_interval_ms (options s) mod 1000) * 1000000;
              deadline = (if nsec \<ge> 1000000000
                          then \<lparr>tv_sec = sec + 1, tv_nsec = nsec - 1000000000\<rparr>
                          else \<lparr>tv_sec = sec, tv_nsec = nsec\<rparr>)
          in (GATEWAY_OK, s\<lparr>sync_deadline := deadline, sync_deadline_set := True\<rparr>))"

subsection \<open>The segment table\<close>

definition compare_segments :: "v2_segment \<Rightarrow> v2_segment \<Rightarrow> int" where
  "compare_segments a b =
     (if seg_number a < seg_number b then - 1 else if seg_number a > seg_number b then 1 else 0)"

text \<open>\<open>qsort\<close> by \<open>compare_segments\<close>; \<open>segment_count\<close> is the length of the list.\<close>

definition sort_segments :: "gateway_spool_v2 \<Rightarrow> gateway_spool_v2" where
  "sort_segments s = s\<lparr>segments := sort_key seg_number (segments s)\<rparr>"

definition new_segment :: "nat \<Rightarrow> v2_segment" where
  "new_segment number =
     \<lparr>seg_number = number, seg_size = 0, seg_first_seq = 0, seg_last_seq = 0\<rparr>"

text \<open>\<open>sizeof(v2_segment)\<close> is 32; the outcome taken is that of \<open>realloc\<close>.\<close>

definition add_segment :: "nat \<Rightarrow> gateway_spool_v2 \<Rightarrow> gateway_error_code \<times> gateway_spool_v2" where
  "add_segment number s =
     (let (code, s) =
        (if length (segments s) = segment_capacity s
         then let new_capacity = (if segment_capacity s = 0 then 8 else segment_capacity s * 2) in
           if new_capacity < segment_capacity s \<or> new_capacity > size_max div 32
           then (GATEWAY_ERROR_RANGE, s)
           else let (ok, d) = sys_call (io s); s = s\<lparr>io := d\<rparr> in
             if \<not> ok then (GATEWAY_ERROR_SYSTEM, s)
             else (GATEWAY_OK, s\<lparr>segment_capacity := new_capacity\<rparr>)
         else (GATEWAY_OK, s))
      in if code \<noteq> GATEWAY_OK then (code, s)
         else (GATEWAY_OK, s\<lparr>segments := segments s @ [new_segment number]\<rparr>))"

definition find_segment :: "nat \<Rightarrow> gateway_spool_v2 \<Rightarrow> v2_segment option" where
  "find_segment number s = List.find (\<lambda>g. seg_number g = number) (segments s)"

text \<open>Writing through the pointer that \<open>find_segment\<close> returned.\<close>

fun modify_first :: "nat \<Rightarrow> (v2_segment \<Rightarrow> v2_segment) \<Rightarrow> v2_segment list \<Rightarrow> v2_segment list" where
  "modify_first number f [] = []"
| "modify_first number f (g # gs) =
     (if seg_number g = number then f g # gs else g # modify_first number f gs)"

subsection \<open>The directory\<close>

text \<open>The parent directory is opened, synced and closed; the path of the parent is not needed.\<close>

definition fsync_parent :: "string \<Rightarrow> disk \<Rightarrow> gateway_error_code \<times> disk" where
  "fsync_parent path d =
     (if length path \<ge> GATEWAY_SPOOL_PATH_SIZE then (GATEWAY_ERROR_RANGE, d)
      else if CHR ''/'' \<notin> set path then (GATEWAY_ERROR_ARGUMENT, d)
      else let (opened, d) = sys_call d in
        if \<not> opened then (GATEWAY_ERROR_IO, d)
        else let (synced, d) = sys_call d; (closed, d) = sys_close d in
          (if synced \<and> closed then GATEWAY_OK else GATEWAY_ERROR_IO, d))"

text \<open>\<open>lstat\<close>: the status of the path, or \<open>Path_error\<close> when the call itself fails.\<close>

definition sys_lstat :: "disk \<Rightarrow> path_status \<times> disk" where
  "sys_lstat d = (let (ok, d) = sys_call d in (if ok then directory_status d else Path_error, d))"

definition sys_mkdir :: "disk \<Rightarrow> bool \<times> disk" where
  "sys_mkdir d =
     (let (ok, d) = sys_call d in
      if ok then (True, d\<lparr>directory_status := Path_directory\<rparr>) else (False, d))"

definition open_directory :: "string \<Rightarrow> gateway_spool_v2 \<Rightarrow> gateway_error_code \<times> gateway_spool_v2" where
  "open_directory path s =
     (let (ok, d) = sys_call (io s) in
      (if ok then GATEWAY_OK else GATEWAY_ERROR_IO,
       s\<lparr>directory := path, directory_fd := ok, io := d\<rparr>))"

definition ensure_directory :: "string \<Rightarrow> gateway_spool_v2 \<Rightarrow> gateway_error_code \<times> gateway_spool_v2" where
  "ensure_directory path s =
     (if take 1 path \<noteq> ''/'' \<or> length path < 2 \<or> length path \<ge> GATEWAY_SPOOL_PATH_SIZE
      then (GATEWAY_ERROR_ARGUMENT, s)
      else let (status, d) = sys_lstat (io s); s = s\<lparr>io := d\<rparr> in
        case status of
          Path_directory \<Rightarrow> open_directory path s
        | Path_other \<Rightarrow> (GATEWAY_ERROR_INVALID_VALUE, s)
        | Path_error \<Rightarrow> (GATEWAY_ERROR_IO, s)
        | Path_missing \<Rightarrow>
            let (made, d) = sys_mkdir (io s); s = s\<lparr>io := d\<rparr> in
            if \<not> made then (GATEWAY_ERROR_IO, s)
            else let (code, d) = fsync_parent path (io s); s = s\<lparr>io := d\<rparr> in
              if code \<noteq> GATEWAY_OK then (GATEWAY_ERROR_IO, s) else open_directory path s)"

text \<open>The \<open>readdir\<close> loop: a failing \<open>readdir\<close> ends it with \<open>errno\<close> set. Every exit closes the
  directory stream.\<close>

definition close_with :: "gateway_error_code \<Rightarrow> gateway_spool_v2 \<Rightarrow> gateway_error_code \<times> gateway_spool_v2" where
  "close_with code s = (code, s\<lparr>io := snd (sys_close (io s))\<rparr>)"

fun inspect_names ::
    "string list \<Rightarrow> bool \<Rightarrow> bool \<Rightarrow> gateway_spool_v2 \<Rightarrow>
       gateway_error_code \<times> bool \<times> bool \<times> gateway_spool_v2" where
  "inspect_names [] state_exists tmp_exists s =
     (let (ok, d) = sys_call (io s); s = s\<lparr>io := d\<rparr> in
      if \<not> ok then (let (code, s) = close_with GATEWAY_ERROR_IO s in (code, state_exists, tmp_exists, s))
      else let (closed, d) = sys_close (io s) in
        (if closed then GATEWAY_OK else GATEWAY_ERROR_IO, state_exists, tmp_exists, s\<lparr>io := d\<rparr>))"
| "inspect_names (name # rest) state_exists tmp_exists s =
     (let (ok, d) = sys_call (io s); s = s\<lparr>io := d\<rparr> in
      if \<not> ok then (let (code, s) = close_with GATEWAY_ERROR_IO s in (code, state_exists, tmp_exists, s))
      else if name = ''.'' \<or> name = ''..'' \<or> name = ''lock''
      then inspect_names rest state_exists tmp_exists s
      else if name = ''state.v2'' then inspect_names rest True tmp_exists s
      else if name = ''state.v2.tmp'' then inspect_names rest state_exists True s
      else case parse_segment_name name of
        None \<Rightarrow> (let (code, s) = close_with GATEWAY_ERROR_INVALID_VALUE s in
                 (code, state_exists, tmp_exists, s))
      | Some number \<Rightarrow>
          let (code, s) = add_segment number s in
          if code \<noteq> GATEWAY_OK
          then (let (code, s) = close_with code s in (code, state_exists, tmp_exists, s))
          else inspect_names rest state_exists tmp_exists s)"

fun adjacent_duplicate :: "v2_segment list \<Rightarrow> bool" where
  "adjacent_duplicate (a # b # gs) = (seg_number a = seg_number b \<or> adjacent_duplicate (b # gs))"
| "adjacent_duplicate _ = False"

definition inspect_directory ::
    "gateway_spool_v2 \<Rightarrow> gateway_error_code \<times> bool \<times> bool \<times> gateway_spool_v2" where
  "inspect_directory s =
     (let (duplicated, d) = sys_call (io s); s = s\<lparr>io := d\<rparr> in
      if \<not> duplicated then (GATEWAY_ERROR_IO, False, False, s)
      else let (opened, d) = sys_call (io s); s = s\<lparr>io := d\<rparr> in
        if \<not> opened then (GATEWAY_ERROR_IO, False, False, s\<lparr>io := snd (sys_close (io s))\<rparr>)
        else let (code, state_exists, tmp_exists, s) =
                   inspect_names (map fst (names (io s))) False False s in
          if code \<noteq> GATEWAY_OK then (code, state_exists, tmp_exists, s)
          else if length (segments s) > 1
          then let s = sort_segments s in
            (if adjacent_duplicate (segments s) then GATEWAY_ERROR_INVALID_VALUE else GATEWAY_OK,
             state_exists, tmp_exists, s)
          else (GATEWAY_OK, state_exists, tmp_exists, s))"

subsection \<open>The state file\<close>

text \<open>Bytes 16 to 95 of the image: the cursors, and the segment size they were written with.\<close>

definition state_fields :: "gateway_spool_v2 \<Rightarrow> nat \<Rightarrow> bytes" where
  "state_fields s gen =
     put_u64 (of_nat gen) @ put_u64 (last_allocated_seq s) @ put_u64 (sequence_fence s) @
     put_u64 (last_acked_seq s) @ put_u64 (of_nat (next_batch_seq s)) @
     put_u64 (of_nat (ack_segment s)) @ put_u64 (of_nat (ack_offset s)) @
     put_u64 (of_nat (write_segment s)) @ put_u64 (of_nat (write_offset s)) @
     put_u64 (of_nat (segment_records s))"

definition encode_state :: "gateway_spool_v2 \<Rightarrow> nat \<Rightarrow> bytes" where
  "encode_state s gen =
     (let tail = replicate 4 0 @ state_fields s gen @ replicate 16 0 in
      V2_STATE_MAGIC @ put_u16 2 @ put_u16 (of_nat V2_STATE_SIZE) @ put_u32 (crc32_bytes tail) @ tail)"

text \<open>Every error path of \<open>persist_state\<close> removes the temporary file and keeps the code.\<close>

definition discard_tmp ::
    "gateway_error_code \<Rightarrow> gateway_spool_v2 \<Rightarrow> gateway_error_code \<times> gateway_spool_v2" where
  "discard_tmp code s = (code, s\<lparr>io := snd (sys_unlink ''state.v2.tmp'' (io s))\<rparr>)"

definition persist_state :: "gateway_spool_v2 \<Rightarrow> gateway_error_code \<times> gateway_spool_v2" where
  "persist_state s =
     (if generation s = u64_max then (GATEWAY_ERROR_RANGE, s)
      else
        let gen = generation s + 1;
            image = encode_state s gen;
            (descriptor, d) = sys_open_trunc ''state.v2.tmp'' (io s);
            s = s\<lparr>io := d\<rparr>
        in case descriptor of
          None \<Rightarrow> (GATEWAY_ERROR_IO, s)
        | Some ino \<Rightarrow>
            let (hit, s) = inject_fault GATEWAY_SPOOL_FAULT_STATE_WRITE s;
                (code, s) = (if hit then (GATEWAY_ERROR_IO, s)
                             else let (code, d) = write_exact ino image 0 (io s) in (code, s\<lparr>io := d\<rparr>));
                (code, s) = (if code = GATEWAY_OK
                             then sync_descriptor (Sync_file ino) GATEWAY_SPOOL_FAULT_STATE_SYNC s
                             else (code, s));
                (closed, d) = sys_close (io s);
                s = s\<lparr>io := d\<rparr>;
                code = (if \<not> closed \<and> code = GATEWAY_OK then GATEWAY_ERROR_IO else code)
            in if code \<noteq> GATEWAY_OK then discard_tmp code s
               else
                 let (hit, s) = inject_fault GATEWAY_SPOOL_FAULT_STATE_RENAME s;
                     (renamed, s) = (if hit then (False, s)
                                     else let (ok, d) = sys_rename ''state.v2.tmp'' ''state.v2'' (io s)
                                          in (ok, s\<lparr>io := d\<rparr>))
                 in if \<not> renamed then discard_tmp GATEWAY_ERROR_IO s
                    else let (code, s) = sync_directory s in
                      if code = GATEWAY_OK then (code, s\<lparr>generation := gen\<rparr>) else (code, s))"

text \<open>The checks on the 112 bytes, the fields they carry, and the checks on the fields.\<close>

definition state_image_valid :: "bytes \<Rightarrow> bool" where
  "state_image_valid st \<longleftrightarrow>
     take 4 st = V2_STATE_MAGIC \<and> get_u16 (drop 4 st) = 2 \<and>
     get_u16 (drop 6 st) = of_nat V2_STATE_SIZE \<and>
     get_u32 (drop 8 st) = crc32_bytes (drop 12 st) \<and> get_u32 (drop 12 st) = 0 \<and>
     get_u64 (drop 96 st) = 0 \<and> get_u64 (drop 104 st) = 0"

definition set_state_fields :: "bytes \<Rightarrow> gateway_spool_v2 \<Rightarrow> gateway_spool_v2" where
  "set_state_fields st s = s\<lparr>
     generation := unat (get_u64 (drop 16 st)),
     last_allocated_seq := get_u64 (drop 24 st),
     sequence_fence := get_u64 (drop 32 st),
     last_acked_seq := get_u64 (drop 40 st),
     next_batch_seq := unat (get_u64 (drop 48 st)),
     ack_segment := unat (get_u64 (drop 56 st)),
     ack_offset := unat (get_u64 (drop 64 st)),
     write_segment := unat (get_u64 (drop 72 st)),
     write_offset := unat (get_u64 (drop 80 st))\<rparr>"

definition state_fields_invalid :: "bytes \<Rightarrow> gateway_spool_v2 \<Rightarrow> bool" where
  "state_fields_invalid st s \<longleftrightarrow>
     generation s = 0 \<or> next_batch_seq s = 0 \<or> ack_segment s = 0 \<or> write_segment s = 0 \<or>
     ack_segment s > write_segment s \<or>
     ack_offset s mod GATEWAY_SPOOL_ENTRY_SIZE \<noteq> 0 \<or>
     write_offset s mod GATEWAY_SPOOL_ENTRY_SIZE \<noteq> 0 \<or>
     ack_offset s > segment_bytes s \<or> write_offset s > segment_bytes s \<or>
     unat (get_u64 (drop 88 st)) \<noteq> segment_records s \<or>
     last_acked_seq s > last_allocated_seq s \<or> last_allocated_seq s > sequence_fence s"

text \<open>Whether \<open>openat\<close> failed because the file is missing is read off the directory.\<close>

definition load_state :: "gateway_spool_v2 \<Rightarrow> gateway_error_code \<times> gateway_spool_v2" where
  "load_state s =
     (let missing = map_of (names (io s)) ''state.v2'' = None;
          (attempted, d0) = sys_call (io s);
          (descriptor, d) = sys_open ''state.v2'' (io s);
          s = s\<lparr>io := d\<rparr>
      in case descriptor of
        None \<Rightarrow> (if attempted \<and> missing then GATEWAY_ERROR_CLOSED else GATEWAY_ERROR_IO, s)
      | Some ino \<Rightarrow>
          let (status, d) = sys_fstat ino (io s);
              (content_read, d) =
                (case status of
                   Some (reg, n) \<Rightarrow> if reg \<and> n = V2_STATE_SIZE then read_exact ino V2_STATE_SIZE 0 d
                                   else (Inl GATEWAY_ERROR_INVALID_VALUE, d)
                 | None \<Rightarrow> (Inl GATEWAY_ERROR_INVALID_VALUE, d));
              (closed, d) = sys_close d;
              s = s\<lparr>io := d\<rparr>
          in case content_read of
               Inl _ \<Rightarrow> (GATEWAY_ERROR_INVALID_VALUE, s)
             | Inr st \<Rightarrow>
                 if \<not> closed then (GATEWAY_ERROR_IO, s)
                 else if \<not> state_image_valid st then (GATEWAY_ERROR_INVALID_VALUE, s)
                 else let s = set_state_fields st s in
                   (if state_fields_invalid st s then GATEWAY_ERROR_INVALID_VALUE else GATEWAY_OK, s))"

subsection \<open>Recovery of the segments\<close>

definition open_segment_fd ::
    "nat \<Rightarrow> (string \<Rightarrow> disk \<Rightarrow> nat option \<times> disk) \<Rightarrow> gateway_spool_v2 \<Rightarrow>
       (gateway_error_code + nat) \<times> gateway_spool_v2" where
  "open_segment_fd number openat s =
     (let (descriptor, d) = openat (segment_name number) (io s) in
      (case descriptor of Some ino \<Rightarrow> Inr ino | None \<Rightarrow> Inl GATEWAY_ERROR_IO, s\<lparr>io := d\<rparr>))"

definition read_record_at ::
    "nat \<Rightarrow> nat \<Rightarrow> gateway_spool_v2 \<Rightarrow> (gateway_error_code + telemetry_record) \<times> gateway_spool_v2" where
  "read_record_at number offset s =
     (let (descriptor, s) = open_segment_fd number sys_open s in
      case descriptor of
        Inl code \<Rightarrow> (Inl code, s)
      | Inr ino \<Rightarrow>
          let (entry, d) = read_exact ino GATEWAY_SPOOL_ENTRY_SIZE offset (io s);
              (closed, d) = sys_close d
          in (case entry of
                Inl code \<Rightarrow> Inl code
              | Inr bs \<Rightarrow> if \<not> closed then Inl GATEWAY_ERROR_IO else v2_decode_record bs,
              s\<lparr>io := d\<rparr>))"

text \<open>The entry loop of \<open>scan_one_segment\<close> over the remaining offsets. Its result is the code,
  the valid size, the last sequence number seen, and the entry of the segment table.\<close>

fun scan_entries ::
    "nat list \<Rightarrow> nat \<Rightarrow> bool \<Rightarrow> nat \<Rightarrow> u64 \<Rightarrow> v2_segment \<Rightarrow> gateway_spool_v2 \<Rightarrow>
       gateway_error_code \<times> nat \<times> u64 \<times> v2_segment \<times> gateway_spool_v2" where
  "scan_entries [] ino final_segment valid_size previous_seq g s =
     (GATEWAY_OK, valid_size, previous_seq, g, s)"
| "scan_entries (offset # offsets) ino final_segment valid_size previous_seq g s =
     (let (entry, d) = read_exact ino GATEWAY_SPOOL_ENTRY_SIZE offset (io s);
          s = s\<lparr>io := d\<rparr>;
          bad = (if \<not> final_segment \<or> offset + GATEWAY_SPOOL_ENTRY_SIZE \<noteq> valid_size
                 then (GATEWAY_ERROR_INVALID_VALUE, valid_size, previous_seq, g,
                       s\<lparr>corruptions := corruptions s + 1\<rparr>)
                 else (GATEWAY_OK, offset, previous_seq, g, s))
      in case (case entry of Inl code \<Rightarrow> Inl code | Inr bs \<Rightarrow> v2_decode_record bs) of
           Inl _ \<Rightarrow> bad
         | Inr r \<Rightarrow>
             if previous_seq \<noteq> 0 \<and> gateway_seq r \<le> previous_seq then bad
             else scan_entries offsets ino final_segment valid_size (gateway_seq r)
                    (g\<lparr>seg_first_seq := (if seg_first_seq g = 0 then gateway_seq r else seg_first_seq g),
                       seg_last_seq := gateway_seq r\<rparr>) s)"

text \<open>\<open>index\<close> is the position of the segment in the table, through which the code writes the
  sequence numbers and the size.\<close>

definition scan_one_segment ::
    "nat \<Rightarrow> bool \<Rightarrow> u64 \<Rightarrow> gateway_spool_v2 \<Rightarrow> gateway_error_code \<times> u64 \<times> gateway_spool_v2" where
  "scan_one_segment index final_segment previous_seq s =
     (let g = segments s ! index;
          (descriptor, s) = open_segment_fd (seg_number g) sys_open s
      in case descriptor of
        Inl code \<Rightarrow> (code, previous_seq, s)
      | Inr ino \<Rightarrow>
          let (status, d) = sys_fstat ino (io s); s = s\<lparr>io := d\<rparr>;
              fail = (\<lambda>code s. (let (code, s) = close_with code s in (code, previous_seq, s)))
          in case status of
            None \<Rightarrow> fail GATEWAY_ERROR_INVALID_VALUE s
          | Some (reg, st_size) \<Rightarrow>
              if \<not> reg \<or> st_size > segment_bytes s then fail GATEWAY_ERROR_INVALID_VALUE s
              else let valid_size = st_size - st_size mod GATEWAY_SPOOL_ENTRY_SIZE in
              if valid_size \<noteq> st_size \<and> \<not> final_segment then fail GATEWAY_ERROR_INVALID_VALUE s
              else
                let (code, valid_size, seq, g, s) =
                  scan_entries (map (\<lambda>k. k * GATEWAY_SPOOL_ENTRY_SIZE)
                    [0..<valid_size div GATEWAY_SPOOL_ENTRY_SIZE]) ino final_segment valid_size
                    previous_seq g s;
                  s = s\<lparr>segments := (segments s)[index := g]\<rparr>
                in if code \<noteq> GATEWAY_OK then fail code s
                else
                  let (code, s) =
                    (if valid_size \<noteq> st_size
                     then let (ok, d) = sys_ftruncate ino valid_size (io s); s = s\<lparr>io := d\<rparr> in
                       if \<not> ok then (GATEWAY_ERROR_IO, s)
                       else let (code, s) =
                              sync_descriptor (Sync_file ino) GATEWAY_SPOOL_FAULT_SEGMENT_SYNC s in
                         if code \<noteq> GATEWAY_OK then (code, s)
                         else (GATEWAY_OK, s\<lparr>tail_recoveries := tail_recoveries s + 1\<rparr>)
                     else (GATEWAY_OK, s))
                  in if code \<noteq> GATEWAY_OK then (let (code, s) = close_with code s in (code, seq, s))
                  else
                    let (closed, d) = sys_close (io s); s = s\<lparr>io := d\<rparr> in
                    if \<not> closed then (GATEWAY_ERROR_IO, seq, s)
                    else (GATEWAY_OK, seq, s\<lparr>
                      segments := (segments s)[index := (segments s ! index)\<lparr>seg_size := valid_size\<rparr>],
                      physical_bytes := physical_bytes s + valid_size\<rparr>))"

definition sync_recovered_segment ::
    "nat \<Rightarrow> gateway_spool_v2 \<Rightarrow> gateway_error_code \<times> gateway_spool_v2" where
  "sync_recovered_segment number s =
     (let (descriptor, s) = open_segment_fd number sys_open s in
      case descriptor of
        Inl code \<Rightarrow> (code, s)
      | Inr ino \<Rightarrow>
          let (code, s) = sync_descriptor (Sync_file ino) GATEWAY_SPOOL_FAULT_SEGMENT_SYNC s;
              (closed, d) = sys_close (io s)
          in (if \<not> closed \<and> code = GATEWAY_OK then GATEWAY_ERROR_IO else code, s\<lparr>io := d\<rparr>))"

text \<open>The loop of \<open>validate_and_scan\<close> over the segment table, with its three accumulators.\<close>

definition check_segment :: "nat \<Rightarrow> gateway_spool_v2 \<Rightarrow> bool" where
  "check_segment index s =
     (let g = segments s ! index in
      \<not> seg_number g > write_segment s \<and>
      \<not> (seg_number g \<ge> ack_segment s \<and> seg_number g < write_segment s \<and>
         seg_size g \<noteq> segment_bytes s) \<and>
      \<not> (index > 0 \<and> seg_number g \<ge> ack_segment s \<and>
         seg_number (segments s ! (index - 1)) \<ge> ack_segment s \<and>
         seg_number g \<noteq> seg_number (segments s ! (index - 1)) + 1))"

fun scan_segments ::
    "nat list \<Rightarrow> u64 \<Rightarrow> u64 \<Rightarrow> u64 \<Rightarrow> gateway_spool_v2 \<Rightarrow>
       gateway_error_code \<times> u64 \<times> u64 \<times> gateway_spool_v2" where
  "scan_segments [] previous_seq actual_last actual_pending_last s =
     (GATEWAY_OK, actual_last, actual_pending_last, s)"
| "scan_segments (index # rest) previous_seq actual_last actual_pending_last s =
     (let final_segment = (index + 1 = length (segments s) \<and>
            seg_number (segments s ! index) = write_segment s);
          (code, previous_seq, s) = scan_one_segment index final_segment previous_seq s
      in if code \<noteq> GATEWAY_OK then (code, actual_last, actual_pending_last, s)
         else if \<not> check_segment index s
         then (GATEWAY_ERROR_INVALID_VALUE, actual_last, actual_pending_last, s)
         else let g = segments s ! index in
           if seg_last_seq g \<noteq> 0
           then scan_segments rest previous_seq (seg_last_seq g)
             (if seg_number g \<ge> ack_segment s then seg_last_seq g else actual_pending_last) s
           else scan_segments rest previous_seq actual_last actual_pending_last s)"

text \<open>The comparison of the write cursor with the segment found on disk: records beyond the
  cursor are synced and taken in. The flag is \<open>reconcile\<close>.\<close>

definition reconcile_write ::
    "gateway_spool_v2 \<Rightarrow> gateway_error_code \<times> bool \<times> gateway_spool_v2" where
  "reconcile_write s =
     (case find_segment (write_segment s) s of
        None \<Rightarrow> (if write_offset s \<noteq> 0 then GATEWAY_ERROR_INVALID_VALUE else GATEWAY_OK, False, s)
      | Some w \<Rightarrow>
          if seg_size w < write_offset s then (GATEWAY_ERROR_INVALID_VALUE, False, s)
          else if seg_size w > write_offset s then
            if seg_last_seq w > sequence_fence s then (GATEWAY_ERROR_INVALID_VALUE, False, s)
            else let (code, s) = sync_recovered_segment (write_segment s) s in
              if code \<noteq> GATEWAY_OK then (code, False, s)
              else let s = s\<lparr>write_offset := seg_size w, last_allocated_seq := seg_last_seq w\<rparr> in
                if write_offset s = segment_bytes s
                then if write_segment s = u64_max then (GATEWAY_ERROR_RANGE, False, s)
                     else (GATEWAY_OK, True,
                           s\<lparr>write_segment := write_segment s + 1, write_offset := 0\<rparr>)
                else (GATEWAY_OK, True, s)
          else (GATEWAY_OK, False, s))"

text \<open>The checks of the acknowledge cursor: \<open>ack\<close> is the table entry found before the write
  cursor was moved.\<close>

definition check_ack ::
    "v2_segment option \<Rightarrow> gateway_spool_v2 \<Rightarrow> gateway_error_code \<times> gateway_spool_v2" where
  "check_ack ack s =
     (case ack of
        None \<Rightarrow> (if ack_segment s < write_segment s then GATEWAY_ERROR_INVALID_VALUE else GATEWAY_OK, s)
      | Some a \<Rightarrow>
          if ack_offset s > seg_size a then (GATEWAY_ERROR_INVALID_VALUE, s)
          else if ack_offset s \<noteq> 0 then
            let (r, s) = read_record_at (ack_segment s) (ack_offset s - GATEWAY_SPOOL_ENTRY_SIZE) s in
            (case r of
               Inl _ \<Rightarrow> GATEWAY_ERROR_INVALID_VALUE
             | Inr r \<Rightarrow> if gateway_seq r \<noteq> last_acked_seq s then GATEWAY_ERROR_INVALID_VALUE
                        else GATEWAY_OK, s)
          else (GATEWAY_OK, s))"

definition validate_and_scan :: "gateway_spool_v2 \<Rightarrow> gateway_error_code \<times> gateway_spool_v2" where
  "validate_and_scan s =
     (let (code, actual_last, actual_pending_last, s) =
            scan_segments [0..<length (segments s)] 0 0 0 s
      in if code \<noteq> GATEWAY_OK then (code, s)
      else let ack = find_segment (ack_segment s) s; (code, reconcile, s) = reconcile_write s in
        if code \<noteq> GATEWAY_OK then (code, s)
        else let (code, s) = check_ack ack s in
          if code \<noteq> GATEWAY_OK then (code, s)
          else if actual_last > sequence_fence s \<or>
                  actual_pending_last \<noteq> 0 \<and> actual_pending_last < last_acked_seq s
          then (GATEWAY_ERROR_INVALID_VALUE, s)
          else if reconcile then persist_state (s\<lparr>state_recoveries := state_recoveries s + 1\<rparr>)
          else (GATEWAY_OK, s))"

subsection \<open>Reclaiming acknowledged segments\<close>

text \<open>The loop: \<open>kept\<close> is the compacted front of the table, \<open>rest\<close> what is still to be looked
  at. An early return leaves the table as it was found, with the front already overwritten.\<close>

fun reclaim_loop ::
    "v2_segment list \<Rightarrow> v2_segment list \<Rightarrow> bool \<Rightarrow> gateway_spool_v2 \<Rightarrow>
       gateway_error_code \<times> v2_segment list \<times> bool \<times> gateway_spool_v2" where
  "reclaim_loop kept [] removed s = (GATEWAY_OK, kept, removed, s)"
| "reclaim_loop kept (g # rest) removed s =
     (if seg_number g < ack_segment s
      then let (hit, s) = inject_fault GATEWAY_SPOOL_FAULT_SEGMENT_DELETE s;
               (ok, s) = (if hit then (False, s)
                          else let (ok, d) = sys_unlink (segment_name (seg_number g)) (io s)
                               in (ok, s\<lparr>io := d\<rparr>))
           in if \<not> ok then (GATEWAY_ERROR_IO, kept, removed, s)
              else reclaim_loop kept rest True
                     (s\<lparr>physical_bytes := physical_bytes s - seg_size g,
                        segments_reclaimed := segments_reclaimed s + 1\<rparr>)
      else reclaim_loop (kept @ [g]) rest removed s)"

definition remove_reclaimed_segments ::
    "gateway_spool_v2 \<Rightarrow> gateway_error_code \<times> gateway_spool_v2" where
  "remove_reclaimed_segments s =
     (let (code, kept, removed, s) = reclaim_loop [] (segments s) False s in
      if code \<noteq> GATEWAY_OK
      then (code, s\<lparr>segments := kept @ drop (length kept) (segments s)\<rparr>)
      else let s = s\<lparr>segments := kept\<rparr> in
        if removed then sync_directory s else (GATEWAY_OK, s))"

definition segment_pending :: "gateway_spool_v2 \<Rightarrow> v2_segment \<Rightarrow> nat" where
  "segment_pending s g =
     (if seg_number g < ack_segment s then 0
      else if seg_number g = ack_segment s
      then if seg_size g > ack_offset s
           then (seg_size g - ack_offset s) div GATEWAY_SPOOL_ENTRY_SIZE else 0
      else seg_size g div GATEWAY_SPOOL_ENTRY_SIZE)"

definition pending_records :: "gateway_spool_v2 \<Rightarrow> nat" where
  "pending_records s = fold (\<lambda>g count. count + segment_pending s g) (segments s) 0"

subsection \<open>Opening and closing\<close>

definition ensure_write_segment :: "gateway_spool_v2 \<Rightarrow> gateway_error_code \<times> gateway_spool_v2" where
  "ensure_write_segment s =
     (if segment_fd s \<noteq> None \<and> open_segment s = write_segment s then (GATEWAY_OK, s)
      else
        let (closed, s) =
              (if segment_fd s \<noteq> None
               then let (ok, d) = sys_close (io s) in (ok, s\<lparr>segment_fd := None, io := d\<rparr>)
               else (True, s))
        in if \<not> closed then (GATEWAY_ERROR_IO, s)
        else case find_segment (write_segment s) s of
          None \<Rightarrow>
            let (descriptor, s) = open_segment_fd (write_segment s) sys_open_excl s in
            (case descriptor of
               Inl code \<Rightarrow> (code, s)
             | Inr ino \<Rightarrow>
                 let s = s\<lparr>segment_fd := Some ino\<rparr>; (code, s) = add_segment (write_segment s) s in
                 if code \<noteq> GATEWAY_OK
                 then (code, s\<lparr>segment_fd := None, io := snd (sys_close (io s))\<rparr>)
                 else let (code, s) = sync_directory (sort_segments s) in
                   if code \<noteq> GATEWAY_OK then (code, s)
                   else (GATEWAY_OK, s\<lparr>open_segment := write_segment s\<rparr>))
        | Some _ \<Rightarrow>
            let (descriptor, s) = open_segment_fd (write_segment s) sys_open s in
            (case descriptor of
               Inl code \<Rightarrow> (code, s)
             | Inr ino \<Rightarrow> (GATEWAY_OK, s\<lparr>segment_fd := Some ino, open_segment := write_segment s\<rparr>)))"

definition gateway_spool_v2_flush :: "gateway_spool_v2 \<Rightarrow> gateway_error_code \<times> gateway_spool_v2" where
  "gateway_spool_v2_flush s =
     (if failed s then (GATEWAY_ERROR_CLOSED, s)
      else if unsynced_records s = 0 then (GATEWAY_OK, s)
      else case segment_fd s of
        None \<Rightarrow> (GATEWAY_ERROR_SYSTEM, s\<lparr>failed := True\<rparr>)
      | Some ino \<Rightarrow>
          let (code, s) = sync_descriptor (Sync_file ino) GATEWAY_SPOOL_FAULT_SEGMENT_SYNC s in
          if code \<noteq> GATEWAY_OK then (code, s\<lparr>failed := True\<rparr>)
          else
            let rotate = (write_offset s = segment_bytes s) in
            if rotate \<and> write_segment s = u64_max then (GATEWAY_ERROR_RANGE, s\<lparr>failed := True\<rparr>)
            else
              let s = (if rotate then s\<lparr>write_segment := write_segment s + 1, write_offset := 0\<rparr> else s);
                  (code, s) = persist_state (s\<lparr>sequence_fence := last_allocated_seq s\<rparr>)
              in if code \<noteq> GATEWAY_OK then (code, s\<lparr>failed := True\<rparr>)
              else
                let s = s\<lparr>unsynced_records := 0, sync_deadline_set := False\<rparr> in
                if rotate
                then let (closed, d) = sys_close (io s); s = s\<lparr>segment_fd := None, io := d\<rparr> in
                  if \<not> closed then (GATEWAY_ERROR_IO, s\<lparr>failed := True\<rparr>)
                  else (GATEWAY_OK, s\<lparr>open_segment := 0\<rparr>)
                else (GATEWAY_OK, s))"

text \<open>Closing leaves only the file system.\<close>

definition gateway_spool_v2_close :: "gateway_spool_v2 \<Rightarrow> disk" where
  "gateway_spool_v2_close s =
     (let s = (if \<not> failed s then snd (gateway_spool_v2_flush s) else s);
          d = (if segment_fd s \<noteq> None then snd (sys_close (io s)) else io s);
          d = (if lock_fd s \<noteq> None then snd (sys_close d) else d)
      in if directory_fd s then snd (sys_close d) else d)"

text \<open>The structure after \<open>calloc\<close> and the assignments that follow it.\<close>

definition fresh_spool ::
    "gateway_spool_v2_options \<Rightarrow> nat \<Rightarrow> gateway_spool_fault_point \<Rightarrow> disk \<Rightarrow> gateway_spool_v2" where
  "fresh_spool opts seg_records initial_fault d =
     \<lparr>directory_fd = False, lock_fd = None, segment_fd = None, open_segment = 0, directory = [],
      options = opts, segment_records = seg_records,
      segment_bytes = seg_records * GATEWAY_SPOOL_ENTRY_SIZE, generation = 0,
      last_allocated_seq = 0, sequence_fence = 0, last_acked_seq = 0, next_batch_seq = 0,
      ack_segment = 0, ack_offset = 0, write_segment = 0, write_offset = 0,
      prepared_segment = 0, prepared_offset = 0, prepared_last_seq = 0,
      segments = [], segment_capacity = 0, physical_bytes = 0, records_appended = 0,
      records_replayed = 0, tail_recoveries = 0, state_recoveries = 0, corruptions = 0,
      segments_reclaimed = 0, sync_count = 0, sync_failures = 0, unsynced_records = 0,
      sync_deadline = \<lparr>tv_sec = 0, tv_nsec = 0\<rparr>, sync_deadline_set = False,
      fault_once = initial_fault, batch_prepared = False, failed = False, io = d\<rparr>"

definition options_valid :: "gateway_spool_v2_options \<Rightarrow> nat \<Rightarrow> bool" where
  "options_valid opts seg_records \<longleftrightarrow>
     seg_records \<noteq> 0 \<and> seg_records \<le> GATEWAY_SPOOL_V2_SEGMENT_RECORDS \<and>
     max_bytes opts \<ge> seg_records * GATEWAY_SPOOL_ENTRY_SIZE \<and>
     max_bytes opts \<le> GATEWAY_SPOOL_MAX_BYTES_MAX \<and>
     sync_records opts \<noteq> 0 \<and> sync_records opts \<le> seg_records \<and>
     sync_interval_ms opts \<noteq> 0 \<and> sync_interval_ms opts \<le> 60000"

definition take_lock :: "gateway_spool_v2 \<Rightarrow> gateway_error_code \<times> gateway_spool_v2" where
  "take_lock s =
     (let (descriptor, d) = sys_open_create ''lock'' (io s);
          s = s\<lparr>lock_fd := descriptor, io := d\<rparr>
      in case descriptor of
        None \<Rightarrow> (GATEWAY_ERROR_IO, s)
      | Some _ \<Rightarrow> let (locked, d) = sys_call (io s) in
          (if locked then GATEWAY_OK else GATEWAY_ERROR_CLOSED, s\<lparr>io := d\<rparr>))"

definition remove_stale_tmp :: "bool \<Rightarrow> gateway_spool_v2 \<Rightarrow> gateway_error_code \<times> gateway_spool_v2" where
  "remove_stale_tmp tmp_exists s =
     (if \<not> tmp_exists then (GATEWAY_OK, s)
      else let (ok, d) = sys_unlink ''state.v2.tmp'' (io s); s = s\<lparr>io := d\<rparr> in
        if \<not> ok then (GATEWAY_ERROR_IO, s) else sync_directory s)"

definition first_or_load_state ::
    "bool \<Rightarrow> gateway_spool_v2 \<Rightarrow> gateway_error_code \<times> gateway_spool_v2" where
  "first_or_load_state state_exists s =
     (if \<not> state_exists
      then if segments s \<noteq> [] then (GATEWAY_ERROR_INVALID_VALUE, s)
           else persist_state (s\<lparr>next_batch_seq := 1, ack_segment := 1, write_segment := 1\<rparr>)
      else load_state s)"

text \<open>The chain of \<open>if (code == GATEWAY_OK)\<close> blocks.\<close>

definition and_then ::
    "gateway_error_code \<times> 's \<Rightarrow> ('s \<Rightarrow> gateway_error_code \<times> 's) \<Rightarrow> gateway_error_code \<times> 's" where
  "and_then r f = (case r of (code, s) \<Rightarrow> if code = GATEWAY_OK then f s else (code, s))"

definition open_steps :: "string \<Rightarrow> gateway_spool_v2 \<Rightarrow> gateway_error_code \<times> gateway_spool_v2" where
  "open_steps path s =
     and_then (ensure_directory path s) (\<lambda>s.
       let (code, state_exists, tmp_exists, s) = inspect_directory s in
       and_then (and_then (and_then (and_then (and_then (and_then (code, s)
         take_lock) sync_directory) (remove_stale_tmp tmp_exists))
         (first_or_load_state state_exists)) validate_and_scan) remove_reclaimed_segments)"

text \<open>The result is the code, what \<open>*spool\<close> points to afterwards, and the file system when no
  spool is returned. The first outcome is that of \<open>calloc\<close>.\<close>

definition gateway_spool_v2_open ::
    "bool \<Rightarrow> string option \<Rightarrow> gateway_spool_v2_options option \<Rightarrow> nat \<Rightarrow> gateway_spool_fault_point \<Rightarrow>
       disk \<Rightarrow> gateway_error_code \<times> gateway_spool_v2 option \<times> disk" where
  "gateway_spool_v2_open spool_pointer path opts seg_records initial_fault d =
     (case (path, opts) of
        (Some path, Some opts) \<Rightarrow>
          if \<not> spool_pointer \<or> \<not> options_valid opts seg_records
          then (GATEWAY_ERROR_ARGUMENT, None, d)
          else let (allocated, d) = sys_call d in
            if \<not> allocated then (GATEWAY_ERROR_SYSTEM, None, d)
            else let (code, s) = open_steps path (fresh_spool opts seg_records initial_fault d) in
              if code \<noteq> GATEWAY_OK then (code, None, gateway_spool_v2_close s)
              else (GATEWAY_OK, Some s, io s)
      | _ \<Rightarrow> (GATEWAY_ERROR_ARGUMENT, None, d))"

subsection \<open>Appending\<close>

text \<open>The reservation of sequence numbers: the fence is persisted before a record beyond it is
  written, so that a number is never given out again after a crash.\<close>

definition reserve_sequences ::
    "telemetry_record \<Rightarrow> gateway_spool_v2 \<Rightarrow> gateway_error_code \<times> gateway_spool_v2" where
  "reserve_sequences r s =
     (if gateway_seq r > sequence_fence s
      then
        let reservation = of_nat (sync_records (options s)) - 1 :: u64;
            (code, s) = (if unsynced_records s \<noteq> 0 then gateway_spool_v2_flush s else (GATEWAY_OK, s))
        in if code \<noteq> GATEWAY_OK then (code, s)
        else
          let (code, s) = persist_state (s\<lparr>sequence_fence :=
                (if gateway_seq r > - 1 - reservation then - 1 else gateway_seq r + reservation)\<rparr>)
          in if code \<noteq> GATEWAY_OK then (code, s\<lparr>failed := True\<rparr>) else (GATEWAY_OK, s)
      else (GATEWAY_OK, s))"

text \<open>The bookkeeping after the entry has been written.\<close>

definition note_appended :: "telemetry_record \<Rightarrow> gateway_spool_v2 \<Rightarrow> gateway_spool_v2" where
  "note_appended r s = s\<lparr>
     segments := modify_first (write_segment s)
       (\<lambda>g. g\<lparr>seg_first_seq := (if seg_first_seq g = 0 then gateway_seq r else seg_first_seq g),
              seg_last_seq := gateway_seq r,
              seg_size := seg_size g + GATEWAY_SPOOL_ENTRY_SIZE\<rparr>) (segments s),
     physical_bytes := physical_bytes s + GATEWAY_SPOOL_ENTRY_SIZE,
     write_offset := write_offset s + GATEWAY_SPOOL_ENTRY_SIZE,
     last_allocated_seq := gateway_seq r,
     records_appended := records_appended s + 1,
     unsynced_records := unsynced_records s + 1\<rparr>"

definition gateway_spool_v2_append ::
    "telemetry_record \<Rightarrow> gateway_spool_v2 \<Rightarrow> gateway_error_code \<times> gateway_spool_v2" where
  "gateway_spool_v2_append r s =
     (if gateway_seq r = 0 then (GATEWAY_ERROR_INVALID_VALUE, s)
      else if failed s then (GATEWAY_ERROR_CLOSED, s)
      else if gateway_seq r \<le> last_allocated_seq s then (GATEWAY_ERROR_INVALID_VALUE, s)
      else if physical_bytes s > max_bytes (options s) - GATEWAY_SPOOL_ENTRY_SIZE
      then (GATEWAY_ERROR_CAPACITY, s)
      else
        let (code, s) = reserve_sequences r s in
        if code \<noteq> GATEWAY_OK then (code, s)
        else let (code, s) = ensure_write_segment s in
        if code \<noteq> GATEWAY_OK then (code, s\<lparr>failed := True\<rparr>)
        else
          let ino = the (segment_fd s);
              (hit, s) = inject_fault GATEWAY_SPOOL_FAULT_APPEND_WRITE s;
              (code, s) = (if hit then (GATEWAY_ERROR_IO, s)
                           else let (code, d) =
                                  write_exact ino (v2_encode_record r) (write_offset s) (io s)
                                in (code, s\<lparr>io := d\<rparr>))
          in if code \<noteq> GATEWAY_OK
          then (code, s\<lparr>io := snd (sys_ftruncate ino (write_offset s) (io s)), failed := True\<rparr>)
          else if find_segment (write_segment s) s = None
          then (GATEWAY_ERROR_SYSTEM, s\<lparr>failed := True\<rparr>)
          else
            let s = note_appended r s;
                (code, s) = (if \<not> sync_deadline_set s then set_sync_deadline s else (GATEWAY_OK, s))
            in if code \<noteq> GATEWAY_OK then (code, s\<lparr>failed := True\<rparr>)
            else if unsynced_records s \<ge> sync_records (options s) \<or>
                    write_offset s = segment_bytes s
            then gateway_spool_v2_flush s
            else (GATEWAY_OK, s))"

subsection \<open>Batches\<close>

text \<open>The collecting loop of \<open>prepare_batch\<close>. \<open>batch\<close> is the filled part of the caller's array;
  the loop either adds a record or moves to the next segment, so it ends.\<close>

function prepare_loop ::
    "nat \<Rightarrow> nat \<Rightarrow> nat \<Rightarrow> telemetry_record list \<Rightarrow> gateway_spool_v2 \<Rightarrow>
       gateway_error_code \<times> nat \<times> nat \<times> telemetry_record list \<times> gateway_spool_v2" where
  "prepare_loop capacity number offset batch s =
     (if length batch \<ge> capacity then (GATEWAY_OK, number, offset, batch, s)
      else case find_segment number s of
        None \<Rightarrow> if number < write_segment s then prepare_loop capacity (number + 1) 0 batch s
                else (GATEWAY_OK, number, offset, batch, s)
      | Some g \<Rightarrow>
          if offset \<ge> seg_size g
          then if number < write_segment s then prepare_loop capacity (number + 1) 0 batch s
               else (GATEWAY_OK, number, offset, batch, s)
          else
            (case read_record_at number offset s of
               (Inl code, s') \<Rightarrow>
                 (code, number, offset, batch,
                  s'\<lparr>corruptions := corruptions s' + 1, failed := True\<rparr>)
             | (Inr r, s') \<Rightarrow>
                 if batch \<noteq> [] \<and> gateway_seq r \<le> gateway_seq (last batch)
                 then (GATEWAY_ERROR_INVALID_VALUE, number, offset, batch,
                       s'\<lparr>corruptions := corruptions s' + 1, failed := True\<rparr>)
                 else if offset + GATEWAY_SPOOL_ENTRY_SIZE = seg_size g \<and> seg_number g < write_segment s
                 then prepare_loop capacity (number + 1) 0 (batch @ [r]) s'
                 else prepare_loop capacity number (offset + GATEWAY_SPOOL_ENTRY_SIZE) (batch @ [r]) s'))"
  by pat_completeness auto

lemma read_record_at_frame [frame_simps]:
  "write_segment (snd (read_record_at number offset s)) = write_segment s"
  "segments (snd (read_record_at number offset s)) = segments s"
  by (simp_all add: read_record_at_def open_segment_fd_def split: sum.split option.split prod.split)

termination prepare_loop
  by (relation "inv_image (measure (\<lambda>(c, n). c) <*lex*> measure (\<lambda>(a, b). b - a))
        (\<lambda>(capacity, number, offset, batch, s). (((capacity - length batch), 0 :: nat), (number, write_segment s)))")
    auto

definition gateway_spool_v2_prepare_batch ::
    "nat \<Rightarrow> gateway_spool_v2 \<Rightarrow>
       gateway_error_code \<times> (telemetry_record list \<times> nat) option \<times> gateway_spool_v2" where
  "gateway_spool_v2_prepare_batch capacity s =
     (if capacity = 0 \<or> batch_prepared s then (GATEWAY_ERROR_ARGUMENT, None, s)
      else if failed s then (GATEWAY_ERROR_CLOSED, None, s)
      else let (code, s) = gateway_spool_v2_flush s in
        if code \<noteq> GATEWAY_OK then (code, None, s)
        else let (code, number, offset, batch, s) =
                   prepare_loop capacity (ack_segment s) (ack_offset s) [] s in
          if code \<noteq> GATEWAY_OK then (code, None, s)
          else (GATEWAY_OK, Some (batch, next_batch_seq s),
            if batch = [] then s
            else s\<lparr>prepared_segment := number, prepared_offset := offset,
                   prepared_last_seq := gateway_seq (last batch), batch_prepared := True,
                   records_replayed := records_replayed s + of_nat (length batch)\<rparr>))"

definition gateway_spool_v2_cancel_prepared :: "gateway_spool_v2 \<Rightarrow> gateway_spool_v2" where
  "gateway_spool_v2_cancel_prepared s =
     s\<lparr>batch_prepared := False, prepared_segment := 0, prepared_offset := 0, prepared_last_seq := 0\<rparr>"

text \<open>When everything written has been acknowledged and the write segment is not empty, both
  cursors move to a fresh segment, so that the old one can be removed.\<close>

definition advance_drained :: "gateway_spool_v2 \<Rightarrow> gateway_error_code \<times> gateway_spool_v2" where
  "advance_drained s =
     (if ack_segment s = write_segment s \<and> ack_offset s = write_offset s \<and> write_offset s \<noteq> 0
      then if write_segment s = u64_max then (GATEWAY_ERROR_RANGE, s)
        else
          let (closed, s) =
                (if segment_fd s \<noteq> None
                 then let (ok, d) = sys_close (io s); s = s\<lparr>segment_fd := None, io := d\<rparr>
                      in if ok then (True, s\<lparr>open_segment := 0\<rparr>) else (False, s\<lparr>failed := True\<rparr>)
                 else (True, s))
          in if \<not> closed then (GATEWAY_ERROR_IO, s)
          else (GATEWAY_OK, s\<lparr>write_segment := write_segment s + 1, write_offset := 0,
                              ack_segment := write_segment s + 1, ack_offset := 0\<rparr>)
      else (GATEWAY_OK, s))"

definition gateway_spool_v2_ack_prepared ::
    "gateway_spool_v2 \<Rightarrow> gateway_error_code \<times> gateway_spool_v2" where
  "gateway_spool_v2_ack_prepared s0 =
     (if \<not> batch_prepared s0 then (GATEWAY_ERROR_ARGUMENT, s0)
      else if failed s0 then (GATEWAY_ERROR_CLOSED, s0)
      else if next_batch_seq s0 = u64_max then (GATEWAY_ERROR_RANGE, s0)
      else
        let (code, s) = advance_drained (s0\<lparr>ack_segment := prepared_segment s0,
              ack_offset := prepared_offset s0, last_acked_seq := prepared_last_seq s0,
              next_batch_seq := next_batch_seq s0 + 1\<rparr>)
        in if code \<noteq> GATEWAY_OK then (code, s)
        else let (code, s) = persist_state s in
          if code \<noteq> GATEWAY_OK
          then (code, s\<lparr>ack_segment := ack_segment s0, ack_offset := ack_offset s0,
                        last_acked_seq := last_acked_seq s0, next_batch_seq := next_batch_seq s0,
                        write_segment := write_segment s0, write_offset := write_offset s0,
                        failed := True\<rparr>)
          else let (code, s) = remove_reclaimed_segments (gateway_spool_v2_cancel_prepared s) in
            if code \<noteq> GATEWAY_OK then (code, s\<lparr>failed := True\<rparr>) else (GATEWAY_OK, s))"

subsection \<open>Polling and reading\<close>

definition gateway_spool_v2_poll :: "gateway_spool_v2 \<Rightarrow> gateway_error_code \<times> gateway_spool_v2" where
  "gateway_spool_v2_poll s =
     (if failed s then (GATEWAY_ERROR_CLOSED, s)
      else if unsynced_records s \<noteq> 0 \<and> sync_deadline_set s
      then let (code, reached, s) = sync_deadline_reached s in
        if code \<noteq> GATEWAY_OK then (code, s\<lparr>failed := True\<rparr>)
        else if reached then gateway_spool_v2_flush s else (GATEWAY_OK, s)
      else (GATEWAY_OK, s))"

definition gateway_spool_v2_last_gateway_seq :: "gateway_spool_v2 \<Rightarrow> u64" where
  "gateway_spool_v2_last_gateway_seq s =
     (if sequence_fence s > last_allocated_seq s then sequence_fence s else last_allocated_seq s)"

record gateway_spool_snapshot =
  snap_total_records :: nat
  snap_pending_records :: nat
  snap_last_gateway_seq :: u64
  snap_last_acked_gateway_seq :: u64
  snap_next_batch_seq :: nat
  snap_records_appended :: u64
  snap_records_replayed :: u64
  snap_tail_recoveries :: u64
  snap_state_recoveries :: u64
  snap_corruptions :: u64
  snap_physical_bytes :: nat
  snap_pending_bytes :: nat
  snap_segment_count :: nat
  snap_segments_reclaimed :: u64
  snap_sync_count :: u64
  snap_sync_failures :: u64
  snap_unsynced_records :: nat
  snap_v2 :: bool
  snap_batch_prepared :: bool

definition gateway_spool_v2_read :: "gateway_spool_v2 \<Rightarrow> gateway_spool_snapshot" where
  "gateway_spool_v2_read s =
     (let pending = pending_records s in
      \<lparr>snap_total_records = physical_bytes s div GATEWAY_SPOOL_ENTRY_SIZE,
       snap_pending_records = pending,
       snap_last_gateway_seq = gateway_spool_v2_last_gateway_seq s,
       snap_last_acked_gateway_seq = last_acked_seq s,
       snap_next_batch_seq = next_batch_seq s,
       snap_records_appended = records_appended s,
       snap_records_replayed = records_replayed s,
       snap_tail_recoveries = tail_recoveries s,
       snap_state_recoveries = state_recoveries s,
       snap_corruptions = corruptions s,
       snap_physical_bytes = physical_bytes s,
       snap_pending_bytes = pending * GATEWAY_SPOOL_ENTRY_SIZE,
       snap_segment_count = length (segments s),
       snap_segments_reclaimed = segments_reclaimed s,
       snap_sync_count = sync_count s,
       snap_sync_failures = sync_failures s,
       snap_unsynced_records = unsynced_records s,
       snap_v2 = True,
       snap_batch_prepared = batch_prepared s\<rparr>)"

definition gateway_spool_v2_fail_next ::
    "gateway_spool_fault_point \<Rightarrow> gateway_spool_v2 \<Rightarrow> gateway_error_code \<times> gateway_spool_v2" where
  "gateway_spool_v2_fail_next point s =
     (if point = GATEWAY_SPOOL_FAULT_NONE \<or> fault_once s \<noteq> GATEWAY_SPOOL_FAULT_NONE
      then (GATEWAY_ERROR_ARGUMENT, s)
      else (GATEWAY_OK, s\<lparr>fault_once := point\<rparr>))"

end
