(* ===== verification/Spool_V2_Format.thy ===== *)
theory Spool_V2_Format
  imports Spool_V2
begin

text \<open>
  The names and images that \<open>spool_v2.c\<close> leaves on disk: segment names are read back as the number
  they were made from, the state image is read back field by field, and a damaged state image is
  refused.
\<close>

subsection \<open>Segment names\<close>

lemma digit_char_inverse [simp]: "n < 10 \<Longrightarrow> of_char (digit_char n) = 48 + n"
  by (simp add: digit_char_def)

lemma digit_char_of:
  "48 \<le> (of_char c :: nat) \<Longrightarrow> of_char c \<le> (57 :: nat) \<Longrightarrow> digit_char (of_char c - 48) = c"
  by (simp add: digit_char_def)

lemma length_decimal [simp]: "length (decimal w n) = w"
  by (induction w arbitrary: n) auto

lemma parse_digits_append:
  "parse_digits (xs @ ys) v = Option.bind (parse_digits xs v) (parse_digits ys)"
  by (induction xs arbitrary: v) (auto simp: Let_def)

lemma digit_guard:
  assumes "d < 10"
  shows "v > (u64_max - d) div 10 \<longleftrightarrow> v * 10 + d > u64_max"
  using assms by (auto simp: u64_max_def div_less_iff_less_mult Suc_le_eq not_less less_eq_div_iff_mult_less_eq)

lemma parse_decimal:
  assumes "n < 10 ^ w" and "v * 10 ^ w + n \<le> u64_max"
  shows "parse_digits (decimal w n) v = Some (v * 10 ^ w + n)"
  using assms
proof (induction w arbitrary: n)
  case 0
  then show ?case by simp
next
  case (Suc w)
  have n: "n = n div 10 * 10 + n mod 10" by simp
  have "n div 10 < 10 ^ w" using Suc.prems(1) by (simp add: less_mult_imp_div_less mult.commute)
  moreover have le: "(v * 10 ^ w + n div 10) * 10 + n mod 10 \<le> u64_max"
    using Suc.prems(2) by (simp add: algebra_simps)
  ultimately have ih: "parse_digits (decimal w (n div 10)) v = Some (v * 10 ^ w + n div 10)"
    by (intro Suc.IH) (simp_all)
  have "\<not> v * 10 ^ w + n div 10 > (u64_max - n mod 10) div 10"
    using le by (simp add: digit_guard)
  moreover have "(v * 10 ^ w + n div 10) * 10 + n mod 10 = v * 10 ^ Suc w + n"
    by (simp add: algebra_simps)
  ultimately show ?case
    by (simp add: parse_digits_append ih Let_def del: mult_Suc power_Suc)
qed

lemma parse_digits_inverse:
  assumes "parse_digits cs 0 = Some n"
  shows "decimal (length cs) n = cs \<and> n \<le> u64_max"
  using assms
proof (induction cs arbitrary: n rule: rev_induct)
  case Nil
  then show ?case by (simp add: u64_max_def)
next
  case (snoc c cs)
  let ?d = "of_char c - 48 :: nat"
  obtain m where m: "parse_digits cs 0 = Some m"
      and c: "48 \<le> (of_char c :: nat)" "of_char c \<le> (57 :: nat)"
      and guard: "\<not> m > (u64_max - ?d) div 10" and n: "n = m * 10 + ?d"
    using snoc.prems by (auto simp: parse_digits_append Let_def bind_eq_Some_conv not_less
        split: if_split_asm)
  have d: "?d < 10" using c by linarith
  have "n div 10 = m" "n mod 10 = ?d" using n d by (simp_all add: mod_Suc)
  then show ?case
    using snoc.IH [OF m] guard n d digit_char_of [OF c] by (simp add: digit_guard)
qed

lemma parse_segment_name:
  assumes "0 < n" and "n \<le> u64_max"
  shows "parse_segment_name (segment_name n) = Some n"
proof -
  have "parse_digits (decimal 20 n) 0 = Some (0 * 10 ^ 20 + n)"
    by (rule parse_decimal) (use assms(2) in \<open>simp_all add: u64_max_def\<close>)
  then show ?thesis
    using assms(1) by (simp add: parse_segment_name_def segment_name_def)
qed

lemma parse_segment_nameD:
  assumes "parse_segment_name s = Some n"
  shows "s = segment_name n" and "0 < n" and "n \<le> u64_max"
proof -
  have s: "length s = 33" "take 8 s = ''segment-''" "drop 28 s = ''.gsp2''"
    and p: "parse_digits (take 20 (drop 8 s)) 0 = Some n" and "0 < n"
    using assms by (auto simp: parse_segment_name_def split: if_split_asm option.split_asm)
  have d: "decimal 20 n = take 20 (drop 8 s)" "n \<le> u64_max"
    using parse_digits_inverse [OF p] s(1) by simp_all
  have "s = take 8 s @ take 20 (drop 8 s) @ drop 28 s"
    using append_take_drop_id [of 8 s] append_take_drop_id [of 20 "drop 8 s"] by simp
  then show "s = segment_name n"
    using s d(1) by (simp add: segment_name_def)
  show "0 < n" "n \<le> u64_max" by fact+
qed

text \<open>The name of a segment is read back as its number, and only a name that the program itself
  would give to a segment is taken for one: the 64-bit overflow guard, the width and the zero
  check exclude every other spelling.\<close>

theorem segment_name_roundtrip:
  "parse_segment_name name = Some n \<longleftrightarrow> name = segment_name n \<and> 0 < n \<and> n \<le> u64_max"
  using parse_segment_name parse_segment_nameD by auto

lemma segment_name_inject:
  assumes "segment_name a = segment_name b" and "a \<le> u64_max" and "b \<le> u64_max"
  shows "a = b"
proof -
  have d: "decimal 20 a = decimal 20 b" using assms(1) by (simp add: segment_name_def)
  have "parse_digits (decimal 20 x) 0 = Some x" if "x \<le> u64_max" for x
    using parse_decimal [of x 20 0] that by (simp add: u64_max_def)
  then show ?thesis using assms(2,3) d by (metis option.inject)
qed

lemma segment_name_neq [simp]:
  "segment_name n \<noteq> ''state.v2''" "segment_name n \<noteq> ''state.v2.tmp''" "segment_name n \<noteq> ''lock''"
  "''state.v2'' \<noteq> segment_name n" "''state.v2.tmp'' \<noteq> segment_name n" "''lock'' \<noteq> segment_name n"
  "segment_name n \<noteq> ''.''" "segment_name n \<noteq> ''..''"
  by (simp_all add: segment_name_def)

subsection \<open>The state image\<close>

lemma length_state_fields [simp]: "length (state_fields s gen) = 80"
  by (simp add: state_fields_def)

lemma length_state_magic [simp]: "length V2_STATE_MAGIC = 4"
  by (simp add: V2_STATE_MAGIC_def)

lemma length_encode_state [simp]: "length (encode_state s gen) = V2_STATE_SIZE"
  by (simp add: encode_state_def Let_def V2_STATE_SIZE_def)

lemma get_u64_zeros [simp]: "get_u64 (replicate 16 0) = 0" "get_u64 (replicate 8 0) = 0"
  by (simp_all add: get_u64_def upt_0_8)

lemma state_windows:
  "take 4 (encode_state s gen) = V2_STATE_MAGIC"
  "get_u16 (drop 4 (encode_state s gen)) = 2"
  "get_u16 (drop 6 (encode_state s gen)) = of_nat V2_STATE_SIZE"
  "get_u32 (drop 8 (encode_state s gen)) = crc32_bytes (drop 12 (encode_state s gen))"
  "get_u32 (drop 12 (encode_state s gen)) = 0"
  "drop 16 (encode_state s gen) = state_fields s gen @ replicate 16 0"
  by (simp_all add: encode_state_def Let_def entry_windows)

lemma drop_state:
  "drop (16 + n) (encode_state s gen) = drop n (state_fields s gen @ replicate 16 0)"
  by (metis add.commute drop_drop state_windows(6))

lemma state_reads:
  "get_u64 (drop 16 (encode_state s gen)) = of_nat gen"
  "get_u64 (drop 24 (encode_state s gen)) = last_allocated_seq s"
  "get_u64 (drop 32 (encode_state s gen)) = sequence_fence s"
  "get_u64 (drop 40 (encode_state s gen)) = last_acked_seq s"
  "get_u64 (drop 48 (encode_state s gen)) = of_nat (next_batch_seq s)"
  "get_u64 (drop 56 (encode_state s gen)) = of_nat (ack_segment s)"
  "get_u64 (drop 64 (encode_state s gen)) = of_nat (ack_offset s)"
  "get_u64 (drop 72 (encode_state s gen)) = of_nat (write_segment s)"
  "get_u64 (drop 80 (encode_state s gen)) = of_nat (write_offset s)"
  "get_u64 (drop 88 (encode_state s gen)) = of_nat (segment_records s)"
  "get_u64 (drop 96 (encode_state s gen)) = 0"
  "get_u64 (drop 104 (encode_state s gen)) = 0"
  using drop_state [of 0 s gen] drop_state [of 8 s gen] drop_state [of 16 s gen]
    drop_state [of 24 s gen] drop_state [of 32 s gen] drop_state [of 40 s gen]
    drop_state [of 48 s gen] drop_state [of 56 s gen] drop_state [of 64 s gen]
    drop_state [of 72 s gen] drop_state [of 80 s gen] drop_state [of 88 s gen]
  by (simp_all add: state_fields_def)

lemma encode_state_valid: "state_image_valid (encode_state s gen)"
  by (simp add: state_image_valid_def state_windows state_reads)

text \<open>The fields that the state file carries, all within 64 bits.\<close>

definition cursors_fit :: "gateway_spool_v2 \<Rightarrow> bool" where
  "cursors_fit s \<longleftrightarrow> next_batch_seq s \<le> u64_max \<and> ack_segment s \<le> u64_max \<and>
     ack_offset s \<le> u64_max \<and> write_segment s \<le> u64_max \<and> write_offset s \<le> u64_max \<and>
     segment_records s \<le> u64_max"

definition same_cursors :: "gateway_spool_v2 \<Rightarrow> gateway_spool_v2 \<Rightarrow> bool" where
  "same_cursors a b \<longleftrightarrow>
     last_allocated_seq a = last_allocated_seq b \<and> sequence_fence a = sequence_fence b \<and>
     last_acked_seq a = last_acked_seq b \<and> next_batch_seq a = next_batch_seq b \<and>
     ack_segment a = ack_segment b \<and> ack_offset a = ack_offset b \<and>
     write_segment a = write_segment b \<and> write_offset a = write_offset b"

lemma set_state_fields_encode:
  assumes "cursors_fit s" and "gen \<le> u64_max"
  shows "same_cursors (set_state_fields (encode_state s gen) t) s"
    and "generation (set_state_fields (encode_state s gen) t) = gen"
  using assms
  by (simp_all add: set_state_fields_def same_cursors_def state_reads cursors_fit_def unat_of_nat_u64)

lemma state_split:
  assumes "12 \<le> length st"
  shows "st = take 4 st @ take 2 (drop 4 st) @ take 2 (drop 6 st) @ take 4 (drop 8 st) @ drop 12 st"
  using assms take_drop_split [of 8 4 st] take_drop_split [of 6 2 st]
    take_drop_split [of 4 2 st] take_drop_split [of 0 4 st] by simp

lemma valid_image_shape:
  assumes "state_image_valid st" and "16 \<le> length st"
  shows "st = V2_STATE_MAGIC @ put_u16 2 @ put_u16 (of_nat V2_STATE_SIZE) @
    put_u32 (crc32_bytes (drop 12 st)) @ drop 12 st"
  using assms state_split [of st] put_get_u16 [of "drop 4 st"] put_get_u16 [of "drop 6 st"]
    put_get_u32 [of "drop 8 st"]
  by (simp add: state_image_valid_def)

text \<open>The state image is read back with every cursor as it was written, and passes the checks
  of the loader on the image; changing any one of its 112 bytes makes the loader refuse it.\<close>

theorem state_image_roundtrip:
  assumes "cursors_fit s" and "gen \<le> u64_max" and "i < V2_STATE_SIZE"
    and "encode_state s gen ! i \<noteq> b"
  shows "state_image_valid (encode_state s gen) \<and>
     same_cursors (set_state_fields (encode_state s gen) t) s \<and>
     generation (set_state_fields (encode_state s gen) t) = gen \<and>
     \<not> state_image_valid ((encode_state s gen)[i := b])"
proof (intro conjI notI)
  let ?e = "encode_state s gen"
  assume bad: "state_image_valid (?e[i := b])"
  have len: "length ?e = 112" by (simp add: V2_STATE_SIZE_def)
  note new = valid_image_shape [OF bad]
  note old = valid_image_shape [OF encode_state_valid [of s gen]]
  show False
  proof (cases "i < 12")
    case True
    then have "?e[i := b] = ?e" using new old len by simp
    then show False using list_update_differs [of i ?e b] assms(3,4) by simp
  next
    case False
    have d: "drop 12 (?e[i := b]) = (drop 12 ?e)[i - 12 := b]"
      using False by (simp add: drop_update_swap)
    have "crc32_bytes (drop 12 (?e[i := b])) = get_u32 (drop 8 (?e[i := b]))"
      using bad by (simp add: state_image_valid_def)
    also have "\<dots> = get_u32 (drop 8 ?e)"
      using False by (simp add: drop_update_swap get_u32_def)
    also have "\<dots> = crc32_bytes (drop 12 ?e)" by (rule state_windows)
    finally have same: "crc32_bytes (drop 12 (?e[i := b])) = crc32_bytes (drop 12 ?e)" .
    have "i - 12 < 100" using assms(3) False by (simp add: V2_STATE_SIZE_def)
    then show False
      using same crc32_byte_detected [of "i - 12" "drop 12 ?e" b] False assms(3,4) len d
      by (simp add: V2_STATE_SIZE_def)
  qed
qed (use set_state_fields_encode [OF assms(1,2)] encode_state_valid in auto)

lemma state_image_roundtrip_witness:
  "\<not> state_image_valid ((encode_state (fresh_spool \<lparr>max_bytes = 800, sync_records = 1,
      sync_interval_ms = 1\<rparr> 4 GATEWAY_SPOOL_FAULT_NONE empty_disk) 1)[0 := 0])"
  using state_image_roundtrip [of "fresh_spool \<lparr>max_bytes = 800, sync_records = 1,
      sync_interval_ms = 1\<rparr> 4 GATEWAY_SPOOL_FAULT_NONE empty_disk" 1 0 0]
  by (simp add: fresh_spool_def cursors_fit_def u64_max_def V2_STATE_SIZE_def encode_state_def
      Let_def V2_STATE_MAGIC_def)

end
