(* ===== verification/Spool_V2_Frames.thy ===== *)
theory Spool_V2_Frames
  imports Spool_V2_Format
begin

text \<open>
  What the helpers of \<open>spool_v2.c\<close> leave alone. The fields that describe the stored records form
  the core of the state; synchronising and persisting change none of them and none of the
  segment files, whatever fails on the way.
\<close>

subsection \<open>The core of the state\<close>

definition same_core :: "gateway_spool_v2 \<Rightarrow> gateway_spool_v2 \<Rightarrow> bool" where
  "same_core a b \<longleftrightarrow>
     options a = options b \<and> segment_records a = segment_records b \<and>
     segment_bytes a = segment_bytes b \<and>
     last_allocated_seq a = last_allocated_seq b \<and> sequence_fence a = sequence_fence b \<and>
     last_acked_seq a = last_acked_seq b \<and> next_batch_seq a = next_batch_seq b \<and>
     ack_segment a = ack_segment b \<and> ack_offset a = ack_offset b \<and>
     write_segment a = write_segment b \<and> write_offset a = write_offset b \<and>
     prepared_segment a = prepared_segment b \<and> prepared_offset a = prepared_offset b \<and>
     prepared_last_seq a = prepared_last_seq b \<and> segments a = segments b \<and>
     physical_bytes a = physical_bytes b \<and> unsynced_records a = unsynced_records b \<and>
     segment_fd a = segment_fd b \<and> open_segment a = open_segment b \<and>
     batch_prepared a = batch_prepared b \<and> failed a = failed b"

lemma same_core_refl [simp]: "same_core s s"
  by (simp add: same_core_def)

lemma same_core_trans [trans]: "same_core a b \<Longrightarrow> same_core b c \<Longrightarrow> same_core a c"
  by (simp add: same_core_def)

lemma same_core_book [simp]:
  "same_core (s\<lparr>io := d\<rparr>) s" "same_core (s\<lparr>fault_once := f\<rparr>) s"
  "same_core (s\<lparr>generation := g\<rparr>) s" "same_core (s\<lparr>sync_count := a\<rparr>) s"
  "same_core (s\<lparr>sync_failures := b\<rparr>) s" "same_core (s\<lparr>corruptions := c\<rparr>) s"
  by (simp_all add: same_core_def)

subsection \<open>Synchronising\<close>

lemma inject_fault_frame:
  assumes "inject_fault p s = (hit, s')"
  shows "same_core s' s" and "io s' = io s" and "generation s' = generation s"
  using assms by (auto simp: inject_fault_def split: if_split_asm)

lemma sync_descriptor_frame:
  assumes "sync_descriptor t p s = (code, s')"
  shows "same_core s' s" and "view (io s') = view (io s)"
    and "disk_wf (io s') = disk_wf (io s)" and "generation s' = generation s"
proof -
  obtain hit s1 where f: "inject_fault p s = (hit, s1)" by (metis surj_pair)
  note i = inject_fault_frame [OF f]
  obtain ok d where c: "(case t of Sync_directory \<Rightarrow> sys_fsync_directory (io s1)
      | Sync_file ino \<Rightarrow> sys_fdatasync ino (io s1)) = (ok, d)" by (metis surj_pair)
  have v: "view d = view (io s1)" "disk_wf d = disk_wf (io s1)"
    using c sync_view by (auto split: sync_target.split_asm)
  have s': "s' = s1\<lparr>sync_failures := sync_failures s1 + 1\<rparr> \<or>
      s' = s1\<lparr>io := d, sync_failures := sync_failures s1 + 1\<rparr> \<or>
      s' = s1\<lparr>io := d, sync_count := sync_count s1 + 1\<rparr>"
    using assms by (auto simp: sync_descriptor_def f c Let_def split: if_split_asm)
  show "same_core s' s"
    using s' i(1) by (auto simp: same_core_def)
  show "view (io s') = view (io s)" "disk_wf (io s') = disk_wf (io s)"
    "generation s' = generation s"
    using s' v i by auto
qed

lemma sync_directory_frame:
  assumes "sync_directory s = (code, s')"
  shows "same_core s' s" and "view (io s') = view (io s)"
    and "disk_wf (io s') = disk_wf (io s)" and "generation s' = generation s"
  using sync_descriptor_frame assms by (simp_all add: sync_directory_def)

lemma set_sync_deadline_frame:
  assumes "set_sync_deadline s = (code, s')"
  shows "same_core s' s" and "view (io s') = view (io s)" and "disk_wf (io s') = disk_wf (io s)"
    and "generation s' = generation s"
proof -
  obtain t d where c: "sys_clock (io s) = (t, d)" by (metis surj_pair)
  show "same_core s' s" "view (io s') = view (io s)" "disk_wf (io s') = disk_wf (io s)"
    "generation s' = generation s"
    using assms sys_clock_view [OF c]
    by (auto simp: set_sync_deadline_def c Let_def same_core_def split: option.split_asm)
qed

subsection \<open>Persisting the state\<close>

definition state_files :: "string set" where
  "state_files = {''state.v2'', ''state.v2.tmp''}"

text \<open>Replacing the state file: the segment files are untouched, and the state file afterwards is
  the old one or the whole new image; success means the new one.\<close>

definition replaces_state :: "gateway_spool_v2 \<Rightarrow> gateway_error_code \<Rightarrow> gateway_spool_v2 \<Rightarrow> bool" where
  "replaces_state s code s' \<longleftrightarrow>
     same_core s' s \<and> disk_wf (io s') \<and>
     (\<forall>n. n \<notin> state_files \<longrightarrow> view (io s') n = view (io s) n) \<and>
     (view (io s') ''state.v2'' = view (io s) ''state.v2'' \<or>
      (\<exists>ino. view (io s') ''state.v2'' = Some (ino, encode_state s (generation s + 1)) \<and>
         generation s \<noteq> u64_max)) \<and>
     (code = GATEWAY_OK \<longrightarrow> generation s \<noteq> u64_max \<and> generation s' = generation s + 1 \<and>
        view (io s') ''state.v2.tmp'' = None \<and>
        (\<exists>ino. view (io s') ''state.v2'' = Some (ino, encode_state s (generation s + 1))))"

lemma encode_state_core:
  assumes "same_core a b"
  shows "encode_state a g = encode_state b g"
  using assms by (simp add: same_core_def encode_state_def state_fields_def)

lemma discard_tmp_frame:
  assumes "discard_tmp code s = (code', s')" and "disk_wf (io s)"
  shows "same_core s' s" and "disk_wf (io s')" and "code' = code"
    and "n \<noteq> ''state.v2.tmp'' \<Longrightarrow> view (io s') n = view (io s) n"
proof -
  obtain ok d where u: "sys_unlink ''state.v2.tmp'' (io s) = (ok, d)" by (metis surj_pair)
  have s': "s' = s\<lparr>io := d\<rparr>" "code' = code" using assms(1) by (auto simp: discard_tmp_def u)
  show "same_core s' s" "code' = code" using s' by simp_all
  show "disk_wf (io s')" "n \<noteq> ''state.v2.tmp'' \<Longrightarrow> view (io s') n = view (io s) n"
    using s' sys_unlink_view [OF u assms(2)] by (cases ok; simp)+
qed

text \<open>The part of \<open>persist_state\<close> that fills and syncs the temporary file.\<close>

definition write_tmp :: "nat \<Rightarrow> bytes \<Rightarrow> gateway_spool_v2 \<Rightarrow> gateway_error_code \<times> gateway_spool_v2" where
  "write_tmp ino img s =
     (let (hit, s) = inject_fault GATEWAY_SPOOL_FAULT_STATE_WRITE s;
          (code, s) = (if hit then (GATEWAY_ERROR_IO, s)
                       else let (code, d) = write_exact ino img 0 (io s) in (code, s\<lparr>io := d\<rparr>));
          (code, s) = (if code = GATEWAY_OK
                       then sync_descriptor (Sync_file ino) GATEWAY_SPOOL_FAULT_STATE_SYNC s
                       else (code, s));
          (closed, d) = sys_close (io s);
          s = s\<lparr>io := d\<rparr>
      in (if \<not> closed \<and> code = GATEWAY_OK then GATEWAY_ERROR_IO else code, s))"

definition rename_tmp :: "gateway_spool_v2 \<Rightarrow> gateway_error_code \<times> gateway_spool_v2" where
  "rename_tmp s =
     (let (hit, s) = inject_fault GATEWAY_SPOOL_FAULT_STATE_RENAME s;
          (renamed, s) = (if hit then (False, s)
                          else let (ok, d) = sys_rename ''state.v2.tmp'' ''state.v2'' (io s)
                               in (ok, s\<lparr>io := d\<rparr>))
      in if renamed then (GATEWAY_OK, s) else (GATEWAY_ERROR_IO, s))"

lemma persist_state_steps:
  "persist_state s =
     (if generation s = u64_max then (GATEWAY_ERROR_RANGE, s)
      else case sys_open_trunc ''state.v2.tmp'' (io s) of
        (None, d) \<Rightarrow> (GATEWAY_ERROR_IO, s\<lparr>io := d\<rparr>)
      | (Some ino, d) \<Rightarrow>
          (case write_tmp ino (encode_state s (generation s + 1)) (s\<lparr>io := d\<rparr>) of
             (code, s1) \<Rightarrow>
               if code \<noteq> GATEWAY_OK then discard_tmp code s1
               else case rename_tmp s1 of
                 (code, s2) \<Rightarrow>
                   if code \<noteq> GATEWAY_OK then discard_tmp GATEWAY_ERROR_IO s2
                   else case sync_directory s2 of
                     (code, s3) \<Rightarrow> if code = GATEWAY_OK
                                  then (code, s3\<lparr>generation := generation s + 1\<rparr>)
                                  else (code, s3)))"
  by (simp add: persist_state_def write_tmp_def rename_tmp_def Let_def
      split: prod.split option.split if_split)

lemma write_tmp_frame:
  assumes "write_tmp ino img s = (code, s')" and "disk_wf (io s)"
    and "view (io s) name = Some (ino, [])"
  shows "same_core s' s" and "disk_wf (io s')" and "generation s' = generation s"
    and "\<exists>c. view (io s') = (view (io s))(name \<mapsto> (ino, c)) \<and> (code = GATEWAY_OK \<longrightarrow> c = img)"
proof -
  obtain hit s1 where f: "inject_fault GATEWAY_SPOOL_FAULT_STATE_WRITE s = (hit, s1)"
    by (metis surj_pair)
  note i = inject_fault_frame [OF f]
  obtain code2 s2 where w: "(if hit then (GATEWAY_ERROR_IO, s1)
      else let (code, d) = write_exact ino img 0 (io s1) in (code, s1\<lparr>io := d\<rparr>)) = (code2, s2)"
    by (metis surj_pair)
  obtain code3 s3 where y: "(if code2 = GATEWAY_OK
      then sync_descriptor (Sync_file ino) GATEWAY_SPOOL_FAULT_STATE_SYNC s2 else (code2, s2)) =
      (code3, s3)" by (metis surj_pair)
  obtain closed d where c: "sys_close (io s3) = (closed, d)" by (metis surj_pair)
  have res: "s' = s3\<lparr>io := d\<rparr>" "code = GATEWAY_OK \<Longrightarrow> code3 = GATEWAY_OK"
    using assms(1) by (auto simp: write_tmp_def f w y c Let_def split: if_split_asm)
  have two: "same_core s2 s1 \<and> disk_wf (io s2) \<and> generation s2 = generation s1 \<and>
      (\<exists>c. view (io s2) = (view (io s))(name \<mapsto> (ino, c)) \<and> (code2 = GATEWAY_OK \<longrightarrow> c = img))"
  proof (cases hit)
    case True
    then show ?thesis using w i assms(2,3) by (auto intro: exI [of _ "[]"] simp: fun_upd_idem)
  next
    case False
    obtain code' d' where e: "write_exact ino img 0 (io s1) = (code', d')" by (metis surj_pair)
    have wf1: "disk_wf (io s1)" "view (io s1) name = Some (ino, [])"
      using i(2) assms(2,3) by simp_all
    have s2: "s2 = s1\<lparr>io := d'\<rparr>" "code2 = code'" using w False e by simp_all
    obtain k where "view d' = (view (io s1))(name \<mapsto> (ino, take k img))"
        "code' = GATEWAY_OK \<longrightarrow> k = length img"
      using write_exact_at_end(2) [OF e wf1] by auto
    then show ?thesis
      using write_exact_at_end(1) [OF e wf1] s2 i(2) by (auto intro: exI [of _ "take k img"])
  qed
  have three: "same_core s3 s2 \<and> view (io s3) = view (io s2) \<and> disk_wf (io s3) = disk_wf (io s2) \<and>
      generation s3 = generation s2 \<and> (code3 = GATEWAY_OK \<longrightarrow> code2 = GATEWAY_OK)"
    using y sync_descriptor_frame by (auto split: if_split_asm)
  note cl = sys_close_view [OF c]
  show "same_core s' s"
    using i(1) two three res(1) by (simp add: same_core_def)
  show "disk_wf (io s')" "generation s' = generation s"
    using two three res(1) cl i(3) by simp_all
  show "\<exists>c. view (io s') = (view (io s))(name \<mapsto> (ino, c)) \<and> (code = GATEWAY_OK \<longrightarrow> c = img)"
    using two three res cl by auto
qed

lemma rename_tmp_frame:
  assumes "rename_tmp s = (code, s')" and "disk_wf (io s)"
  shows "same_core s' s" and "disk_wf (io s')" and "generation s' = generation s"
    and "code \<noteq> GATEWAY_OK \<Longrightarrow> view (io s') = view (io s)"
    and "code = GATEWAY_OK \<Longrightarrow> view (io s') =
      (view (io s))(''state.v2.tmp'' := None, ''state.v2'' := view (io s) ''state.v2.tmp'')"
proof -
  obtain hit s1 where f: "inject_fault GATEWAY_SPOOL_FAULT_STATE_RENAME s = (hit, s1)"
    by (metis surj_pair)
  note i = inject_fault_frame [OF f]
  obtain ok d where r: "sys_rename ''state.v2.tmp'' ''state.v2'' (io s1) = (ok, d)"
    by (metis surj_pair)
  have wf1: "disk_wf (io s1)" using i(2) assms(2) by simp
  note rn = sys_rename_view [OF r wf1]
  have res: "(hit \<and> code \<noteq> GATEWAY_OK \<and> s' = s1) \<or>
      (\<not> hit \<and> s' = s1\<lparr>io := d\<rparr> \<and> (code = GATEWAY_OK) = ok)"
    using assms(1) by (auto simp: rename_tmp_def f r Let_def split: if_split_asm)
  show "same_core s' s" using res i(1) by (auto simp: same_core_def)
  show "disk_wf (io s')" "generation s' = generation s"
    using res wf1 rn i(3) by auto
  show "code \<noteq> GATEWAY_OK \<Longrightarrow> view (io s') = view (io s)"
    using res rn i(2) by auto
  show "code = GATEWAY_OK \<Longrightarrow> view (io s') =
      (view (io s))(''state.v2.tmp'' := None, ''state.v2'' := view (io s) ''state.v2.tmp'')"
    using res rn(3) i(2) by auto
qed

lemma persist_state_frame:
  assumes "persist_state s = (code, s')" and wf: "disk_wf (io s)"
  shows "replaces_state s code s'"
proof (cases "generation s = u64_max")
  case True
  then show ?thesis
    using assms by (auto simp: persist_state_steps replaces_state_def)
next
  case False
  let ?img = "encode_state s (generation s + 1)"
  obtain r d where t: "sys_open_trunc ''state.v2.tmp'' (io s) = (r, d)" by (metis surj_pair)
  note tv = sys_open_trunc_view [OF t wf]
  show ?thesis
  proof (cases r)
    case None
    then show ?thesis
      using assms(1) False tv by (auto simp: persist_state_steps t replaces_state_def)
  next
    case (Some ino)
    let ?s0 = "s\<lparr>io := d\<rparr>"
    obtain code1 s1 where w: "write_tmp ino ?img ?s0 = (code1, s1)" by (metis surj_pair)
    have v0: "disk_wf (io ?s0)" "view (io ?s0) ''state.v2.tmp'' = Some (ino, [])"
      "\<And>n. n \<noteq> ''state.v2.tmp'' \<Longrightarrow> view (io ?s0) n = view (io s) n"
      using tv Some by simp_all
    note wt = write_tmp_frame [OF w v0(1,2)]
    have core1: "same_core s1 s" using wt(1) by (simp add: same_core_def)
    obtain c where c: "view (io s1) = (view (io ?s0))(''state.v2.tmp'' \<mapsto> (ino, c))"
        "code1 = GATEWAY_OK \<longrightarrow> c = ?img" using wt(4) by blast
    show ?thesis
    proof (cases "code1 = GATEWAY_OK")
      case bad: False
      then have "discard_tmp code1 s1 = (code, s')"
        using assms(1) False Some w by (simp add: persist_state_steps t)
      from discard_tmp_frame [OF this wt(2)] show ?thesis
        using bad core1 c(1) v0(3)
        by (auto simp: replaces_state_def state_files_def intro: same_core_trans)
    next
      case ok1: True
      obtain code2 s2 where rn: "rename_tmp s1 = (code2, s2)" by (metis surj_pair)
      note rt = rename_tmp_frame [OF rn wt(2)]
      show ?thesis
      proof (cases "code2 = GATEWAY_OK")
        case bad: False
        then have "discard_tmp GATEWAY_ERROR_IO s2 = (code, s')"
          using assms(1) False Some ok1 w by (simp add: persist_state_steps t rn)
        from discard_tmp_frame [OF this rt(2)] show ?thesis
          using bad core1 rt c(1) v0(3)
          by (auto simp: replaces_state_def state_files_def intro: same_core_trans)
      next
        case ok2: True
        obtain code3 s3 where sd: "sync_directory s2 = (code3, s3)" by (metis surj_pair)
        note sf = sync_directory_frame [OF sd]
        have s': "s' = (if code3 = GATEWAY_OK then s3\<lparr>generation := generation s + 1\<rparr> else s3)"
          "code = code3"
          using assms(1) False Some ok1 ok2 w by (simp_all add: persist_state_steps t rn sd split: if_split_asm)
        have "same_core s3 s" using sf(1) rt(1) core1 same_core_trans by blast
        then have core: "same_core s' s" using s'(1) by (auto simp: same_core_def)
        have vs: "view (io s') = (view (io s1))(''state.v2.tmp'' := None, ''state.v2'' := Some (ino, ?img))"
          using s' sf(2) rt(5) [OF ok2] c ok1 by simp
        have wf': "disk_wf (io s')" using s'(1) sf(3) rt(2) by simp
        show ?thesis
          using core wf' vs False s' c(1) v0(3) by (auto simp: replaces_state_def state_files_def)
      qed
    qed
  qed
qed

end
