(* ===== verification/Entry_Log.thy ===== *)
theory Entry_Log
  imports Telemetry
begin

text \<open>
  Files of 80-byte entries, for either entry format: where the entries of a list of records lie in the
  file, and that reading the windows gives the records back. The locale states what is needed of
  a codec; both spools are instances.
\<close>

definition rec_ok :: "telemetry_record \<Rightarrow> bool" where
  "rec_ok r \<longleftrightarrow> wf_record r \<and> gateway_seq r \<noteq> 0"

definition log_bytes :: "(telemetry_record \<Rightarrow> bytes) \<Rightarrow> telemetry_record list \<Rightarrow> bytes" where
  "log_bytes enc rs = concat (map enc rs)"

definition window :: "nat \<Rightarrow> bytes \<Rightarrow> bytes" where
  "window k bs = take GATEWAY_SPOOL_ENTRY_SIZE (drop (k * GATEWAY_SPOOL_ENTRY_SIZE) bs)"

text \<open>The records of a byte string, entry by entry.\<close>

definition decoded_entry :: "(bytes \<Rightarrow> gateway_error_code + telemetry_record) \<Rightarrow> bytes \<Rightarrow> nat \<Rightarrow> telemetry_record" where
  "decoded_entry dec bs k = (case dec (window k bs) of Inr r \<Rightarrow> r | Inl _ \<Rightarrow> zero_record)"

definition decoded_log :: "(bytes \<Rightarrow> gateway_error_code + telemetry_record) \<Rightarrow> bytes \<Rightarrow> telemetry_record list" where
  "decoded_log dec bs = map (decoded_entry dec bs) [0..<length bs div GATEWAY_SPOOL_ENTRY_SIZE]"

lemma entry_size_pos [simp]: "0 < GATEWAY_SPOOL_ENTRY_SIZE" "GATEWAY_SPOOL_ENTRY_SIZE \<noteq> 0"
  by (simp_all add: GATEWAY_SPOOL_ENTRY_SIZE_def)

lemma log_bytes_append: "log_bytes enc (xs @ ys) = log_bytes enc xs @ log_bytes enc ys"
  by (simp add: log_bytes_def)

lemma log_bytes_simps [simp]: "log_bytes enc [] = []" "log_bytes enc [r] = enc r"
  by (simp_all add: log_bytes_def)

lemma decoded_log_Nil [simp]: "decoded_log dec [] = []"
  by (simp add: decoded_log_def)

text \<open>A byte string whose entries read as the given records.\<close>

definition stores :: "(bytes \<Rightarrow> gateway_error_code + telemetry_record) \<Rightarrow> bytes \<Rightarrow> telemetry_record list \<Rightarrow> bool" where
  "stores dec c rs \<longleftrightarrow> length c = length rs * GATEWAY_SPOOL_ENTRY_SIZE \<and>
     (\<forall>k<length rs. dec (window k c) = Inr (rs ! k))"

lemma window_append:
  assumes "Suc k * GATEWAY_SPOOL_ENTRY_SIZE \<le> length c"
  shows "window k (c @ rest) = window k c"
  using assms by (simp add: window_def)

lemma stores_window:
  assumes "stores dec c rs" and "k < length rs"
  shows "dec (window k (c @ rest)) = Inr (rs ! k)"
proof -
  have "Suc k * GATEWAY_SPOOL_ENTRY_SIZE \<le> length c"
    using assms mult_le_mono1 [of "Suc k" "length rs" GATEWAY_SPOOL_ENTRY_SIZE] by (simp add: stores_def)
  then show ?thesis using assms window_append by (simp add: stores_def)
qed

lemma stores_decoded:
  assumes "stores dec c rs"
  shows "decoded_log dec c = rs"
  using assms by (intro nth_equalityI) (simp_all add: stores_def decoded_log_def decoded_entry_def)

lemma stores_Nil [simp]: "stores dec [] []"
  by (simp add: stores_def)

lemma stores_snoc:
  assumes "stores dec c rs" and "length e = GATEWAY_SPOOL_ENTRY_SIZE" and "dec e = Inr r"
  shows "stores dec (c @ e) (rs @ [r])"
proof -
  have len: "length c = length rs * GATEWAY_SPOOL_ENTRY_SIZE" using assms(1) by (simp add: stores_def)
  have "dec (window k (c @ e)) = Inr ((rs @ [r]) ! k)" if "k < Suc (length rs)" for k
  proof (cases "k = length rs")
    case True
    then show ?thesis using len assms(2,3) by (simp add: window_def)
  next
    case False
    then show ?thesis using that stores_window [OF assms(1), of k e] by (simp add: nth_append)
  qed
  then show ?thesis using len assms(2) by (simp add: stores_def)
qed

locale entry_codec =
  fixes enc :: "telemetry_record \<Rightarrow> bytes"
    and dec :: "bytes \<Rightarrow> gateway_error_code + telemetry_record"
  assumes length_enc: "wf_record r \<Longrightarrow> length (enc r) = GATEWAY_SPOOL_ENTRY_SIZE"
    and dec_enc: "wf_record r \<Longrightarrow> gateway_seq r \<noteq> 0 \<Longrightarrow> dec (enc r) = Inr r"
begin

lemma length_log:
  "\<forall>r\<in>set rs. rec_ok r \<Longrightarrow> length (log_bytes enc rs) = length rs * GATEWAY_SPOOL_ENTRY_SIZE"
  by (induction rs) (auto simp: log_bytes_def rec_ok_def length_enc)

lemma log_window:
  assumes "\<forall>r\<in>set rs. rec_ok r" and "k < length rs"
  shows "window k (log_bytes enc rs @ rest) = enc (rs ! k)"
proof -
  have "rs = take k rs @ [rs ! k] @ drop (Suc k) rs"
    using assms(2) by (simp add: id_take_nth_drop)
  then have "log_bytes enc rs = log_bytes enc (take k rs) @ enc (rs ! k) @ log_bytes enc (drop (Suc k) rs)"
    by (metis log_bytes_append log_bytes_simps(2))
  moreover have "length (log_bytes enc (take k rs)) = k * GATEWAY_SPOOL_ENTRY_SIZE"
    using assms by (subst length_log) (auto dest: in_set_takeD)
  moreover have "length (enc (rs ! k)) = GATEWAY_SPOOL_ENTRY_SIZE"
    using assms nth_mem by (auto simp: rec_ok_def length_enc)
  ultimately show ?thesis by (simp add: window_def)
qed

lemma dec_window:
  assumes "\<forall>r\<in>set rs. rec_ok r" and "k < length rs"
  shows "dec (window k (log_bytes enc rs @ rest)) = Inr (rs ! k)"
  using assms nth_mem by (metis log_window dec_enc rec_ok_def)

text \<open>An incomplete entry at the end is not seen.\<close>

lemma decoded_log_torn:
  assumes "\<forall>r\<in>set rs. rec_ok r" and "length p < GATEWAY_SPOOL_ENTRY_SIZE"
  shows "decoded_log dec (log_bytes enc rs @ p) = rs"
proof (rule nth_equalityI)
  have "(length rs * GATEWAY_SPOOL_ENTRY_SIZE + length p) div GATEWAY_SPOOL_ENTRY_SIZE = length rs"
    using assms(2) by simp
  then show n: "length (decoded_log dec (log_bytes enc rs @ p)) = length rs"
    using assms(1) by (simp add: decoded_log_def length_log)
  fix k assume k: "k < length (decoded_log dec (log_bytes enc rs @ p))"
  then have "k < length rs" using n by simp
  then show "decoded_log dec (log_bytes enc rs @ p) ! k = rs ! k"
    using k dec_window [OF assms(1), of k p] by (simp add: decoded_log_def decoded_entry_def)
qed

lemma decoded_log_bytes: "\<forall>r\<in>set rs. rec_ok r \<Longrightarrow> decoded_log dec (log_bytes enc rs) = rs"
  using decoded_log_torn [of rs "[]"] by simp

end

interpretation gsp1: entry_codec encode_record decode_record
  by unfold_locales (simp_all add: GATEWAY_SPOOL_ENTRY_SIZE_def decode_encode_record)

interpretation gsp2: entry_codec v2_encode_record v2_decode_record
  by unfold_locales (simp_all add: GATEWAY_SPOOL_ENTRY_SIZE_def v2_decode_encode_record)

end
