(* ===== verification/Spool_V2_Queue.thy ===== *)
theory Spool_V2_Queue
  imports Spool_V2_Frames Entry_Log
begin

text \<open>
  The contract of the segmented spool: it is a queue of records kept on disk. \<open>pend\<close> is the queue,
  read off the segment files and the acknowledge cursor. \<open>append\<close> adds at the end, a batch is a
  prefix, acknowledging drops exactly that prefix, and every other call, and every failed call,
  leaves the queue alone. The contract is a locale, proved here of the code's model.
\<close>

subsection \<open>Segment contents\<close>

definition rec_bytes :: "telemetry_record list \<Rightarrow> bytes" where
  "rec_bytes rs = log_bytes v2_encode_record rs"

definition entries :: "bytes \<Rightarrow> telemetry_record list" where
  "entries bs = decoded_log v2_decode_record bs"

lemma length_rec_bytes [simp]:
  "\<forall>r\<in>set rs. rec_ok r \<Longrightarrow> length (rec_bytes rs) = length rs * GATEWAY_SPOOL_ENTRY_SIZE"
  unfolding rec_bytes_def by (rule gsp2.length_log)

lemma rec_bytes_append: "rec_bytes (xs @ ys) = rec_bytes xs @ rec_bytes ys"
  by (simp add: rec_bytes_def log_bytes_append)

lemma decode_window:
  assumes "\<forall>r\<in>set rs. rec_ok r" and "k < length rs"
  shows "v2_decode_record (take GATEWAY_SPOOL_ENTRY_SIZE (drop (k * GATEWAY_SPOOL_ENTRY_SIZE)
    (rec_bytes rs))) = Inr (rs ! k)"
  using gsp2.dec_window [OF assms, of "[]"] by (simp add: rec_bytes_def window_def)

lemma entries_rec_bytes: "\<forall>r\<in>set rs. rec_ok r \<Longrightarrow> entries (rec_bytes rs) = rs"
  unfolding rec_bytes_def entries_def by (rule gsp2.decoded_log_bytes)

subsection \<open>The stored log\<close>

definition holds :: "disk \<Rightarrow> nat \<Rightarrow> telemetry_record list \<Rightarrow> bool" where
  "holds d n rs \<longleftrightarrow> (\<exists>ino. view d (segment_name n) = Some (ino, rec_bytes rs)) \<and> (\<forall>r\<in>set rs. rec_ok r)"

definition stored :: "disk \<Rightarrow> nat \<Rightarrow> telemetry_record list" where
  "stored d n = (case view d (segment_name n) of None \<Rightarrow> [] | Some (ino, c) \<Rightarrow> entries c)"

definition numbers :: "gateway_spool_v2 \<Rightarrow> nat set" where
  "numbers s = seg_number ` set (segments s)"

text \<open>The records of a segment of the table, of all segments from the acknowledge cursor on, and
  of the part of them behind a cursor.\<close>

definition seg_log :: "gateway_spool_v2 \<Rightarrow> nat \<Rightarrow> telemetry_record list" where
  "seg_log s n = (if n \<in> numbers s then stored (io s) n else [])"

definition records_from :: "gateway_spool_v2 \<Rightarrow> nat \<Rightarrow> nat \<Rightarrow> telemetry_record list" where
  "records_from s n offset =
     drop (offset div GATEWAY_SPOOL_ENTRY_SIZE) (seg_log s n) @
     concat (map (seg_log s) [Suc n..<Suc (write_segment s)])"

definition pend :: "gateway_spool_v2 \<Rightarrow> telemetry_record list" where
  "pend s = records_from s (ack_segment s) (ack_offset s)"

lemma holds_stored: "holds d n rs \<Longrightarrow> stored d n = rs"
  by (auto simp: holds_def stored_def entries_rec_bytes)

lemma holds_view:
  "view d' (segment_name n) = view d (segment_name n) \<Longrightarrow> holds d' n rs = holds d n rs"
  by (simp add: holds_def)

lemma stored_view:
  "view d' (segment_name n) = view d (segment_name n) \<Longrightarrow> stored d' n = stored d n"
  by (simp add: stored_def)

subsection \<open>The invariant\<close>

text \<open>What the table says of a segment is what its file holds.\<close>

definition segment_ok :: "gateway_spool_v2 \<Rightarrow> v2_segment \<Rightarrow> bool" where
  "segment_ok s g \<longleftrightarrow>
     (let rs = seg_log s (seg_number g) in
      holds (io s) (seg_number g) rs \<and> seg_size g = length rs * GATEWAY_SPOOL_ENTRY_SIZE \<and>
      seg_last_seq g = (if rs = [] then 0 else gateway_seq (last rs)))"

definition options_ok :: "gateway_spool_v2 \<Rightarrow> bool" where
  "options_ok s \<longleftrightarrow> options_valid (options s) (segment_records s) \<and>
     segment_bytes s = segment_records s * GATEWAY_SPOOL_ENTRY_SIZE"

text \<open>The table lists consecutive segments, up to the write segment or the one before it when it
  has no file yet; those between the cursors are full.\<close>

definition table_ok :: "gateway_spool_v2 \<Rightarrow> bool" where
  "table_ok s \<longleftrightarrow>
     (\<exists>lo hi. map seg_number (segments s) = [lo..<hi] \<and> 0 < lo \<and> lo \<le> ack_segment s \<and>
        (hi = write_segment s \<or> hi = Suc (write_segment s))) \<and>
     ack_segment s \<le> write_segment s \<and> write_segment s \<le> u64_max \<and>
     (\<forall>n. ack_segment s \<le> n \<and> n < write_segment s \<longrightarrow> length (seg_log s n) = segment_records s) \<and>
     write_offset s = length (seg_log s (write_segment s)) * GATEWAY_SPOOL_ENTRY_SIZE \<and>
     write_offset s \<le> segment_bytes s"

definition descriptor_ok :: "gateway_spool_v2 \<Rightarrow> bool" where
  "descriptor_ok s \<longleftrightarrow>
     (case segment_fd s of
        None \<Rightarrow> unsynced_records s = 0
      | Some ino \<Rightarrow> open_segment s = write_segment s \<and> write_segment s \<in> numbers s \<and>
          (\<exists>c. view (io s) (segment_name (write_segment s)) = Some (ino, c)))"

text \<open>A cursor that lies at a record boundary of a segment between the two cursors.\<close>

definition cursor_ok :: "gateway_spool_v2 \<Rightarrow> nat \<Rightarrow> nat \<Rightarrow> bool" where
  "cursor_ok s n offset \<longleftrightarrow>
     ack_segment s \<le> n \<and> n \<le> write_segment s \<and> GATEWAY_SPOOL_ENTRY_SIZE dvd offset \<and>
     offset \<le> length (seg_log s n) * GATEWAY_SPOOL_ENTRY_SIZE"

definition prepared_ok :: "gateway_spool_v2 \<Rightarrow> bool" where
  "prepared_ok s \<longleftrightarrow>
     (batch_prepared s \<longrightarrow>
        cursor_ok s (prepared_segment s) (prepared_offset s) \<and>
        (prepared_segment s = write_segment s \<longrightarrow>
           prepared_offset s + unsynced_records s * GATEWAY_SPOOL_ENTRY_SIZE \<le> write_offset s) \<and>
        (\<exists>k\<le>length (pend s). records_from s (prepared_segment s) (prepared_offset s) = drop k (pend s) \<and>
           (0 < k \<longrightarrow> prepared_last_seq s = gateway_seq (pend s ! (k - 1))) \<and>
           (k = 0 \<longrightarrow> prepared_last_seq s = last_acked_seq s)))"

definition sequences_ok :: "gateway_spool_v2 \<Rightarrow> bool" where
  "sequences_ok s \<longleftrightarrow>
     sorted_wrt (\<lambda>a b. gateway_seq a < gateway_seq b) (pend s) \<and>
     (\<forall>r\<in>set (pend s). last_acked_seq s < gateway_seq r \<and> gateway_seq r \<le> last_allocated_seq s) \<and>
     last_acked_seq s \<le> last_allocated_seq s \<and> last_allocated_seq s \<le> sequence_fence s \<and>
     0 < next_batch_seq s \<and> next_batch_seq s \<le> u64_max"

definition bytes_ok :: "gateway_spool_v2 \<Rightarrow> bool" where
  "bytes_ok s \<longleftrightarrow> physical_bytes s = sum_list (map seg_size (segments s)) \<and>
     physical_bytes s \<le> max_bytes (options s)"

text \<open>Inside an append the write segment may be full; between operations it never is.\<close>

definition wide_inv :: "gateway_spool_v2 \<Rightarrow> bool" where
  "wide_inv s \<longleftrightarrow> failed s \<or>
     (disk_wf (io s) \<and> options_ok s \<and> (\<forall>g\<in>set (segments s). segment_ok s g) \<and> table_ok s \<and>
      descriptor_ok s \<and> cursor_ok s (ack_segment s) (ack_offset s) \<and> prepared_ok s \<and>
      sequences_ok s \<and> bytes_ok s)"

definition spool_inv :: "gateway_spool_v2 \<Rightarrow> bool" where
  "spool_inv s \<longleftrightarrow> wide_inv s \<and> (failed s \<or> write_offset s < segment_bytes s)"

text \<open>How many records the prepared batch has.\<close>

definition prepared_count :: "gateway_spool_v2 \<Rightarrow> nat" where
  "prepared_count s =
     (if batch_prepared s
      then length (pend s) - length (records_from s (prepared_segment s) (prepared_offset s)) else 0)"

text \<open>The stored records depend on the table and the files only.\<close>

lemma numbers_update [simp]:
  "numbers (s\<lparr>last_allocated_seq := x0\<rparr>) = numbers s" "numbers (s\<lparr>sequence_fence := x1\<rparr>) = numbers s"
  "numbers (s\<lparr>last_acked_seq := x2\<rparr>) = numbers s" "numbers (s\<lparr>next_batch_seq := x3\<rparr>) = numbers s"
  "numbers (s\<lparr>ack_segment := x4\<rparr>) = numbers s" "numbers (s\<lparr>ack_offset := x5\<rparr>) = numbers s"
  "numbers (s\<lparr>write_offset := x6\<rparr>) = numbers s" "numbers (s\<lparr>prepared_segment := x7\<rparr>) = numbers s"
  "numbers (s\<lparr>prepared_offset := x8\<rparr>) = numbers s" "numbers (s\<lparr>prepared_last_seq := x9\<rparr>) = numbers s"
  "numbers (s\<lparr>physical_bytes := x10\<rparr>) = numbers s" "numbers (s\<lparr>unsynced_records := x11\<rparr>) = numbers s"
  "numbers (s\<lparr>segment_fd := x12\<rparr>) = numbers s" "numbers (s\<lparr>open_segment := x13\<rparr>) = numbers s"
  "numbers (s\<lparr>batch_prepared := x14\<rparr>) = numbers s" "numbers (s\<lparr>failed := x15\<rparr>) = numbers s"
  "numbers (s\<lparr>generation := x16\<rparr>) = numbers s" "numbers (s\<lparr>records_appended := x17\<rparr>) = numbers s"
  "numbers (s\<lparr>records_replayed := x18\<rparr>) = numbers s" "numbers (s\<lparr>corruptions := x19\<rparr>) = numbers s"
  "numbers (s\<lparr>sync_deadline := x20\<rparr>) = numbers s" "numbers (s\<lparr>sync_deadline_set := x21\<rparr>) = numbers s"
  "numbers (s\<lparr>fault_once := x22\<rparr>) = numbers s" "numbers (s\<lparr>sync_count := x23\<rparr>) = numbers s"
  "numbers (s\<lparr>sync_failures := x24\<rparr>) = numbers s" "numbers (s\<lparr>segments_reclaimed := x25\<rparr>) = numbers s"
  "numbers (s\<lparr>segment_capacity := x26\<rparr>) = numbers s" "numbers (s\<lparr>state_recoveries := x27\<rparr>) = numbers s"
  "numbers (s\<lparr>tail_recoveries := x28\<rparr>) = numbers s" "numbers (s\<lparr>lock_fd := x29\<rparr>) = numbers s"
  "numbers (s\<lparr>directory_fd := x30\<rparr>) = numbers s" "numbers (s\<lparr>directory := x31\<rparr>) = numbers s"
  "numbers (s\<lparr>options := x32\<rparr>) = numbers s" "numbers (s\<lparr>write_segment := x33\<rparr>) = numbers s"
  "numbers (s\<lparr>io := x34\<rparr>) = numbers s"
  by (simp_all add: numbers_def)

lemma seg_log_update [simp]:
  "seg_log (s\<lparr>last_allocated_seq := x0\<rparr>) = seg_log s" "seg_log (s\<lparr>sequence_fence := x1\<rparr>) = seg_log s"
  "seg_log (s\<lparr>last_acked_seq := x2\<rparr>) = seg_log s" "seg_log (s\<lparr>next_batch_seq := x3\<rparr>) = seg_log s"
  "seg_log (s\<lparr>ack_segment := x4\<rparr>) = seg_log s" "seg_log (s\<lparr>ack_offset := x5\<rparr>) = seg_log s"
  "seg_log (s\<lparr>write_offset := x6\<rparr>) = seg_log s" "seg_log (s\<lparr>prepared_segment := x7\<rparr>) = seg_log s"
  "seg_log (s\<lparr>prepared_offset := x8\<rparr>) = seg_log s" "seg_log (s\<lparr>prepared_last_seq := x9\<rparr>) = seg_log s"
  "seg_log (s\<lparr>physical_bytes := x10\<rparr>) = seg_log s" "seg_log (s\<lparr>unsynced_records := x11\<rparr>) = seg_log s"
  "seg_log (s\<lparr>segment_fd := x12\<rparr>) = seg_log s" "seg_log (s\<lparr>open_segment := x13\<rparr>) = seg_log s"
  "seg_log (s\<lparr>batch_prepared := x14\<rparr>) = seg_log s" "seg_log (s\<lparr>failed := x15\<rparr>) = seg_log s"
  "seg_log (s\<lparr>generation := x16\<rparr>) = seg_log s" "seg_log (s\<lparr>records_appended := x17\<rparr>) = seg_log s"
  "seg_log (s\<lparr>records_replayed := x18\<rparr>) = seg_log s" "seg_log (s\<lparr>corruptions := x19\<rparr>) = seg_log s"
  "seg_log (s\<lparr>sync_deadline := x20\<rparr>) = seg_log s" "seg_log (s\<lparr>sync_deadline_set := x21\<rparr>) = seg_log s"
  "seg_log (s\<lparr>fault_once := x22\<rparr>) = seg_log s" "seg_log (s\<lparr>sync_count := x23\<rparr>) = seg_log s"
  "seg_log (s\<lparr>sync_failures := x24\<rparr>) = seg_log s" "seg_log (s\<lparr>segments_reclaimed := x25\<rparr>) = seg_log s"
  "seg_log (s\<lparr>segment_capacity := x26\<rparr>) = seg_log s" "seg_log (s\<lparr>state_recoveries := x27\<rparr>) = seg_log s"
  "seg_log (s\<lparr>tail_recoveries := x28\<rparr>) = seg_log s" "seg_log (s\<lparr>lock_fd := x29\<rparr>) = seg_log s"
  "seg_log (s\<lparr>directory_fd := x30\<rparr>) = seg_log s" "seg_log (s\<lparr>directory := x31\<rparr>) = seg_log s"
  "seg_log (s\<lparr>options := x32\<rparr>) = seg_log s" "seg_log (s\<lparr>write_segment := x33\<rparr>) = seg_log s"
  by (simp_all add: seg_log_def fun_eq_iff)

lemma records_from_update [simp]:
  "records_from (s\<lparr>last_allocated_seq := x0\<rparr>) = records_from s" "records_from (s\<lparr>sequence_fence := x1\<rparr>) = records_from s"
  "records_from (s\<lparr>last_acked_seq := x2\<rparr>) = records_from s" "records_from (s\<lparr>next_batch_seq := x3\<rparr>) = records_from s"
  "records_from (s\<lparr>ack_segment := x4\<rparr>) = records_from s" "records_from (s\<lparr>ack_offset := x5\<rparr>) = records_from s"
  "records_from (s\<lparr>write_offset := x6\<rparr>) = records_from s" "records_from (s\<lparr>prepared_segment := x7\<rparr>) = records_from s"
  "records_from (s\<lparr>prepared_offset := x8\<rparr>) = records_from s" "records_from (s\<lparr>prepared_last_seq := x9\<rparr>) = records_from s"
  "records_from (s\<lparr>physical_bytes := x10\<rparr>) = records_from s" "records_from (s\<lparr>unsynced_records := x11\<rparr>) = records_from s"
  "records_from (s\<lparr>segment_fd := x12\<rparr>) = records_from s" "records_from (s\<lparr>open_segment := x13\<rparr>) = records_from s"
  "records_from (s\<lparr>batch_prepared := x14\<rparr>) = records_from s" "records_from (s\<lparr>failed := x15\<rparr>) = records_from s"
  "records_from (s\<lparr>generation := x16\<rparr>) = records_from s" "records_from (s\<lparr>records_appended := x17\<rparr>) = records_from s"
  "records_from (s\<lparr>records_replayed := x18\<rparr>) = records_from s" "records_from (s\<lparr>corruptions := x19\<rparr>) = records_from s"
  "records_from (s\<lparr>sync_deadline := x20\<rparr>) = records_from s" "records_from (s\<lparr>sync_deadline_set := x21\<rparr>) = records_from s"
  "records_from (s\<lparr>fault_once := x22\<rparr>) = records_from s" "records_from (s\<lparr>sync_count := x23\<rparr>) = records_from s"
  "records_from (s\<lparr>sync_failures := x24\<rparr>) = records_from s"
  "records_from (s\<lparr>segments_reclaimed := x25\<rparr>) = records_from s"
  "records_from (s\<lparr>segment_capacity := x26\<rparr>) = records_from s"
  "records_from (s\<lparr>state_recoveries := x27\<rparr>) = records_from s"
  "records_from (s\<lparr>tail_recoveries := x28\<rparr>) = records_from s" "records_from (s\<lparr>lock_fd := x29\<rparr>) = records_from s"
  "records_from (s\<lparr>directory_fd := x30\<rparr>) = records_from s" "records_from (s\<lparr>directory := x31\<rparr>) = records_from s"
  "records_from (s\<lparr>options := x32\<rparr>) = records_from s"
  by (simp_all add: records_from_def fun_eq_iff)

lemma pend_update [simp]:
  "pend (s\<lparr>last_allocated_seq := x0\<rparr>) = pend s" "pend (s\<lparr>sequence_fence := x1\<rparr>) = pend s"
  "pend (s\<lparr>last_acked_seq := x2\<rparr>) = pend s" "pend (s\<lparr>next_batch_seq := x3\<rparr>) = pend s"
  "pend (s\<lparr>write_offset := x4\<rparr>) = pend s" "pend (s\<lparr>prepared_segment := x5\<rparr>) = pend s"
  "pend (s\<lparr>prepared_offset := x6\<rparr>) = pend s" "pend (s\<lparr>prepared_last_seq := x7\<rparr>) = pend s"
  "pend (s\<lparr>physical_bytes := x8\<rparr>) = pend s" "pend (s\<lparr>unsynced_records := x9\<rparr>) = pend s"
  "pend (s\<lparr>segment_fd := x10\<rparr>) = pend s" "pend (s\<lparr>open_segment := x11\<rparr>) = pend s"
  "pend (s\<lparr>batch_prepared := x12\<rparr>) = pend s" "pend (s\<lparr>failed := x13\<rparr>) = pend s"
  "pend (s\<lparr>generation := x14\<rparr>) = pend s" "pend (s\<lparr>records_appended := x15\<rparr>) = pend s"
  "pend (s\<lparr>records_replayed := x16\<rparr>) = pend s" "pend (s\<lparr>corruptions := x17\<rparr>) = pend s"
  "pend (s\<lparr>sync_deadline := x18\<rparr>) = pend s" "pend (s\<lparr>sync_deadline_set := x19\<rparr>) = pend s"
  "pend (s\<lparr>fault_once := x20\<rparr>) = pend s" "pend (s\<lparr>sync_count := x21\<rparr>) = pend s"
  "pend (s\<lparr>sync_failures := x22\<rparr>) = pend s" "pend (s\<lparr>segments_reclaimed := x23\<rparr>) = pend s"
  "pend (s\<lparr>segment_capacity := x24\<rparr>) = pend s" "pend (s\<lparr>state_recoveries := x25\<rparr>) = pend s"
  "pend (s\<lparr>tail_recoveries := x26\<rparr>) = pend s" "pend (s\<lparr>lock_fd := x27\<rparr>) = pend s"
  "pend (s\<lparr>directory_fd := x28\<rparr>) = pend s" "pend (s\<lparr>directory := x29\<rparr>) = pend s"
  "pend (s\<lparr>options := x30\<rparr>) = pend s"
  by (simp_all add: pend_def)

lemma cursor_ok_update [simp]:
  "cursor_ok (s\<lparr>last_allocated_seq := x0\<rparr>) = cursor_ok s" "cursor_ok (s\<lparr>sequence_fence := x1\<rparr>) = cursor_ok s"
  "cursor_ok (s\<lparr>last_acked_seq := x2\<rparr>) = cursor_ok s" "cursor_ok (s\<lparr>next_batch_seq := x3\<rparr>) = cursor_ok s"
  "cursor_ok (s\<lparr>write_offset := x4\<rparr>) = cursor_ok s" "cursor_ok (s\<lparr>prepared_segment := x5\<rparr>) = cursor_ok s"
  "cursor_ok (s\<lparr>prepared_offset := x6\<rparr>) = cursor_ok s" "cursor_ok (s\<lparr>prepared_last_seq := x7\<rparr>) = cursor_ok s"
  "cursor_ok (s\<lparr>physical_bytes := x8\<rparr>) = cursor_ok s" "cursor_ok (s\<lparr>unsynced_records := x9\<rparr>) = cursor_ok s"
  "cursor_ok (s\<lparr>segment_fd := x10\<rparr>) = cursor_ok s" "cursor_ok (s\<lparr>open_segment := x11\<rparr>) = cursor_ok s"
  "cursor_ok (s\<lparr>batch_prepared := x12\<rparr>) = cursor_ok s" "cursor_ok (s\<lparr>failed := x13\<rparr>) = cursor_ok s"
  "cursor_ok (s\<lparr>generation := x14\<rparr>) = cursor_ok s" "cursor_ok (s\<lparr>records_appended := x15\<rparr>) = cursor_ok s"
  "cursor_ok (s\<lparr>records_replayed := x16\<rparr>) = cursor_ok s" "cursor_ok (s\<lparr>corruptions := x17\<rparr>) = cursor_ok s"
  "cursor_ok (s\<lparr>sync_deadline := x18\<rparr>) = cursor_ok s" "cursor_ok (s\<lparr>sync_deadline_set := x19\<rparr>) = cursor_ok s"
  "cursor_ok (s\<lparr>fault_once := x20\<rparr>) = cursor_ok s" "cursor_ok (s\<lparr>sync_count := x21\<rparr>) = cursor_ok s"
  "cursor_ok (s\<lparr>sync_failures := x22\<rparr>) = cursor_ok s" "cursor_ok (s\<lparr>segments_reclaimed := x23\<rparr>) = cursor_ok s"
  "cursor_ok (s\<lparr>segment_capacity := x24\<rparr>) = cursor_ok s" "cursor_ok (s\<lparr>state_recoveries := x25\<rparr>) = cursor_ok s"
  "cursor_ok (s\<lparr>tail_recoveries := x26\<rparr>) = cursor_ok s" "cursor_ok (s\<lparr>lock_fd := x27\<rparr>) = cursor_ok s"
  "cursor_ok (s\<lparr>directory_fd := x28\<rparr>) = cursor_ok s" "cursor_ok (s\<lparr>directory := x29\<rparr>) = cursor_ok s"
  "cursor_ok (s\<lparr>options := x30\<rparr>) = cursor_ok s"
  by (simp_all add: cursor_ok_def fun_eq_iff)

lemma io_update:
  assumes "view d = view (io s)"
  shows "seg_log (s\<lparr>io := d\<rparr>) = seg_log s" and "records_from (s\<lparr>io := d\<rparr>) = records_from s"
    and "pend (s\<lparr>io := d\<rparr>) = pend s"
proof -
  show log: "seg_log (s\<lparr>io := d\<rparr>) = seg_log s"
    using assms by (simp add: seg_log_def stored_def fun_eq_iff)
  show recs: "records_from (s\<lparr>io := d\<rparr>) = records_from s"
    by (simp add: records_from_def log fun_eq_iff)
  show "pend (s\<lparr>io := d\<rparr>) = pend s" by (simp add: pend_def recs)
qed

lemmas inv_parts = options_ok_def segment_ok_def table_ok_def descriptor_ok_def cursor_ok_def
  prepared_ok_def sequences_ok_def bytes_ok_def

text \<open>The descriptor matters to \<^const>\<open>descriptor_ok\<close> only.\<close>

lemma descriptor_update [simp]:
  "options_ok (s\<lparr>segment_fd := a\<rparr>) = options_ok s" "options_ok (s\<lparr>open_segment := b\<rparr>) = options_ok s"
  "table_ok (s\<lparr>segment_fd := a\<rparr>) = table_ok s" "table_ok (s\<lparr>open_segment := b\<rparr>) = table_ok s"
  "prepared_ok (s\<lparr>segment_fd := a\<rparr>) = prepared_ok s" "prepared_ok (s\<lparr>open_segment := b\<rparr>) = prepared_ok s"
  "sequences_ok (s\<lparr>segment_fd := a\<rparr>) = sequences_ok s" "sequences_ok (s\<lparr>open_segment := b\<rparr>) = sequences_ok s"
  "bytes_ok (s\<lparr>segment_fd := a\<rparr>) = bytes_ok s" "bytes_ok (s\<lparr>open_segment := b\<rparr>) = bytes_ok s"
  "segment_ok (s\<lparr>segment_fd := a\<rparr>) = segment_ok s" "segment_ok (s\<lparr>open_segment := b\<rparr>) = segment_ok s"
  by (simp_all add: options_ok_def segment_ok_def table_ok_def prepared_ok_def sequences_ok_def
      bytes_ok_def fun_eq_iff)

subsection \<open>What does not change the queue\<close>

definition quiet :: "gateway_spool_v2 \<Rightarrow> gateway_spool_v2 \<Rightarrow> bool" where
  "quiet s s' \<longleftrightarrow> same_core s' s \<and> (disk_wf (io s) \<longrightarrow> disk_wf (io s')) \<and>
     (\<forall>n. view (io s') (segment_name n) = view (io s) (segment_name n))"

lemma quiet_trans [trans]: "quiet a b \<Longrightarrow> quiet b c \<Longrightarrow> quiet a c"
  by (auto simp: quiet_def intro: same_core_trans)

lemma quiet_seg_log:
  assumes "quiet s s'"
  shows "seg_log s' = seg_log s"
proof
  fix n
  have core: "same_core s' s" and segs: "view (io s') (segment_name m) = view (io s) (segment_name m)"
    for m using assms by (simp_all add: quiet_def)
  have "numbers s' = numbers s" using core by (simp add: numbers_def same_core_def)
  then show "seg_log s' n = seg_log s n"
    using stored_view [OF segs, of n] by (simp add: seg_log_def)
qed

lemma quiet_records_from:
  assumes "quiet s s'"
  shows "records_from s' = records_from s"
  using assms quiet_seg_log [OF assms] by (intro ext) (simp add: records_from_def quiet_def same_core_def)

lemma quiet_pend:
  assumes "quiet s s'"
  shows "pend s' = pend s"
  using assms quiet_records_from [OF assms] by (simp add: pend_def quiet_def same_core_def)

lemma quiet_prepared_count:
  assumes "quiet s s'"
  shows "prepared_count s' = prepared_count s"
  using assms quiet_records_from [OF assms] quiet_pend [OF assms]
  by (simp add: prepared_count_def quiet_def same_core_def)

lemma quiet_inv:
  assumes q: "quiet s s'" and "wide_inv s"
  shows "wide_inv s'"
proof (cases "failed s")
  case True
  then show ?thesis using q by (simp add: wide_inv_def quiet_def same_core_def)
next
  case False
  have core: "same_core s' s" and wf: "disk_wf (io s) \<longrightarrow> disk_wf (io s')"
    and segs: "view (io s') (segment_name m) = view (io s) (segment_name m)" for m
    using q by (simp_all add: quiet_def)
  note eqs = quiet_seg_log [OF q] quiet_records_from [OF q] quiet_pend [OF q]
  have nums: "numbers s' = numbers s" using core by (simp add: numbers_def same_core_def)
  have hold: "holds (io s') n rs = holds (io s) n rs" for n rs
    by (rule holds_view [OF segs])
  have c: "cursor_ok s' = cursor_ok s"
    using core by (intro ext) (simp add: cursor_ok_def eqs same_core_def)
  have "disk_wf (io s')" using False assms(2) wf by (simp add: wide_inv_def)
  moreover have "options_ok s'" using False assms(2) core
    by (simp add: wide_inv_def options_ok_def same_core_def)
  moreover have "\<forall>g\<in>set (segments s'). segment_ok s' g" using False assms(2) core
    by (simp add: wide_inv_def segment_ok_def eqs hold same_core_def)
  moreover have "table_ok s'" using False assms(2) core
    by (simp add: wide_inv_def table_ok_def eqs same_core_def)
  moreover have "descriptor_ok s'" using False assms(2) core
    by (cases "segment_fd s") (simp_all add: wide_inv_def descriptor_ok_def nums same_core_def segs)
  moreover have "cursor_ok s' (ack_segment s') (ack_offset s')" using False assms(2) core
    by (simp add: wide_inv_def c same_core_def)
  moreover have "prepared_ok s'" using False assms(2) core
    by (simp add: wide_inv_def prepared_ok_def c eqs same_core_def)
  moreover have "sequences_ok s'" using False assms(2) core
    by (simp add: wide_inv_def sequences_ok_def eqs same_core_def)
  moreover have "bytes_ok s'" using False assms(2) core
    by (simp add: wide_inv_def bytes_ok_def same_core_def)
  ultimately show ?thesis by (simp add: wide_inv_def)
qed

lemma quiet_spool_inv: "quiet s s' \<Longrightarrow> spool_inv s \<Longrightarrow> spool_inv s'"
  using quiet_inv by (auto simp: spool_inv_def quiet_def same_core_def)

lemma quiet_sync: "sync_descriptor t p s = (code, s') \<Longrightarrow> quiet s s'"
  using sync_descriptor_frame [of t p s code s'] by (simp add: quiet_def)

lemma quiet_sync_directory: "sync_directory s = (code, s') \<Longrightarrow> quiet s s'"
  using sync_directory_frame [of s code s'] by (simp add: quiet_def)

lemma quiet_deadline: "set_sync_deadline s = (code, s') \<Longrightarrow> quiet s s'"
  using set_sync_deadline_frame [of s code s'] by (simp add: quiet_def)

lemma quiet_inject: "inject_fault p s = (hit, s') \<Longrightarrow> quiet s s'"
  using inject_fault_frame [of p s hit s'] by (simp add: quiet_def)

lemma quiet_persist: "persist_state s = (code, s') \<Longrightarrow> disk_wf (io s) \<Longrightarrow> quiet s s'"
  using persist_state_frame [of s code s'] by (simp add: quiet_def replaces_state_def state_files_def)

lemma quiet_close: "sys_close (io s) = (ok, d) \<Longrightarrow> quiet s (s\<lparr>io := d\<rparr>)"
  using sys_close_view by (simp add: quiet_def)

text \<open>Changes of the fields outside the core.\<close>

lemma quiet_book [simp]:
  "quiet s (s\<lparr>corruptions := a\<rparr>)" "quiet s (s\<lparr>generation := b\<rparr>)" "quiet s (s\<lparr>fault_once := f\<rparr>)"
  "quiet s (s\<lparr>records_replayed := c\<rparr>)" "quiet s (s\<lparr>sync_deadline_set := e\<rparr>)" "quiet s s"
  by (simp_all add: quiet_def same_core_def)

text \<open>Giving up: a failed spool has no further obligations, and its queue is what it was.\<close>

lemma failed_inv [simp]: "failed s \<Longrightarrow> spool_inv s" "failed s \<Longrightarrow> wide_inv s"
  by (simp_all add: spool_inv_def wide_inv_def)

subsection \<open>Rotating and flushing\<close>

lemma numbers_between:
  assumes "table_ok s"
  shows "ack_segment s \<le> n \<Longrightarrow> n < write_segment s \<Longrightarrow> n \<in> numbers s"
    and "n \<in> numbers s \<Longrightarrow> n \<le> write_segment s"
    and "n \<in> numbers s \<Longrightarrow> 0 < n \<and> n \<le> u64_max"
    and "distinct (map seg_number (segments s))"
proof -
  obtain lo hi where t: "map seg_number (segments s) = [lo..<hi]" "0 < lo" "lo \<le> ack_segment s"
      "hi = write_segment s \<or> hi = Suc (write_segment s)" "write_segment s \<le> u64_max"
    using assms by (auto simp: table_ok_def)
  have "numbers s = {lo..<hi}" using t(1) by (metis numbers_def list.set_map set_upt)
  then show "ack_segment s \<le> n \<Longrightarrow> n < write_segment s \<Longrightarrow> n \<in> numbers s"
    "n \<in> numbers s \<Longrightarrow> n \<le> write_segment s" "n \<in> numbers s \<Longrightarrow> 0 < n \<and> n \<le> u64_max"
    using t by auto
  show "distinct (map seg_number (segments s))" using t(1) by simp
qed

text \<open>The table with the write segment in it ends there.\<close>

lemma table_with_write:
  assumes "table_ok s" and "write_segment s \<in> numbers s"
  obtains lo where "map seg_number (segments s) = [lo..<Suc (write_segment s)]" "0 < lo"
    "lo \<le> ack_segment s"
proof -
  obtain lo hi where t: "map seg_number (segments s) = [lo..<hi]" "0 < lo" "lo \<le> ack_segment s"
      "hi = write_segment s \<or> hi = Suc (write_segment s)"
    using assms(1) by (auto simp: table_ok_def)
  have "numbers s = {lo..<hi}" using t(1) by (metis numbers_def list.set_map set_upt)
  then have "hi = Suc (write_segment s)" using t(4) assms(2) by auto
  then show ?thesis using that t by blast
qed

lemma after_write_empty:
  assumes "table_ok s"
  shows "seg_log s (Suc (write_segment s)) = []"
  using numbers_between(2) [OF assms, of "Suc (write_segment s)"] by (auto simp: seg_log_def)

lemma rotated_records:
  assumes "table_ok s" and "n \<le> write_segment s"
  shows "records_from (s\<lparr>write_segment := Suc (write_segment s)\<rparr>) n offset = records_from s n offset"
proof -
  have "[Suc n..<Suc (Suc (write_segment s))] = [Suc n..<Suc (write_segment s)] @ [Suc (write_segment s)]"
    using assms(2) by simp
  then show ?thesis using after_write_empty [OF assms(1)] unfolding records_from_def by simp
qed

lemma rotated_inv:
  assumes "wide_inv s" and "\<not> failed s" and "write_offset s = segment_bytes s"
    and "write_segment s < u64_max" and "write_segment s \<in> numbers s"
  defines "t \<equiv> s\<lparr>write_segment := Suc (write_segment s), write_offset := 0,
    sequence_fence := last_allocated_seq s, unsynced_records := 0, segment_fd := None,
    open_segment := 0\<rparr>"
  shows "spool_inv t" and "pend t = pend s" and "prepared_count t = prepared_count s"
proof -
  have parts: "disk_wf (io s)" "options_ok s" "\<forall>g\<in>set (segments s). segment_ok s g" "table_ok s"
      "cursor_ok s (ack_segment s) (ack_offset s)" "prepared_ok s" "sequences_ok s" "bytes_ok s"
    using assms(1,2) by (simp_all add: wide_inv_def)
  have from_eq: "records_from t n off = records_from s n off" if "n \<le> write_segment s" for n off
    using rotated_records [OF parts(4) that] by (simp add: t_def)
  have ack: "ack_segment s \<le> write_segment s" using parts(4) by (simp add: table_ok_def)
  show pend: "pend t = pend s"
    using from_eq [OF ack] by (simp add: pend_def) (simp add: t_def)
  have prep: "batch_prepared s \<Longrightarrow> prepared_segment s \<le> write_segment s"
    using parts(6) by (simp add: prepared_ok_def cursor_ok_def)
  show "prepared_count t = prepared_count s"
    using prep from_eq by (simp add: prepared_count_def pend) (simp add: t_def)
  have full: "length (seg_log s (write_segment s)) = segment_records s"
    using parts(2,4) assms(3) by (auto simp: table_ok_def options_ok_def)
  obtain lo where lo: "map seg_number (segments s) = [lo..<Suc (write_segment s)]" "0 < lo"
      "lo \<le> ack_segment s"
    using table_with_write [OF parts(4) assms(5)] .
  have pos: "0 < segment_bytes s"
    using parts(2) by (auto simp: options_ok_def options_valid_def)
  have between: "length (seg_log s n) = segment_records s" if "ack_segment s \<le> n" "n < Suc (write_segment s)" for n
    using that parts(4) full by (cases "n = write_segment s") (auto simp: table_ok_def)
  have "\<exists>lo hi. map seg_number (segments t) = [lo..<hi] \<and> 0 < lo \<and> lo \<le> ack_segment t \<and>
      (hi = write_segment t \<or> hi = Suc (write_segment t))"
    using lo by (intro exI [of _ lo] exI [of _ "Suc (write_segment s)"]) (simp add: t_def)
  then have "table_ok t"
    using ack assms(4) between after_write_empty [OF parts(4)]
    unfolding table_ok_def by (simp add: t_def)
  moreover have "\<forall>g\<in>set (segments t). segment_ok t g"
    using parts(3) by (simp add: segment_ok_def t_def)
  moreover have cur: "cursor_ok t n off" if "cursor_ok s n off" for n off
    using that by (simp add: cursor_ok_def t_def)
  moreover have "cursor_ok t (ack_segment t) (ack_offset t)"
    using cur [OF parts(5)] by (simp add: t_def)
  moreover have "prepared_ok t"
    using parts(6) cur prep from_eq
    by (simp add: prepared_ok_def pend) (fastforce simp: t_def)
  moreover have "sequences_ok t"
    using parts(7) by (simp add: sequences_ok_def pend) (simp add: t_def)
  moreover have "bytes_ok t" "options_ok t" "descriptor_ok t" "disk_wf (io t)"
    using parts by (simp_all add: bytes_ok_def options_ok_def descriptor_ok_def t_def)
  ultimately show "spool_inv t"
    using pos by (simp add: spool_inv_def wide_inv_def) (simp add: t_def)
qed

lemma synced_inv:
  assumes "wide_inv s" and "\<not> failed s" and "write_offset s \<noteq> segment_bytes s"
  defines "t \<equiv> s\<lparr>sequence_fence := last_allocated_seq s, unsynced_records := 0\<rparr>"
  shows "spool_inv t" and "pend t = pend s" and "prepared_count t = prepared_count s"
proof -
  show "pend t = pend s" "prepared_count t = prepared_count s"
    by (simp_all add: t_def prepared_count_def)
  have "write_offset s < segment_bytes s"
    using assms(1-3) by (auto simp: wide_inv_def table_ok_def)
  moreover have "prepared_ok t"
    using assms(1,2) by (auto simp: wide_inv_def prepared_ok_def t_def)
  moreover have "descriptor_ok t"
    using assms(1,2) by (auto simp: wide_inv_def descriptor_ok_def t_def split: option.splits)
  moreover have "sequences_ok t"
    using assms(1,2) by (simp add: wide_inv_def sequences_ok_def t_def)
  ultimately show "spool_inv t"
    using assms(1,2)
    by (simp add: spool_inv_def wide_inv_def t_def options_ok_def segment_ok_def table_ok_def
        bytes_ok_def)
qed

text \<open>The middle of \<open>flush\<close>, between the synchronisation and the persisted state.\<close>

definition flush_cursor :: "gateway_spool_v2 \<Rightarrow> gateway_spool_v2" where
  "flush_cursor s =
     (if write_offset s = segment_bytes s
      then s\<lparr>write_segment := Suc (write_segment s), write_offset := 0,
             sequence_fence := last_allocated_seq s\<rparr>
      else s\<lparr>sequence_fence := last_allocated_seq s\<rparr>)"

lemma flush_steps:
  "gateway_spool_v2_flush s =
     (if failed s then (GATEWAY_ERROR_CLOSED, s)
      else if unsynced_records s = 0 then (GATEWAY_OK, s)
      else case segment_fd s of
        None \<Rightarrow> (GATEWAY_ERROR_SYSTEM, s\<lparr>failed := True\<rparr>)
      | Some ino \<Rightarrow>
          (case sync_descriptor (Sync_file ino) GATEWAY_SPOOL_FAULT_SEGMENT_SYNC s of
             (code, s1) \<Rightarrow>
               if code \<noteq> GATEWAY_OK then (code, s1\<lparr>failed := True\<rparr>)
               else if write_offset s1 = segment_bytes s1 \<and> write_segment s1 = u64_max
               then (GATEWAY_ERROR_RANGE, s1\<lparr>failed := True\<rparr>)
               else case persist_state (flush_cursor s1) of
                 (code, s2) \<Rightarrow>
                   if code \<noteq> GATEWAY_OK then (code, s2\<lparr>failed := True\<rparr>)
                   else if write_offset s1 = segment_bytes s1
                   then case sys_close (io s2) of
                     (closed, d) \<Rightarrow>
                       let s3 = s2\<lparr>unsynced_records := 0, sync_deadline_set := False,
                                    segment_fd := None, io := d\<rparr> in
                       if \<not> closed then (GATEWAY_ERROR_IO, s3\<lparr>failed := True\<rparr>)
                       else (GATEWAY_OK, s3\<lparr>open_segment := 0\<rparr>)
                   else (GATEWAY_OK, s2\<lparr>unsynced_records := 0, sync_deadline_set := False\<rparr>)))"
  by (simp add: gateway_spool_v2_flush_def flush_cursor_def Let_def
      split: option.split prod.split if_split)

text \<open>The exits of \<open>flush\<close>: nothing to do, failure, or a quiet successor of the synced state.\<close>

lemma flush_cases:
  assumes "gateway_spool_v2_flush s = (code, s')" and inv: "wide_inv s"
  obtains (closed) "failed s" "code = GATEWAY_ERROR_CLOSED" "s' = s"
  | (idle) "\<not> failed s" "unsynced_records s = 0" "code = GATEWAY_OK" "s' = s"
  | (broken) "\<not> failed s" "code \<noteq> GATEWAY_OK" "failed s'" "pend s' = pend s"
  | (rotated) s1 where "\<not> failed s" "code = GATEWAY_OK" "quiet s s1" "write_offset s = segment_bytes s"
      "write_segment s < u64_max" "write_segment s \<in> numbers s"
      "quiet (s1\<lparr>write_segment := Suc (write_segment s1), write_offset := 0,
        sequence_fence := last_allocated_seq s1, unsynced_records := 0, segment_fd := None,
        open_segment := 0\<rparr>) s'"
  | (synced) s1 where "\<not> failed s" "code = GATEWAY_OK" "quiet s s1" "write_offset s \<noteq> segment_bytes s"
      "quiet (s1\<lparr>sequence_fence := last_allocated_seq s1, unsynced_records := 0\<rparr>) s'"
proof (cases "failed s \<or> unsynced_records s = 0")
  case True
  then have "failed s \<and> code = GATEWAY_ERROR_CLOSED \<and> s' = s \<or>
      \<not> failed s \<and> unsynced_records s = 0 \<and> code = GATEWAY_OK \<and> s' = s"
    using assms(1) by (simp add: flush_steps split: if_split_asm)
  then show ?thesis using closed idle by blast
next
  case busy: False
  then have parts: "disk_wf (io s)" "table_ok s" "descriptor_ok s"
    using inv by (simp_all add: wide_inv_def)
  then obtain ino where fd: "segment_fd s = Some ino" and here: "write_segment s \<in> numbers s"
    using busy by (auto simp: descriptor_ok_def split: option.splits)
  obtain c1 s1 where sd: "sync_descriptor (Sync_file ino) GATEWAY_SPOOL_FAULT_SEGMENT_SYNC s = (c1, s1)"
    by (metis surj_pair)
  have q1: "quiet s s1" by (rule quiet_sync [OF sd])
  have core1: "same_core s1 s" and wf1: "disk_wf (io s1)"
    using q1 parts(1) by (simp_all add: quiet_def)
  have table1: "table_ok s1"
    using quiet_inv [OF q1 inv] busy core1 by (simp add: wide_inv_def same_core_def)
  show ?thesis
  proof (cases "c1 \<noteq> GATEWAY_OK \<or> write_offset s1 = segment_bytes s1 \<and> write_segment s1 = u64_max")
    case True
    then have "code \<noteq> GATEWAY_OK" "s' = s1\<lparr>failed := True\<rparr>"
      using assms(1) busy fd sd by (auto simp: flush_steps split: if_split_asm)
    then show ?thesis using busy quiet_pend [OF q1] by (intro broken) simp_all
  next
    case on: False
    obtain c2 s2 where ps: "persist_state (flush_cursor s1) = (c2, s2)" by (metis surj_pair)
    have q2: "quiet (flush_cursor s1) s2"
      by (rule quiet_persist [OF ps]) (simp add: flush_cursor_def wf1)
    have "pend (flush_cursor s1) = pend s1"
      using rotated_records [OF table1] table1
      by (simp add: flush_cursor_def pend_def table_ok_def)
    then have p2: "pend s2 = pend s" using quiet_pend [OF q2] quiet_pend [OF q1] by simp
    show ?thesis
    proof (cases "c2 = GATEWAY_OK")
      case False
      then have "code = c2" "s' = s2\<lparr>failed := True\<rparr>"
        using assms(1) busy fd sd on ps by (auto simp: flush_steps)
      then show ?thesis using busy p2 False by (intro broken) simp_all
    next
      case ok2: True
      show ?thesis
      proof (cases "write_offset s1 = segment_bytes s1")
        case False
        then have "code = GATEWAY_OK" "s' = s2\<lparr>unsynced_records := 0, sync_deadline_set := False\<rparr>"
          using assms(1) busy fd sd on ps ok2 by (auto simp: flush_steps)
        moreover have "quiet (s1\<lparr>sequence_fence := last_allocated_seq s1, unsynced_records := 0\<rparr>)
            (s2\<lparr>unsynced_records := 0, sync_deadline_set := False\<rparr>)"
          using q2 False by (simp add: quiet_def same_core_def flush_cursor_def)
        ultimately show ?thesis
          using busy q1 False core1 by (intro synced [of s1]) (simp_all add: same_core_def)
      next
        case full: True
        obtain ok d where cl: "sys_close (io s2) = (ok, d)" by (metis surj_pair)
        note clv = sys_close_view [OF cl]
        let ?s3 = "s2\<lparr>unsynced_records := 0, sync_deadline_set := False, segment_fd := None, io := d\<rparr>"
        have p3: "pend ?s3 = pend s2" by (subst io_update(3)) (simp_all add: clv)
        show ?thesis
        proof (cases ok)
          case False
          then have "code \<noteq> GATEWAY_OK" "s' = ?s3\<lparr>failed := True\<rparr>"
            using assms(1) busy fd sd on ps ok2 full cl by (auto simp: flush_steps Let_def)
          then show ?thesis using busy p2 p3 by (intro broken) simp_all
        next
          case True
          then have "code = GATEWAY_OK" "s' = ?s3\<lparr>open_segment := 0\<rparr>"
            using assms(1) busy fd sd on ps ok2 full cl by (auto simp: flush_steps Let_def)
          moreover have "quiet (s1\<lparr>write_segment := Suc (write_segment s1), write_offset := 0,
              sequence_fence := last_allocated_seq s1, unsynced_records := 0, segment_fd := None,
              open_segment := 0\<rparr>) (?s3\<lparr>open_segment := 0\<rparr>)"
            using q2 full clv by (simp add: quiet_def same_core_def flush_cursor_def)
          moreover have "write_segment s < u64_max"
            using on full core1 parts(2) by (auto simp: same_core_def table_ok_def)
          ultimately show ?thesis
            using busy q1 full core1 here by (intro rotated [of s1]) (simp_all add: same_core_def)
        qed
      qed
    qed
  qed
qed

lemma flush_result:
  assumes "gateway_spool_v2_flush s = (code, s')" and "wide_inv s"
    and "failed s \<or> unsynced_records s \<noteq> 0 \<or> write_offset s < segment_bytes s"
  shows "spool_inv s' \<and> pend s' = pend s \<and>
    (code = GATEWAY_OK \<longrightarrow> \<not> failed s' \<and> \<not> failed s \<and> unsynced_records s' = 0 \<and>
      prepared_count s' = prepared_count s) \<and>
    (code \<noteq> GATEWAY_OK \<longrightarrow> failed s')"
  using assms(1,2)
proof (cases rule: flush_cases)
  case closed
  then show ?thesis by simp_all
next
  case idle
  then show ?thesis using assms(2,3) by (simp_all add: spool_inv_def)
next
  case broken
  then show ?thesis by simp_all
next
  case (rotated s1)
  have core: "same_core s1 s" using rotated(3) by (simp add: quiet_def)
  have n: "numbers s1 = numbers s" using core by (simp add: numbers_def same_core_def)
  have "wide_inv s1" by (rule quiet_inv [OF rotated(3) assms(2)])
  note r = rotated_inv [OF this, unfolded n]
  have pre: "\<not> failed s1" "write_offset s1 = segment_bytes s1" "write_segment s1 < u64_max"
      "write_segment s1 \<in> numbers s"
    using rotated core by (simp_all add: same_core_def)
  have "spool_inv s'" "pend s' = pend s"
    using quiet_spool_inv [OF rotated(7) r(1) [OF pre]] quiet_pend [OF rotated(7)] r(2) [OF pre]
      quiet_pend [OF rotated(3)] by simp_all
  moreover have "\<not> failed s' \<and> unsynced_records s' = 0 \<and> prepared_count s' = prepared_count s"
    using quiet_prepared_count [OF rotated(7)] r(3) [OF pre] quiet_prepared_count [OF rotated(3)]
      rotated(1,7) pre(1) by (simp add: quiet_def same_core_def)
  ultimately show ?thesis using rotated(1,2) by simp
next
  case (synced s1)
  have core: "same_core s1 s" using synced(3) by (simp add: quiet_def)
  have "wide_inv s1" by (rule quiet_inv [OF synced(3) assms(2)])
  note r = synced_inv [OF this]
  have pre: "\<not> failed s1" "write_offset s1 \<noteq> segment_bytes s1"
    using synced core by (simp_all add: same_core_def)
  have "spool_inv s'" "pend s' = pend s"
    using quiet_spool_inv [OF synced(5) r(1) [OF pre]] quiet_pend [OF synced(5)] r(2) [OF pre]
      quiet_pend [OF synced(3)] by simp_all
  moreover have "\<not> failed s' \<and> unsynced_records s' = 0 \<and> prepared_count s' = prepared_count s"
    using quiet_prepared_count [OF synced(5)] r(3) [OF pre] quiet_prepared_count [OF synced(3)]
      synced(1,5) pre(1) by (simp add: quiet_def same_core_def)
  ultimately show ?thesis using synced(1,2) by simp
qed

subsection \<open>The write segment\<close>

lemma quiet_add_segment:
  assumes "add_segment n s = (code, s')"
  shows "code \<noteq> GATEWAY_OK \<Longrightarrow> quiet s s'"
    and "code = GATEWAY_OK \<Longrightarrow> quiet (s\<lparr>segments := segments s @ [new_segment n]\<rparr>) s'"
proof -
  obtain ok d where c: "sys_call (io s) = (ok, d)" by (metis surj_pair)
  note v = sys_call_view [OF c]
  show "code \<noteq> GATEWAY_OK \<Longrightarrow> quiet s s'"
    using assms v by (auto simp: add_segment_def c Let_def quiet_def same_core_def split: if_split_asm)
  show "code = GATEWAY_OK \<Longrightarrow> quiet (s\<lparr>segments := segments s @ [new_segment n]\<rparr>) s'"
    using assms v by (auto simp: add_segment_def c Let_def quiet_def same_core_def split: if_split_asm)
qed

lemma find_segment_iff:
  "find_segment n s = None \<longleftrightarrow> n \<notin> numbers s"
  "find_segment n s = Some g \<Longrightarrow> g \<in> set (segments s) \<and> seg_number g = n"
  by (auto simp: find_segment_def numbers_def find_None_iff find_Some_iff)

lemma table_without_write:
  assumes "table_ok s" and "write_segment s \<notin> numbers s"
  obtains lo where "map seg_number (segments s) = [lo..<write_segment s]" "0 < lo"
    "lo \<le> ack_segment s"
proof -
  obtain lo hi where t: "map seg_number (segments s) = [lo..<hi]" "0 < lo" "lo \<le> ack_segment s"
      "hi = write_segment s \<or> hi = Suc (write_segment s)" "ack_segment s \<le> write_segment s"
    using assms(1) by (auto simp: table_ok_def)
  have "numbers s = {lo..<hi}" using t(1) by (metis numbers_def list.set_map set_upt)
  then have "hi = write_segment s" using t assms(2) by auto
  then show ?thesis using that t by blast
qed

lemma sort_sorted_segments: "sorted (map seg_number (segments s)) \<Longrightarrow> sort_segments s = s"
  by (simp add: sort_segments_def sort_key_id_if_sorted)

text \<open>The table with a new, empty write segment at its end.\<close>

lemma created_inv:
  assumes inv: "spool_inv s" and ok: "\<not> failed s" and absent: "write_segment s \<notin> numbers s"
    and wf: "disk_wf d" and dv: "view d = (view (io s))(segment_name (write_segment s) \<mapsto> (ino, []))"
  defines "t \<equiv> s\<lparr>segments := segments s @ [new_segment (write_segment s)], segment_fd := Some ino,
    open_segment := write_segment s, io := d\<rparr>"
  shows "spool_inv t" and "pend t = pend s" and "prepared_count t = prepared_count s"
    and "sorted (map seg_number (segments t))" and "seg_log t = seg_log s"
proof -
  have parts: "options_ok s" "\<forall>g\<in>set (segments s). segment_ok s g" "table_ok s"
      "cursor_ok s (ack_segment s) (ack_offset s)" "prepared_ok s" "sequences_ok s" "bytes_ok s"
      "write_offset s < segment_bytes s" "descriptor_ok s"
    using inv ok by (simp_all add: spool_inv_def wide_inv_def)
  obtain lo where lo: "map seg_number (segments s) = [lo..<write_segment s]" "0 < lo"
      "lo \<le> ack_segment s"
    using table_without_write [OF parts(3) absent] .
  have le: "ack_segment s \<le> write_segment s" "write_segment s \<le> u64_max"
    using parts(3) by (simp_all add: table_ok_def)
  have nums: "numbers t = insert (write_segment s) (numbers s)"
    by (simp add: numbers_def t_def new_segment_def)
  have name: "segment_name n \<noteq> segment_name (write_segment s)" if "n \<in> numbers s" for n
    using segment_name_inject [of n "write_segment s"] numbers_between(3) [OF parts(3) that] le absent
      that by auto
  show log: "seg_log t = seg_log s"
  proof
    fix n
    show "seg_log t n = seg_log s n"
      using name absent nums
      by (auto simp: seg_log_def t_def stored_def dv entries_def)
  qed
  have recs: "records_from t = records_from s"
    by (simp add: records_from_def log fun_eq_iff) (simp add: t_def)
  show pend: "pend t = pend s" by (simp add: pend_def recs) (simp add: t_def)
  show "prepared_count t = prepared_count s"
    by (simp add: prepared_count_def recs pend) (simp add: t_def)
  have empty: "seg_log s (write_segment s) = []" using absent by (simp add: seg_log_def)
  have nlo: "map seg_number (segments t) = [lo..<Suc (write_segment s)]"
    using lo le by (simp add: t_def new_segment_def)
  then show "sorted (map seg_number (segments t))" by (simp only: sorted_upt)
  have "\<exists>lo hi. map seg_number (segments t) = [lo..<hi] \<and> 0 < lo \<and> lo \<le> ack_segment t \<and>
      (hi = write_segment t \<or> hi = Suc (write_segment t))"
    using nlo lo(2,3) by (intro exI [of _ lo] exI [of _ "Suc (write_segment s)"]) (simp add: t_def)
  then have "table_ok t"
    using parts(3) unfolding table_ok_def log by (simp add: t_def)
  moreover have "segment_ok t g" if "g \<in> set (segments t)" for g
  proof (cases "g \<in> set (segments s)")
    case True
    then have "seg_number g \<in> numbers s" by (simp add: numbers_def)
    then have "holds (io t) (seg_number g) rs = holds (io s) (seg_number g) rs" for rs
      using name by (intro holds_view) (simp add: t_def dv)
    then show ?thesis using parts(2) True by (simp add: segment_ok_def log)
  next
    case False
    then have "g = new_segment (write_segment s)" using that by (simp add: t_def)
    then show ?thesis
      using empty by (simp add: segment_ok_def log new_segment_def holds_def rec_bytes_def)
        (simp add: t_def dv)
  qed
  moreover have cur: "cursor_ok t n off = cursor_ok s n off" for n off
    by (simp add: cursor_ok_def log) (simp add: t_def)
  moreover have "cursor_ok t (ack_segment t) (ack_offset t)"
    using parts(4) by (simp add: cur) (simp add: t_def)
  moreover have "prepared_ok t"
    using parts(5) by (simp add: prepared_ok_def cur recs pend) (simp add: t_def)
  moreover have "sequences_ok t"
    using parts(6) by (simp add: sequences_ok_def pend) (simp add: t_def)
  moreover have "bytes_ok t"
    using parts(7) by (simp add: bytes_ok_def t_def new_segment_def)
  moreover have "write_segment t = write_segment s" by (simp add: t_def)
  then have "write_segment t \<in> numbers t" using nums by simp
  then have "descriptor_ok t" unfolding descriptor_ok_def by (simp add: t_def dv)
  moreover have "options_ok t" "disk_wf (io t)" "write_offset t < segment_bytes t"
    using parts wf by (simp_all add: options_ok_def t_def)
  ultimately show "spool_inv t" by (simp add: spool_inv_def wide_inv_def)
qed

text \<open>\<open>ensure_write_segment\<close> either finds the write segment open, opens it, or creates it.\<close>

lemma ensure_result:
  assumes "ensure_write_segment s = (code, s')" and inv: "spool_inv s" and ok: "\<not> failed s"
  shows "pend s' = pend s \<and>
    (code = GATEWAY_OK \<longrightarrow> spool_inv s' \<and> \<not> failed s' \<and> segment_fd s' \<noteq> None \<and>
       prepared_count s' = prepared_count s \<and> batch_prepared s' = batch_prepared s \<and>
       last_allocated_seq s' = last_allocated_seq s \<and> sequence_fence s' = sequence_fence s \<and>
       physical_bytes s' = physical_bytes s \<and> options s' = options s)"
proof (cases "segment_fd s")
  case (Some ino)
  then have "open_segment s = write_segment s"
    using inv ok by (simp add: spool_inv_def wide_inv_def descriptor_ok_def)
  then have "code = GATEWAY_OK" "s' = s"
    using assms(1) Some by (simp_all add: ensure_write_segment_def)
  then show ?thesis using inv ok Some by simp
next
  case None
  have parts: "disk_wf (io s)" "descriptor_ok s" "table_ok s"
    using inv ok by (simp_all add: spool_inv_def wide_inv_def)
  show ?thesis
  proof (cases "find_segment (write_segment s) s")
    case (Some g)
    obtain r d where o: "sys_open (segment_name (write_segment s)) (io s) = (r, d)" by (metis surj_pair)
    note ov = sys_open_view [OF o]
    show ?thesis
    proof (cases r)
      case None
      then have "code \<noteq> GATEWAY_OK" "s' = s\<lparr>io := d\<rparr>"
        using assms(1) \<open>segment_fd s = None\<close> Some
        by (auto simp: ensure_write_segment_def open_segment_fd_def o Let_def)
      then show ?thesis using io_update(3) [of d s] ov(1) by simp
    next
      case fd: (Some ino)
      let ?t = "s\<lparr>segment_fd := Some ino, open_segment := write_segment s\<rparr>"
      have "write_segment s \<in> numbers s" using find_segment_iff(1) [of "write_segment s" s] Some by auto
      moreover obtain c where "view (io s) (segment_name (write_segment s)) = Some (ino, c)"
        using ov(3) [OF fd] by blast
      ultimately have "descriptor_ok ?t" by (simp add: descriptor_ok_def)
      then have "spool_inv ?t"
        using inv ok by (simp add: spool_inv_def wide_inv_def)
      moreover have "code = GATEWAY_OK" "s' = ?t\<lparr>io := d\<rparr>"
        using assms(1) \<open>segment_fd s = None\<close> Some fd
        by (auto simp: ensure_write_segment_def open_segment_fd_def o Let_def)
      moreover have "quiet ?t (?t\<lparr>io := d\<rparr>)" using ov by (simp add: quiet_def)
      ultimately show ?thesis
        using quiet_spool_inv [of ?t s'] quiet_pend [of ?t s'] quiet_prepared_count [of ?t s'] ok
        by (simp add: prepared_count_def)
    qed
  next
    case absent: None
    then have new: "write_segment s \<notin> numbers s" by (simp add: find_segment_iff)
    obtain r d where o: "sys_open_excl (segment_name (write_segment s)) (io s) = (r, d)"
      by (metis surj_pair)
    note ov = sys_open_excl_view [OF o parts(1)]
    show ?thesis
    proof (cases r)
      case None
      then have "code \<noteq> GATEWAY_OK" "s' = s\<lparr>io := d\<rparr>"
        using assms(1) \<open>segment_fd s = None\<close> absent
        by (auto simp: ensure_write_segment_def open_segment_fd_def o Let_def)
      then show ?thesis using io_update(3) [of d s] ov(2) None by simp
    next
      case fd: (Some ino)
      note dv = ov(3) [OF fd]
      let ?s1 = "s\<lparr>io := d, segment_fd := Some ino\<rparr>"
      obtain c2 s2 where a: "add_segment (write_segment s) ?s1 = (c2, s2)" by (metis surj_pair)
      note q2 = quiet_add_segment [OF a]
      have p1: "pend ?s1 = pend s"
      proof -
        have "seg_log ?s1 = seg_log s"
          using new segment_name_inject [of _ "write_segment s"] numbers_between(3) [OF parts(3)]
            parts(3) dv
          by (auto simp: seg_log_def stored_def fun_eq_iff table_ok_def)
        then show ?thesis by (simp add: pend_def records_from_def)
      qed
      show ?thesis
      proof (cases "c2 = GATEWAY_OK")
        case False
        then have "code \<noteq> GATEWAY_OK"
            "s' = s2\<lparr>segment_fd := None, io := snd (sys_close (io s2))\<rparr>"
          using assms(1) \<open>segment_fd s = None\<close> absent fd a
          by (auto simp: ensure_write_segment_def open_segment_fd_def o Let_def)
        then show ?thesis
          using quiet_pend [OF q2(1) [OF False]] p1
            io_update(3) [of "snd (sys_close (io s2))" "s2\<lparr>segment_fd := None\<rparr>"]
          by simp
      next
        case ok2: True
        let ?t = "s\<lparr>segments := segments s @ [new_segment (write_segment s)], segment_fd := Some ino,
          open_segment := write_segment s, io := d\<rparr>"
        note t = created_inv [OF inv ok new ov(1) dv [THEN conjunct2]]
        have core2: "same_core s2 (?s1\<lparr>segments := segments s @ [new_segment (write_segment s)]\<rparr>)"
          and q: "quiet ?t (s2\<lparr>open_segment := write_segment s2\<rparr>)"
          using q2(2) [OF ok2] by (simp_all add: quiet_def same_core_def)
        have sorted: "sort_segments s2 = s2"
          using t(4) core2 by (intro sort_sorted_segments) (simp add: same_core_def)
        obtain c3 s3 where sd: "sync_directory s2 = (c3, s3)" by (metis surj_pair)
        have q3: "quiet s2 s3" by (rule quiet_sync_directory [OF sd])
        have pend3: "pend s3 = pend s"
          using quiet_pend [OF q3] quiet_pend [OF q] t(2) by simp
        have res: "code = c3" "s' = (if c3 = GATEWAY_OK then s3\<lparr>open_segment := write_segment s3\<rparr> else s3)"
          using assms(1) \<open>segment_fd s = None\<close> absent fd a ok2 sorted sd
          by (auto simp: ensure_write_segment_def open_segment_fd_def o Let_def split: if_split_asm)
        show ?thesis
        proof (cases "c3 = GATEWAY_OK")
          case False
          then show ?thesis using res pend3 by simp
        next
          case True
          have "quiet (s2\<lparr>open_segment := write_segment s2\<rparr>) (s3\<lparr>open_segment := write_segment s3\<rparr>)"
            using q3 by (simp add: quiet_def same_core_def)
          then have qt: "quiet ?t s'" using q quiet_trans res True by simp
          have "same_core s' ?t" using qt by (simp add: quiet_def)
          then show ?thesis
            using res True quiet_spool_inv [OF qt t(1)] quiet_pend [OF qt] quiet_prepared_count [OF qt]
              t(2,3) ok
            by (simp add: same_core_def)
        qed
      qed
    qed
  qed
qed

end
