(* ===== verification/Spool_V2_Ops.thy ===== *)
theory Spool_V2_Ops
  imports Spool_V2_Queue
begin

text \<open>
  The operations of the segmented spool as operations of a queue: \<open>append\<close>, \<open>prepare_batch\<close>,
  \<open>ack_prepared\<close>, \<open>cancel_prepared\<close>, \<open>flush\<close> and \<open>poll\<close>, each with every outcome of every system
  call.
\<close>

subsection \<open>Reserving sequence numbers\<close>

text \<open>The fields that only the queue operations themselves move.\<close>

definition same_cursor_fields :: "gateway_spool_v2 \<Rightarrow> gateway_spool_v2 \<Rightarrow> bool" where
  "same_cursor_fields a b \<longleftrightarrow>
     options a = options b \<and> segment_records a = segment_records b \<and>
     segment_bytes a = segment_bytes b \<and> last_allocated_seq a = last_allocated_seq b \<and>
     last_acked_seq a = last_acked_seq b \<and> next_batch_seq a = next_batch_seq b \<and>
     ack_segment a = ack_segment b \<and> ack_offset a = ack_offset b \<and>
     prepared_segment a = prepared_segment b \<and> prepared_offset a = prepared_offset b \<and>
     prepared_last_seq a = prepared_last_seq b \<and> segments a = segments b \<and>
     physical_bytes a = physical_bytes b \<and> batch_prepared a = batch_prepared b"

lemma quiet_cursor_fields: "quiet s s' \<Longrightarrow> same_cursor_fields s' s"
  by (simp add: quiet_def same_core_def same_cursor_fields_def)

lemma same_cursor_fields_trans:
  "same_cursor_fields a b \<Longrightarrow> same_cursor_fields b c \<Longrightarrow> same_cursor_fields a c"
  by (simp add: same_cursor_fields_def)

lemma flush_fields:
  assumes "gateway_spool_v2_flush s = (GATEWAY_OK, s')" and "wide_inv s"
  shows "same_cursor_fields s' s"
  using assms
proof (cases rule: flush_cases)
  case (rotated s1)
  then show ?thesis
    using quiet_cursor_fields [OF rotated(3)] quiet_cursor_fields [OF rotated(7)]
    by (simp add: same_cursor_fields_def)
next
  case (synced s1)
  then show ?thesis
    using quiet_cursor_fields [OF synced(3)] quiet_cursor_fields [OF synced(5)]
    by (simp add: same_cursor_fields_def)
qed (simp_all add: same_cursor_fields_def)

lemma fence_reaches:
  fixes q m :: u64
  shows "q \<le> (if q > - 1 - m then - 1 else q + m)"
proof (cases "q > - 1 - m")
  case True
  then show ?thesis by simp
next
  case False
  then have "unat q \<le> unat (- 1 - m)" by (simp add: word_le_nat_alt not_less)
  moreover have "unat (- 1 - m) = 2 ^ 64 - 1 - unat m"
    using unat_sub [of m "- 1"] by (simp add: unsigned_minus_1_eq_mask mask_eq_exp_minus_1)
  moreover have "unat m < 2 ^ 64" using unsigned_less [of m] by simp
  ultimately have "unat q + unat m < 2 ^ 64" by simp
  then show ?thesis using False by (simp add: word_le_nat_alt unat_word_ariths)
qed

text \<open>Raising the fence over a new sequence number.\<close>

lemma fence_update [simp]:
  "options_ok (s\<lparr>sequence_fence := f\<rparr>) = options_ok s" "table_ok (s\<lparr>sequence_fence := f\<rparr>) = table_ok s"
  "segment_ok (s\<lparr>sequence_fence := f\<rparr>) = segment_ok s" "bytes_ok (s\<lparr>sequence_fence := f\<rparr>) = bytes_ok s"
  "descriptor_ok (s\<lparr>sequence_fence := f\<rparr>) = descriptor_ok s"
  "prepared_ok (s\<lparr>sequence_fence := f\<rparr>) = prepared_ok s"
  by (simp_all add: inv_parts fun_eq_iff split: option.split)

lemma raised_fence_inv:
  assumes "spool_inv s" and "\<not> failed s" and "last_allocated_seq s \<le> f"
  shows "spool_inv (s\<lparr>sequence_fence := f\<rparr>)" and "prepared_count (s\<lparr>sequence_fence := f\<rparr>) = prepared_count s"
  using assms
  by (simp_all add: spool_inv_def wide_inv_def sequences_ok_def prepared_count_def)

lemma reserve_result:
  assumes "reserve_sequences r s = (code, s')" and inv: "spool_inv s" and ok: "\<not> failed s"
    and fresh: "last_allocated_seq s < gateway_seq r"
  shows "spool_inv s' \<and> pend s' = pend s \<and> (code \<noteq> GATEWAY_OK \<longrightarrow> failed s') \<and>
    (code = GATEWAY_OK \<longrightarrow> \<not> failed s' \<and> prepared_count s' = prepared_count s \<and>
       gateway_seq r \<le> sequence_fence s' \<and> same_cursor_fields s' s)"
proof (cases "gateway_seq r > sequence_fence s")
  case False
  then have "code = GATEWAY_OK \<and> s' = s" using assms(1) by (simp add: reserve_sequences_def)
  then show ?thesis using False inv ok by (simp add: same_cursor_fields_def)
next
  case True
  obtain c1 s1 where f: "(if unsynced_records s \<noteq> 0 then gateway_spool_v2_flush s else (GATEWAY_OK, s)) =
      (c1, s1)" by (metis surj_pair)
  have wide: "wide_inv s" "write_offset s < segment_bytes s" using inv ok by (simp_all add: spool_inv_def)
  have flushed: "spool_inv s1 \<and> pend s1 = pend s \<and> (c1 \<noteq> GATEWAY_OK \<longrightarrow> failed s1) \<and>
      (c1 = GATEWAY_OK \<longrightarrow> \<not> failed s1 \<and> prepared_count s1 = prepared_count s \<and>
         same_cursor_fields s1 s)"
  proof (cases "unsynced_records s = 0")
    case True
    then show ?thesis using f inv ok by (auto simp: same_cursor_fields_def)
  next
    case False
    then have fl: "gateway_spool_v2_flush s = (c1, s1)" using f by simp
    show ?thesis
      using flush_result [OF fl wide(1)] flush_fields [OF _ wide(1)] fl False by auto
  qed
  let ?res = "of_nat (sync_records (options s)) - 1 :: u64"
  let ?f = "if gateway_seq r > - 1 - ?res then - 1 else gateway_seq r + ?res"
  let ?s2 = "s1\<lparr>sequence_fence := ?f\<rparr>"
  show ?thesis
  proof (cases "c1 = GATEWAY_OK")
    case False
    then have "code = c1 \<and> s' = s1" using assms(1) True f by (simp add: reserve_sequences_def Let_def)
    then show ?thesis using flushed False by simp
  next
    case ok1: True
    obtain c3 s3 where ps: "persist_state ?s2 = (c3, s3)" by (metis surj_pair)
    have parts: "spool_inv s1" "\<not> failed s1" "same_cursor_fields s1 s" using flushed ok1 by simp_all
    have "last_allocated_seq s1 \<le> ?f"
      using parts(3) fresh fence_reaches [of "gateway_seq r" ?res]
      by (simp add: same_cursor_fields_def)
    note raised = raised_fence_inv [OF parts(1,2) this]
    have "disk_wf (io ?s2)" using parts by (simp add: spool_inv_def wide_inv_def)
    then have q: "quiet ?s2 s3" by (rule quiet_persist [OF ps])
    have p3: "pend s3 = pend s" using quiet_pend [OF q] flushed by simp
    show ?thesis
    proof (cases "c3 = GATEWAY_OK")
      case False
      then have "code = c3 \<and> s' = s3\<lparr>failed := True\<rparr>"
        using assms(1) True f ok1 ps by (simp add: reserve_sequences_def Let_def)
      then show ?thesis using p3 False by simp
    next
      case True
      then have "code = GATEWAY_OK \<and> s' = s3"
        using assms(1) \<open>gateway_seq r > sequence_fence s\<close> f ok1 ps
        by (simp add: reserve_sequences_def Let_def)
      then show ?thesis
        using p3 quiet_spool_inv [OF q raised(1)] quiet_prepared_count [OF q] raised(2) flushed ok1 q
          fence_reaches [of "gateway_seq r" ?res] quiet_cursor_fields [OF q] parts
        by (simp add: quiet_def same_core_def same_cursor_fields_def)
    qed
  qed
qed

subsection \<open>Appending\<close>

lemma modify_first_map:
  "distinct (map seg_number gs) \<Longrightarrow>
     modify_first n f gs = map (\<lambda>g. if seg_number g = n then f g else g) gs"
proof (induction gs)
  case (Cons g gs)
  then show ?case
    by (auto intro!: map_idI [symmetric] simp: image_iff)
qed simp

lemma modify_first_number:
  assumes "\<And>g. seg_number (f g) = seg_number g"
  shows "map seg_number (modify_first n f gs) = map seg_number gs"
  by (induction gs) (simp_all add: assms)

lemma modify_first_size:
  assumes "\<And>g. seg_size (f g) = seg_size g + k" and "n \<in> seg_number ` set gs"
  shows "sum_list (map seg_size (modify_first n f gs)) = sum_list (map seg_size gs) + k"
  using assms(2) by (induction gs) (auto simp: assms(1))

lemma concat_map_last:
  assumes "n \<le> w" and "\<And>m. m \<noteq> w \<Longrightarrow> L' m = L m" and "L' w = L w @ [r]"
  shows "concat (map L' [n..<Suc w]) = concat (map L [n..<Suc w]) @ [r]"
proof -
  have "map L' [n..<w] = map L [n..<w]" by (intro map_cong) (auto simp: assms(2))
  moreover have "[n..<Suc w] = [n..<w] @ [w]" using assms(1) by simp
  ultimately show ?thesis by (simp add: assms(3) del: map_eq_conv upt_Suc)
qed

text \<open>The state after the entry of \<open>r\<close> has been written and noted.\<close>

lemma written_state:
  assumes inv: "spool_inv s" and ok: "\<not> failed s" and r: "rec_ok r"
    and fresh: "last_allocated_seq s < gateway_seq r" and fence: "gateway_seq r \<le> sequence_fence s"
    and room: "physical_bytes s \<le> max_bytes (options s) - GATEWAY_SPOOL_ENTRY_SIZE"
    and fd: "segment_fd s = Some ino" and old: "view (io s) (segment_name (write_segment s)) = Some (ino, c)"
    and wf: "disk_wf d"
    and new: "view d = (view (io s))(segment_name (write_segment s) \<mapsto> (ino, c @ v2_encode_record r))"
  defines "t \<equiv> note_appended r (s\<lparr>io := d\<rparr>)"
  shows "wide_inv t" and "\<not> failed t" and "pend t = pend s @ [r]"
    and "prepared_count t = prepared_count s" and "unsynced_records t = Suc (unsynced_records s)"
    and "last_allocated_seq t = gateway_seq r" and "find_segment (write_segment s) s \<noteq> None"
    and "numbers t = numbers s"
    and "seg_log t n = (if n = write_segment s then seg_log s (write_segment s) @ [r] else seg_log s n)"
proof -
  let ?w = "write_segment s"
  let ?L = "seg_log s"
  have parts: "options_ok s" "\<forall>g\<in>set (segments s). segment_ok s g" "table_ok s"
      "cursor_ok s (ack_segment s) (ack_offset s)" "prepared_ok s" "sequences_ok s" "bytes_ok s"
      "write_offset s < segment_bytes s" "descriptor_ok s"
    using inv ok by (simp_all add: spool_inv_def wide_inv_def)
  have w: "?w \<in> numbers s" using parts(9) fd by (simp add: descriptor_ok_def)
  then show "find_segment ?w s \<noteq> None" by (simp add: find_segment_iff)
  obtain g0 where "g0 \<in> set (segments s)" "seg_number g0 = ?w" using w by (auto simp: numbers_def)
  then have "holds (io s) ?w (?L ?w)" using parts(2) by (auto simp: segment_ok_def Let_def)
  then have c: "c = rec_bytes (?L ?w)" and recs: "\<forall>r\<in>set (?L ?w). rec_ok r"
    using old by (auto simp: holds_def)
  have fields: "write_segment t = ?w" "ack_segment t = ack_segment s" "ack_offset t = ack_offset s"
      "segment_records t = segment_records s" "segment_bytes t = segment_bytes s" "io t = d"
      "write_offset t = write_offset s + GATEWAY_SPOOL_ENTRY_SIZE" "options t = options s"
      "prepared_segment t = prepared_segment s" "prepared_offset t = prepared_offset s"
      "prepared_last_seq t = prepared_last_seq s" "batch_prepared t = batch_prepared s"
      "last_acked_seq t = last_acked_seq s" "sequence_fence t = sequence_fence s"
      "next_batch_seq t = next_batch_seq s" "segment_fd t = segment_fd s"
      "open_segment t = open_segment s"
      "physical_bytes t = physical_bytes s + GATEWAY_SPOOL_ENTRY_SIZE"
    by (simp_all add: t_def note_appended_def)
  show "\<not> failed t" "unsynced_records t = Suc (unsynced_records s)" "last_allocated_seq t = gateway_seq r"
    using ok by (simp_all add: t_def note_appended_def)
  have segs: "map seg_number (segments t) = map seg_number (segments s)"
    by (simp add: t_def note_appended_def modify_first_number)
  then show nums: "numbers t = numbers s" by (metis numbers_def list.set_map)
  have name: "segment_name n \<noteq> segment_name ?w" if "n \<in> numbers s" "n \<noteq> ?w" for n
    using segment_name_inject [of n ?w] numbers_between(3) [OF parts(3)] that w by auto
  have holds': "holds d ?w (?L ?w @ [r])"
    using new c recs r by (simp add: holds_def rec_bytes_append) (simp add: rec_bytes_def)
  have log: "seg_log t n = (if n = ?w then ?L ?w @ [r] else ?L n)" for n
    using holds_stored [OF holds'] w name stored_view [of d n "io s"] new
    by (auto simp: seg_log_def nums fields)
  then show "seg_log t n = (if n = ?w then ?L ?w @ [r] else ?L n)" .
  have ack: "ack_segment s \<le> ?w" using parts(3) by (simp add: table_ok_def)
  have grow: "records_from t n off = records_from s n off @ [r]"
    if "cursor_ok s n off" for n off
  proof (cases "n = ?w")
    case True
    have "off div GATEWAY_SPOOL_ENTRY_SIZE \<le> length (?L ?w)"
      using that True by (auto simp: cursor_ok_def elim!: dvdE)
    then show ?thesis using True by (simp add: records_from_def log fields)
  next
    case False
    then have "Suc n \<le> ?w" using that by (simp add: cursor_ok_def)
    then have "concat (map (seg_log t) [Suc n..<Suc ?w]) = concat (map ?L [Suc n..<Suc ?w]) @ [r]"
      by (intro concat_map_last) (simp_all add: log)
    then show ?thesis unfolding records_from_def fields using False by (simp add: log)
  qed
  show pend: "pend t = pend s @ [r]" using grow [OF parts(4)] by (simp add: pend_def fields)
  have prep: "batch_prepared s \<Longrightarrow> cursor_ok s (prepared_segment s) (prepared_offset s)"
    using parts(5) by (simp add: prepared_ok_def)
  then show "prepared_count t = prepared_count s"
    using grow by (auto simp: prepared_count_def fields pend)
  have len: "write_offset s = length (?L ?w) * GATEWAY_SPOOL_ENTRY_SIZE"
    using parts(3) by (simp add: table_ok_def)
  have "length (?L ?w) < segment_records s"
    using len parts(1,8) by (simp add: options_ok_def)
  then have grown: "Suc (length (?L ?w)) * GATEWAY_SPOOL_ENTRY_SIZE \<le> segment_bytes s"
    using parts(1) unfolding options_ok_def by (metis Suc_leI mult_le_mono1)
  have "table_ok t"
    unfolding table_ok_def segs fields using parts(3) len grown by (auto simp: log table_ok_def)
  moreover have "segment_ok t g" if g: "g \<in> set (segments t)" for g
  proof -
    let ?f = "\<lambda>g. g\<lparr>seg_first_seq := (if seg_first_seq g = 0 then gateway_seq r else seg_first_seq g),
      seg_last_seq := gateway_seq r, seg_size := seg_size g + GATEWAY_SPOOL_ENTRY_SIZE\<rparr>"
    have "segments t = map (\<lambda>g. if seg_number g = ?w then ?f g else g) (segments s)"
      using modify_first_map [OF numbers_between(4) [OF parts(3)]]
      by (simp add: t_def note_appended_def)
    then obtain g1 where g1: "g1 \<in> set (segments s)" "g = (if seg_number g1 = ?w then ?f g1 else g1)"
      using g by auto
    have "segment_ok s g1" using parts(2) g1(1) by blast
    moreover have "holds d n rs = holds (io s) n rs" if "n \<in> numbers s" "n \<noteq> ?w" for n rs
      using name [OF that] new by (intro holds_view) simp
    moreover have "seg_number g1 \<in> numbers s" using g1(1) by (simp add: numbers_def)
    ultimately show ?thesis
      using g1(2) holds' by (simp add: segment_ok_def log fields Let_def)
  qed
  moreover have cur: "cursor_ok t n off" if "cursor_ok s n off" for n off
    using that by (auto simp: cursor_ok_def log fields)
  moreover have "prepared_ok t"
    unfolding prepared_ok_def fields
  proof (intro impI conjI)
    assume b: "batch_prepared s"
    show "cursor_ok t (prepared_segment s) (prepared_offset s)" by (rule cur [OF prep [OF b]])
    show "prepared_offset s + unsynced_records t * GATEWAY_SPOOL_ENTRY_SIZE
        \<le> write_offset s + GATEWAY_SPOOL_ENTRY_SIZE" if "prepared_segment s = ?w"
      using parts(5) b that \<open>unsynced_records t = Suc (unsynced_records s)\<close>
      by (simp add: prepared_ok_def)
    obtain k where "k \<le> length (pend s)"
        "records_from s (prepared_segment s) (prepared_offset s) = drop k (pend s)"
        "0 < k \<longrightarrow> prepared_last_seq s = gateway_seq (pend s ! (k - 1))"
        "k = 0 \<longrightarrow> prepared_last_seq s = last_acked_seq s"
      using parts(5) b unfolding prepared_ok_def by blast
    then show "\<exists>k\<le>length (pend t).
        records_from t (prepared_segment s) (prepared_offset s) = drop k (pend t) \<and>
        (0 < k \<longrightarrow> prepared_last_seq s = gateway_seq (pend t ! (k - 1))) \<and>
        (k = 0 \<longrightarrow> prepared_last_seq s = last_acked_seq s)"
      using grow [OF prep [OF b]] by (intro exI [of _ k]) (auto simp: pend nth_append)
  qed
  moreover have "sequences_ok t"
    using parts(6) fresh fence unfolding sequences_ok_def pend
    by (auto simp: fields sorted_wrt_append \<open>last_allocated_seq t = gateway_seq r\<close>)
  moreover have "bytes_ok t"
  proof -
    have sum: "sum_list (map seg_size (segments t)) = sum_list (map seg_size (segments s)) + GATEWAY_SPOOL_ENTRY_SIZE"
      using w by (simp add: t_def note_appended_def modify_first_size numbers_def)
    have "1 * GATEWAY_SPOOL_ENTRY_SIZE \<le> segment_records s * GATEWAY_SPOOL_ENTRY_SIZE"
      using parts(1) by (intro mult_le_mono1) (simp add: options_ok_def options_valid_def)
    moreover have "segment_records s * GATEWAY_SPOOL_ENTRY_SIZE \<le> max_bytes (options s)"
      using parts(1) by (simp add: options_ok_def options_valid_def)
    ultimately have "GATEWAY_SPOOL_ENTRY_SIZE \<le> max_bytes (options s)" by linarith
    with sum show ?thesis using parts(7) room by (simp add: bytes_ok_def fields)
  qed
  moreover have "descriptor_ok t"
    using parts(9) fd new by (simp add: descriptor_ok_def nums fields)
  moreover have "options_ok t" using parts(1) by (simp add: options_ok_def fields)
  ultimately show "wide_inv t"
    using wf parts(4) cur by (simp add: wide_inv_def fields)
qed

text \<open>A torn entry at the end of the write segment does not count.\<close>

lemma entries_torn:
  "\<forall>r\<in>set rs. rec_ok r \<Longrightarrow> length p < GATEWAY_SPOOL_ENTRY_SIZE \<Longrightarrow> entries (rec_bytes rs @ p) = rs"
  unfolding entries_def rec_bytes_def by (rule gsp2.decoded_log_torn)

lemma write_file:
  assumes "spool_inv s" "\<not> failed s" "segment_fd s = Some ino"
  obtains rs where "view (io s) (segment_name (write_segment s)) = Some (ino, rec_bytes rs)"
    "\<forall>r\<in>set rs. rec_ok r" "length (rec_bytes rs) = write_offset s"
    "seg_log s (write_segment s) = rs"
proof -
  have parts: "\<forall>g\<in>set (segments s). segment_ok s g" "table_ok s" "descriptor_ok s"
    using assms(1,2) by (simp_all add: spool_inv_def wide_inv_def)
  then obtain g where "g \<in> set (segments s)" "seg_number g = write_segment s"
    using assms(3) by (auto simp: descriptor_ok_def numbers_def)
  then have "holds (io s) (write_segment s) (seg_log s (write_segment s))"
    using parts(1) by (auto simp: segment_ok_def Let_def)
  then show ?thesis
    using that [of "seg_log s (write_segment s)"] parts(2,3) assms(3)
    by (auto simp: holds_def descriptor_ok_def table_ok_def)
qed

lemma torn_pend:
  assumes "spool_inv s" "\<not> failed s" "segment_fd s = Some ino" and "disk_wf d"
    and here: "view (io s) (segment_name (write_segment s)) = Some (ino, c)"
    and torn: "view d = (view (io s))(segment_name (write_segment s) \<mapsto> (ino, c @ p))"
    and p: "length p < GATEWAY_SPOOL_ENTRY_SIZE"
  shows "pend (s\<lparr>io := d\<rparr>) = pend s"
proof -
  obtain rs where rs: "c = rec_bytes rs" "\<forall>r\<in>set rs. rec_ok r" "seg_log s (write_segment s) = rs"
    using write_file [OF assms(1-3)] here by auto
  have table: "table_ok s" using assms(1,2) by (simp add: spool_inv_def wide_inv_def)
  have "segment_name n \<noteq> segment_name (write_segment s)"
    if "n \<in> numbers s" "n \<noteq> write_segment s" for n
    using segment_name_inject [of n "write_segment s"] numbers_between(3) [OF table that(1)] that(2) table
    by (auto simp: table_ok_def)
  moreover have "write_segment s \<in> numbers s"
    using assms(1-3) by (simp add: spool_inv_def wide_inv_def descriptor_ok_def)
  ultimately have "seg_log (s\<lparr>io := d\<rparr>) = seg_log s"
    using torn entries_torn [OF rs(2) p] rs by (auto simp: seg_log_def stored_def fun_eq_iff)
  then show ?thesis by (simp add: pend_def records_from_def)
qed

text \<open>The write of one entry: all of it, or a torn prefix that is cut off again or left behind.\<close>

lemma entry_write:
  assumes w: "(if hit then (GATEWAY_ERROR_IO, s)
      else let (code, d) = write_exact ino (v2_encode_record r) (write_offset s) (io s)
           in (code, s\<lparr>io := d\<rparr>)) = (code, s')"
    and inv: "spool_inv s" "\<not> failed s" "segment_fd s = Some ino" and r: "wf_record r"
  shows "\<exists>d c. s' = s\<lparr>io := d\<rparr> \<and> disk_wf d \<and>
      view (io s) (segment_name (write_segment s)) = Some (ino, c) \<and>
      (code = GATEWAY_OK \<longrightarrow> view d = (view (io s))(segment_name (write_segment s) \<mapsto>
         (ino, c @ v2_encode_record r))) \<and>
      (code \<noteq> GATEWAY_OK \<longrightarrow> pend s' = pend s \<and>
         pend (s'\<lparr>io := snd (sys_ftruncate ino (write_offset s') (io s'))\<rparr>) = pend s)"
proof -
  have wf: "disk_wf (io s)" using inv by (simp add: spool_inv_def wide_inv_def)
  obtain rs where rs: "view (io s) (segment_name (write_segment s)) = Some (ino, rec_bytes rs)"
      "length (rec_bytes rs) = write_offset s"
    using write_file [OF inv] by metis
  let ?n = "segment_name (write_segment s)"
  let ?e = "v2_encode_record r"
  have len: "length ?e = GATEWAY_SPOOL_ENTRY_SIZE" using r by simp
  have torn: "pend (s\<lparr>io := d\<rparr>) = pend s \<and>
      pend (s\<lparr>io := snd (sys_ftruncate ino (write_offset s) d)\<rparr>) = pend s"
    if d: "disk_wf d" "view d = (view (io s))(?n \<mapsto> (ino, rec_bytes rs @ p))"
      "length p < GATEWAY_SPOOL_ENTRY_SIZE" for d p
  proof
    show "pend (s\<lparr>io := d\<rparr>) = pend s" by (rule torn_pend [OF inv d(1) rs(1) d(2,3)])
    obtain ok d2 where t: "sys_ftruncate ino (write_offset s) d = (ok, d2)" by (metis surj_pair)
    have n: "view d ?n = Some (ino, rec_bytes rs @ p)" using d(2) by simp
    note tv = sys_ftruncate_view [OF t d(1) n]
    have "resize (write_offset s) (rec_bytes rs @ p) = rec_bytes rs @ []"
      using rs(2) by (simp add: resize_def)
    then have "view d2 = (view (io s))(?n \<mapsto> (ino, rec_bytes rs @ (if ok then [] else p)))"
      using tv(2,3) d(2) by (cases ok) simp_all
    then have "pend (s\<lparr>io := d2\<rparr>) = pend s"
      by (rule torn_pend [OF inv tv(1) rs(1)]) (simp add: d(3))
    then show "pend (s\<lparr>io := snd (sys_ftruncate ino (write_offset s) d)\<rparr>) = pend s"
      by (simp add: t)
  qed
  show ?thesis
  proof (cases hit)
    case True
    have "view (io s) = (view (io s))(?n \<mapsto> (ino, rec_bytes rs @ []))" using rs(1) by (simp add: fun_upd_idem)
    from torn [OF wf this] show ?thesis
      using True w wf rs(1) by (intro exI [of _ "io s"] exI [of _ "rec_bytes rs"]) auto
  next
    case False
    obtain code' d where e: "write_exact ino ?e (write_offset s) (io s) = (code', d)" by (metis surj_pair)
    have res: "code' = code" "s' = s\<lparr>io := d\<rparr>" using w False e by simp_all
    note we = write_exact_at_end [OF e wf rs]
    obtain k where k: "view d = (view (io s))(?n \<mapsto> (ino, rec_bytes rs @ take k ?e))"
        "code' = GATEWAY_OK \<longrightarrow> k = length ?e" "code' \<noteq> GATEWAY_OK \<longrightarrow> k < length ?e"
      using we(2) by blast
    show ?thesis
    proof (cases "code = GATEWAY_OK")
      case True
      then show ?thesis
        using res k we(1) rs(1) by (intro exI [of _ d] exI [of _ "rec_bytes rs"]) auto
    next
      case False
      have "length (take k ?e) < GATEWAY_SPOOL_ENTRY_SIZE" using k(3) False res(1) len by simp
      from torn [OF we(1) k(1) this] show ?thesis
        using False res we(1) rs(1) by (intro exI [of _ d] exI [of _ "rec_bytes rs"]) auto
    qed
  qed
qed

text \<open>Every outcome of an append. A record that the caller is told has been refused may still be
  in the queue, when only the synchronisation after it failed; the spool is then closed.\<close>

lemma append_result:
  assumes "gateway_spool_v2_append r s = (code, s')" and inv: "spool_inv s" and r: "wf_record r"
  shows "spool_inv s' \<and>
    (code = GATEWAY_OK \<longrightarrow> \<not> failed s' \<and> pend s' = pend s @ [r] \<and>
       prepared_count s' = prepared_count s \<and> last_allocated_seq s' = gateway_seq r) \<and>
    (code \<noteq> GATEWAY_OK \<longrightarrow> pend s' = pend s \<or> failed s' \<and> pend s' = pend s @ [r]) \<and>
    (code \<noteq> GATEWAY_OK \<and> \<not> failed s' \<longrightarrow> s' = s)"
proof (cases "gateway_seq r = 0 \<or> failed s \<or> gateway_seq r \<le> last_allocated_seq s \<or>
    physical_bytes s > max_bytes (options s) - GATEWAY_SPOOL_ENTRY_SIZE")
  case True
  then have "code \<noteq> GATEWAY_OK \<and> s' = s"
    using assms(1) by (auto simp: gateway_spool_v2_append_def split: if_split_asm)
  then show ?thesis using inv by simp
next
  case go: False
  then have ok: "\<not> failed s" and fresh: "last_allocated_seq s < gateway_seq r"
    and rok: "rec_ok r" using r by (simp_all add: rec_ok_def not_le)
  obtain c1 s1 where rs: "reserve_sequences r s = (c1, s1)" by (metis surj_pair)
  note res = reserve_result [OF rs inv ok fresh]
  show ?thesis
  proof (cases "c1 = GATEWAY_OK")
    case False
    then have "code = c1 \<and> s' = s1" using assms(1) go rs by (simp add: gateway_spool_v2_append_def)
    then show ?thesis using res False by simp
  next
    case ok1: True
    then have s1: "spool_inv s1" "\<not> failed s1" "pend s1 = pend s" "prepared_count s1 = prepared_count s"
        "gateway_seq r \<le> sequence_fence s1" "same_cursor_fields s1 s" using res by simp_all
    obtain c2 s2 where es: "ensure_write_segment s1 = (c2, s2)" by (metis surj_pair)
    note ens = ensure_result [OF es s1(1,2)]
    show ?thesis
    proof (cases "c2 = GATEWAY_OK")
      case False
      then have "code = c2 \<and> s' = s2\<lparr>failed := True\<rparr>"
        using assms(1) go rs ok1 es by (simp add: gateway_spool_v2_append_def)
      then show ?thesis using ens s1(3) False by simp
    next
      case ok2: True
      obtain ino where fd: "segment_fd s2 = Some ino" using ens ok2 by auto
      have s2: "spool_inv s2" "\<not> failed s2" "pend s2 = pend s" "prepared_count s2 = prepared_count s"
          "last_allocated_seq s2 < gateway_seq r" "gateway_seq r \<le> sequence_fence s2"
          "physical_bytes s2 \<le> max_bytes (options s2) - GATEWAY_SPOOL_ENTRY_SIZE"
        using ens ok2 s1 fresh go by (simp_all add: same_cursor_fields_def)
      obtain hit s3 where ij: "inject_fault GATEWAY_SPOOL_FAULT_APPEND_WRITE s2 = (hit, s3)"
        by (metis surj_pair)
      have q3: "quiet s2 s3" by (rule quiet_inject [OF ij])
      have core3: "same_core s3 s2" using q3 by (simp add: quiet_def)
      have s3: "spool_inv s3" "\<not> failed s3" "pend s3 = pend s" "prepared_count s3 = prepared_count s"
          "last_allocated_seq s3 < gateway_seq r" "gateway_seq r \<le> sequence_fence s3"
          "physical_bytes s3 \<le> max_bytes (options s3) - GATEWAY_SPOOL_ENTRY_SIZE" "segment_fd s3 = Some ino"
        using quiet_spool_inv [OF q3 s2(1)] quiet_pend [OF q3] quiet_prepared_count [OF q3] s2 core3 fd
        by (simp_all add: same_core_def)
      have wf3: "disk_wf (io s3)" and desc3: "descriptor_ok s3" and table3: "table_ok s3"
        using s3(1,2) by (simp_all add: spool_inv_def wide_inv_def)
      obtain c4 s4 where wr0: "(if hit then (GATEWAY_ERROR_IO, s3)
          else let (code, d) =
                 write_exact (the (segment_fd s2)) (v2_encode_record r) (write_offset s3) (io s3)
               in (code, s3\<lparr>io := d\<rparr>)) = (c4, s4)" by (metis surj_pair)
      note wr = wr0 [unfolded fd option.sel]
      obtain d c where d: "s4 = s3\<lparr>io := d\<rparr>" "disk_wf d"
          "view (io s3) (segment_name (write_segment s3)) = Some (ino, c)"
          "c4 = GATEWAY_OK \<longrightarrow> view d = (view (io s3))(segment_name (write_segment s3) \<mapsto>
             (ino, c @ v2_encode_record r))"
          "c4 \<noteq> GATEWAY_OK \<longrightarrow>
             pend (s4\<lparr>io := snd (sys_ftruncate ino (write_offset s4) (io s4))\<rparr>) = pend s3"
        using entry_write [OF wr s3(1,2,8) r] by blast
      show ?thesis
      proof (cases "c4 = GATEWAY_OK")
        case False
        then have "code = c4 \<and>
            s' = s4\<lparr>io := snd (sys_ftruncate ino (write_offset s4) (io s4)), failed := True\<rparr>"
          using assms(1) go rs ok1 es ok2 ij fd wr wr0 by (simp add: gateway_spool_v2_append_def)
        then show ?thesis using d(5) s3(3) False by simp
      next
        case ok4: True
        note ws = written_state [OF s3(1,2) rok s3(5,6,7,8) d(3,2) d(4) [rule_format, OF ok4]]
        let ?t = "note_appended r s4"
        have t: "wide_inv ?t" "\<not> failed ?t" "pend ?t = pend s @ [r]"
            "prepared_count ?t = prepared_count s" "unsynced_records ?t = Suc (unsynced_records s3)"
            "last_allocated_seq ?t = gateway_seq r"
          using ws(1-6) s3(3,4) d(1) by simp_all
        obtain gw where found: "find_segment (write_segment s4) s4 = Some gw"
          using ws(7) d(1) by (auto simp: find_segment_def)
        obtain c5 s5 where dl: "(if \<not> sync_deadline_set ?t then set_sync_deadline ?t
            else (GATEWAY_OK, ?t)) = (c5, s5)" by (metis surj_pair)
        have q5: "quiet ?t s5"
          using dl quiet_deadline by (auto split: if_split_asm)
        have s5: "wide_inv s5" "\<not> failed s5" "pend s5 = pend s @ [r]"
            "prepared_count s5 = prepared_count s" "unsynced_records s5 \<noteq> 0"
            "last_allocated_seq s5 = gateway_seq r"
          using quiet_inv [OF q5 t(1)] quiet_pend [OF q5] quiet_prepared_count [OF q5] t q5
          by (simp_all add: quiet_def same_core_def)
        show ?thesis
        proof (cases "c5 = GATEWAY_OK")
          case False
          then have "code = c5 \<and> s' = s5\<lparr>failed := True\<rparr>"
            using assms(1) go rs ok1 es ok2 ij wr0 ok4 found dl
            by (simp add: gateway_spool_v2_append_def Let_def)
          then show ?thesis using s5(3) False by simp
        next
          case ok5: True
          have last: "(code, s') = (if unsynced_records s5 \<ge> sync_records (options s5) \<or>
              write_offset s5 = segment_bytes s5 then gateway_spool_v2_flush s5 else (GATEWAY_OK, s5))"
            using assms(1) go rs ok1 es ok2 ij wr0 ok4 found dl ok5
            by (simp add: gateway_spool_v2_append_def Let_def)
          show ?thesis
          proof (cases "unsynced_records s5 \<ge> sync_records (options s5) \<or> write_offset s5 = segment_bytes s5")
            case True
            then have fl: "gateway_spool_v2_flush s5 = (code, s')" using last by simp
            have "code = GATEWAY_OK \<Longrightarrow> last_allocated_seq s' = gateway_seq r"
              using flush_fields [OF _ s5(1)] fl s5(6) by (simp add: same_cursor_fields_def)
            then show ?thesis using flush_result [OF fl s5(1)] s5 by auto
          next
            case False
            moreover have "write_offset s5 \<le> segment_bytes s5"
              using s5(1,2) by (simp add: wide_inv_def table_ok_def)
            ultimately have "spool_inv s5" using s5(1) by (simp add: spool_inv_def)
            then show ?thesis using last False s5 by simp
          qed
        qed
      qed
    qed
  qed
qed

end
