(* ===== verification/Spool_V2_Batches.thy ===== *)
theory Spool_V2_Batches
  imports Spool_V2_Ops
begin

text \<open>
  Batches of the segmented spool: collecting a prefix of the queue, acknowledging it, and removing
  the segments that the acknowledge cursor has passed.
\<close>

subsection \<open>Moving a cursor over the log\<close>

lemma quiet_cursor_ok:
  assumes "quiet s s'"
  shows "cursor_ok s' = cursor_ok s"
  using assms quiet_seg_log [OF assms]
  by (intro ext) (simp add: cursor_ok_def quiet_def same_core_def)

lemma records_next_segment:
  assumes "n < write_segment s" and "length (seg_log s n) * GATEWAY_SPOOL_ENTRY_SIZE \<le> offset"
  shows "records_from s n offset = records_from s (Suc n) 0"
proof -
  have "length (seg_log s n) \<le> offset div GATEWAY_SPOOL_ENTRY_SIZE"
    using assms(2) by (simp add: less_eq_div_iff_mult_less_eq)
  moreover have "[Suc n..<Suc (write_segment s)] = Suc n # [Suc (Suc n)..<Suc (write_segment s)]"
    using assms(1) by (simp add: upt_conv_Cons)
  ultimately show ?thesis by (simp add: records_from_def del: upt_Suc)
qed

lemma records_next_entry:
  assumes "i < length (seg_log s n)"
  shows "records_from s n (i * GATEWAY_SPOOL_ENTRY_SIZE) =
    seg_log s n ! i # records_from s n (Suc i * GATEWAY_SPOOL_ENTRY_SIZE)"
  using assms by (simp add: records_from_def Cons_nth_drop_Suc del: mult_Suc)

lemma records_at_end:
  assumes "length (seg_log s (write_segment s)) * GATEWAY_SPOOL_ENTRY_SIZE \<le> offset"
  shows "records_from s (write_segment s) offset = []"
  using assms by (simp add: records_from_def less_eq_div_iff_mult_less_eq)

text \<open>A read inside the log returns the record that is there, or fails.\<close>

lemma read_record_result:
  assumes "read_record_at n (i * GATEWAY_SPOOL_ENTRY_SIZE) s = (r, s')" and "holds (io s) n rs"
    and "i < length rs"
  shows "quiet s s' \<and> (r = Inr (rs ! i) \<or> (\<exists>e. r = Inl e \<and> e \<noteq> GATEWAY_OK))"
proof -
  obtain fd d where o: "sys_open (segment_name n) (io s) = (fd, d)" by (metis surj_pair)
  note ov = sys_open_view [OF o]
  show ?thesis
  proof (cases fd)
    case None
    then show ?thesis
      using assms(1) o ov by (auto simp: read_record_at_def open_segment_fd_def quiet_def)
  next
    case (Some ino)
    have c: "view d (segment_name n) = Some (ino, rec_bytes rs)"
      using ov(1) ov(3) [OF Some] assms(2) by (auto simp: holds_def)
    obtain e d2 where e: "read_exact ino GATEWAY_SPOOL_ENTRY_SIZE (i * GATEWAY_SPOOL_ENTRY_SIZE) d = (e, d2)"
      by (metis surj_pair)
    note ev = read_exact_view [OF e c]
    obtain ok d3 where cl: "sys_close d2 = (ok, d3)" by (metis surj_pair)
    note cv = sys_close_view [OF cl]
    have s': "s' = s\<lparr>io := d3\<rparr>"
      and r: "r = (case e of Inl code \<Rightarrow> Inl code
        | Inr bs \<Rightarrow> if \<not> ok then Inl GATEWAY_ERROR_IO else v2_decode_record bs)"
      using assms(1) o Some e cl by (simp_all add: read_record_at_def open_segment_fd_def)
    have "v2_decode_record (take GATEWAY_SPOOL_ENTRY_SIZE
        (drop (i * GATEWAY_SPOOL_ENTRY_SIZE) (rec_bytes rs))) = Inr (rs ! i)"
      using assms(2,3) by (intro decode_window) (simp_all add: holds_def)
    then have "r = Inr (rs ! i) \<or> (\<exists>e. r = Inl e \<and> e \<noteq> GATEWAY_OK)"
      using r ev(3) by (cases ok) auto
    moreover have "quiet s s'" using s' ev cv ov by (simp add: quiet_def)
    ultimately show ?thesis by blast
  qed
qed

declare prepare_loop.simps [simp del]

text \<open>The collecting loop: it adds a prefix of the records behind the cursor, stops at the
  capacity or at the end of the queue, and leaves the cursor behind what it took.\<close>

lemma prepare_loop_result:
  assumes "prepare_loop capacity n offset batch s = (code, n', offset', batch', s')"
    and "spool_inv s" and "\<not> failed s" and "cursor_ok s n offset"
    and "length batch \<le> capacity"
    and "sorted_wrt (\<lambda>a b. gateway_seq a < gateway_seq b) (batch @ records_from s n offset)"
  shows "if code = GATEWAY_OK
     then quiet s s' \<and> cursor_ok s n' offset' \<and>
       (\<exists>k\<le>length (records_from s n offset). batch' = batch @ take k (records_from s n offset) \<and>
          records_from s n' offset' = drop k (records_from s n offset)) \<and>
       length batch' \<le> capacity \<and> (length batch' = capacity \<or> records_from s n' offset' = [])
     else failed s' \<and> pend s' = pend s"
  using assms
proof (induction capacity n offset batch s rule: prepare_loop.induct)
  case (1 capacity n offset batch s)
  note unfold = prepare_loop.simps [of capacity n offset batch s]
  have parts: "table_ok s" "\<forall>g\<in>set (segments s). segment_ok s g"
    using "1.prems"(2,3) by (simp_all add: spool_inv_def wide_inv_def)
  have cur: "ack_segment s \<le> n" "n \<le> write_segment s"
      "offset \<le> length (seg_log s n) * GATEWAY_SPOOL_ENTRY_SIZE"
    using "1.prems"(4) by (simp_all add: cursor_ok_def)
  obtain i where i: "offset = i * GATEWAY_SPOOL_ENTRY_SIZE"
    using "1.prems"(4) by (auto simp: cursor_ok_def mult.commute elim!: dvdE)
  have next_ok: "cursor_ok s (n + 1) 0" if "n < write_segment s"
    using that cur by (simp add: cursor_ok_def)
  show ?case
  proof (cases "length batch \<ge> capacity")
    case True
    then have "code = GATEWAY_OK" "n' = n" "offset' = offset" "batch' = batch" "s' = s"
      using "1.prems"(1) unfold by simp_all
    then show ?thesis using True "1.prems"(4,5) by (auto intro!: exI [of _ 0])
  next
    case more: False
    show ?thesis
    proof (cases "find_segment n s")
      case None
      then have "n \<notin> numbers s" by (simp add: find_segment_iff)
      then have n: "n = write_segment s" "seg_log s n = []"
        using numbers_between(1) [OF parts(1) cur(1)] cur(2) le_neq_implies_less
        by (blast, simp add: seg_log_def)
      then have "code = GATEWAY_OK" "n' = n" "offset' = offset" "batch' = batch" "s' = s"
        using "1.prems"(1) unfold more None by simp_all
      then show ?thesis
        using n records_at_end [of s offset] "1.prems"(4,5) by (auto intro!: exI [of _ 0])
    next
      case (Some g)
      have g: "g \<in> set (segments s)" "seg_number g = n" using find_segment_iff(2) [OF Some] by simp_all
      then have holds: "holds (io s) n (seg_log s n)"
        and size: "seg_size g = length (seg_log s n) * GATEWAY_SPOOL_ENTRY_SIZE"
        using parts(2) by (auto simp: segment_ok_def Let_def)
      show ?thesis
      proof (cases "offset \<ge> seg_size g")
        case past: True
        show ?thesis
        proof (cases "n < write_segment s")
          case True
          have eq: "records_from s n offset = records_from s (n + 1) 0"
            using records_next_segment [OF True] past size by simp
          have "prepare_loop capacity (n + 1) 0 batch s = (code, n', offset', batch', s')"
            using "1.prems"(1) unfold more Some past True by simp
          note ih = "1.IH"(2) [OF more Some past True this "1.prems"(2,3) next_ok [OF True] "1.prems"(5)]
          show ?thesis unfolding eq by (rule ih) (use "1.prems"(6) in \<open>simp only: eq\<close>)
        next
          case False
          then have n: "n = write_segment s" using cur(2) by simp
          have "code = GATEWAY_OK" "n' = n" "offset' = offset" "batch' = batch" "s' = s"
            using "1.prems"(1) unfold more Some past False by simp_all
          then show ?thesis
            using n records_at_end [of s offset] past size "1.prems"(4,5) by (auto intro!: exI [of _ 0])
        qed
      next
        case inside: False
        then have il: "i < length (seg_log s n)" using size i by simp
        obtain r s1 where rd: "read_record_at n offset s = (r, s1)" by (metis surj_pair)
        have rr: "quiet s s1" "r = Inr (seg_log s n ! i) \<or> (\<exists>e. r = Inl e \<and> e \<noteq> GATEWAY_OK)"
          using read_record_result [OF rd [unfolded i] holds il] by simp_all
        have split: "records_from s n offset =
            seg_log s n ! i # records_from s n (offset + GATEWAY_SPOOL_ENTRY_SIZE)"
          using records_next_entry [OF il] i by (simp add: add.commute)
        show ?thesis
        proof (cases "r = Inr (seg_log s n ! i)")
          case False
          then obtain e where e: "r = Inl e" "e \<noteq> GATEWAY_OK" using rr(2) by blast
          then have "code = e" "s' = s1\<lparr>corruptions := corruptions s1 + 1, failed := True\<rparr>"
            using "1.prems"(1) unfold more Some inside rd by simp_all
          then show ?thesis using e quiet_pend [OF rr(1)] by simp
        next
          case True
          let ?x = "seg_log s n ! i"
          have inorder: "\<not> (batch \<noteq> [] \<and> gateway_seq ?x \<le> gateway_seq (last batch))"
          proof
            assume late: "batch \<noteq> [] \<and> gateway_seq ?x \<le> gateway_seq (last batch)"
            then have "last batch \<in> set batch" by simp
            then have "gateway_seq (last batch) < gateway_seq ?x"
              using "1.prems"(6) by (simp add: split sorted_wrt_append)
            then show False using late by (auto dest: leD)
          qed
          have keep: "spool_inv s1" "\<not> failed s1" "cursor_ok s1 = cursor_ok s"
              "records_from s1 = records_from s" "write_segment s1 = write_segment s"
              "pend s1 = pend s"
            using quiet_spool_inv [OF rr(1) "1.prems"(2)] quiet_cursor_ok [OF rr(1)]
              quiet_records_from [OF rr(1)] quiet_pend [OF rr(1)] rr(1) "1.prems"(3)
            by (simp_all add: quiet_def same_core_def)
          let ?last = "offset + GATEWAY_SPOOL_ENTRY_SIZE = seg_size g \<and> seg_number g < write_segment s"
          have le: "length (batch @ [?x]) \<le> capacity" using more "1.prems"(5) by simp
          have rd2: "(Inr ?x, s1) = read_record_at n offset s" using rd True by simp
          have "Suc i * GATEWAY_SPOOL_ENTRY_SIZE \<le> length (seg_log s n) * GATEWAY_SPOOL_ENTRY_SIZE"
            using il by (intro mult_le_mono1) simp
          then have cur2: "cursor_ok s1 n (offset + GATEWAY_SPOOL_ENTRY_SIZE)"
            using cur i keep(3) by (simp add: cursor_ok_def add.commute)
          have goal: ?thesis
            if rest: "records_from s m o2 = records_from s n (offset + GATEWAY_SPOOL_ENTRY_SIZE)"
              and ih: "sorted_wrt (\<lambda>a b. gateway_seq a < gateway_seq b) ((batch @ [?x]) @ records_from s1 m o2) \<Longrightarrow>
                if code = GATEWAY_OK
                then quiet s1 s' \<and> cursor_ok s1 n' offset' \<and>
                  (\<exists>k\<le>length (records_from s1 m o2).
                     batch' = (batch @ [?x]) @ take k (records_from s1 m o2) \<and>
                     records_from s1 n' offset' = drop k (records_from s1 m o2)) \<and>
                  length batch' \<le> capacity \<and> (length batch' = capacity \<or> records_from s1 n' offset' = [])
                else failed s' \<and> pend s' = pend s1" for m o2
          proof -
            have "sorted_wrt (\<lambda>a b. gateway_seq a < gateway_seq b) ((batch @ [?x]) @ records_from s1 m o2)"
              using "1.prems"(6) by (simp add: keep rest split)
            note ih [OF this]
            then show ?thesis
              using quiet_trans [OF rr(1)]
              by (auto simp: keep rest split split: if_split_asm intro: exI [of _ "Suc k" for k])
          qed
          show ?thesis
          proof (cases ?last)
            case True
            then have "n < write_segment s" using g by simp
            then have rest: "records_from s (n + 1) 0 = records_from s n (offset + GATEWAY_SPOOL_ENTRY_SIZE)"
              using records_next_segment [of n s "offset + GATEWAY_SPOOL_ENTRY_SIZE"] size True by simp
            have rec: "prepare_loop capacity (n + 1) 0 (batch @ [?x]) s1 = (code, n', offset', batch', s')"
              using "1.prems"(1) unfold more Some inside rd \<open>r = Inr ?x\<close> inorder True by simp
            have cur1: "cursor_ok s1 (n + 1) 0" using next_ok [OF \<open>n < write_segment s\<close>] keep(3) by simp
            show ?thesis
              by (rule goal [OF rest "1.IH"(3) [OF more Some inside rd2 refl inorder True rec keep(1,2) cur1 le]])
          next
            case False
            have rec: "prepare_loop capacity n (offset + GATEWAY_SPOOL_ENTRY_SIZE) (batch @ [?x]) s1 =
                (code, n', offset', batch', s')"
              using "1.prems"(1)
              unfolding unfold if_not_P [OF more] Some option.case if_not_P [OF inside] rd prod.case
                \<open>r = Inr ?x\<close> sum.case if_not_P [OF inorder] if_not_P [OF False] .
            show ?thesis
              by (rule goal [OF refl "1.IH"(4) [OF more Some inside rd2 refl inorder False rec keep(1,2) cur2 le]])
          qed
        qed
      qed
    qed
  qed
qed

subsection \<open>Preparing and cancelling\<close>

text \<open>A batch is the front of the queue; it stays in the queue until it is acknowledged.\<close>

definition prepared_state ::
    "nat \<Rightarrow> nat \<Rightarrow> telemetry_record list \<Rightarrow> gateway_spool_v2 \<Rightarrow> gateway_spool_v2" where
  "prepared_state n offset batch s = s\<lparr>prepared_segment := n, prepared_offset := offset,
     prepared_last_seq := gateway_seq (last batch), batch_prepared := True,
     records_replayed := records_replayed s + of_nat (length batch)\<rparr>"

lemma prepared_state_update [simp]:
  "options_ok (prepared_state n off b s) = options_ok s"
  "table_ok (prepared_state n off b s) = table_ok s"
  "segment_ok (prepared_state n off b s) = segment_ok s"
  "bytes_ok (prepared_state n off b s) = bytes_ok s"
  "descriptor_ok (prepared_state n off b s) = descriptor_ok s"
  "sequences_ok (prepared_state n off b s) = sequences_ok s"
  "pend (prepared_state n off b s) = pend s"
  "cursor_ok (prepared_state n off b s) = cursor_ok s"
  "records_from (prepared_state n off b s) = records_from s"
  by (simp_all add: inv_parts prepared_state_def fun_eq_iff split: option.split)

lemma prepared_state_inv:
  assumes inv: "spool_inv s" and ok: "\<not> failed s" and synced: "unsynced_records s = 0"
    and cur: "cursor_ok s n offset" and k: "0 < k" "k \<le> length (pend s)"
    and rest: "records_from s n offset = drop k (pend s)"
  defines "t \<equiv> prepared_state n offset (take k (pend s)) s"
  shows "spool_inv t" and "prepared_count t = k"
proof -
  have "offset \<le> write_offset s" if "n = write_segment s"
    using cur that inv ok by (simp add: cursor_ok_def spool_inv_def wide_inv_def table_ok_def)
  moreover have "last (take k (pend s)) = pend s ! (k - 1)"
    using k last_conv_nth [of "take k (pend s)"] by (cases "pend s") auto
  ultimately have "prepared_ok t"
    using cur rest k synced unfolding prepared_ok_def t_def prepared_state_update
    by (auto simp: prepared_state_def intro!: exI [of _ k])
  then show "spool_inv t"
    using inv ok unfolding spool_inv_def wide_inv_def t_def prepared_state_update
    by (simp add: prepared_state_def)
  show "prepared_count t = k"
    unfolding prepared_count_def t_def prepared_state_update
    using rest k by (simp add: prepared_state_def)
qed

lemma prepare_result:
  assumes "gateway_spool_v2_prepare_batch capacity s = (code, out, s')" and inv: "spool_inv s"
  shows "spool_inv s' \<and> pend s' = pend s \<and>
    (code = GATEWAY_OK \<longrightarrow> \<not> failed s' \<and> \<not> batch_prepared s \<and>
       (\<exists>number. out = Some (take capacity (pend s), number)) \<and>
       prepared_count s' = min capacity (length (pend s)) \<and> batch_prepared s' = (pend s \<noteq> [])) \<and>
    (code \<noteq> GATEWAY_OK \<longrightarrow> out = None \<and> (failed s' \<or> s' = s))"
proof (cases "capacity = 0 \<or> batch_prepared s \<or> failed s")
  case True
  then have "code \<noteq> GATEWAY_OK \<and> out = None \<and> s' = s"
    using assms(1) by (auto simp: gateway_spool_v2_prepare_batch_def split: if_split_asm)
  then show ?thesis using inv by simp
next
  case go: False
  obtain c1 s1 where fl: "gateway_spool_v2_flush s = (c1, s1)" by (metis surj_pair)
  have wide: "wide_inv s" "write_offset s < segment_bytes s" using inv go by (simp_all add: spool_inv_def)
  note fr = flush_result [OF fl wide(1) disjI2 [OF disjI2 [OF wide(2)]]]
  show ?thesis
  proof (cases "c1 = GATEWAY_OK")
    case False
    then have "code = c1 \<and> out = None \<and> s' = s1"
      using assms(1) go fl by (simp add: gateway_spool_v2_prepare_batch_def)
    then show ?thesis using fr False by simp
  next
    case ok1: True
    then have s1: "spool_inv s1" "\<not> failed s1" "pend s1 = pend s" "unsynced_records s1 = 0"
      using fr by simp_all
    have np: "\<not> batch_prepared s1"
      using flush_fields [OF fl [unfolded ok1] wide(1)] go by (simp add: same_cursor_fields_def)
    obtain c2 n off batch s2 where lp:
      "prepare_loop capacity (ack_segment s1) (ack_offset s1) [] s1 = (c2, n, off, batch, s2)"
      by (metis prod_cases5)
    have cur: "cursor_ok s1 (ack_segment s1) (ack_offset s1)" "sequences_ok s1"
      using s1(1,2) by (simp_all add: spool_inv_def wide_inv_def)
    have sorted: "sorted_wrt (\<lambda>a b. gateway_seq a < gateway_seq b)
        ([] @ records_from s1 (ack_segment s1) (ack_offset s1))"
      using cur(2) by (simp add: sequences_ok_def pend_def)
    have "length ([] :: telemetry_record list) \<le> capacity" by simp
    note lr = prepare_loop_result [OF lp s1(1,2) cur(1) this sorted, folded pend_def]
    show ?thesis
    proof (cases "c2 = GATEWAY_OK")
      case False
      then have "code = c2 \<and> out = None \<and> s' = s2"
        using assms(1) go fl ok1 lp by (simp add: gateway_spool_v2_prepare_batch_def)
      then show ?thesis using lr s1(3) False by simp
    next
      case ok2: True
      then obtain k where k: "k \<le> length (pend s1)" "batch = take k (pend s1)"
          "records_from s1 n off = drop k (pend s1)" "k \<le> capacity" "k = capacity \<or> drop k (pend s1) = []"
        and q: "quiet s1 s2" and c2: "cursor_ok s1 n off"
        using lr by auto
      then have batch: "batch = take capacity (pend s)" "k = min capacity (length (pend s))"
        using s1(3) by auto
      have s2: "spool_inv s2" "\<not> failed s2" "pend s2 = pend s" "unsynced_records s2 = 0"
          "\<not> batch_prepared s2" "cursor_ok s2 n off" "records_from s2 n off = drop k (pend s2)"
        using quiet_spool_inv [OF q s1(1)] quiet_pend [OF q] quiet_cursor_ok [OF q]
          quiet_records_from [OF q] q s1 np c2 k(3)
        by (simp_all add: quiet_def same_core_def)
      have res: "code = GATEWAY_OK" "out = Some (batch, next_batch_seq s2)"
          "s' = (if batch = [] then s2 else prepared_state n off batch s2)"
        using assms(1) go fl ok1 lp ok2 by (auto simp: gateway_spool_v2_prepare_batch_def prepared_state_def)
      show ?thesis
      proof (cases "pend s = []")
        case True
        then show ?thesis using res batch s2 go by (simp add: prepared_count_def)
      next
        case False
        then have pos: "0 < k" "batch \<noteq> []" using batch go by auto
        have b: "batch = take k (pend s2)" "k \<le> length (pend s2)" using k(1,2) s2(3) s1(3) by simp_all
        note ps = prepared_state_inv [OF s2(1,2,4,6) pos(1) b(2) s2(7), folded b(1)]
        show ?thesis
          using ps res pos batch False s2(2,3) go
          by (simp add: prepared_state_def)
      qed
    qed
  qed
qed

lemma cancelled_update [simp]:
  "options_ok (gateway_spool_v2_cancel_prepared s) = options_ok s"
  "table_ok (gateway_spool_v2_cancel_prepared s) = table_ok s"
  "segment_ok (gateway_spool_v2_cancel_prepared s) = segment_ok s"
  "bytes_ok (gateway_spool_v2_cancel_prepared s) = bytes_ok s"
  "descriptor_ok (gateway_spool_v2_cancel_prepared s) = descriptor_ok s"
  "sequences_ok (gateway_spool_v2_cancel_prepared s) = sequences_ok s"
  "pend (gateway_spool_v2_cancel_prepared s) = pend s"
  "cursor_ok (gateway_spool_v2_cancel_prepared s) = cursor_ok s"
  "records_from (gateway_spool_v2_cancel_prepared s) = records_from s"
  "prepared_ok (gateway_spool_v2_cancel_prepared s)"
  "io (gateway_spool_v2_cancel_prepared s) = io s"
  "failed (gateway_spool_v2_cancel_prepared s) = failed s"
  "segments (gateway_spool_v2_cancel_prepared s) = segments s"
  "batch_prepared (gateway_spool_v2_cancel_prepared s) = False"
  "ack_segment (gateway_spool_v2_cancel_prepared s) = ack_segment s"
  "ack_offset (gateway_spool_v2_cancel_prepared s) = ack_offset s"
  "write_offset (gateway_spool_v2_cancel_prepared s) = write_offset s"
  "segment_bytes (gateway_spool_v2_cancel_prepared s) = segment_bytes s"
  by (simp_all add: inv_parts gateway_spool_v2_cancel_prepared_def fun_eq_iff split: option.split)

lemma cancel_result:
  assumes "spool_inv s"
  shows "spool_inv (gateway_spool_v2_cancel_prepared s)"
    and "prepared_count (gateway_spool_v2_cancel_prepared s) = 0"
  using assms by (auto simp: prepared_count_def spool_inv_def wide_inv_def)

end
