(* ===== verification/Spool_V2_Acks.thy ===== *)
theory Spool_V2_Acks
  imports Spool_V2_Batches
begin

text \<open>
  Acknowledging a batch of the segmented spool: the cursor moves behind it, the new state is made
  durable, and the segments in front of the cursor are removed.
\<close>

subsection \<open>What the queue depends on\<close>

lemma records_from_cong:
  assumes "\<And>m. n \<le> m \<Longrightarrow> m \<le> write_segment s \<Longrightarrow> seg_log t m = seg_log s m"
    and "write_segment t = write_segment s" and "n \<le> write_segment s"
  shows "records_from t n offset = records_from s n offset"
proof -
  have "map (seg_log t) [Suc n..<Suc (write_segment s)] = map (seg_log s) [Suc n..<Suc (write_segment s)]"
    using assms(1) by (intro map_cong) auto
  then show ?thesis
    using assms(1) [of n] assms(2,3) by (simp add: records_from_def del: upt_Suc map_eq_conv)
qed

lemma pend_cong:
  assumes "\<And>m. ack_segment s \<le> m \<Longrightarrow> m \<le> write_segment s \<Longrightarrow> seg_log t m = seg_log s m"
    and "write_segment t = write_segment s" and "ack_segment s \<le> write_segment s"
    and "ack_segment t = ack_segment s" and "ack_offset t = ack_offset s"
  shows "pend t = pend s"
  using records_from_cong [of "ack_segment s" s t] assms by (simp add: pend_def)

subsection \<open>Moving the cursor\<close>

definition moved_cursor :: "gateway_spool_v2 \<Rightarrow> gateway_spool_v2" where
  "moved_cursor s = s\<lparr>ack_segment := prepared_segment s, ack_offset := prepared_offset s,
     last_acked_seq := prepared_last_seq s, next_batch_seq := next_batch_seq s + 1\<rparr>"

lemma moved_fields [simp]:
  "io (moved_cursor s) = io s" "failed (moved_cursor s) = failed s"
  "segments (moved_cursor s) = segments s" "batch_prepared (moved_cursor s) = batch_prepared s"
  "write_segment (moved_cursor s) = write_segment s" "write_offset (moved_cursor s) = write_offset s"
  "segment_fd (moved_cursor s) = segment_fd s" "unsynced_records (moved_cursor s) = unsynced_records s"
  "segment_bytes (moved_cursor s) = segment_bytes s" "segment_records (moved_cursor s) = segment_records s"
  "ack_segment (moved_cursor s) = prepared_segment s" "ack_offset (moved_cursor s) = prepared_offset s"
  "last_acked_seq (moved_cursor s) = prepared_last_seq s"
  "next_batch_seq (moved_cursor s) = next_batch_seq s + 1"
  "last_allocated_seq (moved_cursor s) = last_allocated_seq s"
  "sequence_fence (moved_cursor s) = sequence_fence s"
  "prepared_segment (moved_cursor s) = prepared_segment s"
  "prepared_offset (moved_cursor s) = prepared_offset s"
  "prepared_last_seq (moved_cursor s) = prepared_last_seq s"
  "seg_log (moved_cursor s) = seg_log s" "records_from (moved_cursor s) = records_from s"
  "options_ok (moved_cursor s) = options_ok s" "descriptor_ok (moved_cursor s) = descriptor_ok s"
  "segment_ok (moved_cursor s) = segment_ok s" "bytes_ok (moved_cursor s) = bytes_ok s"
  by (simp_all add: moved_cursor_def inv_parts fun_eq_iff split: option.split)

lemma moved_inv:
  assumes inv: "spool_inv s" and ok: "\<not> failed s" and bp: "batch_prepared s"
    and room: "next_batch_seq s \<noteq> u64_max"
  shows "spool_inv (moved_cursor s)" and "pend (moved_cursor s) = drop (prepared_count s) (pend s)"
    and "prepared_count (moved_cursor s) = 0"
proof -
  let ?t = "moved_cursor s"
  have parts: "disk_wf (io s)" "options_ok s" "\<forall>g\<in>set (segments s). segment_ok s g" "table_ok s"
      "descriptor_ok s" "prepared_ok s" "sequences_ok s" "bytes_ok s" "write_offset s < segment_bytes s"
    using inv ok by (simp_all add: spool_inv_def wide_inv_def)
  have cur: "cursor_ok s (prepared_segment s) (prepared_offset s)"
    using parts(6) bp by (simp add: prepared_ok_def)
  obtain k where k: "k \<le> length (pend s)"
      "records_from s (prepared_segment s) (prepared_offset s) = drop k (pend s)"
      "0 < k \<longrightarrow> prepared_last_seq s = gateway_seq (pend s ! (k - 1))"
      "k = 0 \<longrightarrow> prepared_last_seq s = last_acked_seq s"
    using parts(6) bp by (auto simp: prepared_ok_def)
  have pend: "pend ?t = drop k (pend s)" using k(2) by (simp add: pend_def)
  have "prepared_count s = k" using k(1,2) bp by (simp add: prepared_count_def)
  then show "pend ?t = drop (prepared_count s) (pend s)" using pend by simp
  show "prepared_count ?t = 0" using pend k(2) by (simp add: prepared_count_def)
  obtain lo hi where lo: "map seg_number (segments s) = [lo..<hi]" "0 < lo" "lo \<le> ack_segment s"
      "hi = write_segment s \<or> hi = Suc (write_segment s)"
    using parts(4) by (auto simp: table_ok_def)
  have "\<exists>lo hi. map seg_number (segments ?t) = [lo..<hi] \<and> 0 < lo \<and> lo \<le> ack_segment ?t \<and>
      (hi = write_segment ?t \<or> hi = Suc (write_segment ?t))"
    using lo cur by (intro exI [of _ lo] exI [of _ hi]) (simp add: cursor_ok_def)
  then have "table_ok ?t" using parts(4) cur unfolding table_ok_def by (simp add: cursor_ok_def)
  moreover have "cursor_ok ?t (ack_segment ?t) (ack_offset ?t)"
    using cur by (simp add: cursor_ok_def)
  moreover from this have "prepared_ok ?t"
    using parts(6) bp pend k(2) by (auto simp: prepared_ok_def intro!: exI [of _ 0])
  moreover have "sequences_ok ?t"
  proof (cases "k = 0")
    case True
    then show ?thesis
      using parts(7) k(4) room by (auto simp: sequences_ok_def pend)
  next
    case False
    then have mem: "pend s ! (k - 1) \<in> set (pend s)" using k(1) by simp
    have later: "gateway_seq (pend s ! (k - 1)) < gateway_seq r" if r: "r \<in> set (drop k (pend s))" for r
    proof -
      obtain j where j: "j < length (drop k (pend s))" "r = drop k (pend s) ! j"
        using r by (metis in_set_conv_nth)
      then have "r = pend s ! (k + j)" "k + j < length (pend s)" "k - 1 < k + j" using False by auto
      then show ?thesis
        using parts(7) by (auto simp: sequences_ok_def sorted_wrt_iff_nth_less)
    qed
    show ?thesis
      using parts(7) k(3) room False later mem
      by (auto simp: sequences_ok_def pend sorted_wrt_drop dest: in_set_dropD)
  qed
  ultimately show "spool_inv ?t"
    using parts ok by (simp add: spool_inv_def wide_inv_def)
qed

text \<open>When the queue is drained, both cursors move to a fresh segment.\<close>

lemma drained_inv:
  assumes inv: "spool_inv s" and ok: "\<not> failed s" and np: "\<not> batch_prepared s"
    and synced: "unsynced_records s = 0" and room: "write_segment s < u64_max"
    and drained: "ack_segment s = write_segment s" "ack_offset s = write_offset s" "write_offset s \<noteq> 0"
  defines "t \<equiv> s\<lparr>segment_fd := None, open_segment := 0, write_segment := write_segment s + 1,
    write_offset := 0, ack_segment := write_segment s + 1, ack_offset := 0\<rparr>"
  shows "spool_inv t" and "pend t = pend s"
proof -
  have parts: "disk_wf (io s)" "options_ok s" "\<forall>g\<in>set (segments s). segment_ok s g" "table_ok s"
      "sequences_ok s" "bytes_ok s"
    using inv ok by (simp_all add: spool_inv_def wide_inv_def)
  have old: "pend s = []"
    using drained parts(4) records_at_end [of s "write_offset s"] by (simp add: pend_def table_ok_def)
  have here: "write_segment s \<in> numbers s"
    using parts(4) drained(3) by (auto simp: table_ok_def seg_log_def split: if_split_asm)
  obtain lo where lo: "map seg_number (segments s) = [lo..<Suc (write_segment s)]" "0 < lo"
      "lo \<le> ack_segment s"
    using table_with_write [OF parts(4) here] .
  have log: "seg_log t = seg_log s" by (simp add: t_def)
  have "pend t = []"
    using after_write_empty [OF parts(4)] records_at_end [of t 0]
    by (simp add: pend_def log) (simp add: t_def)
  then show "pend t = pend s" using old by simp
  have "\<exists>lo hi. map seg_number (segments t) = [lo..<hi] \<and> 0 < lo \<and> lo \<le> ack_segment t \<and>
      (hi = write_segment t \<or> hi = Suc (write_segment t))"
    using lo drained(1)
    by (intro exI [of "\<lambda>lo. \<exists>hi. _ lo hi" lo], intro exI [of _ "Suc (write_segment s)"])
      (simp add: t_def del: upt_Suc)
  then have "table_ok t"
    using after_write_empty [OF parts(4)] room unfolding table_ok_def log by (simp add: t_def)
  moreover have "\<forall>g\<in>set (segments t). segment_ok t g"
    using parts(3) by (simp add: segment_ok_def t_def)
  moreover have "cursor_ok t (ack_segment t) (ack_offset t)" by (simp add: cursor_ok_def t_def)
  moreover have "prepared_ok t" using np by (simp add: prepared_ok_def t_def)
  moreover have "sequences_ok t"
    using parts(5) \<open>pend t = []\<close> by (simp add: sequences_ok_def) (simp add: t_def)
  moreover have "bytes_ok t" "options_ok t" "descriptor_ok t" "disk_wf (io t)" "0 < segment_bytes t"
    using parts synced by (auto simp: bytes_ok_def options_ok_def options_valid_def descriptor_ok_def t_def)
  ultimately show "spool_inv t"
    by (simp add: spool_inv_def wide_inv_def) (simp add: t_def)
qed

lemma closed_number:
  assumes "spool_inv s" and "segment_fd s = None"
  shows "spool_inv (s\<lparr>open_segment := x\<rparr>)"
  using assms by (simp add: spool_inv_def wide_inv_def descriptor_ok_def)

lemma advance_result:
  assumes "advance_drained t = (code, s1)" and inv: "spool_inv t" and ok: "\<not> failed t"
    and bp: "batch_prepared t" "prepared_segment t = ack_segment t" "prepared_offset t = ack_offset t"
  shows "seg_log s1 = seg_log t \<and> disk_wf (io s1) \<and>
    (code = GATEWAY_OK \<longrightarrow> \<not> failed s1 \<and> spool_inv (gateway_spool_v2_cancel_prepared s1) \<and>
       pend s1 = pend t \<and> next_batch_seq s1 = next_batch_seq t) \<and>
    (code \<noteq> GATEWAY_OK \<longrightarrow> s1 = t \<and> code = GATEWAY_ERROR_RANGE \<and> write_segment t = u64_max \<or>
       failed s1 \<and> pend s1 = pend t)"
proof (cases "ack_segment t = write_segment t \<and> ack_offset t = write_offset t \<and> write_offset t \<noteq> 0
    \<and> write_segment t \<noteq> u64_max")
  case False
  then have "s1 = t \<and> (code = GATEWAY_OK \<or> code = GATEWAY_ERROR_RANGE \<and> write_segment t = u64_max)"
    using assms(1) by (auto simp: advance_drained_def split: if_split_asm)
  then show ?thesis
    using cancel_result(1) [OF inv] ok inv by (auto simp: spool_inv_def wide_inv_def)
next
  case drained: True
  have parts: "disk_wf (io t)" "prepared_ok t" "write_segment t \<le> u64_max" "descriptor_ok t"
    using inv ok by (simp_all add: spool_inv_def wide_inv_def table_ok_def)
  have synced: "unsynced_records t = 0"
    using parts(2) bp drained by (auto simp: prepared_ok_def)
  let ?c = "gateway_spool_v2_cancel_prepared t"
  let ?u = "?c\<lparr>segment_fd := None, open_segment := 0, write_segment := write_segment ?c + 1,
    write_offset := 0, ack_segment := write_segment ?c + 1, ack_offset := 0\<rparr>"
  have c: "write_segment ?c = write_segment t" "unsynced_records ?c = unsynced_records t"
    by (simp_all add: gateway_spool_v2_cancel_prepared_def)
  have u: "spool_inv ?u" "pend ?u = pend t"
    using drained_inv [OF cancel_result(1) [OF inv]] ok synced drained parts(3) c by simp_all
  show ?thesis
  proof (cases "segment_fd t")
    case None
    then have res: "code = GATEWAY_OK" "s1 = t\<lparr>write_segment := write_segment t + 1, write_offset := 0,
        ack_segment := write_segment t + 1, ack_offset := 0\<rparr>"
      using assms(1) drained by (simp_all add: advance_drained_def)
    have eq: "gateway_spool_v2_cancel_prepared s1 = ?u\<lparr>open_segment := open_segment t\<rparr>"
      using None by (simp add: res gateway_spool_v2_cancel_prepared_def)
    have "spool_inv (?u\<lparr>open_segment := open_segment t\<rparr>)"
      by (rule closed_number [OF u(1)]) simp
    then have "spool_inv (gateway_spool_v2_cancel_prepared s1)" by (simp only: eq)
    moreover have "pend (gateway_spool_v2_cancel_prepared s1) = pend t"
      unfolding eq pend_update(12) by (rule u(2))
    ultimately show ?thesis using res ok parts(1) by simp
  next
    case (Some ino)
    obtain closed d where cl: "sys_close (io t) = (closed, d)" by (metis surj_pair)
    note v = sys_close_view [OF cl]
    show ?thesis
    proof (cases closed)
      case False
      then have "code = GATEWAY_ERROR_IO" "s1 = t\<lparr>segment_fd := None, io := d, failed := True\<rparr>"
        using assms(1) drained Some cl by (simp_all add: advance_drained_def)
      then show ?thesis
        using io_update(1,3) [of d "t\<lparr>segment_fd := None\<rparr>"] v parts(1) by simp
    next
      case True
      then have res: "code = GATEWAY_OK" "s1 = t\<lparr>segment_fd := None, io := d, open_segment := 0,
          write_segment := write_segment t + 1, write_offset := 0,
          ack_segment := write_segment t + 1, ack_offset := 0\<rparr>"
        using assms(1) drained Some cl by (simp_all add: advance_drained_def)
      have q: "quiet ?u (gateway_spool_v2_cancel_prepared s1)"
        using v by (simp add: quiet_def same_core_def res gateway_spool_v2_cancel_prepared_def)
      have "seg_log s1 = seg_log t"
        using io_update(1) [of d "t\<lparr>segment_fd := None\<rparr>"] v(1) by (simp add: res)
      then show ?thesis
        using quiet_spool_inv [OF q u(1)] quiet_pend [OF q] u(2) ok v parts(1) res by simp
    qed
  qed
qed

subsection \<open>Removing acknowledged segments\<close>

text \<open>A prefix of the table is looked at; of it the segments in front of the cursor are removed
  and the others kept.\<close>

lemma reclaim_loop_result:
  assumes "reclaim_loop kept gs removed s = (code, kept', removed', s')" and "disk_wf (io s)"
  shows "\<exists>p q. gs = p @ q \<and> kept' = kept @ filter (\<lambda>g. \<not> seg_number g < ack_segment s) p \<and>
    (code = GATEWAY_OK \<longrightarrow> q = []) \<and> disk_wf (io s') \<and>
    same_core s' (s\<lparr>physical_bytes := physical_bytes s -
      sum_list (map seg_size (filter (\<lambda>g. seg_number g < ack_segment s) p))\<rparr>) \<and>
    (\<forall>n. (\<forall>g\<in>set p. seg_number g < ack_segment s \<longrightarrow> segment_name n \<noteq> segment_name (seg_number g)) \<longrightarrow>
       view (io s') (segment_name n) = view (io s) (segment_name n))"
  using assms
proof (induction gs arbitrary: kept removed s)
  case Nil
  then show ?case by (intro exI [of _ "[]"]) simp
next
  case (Cons g gs)
  show ?case
  proof (cases "seg_number g < ack_segment s")
    case False
    then have "reclaim_loop (kept @ [g]) gs removed s = (code, kept', removed', s')"
      using Cons.prems(1) by simp
    from Cons.IH [OF this Cons.prems(2)] obtain p q where "gs = p @ q"
      "kept' = (kept @ [g]) @ filter (\<lambda>g. \<not> seg_number g < ack_segment s) p"
      "code = GATEWAY_OK \<longrightarrow> q = []" "disk_wf (io s')"
      "same_core s' (s\<lparr>physical_bytes := physical_bytes s -
        sum_list (map seg_size (filter (\<lambda>g. seg_number g < ack_segment s) p))\<rparr>)"
      "\<forall>n. (\<forall>g\<in>set p. seg_number g < ack_segment s \<longrightarrow> segment_name n \<noteq> segment_name (seg_number g)) \<longrightarrow>
         view (io s') (segment_name n) = view (io s) (segment_name n)" by blast
    then show ?thesis using False by (intro exI [of _ "g # p"] exI [of _ q]) simp
  next
    case old: True
    obtain hit s1 where ij: "inject_fault GATEWAY_SPOOL_FAULT_SEGMENT_DELETE s = (hit, s1)"
      by (metis surj_pair)
    note i = inject_fault_frame [OF ij]
    obtain ok d where ul: "sys_unlink (segment_name (seg_number g)) (io s1) = (ok, d)" by (metis surj_pair)
    have wf1: "disk_wf (io s1)" using i Cons.prems(2) by simp
    note u = sys_unlink_view [OF ul wf1]
    show ?thesis
    proof (cases "hit \<or> \<not> ok")
      case True
      then have "code \<noteq> GATEWAY_OK \<and> kept' = kept \<and> s' = (if hit then s1 else s1\<lparr>io := d\<rparr>)"
        using Cons.prems(1) old ij ul by (cases hit) simp_all
      moreover from this have "view (io s') = view (io s)" "disk_wf (io s')"
        using i(2) u(1,2) Cons.prems(2) True by (cases hit, simp_all)
      moreover have "same_core s' (s\<lparr>physical_bytes := physical_bytes s - 0\<rparr>)"
        using i(1) calculation(1) by (simp add: same_core_def)
      ultimately show ?thesis
        by (intro exI [of "\<lambda>p. \<exists>q. _ p q" "[]"] exI [of _ "g # gs"]) simp
    next
      case False
      let ?s2 = "s1\<lparr>io := d, physical_bytes := physical_bytes s1 - seg_size g,
        segments_reclaimed := segments_reclaimed s1 + 1\<rparr>"
      have "reclaim_loop kept gs True ?s2 = (code, kept', removed', s')"
        using Cons.prems(1) old ij ul False by simp
      moreover have "disk_wf (io ?s2)" using u by simp
      ultimately obtain p q where pq: "gs = p @ q"
        "kept' = kept @ filter (\<lambda>g. \<not> seg_number g < ack_segment ?s2) p"
        "code = GATEWAY_OK \<longrightarrow> q = []" "disk_wf (io s')"
        "same_core s' (?s2\<lparr>physical_bytes := physical_bytes ?s2 -
          sum_list (map seg_size (filter (\<lambda>g. seg_number g < ack_segment ?s2) p))\<rparr>)"
        "\<forall>n. (\<forall>g\<in>set p. seg_number g < ack_segment ?s2 \<longrightarrow> segment_name n \<noteq> segment_name (seg_number g)) \<longrightarrow>
           view (io s') (segment_name n) = view (io ?s2) (segment_name n)"
        using Cons.IH by blast
      have a: "ack_segment ?s2 = ack_segment s" "physical_bytes s1 = physical_bytes s"
        using i(1) by (simp_all add: same_core_def)
      have v: "view d (segment_name n) = view (io s) (segment_name n)"
        if "segment_name n \<noteq> segment_name (seg_number g)" for n
        using u(3) False i(2) that by simp
      have "same_core s' (s\<lparr>physical_bytes := physical_bytes s -
          sum_list (map seg_size (filter (\<lambda>g. seg_number g < ack_segment s) (g # p)))\<rparr>)"
        using pq(5) i(1) old by (simp add: same_core_def)
      moreover have "view (io s') (segment_name n) = view (io s) (segment_name n)"
        if "\<forall>h\<in>set (g # p). seg_number h < ack_segment s \<longrightarrow> segment_name n \<noteq> segment_name (seg_number h)" for n
        using pq(6) [rule_format, of n] v [of n] that old a(1) by simp
      moreover have "g # gs = (g # p) @ q"
          "kept' = kept @ filter (\<lambda>g. \<not> seg_number g < ack_segment s) (g # p)"
        using pq(1,2) a(1) old by simp_all
      ultimately show ?thesis using pq(3,4) by blast
    qed
  qed
qed

text \<open>The table without the segments in front of the cursor.\<close>

lemma filter_upt_from: "lo \<le> k \<Longrightarrow> filter (\<lambda>n. \<not> n < k) [lo..<hi] = [k..<hi]"
  by (induction hi) auto

lemma sum_list_filter_split:
  "sum_list (map f (filter P xs)) + sum_list (map f (filter (\<lambda>x. \<not> P x) xs)) =
    (sum_list (map f xs) :: nat)"
  by (induction xs) auto

lemma reclaimed_log:
  assumes "table_ok s"
    and kept: "\<forall>g. ack_segment s \<le> seg_number g \<longrightarrow> (g \<in> set (segments t)) = (g \<in> set (segments s))"
    and files: "\<forall>n. (\<forall>g\<in>set (segments s). seg_number g < ack_segment s \<longrightarrow>
        segment_name n \<noteq> segment_name (seg_number g)) \<longrightarrow>
      view (io t) (segment_name n) = view (io s) (segment_name n)"
    and n: "ack_segment s \<le> n"
  shows "n \<in> numbers t \<longleftrightarrow> n \<in> numbers s"
    and "n \<in> numbers s \<Longrightarrow> view (io t) (segment_name n) = view (io s) (segment_name n)"
    and "seg_log t n = seg_log s n"
proof -
  show nums: "n \<in> numbers t \<longleftrightarrow> n \<in> numbers s"
    using kept n by (auto simp: numbers_def image_iff)
  show v: "view (io t) (segment_name n) = view (io s) (segment_name n)" if "n \<in> numbers s"
  proof (rule files [THEN spec, THEN mp], intro ballI impI notI)
    fix g assume g: "g \<in> set (segments s)" "seg_number g < ack_segment s"
      and eq: "segment_name n = segment_name (seg_number g)"
    have "seg_number g \<in> numbers s" using g(1) by (simp add: numbers_def)
    then show False
      using segment_name_inject [of n "seg_number g"] numbers_between(3) [OF assms(1)] that eq g(2) n
      by auto
  qed
  show "seg_log t n = seg_log s n"
    using nums stored_view [OF v] by (cases "n \<in> numbers s") (simp_all add: seg_log_def)
qed

lemma reclaimed_inv:
  assumes inv: "spool_inv s" and ok: "\<not> failed s" and np: "\<not> batch_prepared s"
    and core: "same_core t (s\<lparr>physical_bytes := physical_bytes s -
        sum_list (map seg_size (filter (\<lambda>g. seg_number g < ack_segment s) (segments s))),
      segments := filter (\<lambda>g. \<not> seg_number g < ack_segment s) (segments s)\<rparr>)"
    and wf: "disk_wf (io t)"
    and files: "\<forall>n. (\<forall>g\<in>set (segments s). seg_number g < ack_segment s \<longrightarrow>
        segment_name n \<noteq> segment_name (seg_number g)) \<longrightarrow>
      view (io t) (segment_name n) = view (io s) (segment_name n)"
  shows "spool_inv t"
proof -
  have parts: "options_ok s" "\<forall>g\<in>set (segments s). segment_ok s g" "table_ok s"
      "descriptor_ok s" "cursor_ok s (ack_segment s) (ack_offset s)" "sequences_ok s" "bytes_ok s"
      "write_offset s < segment_bytes s"
    using inv ok by (simp_all add: spool_inv_def wide_inv_def)
  have segs: "segments t = filter (\<lambda>g. \<not> seg_number g < ack_segment s) (segments s)"
    and same: "ack_segment t = ack_segment s" "ack_offset t = ack_offset s"
      "write_segment t = write_segment s" "write_offset t = write_offset s"
      "segment_records t = segment_records s" "segment_bytes t = segment_bytes s" "options t = options s"
      "segment_fd t = segment_fd s" "open_segment t = open_segment s"
      "unsynced_records t = unsynced_records s" "failed t = failed s" "batch_prepared t = batch_prepared s"
      "last_acked_seq t = last_acked_seq s" "last_allocated_seq t = last_allocated_seq s"
      "sequence_fence t = sequence_fence s" "next_batch_seq t = next_batch_seq s"
    using core by (simp_all add: same_core_def)
  have ack: "ack_segment s \<le> write_segment s" using parts(3) by (simp add: table_ok_def)
  have kept: "\<forall>g. ack_segment s \<le> seg_number g \<longrightarrow> (g \<in> set (segments t)) = (g \<in> set (segments s))"
    using segs by auto
  note log = reclaimed_log [where t = t, OF parts(3) kept files]
  have pend: "pend t = pend s"
    by (rule pend_cong) (use log(3) same ack in auto)
  obtain lo hi where lo: "map seg_number (segments s) = [lo..<hi]" "0 < lo" "lo \<le> ack_segment s"
      "hi = write_segment s \<or> hi = Suc (write_segment s)"
    using parts(3) by (auto simp: table_ok_def)
  have "map seg_number (segments t) = [ack_segment s..<hi]"
    using filter_map [of "\<lambda>n. \<not> n < ack_segment s" seg_number "segments s"] filter_upt_from [OF lo(3)]
    by (simp add: segs lo(1) comp_def)
  then have "\<exists>lo hi. map seg_number (segments t) = [lo..<hi] \<and> 0 < lo \<and> lo \<le> ack_segment t \<and>
      (hi = write_segment t \<or> hi = Suc (write_segment t))"
    using lo(2,3,4) same
    by (intro exI [of "\<lambda>lo. \<exists>hi. _ lo hi" "ack_segment s"], intro exI [of _ hi]) (simp del: upt_Suc)
  then have "table_ok t"
    using parts(3) log(3) ack unfolding table_ok_def by (simp add: same)
  moreover have "\<forall>g\<in>set (segments t). segment_ok t g"
  proof
    fix g assume g: "g \<in> set (segments t)"
    then have g: "g \<in> set (segments s)" "ack_segment s \<le> seg_number g" by (auto simp: segs)
    then have "seg_number g \<in> numbers s" by (simp add: numbers_def)
    then have "holds (io t) (seg_number g) rs = holds (io s) (seg_number g) rs" for rs
      using log(2) [OF g(2)] by (intro holds_view)
    then show "segment_ok t g" using parts(2) g(1) log(3) [OF g(2)] by (simp add: segment_ok_def)
  qed
  moreover have "descriptor_ok t"
    using parts(4) log(1,2) [OF ack] by (auto simp: descriptor_ok_def same split: option.splits)
  moreover have "cursor_ok t (ack_segment t) (ack_offset t)"
    using parts(5) log(3) [of "ack_segment s"] by (simp add: cursor_ok_def same)
  moreover have "prepared_ok t" using np same by (simp add: prepared_ok_def)
  moreover have "sequences_ok t" using parts(6) same by (simp add: sequences_ok_def pend)
  moreover have "bytes_ok t"
  proof -
    have "physical_bytes t = sum_list (map seg_size (segments t))"
      using sum_list_filter_split [of seg_size "\<lambda>g. seg_number g < ack_segment s" "segments s"]
        parts(7) core by (simp add: bytes_ok_def same_core_def)
    moreover have "physical_bytes t \<le> physical_bytes s" using core by (simp add: same_core_def)
    ultimately show ?thesis using parts(7) same by (simp add: bytes_ok_def)
  qed
  moreover have "options_ok t" using parts(1) same by (simp add: options_ok_def)
  ultimately show ?thesis using wf parts(8) same by (simp add: spool_inv_def wide_inv_def)
qed

lemma remove_result:
  assumes "remove_reclaimed_segments s = (code, s')" and inv: "spool_inv s" and ok: "\<not> failed s"
    and np: "\<not> batch_prepared s"
  shows "pend s' = pend s \<and>
    (code = GATEWAY_OK \<longrightarrow> spool_inv s' \<and> \<not> failed s' \<and> \<not> batch_prepared s' \<and>
       next_batch_seq s' = next_batch_seq s \<and> (\<forall>n\<in>numbers s'. ack_segment s' \<le> n))"
proof -
  have wf: "disk_wf (io s)" and table: "table_ok s" and ack: "ack_segment s \<le> write_segment s"
    using inv ok by (simp_all add: spool_inv_def wide_inv_def table_ok_def)
  obtain c1 kept removed s1 where lp: "reclaim_loop [] (segments s) False s = (c1, kept, removed, s1)"
    by (metis prod_cases4)
  let ?old = "\<lambda>g. seg_number g < ack_segment s"
  obtain p q where pq: "segments s = p @ q" "kept = filter (\<lambda>g. \<not> ?old g) p"
      "c1 = GATEWAY_OK \<longrightarrow> q = []" "disk_wf (io s1)"
      "same_core s1 (s\<lparr>physical_bytes := physical_bytes s - sum_list (map seg_size (filter ?old p))\<rparr>)"
      "\<forall>n. (\<forall>g\<in>set p. ?old g \<longrightarrow> segment_name n \<noteq> segment_name (seg_number g)) \<longrightarrow>
         view (io s1) (segment_name n) = view (io s) (segment_name n)"
    using reclaim_loop_result [OF lp wf] by auto
  have files: "\<forall>n. (\<forall>g\<in>set (segments s). ?old g \<longrightarrow> segment_name n \<noteq> segment_name (seg_number g)) \<longrightarrow>
      view (io s1) (segment_name n) = view (io s) (segment_name n)"
    using pq(6) by (simp add: pq(1))
  let ?t = "s1\<lparr>segments := kept @ drop (length kept) (segments s1)\<rparr>"
  have segs1: "segments s1 = p @ q" using pq(1,5) by (simp add: same_core_def)
  have "length kept \<le> length p" using pq(2) by simp
  then have "set q \<subseteq> set (drop (length kept) (segments s1))" by (auto simp: segs1)
  moreover have "set (drop (length kept) (segments s1)) \<subseteq> set p \<union> set q"
    using set_drop_subset [of "length kept" "p @ q"] by (simp add: segs1)
  ultimately have "set p \<inter> {g. \<not> ?old g} \<subseteq> set (segments ?t)" "set q \<subseteq> set (segments ?t)"
      "set (segments ?t) \<subseteq> set p \<union> set q"
    using pq(2) by auto
  then have kept1: "\<forall>g. ack_segment s \<le> seg_number g \<longrightarrow> (g \<in> set (segments ?t)) = (g \<in> set (segments s))"
    using pq(1) by auto
  show ?thesis
  proof (cases "c1 = GATEWAY_OK")
    case False
    have "seg_log ?t m = seg_log s m" if "ack_segment s \<le> m" for m
      using reclaimed_log(3) [where t = ?t, OF table kept1 _ that] files by simp
    then have "pend ?t = pend s"
      by (intro pend_cong) (use pq(5) ack in \<open>simp_all add: same_core_def\<close>)
    moreover have "code = c1 \<and> s' = ?t"
      using assms(1) lp False by (simp add: remove_reclaimed_segments_def)
    ultimately show ?thesis using False by simp
  next
    case True
    let ?u = "s1\<lparr>segments := kept\<rparr>"
    have core: "same_core ?u (s\<lparr>physical_bytes := physical_bytes s -
          sum_list (map seg_size (filter ?old (segments s))),
        segments := filter (\<lambda>g. \<not> ?old g) (segments s)\<rparr>)"
      using pq(1,2,3,5) True by (simp add: same_core_def)
    have inv_u: "spool_inv ?u"
      by (rule reclaimed_inv [OF inv ok np core]) (use pq(4) files in simp_all)
    have kept2: "\<forall>g. ack_segment s \<le> seg_number g \<longrightarrow> (g \<in> set (segments ?u)) = (g \<in> set (segments s))"
      using pq(1,2,3) True by auto
    have "seg_log ?u m = seg_log s m" if "ack_segment s \<le> m" for m
      using reclaimed_log(3) [where t = ?u, OF table kept2 _ that] files by simp
    then have pend_u: "pend ?u = pend s"
      by (intro pend_cong) (use pq(5) ack in \<open>simp_all add: same_core_def\<close>)
    have res: "(code, s') = (if removed then sync_directory ?u else (GATEWAY_OK, ?u))"
      using assms(1) lp True by (simp add: remove_reclaimed_segments_def Let_def)
    have q: "quiet ?u s'"
      using res quiet_sync_directory [of ?u code s'] by (cases removed) simp_all
    have "numbers s' = seg_number ` set kept" "ack_segment s' = ack_segment s"
      using q core by (simp_all add: quiet_def same_core_def numbers_def)
    then have "\<forall>n\<in>numbers s'. ack_segment s' \<le> n" using pq(2) by auto
    then show ?thesis
      using quiet_pend [OF q] pend_u quiet_spool_inv [OF q inv_u] q core ok np
      by (simp add: quiet_def same_core_def)
  qed
qed

subsection \<open>Acknowledging\<close>

lemma quiet_cancel:
  "quiet a b \<Longrightarrow> quiet (gateway_spool_v2_cancel_prepared a) (gateway_spool_v2_cancel_prepared b)"
  by (simp add: quiet_def same_core_def gateway_spool_v2_cancel_prepared_def)

text \<open>Every outcome of an acknowledgement: the batch leaves the queue, or the queue is unchanged;
  after an error that leaves the spool open, the number of segments is exhausted.\<close>

lemma ack_result:
  assumes "gateway_spool_v2_ack_prepared s = (code, s')" and inv: "spool_inv s"
  shows "spool_inv s' \<and>
    (code = GATEWAY_OK \<longrightarrow> \<not> failed s' \<and> \<not> batch_prepared s' \<and> batch_prepared s \<and>
       pend s' = drop (prepared_count s) (pend s) \<and> next_batch_seq s' = next_batch_seq s + 1 \<and>
       (\<forall>n\<in>numbers s'. ack_segment s' \<le> n)) \<and>
    (code \<noteq> GATEWAY_OK \<longrightarrow> pend s' = pend s \<or> pend s' = drop (prepared_count s) (pend s)) \<and>
    (code \<noteq> GATEWAY_OK \<and> \<not> failed s' \<longrightarrow>
       s' = s \<or> write_segment s = u64_max \<and> prepared_count s' = 0)"
proof (cases "\<not> batch_prepared s \<or> failed s \<or> next_batch_seq s = u64_max")
  case True
  then have "code \<noteq> GATEWAY_OK \<and> s' = s"
    using assms(1) by (auto simp: gateway_spool_v2_ack_prepared_def split: if_split_asm)
  then show ?thesis using inv by simp
next
  case go: False
  let ?t = "moved_cursor s"
  obtain c1 s1 where ad: "advance_drained ?t = (c1, s1)" by (metis surj_pair)
  have t: "spool_inv ?t" "pend ?t = drop (prepared_count s) (pend s)" "\<not> failed ?t"
      "prepared_count ?t = 0"
    using moved_inv [OF inv] go by simp_all
  have adv: "seg_log s1 = seg_log s" "disk_wf (io s1)"
      "c1 = GATEWAY_OK \<Longrightarrow> \<not> failed s1 \<and> spool_inv (gateway_spool_v2_cancel_prepared s1) \<and>
        pend s1 = pend ?t \<and> next_batch_seq s1 = next_batch_seq ?t"
      "c1 \<noteq> GATEWAY_OK \<Longrightarrow> s1 = ?t \<and> write_segment s = u64_max \<or> failed s1 \<and> pend s1 = pend ?t"
    using advance_result [OF ad t(1,3)] go by auto
  have body: "(code, s') = (if c1 \<noteq> GATEWAY_OK then (c1, s1)
      else case persist_state s1 of (c2, s2) \<Rightarrow>
        if c2 \<noteq> GATEWAY_OK
        then (c2, s2\<lparr>ack_segment := ack_segment s, ack_offset := ack_offset s,
               last_acked_seq := last_acked_seq s, next_batch_seq := next_batch_seq s,
               write_segment := write_segment s, write_offset := write_offset s, failed := True\<rparr>)
        else case remove_reclaimed_segments (gateway_spool_v2_cancel_prepared s2) of (c3, s3) \<Rightarrow>
          if c3 \<noteq> GATEWAY_OK then (c3, s3\<lparr>failed := True\<rparr>) else (GATEWAY_OK, s3))"
    using assms(1) go ad unfolding gateway_spool_v2_ack_prepared_def moved_cursor_def Let_def
    by (simp add: eq_commute [of "(code, s')"])
  show ?thesis
  proof (cases "c1 = GATEWAY_OK")
    case False
    then have "code = c1" "s' = s1" using body by simp_all
    then show ?thesis using adv(4) [OF False] False t by auto
  next
    case ok1: True
    obtain c2 s2 where ps: "persist_state s1 = (c2, s2)" by (metis surj_pair)
    have q: "quiet s1 s2" by (rule quiet_persist [OF ps adv(2)])
    show ?thesis
    proof (cases "c2 = GATEWAY_OK")
      case False
      then have res: "code = c2" "s' = s2\<lparr>ack_segment := ack_segment s, ack_offset := ack_offset s,
               last_acked_seq := last_acked_seq s, next_batch_seq := next_batch_seq s,
               write_segment := write_segment s, write_offset := write_offset s, failed := True\<rparr>"
        using body ok1 ps by simp_all
      have "ack_segment s \<le> write_segment s"
        using inv go by (simp add: spool_inv_def wide_inv_def table_ok_def)
      then have "pend s' = pend s"
        using quiet_seg_log [OF q] adv(1) by (intro pend_cong) (simp_all add: res)
      then show ?thesis using res False by simp
    next
      case ok2: True
      let ?c = "gateway_spool_v2_cancel_prepared s2"
      obtain c3 s3 where rm: "remove_reclaimed_segments ?c = (c3, s3)" by (metis surj_pair)
      note q2 = quiet_cancel [OF q]
      have c: "spool_inv ?c" "pend ?c = pend ?t" "\<not> failed ?c" "next_batch_seq ?c = next_batch_seq s + 1"
        using adv(3) [OF ok1] quiet_spool_inv [OF q2] quiet_pend [OF q2] q
        by (simp_all add: quiet_def same_core_def) (simp add: gateway_spool_v2_cancel_prepared_def)
      note rr = remove_result [OF rm c(1,3)]
      have res: "code = c3" "s' = (if c3 = GATEWAY_OK then s3 else s3\<lparr>failed := True\<rparr>)"
        using body ok1 ps ok2 rm by (simp_all split: if_split_asm)
      show ?thesis
        using rr res c t(2) go by (cases "c3 = GATEWAY_OK") simp_all
    qed
  qed
qed

subsection \<open>Polling\<close>

lemma poll_result:
  assumes "gateway_spool_v2_poll s = (code, s')" and inv: "spool_inv s"
  shows "spool_inv s' \<and> pend s' = pend s \<and>
    (code = GATEWAY_OK \<longrightarrow> \<not> failed s' \<and> prepared_count s' = prepared_count s) \<and>
    (code \<noteq> GATEWAY_OK \<longrightarrow> failed s')"
proof (cases "failed s \<or> unsynced_records s = 0 \<or> \<not> sync_deadline_set s")
  case True
  then have "s' = s \<and> (if failed s then code \<noteq> GATEWAY_OK else code = GATEWAY_OK)"
    using assms(1) by (auto simp: gateway_spool_v2_poll_def split: if_split_asm)
  then show ?thesis using inv by (auto split: if_split_asm)
next
  case go: False
  obtain c1 reached s1 where dl: "sync_deadline_reached s = (c1, reached, s1)" by (metis surj_pair)
  obtain t d where cl: "sys_clock (io s) = (t, d)" by (metis surj_pair)
  have "s1 = s\<lparr>io := d\<rparr>"
    using dl cl by (simp add: sync_deadline_reached_def Let_def split: option.split_asm)
  then have q: "quiet s s1" using sys_clock_view [OF cl] by (simp add: quiet_def)
  have s1: "wide_inv s1" "\<not> failed s1" "write_offset s1 < segment_bytes s1" "pend s1 = pend s"
      "prepared_count s1 = prepared_count s" "spool_inv s1"
    using quiet_spool_inv [OF q inv] quiet_pend [OF q] quiet_prepared_count [OF q] q go
    by (simp_all add: spool_inv_def quiet_def same_core_def)
  have body: "(code, s') = (if c1 \<noteq> GATEWAY_OK then (c1, s1\<lparr>failed := True\<rparr>)
      else if reached then gateway_spool_v2_flush s1 else (GATEWAY_OK, s1))"
    using assms(1) go dl by (simp add: gateway_spool_v2_poll_def)
  show ?thesis
  proof (cases "c1 = GATEWAY_OK \<and> reached")
    case True
    then have "gateway_spool_v2_flush s1 = (code, s')" using body by simp
    from flush_result [OF this s1(1)] show ?thesis using s1 by auto
  next
    case False
    then show ?thesis using body s1 by (auto split: if_split_asm)
  qed
qed

end
