(* ===== verification/Spool_Contract.thy ===== *)
theory Spool_Contract
  imports Gw_Prelude "HOL-Library.Sublist"
begin

text \<open>
  What the users of a spool rely on, whichever format it has: the interface of
  \<open>gateway/include/gateway/spool.h\<close> as a persistent queue. A client appends records, takes the front of the
  queue as a batch, publishes it, and acknowledges it. Any call may fail. The locale states the
  laws of one call; what follows from them for every sequence of calls is proved once, inside it.
\<close>

subsection \<open>A client and its ledger\<close>

datatype 'r spool_op = Append 'r | Prepare nat | Ack | Cancel | Poll

text \<open>What the client has seen: the records whose append succeeded, the records handed out in
  batches, the records whose acknowledgement succeeded, and the batch in its hands.\<close>

record ('r, 's) client =
  accepted :: "'r list"
  handed :: "'r list"
  confirmed :: "'r list"
  in_hand :: "'r list"
  spool :: 's

fun client_step ::
    "('r \<Rightarrow> 's \<Rightarrow> gateway_error_code \<times> 's) \<Rightarrow>
     (nat \<Rightarrow> 's \<Rightarrow> gateway_error_code \<times> ('r list \<times> nat) option \<times> 's) \<Rightarrow>
     ('s \<Rightarrow> gateway_error_code \<times> 's) \<Rightarrow> ('s \<Rightarrow> 's) \<Rightarrow> ('s \<Rightarrow> gateway_error_code \<times> 's) \<Rightarrow>
     'r spool_op \<Rightarrow> ('r, 's) client \<Rightarrow> ('r, 's) client" where
  "client_step add prepare ack cancel poll (Append r) c =
     (let (code, s) = add r (spool c) in
      if code = GATEWAY_OK then c\<lparr>accepted := accepted c @ [r], spool := s\<rparr> else c\<lparr>spool := s\<rparr>)"
| "client_step add prepare ack cancel poll (Prepare capacity) c =
     (let (code, out, s) = prepare capacity (spool c) in
      case out of
        Some (batch, _) \<Rightarrow> c\<lparr>handed := handed c @ batch, in_hand := batch, spool := s\<rparr>
      | None \<Rightarrow> c\<lparr>spool := s\<rparr>)"
| "client_step add prepare ack cancel poll Ack c =
     (let (code, s) = ack (spool c) in
      if code = GATEWAY_OK
      then c\<lparr>confirmed := confirmed c @ in_hand c, in_hand := [], spool := s\<rparr>
      else c\<lparr>in_hand := [], spool := s\<rparr>)"
| "client_step add prepare ack cancel poll Cancel c =
     c\<lparr>in_hand := [], spool := cancel (spool c)\<rparr>"
| "client_step add prepare ack cancel poll Poll c =
     c\<lparr>spool := snd (poll (spool c))\<rparr>"

definition client_run ::
    "('r \<Rightarrow> 's \<Rightarrow> gateway_error_code \<times> 's) \<Rightarrow>
     (nat \<Rightarrow> 's \<Rightarrow> gateway_error_code \<times> ('r list \<times> nat) option \<times> 's) \<Rightarrow>
     ('s \<Rightarrow> gateway_error_code \<times> 's) \<Rightarrow> ('s \<Rightarrow> 's) \<Rightarrow> ('s \<Rightarrow> gateway_error_code \<times> 's) \<Rightarrow>
     'r spool_op list \<Rightarrow> 's \<Rightarrow> ('r, 's) client" where
  "client_run add prepare ack cancel poll ops s =
     fold (client_step add prepare ack cancel poll) ops
       \<lparr>accepted = [], handed = [], confirmed = [], in_hand = [], spool = s\<rparr>"

fun offered :: "'r spool_op list \<Rightarrow> 'r list" where
  "offered [] = []"
| "offered (Append r # ops) = r # offered ops"
| "offered (_ # ops) = offered ops"

lemma offered_append: "offered (xs @ ys) = offered xs @ offered ys"
  by (induction xs rule: offered.induct) auto

subsection \<open>The interface\<close>

locale record_spool =
  fixes inv :: "'s \<Rightarrow> bool"
    and valid :: "'r \<Rightarrow> bool"
    and closed :: "'s \<Rightarrow> bool"
    and queue :: "'s \<Rightarrow> 'r list"
    and batch :: "'s \<Rightarrow> nat"
    and add :: "'r \<Rightarrow> 's \<Rightarrow> gateway_error_code \<times> 's"
    and prepare :: "nat \<Rightarrow> 's \<Rightarrow> gateway_error_code \<times> ('r list \<times> nat) option \<times> 's"
    and ack :: "'s \<Rightarrow> gateway_error_code \<times> 's"
    and cancel :: "'s \<Rightarrow> 's"
    and poll :: "'s \<Rightarrow> gateway_error_code \<times> 's"
  assumes add_inv: "inv s \<Longrightarrow> valid r \<Longrightarrow> inv (snd (add r s))"
    and add_ok: "inv s \<Longrightarrow> valid r \<Longrightarrow> add r s = (GATEWAY_OK, s') \<Longrightarrow>
      \<not> closed s \<and> queue s' = queue s @ [r] \<and> batch s' = batch s"
    and add_error: "inv s \<Longrightarrow> valid r \<Longrightarrow> add r s = (code, s') \<Longrightarrow> code \<noteq> GATEWAY_OK \<Longrightarrow>
      queue s' = queue s \<and> batch s' = batch s \<and> closed s' = closed s \<or>
      closed s' \<and> (queue s' = queue s \<or> queue s' = queue s @ [r])"
    and prepare_inv: "inv s \<Longrightarrow> inv (snd (snd (prepare n s)))"
    and prepare_ok: "inv s \<Longrightarrow> prepare n s = (code, Some (rs, number), s') \<Longrightarrow>
      \<not> closed s \<and> rs = take n (queue s) \<and> queue s' = queue s \<and> batch s' = length rs"
    and prepare_error: "inv s \<Longrightarrow> prepare n s = (code, None, s') \<Longrightarrow>
      queue s' = queue s \<and> (closed s' \<or> batch s' = batch s \<and> closed s' = closed s)"
    and ack_inv: "inv s \<Longrightarrow> inv (snd (ack s))"
    and ack_ok: "inv s \<Longrightarrow> ack s = (GATEWAY_OK, s') \<Longrightarrow>
      \<not> closed s \<and> queue s' = drop (batch s) (queue s) \<and> batch s' = 0"
    and ack_error: "inv s \<Longrightarrow> ack s = (code, s') \<Longrightarrow> code \<noteq> GATEWAY_OK \<Longrightarrow>
      queue s' = queue s \<and> batch s' = batch s \<and> closed s' = closed s \<or>
      (closed s' \<or> batch s' = 0) \<and>
        (queue s' = queue s \<or> \<not> closed s \<and> queue s' = drop (batch s) (queue s))"
    and cancel_inv: "inv s \<Longrightarrow> inv (cancel s)"
    and cancel_queue: "inv s \<Longrightarrow> queue (cancel s) = queue s \<and> batch (cancel s) = 0"
    and poll_inv: "inv s \<Longrightarrow> inv (snd (poll s))"
    and poll_queue: "inv s \<Longrightarrow> poll s = (code, s') \<Longrightarrow>
      queue s' = queue s \<and> (closed s' \<or> \<not> closed s \<and> batch s' = batch s)"
    and batch_le: "inv s \<Longrightarrow> batch s \<le> length (queue s)"
begin

text \<open>The ledger of a run: \<open>gone\<close> has left the queue and \<open>taken\<close> has entered it. Nothing that was
  accepted is missing from \<open>taken\<close>, nothing is in it that was not offered, everything in \<open>gone\<close>
  was handed out before, and everything confirmed is gone.\<close>

definition balanced :: "'r list \<Rightarrow> 'r list \<Rightarrow> ('r, 's) client \<Rightarrow> bool" where
  "balanced before attempts c \<longleftrightarrow> inv (spool c) \<and>
     (\<exists>gone taken. gone @ queue (spool c) = before @ taken \<and>
        subseq (accepted c) taken \<and> subseq taken attempts \<and>
        set gone \<subseteq> set (handed c) \<and> subseq (confirmed c) gone) \<and>
     (closed (spool c) \<or>
        subseq (in_hand c) (take (batch (spool c)) (queue (spool c))) \<and>
        set (take (batch (spool c)) (queue (spool c))) \<subseteq> set (handed c))"

abbreviation "step \<equiv> client_step add prepare ack cancel poll"

lemma subseq_snoc: "subseq xs ys \<Longrightarrow> subseq xs (ys @ [y])" "subseq xs ys \<Longrightarrow> subseq (xs @ [y]) (ys @ [y])"
  by (simp_all add: list_emb_prefix list_emb_append_mono)

lemma balanced_add:
  assumes b: "balanced before attempts c" and v: "valid r"
  shows "balanced before (attempts @ [r]) (step (Append r) c)"
proof -
  obtain code s' where a: "add r (spool c) = (code, s')" by (metis surj_pair)
  obtain gone taken where g: "gone @ queue (spool c) = before @ taken" "subseq (accepted c) taken"
      "subseq taken attempts" "set gone \<subseteq> set (handed c)" "subseq (confirmed c) gone"
    using b by (auto simp: balanced_def)
  have i: "inv (spool c)" "inv s'" using b add_inv [OF _ v, of "spool c"] a by (simp_all add: balanced_def)
  note le = batch_le [OF i(1)]
  have old: "closed (spool c) \<or> subseq (in_hand c) (take (batch (spool c)) (queue (spool c))) \<and>
      set (take (batch (spool c)) (queue (spool c))) \<subseteq> set (handed c)"
    using b by (simp add: balanced_def)
  show ?thesis
  proof (cases "code = GATEWAY_OK")
    case True
    then have ok: "\<not> closed (spool c)" "queue s' = queue (spool c) @ [r]" "batch s' = batch (spool c)"
      using add_ok [OF i(1) v] a by simp_all
    have "gone @ queue s' = before @ (taken @ [r])" using g(1) ok(2) by simp
    then have "\<exists>gone taken. gone @ queue s' = before @ taken \<and> subseq (accepted c @ [r]) taken \<and>
        subseq taken (attempts @ [r]) \<and> set gone \<subseteq> set (handed c) \<and> subseq (confirmed c) gone"
      using subseq_snoc(2) [OF g(2)] subseq_snoc(2) [OF g(3)] g(4,5) by blast
    moreover have "step (Append r) c = c\<lparr>accepted := accepted c @ [r], spool := s'\<rparr>"
      using True a by simp
    ultimately show ?thesis using i ok old le unfolding balanced_def by simp
  next
    case False
    then consider (same) "queue s' = queue (spool c)" "batch s' = batch (spool c)" "closed s' = closed (spool c)"
      | (kept) "closed s'" "queue s' = queue (spool c)"
      | (added) "closed s'" "queue s' = queue (spool c) @ [r]"
      using add_error [OF i(1) v a] by blast
    then show ?thesis
    proof cases
      case added
      then have "gone @ queue s' = before @ (taken @ [r])" using g(1) by simp
      then have "\<exists>gone taken. gone @ queue s' = before @ taken \<and> subseq (accepted c) taken \<and>
          subseq taken (attempts @ [r]) \<and> set gone \<subseteq> set (handed c) \<and> subseq (confirmed c) gone"
        using subseq_snoc(1) [OF g(2)] subseq_snoc(2) [OF g(3)] g(4,5) by blast
      then show ?thesis using False a i(2) added(1) by (simp add: balanced_def)
    qed (use False a g i old subseq_snoc(1) [OF g(3)] in \<open>auto simp: balanced_def\<close>)
  qed
qed

lemma balanced_prepare:
  assumes b: "balanced before attempts c"
  shows "balanced before attempts (step (Prepare n) c)"
proof -
  obtain code out s' where a: "prepare n (spool c) = (code, out, s')" by (metis surj_pair)
  have i: "inv (spool c)" "inv s'" using b prepare_inv [of "spool c" n] a by (simp_all add: balanced_def)
  show ?thesis
  proof (cases out)
    case None
    then have "queue s' = queue (spool c) \<and> (closed s' \<or> batch s' = batch (spool c) \<and> closed s' = closed (spool c))"
      using prepare_error [OF i(1)] a by simp
    then show ?thesis using None a b i(2) by (auto simp: balanced_def)
  next
    case (Some p)
    obtain rs number where p: "p = (rs, number)" by (metis surj_pair)
    have ok: "rs = take n (queue (spool c))" "queue s' = queue (spool c)" "batch s' = length rs"
      using prepare_ok [OF i(1)] a Some p by blast+
    then have "take (batch s') (queue s') = rs" by (simp add: min_def)
    moreover obtain gone taken where "gone @ queue (spool c) = before @ taken" "subseq (accepted c) taken"
      "subseq taken attempts" "set gone \<subseteq> set (handed c)" "subseq (confirmed c) gone"
      using b by (auto simp: balanced_def)
    ultimately show ?thesis using a Some p ok i(2) by (auto simp: balanced_def)
  qed
qed

text \<open>A batch leaves the queue: the ledger before and after.\<close>

lemma balanced_drop:
  assumes "gone @ queue s = before @ taken" and "set gone \<subseteq> H" and "subseq cs gone"
    and "subseq h (take (batch s) (queue s))" and "set (take (batch s) (queue s)) \<subseteq> H"
    and "queue s' = drop (batch s) (queue s)"
  shows "\<exists>gone'. gone' @ queue s' = before @ taken \<and> set gone' \<subseteq> H \<and> subseq (cs @ h) gone' \<and> subseq cs gone'"
proof (intro exI conjI)
  show "(gone @ take (batch s) (queue s)) @ queue s' = before @ taken" using assms(1,6) by simp
  show "subseq (cs @ h) (gone @ take (batch s) (queue s))" using assms(3,4) by (rule list_emb_append_mono)
  show "subseq cs (gone @ take (batch s) (queue s))" using assms(3) by (rule list_emb_prefix)
  show "set (gone @ take (batch s) (queue s)) \<subseteq> H" using assms(2,5) by simp
qed

lemma balanced_ack:
  assumes b: "balanced before attempts c"
  shows "balanced before attempts (step Ack c)"
proof -
  obtain code s' where a: "ack (spool c) = (code, s')" by (metis surj_pair)
  have i: "inv (spool c)" "inv s'" using b ack_inv [of "spool c"] a by (simp_all add: balanced_def)
  obtain gone taken where g: "gone @ queue (spool c) = before @ taken" "subseq (accepted c) taken"
      "subseq taken attempts" "set gone \<subseteq> set (handed c)" "subseq (confirmed c) gone"
    using b by (auto simp: balanced_def)
  have hand: "subseq (in_hand c) (take (batch (spool c)) (queue (spool c)))"
      "set (take (batch (spool c)) (queue (spool c))) \<subseteq> set (handed c)" if "\<not> closed (spool c)"
    using b that by (simp_all add: balanced_def)
  show ?thesis
  proof (cases "code = GATEWAY_OK")
    case True
    then have ok: "\<not> closed (spool c)" "queue s' = drop (batch (spool c)) (queue (spool c))" "batch s' = 0"
      using ack_ok [OF i(1)] a by simp_all
    show ?thesis
      using balanced_drop [OF g(1,4,5) hand [OF ok(1)] ok(2)] True a g(2,3) i(2) ok(3)
      unfolding balanced_def by auto
  next
    case False
    then consider (same) "queue s' = queue (spool c)" "batch s' = batch (spool c)" "closed s' = closed (spool c)"
      | (kept) "closed s' \<or> batch s' = 0" "queue s' = queue (spool c)"
      | (dropped) "closed s' \<or> batch s' = 0" "\<not> closed (spool c)"
          "queue s' = drop (batch (spool c)) (queue (spool c))"
      using ack_error [OF i(1) a False] by metis
    then show ?thesis
    proof cases
      case dropped
      then show ?thesis
        using balanced_drop [OF g(1,4,5) hand [OF dropped(2)] dropped(3)] False a g(2,3) i(2)
        unfolding balanced_def by auto
    qed (use False a g i hand in \<open>auto simp: balanced_def\<close>)
  qed
qed

lemma balanced_cancel: "balanced before attempts c \<Longrightarrow> balanced before attempts (step Cancel c)"
  using cancel_inv [of "spool c"] cancel_queue [of "spool c"] by (auto simp: balanced_def)

lemma balanced_poll: "balanced before attempts c \<Longrightarrow> balanced before attempts (step Poll c)"
  using poll_inv [of "spool c"] poll_queue [of "spool c" _ "snd (poll (spool c))"]
  by (cases "poll (spool c)") (auto simp: balanced_def)

lemma balanced_step:
  assumes "balanced before attempts c" and "\<forall>r\<in>set (offered [op]). valid r"
  shows "balanced before (attempts @ offered [op]) (step op c)"
  using assms balanced_add balanced_prepare balanced_ack balanced_cancel balanced_poll
  by (cases op) (simp_all del: client_step.simps)

lemma balanced_run:
  assumes "inv s" and "batch s = 0" and "\<forall>r\<in>set (offered ops). valid r"
  shows "balanced (queue s) (offered ops) (client_run add prepare ack cancel poll ops s)"
  using assms(3)
proof (induction ops rule: rev_induct)
  case Nil
  show ?case using assms(1,2) by (auto simp: balanced_def client_run_def)
next
  case (snoc op ops)
  then show ?case
    using balanced_step [of "queue s" "offered ops" _ op]
    by (simp add: client_run_def offered_append del: client_step.simps)
qed

text \<open>At-least-once delivery, for every sequence of calls and every failure.\<close>

lemma at_least_once:
  assumes "inv s" and "batch s = 0" and "\<forall>r\<in>set (offered ops). valid r"
  defines "c \<equiv> client_run add prepare ack cancel poll ops s"
  shows "\<exists>gone taken. gone @ queue (spool c) = queue s @ taken \<and>
     subseq (accepted c) taken \<and> subseq taken (offered ops) \<and>
     set gone \<subseteq> set (handed c) \<and> subseq (confirmed c) gone"
  using balanced_run [OF assms(1-3)] unfolding c_def balanced_def by blast

end

subsection \<open>Crashes\<close>

text \<open>A process that is killed and started again opens the spool that it finds on the disk. What it
  held in memory is lost, the batch in hand included. \<open>sealed\<close> is the number of records at the
  front of the queue that the disk says are acknowledged although the process does not
  know, because it saw the call fail. \<open>turns\<close> bounds the calls and crashes before a counter or an
  offset of the format is used up.\<close>

datatype ('r, 'e) spool_event = Call "'r spool_op" | Crash 'e

text \<open>A client that survives crashes: its ledger goes on, its batch does not.\<close>

fun event_step ::
    "('r spool_op \<Rightarrow> ('r, 's) client \<Rightarrow> ('r, 's) client) \<Rightarrow> ('e \<Rightarrow> 's \<Rightarrow> 's) \<Rightarrow>
     ('r, 'e) spool_event \<Rightarrow> ('r, 's) client \<Rightarrow> ('r, 's) client" where
  "event_step step restart (Call op) c = step op c"
| "event_step step restart (Crash e) c = c\<lparr>in_hand := [], spool := restart e (spool c)\<rparr>"

definition event_run ::
    "('r spool_op \<Rightarrow> ('r, 's) client \<Rightarrow> ('r, 's) client) \<Rightarrow> ('e \<Rightarrow> 's \<Rightarrow> 's) \<Rightarrow>
     ('r, 'e) spool_event list \<Rightarrow> 's \<Rightarrow> ('r, 's) client" where
  "event_run step restart events s = fold (event_step step restart) events
     \<lparr>accepted = [], handed = [], confirmed = [], in_hand = [], spool = s\<rparr>"

fun all_offered :: "('r, 'e) spool_event list \<Rightarrow> 'r list" where
  "all_offered [] = []"
| "all_offered (Call op # events) = offered [op] @ all_offered events"
| "all_offered (Crash _ # events) = all_offered events"

lemma all_offered_append: "all_offered (xs @ ys) = all_offered xs @ all_offered ys"
  by (induction xs rule: all_offered.induct) auto

locale restartable_spool = record_spool inv valid closed queue batch add prepare ack cancel poll
  for inv :: "'s \<Rightarrow> bool" and valid :: "'r \<Rightarrow> bool" and closed :: "'s \<Rightarrow> bool"
    and queue :: "'s \<Rightarrow> 'r list" and batch :: "'s \<Rightarrow> nat"
    and add :: "'r \<Rightarrow> 's \<Rightarrow> gateway_error_code \<times> 's"
    and prepare :: "nat \<Rightarrow> 's \<Rightarrow> gateway_error_code \<times> ('r list \<times> nat) option \<times> 's"
    and ack :: "'s \<Rightarrow> gateway_error_code \<times> 's" and cancel :: "'s \<Rightarrow> 's"
    and poll :: "'s \<Rightarrow> gateway_error_code \<times> 's" +
  fixes sealed :: "'s \<Rightarrow> nat"
    and turns :: "'s \<Rightarrow> nat"
    and restart :: "'e \<Rightarrow> 's \<Rightarrow> 's"
  assumes sealed_le: "inv s \<Longrightarrow> 0 < turns s \<Longrightarrow> sealed s \<le> length (queue s)"
    and add_sealed: "inv s \<Longrightarrow> valid r \<Longrightarrow> 0 < turns s \<Longrightarrow> sealed (snd (add r s)) = sealed s"
    and prepare_sealed: "inv s \<Longrightarrow> 0 < turns s \<Longrightarrow> sealed (snd (snd (prepare n s))) = sealed s"
    and cancel_sealed: "inv s \<Longrightarrow> 0 < turns s \<Longrightarrow> sealed (cancel s) = sealed s"
    and poll_sealed: "inv s \<Longrightarrow> 0 < turns s \<Longrightarrow> sealed (snd (poll s)) = sealed s"
    and ack_sealed: "inv s \<Longrightarrow> 0 < turns s \<Longrightarrow> ack s = (code, s') \<Longrightarrow>
      sealed s' = 0 \<or> queue s' = queue s \<and> (sealed s' = sealed s \<or> \<not> closed s \<and> sealed s' = batch s)"
    and add_turns: "turns s \<le> Suc (turns (snd (add r s)))"
    and prepare_turns: "turns s \<le> Suc (turns (snd (snd (prepare n s))))"
    and ack_turns: "turns s \<le> Suc (turns (snd (ack s)))"
    and cancel_turns: "turns s \<le> Suc (turns (cancel s))"
    and poll_turns: "turns s \<le> Suc (turns (snd (poll s)))"
    and restart_inv: "inv s \<Longrightarrow> 0 < turns s \<Longrightarrow> inv (restart e s)"
    and restart_queue: "inv s \<Longrightarrow> 0 < turns s \<Longrightarrow>
      \<exists>extra. queue (restart e s) = drop (sealed s) (queue s) @ extra"
    and restart_fresh: "inv s \<Longrightarrow> 0 < turns s \<Longrightarrow>
      \<not> closed (restart e s) \<and> batch (restart e s) = 0 \<and> sealed (restart e s) = 0"
    and restart_turns: "inv s \<Longrightarrow> 0 < turns s \<Longrightarrow> turns s \<le> Suc (turns (restart e s))"
begin

definition durable_ok :: "'r list \<Rightarrow> ('r, 's) client \<Rightarrow> bool" where
  "durable_ok before c \<longleftrightarrow> (\<exists>attempts. balanced before attempts c) \<and>
     set (take (sealed (spool c)) (queue (spool c))) \<subseteq> set (handed c)"

lemma step_spool:
  "spool (step op c) = (case op of Append r \<Rightarrow> snd (add r (spool c))
     | Prepare n \<Rightarrow> snd (snd (prepare n (spool c))) | Ack \<Rightarrow> snd (ack (spool c))
     | Cancel \<Rightarrow> cancel (spool c) | Poll \<Rightarrow> snd (poll (spool c)))"
  "set (handed c) \<subseteq> set (handed (step op c))"
  by (cases op; auto split: prod.split option.split)+

lemma step_turns: "turns (spool c) \<le> Suc (turns (spool (step op c)))"
  unfolding step_spool(1)
  by (cases op) (simp_all add: add_turns prepare_turns ack_turns cancel_turns poll_turns)

text \<open>What the disk has sealed was handed out: an operation seals at most the batch.\<close>

lemma sealed_handed:
  assumes b: "balanced before attempts c" and t: "0 < turns (spool c)"
    and s: "set (take (sealed (spool c)) (queue (spool c))) \<subseteq> set (handed c)"
    and v: "\<forall>r\<in>set (offered [op]). valid r"
  shows "set (take (sealed (spool (step op c))) (queue (spool (step op c)))) \<subseteq> set (handed (step op c))"
proof -
  let ?s = "spool c"
  have inv: "inv ?s" using b by (simp add: balanced_def)
  note le = sealed_le [OF inv t]
  have grown: "set (take (sealed s') (queue s')) \<subseteq> set (handed c)"
    if "sealed s' = sealed ?s" "\<exists>q. queue s' = queue ?s @ q" for s'
    using that s le by auto
  have "set (take (sealed (spool (step op c))) (queue (spool (step op c)))) \<subseteq> set (handed c)"
  proof (cases op)
    case (Append r)
    obtain code s' where a: "add r ?s = (code, s')" by (metis surj_pair)
    have r: "valid r" using v Append by simp
    have "\<exists>q. queue s' = queue ?s @ q"
      using add_ok [OF inv r] add_error [OF inv r a] a by (cases "code = GATEWAY_OK") auto
    moreover have "sealed s' = sealed ?s" using add_sealed [OF inv r t] a by simp
    ultimately show ?thesis using grown a Append unfolding step_spool(1) by simp
  next
    case (Prepare n)
    obtain code out s' where p: "prepare n ?s = (code, out, s')" by (metis surj_pair)
    have "queue s' = queue ?s"
    proof (cases out)
      case (Some x)
      then show ?thesis using p prepare_ok [OF inv] by (cases x) blast
    qed (use p prepare_error [OF inv] in blast)
    moreover have "sealed s' = sealed ?s" using prepare_sealed [OF inv t, of n] p by simp
    ultimately show ?thesis using s p Prepare unfolding step_spool(1) by simp
  next
    case Ack
    obtain code s' where a: "ack ?s = (code, s')" by (metis surj_pair)
    have "set (take (batch ?s) (queue ?s)) \<subseteq> set (handed c)" if "\<not> closed ?s"
      using b that by (simp add: balanced_def)
    then have "set (take (sealed s') (queue s')) \<subseteq> set (handed c)"
      using ack_sealed [OF inv t a] s by auto
    then show ?thesis using a Ack unfolding step_spool(1) by simp
  next
    case Cancel
    then show ?thesis
      using s cancel_sealed [OF inv t] cancel_queue [OF inv] unfolding step_spool(1) by simp
  next
    case Poll
    obtain code s' where p: "poll ?s = (code, s')" by (metis surj_pair)
    then show ?thesis
      using s poll_sealed [OF inv t] poll_queue [OF inv p] Poll unfolding step_spool(1) by simp
  qed
  then show ?thesis using step_spool(2) [of c op] by blast
qed

lemma durable_call:
  assumes d: "durable_ok before c" and t: "0 < turns (spool c)" and v: "\<forall>r\<in>set (offered [op]). valid r"
  shows "durable_ok before (step op c)"
proof -
  obtain attempts where b: "balanced before attempts c" using d by (auto simp: durable_ok_def)
  have "set (take (sealed (spool c)) (queue (spool c))) \<subseteq> set (handed c)"
    using d by (simp add: durable_ok_def)
  from sealed_handed [OF b t this v] show ?thesis
    using balanced_step [OF b v] unfolding durable_ok_def by blast
qed

lemma durable_crash:
  assumes d: "durable_ok before c" and t: "0 < turns (spool c)"
  shows "durable_ok before (event_step step restart (Crash e) c)"
    and "turns (spool c) \<le> Suc (turns (spool (event_step step restart (Crash e) c)))"
proof -
  obtain attempts where b: "balanced before attempts c" using d by (auto simp: durable_ok_def)
  then have inv: "inv (spool c)" by (simp add: balanced_def)
  let ?s = "spool c" and ?s' = "restart e (spool c)"
  have s: "set (take (sealed ?s) (queue ?s)) \<subseteq> set (handed c)"
    using d by (simp add: durable_ok_def)
  obtain gone taken where g: "gone @ queue ?s = before @ taken" "subseq (accepted c) taken"
      "subseq taken attempts" "set gone \<subseteq> set (handed c)" "subseq (confirmed c) gone"
    using b by (auto simp: balanced_def)
  obtain extra where e: "queue ?s' = drop (sealed ?s) (queue ?s) @ extra"
    using restart_queue [OF inv t] by blast
  have "(gone @ take (sealed ?s) (queue ?s)) @ queue ?s' = before @ taken @ extra"
    using g(1) e by (metis append.assoc append_take_drop_id)
  moreover have "subseq (accepted c) (taken @ extra)" "subseq (taken @ extra) (attempts @ extra)"
    "set (gone @ take (sealed ?s) (queue ?s)) \<subseteq> set (handed c)"
    "subseq (confirmed c) (gone @ take (sealed ?s) (queue ?s))"
    using g s by (auto intro: list_emb_prefix list_emb_append_mono)
  ultimately have "\<exists>gone taken. gone @ queue ?s' = before @ taken \<and> subseq (accepted c) taken \<and>
      subseq taken (attempts @ extra) \<and> set gone \<subseteq> set (handed c) \<and> subseq (confirmed c) gone"
    by blast
  then have "balanced before (attempts @ extra) (event_step step restart (Crash e) c)"
    using restart_inv [OF inv t, of e] restart_fresh [OF inv t, of e] unfolding balanced_def by simp
  then show "durable_ok before (event_step step restart (Crash e) c)"
    using restart_fresh [OF inv t, of e] by (auto simp: durable_ok_def)
  show "turns ?s \<le> Suc (turns (spool (event_step step restart (Crash e) c)))"
    using restart_turns [OF inv t] by simp
qed

text \<open>At-least-once delivery across crashes: as long as no counter is used up, whatever calls are
  made and wherever the process is killed and restarted in between, nothing that was accepted is lost, and
  only what was handed out leaves the queue.\<close>

lemma durable_run:
  assumes "inv s" and "batch s = 0" and "sealed s = 0" and "\<forall>r\<in>set (all_offered events). valid r"
    and "length events < turns s"
  shows "durable_ok (queue s) (event_run step restart events s) \<and>
    turns s \<le> length events + turns (spool (event_run step restart events s))"
  using assms(4,5)
proof (induction events rule: rev_induct)
  case Nil
  have "balanced (queue s) [] \<lparr>accepted = [], handed = [], confirmed = [], in_hand = [], spool = s\<rparr>"
    using assms(1,2) by (auto simp: balanced_def)
  then show ?case using assms(3) by (auto simp: durable_ok_def event_run_def)
next
  case (snoc ev events)
  let ?c = "event_run step restart events s"
  have ih: "durable_ok (queue s) ?c" "turns s \<le> length events + turns (spool ?c)"
    using snoc by (simp_all add: all_offered_append)
  then have t: "0 < turns (spool ?c)" using snoc.prems(2) by simp
  have run: "event_run step restart (events @ [ev]) s = event_step step restart ev ?c"
    by (simp add: event_run_def)
  have "durable_ok (queue s) (event_step step restart ev ?c) \<and>
      turns (spool ?c) \<le> Suc (turns (spool (event_step step restart ev ?c)))"
  proof (cases ev)
    case (Call op)
    then have "\<forall>r\<in>set (offered [op]). valid r" using snoc.prems(1) by (simp add: all_offered_append)
    from durable_call [OF ih(1) t this] show ?thesis using Call step_turns [of ?c op] by (simp del: client_step.simps)
  next
    case (Crash e)
    then show ?thesis using durable_crash [OF ih(1) t, of e] by simp
  qed
  then show ?case using ih(2) by (simp add: run)
qed

lemma at_least_once_across_crashes:
  assumes "inv s" and "batch s = 0" and "sealed s = 0" and "\<forall>r\<in>set (all_offered events). valid r"
    and "length events < turns s"
  defines "c \<equiv> event_run step restart events s"
  shows "\<exists>gone taken. gone @ queue (spool c) = queue s @ taken \<and> subseq (accepted c) taken \<and>
     set gone \<subseteq> set (handed c) \<and> subseq (confirmed c) gone"
  using durable_run [OF assms(1-5)] unfolding c_def durable_ok_def balanced_def by blast

end

end
