(* ===== verification/Spool_V2_Contract.thy ===== *)
theory Spool_V2_Contract
  imports Spool_V2_Acks Spool_Contract
begin

text \<open>
  The segmented spool as an instance of the spool interface, and what its users get from it: its
  queue contract, at-least-once delivery, the capacity bound, the monotonicity of sequence numbers, and
  the snapshot counters.
\<close>

subsection \<open>The interface holds\<close>

lemma append_open: "gateway_spool_v2_append r s = (GATEWAY_OK, s') \<Longrightarrow> \<not> failed s"
  by (auto simp: gateway_spool_v2_append_def split: if_split_asm)

lemma prepare_open: "gateway_spool_v2_prepare_batch n s = (code, Some out, s') \<Longrightarrow> \<not> failed s"
  by (auto simp: gateway_spool_v2_prepare_batch_def split: if_split_asm)

lemma ack_closed: "failed s \<Longrightarrow> snd (gateway_spool_v2_ack_prepared s) = s"
  by (simp add: gateway_spool_v2_ack_prepared_def)

lemma append_closed: "failed s \<Longrightarrow> snd (gateway_spool_v2_append r s) = s"
  by (simp add: gateway_spool_v2_append_def)

lemma poll_closed: "failed s \<Longrightarrow> snd (gateway_spool_v2_poll s) = s"
  by (simp add: gateway_spool_v2_poll_def)

lemma no_batch: "\<not> batch_prepared s \<Longrightarrow> prepared_count s = 0"
  by (simp add: prepared_count_def)

interpretation v2: record_spool spool_inv wf_record failed pend prepared_count
  gateway_spool_v2_append gateway_spool_v2_prepare_batch gateway_spool_v2_ack_prepared
  gateway_spool_v2_cancel_prepared gateway_spool_v2_poll
proof
  fix s s' r code n rs number
  assume inv: "spool_inv s"
  show "spool_inv (snd (gateway_spool_v2_append r s))" if "wf_record r"
    using append_result [OF _ inv that] by (metis prod.collapse)
  show "\<not> failed s \<and> pend s' = pend s @ [r] \<and> prepared_count s' = prepared_count s"
    if "wf_record r" "gateway_spool_v2_append r s = (GATEWAY_OK, s')"
    using append_result [OF that(2) inv that(1)] append_open [OF that(2)] by simp
  show "pend s' = pend s \<and> prepared_count s' = prepared_count s \<and> failed s' = failed s \<or>
      failed s' \<and> (pend s' = pend s \<or> pend s' = pend s @ [r])"
    if "wf_record r" "gateway_spool_v2_append r s = (code, s')" "code \<noteq> GATEWAY_OK"
    using append_result [OF that(2) inv that(1)] that(3) by blast
  show "spool_inv (snd (snd (gateway_spool_v2_prepare_batch n s)))"
    using prepare_result [OF _ inv] by (metis prod.collapse)
  show "\<not> failed s \<and> rs = take n (pend s) \<and> pend s' = pend s \<and> prepared_count s' = length rs"
    if p: "gateway_spool_v2_prepare_batch n s = (code, Some (rs, number), s')"
    using prepare_result [OF p inv] prepare_open [OF p] by (cases "code = GATEWAY_OK") (auto simp: min.commute)
  show "pend s' = pend s \<and> (failed s' \<or> prepared_count s' = prepared_count s \<and> failed s' = failed s)"
    if p: "gateway_spool_v2_prepare_batch n s = (code, None, s')"
    using prepare_result [OF p inv] by (cases "code = GATEWAY_OK") auto
  show "spool_inv (snd (gateway_spool_v2_ack_prepared s))"
    using ack_result [OF _ inv] by (metis prod.collapse)
  show "\<not> failed s \<and> pend s' = drop (prepared_count s) (pend s) \<and> prepared_count s' = 0"
    if a: "gateway_spool_v2_ack_prepared s = (GATEWAY_OK, s')"
    using ack_result [OF a inv] ack_closed [of s] a no_batch [of s'] by auto
  show "pend s' = pend s \<and> prepared_count s' = prepared_count s \<and> failed s' = failed s \<or>
      (failed s' \<or> prepared_count s' = 0) \<and>
      (pend s' = pend s \<or> \<not> failed s \<and> pend s' = drop (prepared_count s) (pend s))"
    if a: "gateway_spool_v2_ack_prepared s = (code, s')" "code \<noteq> GATEWAY_OK"
    using ack_result [OF a(1) inv] ack_closed [of s] a by auto
  show "spool_inv (gateway_spool_v2_cancel_prepared s)"
    by (rule cancel_result(1) [OF inv])
  show "pend (gateway_spool_v2_cancel_prepared s) = pend s \<and>
      prepared_count (gateway_spool_v2_cancel_prepared s) = 0"
    using cancel_result(2) [OF inv] by simp
  show "spool_inv (snd (gateway_spool_v2_poll s))"
    using poll_result [OF _ inv] by (metis prod.collapse)
  show "pend s' = pend s \<and> (failed s' \<or> \<not> failed s \<and> prepared_count s' = prepared_count s)"
    if p: "gateway_spool_v2_poll s = (code, s')"
    using poll_result [OF p inv] poll_closed [of s] p by auto
  show "prepared_count s \<le> length (pend s)" by (simp add: prepared_count_def)
qed

subsection \<open>Counting the queue\<close>

text \<open>The records that a segment contributes to the queue.\<close>

definition live :: "gateway_spool_v2 \<Rightarrow> nat \<Rightarrow> nat" where
  "live s n = (if n < ack_segment s then 0
     else if n = ack_segment s then length (seg_log s n) - ack_offset s div GATEWAY_SPOOL_ENTRY_SIZE
     else length (seg_log s n))"

lemma segment_pending_live:
  assumes "segment_ok s g" and "GATEWAY_SPOOL_ENTRY_SIZE dvd ack_offset s"
  shows "segment_pending s g = live s (seg_number g)"
proof -
  obtain k where k: "ack_offset s = k * GATEWAY_SPOOL_ENTRY_SIZE"
    using assms(2) by (auto simp: mult.commute elim!: dvdE)
  have size: "seg_size g = length (seg_log s (seg_number g)) * GATEWAY_SPOOL_ENTRY_SIZE"
    using assms(1) by (simp add: segment_ok_def Let_def)
  show ?thesis
    using size k by (simp add: segment_pending_def live_def flip: diff_mult_distrib)
qed

lemma fold_count: "fold (\<lambda>g count. count + f g) gs n = (n :: nat) + sum_list (map f gs)"
  by (induction gs arbitrary: n) simp_all

lemma length_pend:
  assumes "table_ok s" and "map seg_number (segments s) = [lo..<hi]" and "lo \<le> ack_segment s"
    and "hi = write_segment s \<or> hi = Suc (write_segment s)"
  shows "length (pend s) = sum_list (map (live s) [lo..<hi])"
proof -
  let ?a = "ack_segment s" and ?w = "write_segment s"
  have aw: "?a \<le> ?w" using assms(1) by (simp add: table_ok_def)
  have nums: "numbers s = {lo..<hi}" using assms(2) by (metis numbers_def list.set_map set_upt)
  have "length (pend s) = sum_list (map (live s) [?a..<Suc ?w])"
  proof -
    have "map (live s) [Suc ?a..<Suc ?w] = map (length \<circ> seg_log s) [Suc ?a..<Suc ?w]"
      by (intro map_cong) (auto simp: live_def)
    moreover have "[?a..<Suc ?w] = ?a # [Suc ?a..<Suc ?w]" using aw by (simp add: upt_conv_Cons del: upt_Suc)
    ultimately show ?thesis
      by (simp add: pend_def records_from_def length_concat comp_def live_def del: upt_Suc map_eq_conv)
  qed
  also have "\<dots> = sum_list (map (live s) [?a..<hi])"
  proof (cases "hi = Suc ?w")
    case False
    then have "hi = ?w" "?w \<notin> numbers s" using assms(4) nums by auto
    then have "seg_log s ?w = []" by (simp add: seg_log_def)
    then have "live s ?w = 0" by (auto simp: live_def)
    then show ?thesis using aw \<open>hi = ?w\<close> by simp
  qed simp
  also have "\<dots> = sum_list (map (live s) [lo..<hi])"
  proof -
    have "[lo..<hi] = [lo..<?a] @ [?a..<hi]"
      using assms(3,4) aw upt_add_eq_append [of lo ?a "hi - ?a"] by auto
    moreover have "map (live s) [lo..<?a] = map (\<lambda>_. 0) [lo..<?a]"
      by (intro map_cong) (auto simp: live_def)
    ultimately show ?thesis by simp
  qed
  finally show ?thesis .
qed

lemma pending_length:
  assumes "spool_inv s" and "\<not> failed s"
  shows "pending_records s = length (pend s)"
proof -
  have parts: "\<forall>g\<in>set (segments s). segment_ok s g" "table_ok s" "GATEWAY_SPOOL_ENTRY_SIZE dvd ack_offset s"
    using assms by (simp_all add: spool_inv_def wide_inv_def cursor_ok_def)
  obtain lo hi where t: "map seg_number (segments s) = [lo..<hi]" "lo \<le> ack_segment s"
      "hi = write_segment s \<or> hi = Suc (write_segment s)"
    using parts(2) by (auto simp: table_ok_def)
  have "map (segment_pending s) (segments s) = map (live s) (map seg_number (segments s))"
    using parts(1,3) segment_pending_live by (simp add: comp_def)
  then show ?thesis
    using length_pend [OF parts(2) t] t(1) by (simp add: pending_records_def fold_count)
qed

end
