(* ===== verification/Spool_V2_Open.thy ===== *)
theory Spool_V2_Open
  imports Spool_V2_Contract
begin

text \<open>
  Opening the segmented spool on a directory without a state file: whatever the system calls
  return, the result is an error or an empty, well-formed spool, and it is the latter when no call
  fails.
\<close>

subsection \<open>The first state\<close>

definition first_state :: "gateway_spool_v2_options \<Rightarrow> nat \<Rightarrow> disk \<Rightarrow> gateway_spool_v2" where
  "first_state opts n d = (fresh_spool opts n GATEWAY_SPOOL_FAULT_NONE d)
     \<lparr>next_batch_seq := 1, ack_segment := 1, write_segment := 1\<rparr>"

lemma first_state_inv:
  assumes "options_valid opts n" and "disk_wf d"
  shows "spool_inv (first_state opts n d)"
proof -
  let ?s = "first_state opts n d"
  have f: "segments ?s = []" "write_segment ?s = 1" "ack_segment ?s = 1" "write_offset ?s = 0"
      "ack_offset ?s = 0" "segment_fd ?s = None" "unsynced_records ?s = 0" "failed ?s = False"
      "batch_prepared ?s = False" "next_batch_seq ?s = 1" "io ?s = d" "options ?s = opts"
      "segment_records ?s = n" "segment_bytes ?s = n * GATEWAY_SPOOL_ENTRY_SIZE" "physical_bytes ?s = 0"
    by (simp_all add: first_state_def fresh_spool_def)
  have log: "seg_log ?s m = []" for m by (simp add: seg_log_def numbers_def f)
  have "pend ?s = []" by (simp add: pend_def records_from_def log f)
  then have "sequences_ok ?s"
    by (simp add: sequences_ok_def first_state_def fresh_spool_def u64_max_def)
  moreover have "\<exists>lo hi. map seg_number (segments ?s) = [lo..<hi] \<and> 0 < lo \<and> lo \<le> ack_segment ?s \<and>
      (hi = write_segment ?s \<or> hi = Suc (write_segment ?s))"
    by (intro exI [of "\<lambda>lo. \<exists>hi. _ lo hi" 1], intro exI [of _ 1]) (simp add: f)
  then have "table_ok ?s" unfolding table_ok_def by (simp add: f log u64_max_def)
  moreover have "0 < n" using assms(1) by (simp add: options_valid_def)
  ultimately show ?thesis
    using assms
    by (simp add: spool_inv_def wide_inv_def options_ok_def descriptor_ok_def cursor_ok_def
        prepared_ok_def bytes_ok_def f)
qed

lemma first_state_empty: "pend (first_state opts n d) = []"
  by (simp add: pend_def records_from_def seg_log_def numbers_def first_state_def fresh_spool_def)

subsection \<open>What the steps before the state file change\<close>

lemma quiet_io: "view d = view (io s) \<Longrightarrow> (disk_wf (io s) \<Longrightarrow> disk_wf d) \<Longrightarrow> quiet s (s\<lparr>io := d\<rparr>)"
  by (simp add: quiet_def)

lemma quiet_open_directory:
  assumes "open_directory path s = (code, s')"
  shows "quiet s s' \<and> names (io s') = names (io s)"
proof -
  obtain ok d where c: "sys_call (io s) = (ok, d)" by (metis surj_pair)
  note v = sys_call_view [OF c]
  have "s' = s\<lparr>directory := path, directory_fd := ok, io := d\<rparr>"
    using assms by (simp add: open_directory_def c)
  then show ?thesis using v by (simp add: quiet_def same_core_def)
qed

lemma fsync_parent_view:
  assumes "fsync_parent path d = (code, d')"
  shows "view d' = view d \<and> disk_wf d' = disk_wf d \<and> names d' = names d"
proof -
  obtain a d1 where a: "sys_call d = (a, d1)" by (metis surj_pair)
  obtain b d2 where b: "sys_call d1 = (b, d2)" by (metis surj_pair)
  obtain c d3 where c: "sys_close d2 = (c, d3)" by (metis surj_pair)
  have "d' = d \<or> d' = d1 \<or> d' = d3"
    using assms by (auto simp: fsync_parent_def a b c Let_def split: if_split_asm)
  then show ?thesis
    using sys_call_view [OF a] sys_call_view [OF b] sys_call_view [OF c [unfolded sys_close_def]] by auto
qed

lemma quiet_ensure_directory:
  assumes "ensure_directory path s = (code, s')"
  shows "quiet s s' \<and> names (io s') = names (io s)"
proof -
  obtain ok d0 where c: "sys_call (io s) = (ok, d0)" by (metis surj_pair)
  obtain status d where l: "sys_lstat (io s) = (status, d)" by (metis surj_pair)
  have v: "view d = view (io s)" "disk_wf d = disk_wf (io s)" "names d = names (io s)"
    using l sys_call_view [OF c] by (simp_all add: sys_lstat_def c)
  obtain made d2 where m: "sys_mkdir d = (made, d2)" by (metis surj_pair)
  obtain ok1 d1 where c1: "sys_call d = (ok1, d1)" by (metis surj_pair)
  have v2: "view d2 = view d" "disk_wf d2 = disk_wf d" "names d2 = names d"
    using m sys_call_view [OF c1] by (auto simp: sys_mkdir_def c1 split: if_split_asm)
  obtain c3 d3 where p: "fsync_parent path d2 = (c3, d3)" by (metis surj_pair)
  note v3 = fsync_parent_view [OF p]
  have q: "quiet s (s\<lparr>io := d\<rparr>)" "quiet s (s\<lparr>io := d2\<rparr>)" "quiet s (s\<lparr>io := d3\<rparr>)"
    using v v2 v3 by (simp_all add: quiet_io)
  have "s' = s \<or> s' = s\<lparr>io := d\<rparr> \<or> s' = s\<lparr>io := d2\<rparr> \<or> s' = s\<lparr>io := d3\<rparr> \<or>
      open_directory path (s\<lparr>io := d\<rparr>) = (code, s') \<or> open_directory path (s\<lparr>io := d3\<rparr>) = (code, s')"
    using assms
    by (auto simp: ensure_directory_def l m p Let_def split: if_split_asm path_status.split_asm)
  then show ?thesis
  proof (elim disjE)
    assume o: "open_directory path (s\<lparr>io := d\<rparr>) = (code, s')"
    show ?thesis using quiet_open_directory [OF o] quiet_trans [OF q(1)] v by simp
  next
    assume o: "open_directory path (s\<lparr>io := d3\<rparr>) = (code, s')"
    show ?thesis using quiet_open_directory [OF o] quiet_trans [OF q(3)] v v2 v3 by simp
  qed (use q v v2 v3 in simp_all)
qed

lemma quiet_inspect_empty:
  assumes "inspect_directory s = (code, state_exists, tmp_exists, s')"
    and "names (io s) = []" and "segments s = []"
  shows "quiet s s' \<and> \<not> state_exists \<and> \<not> tmp_exists"
proof -
  obtain a d1 where a: "sys_call (io s) = (a, d1)" by (metis surj_pair)
  obtain b d2 where b: "sys_call d1 = (b, d2)" by (metis surj_pair)
  obtain c d3 where c: "sys_call d2 = (c, d3)" by (metis surj_pair)
  obtain e d4 where e: "sys_close d3 = (e, d4)" by (metis surj_pair)
  obtain f d5 where f: "sys_close d2 = (f, d5)" by (metis surj_pair)
  note v = sys_call_view [OF a] sys_call_view [OF b] sys_call_view [OF c] sys_close_view [OF e] sys_close_view [OF f]
  have "\<exists>d. s' = s\<lparr>io := d\<rparr> \<and> view d = view (io s) \<and> disk_wf d = disk_wf (io s) \<and>
      \<not> state_exists \<and> \<not> tmp_exists"
    using assms v
    by (auto simp: inspect_directory_def a b c e f close_with_def Let_def split: if_split_asm)
  then show ?thesis by (auto intro: quiet_io)
qed

lemma quiet_take_lock:
  assumes "take_lock s = (code, s')" and "disk_wf (io s)"
  shows "quiet s s'"
proof -
  obtain r d where o: "sys_open_create ''lock'' (io s) = (r, d)" by (metis surj_pair)
  note ov = sys_open_create_view [OF o assms(2)]
  obtain ok d2 where c: "sys_call d = (ok, d2)" by (metis surj_pair)
  have "s' = s\<lparr>lock_fd := r, io := d\<rparr> \<or> s' = s\<lparr>lock_fd := r, io := d2\<rparr>"
    using assms(1) by (auto simp: take_lock_def o c Let_def split: option.split_asm if_split_asm)
  then show ?thesis
    using ov sys_call_view [OF c] by (auto simp: quiet_def same_core_def)
qed

subsection \<open>When no call fails\<close>

definition smooth :: "gateway_spool_v2 \<Rightarrow> bool" where
  "smooth s \<longleftrightarrow> outcomes (io s) = [] \<and> fault_once s = GATEWAY_SPOOL_FAULT_NONE"

lemma smooth_calls:
  assumes "outcomes d = []"
  shows "sys_call d = (True, d)" and "sys_close d = (True, d)"
    and "sys_fsync_directory d = (True, d\<lparr>durable_names := names d\<rparr>)"
    and "sys_fdatasync ino d = (True, d\<lparr>inodes := (inodes d)(ino :=
      (inodes d ino)\<lparr>durable := content (inodes d ino)\<rparr>)\<rparr>)"
    and "sys_open name d = (map_of (names d) name, d)"
    and "sys_fstat ino d = (Some (regular (inodes d ino), length (content (inodes d ino))), d)"
  using calls_succeed [OF assms]
  by (simp_all add: sys_close_def sys_fsync_directory_def sys_fdatasync_def sys_open_def sys_fstat_def)

lemma smooth_update [simp]:
  "smooth (s\<lparr>generation := a\<rparr>) = smooth s" "smooth (s\<lparr>next_batch_seq := b\<rparr>) = smooth s"
  "smooth (s\<lparr>ack_segment := c\<rparr>) = smooth s" "smooth (s\<lparr>write_segment := e\<rparr>) = smooth s"
  "smooth (s\<lparr>sync_count := f\<rparr>) = smooth s" "smooth (s\<lparr>segments := g\<rparr>) = smooth s"
  "smooth (s\<lparr>write_offset := h\<rparr>) = smooth s" "smooth (s\<lparr>last_allocated_seq := i\<rparr>) = smooth s"
  "smooth (s\<lparr>tail_recoveries := j\<rparr>) = smooth s" "smooth (s\<lparr>state_recoveries := k\<rparr>) = smooth s"
  "smooth (s\<lparr>physical_bytes := l\<rparr>) = smooth s" "smooth (s\<lparr>segments_reclaimed := m\<rparr>) = smooth s"
  "smooth (s\<lparr>corruptions := n\<rparr>) = smooth s" "smooth (s\<lparr>lock_fd := q\<rparr>) = smooth s"
  "smooth (s\<lparr>directory_fd := r\<rparr>) = smooth s" "smooth (s\<lparr>directory := t\<rparr>) = smooth s"
  "smooth (s\<lparr>segment_capacity := u\<rparr>) = smooth s"
  by (simp_all add: smooth_def)

lemma smooth_sync:
  assumes "smooth s" and "p \<noteq> GATEWAY_SPOOL_FAULT_NONE"
  shows "\<exists>s'. sync_descriptor t p s = (GATEWAY_OK, s') \<and> smooth s' \<and> names (io s') = names (io s)"
  using assms smooth_calls [of "io s"]
  by (cases t) (auto simp: sync_descriptor_def inject_fault_def smooth_def Let_def)

lemma smooth_sync_directory:
  "smooth s \<Longrightarrow> \<exists>s'. sync_directory s = (GATEWAY_OK, s') \<and> smooth s' \<and> names (io s') = names (io s)"
  using smooth_sync [of s] by (simp add: sync_directory_def)

lemma smooth_write:
  "outcomes d = [] \<Longrightarrow> \<exists>d'. write_exact ino buffer offset d = (GATEWAY_OK, d') \<and> outcomes d' = [] \<and>
     names d' = names d"
  by (simp add: write_exact_def set_content_def)

lemma smooth_write_tmp:
  assumes "smooth s"
  shows "\<exists>s'. write_tmp ino img s = (GATEWAY_OK, s') \<and> smooth s' \<and> names (io s') = names (io s)"
proof -
  obtain d where w: "write_exact ino img 0 (io s) = (GATEWAY_OK, d)" "outcomes d = []" "names d = names (io s)"
    using smooth_write [of "io s" ino img 0] assms by (auto simp: smooth_def)
  have "smooth (s\<lparr>io := d\<rparr>)" using assms w by (simp add: smooth_def)
  then obtain s2 where y: "sync_descriptor (Sync_file ino) GATEWAY_SPOOL_FAULT_STATE_SYNC (s\<lparr>io := d\<rparr>) =
      (GATEWAY_OK, s2)" "smooth s2" "names (io s2) = names d"
    using smooth_sync by fastforce
  have "sys_close (io s2) = (True, io s2)" using y(2) smooth_calls by (simp add: smooth_def)
  then show ?thesis
    using assms w y by (simp add: write_tmp_def inject_fault_def smooth_def)
qed

lemma persist_smooth:
  assumes "smooth s" and "generation s \<noteq> u64_max"
  shows "\<exists>s'. persist_state s = (GATEWAY_OK, s') \<and> smooth s' \<and> generation s' = generation s + 1"
proof -
  obtain r d where t: "sys_open_trunc ''state.v2.tmp'' (io s) = (r, d)" by (metis surj_pair)
  have c: "sys_call (io s) = (True, io s)" using assms(1) smooth_calls by (simp add: smooth_def)
  have "r \<noteq> None \<and> outcomes d = [] \<and> map_of (names d) ''state.v2.tmp'' \<noteq> None"
    using t assms(1)
    by (cases "map_of (names (io s)) ''state.v2.tmp''")
      (auto simp: sys_open_trunc_def c create_file_def smooth_def map_add_def dest!: sym [of "Some _"])
  then obtain ino where ino: "r = Some ino" "outcomes d = []" "map_of (names d) ''state.v2.tmp'' \<noteq> None"
    by blast
  have "smooth (s\<lparr>io := d\<rparr>)" using assms ino by (simp add: smooth_def)
  then obtain s1 where w: "write_tmp ino (encode_state s (generation s + 1)) (s\<lparr>io := d\<rparr>) = (GATEWAY_OK, s1)"
      "smooth s1" "names (io s1) = names d"
    using smooth_write_tmp by fastforce
  obtain d2 where rn: "sys_rename ''state.v2.tmp'' ''state.v2'' (io s1) = (True, d2)" "outcomes d2 = []"
    using w ino(3) smooth_calls(1) [of "io s1"] by (auto simp: sys_rename_def smooth_def)
  have r2: "rename_tmp s1 = (GATEWAY_OK, s1\<lparr>io := d2\<rparr>)"
    using rn w(2) by (simp add: rename_tmp_def inject_fault_def smooth_def)
  have "smooth (s1\<lparr>io := d2\<rparr>)" using w rn by (simp add: smooth_def)
  then obtain s3 where "sync_directory (s1\<lparr>io := d2\<rparr>) = (GATEWAY_OK, s3)" "smooth s3"
    using smooth_sync_directory by blast
  then show ?thesis
    using assms t ino(1) w(1) r2 by (simp add: persist_state_steps)
qed

subsection \<open>Opening an empty directory\<close>

lemma and_then_OK:
  "and_then r f = (GATEWAY_OK, s') \<longleftrightarrow> (\<exists>s. r = (GATEWAY_OK, s) \<and> f s = (GATEWAY_OK, s'))"
  by (cases r) (auto simp: and_then_def)

lemma scan_nothing:
  assumes "segments s = []" and "write_offset s = 0" and "ack_segment s = write_segment s"
  shows "validate_and_scan s = (GATEWAY_OK, s)" and "remove_reclaimed_segments s = (GATEWAY_OK, s)"
  using assms
  by (simp_all add: validate_and_scan_def reconcile_write_def check_ack_def find_segment_def
      remove_reclaimed_segments_def)

lemma first_steps:
  assumes "open_steps path s0 = (GATEWAY_OK, s')" and s0: "s0 = fresh_spool opts n GATEWAY_SPOOL_FAULT_NONE d"
    and "disk_wf d" and "names d = []"
  shows "quiet (first_state opts n d) s'"
proof -
  let ?first = "\<lambda>s. s\<lparr>next_batch_seq := 1, ack_segment := 1, write_segment := 1\<rparr>"
  obtain s1 where s1: "ensure_directory path s0 = (GATEWAY_OK, s1)"
    using assms(1) by (auto simp: open_steps_def and_then_OK)
  obtain c2 e t s2 where s2: "inspect_directory s1 = (c2, e, t, s2)" by (metis prod_cases4)
  have q1: "quiet s0 s1 \<and> names (io s1) = names (io s0)" by (rule quiet_ensure_directory [OF s1])
  have fresh: "segments s0 = []" "io s0 = d" by (simp_all add: s0 fresh_spool_def)
  have wf1: "disk_wf (io s1)" "names (io s1) = []" "segments s1 = []"
    using q1 assms(3,4) fresh by (simp_all add: quiet_def same_core_def)
  have q2: "quiet s1 s2 \<and> \<not> e \<and> \<not> t" by (rule quiet_inspect_empty [OF s2 wf1(2,3)])
  obtain s3 s4 s5 s6 where s3: "take_lock s2 = (GATEWAY_OK, s3)" and s4: "sync_directory s3 = (GATEWAY_OK, s4)"
    and s5: "first_or_load_state False s4 = (GATEWAY_OK, s5)"
    and s6: "validate_and_scan s5 = (GATEWAY_OK, s6)" "remove_reclaimed_segments s6 = (GATEWAY_OK, s')"
    using assms(1) s1 s2 q2 by (auto simp: open_steps_def and_then_OK remove_stale_tmp_def)
  have wf2: "disk_wf (io s2)" using q2 wf1 by (simp add: quiet_def)
  note q3 = quiet_take_lock [OF s3 wf2]
  note q4 = quiet_sync_directory [OF s4]
  have q: "quiet s0 s4" using q1 q2 q3 q4 quiet_trans by blast
  have wf4: "disk_wf (io s4)" "segments s4 = []"
    using q assms(3) fresh by (simp_all add: quiet_def same_core_def)
  have ps: "persist_state (?first s4) = (GATEWAY_OK, s5)"
    using s5 wf4(2) by (simp add: first_or_load_state_def)
  have "quiet (?first s4) s5" by (rule quiet_persist [OF ps]) (simp add: wf4)
  moreover have "quiet (first_state opts n d) (?first s4)"
    using q by (simp add: quiet_def same_core_def first_state_def s0)
  ultimately have q5: "quiet (first_state opts n d) s5" by (rule quiet_trans [rotated])
  then have "segments s5 = []" "write_offset s5 = 0" "ack_segment s5 = write_segment s5"
    by (simp_all add: quiet_def same_core_def first_state_def fresh_spool_def)
  then show ?thesis using scan_nothing s6 q5 by simp
qed

lemma first_open_result:
  assumes "gateway_spool_v2_open True (Some path) (Some opts) n GATEWAY_SPOOL_FAULT_NONE d = (code, res, d')"
    and "disk_wf d" and "names d = []"
  shows "code \<noteq> GATEWAY_OK \<and> res = None \<or>
    code = GATEWAY_OK \<and> (\<exists>s. res = Some s \<and> spool_inv s \<and> \<not> failed s \<and> pend s = [] \<and> \<not> batch_prepared s)"
proof (cases "options_valid opts n")
  case False
  then show ?thesis using assms(1) by (auto simp: gateway_spool_v2_open_def)
next
  case True
  obtain ok d1 where c: "sys_call d = (ok, d1)" by (metis surj_pair)
  have d1: "disk_wf d1" "names d1 = []" using sys_call_view [OF c] assms(2,3) by simp_all
  obtain c1 s where o: "open_steps path (fresh_spool opts n GATEWAY_SPOOL_FAULT_NONE d1) = (c1, s)"
    by (metis surj_pair)
  show ?thesis
  proof (cases "ok \<and> c1 = GATEWAY_OK")
    case False
    then show ?thesis
      using assms(1) True c o by (auto simp: gateway_spool_v2_open_def split: if_split_asm)
  next
    case ok: True
    have q: "quiet (first_state opts n d1) s"
      using first_steps [OF _ refl d1] o ok by simp
    have "code = GATEWAY_OK" "res = Some s"
      using assms(1) True c o ok by (simp_all add: gateway_spool_v2_open_def)
    then show ?thesis
      using quiet_spool_inv [OF q first_state_inv [OF True d1(1)]] quiet_pend [OF q] q
      by (simp add: first_state_empty quiet_def same_core_def) (simp add: first_state_def fresh_spool_def)
  qed
qed

definition path_ok :: "string \<Rightarrow> bool" where
  "path_ok path \<longleftrightarrow> take 1 path = ''/'' \<and> 2 \<le> length path \<and> length path < GATEWAY_SPOOL_PATH_SIZE"

lemma smooth_ensure_directory:
  assumes "smooth s" and "directory_status (io s) = Path_directory" and "path_ok path"
  shows "ensure_directory path s = (GATEWAY_OK, s\<lparr>directory := path, directory_fd := True\<rparr>)"
  using assms smooth_calls [of "io s"]
  by (simp add: ensure_directory_def path_ok_def sys_lstat_def open_directory_def smooth_def)

lemma smooth_take_lock:
  assumes "smooth s"
  shows "\<exists>s'. take_lock s = (GATEWAY_OK, s') \<and> smooth s'"
proof -
  obtain r d where o: "sys_open_create ''lock'' (io s) = (r, d)" by (metis surj_pair)
  have "r \<noteq> None \<and> outcomes d = []"
    using o assms smooth_calls(1) [of "io s"]
    by (cases "map_of (names (io s)) ''lock''")
      (auto simp: sys_open_create_def create_file_def smooth_def dest!: sym [of "Some _"])
  then show ?thesis
    using o assms smooth_calls(1) [of d] by (auto simp: take_lock_def smooth_def)
qed

lemma smooth_inspect_empty:
  assumes "smooth s" and "names (io s) = []" and "segments s = []"
  shows "inspect_directory s = (GATEWAY_OK, False, False, s)"
  using assms smooth_calls [of "io s"] by (simp add: inspect_directory_def smooth_def)

lemma first_open_succeeds:
  assumes "options_valid opts n" and "path_ok path" and "names d = []" and "outcomes d = []"
    and "directory_status d = Path_directory" and "disk_wf d"
  shows "fst (gateway_spool_v2_open True (Some path) (Some opts) n GATEWAY_SPOOL_FAULT_NONE d) = GATEWAY_OK"
proof -
  let ?s0 = "fresh_spool opts n GATEWAY_SPOOL_FAULT_NONE d"
  let ?s1 = "?s0\<lparr>directory := path, directory_fd := True\<rparr>"
  have s0: "smooth ?s0" "io ?s0 = d" "segments ?s0 = []" using assms(4) by (simp_all add: smooth_def fresh_spool_def)
  have ed: "ensure_directory path ?s0 = (GATEWAY_OK, ?s1)"
    by (rule smooth_ensure_directory) (use s0 assms in simp_all)
  have s1: "smooth ?s1" using s0 by simp
  have ins: "inspect_directory ?s1 = (GATEWAY_OK, False, False, ?s1)"
    by (rule smooth_inspect_empty [OF s1]) (use s0 assms in simp_all)
  obtain s2 where tl: "take_lock ?s1 = (GATEWAY_OK, s2)" "smooth s2" using smooth_take_lock [OF s1] by blast
  obtain s3 where sd: "sync_directory s2 = (GATEWAY_OK, s3)" "smooth s3"
    using smooth_sync_directory [OF tl(2)] by blast
  have core: "segments s3 = [] \<and> generation s3 = 0 \<and> write_offset s3 = 0"
  proof -
    have "segments s2 = [] \<and> generation s2 = 0 \<and> write_offset s2 = 0"
      using tl(1) by (auto simp: take_lock_def fresh_spool_def Let_def
          split: option.split_asm prod.split_asm if_split_asm)
    then show ?thesis using sync_directory_frame [OF sd(1)] by (simp add: same_core_def)
  qed
  have "quiet ?s1 s3"
    using quiet_take_lock [OF tl(1)] quiet_sync_directory [OF sd(1)] quiet_trans assms(6) s0(2) by simp
  then have wf3: "disk_wf (io s3)" using assms(6) s0(2) by (simp add: quiet_def)
  let ?f = "s3\<lparr>next_batch_seq := 1, ack_segment := 1, write_segment := 1\<rparr>"
  have "smooth ?f" "generation ?f \<noteq> u64_max" using sd core by (simp_all add: u64_max_def)
  then obtain s4 where ps: "persist_state ?f = (GATEWAY_OK, s4)" using persist_smooth by blast
  have "segments s4 = [] \<and> write_offset s4 = 0 \<and> ack_segment s4 = write_segment s4"
    using quiet_persist [OF ps] wf3 core by (simp add: quiet_def same_core_def)
  then have scan: "validate_and_scan s4 = (GATEWAY_OK, s4)" "remove_reclaimed_segments s4 = (GATEWAY_OK, s4)"
    using scan_nothing by simp_all
  have "open_steps path ?s0 = (GATEWAY_OK, s4)"
    using ed ins tl sd core ps scan
    by (simp add: open_steps_def and_then_def remove_stale_tmp_def first_or_load_state_def)
  then show ?thesis
    using assms smooth_calls(1) [OF assms(4)] by (simp add: gateway_spool_v2_open_def)
qed

end
