(* ===== verification/Spool_V2_Scan.thy ===== *)
theory Spool_V2_Scan
  imports Spool_V2_Open
begin

text \<open>
  The scan of an existing spool directory, when no call fails: the names are collected into the
  segment table, every entry is read back and checked, a torn entry at the end of the last segment
  is cut off, and the table afterwards describes exactly the records in the files.
\<close>

subsection \<open>Reading a file\<close>

lemma same_io [simp]: "(s :: gateway_spool_v2)\<lparr>io := io s\<rparr> = s"
  by simp

lemma smooth_file:
  assumes "outcomes d = []" and "disk_wf d" and "view d name = Some (ino, c)"
  shows "sys_open name d = (Some ino, d)"
    and "sys_fstat ino d = (Some (True, length c), d)"
    and "offset + n \<le> length c \<Longrightarrow> read_exact ino n offset d = (Inr (take n (drop offset c)), d)"
proof -
  have m: "map_of (names d) name = Some ino" "content (inodes d ino) = c"
    using assms(3) by (simp_all add: view_Some)
  moreover have "regular (inodes d ino)"
    using assms(2) m(1) by (auto simp: disk_wf_def dest: map_of_SomeD)
  ultimately show "sys_open name d = (Some ino, d)" "sys_fstat ino d = (Some (True, length c), d)"
    using smooth_calls [OF assms(1)] by simp_all
  have "d\<lparr>outcomes := []\<rparr> = d" using assms(1) by simp
  then show "offset + n \<le> length c \<Longrightarrow> read_exact ino n offset d = (Inr (take n (drop offset c)), d)"
    using m(2) assms(1) by (simp add: read_exact_def Let_def)
qed

lemma decode_torn_window:
  assumes "\<forall>r\<in>set rs. rec_ok r" and "k < length rs"
  shows "v2_decode_record (take GATEWAY_SPOOL_ENTRY_SIZE (drop (k * GATEWAY_SPOOL_ENTRY_SIZE)
    (rec_bytes rs @ p))) = Inr (rs ! k)"
  using gsp2.dec_window [OF assms, of p] by (simp add: rec_bytes_def window_def)

text \<open>A log in strict order, and the last sequence number of a log (0 for none), as the code keeps
  them in its accumulators.\<close>

definition in_order :: "telemetry_record list \<Rightarrow> bool" where
  "in_order rs \<longleftrightarrow> sorted_wrt (\<lambda>a b. gateway_seq a < gateway_seq b) rs"

definition last_seq :: "telemetry_record list \<Rightarrow> u64" where
  "last_seq rs = (if rs = [] then 0 else gateway_seq (last rs))"

lemma last_seq_append: "last_seq (xs @ ys) = (if ys = [] then last_seq xs else last_seq ys)"
  by (simp add: last_seq_def)

lemma in_order_append:
  "in_order (xs @ ys) \<longleftrightarrow> in_order xs \<and> in_order ys \<and>
     (\<forall>x\<in>set xs. \<forall>y\<in>set ys. gateway_seq x < gateway_seq y)"
  by (simp add: in_order_def sorted_wrt_append)

lemma in_order_last:
  assumes "in_order (xs @ ys)" and "\<forall>r\<in>set (xs @ ys). gateway_seq r \<noteq> 0" and "y \<in> set ys"
  shows "last_seq xs < gateway_seq y"
proof (cases "xs = []")
  case True
  then show ?thesis using assms(2,3) by (simp add: last_seq_def word_gt_0)
next
  case False
  then have "last xs \<in> set xs" by simp
  then show ?thesis using assms(1,3) False by (simp add: last_seq_def in_order_append)
qed

lemma last_seq_max:
  assumes "in_order rs" and "r \<in> set rs"
  shows "gateway_seq r \<le> last_seq rs"
proof -
  from assms(2) obtain xs ys where rs: "rs = xs @ r # ys" by (meson split_list)
  show ?thesis
  proof (cases "ys = []")
    case False
    then have "last ys \<in> set ys" by simp
    then have "gateway_seq r < gateway_seq (last ys)"
      using assms(1) by (simp add: rs in_order_def sorted_wrt_append)
    then show ?thesis using False by (simp add: rs last_seq_def)
  qed (simp add: rs last_seq_def)
qed

subsection \<open>One segment\<close>

text \<open>What the table says of a segment after the scan.\<close>

definition seg_entry :: "(nat \<Rightarrow> telemetry_record list) \<Rightarrow> nat \<Rightarrow> v2_segment" where
  "seg_entry L n = \<lparr>seg_number = n, seg_size = length (L n) * GATEWAY_SPOOL_ENTRY_SIZE,
     seg_first_seq = (if L n = [] then 0 else gateway_seq (hd (L n))), seg_last_seq = last_seq (L n)\<rparr>"

lemma seg_entry_fields [simp]:
  "seg_number (seg_entry L n) = n"
  "seg_size (seg_entry L n) = length (L n) * GATEWAY_SPOOL_ENTRY_SIZE"
  "seg_last_seq (seg_entry L n) = last_seq (L n)"
  by (simp_all add: seg_entry_def)

lemma new_segment_number [simp]: "seg_number (new_segment n) = n"
  by (simp add: new_segment_def)

lemma scan_entries_result:
  assumes "smooth s" and "disk_wf (io s)" and "view (io s) name = Some (ino, rec_bytes rs @ p)"
    and "\<forall>r\<in>set rs. rec_ok r" and "in_order rs" and "i \<le> length rs"
    and "\<forall>r\<in>set (drop i rs). previous < gateway_seq r"
  shows "scan_entries (map (\<lambda>k. k * GATEWAY_SPOOL_ENTRY_SIZE) [i..<length rs]) ino final_segment
      valid_size previous g s =
    (GATEWAY_OK, valid_size, (if drop i rs = [] then previous else last_seq rs),
     (if drop i rs = [] then g
      else g\<lparr>seg_first_seq := (if seg_first_seq g = 0 then gateway_seq (rs ! i) else seg_first_seq g),
             seg_last_seq := last_seq rs\<rparr>), s)"
  using assms(6,7)
proof (induction "length rs - i" arbitrary: i previous g)
  case 0
  then show ?case by simp
next
  case (Suc m)
  then have i: "i < length rs" by linarith
  have upt: "[i..<length rs] = i # [Suc i..<length rs]" using i by (simp add: upt_conv_Cons)
  have ok: "rec_ok (rs ! i)" using assms(4) i by simp
  have "length (rec_bytes rs @ p) = length rs * GATEWAY_SPOOL_ENTRY_SIZE + length p"
    using assms(4) by simp
  moreover have "Suc i * GATEWAY_SPOOL_ENTRY_SIZE \<le> length rs * GATEWAY_SPOOL_ENTRY_SIZE"
    using i by (intro mult_le_mono1) simp
  ultimately have "i * GATEWAY_SPOOL_ENTRY_SIZE + GATEWAY_SPOOL_ENTRY_SIZE \<le> length (rec_bytes rs @ p)"
    by simp
  moreover have "outcomes (io s) = []" using assms(1) by (simp add: smooth_def)
  ultimately have rd: "read_exact ino GATEWAY_SPOOL_ENTRY_SIZE (i * GATEWAY_SPOOL_ENTRY_SIZE) (io s) =
      (Inr (take GATEWAY_SPOOL_ENTRY_SIZE (drop (i * GATEWAY_SPOOL_ENTRY_SIZE) (rec_bytes rs @ p))), io s)"
    using smooth_file(3) [OF _ assms(2,3)] by blast
  have cons: "drop i rs = rs ! i # drop (Suc i) rs" using i by (simp add: Cons_nth_drop_Suc)
  have later: "\<forall>r\<in>set (drop (Suc i) rs). gateway_seq (rs ! i) < gateway_seq r"
    using assms(5) append_take_drop_id [of i rs] cons
    by (metis (no_types, lifting) in_order_append in_order_def sorted_wrt.simps(2))
  note ih = Suc.hyps(1) [of "Suc i" "gateway_seq (rs ! i)", OF _ _ later]
  have "\<not> (previous \<noteq> 0 \<and> gateway_seq (rs ! i) \<le> previous)"
    using Suc.prems(2) cons by (auto simp: not_le)
  moreover have "drop (Suc i) rs = [] \<Longrightarrow> last_seq rs = gateway_seq (rs ! i)"
    using i last_conv_nth [of rs] by (auto simp: last_seq_def intro!: arg_cong [of _ _ "\<lambda>k. gateway_seq (rs ! k)"])
  ultimately show ?case
    using ih Suc.hyps(2) i ok decode_torn_window [OF assms(4) i, of p]
    by (auto simp: upt rd Let_def rec_ok_def cons simp del: upt.simps)
qed

text \<open>A segment file: the records, and for the write segment possibly the beginning of another.\<close>

definition file_holds :: "disk \<Rightarrow> nat \<Rightarrow> telemetry_record list \<Rightarrow> bytes \<Rightarrow> bool" where
  "file_holds d n rs p \<longleftrightarrow> (\<exists>ino. view d (segment_name n) = Some (ino, rec_bytes rs @ p)) \<and>
     (\<forall>r\<in>set rs. rec_ok r) \<and> length p < GATEWAY_SPOOL_ENTRY_SIZE"

lemma scan_one_result:
  assumes s: "smooth s" "disk_wf (io s)" and f: "file_holds (io s) n rs p" and "final_segment \<or> p = []"
    and g: "index < length (segments s)" "segments s ! index = new_segment n"
    and fits: "length (rec_bytes rs @ p) \<le> segment_bytes s"
    and ord: "in_order rs" "\<forall>r\<in>set rs. previous < gateway_seq r" and rs: "L n = rs"
  obtains s' where "scan_one_segment index final_segment previous s =
      (GATEWAY_OK, if rs = [] then previous else last_seq rs, s')"
    "smooth s'" "disk_wf (io s')" "generation s' = generation s"
    "same_core s' (s\<lparr>segments := (segments s)[index := seg_entry L n],
       physical_bytes := physical_bytes s + length rs * GATEWAY_SPOOL_ENTRY_SIZE\<rparr>)"
    "holds (io s') n rs" "\<And>name. name \<noteq> segment_name n \<Longrightarrow> view (io s') name = view (io s) name"
proof -
  let ?E = GATEWAY_SPOOL_ENTRY_SIZE
  obtain ino where v: "view (io s) (segment_name n) = Some (ino, rec_bytes rs @ p)"
    and ok: "\<forall>r\<in>set rs. rec_ok r" and p: "length p < ?E"
    using f by (auto simp: file_holds_def)
  have out: "outcomes (io s) = []" using s(1) by (simp add: smooth_def)
  note sf = smooth_file [OF out s(2) v]
  have len: "length (rec_bytes rs @ p) = length rs * ?E + length p" using ok by simp
  have valid: "length (rec_bytes rs @ p) - length (rec_bytes rs @ p) mod ?E = length rs * ?E"
    unfolding len using p by simp
  have count: "length rs * ?E div ?E = length rs" using p by simp
  have start: "(if seg_first_seq (new_segment n) = 0 then gateway_seq (rs ! 0) else 0) = gateway_seq (rs ! 0)"
    by (simp add: new_segment_def)
  note se = scan_entries_result [OF s v ok ord(1), of 0 previous final_segment "length rs * ?E" "new_segment n", simplified]
  have entries: "scan_entries (map (\<lambda>k. k * ?E) [0..<length rs]) ino final_segment (length rs * ?E)
      previous (new_segment n) s = (GATEWAY_OK, length rs * ?E, if rs = [] then previous else last_seq rs,
        (seg_entry L n)\<lparr>seg_size := 0\<rparr>, s)"
    using se ord(2) rs
    by (auto simp: new_segment_def seg_entry_def hd_conv_nth last_seq_def)
  let ?s1 = "s\<lparr>segments := (segments s)[index := (seg_entry L n)\<lparr>seg_size := 0\<rparr>]\<rparr>"
  let ?fin = "\<lambda>s2. s2\<lparr>segments := (segments s)[index := seg_entry L n],
      physical_bytes := physical_bytes s + length rs * ?E\<rparr>"
  have upd: "(segments s2)[index := (segments s2 ! index)\<lparr>seg_size := length rs * ?E\<rparr>] =
      (segments s)[index := seg_entry L n]" if "segments s2 = segments ?s1" for s2 :: gateway_spool_v2
    using that g(1) rs by (simp add: seg_entry_def)
  show thesis
  proof (cases "p = []")
    case True
    have "scan_one_segment index final_segment previous s =
        (GATEWAY_OK, if rs = [] then previous else last_seq rs, ?fin ?s1)"
      using g(2) fits len valid count entries sf(1,2) smooth_calls(2) [OF out] True upd [of ?s1]
      by (simp add: scan_one_segment_def open_segment_fd_def Let_def)
    then show thesis
      by (rule that) (use s v ok True in \<open>auto simp: same_core_def holds_def smooth_def\<close>)
  next
    case torn: False
    then have fin: "final_segment" using assms(4) by simp
    have cut: "resize (length rs * ?E) (rec_bytes rs @ p) = rec_bytes rs"
      using ok by (simp add: resize_def)
    obtain c d where t: "sys_ftruncate ino (length rs * ?E) (io s) = (c, d)" by (metis surj_pair)
    have "c" "outcomes d = []" "names d = names (io s)"
      using t smooth_calls(1) [OF out] out by (auto simp: sys_ftruncate_def set_content_def)
    note tv = sys_ftruncate_view [OF t s(2) v, unfolded cut]
    have sm: "smooth (?s1\<lparr>io := d\<rparr>)" using s(1) \<open>outcomes d = []\<close> by (simp add: smooth_def)
    obtain s2 where y: "sync_descriptor (Sync_file ino) GATEWAY_SPOOL_FAULT_SEGMENT_SYNC (?s1\<lparr>io := d\<rparr>) =
        (GATEWAY_OK, s2)" "smooth s2"
      using smooth_sync [OF sm] by blast
    note yf = sync_descriptor_frame [OF y(1)]
    have out2: "outcomes (io s2) = []" using y(2) by (simp add: smooth_def)
    let ?s3 = "s2\<lparr>tail_recoveries := tail_recoveries s2 + 1\<rparr>"
    have segs: "segments ?s3 = segments ?s1" "physical_bytes ?s3 = physical_bytes s"
      using yf(1) by (simp_all add: same_core_def)
    have ne: "length rs * ?E \<noteq> length (rec_bytes rs @ p)" using torn len by simp
    have "scan_one_segment index final_segment previous s =
        (GATEWAY_OK, if rs = [] then previous else last_seq rs, ?fin ?s3)"
      using g(2) fits len valid count entries sf(1,2) smooth_calls(2) [OF out2] fin ne t \<open>c\<close> y(1) upd [OF segs(1)] segs(2)
      by (simp add: scan_one_segment_def open_segment_fd_def Let_def)
    then show thesis
      by (rule that)
        (use y(2) yf tv \<open>c\<close> ok in \<open>auto simp: same_core_def holds_def smooth_def\<close>)
  qed
qed

subsection \<open>The whole table\<close>

text \<open>The files of the segments \<open>lo\<close> to \<open>hi - 1\<close> hold the records \<open>L\<close>: a run of full segments, and
  the write segment, which alone may end in a torn entry.\<close>

definition files_hold :: "gateway_spool_v2 \<Rightarrow> (nat \<Rightarrow> telemetry_record list) \<Rightarrow> nat \<Rightarrow> nat \<Rightarrow> bool" where
  "files_hold s L lo hi \<longleftrightarrow>
     (\<forall>n\<in>{lo..<hi}. \<exists>p. file_holds (io s) n (L n) p \<and> (n \<noteq> write_segment s \<longrightarrow> p = []) \<and>
        length (rec_bytes (L n) @ p) \<le> segment_bytes s)"

definition log_size :: "(nat \<Rightarrow> telemetry_record list) \<Rightarrow> nat \<Rightarrow> nat \<Rightarrow> nat" where
  "log_size L lo hi = sum_list (map (\<lambda>n. length (L n) * GATEWAY_SPOOL_ENTRY_SIZE) [lo..<hi])"

lemma half_scanned:
  assumes "lo \<le> m" and "m < hi"
  shows "(map (seg_entry L) [lo..<m] @ map new_segment [m..<hi]) ! (m - lo) = new_segment m"
    and "(map (seg_entry L) [lo..<m] @ map new_segment [m..<hi])[m - lo := seg_entry L m] =
      map (seg_entry L) [lo..<Suc m] @ map new_segment [Suc m..<hi]"
    and "m - lo < length (map (seg_entry L) [lo..<m] @ map new_segment [m..<hi])"
    and "lo < m \<Longrightarrow> (map (seg_entry L) [lo..<Suc m] @ gs) ! (m - lo - 1) = seg_entry L (m - 1)"
    and "(map (seg_entry L) [lo..<Suc m] @ gs) ! (m - lo) = seg_entry L m"
proof -
  have "[m..<hi] = m # [Suc m..<hi]" using assms(2) by (simp add: upt_conv_Cons)
  then show "(map (seg_entry L) [lo..<m] @ map new_segment [m..<hi])[m - lo := seg_entry L m] =
      map (seg_entry L) [lo..<Suc m] @ map new_segment [Suc m..<hi]"
    using assms(1) by (simp add: list_update_append)
qed (use assms in \<open>simp_all add: nth_append\<close>)

lemma scan_segments_result:
  assumes "lo \<le> m" and "m \<le> hi" and "smooth s" and "disk_wf (io s)"
    and "segments s = map (seg_entry L) [lo..<m] @ map new_segment [m..<hi]"
    and "files_hold s L m hi" and "lo = ack_segment s"
    and "hi = write_segment s \<or> hi = Suc (write_segment s)" and "hi \<le> Suc u64_max"
    and full: "\<forall>n\<in>{lo..<write_segment s}. length (L n) * GATEWAY_SPOOL_ENTRY_SIZE = segment_bytes s"
    and ord: "in_order (concat (map L [lo..<hi]))" "\<forall>r\<in>set (concat (map L [lo..<hi])). gateway_seq r \<noteq> 0"
    and last: "before = last_seq (concat (map L [lo..<m]))"
  shows "\<exists>s'. scan_segments [m - lo..<hi - lo] before before before s =
      (GATEWAY_OK, last_seq (concat (map L [lo..<hi])), last_seq (concat (map L [lo..<hi])), s') \<and>
    smooth s' \<and> disk_wf (io s') \<and> generation s' = generation s \<and>
    same_core s' (s\<lparr>segments := map (seg_entry L) [lo..<hi],
      physical_bytes := physical_bytes s + log_size L m hi\<rparr>) \<and>
    (\<forall>n\<in>{m..<hi}. holds (io s') n (L n)) \<and>
    (\<forall>name. name \<notin> segment_name ` {m..<hi} \<longrightarrow> view (io s') name = view (io s) name)"
  using assms
proof (induction "hi - m" arbitrary: m s before)
  case 0
  then show ?case by (intro exI [of _ s]) (simp add: same_core_def log_size_def)
next
  case (Suc k)
  let ?w = "write_segment s"
  let ?log = "\<lambda>m. concat (map L [lo..<m])"
  have m: "m < hi" using Suc.hyps(2) by linarith
  note hs = half_scanned [OF Suc.prems(1) m, of L]
  have split: "?log hi = ?log m @ L m @ concat (map L [Suc m..<hi])"
  proof -
    have "[lo..<hi] = [lo..<m] @ m # [Suc m..<hi]"
      using Suc.prems(1) m upt_add_eq_append [of lo m "hi - m"] by (simp add: upt_conv_Cons)
    then show ?thesis by simp
  qed
  have snoc: "?log (Suc m) = ?log m @ L m" using Suc.prems(1) by simp
  have "m \<in> {m..<hi}" using m by simp
  then obtain p where p: "file_holds (io s) m (L m) p" "m \<noteq> ?w \<longrightarrow> p = []"
      "length (rec_bytes (L m) @ p) \<le> segment_bytes s"
    using Suc.prems(6) unfolding files_hold_def by blast
  let ?final = "m - lo + 1 = length (segments s) \<and> seg_number (segments s ! (m - lo)) = ?w"
  have fin: "?final \<or> p = []"
    using p(2) Suc.prems(1,5,8) m hs(1) by (cases "m = ?w") auto
  have inm: "in_order (L m)" "\<forall>r\<in>set (L m). before < gateway_seq r"
    using Suc.prems(11,12) in_order_last [of "?log m" "L m @ concat (map L [Suc m..<hi])"]
    unfolding split by (auto simp: in_order_append Suc.prems(13))
  have here: "m - lo < length (segments s)" "segments s ! (m - lo) = new_segment m"
    unfolding Suc.prems(5) by (rule hs(3), rule hs(1))
  obtain s1 where one: "scan_one_segment (m - lo) ?final before s =
        (GATEWAY_OK, if L m = [] then before else last_seq (L m), s1)"
      "smooth s1" "disk_wf (io s1)" "generation s1 = generation s"
      "same_core s1 (s\<lparr>segments := (segments s)[m - lo := seg_entry L m],
         physical_bytes := physical_bytes s + length (L m) * GATEWAY_SPOOL_ENTRY_SIZE\<rparr>)"
      "holds (io s1) m (L m)" "\<And>name. name \<noteq> segment_name m \<Longrightarrow> view (io s1) name = view (io s) name"
    by (rule scan_one_result [where L = L and n = m and rs = "L m", OF Suc.prems(3,4) p(1) fin here p(3) inm refl]) blast
  have segs1: "segments s1 = map (seg_entry L) [lo..<Suc m] @ map new_segment [Suc m..<hi]"
    using one(5) hs(2) Suc.prems(5) by (simp add: same_core_def)
  have same: "ack_segment s1 = ack_segment s" "write_segment s1 = ?w" "segment_bytes s1 = segment_bytes s"
      "physical_bytes s1 = physical_bytes s + length (L m) * GATEWAY_SPOOL_ENTRY_SIZE"
    using one(5) by (simp_all add: same_core_def)
  note at = hs(4,5) [of "map new_segment [Suc m..<hi]", folded segs1]
  have prev: "(if L m = [] then before else last_seq (L m)) = last_seq (?log (Suc m))"
    unfolding snoc Suc.prems(13) by (simp add: last_seq_append)
  have nz: "last_seq (L m) = 0 \<longleftrightarrow> L m = []"
    using Suc.prems(12) unfolding split by (auto simp: last_seq_def)
  have chk: "check_segment (m - lo) s1"
    using Suc.prems(1,7,8,10) m at by (cases "m = lo") (auto simp: check_segment_def same Let_def)
  have step: "scan_segments [m - lo..<hi - lo] before before before s =
      scan_segments [Suc m - lo..<hi - lo] (last_seq (?log (Suc m))) (last_seq (?log (Suc m)))
        (last_seq (?log (Suc m))) s1"
  proof -
    have "[m - lo..<hi - lo] = (m - lo) # [Suc m - lo..<hi - lo]"
      using Suc.prems(1) m by (simp add: upt_conv_Cons Suc_diff_le)
    then show ?thesis
      using one(1) chk at(2) Suc.prems(1,7) same nz prev
      by (cases "L m = []") (simp_all del: upt_Suc upt.simps add: Let_def)
  qed
  have names: "segment_name n \<noteq> segment_name m" if "n \<in> {Suc m..<hi}" for n
    using segment_name_inject [of n m] that Suc.prems(9) m by auto
  have files: "files_hold s1 L (Suc m) hi"
    unfolding files_hold_def
  proof
    fix n assume n: "n \<in> {Suc m..<hi}"
    then have "n \<in> {m..<hi}" by simp
    then obtain q where "file_holds (io s) n (L n) q" "n \<noteq> ?w \<longrightarrow> q = []"
        "length (rec_bytes (L n) @ q) \<le> segment_bytes s"
      using Suc.prems(6) unfolding files_hold_def by blast
    then show "\<exists>p. file_holds (io s1) n (L n) p \<and> (n \<noteq> write_segment s1 \<longrightarrow> p = []) \<and>
        length (rec_bytes (L n) @ p) \<le> segment_bytes s1"
      using one(7) names [OF n] by (auto simp: file_holds_def same)
  qed
  have "k = hi - Suc m" using Suc.hyps(2) by simp
  from Suc.hyps(1) [OF this _ _ one(2,3) segs1 files _ _ Suc.prems(9) _ Suc.prems(11,12) refl]
  obtain s' where ih: "scan_segments [Suc m - lo..<hi - lo] (last_seq (?log (Suc m)))
        (last_seq (?log (Suc m))) (last_seq (?log (Suc m))) s1 =
        (GATEWAY_OK, last_seq (?log hi), last_seq (?log hi), s')"
      "smooth s'" "disk_wf (io s')" "generation s' = generation s1"
      "same_core s' (s1\<lparr>segments := map (seg_entry L) [lo..<hi],
         physical_bytes := physical_bytes s1 + log_size L (Suc m) hi\<rparr>)"
      "\<forall>n\<in>{Suc m..<hi}. holds (io s') n (L n)"
      "\<forall>name. name \<notin> segment_name ` {Suc m..<hi} \<longrightarrow> view (io s') name = view (io s1) name"
    using Suc.prems(1,7,8,10) m by (auto simp: same)
  have size: "log_size L m hi = length (L m) * GATEWAY_SPOOL_ENTRY_SIZE + log_size L (Suc m) hi"
    using m by (simp add: log_size_def upt_conv_Cons)
  have "holds (io s') n (L n)" if "n \<in> {m..<hi}" for n
  proof (cases "n = m")
    case True
    have "segment_name m \<notin> segment_name ` {Suc m..<hi}" using names by fastforce
    then show ?thesis using ih(7) one(6) True holds_view [of "io s'" m "io s1"] by simp
  qed (use ih(6) that in auto)
  moreover have "view (io s') name = view (io s) name" if "name \<notin> segment_name ` {m..<hi}" for name
  proof -
    have "name \<noteq> segment_name m" "name \<notin> segment_name ` {Suc m..<hi}" using that m by auto
    then show ?thesis using ih(7) one(7) by simp
  qed
  ultimately show ?case
    using ih one(4,5) step size by (intro exI [of _ s']) (simp add: same_core_def)
qed

end
