(* ===== verification/Spool_V2_Reopen.thy ===== *)
theory Spool_V2_Reopen
  imports Spool_V2_Scan
begin

text \<open>
  Opening the segmented spool on a directory that an earlier process left behind. When no call
  fails, \<open>gateway_spool_v2_open\<close> returns a spool whose queue is the records behind the cursor of the state
  file, whatever was written after that state file: appended records are taken in, a torn
  entry is cut off, a left-over temporary file is removed.
\<close>

subsection \<open>Listing the directory\<close>

definition listed :: "string list \<Rightarrow> nat list" where
  "listed ns = List.map_filter parse_segment_name ns"

lemma listed_simps [simp]:
  "listed [] = []"
  "listed (x # xs) = (case parse_segment_name x of None \<Rightarrow> listed xs | Some n \<Rightarrow> n # listed xs)"
  by (simp_all add: listed_def map_filter_simps split: option.split)

lemma set_listed: "set (listed ns) = {n. segment_name n \<in> set ns \<and> 0 < n \<and> n \<le> u64_max}"
proof (induction ns)
  case (Cons x xs)
  show ?case
  proof (cases "parse_segment_name x")
    case None
    then have "\<not> (x = segment_name n \<and> 0 < n \<and> n \<le> u64_max)" for n using parse_segment_name by auto
    then show ?thesis using Cons None by auto
  next
    case (Some n)
    then show ?thesis
      using Cons parse_segment_nameD [OF Some] segment_name_inject [of _ n] by auto
  qed
qed simp

lemma distinct_listed:
  assumes "distinct ns"
  shows "distinct (listed ns)"
  using assms
proof (induction ns)
  case (Cons x xs)
  then show ?case
    using parse_segment_nameD [of x] by (auto simp: set_listed split: option.split)
qed simp

definition book_names :: "string set" where
  "book_names = {''lock'', ''state.v2'', ''state.v2.tmp''}"

lemma book_names_no_segment:
  "name \<in> book_names \<Longrightarrow> parse_segment_name name = None" "segment_name n \<notin> book_names"
  by (auto simp: book_names_def parse_segment_name_def)

lemma smooth_add_segment:
  assumes "smooth s" and "length (segments s) < 67108864"
  shows "\<exists>cap. add_segment n s =
    (GATEWAY_OK, s\<lparr>segments := segments s @ [new_segment n], segment_capacity := cap\<rparr>)"
proof (cases "length (segments s) = segment_capacity s")
  case True
  let ?cap = "if segment_capacity s = 0 then 8 else segment_capacity s * 2"
  have "sys_call (io s) = (True, io s)" using assms(1) smooth_calls(1) by (simp add: smooth_def)
  moreover have "\<not> (?cap < segment_capacity s \<or> ?cap > size_max div 32)"
    using assms(2) True by (simp add: size_max_def)
  ultimately show ?thesis
    using True by (intro exI [of _ ?cap]) (simp add: add_segment_def Let_def)
next
  case False
  then show ?thesis
    by (intro exI [of _ "segment_capacity s"]) (simp add: add_segment_def)
qed

lemma inspect_names_smooth:
  assumes "smooth s" and "\<forall>name\<in>set ns. name \<in> book_names \<or> parse_segment_name name \<noteq> None"
    and "length (segments s) + length ns \<le> 67108864"
  shows "\<exists>cap. inspect_names ns st tmp s =
    (GATEWAY_OK, st \<or> ''state.v2'' \<in> set ns, tmp \<or> ''state.v2.tmp'' \<in> set ns,
     s\<lparr>segments := segments s @ map new_segment (listed ns), segment_capacity := cap\<rparr>)"
  using assms
proof (induction ns arbitrary: st tmp s)
  case Nil
  then show ?case
    using smooth_calls(1,2) [of "io s"]
    by (intro exI [of _ "segment_capacity s"]) (simp add: smooth_def)
next
  case (Cons x xs)
  have call: "sys_call (io s) = (True, io s)" using Cons.prems(1) smooth_calls(1) by (simp add: smooth_def)
  show ?case
  proof (cases "x \<in> book_names")
    case True
    then show ?thesis
      using Cons.IH [OF Cons.prems(1), of st tmp] Cons.IH [OF Cons.prems(1), of True tmp]
        Cons.IH [OF Cons.prems(1), of st True] Cons.prems(2,3) call book_names_no_segment(1) [OF True]
      by (auto simp: book_names_def)
  next
    case False
    then obtain n where n: "parse_segment_name x = Some n" using Cons.prems(2) by auto
    note x = parse_segment_nameD(1) [OF n]
    obtain cap where a: "add_segment n s =
        (GATEWAY_OK, s\<lparr>segments := segments s @ [new_segment n], segment_capacity := cap\<rparr>)"
      using smooth_add_segment [OF Cons.prems(1)] Cons.prems(3) by fastforce
    let ?s1 = "s\<lparr>segments := segments s @ [new_segment n], segment_capacity := cap\<rparr>"
    have "smooth ?s1" using Cons.prems(1) by simp
    from Cons.IH [OF this, of st tmp] obtain cap2 where
      "inspect_names xs st tmp ?s1 = (GATEWAY_OK, st \<or> ''state.v2'' \<in> set xs, tmp \<or> ''state.v2.tmp'' \<in> set xs,
         ?s1\<lparr>segments := segments ?s1 @ map new_segment (listed xs), segment_capacity := cap2\<rparr>)"
      using Cons.prems(2,3) by auto
    then show ?thesis
      using call a n x by (intro exI [of _ cap2]) simp
  qed
qed

lemma sort_new_segments: "sort_key seg_number (map new_segment ns) = map new_segment (sort ns)"
proof -
  have "insort_key seg_number (new_segment n) (map new_segment ms) = map new_segment (insort n ms)" for n ms
    by (induction ms) simp_all
  then show ?thesis by (induction ns) simp_all
qed

lemma adjacent_distinct: "distinct (map seg_number gs) \<Longrightarrow> \<not> adjacent_duplicate gs"
  by (induction gs rule: adjacent_duplicate.induct) auto

lemma inspect_directory_smooth:
  assumes "smooth s" and "disk_wf (io s)" and "segments s = []"
    and names: "\<And>name. view (io s) name \<noteq> None \<Longrightarrow> name \<in> book_names \<or> name \<in> segment_name ` {lo..<hi}"
    and files: "\<And>n. n \<in> {lo..<hi} \<Longrightarrow> view (io s) (segment_name n) \<noteq> None"
    and "0 < lo" and "hi \<le> Suc u64_max" and small: "hi - lo + 3 \<le> 67108864"
  shows "\<exists>cap. inspect_directory s =
    (GATEWAY_OK, view (io s) ''state.v2'' \<noteq> None, view (io s) ''state.v2.tmp'' \<noteq> None,
     s\<lparr>segments := map new_segment [lo..<hi], segment_capacity := cap\<rparr>)"
proof -
  let ?ns = "map fst (names (io s))"
  have out: "outcomes (io s) = []" using assms(1) by (simp add: smooth_def)
  note call = smooth_calls(1,2) [OF out]
  have mem: "name \<in> set ?ns \<longleftrightarrow> view (io s) name \<noteq> None" for name
    by (simp add: view_def map_of_eq_None_iff)
  have dist: "distinct ?ns" using assms(2) by (simp add: disk_wf_def)
  have parse: "parse_segment_name (segment_name n) = Some n" if "n \<in> {lo..<hi}" for n
    using that assms(6,7) by (intro parse_segment_name) auto
  have known: "\<forall>name\<in>set ?ns. name \<in> book_names \<or> parse_segment_name name \<noteq> None"
  proof
    fix name assume "name \<in> set ?ns"
    then have "name \<in> book_names \<or> name \<in> segment_name ` {lo..<hi}"
      using names mem by blast
    then show "name \<in> book_names \<or> parse_segment_name name \<noteq> None" using parse by auto
  qed
  have "set ?ns \<subseteq> book_names \<union> segment_name ` {lo..<hi}" using names mem by blast
  then have "card (set ?ns) \<le> card (book_names \<union> segment_name ` {lo..<hi})"
    by (intro card_mono) (simp_all add: book_names_def)
  also have "\<dots> \<le> card book_names + card (segment_name ` {lo..<hi})" by (rule card_Un_le)
  also have "\<dots> \<le> 3 + (hi - lo)"
    using card_image_le [of "{lo..<hi}" segment_name] by (simp add: book_names_def)
  finally have "length ?ns \<le> 3 + (hi - lo)" unfolding distinct_card [OF dist] .
  then have len: "length (segments s) + length ?ns \<le> 67108864"
    using small assms(3) by (simp del: length_map)
  obtain cap where ins: "inspect_names ?ns False False s =
      (GATEWAY_OK, ''state.v2'' \<in> set ?ns, ''state.v2.tmp'' \<in> set ?ns,
       s\<lparr>segments := map new_segment (listed ?ns), segment_capacity := cap\<rparr>)"
    using inspect_names_smooth [OF assms(1) known len, of False False] assms(3) by auto
  have "set (listed ?ns) = {lo..<hi}"
  proof (intro set_eqI iffI)
    fix n assume "n \<in> set (listed ?ns)"
    then have n: "view (io s) (segment_name n) \<noteq> None" "n \<le> u64_max" unfolding set_listed mem by auto
    then obtain m where "m \<in> {lo..<hi}" "segment_name n = segment_name m"
      using names [OF n(1)] book_names_no_segment(2) [of n] by auto
    then show "n \<in> {lo..<hi}" using segment_name_inject [of n m] n(2) assms(7) by auto
  next
    fix n assume n: "n \<in> {lo..<hi}"
    have "0 < n" "n \<le> u64_max" using n assms(6,7) by auto
    then show "n \<in> set (listed ?ns)" using files [OF n] unfolding set_listed mem by simp
  qed
  then have "sort (listed ?ns) = [lo..<hi]"
    using distinct_listed [OF dist] by (intro sorted_distinct_set_unique) simp_all
  then have sorted: "sort_key seg_number (map new_segment (listed ?ns)) = map new_segment [lo..<hi]"
    by (simp add: sort_new_segments)
  have short: "map new_segment (listed ?ns) = map new_segment [lo..<hi]" if "\<not> 1 < length (listed ?ns)"
  proof -
    have "sort (listed ?ns) = listed ?ns" using that by (cases "listed ?ns" rule: remdups_adj.cases) auto
    then show ?thesis using \<open>sort (listed ?ns) = [lo..<hi]\<close> by simp
  qed
  have "\<not> adjacent_duplicate (map new_segment [lo..<hi])"
    by (rule adjacent_distinct) (simp add: comp_def)
  then show ?thesis
    unfolding inspect_directory_def Let_def call prod.case
    using ins call sorted short unfolding mem
    by (intro exI [of _ cap]) (simp add: Let_def sort_segments_def call)
qed

subsection \<open>What was left behind\<close>

text \<open>All records of the segments from the acknowledge cursor on, and those behind the cursor.\<close>

definition all_log :: "gateway_spool_v2 \<Rightarrow> (nat \<Rightarrow> telemetry_record list) \<Rightarrow> telemetry_record list" where
  "all_log t L = concat (map L [ack_segment t..<Suc (write_segment t)])"

definition behind :: "gateway_spool_v2 \<Rightarrow> (nat \<Rightarrow> telemetry_record list) \<Rightarrow> telemetry_record list" where
  "behind t L = drop (ack_offset t div GATEWAY_SPOOL_ENTRY_SIZE) (all_log t L)"

text \<open>The state \<open>t\<close> that was saved last fits the records \<open>L\<close> in the segments up to \<open>hi\<close>: they are
  those of the state and what was appended after it, below the fence.\<close>

definition saved_ok :: "gateway_spool_v2 \<Rightarrow> nat \<Rightarrow> (nat \<Rightarrow> telemetry_record list) \<Rightarrow> bool" where
  "saved_ok t hi L \<longleftrightarrow>
     options_ok t \<and> 0 < ack_segment t \<and> ack_segment t \<le> write_segment t \<and> write_segment t \<le> u64_max \<and>
     (hi = write_segment t \<or> hi = Suc (write_segment t)) \<and> hi - ack_segment t + 3 \<le> 67108864 \<and>
     0 < next_batch_seq t \<and> next_batch_seq t \<le> u64_max \<and>
     (\<forall>n\<in>{ack_segment t..<write_segment t}. length (L n) = segment_records t) \<and>
     length (L (write_segment t)) < segment_records t \<and> (\<forall>n. n \<notin> {ack_segment t..<hi} \<longrightarrow> L n = []) \<and>
     GATEWAY_SPOOL_ENTRY_SIZE dvd ack_offset t \<and>
     ack_offset t \<le> length (L (ack_segment t)) * GATEWAY_SPOOL_ENTRY_SIZE \<and>
     GATEWAY_SPOOL_ENTRY_SIZE dvd write_offset t \<and>
     write_offset t \<le> length (L (write_segment t)) * GATEWAY_SPOOL_ENTRY_SIZE \<and>
     last_acked_seq t \<le> last_allocated_seq t \<and> last_allocated_seq t \<le> sequence_fence t \<and>
     in_order (all_log t L) \<and> (\<forall>r\<in>set (all_log t L). rec_ok r \<and> gateway_seq r \<le> sequence_fence t) \<and>
     (write_offset t = length (L (write_segment t)) * GATEWAY_SPOOL_ENTRY_SIZE \<longrightarrow>
        (\<forall>r\<in>set (all_log t L). gateway_seq r \<le> last_allocated_seq t)) \<and>
     (ack_offset t \<noteq> 0 \<longrightarrow>
        gateway_seq (L (ack_segment t) ! (ack_offset t div GATEWAY_SPOOL_ENTRY_SIZE - 1)) = last_acked_seq t) \<and>
     (\<forall>r\<in>set (behind t L). last_acked_seq t < gateway_seq r) \<and>
     length (all_log t L) * GATEWAY_SPOOL_ENTRY_SIZE \<le> max_bytes (options t)"

definition left_behind ::
    "disk \<Rightarrow> gateway_spool_v2 \<Rightarrow> nat \<Rightarrow> nat \<Rightarrow> (nat \<Rightarrow> telemetry_record list) \<Rightarrow> bool" where
  "left_behind d t gen hi L \<longleftrightarrow>
     disk_wf d \<and> (\<exists>ino. view d ''state.v2'' = Some (ino, encode_state t gen)) \<and> 0 < gen \<and> gen < u64_max \<and>
     (\<forall>name. view d name \<noteq> None \<longrightarrow> name \<in> book_names \<or> name \<in> segment_name ` {ack_segment t..<hi}) \<and>
     (\<forall>n\<in>{ack_segment t..<hi}. \<exists>p. file_holds d n (L n) p \<and> (n \<noteq> write_segment t \<longrightarrow> p = []))"

text \<open>The state after a successful open, apart from the bookkeeping fields.\<close>

definition restored :: "gateway_spool_v2 \<Rightarrow> nat \<Rightarrow> (nat \<Rightarrow> telemetry_record list) \<Rightarrow> disk \<Rightarrow> gateway_spool_v2" where
  "restored t hi L d = (fresh_spool (options t) (segment_records t) GATEWAY_SPOOL_FAULT_NONE d)
     \<lparr>last_allocated_seq :=
        (if write_offset t < length (L (write_segment t)) * GATEWAY_SPOOL_ENTRY_SIZE
         then last_seq (L (write_segment t)) else last_allocated_seq t),
      sequence_fence := sequence_fence t, last_acked_seq := last_acked_seq t,
      next_batch_seq := next_batch_seq t, ack_segment := ack_segment t, ack_offset := ack_offset t,
      write_segment := write_segment t,
      write_offset := length (L (write_segment t)) * GATEWAY_SPOOL_ENTRY_SIZE,
      segments := map (seg_entry L) [ack_segment t..<hi],
      physical_bytes := log_size L (ack_segment t) hi\<rparr>"

lemma restored_fields [simp]:
  "options (restored t hi L d) = options t" "segment_records (restored t hi L d) = segment_records t"
  "segment_bytes (restored t hi L d) = segment_records t * GATEWAY_SPOOL_ENTRY_SIZE"
  "sequence_fence (restored t hi L d) = sequence_fence t"
  "last_acked_seq (restored t hi L d) = last_acked_seq t"
  "next_batch_seq (restored t hi L d) = next_batch_seq t"
  "ack_segment (restored t hi L d) = ack_segment t" "ack_offset (restored t hi L d) = ack_offset t"
  "write_segment (restored t hi L d) = write_segment t"
  "write_offset (restored t hi L d) = length (L (write_segment t)) * GATEWAY_SPOOL_ENTRY_SIZE"
  "segments (restored t hi L d) = map (seg_entry L) [ack_segment t..<hi]"
  "physical_bytes (restored t hi L d) = log_size L (ack_segment t) hi"
  "unsynced_records (restored t hi L d) = 0" "segment_fd (restored t hi L d) = None"
  "batch_prepared (restored t hi L d) = False" "failed (restored t hi L d) = False"
  "io (restored t hi L d) = d"
  by (simp_all add: restored_def fresh_spool_def)

lemma all_log_hi:
  assumes "saved_ok t hi L"
  shows "all_log t L = concat (map L [ack_segment t..<hi])"
proof (cases "hi = Suc (write_segment t)")
  case False
  then have "hi = write_segment t" "L (write_segment t) = []" using assms by (auto simp: saved_ok_def)
  then show ?thesis using assms by (simp add: all_log_def saved_ok_def)
qed (simp add: all_log_def)

lemma log_size_length: "log_size L lo hi = length (concat (map L [lo..<hi])) * GATEWAY_SPOOL_ENTRY_SIZE"
  unfolding log_size_def by (induction hi) (simp_all add: add_mult_distrib)

lemma behind_split:
  assumes "saved_ok t hi L"
  shows "behind t L = drop (ack_offset t div GATEWAY_SPOOL_ENTRY_SIZE) (L (ack_segment t)) @
    concat (map L [Suc (ack_segment t)..<Suc (write_segment t)])"
proof -
  have le: "ack_segment t \<le> write_segment t" using assms by (simp add: saved_ok_def)
  have "ack_offset t div GATEWAY_SPOOL_ENTRY_SIZE \<le> length (L (ack_segment t))"
    using assms by (auto simp: saved_ok_def elim!: dvdE)
  then show ?thesis using le by (simp add: behind_def all_log_def upt_conv_Cons del: upt_Suc)
qed

lemma restored_inv:
  assumes ok: "saved_ok t hi L" and wf: "disk_wf d" and files: "\<forall>n\<in>{ack_segment t..<hi}. holds d n (L n)"
  shows "spool_inv (restored t hi L d)" and "pend (restored t hi L d) = behind t L"
proof -
  let ?s = "restored t hi L d"
  have nums: "numbers ?s = {ack_segment t..<hi}" by (simp add: numbers_def image_image)
  have log: "seg_log ?s = L"
  proof
    fix n
    show "seg_log ?s n = L n"
      using files holds_stored [of d n "L n"] ok by (auto simp: seg_log_def nums saved_ok_def)
  qed
  have recs: "records_from ?s n off = drop (off div GATEWAY_SPOOL_ENTRY_SIZE) (L n) @
      concat (map L [Suc n..<Suc (write_segment t)])" for n off
    by (simp add: records_from_def log)
  show pend: "pend ?s = behind t L" unfolding pend_def recs behind_split [OF ok] by simp
  have sub: "set (behind t L) \<subseteq> set (all_log t L)" unfolding behind_def by (rule set_drop_subset)
  have alloc: "gateway_seq r \<le> last_allocated_seq ?s" if r: "r \<in> set (all_log t L)" for r
  proof (cases "write_offset t < length (L (write_segment t)) * GATEWAY_SPOOL_ENTRY_SIZE")
    case True
    then have "L (write_segment t) \<noteq> []" by auto
    moreover have "all_log t L = concat (map L [ack_segment t..<write_segment t]) @ L (write_segment t)"
      using ok by (simp add: all_log_def saved_ok_def)
    ultimately have "last_seq (all_log t L) = last_seq (L (write_segment t))" by (simp add: last_seq_append)
    then show ?thesis
      using True last_seq_max [of "all_log t L", OF _ r] ok by (simp add: restored_def saved_ok_def)
  qed (use r ok in \<open>simp add: restored_def saved_ok_def\<close>)
  have fence: "last_allocated_seq ?s \<le> sequence_fence t"
  proof (cases "write_offset t < length (L (write_segment t)) * GATEWAY_SPOOL_ENTRY_SIZE")
    case True
    then have "L (write_segment t) \<noteq> []" by auto
    then have "last (L (write_segment t)) \<in> set (all_log t L)" "last_seq (L (write_segment t)) = gateway_seq (last (L (write_segment t)))"
      using ok by (auto simp: all_log_def saved_ok_def last_seq_def)
    then show ?thesis using True ok by (simp add: restored_def saved_ok_def)
  qed (use ok in \<open>simp add: restored_def saved_ok_def\<close>)
  have acked: "last_acked_seq t \<le> last_allocated_seq ?s"
  proof (cases "write_offset t < length (L (write_segment t)) * GATEWAY_SPOOL_ENTRY_SIZE")
    case False
    then show ?thesis using ok by (simp add: restored_def saved_ok_def)
  next
    case True
    show ?thesis
    proof (cases "behind t L = []")
      case False
      then obtain r where "r \<in> set (behind t L)" by (cases "behind t L") auto
      then have "last_acked_seq t < gateway_seq r" "gateway_seq r \<le> last_allocated_seq ?s"
        using ok sub alloc by (auto simp: saved_ok_def)
      then show ?thesis by simp
    next
      case empty: True
      then have w: "L (write_segment t) = [] \<or> write_segment t = ack_segment t"
        unfolding behind_split [OF ok] using ok by (auto simp: saved_ok_def)
      have ne: "L (write_segment t) \<noteq> []" using True by auto
      then have same: "write_segment t = ack_segment t" using w by simp
      obtain k where k: "ack_offset t = k * GATEWAY_SPOOL_ENTRY_SIZE"
        using ok by (auto simp: saved_ok_def mult.commute elim!: dvdE)
      have "length (L (ack_segment t)) \<le> k" using empty k unfolding behind_split [OF ok] by simp
      then have "0 < k" using ne same by (cases k) auto
      then have "gateway_seq (L (ack_segment t) ! (k - 1)) = last_acked_seq t"
        using ok k by (simp add: saved_ok_def)
      moreover have "k \<le> length (L (ack_segment t))" using ok k by (simp add: saved_ok_def)
      then have "k - 1 < length (L (ack_segment t))" using \<open>0 < k\<close> by linarith
      then have "L (ack_segment t) ! (k - 1) \<in> set (L (ack_segment t))" by simp
      then have "L (ack_segment t) ! (k - 1) \<in> set (all_log t L)"
        using same unfolding all_log_def by (simp add: same)
      ultimately show ?thesis using alloc by metis
    qed
  qed
  have "in_order (all_log t L)" using ok by (simp add: saved_ok_def)
  then have "in_order (behind t L)" unfolding in_order_def behind_def by (rule sorted_wrt_drop)
  moreover have "\<forall>r\<in>set (behind t L). last_acked_seq t < gateway_seq r" using ok by (simp add: saved_ok_def)
  moreover have "\<forall>r\<in>set (behind t L). gateway_seq r \<le> last_allocated_seq ?s" using sub alloc by blast
  moreover have "0 < next_batch_seq t \<and> next_batch_seq t \<le> u64_max" using ok by (simp add: saved_ok_def)
  ultimately have "sequences_ok ?s"
    using fence acked unfolding sequences_ok_def pend by (simp add: in_order_def)
  moreover have "table_ok ?s"
    unfolding table_ok_def log
  proof (intro conjI)
    show "\<exists>lo h. map seg_number (segments ?s) = [lo..<h] \<and> 0 < lo \<and> lo \<le> ack_segment ?s \<and>
        (h = write_segment ?s \<or> h = Suc (write_segment ?s))"
      using ok by (intro exI [of _ "ack_segment t"] exI [of _ hi]) (simp add: saved_ok_def comp_def)
  qed (use ok in \<open>simp_all add: saved_ok_def\<close>)
  moreover have "\<forall>g\<in>set (segments ?s). segment_ok ?s g"
    using files by (simp add: segment_ok_def log last_seq_def)
  moreover have "bytes_ok ?s"
    using ok all_log_hi [OF ok] log_size_length [of L "ack_segment t" hi]
    by (simp add: bytes_ok_def saved_ok_def) (simp add: log_size_def comp_def)
  moreover have "options_ok ?s" using ok by (simp add: options_ok_def saved_ok_def)
  moreover have "cursor_ok ?s (ack_segment ?s) (ack_offset ?s)"
    using ok by (simp add: cursor_ok_def log saved_ok_def)
  ultimately show "spool_inv ?s"
    using wf ok
    by (simp add: spool_inv_def wide_inv_def prepared_ok_def descriptor_ok_def saved_ok_def)
qed

end
