(* ===== verification/Spool_V2_Restart.thy ===== *)
theory Spool_V2_Restart
  imports Spool_V2_Reopen
begin

text \<open>
  The steps of \<open>gateway_spool_v2_open\<close> on the files that an earlier process left behind, when no call
  fails, and their result: a well-formed spool with the queue behind the saved cursor.
\<close>

subsection \<open>Lock, temporary file and state file\<close>

definition untouched :: "gateway_spool_v2 \<Rightarrow> gateway_spool_v2 \<Rightarrow> bool" where
  "untouched s s' \<longleftrightarrow> smooth s' \<and> same_core s' s \<and> disk_wf (io s') \<and>
     (\<forall>name. name \<noteq> ''lock'' \<and> name \<noteq> ''state.v2.tmp'' \<longrightarrow> view (io s') name = view (io s) name)"

lemma untouched_trans: "untouched a b \<Longrightarrow> untouched b c \<Longrightarrow> untouched a c"
  by (auto simp: untouched_def intro: same_core_trans)

lemma untouched_take_lock:
  assumes "smooth s" and "disk_wf (io s)"
  shows "\<exists>s'. take_lock s = (GATEWAY_OK, s') \<and> untouched s s' \<and>
    view (io s') ''state.v2.tmp'' = view (io s) ''state.v2.tmp''"
proof -
  obtain r d where o: "sys_open_create ''lock'' (io s) = (r, d)" by (metis surj_pair)
  note ov = sys_open_create_view [OF o assms(2)]
  obtain s' where t: "take_lock s = (GATEWAY_OK, s')" "smooth s'" using smooth_take_lock [OF assms(1)] by blast
  obtain ok d2 where c: "sys_call d = (ok, d2)" by (metis surj_pair)
  have "s' = s\<lparr>lock_fd := r, io := d2\<rparr>"
    using t(1) o c by (auto simp: take_lock_def Let_def split: option.split_asm if_split_asm)
  then show ?thesis
    using t ov sys_call_view [OF c] by (intro exI [of _ s']) (simp add: untouched_def same_core_def)
qed

lemma untouched_sync_directory:
  assumes "smooth s" and "disk_wf (io s)"
  shows "\<exists>s'. sync_directory s = (GATEWAY_OK, s') \<and> untouched s s' \<and>
    view (io s') ''state.v2.tmp'' = view (io s) ''state.v2.tmp''"
proof -
  obtain s' where "sync_directory s = (GATEWAY_OK, s')" "smooth s'"
    using smooth_sync_directory [OF assms(1)] by blast
  then show ?thesis using sync_directory_frame assms(2) by (auto simp: untouched_def)
qed

lemma untouched_remove_stale:
  assumes "smooth s" and "disk_wf (io s)"
  shows "\<exists>s'. remove_stale_tmp (view (io s) ''state.v2.tmp'' \<noteq> None) s = (GATEWAY_OK, s') \<and> untouched s s'"
proof (cases "view (io s) ''state.v2.tmp''")
  case None
  then show ?thesis
    using assms by (intro exI [of _ s]) (simp add: remove_stale_tmp_def untouched_def)
next
  case (Some f)
  have out: "outcomes (io s) = []" using assms(1) by (simp add: smooth_def)
  obtain ok d where u: "sys_unlink ''state.v2.tmp'' (io s) = (ok, d)" by (metis surj_pair)
  have ok: "ok" "outcomes d = []"
    using u Some smooth_calls(1) [OF out] out
    by (auto simp: sys_unlink_def view_def split: if_split_asm)
  note uv = sys_unlink_view [OF u assms(2)]
  have "smooth (s\<lparr>io := d\<rparr>)" "disk_wf (io (s\<lparr>io := d\<rparr>))" using assms ok uv by (simp_all add: smooth_def)
  from untouched_sync_directory [OF this] obtain s' where
    "sync_directory (s\<lparr>io := d\<rparr>) = (GATEWAY_OK, s')" "untouched (s\<lparr>io := d\<rparr>) s'" by blast
  then show ?thesis
    using Some u ok uv by (intro exI [of _ s']) (simp add: remove_stale_tmp_def untouched_def same_core_def)
qed

lemma load_v2_state_smooth:
  assumes "smooth s" and "disk_wf (io s)" and "view (io s) ''state.v2'' = Some (ino, encode_state t gen)"
    and "cursors_fit t" and "gen \<le> u64_max" and "0 < gen" and "segment_records s = segment_records t"
    and "0 < next_batch_seq t" "0 < ack_segment t" "ack_segment t \<le> write_segment t"
    and "GATEWAY_SPOOL_ENTRY_SIZE dvd ack_offset t" "GATEWAY_SPOOL_ENTRY_SIZE dvd write_offset t"
    and "ack_offset t \<le> segment_bytes s" "write_offset t \<le> segment_bytes s"
    and "last_acked_seq t \<le> last_allocated_seq t" "last_allocated_seq t \<le> sequence_fence t"
  shows "load_state s = (GATEWAY_OK, set_state_fields (encode_state t gen) s)"
proof -
  let ?img = "encode_state t gen"
  have out: "outcomes (io s) = []" using assms(1) by (simp add: smooth_def)
  note sf = smooth_file [OF out assms(2,3)]
  have rd: "read_exact ino V2_STATE_SIZE 0 (io s) = (Inr ?img, io s)"
    using sf(3) [of 0 V2_STATE_SIZE] by simp
  note sc = set_state_fields_encode [OF assms(4,5), of s]
  have keep: "segment_bytes (set_state_fields ?img s) = segment_bytes s"
      "segment_records (set_state_fields ?img s) = segment_records s"
    by (simp_all add: set_state_fields_def)
  have "unat (get_u64 (drop 88 ?img)) = segment_records t"
    using assms(4) by (simp add: state_reads cursors_fit_def unat_of_nat_u64)
  then have "\<not> state_fields_invalid ?img (set_state_fields ?img s)"
    using sc assms(6-) by (simp add: state_fields_invalid_def same_cursors_def keep not_less)
  then show ?thesis
    using sf(1,2) rd smooth_calls(1,2) [OF out] encode_state_valid [of t gen]
    by (simp add: load_state_def Let_def)
qed

subsection \<open>Validation\<close>

lemma find_entry:
  assumes "segments s = map (seg_entry L) [lo..<hi]"
  shows "find_segment n s = (if n \<in> {lo..<hi} then Some (seg_entry L n) else None)"
proof (cases "find_segment n s")
  case None
  then show ?thesis using find_segment_iff(1) [of n s] by (simp add: numbers_def assms image_image)
next
  case (Some g)
  then show ?thesis using find_segment_iff(2) [OF Some] by (auto simp: assms)
qed

lemma read_record_smooth:
  assumes "smooth s" and "disk_wf (io s)" and "holds (io s) n rs" and "i < length rs"
  shows "read_record_at n (i * GATEWAY_SPOOL_ENTRY_SIZE) s = (Inr (rs ! i), s)"
proof -
  obtain ino where v: "view (io s) (segment_name n) = Some (ino, rec_bytes rs)" and ok: "\<forall>r\<in>set rs. rec_ok r"
    using assms(3) by (auto simp: holds_def)
  have out: "outcomes (io s) = []" using assms(1) by (simp add: smooth_def)
  have "Suc i * GATEWAY_SPOOL_ENTRY_SIZE \<le> length rs * GATEWAY_SPOOL_ENTRY_SIZE"
    using assms(4) by (intro mult_le_mono1) simp
  then have "i * GATEWAY_SPOOL_ENTRY_SIZE + GATEWAY_SPOOL_ENTRY_SIZE \<le> length (rec_bytes rs)" using ok by simp
  then show ?thesis
    using smooth_file [OF out assms(2) v] smooth_calls(2) [OF out] decode_window [OF ok assms(4)]
    by (simp add: read_record_at_def open_segment_fd_def)
qed

lemma sync_recovered_smooth:
  assumes "smooth s" and "disk_wf (io s)" and "view (io s) (segment_name n) \<noteq> None"
  shows "\<exists>s'. sync_recovered_segment n s = (GATEWAY_OK, s') \<and> smooth s' \<and> same_core s' s \<and>
    disk_wf (io s') \<and> view (io s') = view (io s) \<and> generation s' = generation s"
proof -
  obtain ino c where v: "view (io s) (segment_name n) = Some (ino, c)" using assms(3) by auto
  have out: "outcomes (io s) = []" using assms(1) by (simp add: smooth_def)
  obtain s1 where y: "sync_descriptor (Sync_file ino) GATEWAY_SPOOL_FAULT_SEGMENT_SYNC s = (GATEWAY_OK, s1)"
      "smooth s1" using smooth_sync [OF assms(1)] by blast
  have "sys_close (io s1) = (True, io s1)" using y(2) smooth_calls(2) by (simp add: smooth_def)
  then show ?thesis
    using smooth_file(1) [OF out assms(2) v] y sync_descriptor_frame [OF y(1)] assms(2)
    by (intro exI [of _ s1]) (simp add: sync_recovered_segment_def open_segment_fd_def)
qed

lemma reclaim_none:
  "\<forall>g\<in>set gs. ack_segment s \<le> seg_number g \<Longrightarrow> reclaim_loop kept gs removed s = (GATEWAY_OK, kept @ gs, removed, s)"
  by (induction gs arbitrary: kept) auto

lemma remove_none:
  assumes "\<forall>g\<in>set (segments s). ack_segment s \<le> seg_number g"
  shows "remove_reclaimed_segments s = (GATEWAY_OK, s)"
  using reclaim_none [OF assms, of "[]" False] by (simp add: remove_reclaimed_segments_def)

text \<open>The state after the state file has been read and before the scan.\<close>

definition loaded :: "gateway_spool_v2 \<Rightarrow> nat \<Rightarrow> disk \<Rightarrow> gateway_spool_v2" where
  "loaded t hi d = (fresh_spool (options t) (segment_records t) GATEWAY_SPOOL_FAULT_NONE d)
     \<lparr>last_allocated_seq := last_allocated_seq t, sequence_fence := sequence_fence t,
      last_acked_seq := last_acked_seq t, next_batch_seq := next_batch_seq t,
      ack_segment := ack_segment t, ack_offset := ack_offset t,
      write_segment := write_segment t, write_offset := write_offset t,
      segments := map new_segment [ack_segment t..<hi]\<rparr>"

text \<open>A state that holds the records in its files, agrees with \<open>a\<close> in everything that matters, and
  has the other files of \<open>d\<close>.\<close>

definition settled ::
    "gateway_spool_v2 \<Rightarrow> (nat \<Rightarrow> telemetry_record list) \<Rightarrow> nat set \<Rightarrow> nat \<Rightarrow> disk \<Rightarrow> gateway_spool_v2 \<Rightarrow> bool" where
  "settled a L ns gen d s \<longleftrightarrow> smooth s \<and> disk_wf (io s) \<and> generation s = gen \<and> same_core s a \<and>
     (\<forall>n\<in>ns. holds (io s) n (L n)) \<and>
     (\<forall>name. name \<notin> segment_name ` ns \<longrightarrow> view (io s) name = view d name)"

lemma acked_in_log:
  assumes "saved_ok t hi L" and "all_log t L \<noteq> []"
  shows "last_acked_seq t \<le> last_seq (all_log t L)"
proof -
  obtain k where k: "ack_offset t = k * GATEWAY_SPOOL_ENTRY_SIZE"
    using assms(1) by (auto simp: saved_ok_def mult.commute elim!: dvdE)
  have ord: "in_order (all_log t L)" using assms(1) by (simp add: saved_ok_def)
  show ?thesis
  proof (cases "k = 0")
    case True
    then have "last (all_log t L) \<in> set (behind t L)" using assms(2) k by (simp add: behind_def)
    then have "last_acked_seq t < gateway_seq (last (all_log t L))" using assms(1) by (simp add: saved_ok_def)
    then show ?thesis using assms(2) by (simp add: last_seq_def)
  next
    case False
    then have acked: "gateway_seq (L (ack_segment t) ! (k - 1)) = last_acked_seq t"
      using assms(1) k by (simp add: saved_ok_def)
    have "k \<le> length (L (ack_segment t))" using assms(1) k by (simp add: saved_ok_def)
    then have "k - 1 < length (L (ack_segment t))" using False by linarith
    then have m: "L (ack_segment t) ! (k - 1) \<in> set (L (ack_segment t))" by simp
    have "ack_segment t \<le> write_segment t" using assms(1) by (simp add: saved_ok_def)
    then have "ack_segment t \<in> set [ack_segment t..<Suc (write_segment t)]" by auto
    then have "set (L (ack_segment t)) \<subseteq> set (all_log t L)" unfolding all_log_def set_concat set_map by blast
    then have "L (ack_segment t) ! (k - 1) \<in> set (all_log t L)" using m by blast
    from last_seq_max [OF ord this] show ?thesis unfolding acked .
  qed
qed

lemma check_ack_smooth:
  assumes ok: "saved_ok t hi L" and s: "settled a L {ack_segment t..<hi} gen e s"
    and "ack_segment s = ack_segment t" "ack_offset s = ack_offset t" "last_acked_seq s = last_acked_seq t"
    and "write_segment s = write_segment t"
  shows "check_ack (if ack_segment t \<in> {ack_segment t..<hi} then Some (seg_entry L (ack_segment t)) else None) s =
    (GATEWAY_OK, s)"
proof (cases "ack_segment t < hi")
  case False
  then show ?thesis using ok assms(3,6) by (auto simp: check_ack_def saved_ok_def)
next
  case True
  obtain k where k: "ack_offset t = k * GATEWAY_SPOOL_ENTRY_SIZE"
    using ok by (auto simp: saved_ok_def mult.commute elim!: dvdE)
  have le: "k \<le> length (L (ack_segment t))" using ok k by (simp add: saved_ok_def)
  show ?thesis
  proof (cases "k = 0")
    case False
    then have "k - 1 < length (L (ack_segment t))" using le by linarith
    moreover have "smooth s" "disk_wf (io s)" "holds (io s) (ack_segment t) (L (ack_segment t))"
      using s True by (simp_all add: settled_def)
    ultimately have "read_record_at (ack_segment t) ((k - 1) * GATEWAY_SPOOL_ENTRY_SIZE) s =
        (Inr (L (ack_segment t) ! (k - 1)), s)" by (intro read_record_smooth)
    moreover have "(k - 1) * GATEWAY_SPOOL_ENTRY_SIZE = k * GATEWAY_SPOOL_ENTRY_SIZE - GATEWAY_SPOOL_ENTRY_SIZE"
      by (simp add: diff_mult_distrib)
    moreover have "gateway_seq (L (ack_segment t) ! (k - 1)) = last_acked_seq t"
      using ok k False by (simp add: saved_ok_def)
    ultimately show ?thesis using True False k le assms(3-5) by (simp add: check_ack_def)
  qed (use True k assms(3,4) in \<open>simp add: check_ack_def\<close>)
qed

lemma settled_core:
  assumes "settled a L ns gen e s" and "same_core a b"
  shows "settled b L ns gen e s"
  using assms same_core_trans by (auto simp: settled_def)

text \<open>The write cursor moves to the end of what is in the file.\<close>

lemma reconcile_smooth:
  assumes ok: "saved_ok t hi L" and s: "settled ((loaded t hi d)\<lparr>segments := map (seg_entry L) [ack_segment t..<hi],
      physical_bytes := log_size L (ack_segment t) hi\<rparr>) L {ack_segment t..<hi} gen e s"
  obtains flag s' where "reconcile_write s = (GATEWAY_OK, flag, s')"
    "settled (restored t hi L d) L {ack_segment t..<hi} gen e s'"
proof -
  let ?w = "write_segment t"
  let ?size = "length (L ?w) * GATEWAY_SPOOL_ENTRY_SIZE"
  have core: "segments s = map (seg_entry L) [ack_segment t..<hi]" "write_segment s = ?w"
      "write_offset s = write_offset t" "sequence_fence s = sequence_fence t"
      "segment_bytes s = segment_records t * GATEWAY_SPOOL_ENTRY_SIZE"
    using s by (simp_all add: settled_def same_core_def loaded_def fresh_spool_def)
  have here: "?w \<in> {ack_segment t..<hi} \<longleftrightarrow> hi = Suc ?w" using ok by (auto simp: saved_ok_def)
  note fe = find_entry [OF core(1), of ?w, unfolded here]
  have le: "write_offset t \<le> ?size" using ok by (simp add: saved_ok_def)
  show thesis
  proof (cases "write_offset t < ?size")
    case False
    then have eq: "write_offset t = ?size" using le by simp
    have "hi \<noteq> Suc ?w \<Longrightarrow> L ?w = []" using ok by (auto simp: saved_ok_def)
    then have "reconcile_write s = (GATEWAY_OK, False, s)"
      using fe eq core by (auto simp: reconcile_write_def)
    moreover have "settled (restored t hi L d) L {ack_segment t..<hi} gen e s"
      by (rule settled_core [OF s]) (simp add: same_core_def loaded_def restored_def fresh_spool_def eq)
    ultimately show thesis by (rule that)
  next
    case True
    then have ne: "L ?w \<noteq> []" by auto
    then have hi: "hi = Suc ?w" using ok by (auto simp: saved_ok_def)
    have len: "length (L ?w) < segment_records t" using ok by (simp add: saved_ok_def)
    have "last (L ?w) \<in> set (all_log t L)"
      using ok ne by (auto simp: all_log_def saved_ok_def)
    then have fence: "last_seq (L ?w) \<le> sequence_fence t" using ok ne by (simp add: saved_ok_def last_seq_def)
    have "?w \<in> {ack_segment t..<hi}" using here hi by simp
    then have "holds (io s) ?w (L ?w)" using s by (simp add: settled_def)
    then have "smooth s" "disk_wf (io s)" "view (io s) (segment_name ?w) \<noteq> None"
      using s by (auto simp: settled_def holds_def)
    from sync_recovered_smooth [OF this] obtain s2 where y:
      "sync_recovered_segment ?w s = (GATEWAY_OK, s2)" "smooth s2" "same_core s2 s"
      "disk_wf (io s2)" "view (io s2) = view (io s)" "generation s2 = generation s" by blast
    let ?s3 = "s2\<lparr>write_offset := ?size, last_allocated_seq := last_seq (L ?w)\<rparr>"
    have "segment_bytes s2 = segment_records t * GATEWAY_SPOOL_ENTRY_SIZE"
      using y(3) core(5) by (simp add: same_core_def)
    then have "reconcile_write s = (GATEWAY_OK, True, ?s3)"
      using fe hi core True fence y(1) len by (simp add: reconcile_write_def not_less)
    moreover have "settled (restored t hi L d) L {ack_segment t..<hi} gen e ?s3"
      using y s True
      by (auto simp: settled_def same_core_def loaded_def restored_def fresh_spool_def smooth_def holds_def)
    ultimately show thesis by (rule that)
  qed
qed

text \<open>The state file is the one that was read, or it has been replaced by the current state.\<close>

definition state_current :: "gateway_spool_v2 \<Rightarrow> gateway_spool_v2 \<Rightarrow> nat \<Rightarrow> bool" where
  "state_current s t gen \<longleftrightarrow>
     (\<exists>ino. generation s = gen \<and> view (io s) ''state.v2'' = Some (ino, encode_state t gen) \<or>
       generation s = gen + 1 \<and> view (io s) ''state.v2'' = Some (ino, encode_state s (gen + 1)))"

definition other_files :: "gateway_spool_v2 \<Rightarrow> nat set \<Rightarrow> disk \<Rightarrow> bool" where
  "other_files s ns d \<longleftrightarrow>
     (\<forall>name. name \<notin> book_names \<and> name \<notin> segment_name ` ns \<longrightarrow> view (io s) name = view d name)"

lemma persist_settled:
  assumes st: "settled a L ns gen e s" and gen: "gen \<noteq> u64_max"
  shows "\<exists>s'. persist_state (s\<lparr>state_recoveries := k\<rparr>) = (GATEWAY_OK, s') \<and> disk_wf (io s') \<and>
    same_core s' a \<and> (\<forall>n\<in>ns. holds (io s') n (L n)) \<and> state_current s' t gen \<and> other_files s' ns e"
proof -
  let ?s = "s\<lparr>state_recoveries := k\<rparr>"
  have "smooth ?s" "generation ?s \<noteq> u64_max" using st gen by (simp_all add: settled_def)
  from persist_smooth [OF this] obtain s' where p: "persist_state ?s = (GATEWAY_OK, s')" by blast
  have wf: "disk_wf (io ?s)" using st by (simp add: settled_def)
  note q = quiet_persist [OF p wf]
  have r: "replaces_state ?s GATEWAY_OK s'" by (rule persist_state_frame [OF p wf])
  have core: "same_core s' s" using q by (simp add: quiet_def same_core_def)
  then have "same_core s' a" using st same_core_trans by (auto simp: settled_def)
  moreover have "holds (io s') n (L n)" if "n \<in> ns" for n
    using q that st holds_view [of "io s'" n "io s"] by (simp add: quiet_def settled_def)
  moreover have "encode_state ?s (gen + 1) = encode_state s' (gen + 1)"
    using core by (simp add: encode_state_def state_fields_def same_core_def)
  then have "state_current s' t gen"
    using r st by (auto simp: replaces_state_def state_current_def settled_def)
  moreover have "other_files s' ns e"
    using r st by (simp add: replaces_state_def other_files_def settled_def state_files_def book_names_def)
  ultimately show ?thesis
    using p q wf by (intro exI [of _ s']) (simp add: quiet_def)
qed

lemma validate_smooth:
  assumes ok: "saved_ok t hi L" and s: "smooth s" "disk_wf (io s)" "generation s \<noteq> u64_max"
    and core: "same_core s (loaded t hi d)"
    and st: "view (io s) ''state.v2'' = Some (ino, encode_state t (generation s))"
    and files: "\<forall>n\<in>{ack_segment t..<hi}. \<exists>p. file_holds (io s) n (L n) p \<and> (n \<noteq> write_segment t \<longrightarrow> p = [])"
  obtains s' where "validate_and_scan s = (GATEWAY_OK, s')" "disk_wf (io s')"
    "same_core s' (restored t hi L d)" "\<forall>n\<in>{ack_segment t..<hi}. holds (io s') n (L n)"
    "state_current s' t (generation s)" "other_files s' {ack_segment t..<hi} (io s)"
proof -
  let ?a = "ack_segment t" and ?w = "write_segment t"
  have c: "segments s = map new_segment [?a..<hi]" "ack_segment s = ?a" "write_segment s = ?w"
      "segment_bytes s = segment_records t * GATEWAY_SPOOL_ENTRY_SIZE" "physical_bytes s = 0"
    using core by (simp_all add: same_core_def loaded_def fresh_spool_def)
  have le: "?a \<le> hi" "hi = ?w \<or> hi = Suc ?w" "hi \<le> Suc u64_max" using ok by (auto simp: saved_ok_def)
  have recs: "\<forall>r\<in>set (all_log t L). rec_ok r" using ok by (simp add: saved_ok_def)
  have fits: "length (rec_bytes (L n) @ p) \<le> segment_records t * GATEWAY_SPOOL_ENTRY_SIZE"
    if n: "n \<in> {?a..<hi}" and p: "file_holds (io s) n (L n) p" "n \<noteq> ?w \<longrightarrow> p = []" for n p
  proof -
    have len: "length (rec_bytes (L n) @ p) = length (L n) * GATEWAY_SPOOL_ENTRY_SIZE + length p"
        "length p < GATEWAY_SPOOL_ENTRY_SIZE"
      using p(1) by (simp_all add: file_holds_def)
    show ?thesis
    proof (cases "n = ?w")
      case True
      then have "Suc (length (L n)) * GATEWAY_SPOOL_ENTRY_SIZE \<le> segment_records t * GATEWAY_SPOOL_ENTRY_SIZE"
        using ok by (intro mult_le_mono1) (simp add: saved_ok_def)
      then show ?thesis using len by simp
    next
      case False
      then have "n \<in> {?a..<?w}" using n le(2) by auto
      then have "length (L n) = segment_records t" using ok by (simp add: saved_ok_def)
      then show ?thesis using len(1) p(2) False by simp
    qed
  qed
  have fh: "files_hold s L ?a hi"
    unfolding files_hold_def
  proof
    fix n assume n: "n \<in> {?a..<hi}"
    then obtain p where "file_holds (io s) n (L n) p" "n \<noteq> ?w \<longrightarrow> p = []" using files by blast
    then show "\<exists>p. file_holds (io s) n (L n) p \<and> (n \<noteq> write_segment s \<longrightarrow> p = []) \<and>
        length (rec_bytes (L n) @ p) \<le> segment_bytes s"
      using fits [OF n] c by auto
  qed
  have full: "\<forall>n\<in>{?a..<write_segment s}. length (L n) * GATEWAY_SPOOL_ENTRY_SIZE = segment_bytes s"
    using ok c by (simp add: saved_ok_def)
  have ord: "in_order (concat (map L [?a..<hi]))" "\<forall>r\<in>set (concat (map L [?a..<hi])). gateway_seq r \<noteq> 0"
    using ok recs unfolding all_log_hi [OF ok, symmetric] by (simp_all add: saved_ok_def rec_ok_def)
  have segs: "segments s = map (seg_entry L) [?a..<?a] @ map new_segment [?a..<hi]" using c(1) by simp
  have zero: "0 = last_seq (concat (map L [?a..<?a]))" by (simp add: last_seq_def)
  obtain s1 where sc: "scan_segments [?a - ?a..<hi - ?a] 0 0 0 s =
        (GATEWAY_OK, last_seq (all_log t L), last_seq (all_log t L), s1)"
      "smooth s1" "disk_wf (io s1)" "generation s1 = generation s"
      "same_core s1 (s\<lparr>segments := map (seg_entry L) [?a..<hi], physical_bytes := physical_bytes s + log_size L ?a hi\<rparr>)"
      "\<forall>n\<in>{?a..<hi}. holds (io s1) n (L n)"
      "\<forall>name. name \<notin> segment_name ` {?a..<hi} \<longrightarrow> view (io s1) name = view (io s) name"
    using scan_segments_result [OF order_refl le(1) s(1,2) segs fh c(2)[symmetric] _ le(3) full ord zero] le(2) c(3)
    unfolding all_log_hi [OF ok] by auto
  have s1: "settled ((loaded t hi d)\<lparr>segments := map (seg_entry L) [?a..<hi],
      physical_bytes := log_size L ?a hi\<rparr>) L {?a..<hi} (generation s) (io s) s1"
    using sc s(3) core c(5) by (simp add: settled_def same_core_def)
  have find1: "find_segment (ack_segment s1) s1 = (if ?a \<in> {?a..<hi} then Some (seg_entry L ?a) else None)"
    using find_entry [of s1 L ?a hi ?a] s1 by (simp add: settled_def same_core_def loaded_def)
  obtain flag s2 where rc: "reconcile_write s1 = (GATEWAY_OK, flag, s2)"
      "settled (restored t hi L d) L {?a..<hi} (generation s) (io s) s2"
    using reconcile_smooth [OF ok s1] by metis
  have core2: "ack_segment s2 = ?a" "ack_offset s2 = ack_offset t" "last_acked_seq s2 = last_acked_seq t"
      "write_segment s2 = ?w" "sequence_fence s2 = sequence_fence t"
    using rc(2) by (simp_all add: settled_def same_core_def)
  note ca = check_ack_smooth [OF ok rc(2) core2(1-4)]
  have fence: "last_seq (all_log t L) \<le> sequence_fence t"
    using ok by (simp add: last_seq_def saved_ok_def)
  then have no1: "(last_seq (all_log t L) > sequence_fence t) = False" by (simp only: not_less [symmetric])
  have no2: "(last_seq (all_log t L) \<noteq> 0 \<and> last_seq (all_log t L) < last_acked_seq t) = False"
    using acked_in_log [OF ok] by (auto simp: last_seq_def dest: leD)
  have body: "validate_and_scan s =
      (if flag then persist_state (s2\<lparr>state_recoveries := state_recoveries s2 + 1\<rparr>) else (GATEWAY_OK, s2))"
    using sc(1) rc(1) ca find1 c(1)
    by (simp add: validate_and_scan_def Let_def core2 no1 no2)
  show thesis
  proof (cases flag)
    case False
    have "''state.v2'' \<notin> segment_name ` {?a..<hi}" by auto
    then have "state_current s2 t (generation s)" "other_files s2 {?a..<hi} (io s)"
      using rc(2) st by (simp_all add: settled_def state_current_def other_files_def)
    then show thesis using False body rc(2) by (intro that [of s2]) (simp_all add: settled_def)
  next
    case True
    then show thesis
      using body persist_settled [OF rc(2) s(3), of "state_recoveries s2 + 1" t] by (auto intro: that)
  qed
qed

subsection \<open>Opening\<close>

lemma loaded_core:
  assumes "same_core s ((fresh_spool (options t) (segment_records t) GATEWAY_SPOOL_FAULT_NONE d)
      \<lparr>segments := map new_segment [ack_segment t..<hi]\<rparr>)"
    and "cursors_fit t" and "gen \<le> u64_max"
  shows "same_core (set_state_fields (encode_state t gen) s) (loaded t hi d)"
  using assms(1) set_state_fields_encode [OF assms(2,3), of s]
  by (simp add: same_core_def loaded_def same_cursors_def fresh_spool_def) (simp add: set_state_fields_def)

text \<open>What the process that opened the spool finds in memory and on the disk.\<close>

definition reopened ::
    "disk \<Rightarrow> gateway_spool_v2 \<Rightarrow> nat \<Rightarrow> nat \<Rightarrow> (nat \<Rightarrow> telemetry_record list) \<Rightarrow> gateway_spool_v2 \<Rightarrow> bool" where
  "reopened d t gen hi L s \<longleftrightarrow> same_core s (restored t hi L d) \<and> disk_wf (io s) \<and>
     (\<forall>n\<in>{ack_segment t..<hi}. holds (io s) n (L n)) \<and> state_current s t gen \<and>
     other_files s {ack_segment t..<hi} d"

lemma reopen_result:
  assumes left: "left_behind d t gen hi L" and ok: "saved_ok t hi L" and path: "path_ok path"
    and calls: "outcomes d = []" "directory_status d = Path_directory"
  shows "\<exists>s'. gateway_spool_v2_open True (Some path) (Some (options t)) (segment_records t)
      GATEWAY_SPOOL_FAULT_NONE d = (GATEWAY_OK, Some s', io s') \<and> reopened d t gen hi L s'"
proof -
  let ?a = "ack_segment t"
  let ?s0 = "fresh_spool (options t) (segment_records t) GATEWAY_SPOOL_FAULT_NONE d"
  let ?s1 = "?s0\<lparr>directory := path, directory_fd := True\<rparr>"
  obtain ino where wf: "disk_wf d" and st: "view d ''state.v2'' = Some (ino, encode_state t gen)"
    and gen: "0 < gen" "gen < u64_max" using left by (auto simp: left_behind_def)
  have opts: "options_valid (options t) (segment_records t)"
      "segment_bytes t = segment_records t * GATEWAY_SPOOL_ENTRY_SIZE"
    using ok by (simp_all add: saved_ok_def options_ok_def)
  have s0: "smooth ?s0" "io ?s0 = d" "segments ?s0 = []" using calls by (simp_all add: smooth_def fresh_spool_def)
  have ed: "ensure_directory path ?s0 = (GATEWAY_OK, ?s1)"
    by (rule smooth_ensure_directory) (use s0 calls path in simp_all)
  have s1: "smooth ?s1" "disk_wf (io ?s1)" "segments ?s1 = []" "io ?s1 = d" using s0 wf by simp_all
  have seen: "view (io ?s1) name \<noteq> None \<Longrightarrow> name \<in> book_names \<or> name \<in> segment_name ` {?a..<hi}" for name
    using left s1(4) by (simp add: left_behind_def)
  have files: "n \<in> {?a..<hi} \<Longrightarrow> view (io ?s1) (segment_name n) \<noteq> None" for n
    using left s1(4) by (fastforce simp: left_behind_def file_holds_def)
  have num: "0 < ?a" "hi \<le> Suc u64_max" "hi - ?a + 3 \<le> 67108864" using ok by (auto simp: saved_ok_def)
  obtain cap where ins: "inspect_directory ?s1 = (GATEWAY_OK, view d ''state.v2'' \<noteq> None,
      view d ''state.v2.tmp'' \<noteq> None, ?s1\<lparr>segments := map new_segment [?a..<hi], segment_capacity := cap\<rparr>)"
    using inspect_directory_smooth [OF s1(1-3) seen files num] s1(4) by auto
  let ?s2 = "?s1\<lparr>segments := map new_segment [?a..<hi], segment_capacity := cap\<rparr>"
  have s2: "smooth ?s2" "disk_wf (io ?s2)" "io ?s2 = d" using s1 by simp_all
  obtain s3 where tl: "take_lock ?s2 = (GATEWAY_OK, s3)" "untouched ?s2 s3"
      "view (io s3) ''state.v2.tmp'' = view d ''state.v2.tmp''"
    using untouched_take_lock [OF s2(1,2)] s2(3) by auto
  then have s3: "smooth s3" "disk_wf (io s3)" by (simp_all add: untouched_def)
  obtain s4 where sd: "sync_directory s3 = (GATEWAY_OK, s4)" "untouched s3 s4"
      "view (io s4) ''state.v2.tmp'' = view d ''state.v2.tmp''"
    using untouched_sync_directory [OF s3] tl(3) by auto
  then have s4: "smooth s4" "disk_wf (io s4)" by (simp_all add: untouched_def)
  obtain s5 where rm: "remove_stale_tmp (view d ''state.v2.tmp'' \<noteq> None) s4 = (GATEWAY_OK, s5)" "untouched s4 s5"
    using untouched_remove_stale [OF s4] sd(3) by auto
  have untouched: "untouched ?s2 s5" using untouched_trans [OF untouched_trans [OF tl(2) sd(2)] rm(2)] .
  then have s5: "smooth s5" "disk_wf (io s5)" "same_core s5 ?s2"
      "view (io s5) ''state.v2'' = Some (ino, encode_state t gen)"
      "\<And>n. view (io s5) (segment_name n) = view d (segment_name n)"
    using s2(3) st by (simp_all add: untouched_def)
  have core5: "same_core s5 (?s0\<lparr>segments := map new_segment [?a..<hi]\<rparr>)" using s5(3) by (simp add: same_core_def)
  then have rec5: "segment_records s5 = segment_records t" "segment_bytes s5 = segment_bytes t"
    using opts by (simp_all add: same_core_def fresh_spool_def)
  have "length (L ?a) \<le> segment_records t"
    using ok by (cases "?a = write_segment t") (auto simp: saved_ok_def)
  then have "length (L ?a) * GATEWAY_SPOOL_ENTRY_SIZE \<le> segment_bytes t" unfolding opts(2) by (rule mult_le_mono1)
  then have offs: "ack_offset t \<le> segment_bytes t" using ok unfolding saved_ok_def by linarith
  have "length (L (write_segment t)) * GATEWAY_SPOOL_ENTRY_SIZE \<le> segment_bytes t"
    unfolding opts(2) using ok by (intro mult_le_mono1) (simp add: saved_ok_def)
  then have woffs: "write_offset t \<le> segment_bytes t" using ok unfolding saved_ok_def by linarith
  have small: "segment_records t \<le> 65536" using opts(1) by (simp add: options_valid_def GATEWAY_SPOOL_V2_SEGMENT_RECORDS_def)
  then have "segment_bytes t \<le> 65536 * GATEWAY_SPOOL_ENTRY_SIZE" unfolding opts(2) by (rule mult_le_mono1)
  then have "segment_bytes t \<le> u64_max" by (simp add: u64_max_def GATEWAY_SPOOL_ENTRY_SIZE_def)
  then have fit: "cursors_fit t"
    using ok offs woffs small by (simp add: cursors_fit_def saved_ok_def u64_max_def)
  let ?s6 = "set_state_fields (encode_state t gen) s5"
  have ld: "load_state s5 = (GATEWAY_OK, ?s6)"
    by (rule load_v2_state_smooth [OF s5(1,2,4) fit]) (use gen rec5 ok offs woffs in \<open>simp_all add: saved_ok_def\<close>)
  have s6: "smooth ?s6" "disk_wf (io ?s6)" "io ?s6 = io s5" using s5 by (simp_all add: set_state_fields_def smooth_def)
  have gen6: "generation ?s6 \<noteq> u64_max" using set_state_fields_encode(2) [OF fit, of gen] gen by simp
  have core6: "same_core ?s6 (loaded t hi d)" using loaded_core [OF core5 fit, of gen] gen by simp
  have files6: "\<forall>n\<in>{?a..<hi}. \<exists>p. file_holds (io ?s6) n (L n) p \<and> (n \<noteq> write_segment t \<longrightarrow> p = [])"
    using left s5(5) s6(3) by (simp add: left_behind_def file_holds_def)
  have st6: "view (io ?s6) ''state.v2'' = Some (ino, encode_state t gen)" and gen6': "generation ?s6 = gen"
    using s5(4) s6(3) set_state_fields_encode(2) [OF fit, of gen] gen by simp_all
  note vs0 = validate_smooth [OF ok s6(1,2) gen6 core6 _ files6, unfolded gen6', OF st6]
  obtain s7 where vs: "validate_and_scan ?s6 = (GATEWAY_OK, s7)" "disk_wf (io s7)"
      "same_core s7 (restored t hi L d)" "\<forall>n\<in>{?a..<hi}. holds (io s7) n (L n)"
      "state_current s7 t gen" "other_files s7 {?a..<hi} (io ?s6)"
    by (rule vs0) blast
  have rr: "remove_reclaimed_segments s7 = (GATEWAY_OK, s7)"
    by (rule remove_none) (use vs(3) in \<open>simp add: same_core_def\<close>)
  have chain: "open_steps path ?s0 = (GATEWAY_OK, s7)"
    using ed ins tl(1) sd(1) rm(1) ld vs(1) rr st
    by (simp add: open_steps_def and_then_def first_or_load_state_def)
  have "other_files s7 {?a..<hi} d"
    using vs(6) untouched s2(3) unfolding s6(3) other_files_def untouched_def by (simp add: book_names_def)
  then have "reopened d t gen hi L s7" using vs by (simp add: reopened_def)
  moreover have "gateway_spool_v2_open True (Some path) (Some (options t)) (segment_records t)
      GATEWAY_SPOOL_FAULT_NONE d = (GATEWAY_OK, Some s7, io s7)"
    using chain opts(1) smooth_calls(1) [OF calls(1)] by (simp add: gateway_spool_v2_open_def)
  ultimately show ?thesis by blast
qed

lemma reopened_inv:
  assumes ok: "saved_ok t hi L" and s: "reopened d t gen hi L s"
  shows "spool_inv s" and "\<not> failed s" and "\<not> batch_prepared s" and "pend s = behind t L"
    and "next_batch_seq s = next_batch_seq t" and "last_acked_seq s = last_acked_seq t"
    and "sequence_fence s = sequence_fence t" and "options s = options t"
    and "segment_records s = segment_records t" and "seg_log s = L"
    and "gateway_spool_v2_last_gateway_seq s = sequence_fence t"
proof -
  have core: "same_core s (restored t hi L d)" using s by (simp add: reopened_def)
  have q: "quiet (restored t hi L (io s)) s"
    using s by (simp add: quiet_def same_core_def reopened_def) (simp add: restored_def fresh_spool_def)
  have files: "disk_wf (io s)" "\<forall>n\<in>{ack_segment t..<hi}. holds (io s) n (L n)"
    using s by (simp_all add: reopened_def)
  note ri = restored_inv [OF ok files]
  show "spool_inv s" by (rule quiet_spool_inv [OF q ri(1)])
  show "pend s = behind t L" unfolding quiet_pend [OF q] ri(2) ..
  show rest: "\<not> failed s" "\<not> batch_prepared s" "next_batch_seq s = next_batch_seq t"
      "last_acked_seq s = last_acked_seq t" "sequence_fence s = sequence_fence t" "options s = options t"
      "segment_records s = segment_records t"
    using core by (simp_all add: same_core_def)
  have "last_allocated_seq s \<le> sequence_fence s"
    using \<open>spool_inv s\<close> rest(1) by (simp add: spool_inv_def wide_inv_def sequences_ok_def)
  then show "gateway_spool_v2_last_gateway_seq s = sequence_fence t"
    using rest(5) by (auto simp: gateway_spool_v2_last_gateway_seq_def)
  have "numbers s = {ack_segment t..<hi}" using core by (simp add: numbers_def same_core_def image_image)
  then show "seg_log s = L"
    using files(2) holds_stored [of "io s"] ok by (auto simp: fun_eq_iff seg_log_def saved_ok_def)
qed

end
