(* ===== verification/Spool_V2_Saved.thy ===== *)
theory Spool_V2_Saved
  imports Spool_V2_Restart
begin

text \<open>
  What the operations of the segmented spool keep on disk for the next process: at every moment
  between two calls, the state file and the segment files together determine the queue. Each
  operation is shown to carry this on.
\<close>

subsection \<open>The invariant\<close>

definition whole :: "gateway_spool_v2 \<Rightarrow> telemetry_record list" where
  "whole s = all_log s (seg_log s)"

text \<open>Every file is one of the bookkeeping files or a segment of the table.\<close>

definition files_known :: "gateway_spool_v2 \<Rightarrow> bool" where
  "files_known s \<longleftrightarrow>
     (\<forall>name. view (io s) name \<noteq> None \<longrightarrow> name \<in> book_names \<or> name \<in> segment_name ` numbers s)"

lemma files_known_step:
  assumes "files_known s" and "numbers s \<subseteq> numbers s'"
    and "\<And>name. name \<notin> state_files \<Longrightarrow> view (io s') name \<noteq> None \<Longrightarrow>
      view (io s) name \<noteq> None \<or> name \<in> segment_name ` numbers s'"
  shows "files_known s'"
  unfolding files_known_def
proof (intro allI impI)
  fix name assume n: "view (io s') name \<noteq> None"
  have "state_files \<subseteq> book_names" by (simp add: state_files_def book_names_def)
  then show "name \<in> book_names \<or> name \<in> segment_name ` numbers s'"
    using assms(1,2) assms(3) [OF _ n] unfolding files_known_def by blast
qed

text \<open>The records of the table are in order, and the record in front of the cursor is the one
  acknowledged last.\<close>

definition log_kept :: "gateway_spool_v2 \<Rightarrow> bool" where
  "log_kept s \<longleftrightarrow> (\<forall>n\<in>numbers s. ack_segment s \<le> n) \<and> in_order (whole s) \<and>
     (\<forall>r\<in>set (whole s). gateway_seq r \<le> last_allocated_seq s) \<and>
     (let k = ack_offset s div GATEWAY_SPOOL_ENTRY_SIZE in
      0 < k \<longrightarrow> gateway_seq (whole s ! (k - 1)) = last_acked_seq s)"

text \<open>The state file holds the current cursors, but for the records appended since.\<close>

definition state_saved :: "gateway_spool_v2 \<Rightarrow> bool" where
  "state_saved s \<longleftrightarrow> 0 < generation s \<and> generation s \<le> u64_max \<and>
     (\<exists>ino written seq.
        view (io s) ''state.v2'' =
          Some (ino, encode_state (s\<lparr>write_offset := written, last_allocated_seq := seq\<rparr>) (generation s)) \<and>
        GATEWAY_SPOOL_ENTRY_SIZE dvd written \<and> written \<le> write_offset s \<and>
        last_acked_seq s \<le> seq \<and> seq \<le> sequence_fence s \<and>
        (written = write_offset s \<longrightarrow> seq = last_allocated_seq s))"

definition kept_for_restart :: "gateway_spool_v2 \<Rightarrow> bool" where
  "kept_for_restart s \<longleftrightarrow> files_known s \<and> log_kept s \<and> state_saved s"

text \<open>An operation carries the invariant on, the write cursor never goes back and the options stay.\<close>

definition carries :: "gateway_spool_v2 \<Rightarrow> gateway_spool_v2 \<Rightarrow> bool" where
  "carries s s' \<longleftrightarrow> write_segment s \<le> write_segment s' \<and> options s' = options s \<and>
     segment_records s' = segment_records s \<and> (kept_for_restart s \<longrightarrow> kept_for_restart s')"

lemma carries_refl [simp]: "carries s s"
  by (simp add: carries_def)

lemma carries_trans [trans]: "carries a b \<Longrightarrow> carries b c \<Longrightarrow> carries a c"
  by (simp add: carries_def)

subsection \<open>Steps that change nothing of it\<close>

definition same_saved :: "gateway_spool_v2 \<Rightarrow> gateway_spool_v2 \<Rightarrow> bool" where
  "same_saved a b \<longleftrightarrow> options a = options b \<and>
     segment_records a = segment_records b \<and> last_allocated_seq a = last_allocated_seq b \<and>
     sequence_fence a = sequence_fence b \<and> last_acked_seq a = last_acked_seq b \<and>
     next_batch_seq a = next_batch_seq b \<and> ack_segment a = ack_segment b \<and>
     ack_offset a = ack_offset b \<and> write_segment a = write_segment b \<and>
     write_offset a = write_offset b \<and> segments a = segments b \<and> generation a = generation b \<and>
     (\<forall>name. name \<noteq> ''state.v2.tmp'' \<longrightarrow> view (io a) name = view (io b) name)"

lemma same_saved_trans: "same_saved a b \<Longrightarrow> same_saved b c \<Longrightarrow> same_saved a c"
  by (simp add: same_saved_def)

lemma same_saved_core:
  "same_core a b \<Longrightarrow> generation a = generation b \<Longrightarrow> view (io a) = view (io b) \<Longrightarrow> same_saved a b"
  by (simp add: same_core_def same_saved_def)

lemma same_saved_log:
  assumes "same_saved a b"
  shows "numbers a = numbers b" and "seg_log a = seg_log b" and "whole a = whole b"
proof -
  show n: "numbers a = numbers b" using assms by (simp add: same_saved_def numbers_def)
  have "view (io a) (segment_name n) = view (io b) (segment_name n)" for n
    using assms by (simp add: same_saved_def)
  then show l: "seg_log a = seg_log b" by (simp add: seg_log_def n stored_def fun_eq_iff)
  show "whole a = whole b" using assms by (simp add: whole_def all_log_def l same_saved_def)
qed

lemma encode_state_fields:
  assumes "segment_records a = segment_records b" "last_allocated_seq a = last_allocated_seq b"
    "sequence_fence a = sequence_fence b" "last_acked_seq a = last_acked_seq b"
    "next_batch_seq a = next_batch_seq b" "ack_segment a = ack_segment b" "ack_offset a = ack_offset b"
    "write_segment a = write_segment b" "write_offset a = write_offset b"
  shows "encode_state a g = encode_state b g"
  using assms by (simp add: encode_state_def state_fields_def)

definition same_state :: "gateway_spool_v2 \<Rightarrow> gateway_spool_v2 \<Rightarrow> bool" where
  "same_state a b \<longleftrightarrow> options a = options b \<and>
     segment_records a = segment_records b \<and> sequence_fence a = sequence_fence b \<and>
     last_acked_seq a = last_acked_seq b \<and> next_batch_seq a = next_batch_seq b \<and>
     ack_segment a = ack_segment b \<and> ack_offset a = ack_offset b \<and>
     write_segment a = write_segment b \<and> generation a = generation b \<and>
     view (io a) ''state.v2'' = view (io b) ''state.v2''"

lemma state_saved_step:
  assumes "same_state a b" and "state_saved b"
    and "write_offset a = write_offset b \<and> last_allocated_seq a = last_allocated_seq b \<or>
      write_offset b < write_offset a"
  shows "state_saved a"
proof -
  have enc: "encode_state (a\<lparr>write_offset := w, last_allocated_seq := q\<rparr>) g =
      encode_state (b\<lparr>write_offset := w, last_allocated_seq := q\<rparr>) g" for w q g
    using assms(1) by (intro encode_state_fields) (simp_all add: same_state_def)
  show ?thesis
    using assms(3)
  proof
    assume "write_offset a = write_offset b \<and> last_allocated_seq a = last_allocated_seq b"
    then show ?thesis using assms(1,2) by (simp add: state_saved_def same_state_def enc)
  next
    assume more: "write_offset b < write_offset a"
    obtain ino w q where old: "0 < generation b" "generation b \<le> u64_max"
        "view (io b) ''state.v2'' =
          Some (ino, encode_state (b\<lparr>write_offset := w, last_allocated_seq := q\<rparr>) (generation b))"
        "GATEWAY_SPOOL_ENTRY_SIZE dvd w" "w \<le> write_offset b" "last_acked_seq b \<le> q" "q \<le> sequence_fence b"
      using assms(2) unfolding state_saved_def by blast
    then show ?thesis
      using assms(1) more unfolding state_saved_def
      by (intro conjI, simp add: same_state_def, simp add: same_state_def,
          intro exI [of "\<lambda>ino. \<exists>w q. _ ino w q" ino], intro exI [of "\<lambda>w. \<exists>q. _ w q" w], intro exI [of _ q])
        (auto simp: same_state_def enc)
  qed
qed

lemma same_saved_state: "same_saved a b \<Longrightarrow> state_saved b \<Longrightarrow> state_saved a"
  by (rule state_saved_step [of a b]) (simp_all add: same_state_def same_saved_def)

lemma same_saved_carries:
  assumes "same_saved a b"
  shows "carries b a"
proof -
  note log = same_saved_log [OF assms]
  have "files_known a" if "files_known b"
    by (rule files_known_step [OF that])
      (use assms in \<open>simp_all add: log(1) same_saved_def state_files_def\<close>)
  moreover have "log_kept b \<Longrightarrow> log_kept a"
    using assms by (simp add: log_kept_def log same_saved_def)
  ultimately show ?thesis
    using same_saved_state [OF assms] assms by (simp add: carries_def kept_for_restart_def same_saved_def)
qed

lemma same_saved_sync: "sync_descriptor t p s = (code, s') \<Longrightarrow> same_saved s' s"
  using sync_descriptor_frame [of t p s code s'] by (intro same_saved_core) simp_all

lemma same_saved_sync_directory: "sync_directory s = (code, s') \<Longrightarrow> same_saved s' s"
  using sync_directory_frame [of s code s'] by (intro same_saved_core) simp_all

lemma same_saved_deadline: "set_sync_deadline s = (code, s') \<Longrightarrow> same_saved s' s"
  using set_sync_deadline_frame [of s code s'] by (intro same_saved_core) simp_all

lemma same_saved_inject: "inject_fault p s = (hit, s') \<Longrightarrow> same_saved s' s"
  using inject_fault_frame [of p s hit s'] by (intro same_saved_core) simp_all

lemma same_saved_io: "view d = view (io s) \<Longrightarrow> same_saved (s\<lparr>io := d\<rparr>) s"
  by (simp add: same_saved_def)

subsection \<open>Saving the state\<close>

lemma persist_saves:
  assumes p: "persist_state s = (GATEWAY_OK, s')" and wf: "disk_wf (io s)" and gen: "generation s \<le> u64_max"
    and ok: "GATEWAY_SPOOL_ENTRY_SIZE dvd write_offset s" "last_acked_seq s \<le> last_allocated_seq s"
      "last_allocated_seq s \<le> sequence_fence s"
  shows "state_saved s'" and "files_known s \<Longrightarrow> files_known s'" and "log_kept s \<Longrightarrow> log_kept s'"
    and "seg_log s' = seg_log s" and "numbers s' = numbers s" and "same_core s' s" and "disk_wf (io s')"
    and "\<And>name. name \<notin> state_files \<Longrightarrow> view (io s') name = view (io s) name"
proof -
  have r: "replaces_state s GATEWAY_OK s'" by (rule persist_state_frame [OF p wf])
  then show core: "same_core s' s" and "disk_wf (io s')"
    and v: "\<And>name. name \<notin> state_files \<Longrightarrow> view (io s') name = view (io s) name"
    by (simp_all add: replaces_state_def)
  obtain ino where st: "generation s \<noteq> u64_max" "generation s' = generation s + 1"
      "view (io s') ''state.v2'' = Some (ino, encode_state s (generation s + 1))"
    using r by (auto simp: replaces_state_def)
  have "encode_state (s'\<lparr>write_offset := write_offset s', last_allocated_seq := last_allocated_seq s'\<rparr>) g =
      encode_state s g" for g
    using core by (intro encode_state_fields) (simp_all add: same_core_def)
  moreover have "generation s' \<le> u64_max" using st(1,2) gen by linarith
  ultimately show "state_saved s'"
    unfolding state_saved_def
    using st ok core
    by (intro conjI, simp, simp, intro exI [of "\<lambda>ino. \<exists>w q. _ ino w q" ino],
        intro exI [of "\<lambda>w. \<exists>q. _ w q" "write_offset s'"], intro exI [of _ "last_allocated_seq s'"])
      (simp add: same_core_def)
  have q: "quiet s s'" by (rule quiet_persist [OF p wf])
  show log: "seg_log s' = seg_log s" by (rule quiet_seg_log [OF q])
  show nums: "numbers s' = numbers s" using core by (simp add: numbers_def same_core_def)
  show "files_known s'" if "files_known s"
    by (rule files_known_step [OF that]) (use v in \<open>simp_all add: nums\<close>)
  have w: "whole s' = whole s" using core by (simp add: whole_def all_log_def log same_core_def)
  show "log_kept s \<Longrightarrow> log_kept s'"
    using core by (simp add: log_kept_def nums w same_core_def)
qed

text \<open>The parts of the invariant of the spool that the saved state rests on.\<close>

lemma inv_saves:
  assumes "wide_inv s" and "\<not> failed s"
  shows "disk_wf (io s)" and "table_ok s" and "GATEWAY_SPOOL_ENTRY_SIZE dvd write_offset s"
    and "last_acked_seq s \<le> last_allocated_seq s" and "last_allocated_seq s \<le> sequence_fence s"
    and "cursor_ok s (ack_segment s) (ack_offset s)"
  using assms by (simp_all add: wide_inv_def table_ok_def sequences_ok_def)

lemma kept_generation: "kept_for_restart s \<Longrightarrow> generation s \<le> u64_max"
  by (simp add: kept_for_restart_def state_saved_def)

lemma whole_rotated:
  assumes "table_ok s"
  shows "whole (s\<lparr>write_segment := Suc (write_segment s)\<rparr>) = whole s"
proof -
  have "ack_segment s \<le> write_segment s" using assms by (simp add: table_ok_def)
  then have "[ack_segment s..<Suc (Suc (write_segment s))] =
      [ack_segment s..<Suc (write_segment s)] @ [Suc (write_segment s)]" by simp
  then show ?thesis using after_write_empty [OF assms] unfolding whole_def all_log_def by simp
qed

lemma whole_update [simp]:
  "whole (s\<lparr>write_offset := a\<rparr>) = whole s" "whole (s\<lparr>sequence_fence := b\<rparr>) = whole s"
  "whole (s\<lparr>last_acked_seq := c\<rparr>) = whole s" "whole (s\<lparr>last_allocated_seq := e\<rparr>) = whole s"
  by (simp_all add: whole_def all_log_def)

lemma flush_cursor_kept:
  assumes inv: "wide_inv s" "\<not> failed s" and kept: "files_known s" "log_kept s"
  shows "files_known (flush_cursor s)" and "log_kept (flush_cursor s)"
    and "GATEWAY_SPOOL_ENTRY_SIZE dvd write_offset (flush_cursor s)"
    and "last_acked_seq (flush_cursor s) \<le> last_allocated_seq (flush_cursor s)"
    and "last_allocated_seq (flush_cursor s) \<le> sequence_fence (flush_cursor s)"
    and "io (flush_cursor s) = io s" and "generation (flush_cursor s) = generation s"
    and "write_segment s \<le> write_segment (flush_cursor s)"
proof -
  note i = inv_saves [OF inv]
  have "whole (flush_cursor s) = whole s"
    using whole_rotated [OF i(2)] by (simp add: flush_cursor_def)
  moreover have "numbers (flush_cursor s) = numbers s" by (simp add: flush_cursor_def)
  ultimately show "log_kept (flush_cursor s)" "files_known (flush_cursor s)"
    using kept unfolding log_kept_def files_known_def by (simp_all add: flush_cursor_def)
qed (use inv_saves [OF inv] in \<open>simp_all add: flush_cursor_def\<close>)

lemma flush_carries:
  assumes f: "gateway_spool_v2_flush s = (code, s')" and inv: "wide_inv s" and ok: "\<not> failed s'"
  shows "carries s s'"
proof (cases "failed s \<or> unsynced_records s = 0")
  case True
  then show ?thesis using f by (auto simp: flush_steps split: if_split_asm)
next
  case busy: False
  obtain ino where fd: "segment_fd s = Some ino" using f busy ok by (auto simp: flush_steps split: option.split_asm)
  obtain c1 s1 where sd: "sync_descriptor (Sync_file ino) GATEWAY_SPOOL_FAULT_SEGMENT_SYNC s = (c1, s1)"
    by (metis surj_pair)
  obtain c2 s2 where ps: "persist_state (flush_cursor s1) = (c2, s2)" by (metis surj_pair)
  obtain closed d where cl: "sys_close (io s2) = (closed, d)" by (metis surj_pair)
  have one: "carries s s1" by (rule same_saved_carries [OF same_saved_sync [OF sd]])
  have q: "quiet s s1" by (rule quiet_sync [OF sd])
  have inv1: "wide_inv s1" "\<not> failed s1"
    using quiet_inv [OF q inv] q busy by (simp_all add: quiet_def same_core_def)
  have c: "c1 = GATEWAY_OK" "c2 = GATEWAY_OK"
    and s': "same_saved s' s2"
    using f ok busy fd sd ps cl sys_close_view(1) [OF cl]
    by (auto simp: flush_steps Let_def same_saved_def split: if_split_asm)
  have two: "carries s1 s2"
  proof -
    have "write_segment s1 \<le> write_segment (flush_cursor s1)" "options (flush_cursor s1) = options s1"
        "segment_records (flush_cursor s1) = segment_records s1" by (simp_all add: flush_cursor_def)
    moreover have wf: "disk_wf (io (flush_cursor s1))" using inv_saves(1) [OF inv1] by (simp add: flush_cursor_def)
    moreover have "same_core s2 (flush_cursor s1)"
      using persist_state_frame [OF ps [unfolded c] wf] by (simp add: replaces_state_def)
    moreover have "kept_for_restart s2" if k: "kept_for_restart s1"
    proof -
      have fl: "files_known s1" "log_kept s1" using k by (simp_all add: kept_for_restart_def)
      note fk = flush_cursor_kept [OF inv1 fl]
      have "generation (flush_cursor s1) \<le> u64_max" using kept_generation [OF k] fk(7) by simp
      from persist_saves [OF ps [unfolded c] wf this fk(3-5)] fk(1,2)
      show ?thesis by (simp add: kept_for_restart_def)
    qed
    ultimately show ?thesis by (simp add: carries_def same_core_def)
  qed
  show ?thesis using carries_trans [OF carries_trans [OF one two] same_saved_carries [OF s']] .
qed

lemma reserve_carries:
  assumes r: "reserve_sequences r s = (code, s')" and inv: "spool_inv s" and ok: "\<not> failed s" "\<not> failed s'"
    and fresh: "last_allocated_seq s < gateway_seq r"
  shows "carries s s'"
proof (cases "gateway_seq r > sequence_fence s")
  case False
  then show ?thesis using r by (simp add: reserve_sequences_def)
next
  case True
  obtain c1 s1 where f: "(if unsynced_records s \<noteq> 0 then gateway_spool_v2_flush s else (GATEWAY_OK, s)) =
      (c1, s1)" by (metis surj_pair)
  have wide: "wide_inv s" "write_offset s < segment_bytes s" using inv ok by (simp_all add: spool_inv_def)
  let ?res = "of_nat (sync_records (options s)) - 1 :: u64"
  let ?f = "if gateway_seq r > - 1 - ?res then - 1 else gateway_seq r + ?res"
  let ?s2 = "s1\<lparr>sequence_fence := ?f\<rparr>"
  obtain c3 s3 where ps: "persist_state ?s2 = (c3, s3)" by (metis surj_pair)
  have body: "(code, s') = (if c1 \<noteq> GATEWAY_OK then (c1, s1)
      else if c3 \<noteq> GATEWAY_OK then (c3, s3\<lparr>failed := True\<rparr>) else (GATEWAY_OK, s3))"
    using r True f ps by (cases "c1 = GATEWAY_OK") (simp_all add: reserve_sequences_def Let_def)
  have "spool_inv s1 \<and> (c1 \<noteq> GATEWAY_OK \<longrightarrow> failed s1) \<and>
      (c1 = GATEWAY_OK \<longrightarrow> \<not> failed s1 \<and> last_allocated_seq s1 = last_allocated_seq s \<and> carries s s1)"
  proof (cases "unsynced_records s = 0")
    case True
    then show ?thesis using f inv ok by auto
  next
    case False
    then have g: "gateway_spool_v2_flush s = (c1, s1)" using f by simp
    show ?thesis
      using flush_result [OF g wide(1)] flush_fields [OF _ wide(1)] flush_carries [OF g wide(1)] g False
      by (auto simp: same_cursor_fields_def)
  qed
  note fl = this
  have c1: "c1 = GATEWAY_OK"
  proof (rule ccontr)
    assume bad: "c1 \<noteq> GATEWAY_OK"
    then have "s' = s1" using body by simp
    then show False using fl bad ok(2) by simp
  qed
  note body = body [unfolded c1, simplified]
  have c3: "c3 = GATEWAY_OK"
  proof (rule ccontr)
    assume bad: "c3 \<noteq> GATEWAY_OK"
    then have "s' = s3\<lparr>failed := True\<rparr>" using body by simp
    then show False using ok(2) by simp
  qed
  have c: "c1 = GATEWAY_OK" "c3 = GATEWAY_OK" "s' = s3" using body c1 c3 by simp_all
  have s1: "wide_inv s1" "\<not> failed s1" "last_allocated_seq s1 = last_allocated_seq s" "carries s s1"
    using fl c by (simp_all add: spool_inv_def)
  note i = inv_saves [OF s1(1,2)]
  have wf: "disk_wf (io ?s2)" using i(1) by simp
  have core: "same_core s3 ?s2"
    using persist_state_frame [OF ps wf] by (simp add: replaces_state_def)
  have "kept_for_restart s3" if k: "kept_for_restart s1"
  proof -
    have fence: "last_allocated_seq ?s2 \<le> sequence_fence ?s2"
      using fresh fence_reaches [of "gateway_seq r" ?res] s1(3) by simp
    have dv: "GATEWAY_SPOOL_ENTRY_SIZE dvd write_offset ?s2" "last_acked_seq ?s2 \<le> last_allocated_seq ?s2"
        "generation ?s2 \<le> u64_max"
      using i(3,4) kept_generation [OF k] by simp_all
    have fl: "files_known ?s2" "log_kept ?s2"
      using k unfolding kept_for_restart_def files_known_def log_kept_def by simp_all
    note p = persist_saves [OF ps [unfolded c] wf dv(3,1,2) fence]
    show ?thesis unfolding kept_for_restart_def by (intro conjI p(1) p(2) [OF fl(1)] p(3) [OF fl(2)])
  qed
  then have "carries s1 s3" using core by (simp add: carries_def same_core_def)
  then show ?thesis using carries_trans [OF s1(4)] c(3) by simp
qed

subsection \<open>Appending\<close>

lemma same_saved_add_segment:
  assumes "add_segment n s = (GATEWAY_OK, s')"
  shows "same_saved s' (s\<lparr>segments := segments s @ [new_segment n]\<rparr>)"
proof -
  obtain ok d where c: "sys_call (io s) = (ok, d)" by (metis surj_pair)
  show ?thesis
    using assms sys_call_view [OF c]
    by (auto simp: add_segment_def c Let_def same_saved_def split: if_split_asm)
qed

lemma created_kept:
  assumes inv: "spool_inv s" and ok: "\<not> failed s" and absent: "write_segment s \<notin> numbers s"
    and wf: "disk_wf d" and dv: "view d = (view (io s))(segment_name (write_segment s) \<mapsto> (ino, []))"
    and kept: "kept_for_restart s"
  defines "t \<equiv> s\<lparr>segments := segments s @ [new_segment (write_segment s)], segment_fd := Some ino,
    open_segment := write_segment s, io := d\<rparr>"
  shows "kept_for_restart t"
proof -
  note log = created_inv(5) [OF inv ok absent wf dv, folded t_def]
  have nums: "numbers t = insert (write_segment s) (numbers s)" by (simp add: numbers_def t_def)
  have whole: "whole t = whole s" by (simp add: whole_def all_log_def log) (simp add: t_def)
  have "io t = d" by (simp add: t_def)
  have "files_known t"
  proof (rule files_known_step [of s])
    show "view (io s) name \<noteq> None \<or> name \<in> segment_name ` numbers t" if "view (io t) name \<noteq> None" for name
      using that dv by (cases "name = segment_name (write_segment s)") (simp_all add: nums \<open>io t = d\<close>)
  qed (use kept in \<open>auto simp: kept_for_restart_def nums\<close>)
  moreover have "ack_segment s \<le> write_segment s" using inv ok by (simp add: spool_inv_def wide_inv_def table_ok_def)
  then have "log_kept t"
    using kept unfolding kept_for_restart_def log_kept_def nums whole by (simp add: t_def)
  moreover have "state_saved t"
    by (rule state_saved_step [where b = s]) (use kept dv in \<open>simp_all add: kept_for_restart_def same_state_def t_def\<close>)
  ultimately show ?thesis by (simp add: kept_for_restart_def)
qed

lemma ensure_carries:
  assumes e: "ensure_write_segment s = (GATEWAY_OK, s')" and inv: "spool_inv s" and ok: "\<not> failed s"
  shows "carries s s'"
proof (cases "segment_fd s")
  case (Some ino)
  then have "open_segment s = write_segment s"
    using inv ok by (simp add: spool_inv_def wide_inv_def descriptor_ok_def)
  then show ?thesis using e Some by (simp add: ensure_write_segment_def)
next
  case none: None
  show ?thesis
  proof (cases "find_segment (write_segment s) s")
    case (Some g)
    obtain r d where o: "sys_open (segment_name (write_segment s)) (io s) = (r, d)" by (metis surj_pair)
    have "same_saved s' s"
      using e none Some sys_open_view(1) [OF o]
      by (auto simp: ensure_write_segment_def open_segment_fd_def o Let_def same_saved_def
          split: option.split_asm)
    then show ?thesis by (rule same_saved_carries)
  next
    case absent: None
    then have new: "write_segment s \<notin> numbers s" by (simp add: find_segment_iff)
    have wf: "disk_wf (io s)" using inv ok by (simp add: spool_inv_def wide_inv_def)
    obtain r d where o: "sys_open_excl (segment_name (write_segment s)) (io s) = (r, d)" by (metis surj_pair)
    note ov = sys_open_excl_view [OF o wf]
    obtain ino where fd: "r = Some ino"
      using e none absent by (cases r) (auto simp: ensure_write_segment_def open_segment_fd_def o Let_def)
    note dv = ov(3) [OF fd, THEN conjunct2]
    let ?s1 = "s\<lparr>io := d, segment_fd := Some ino\<rparr>"
    let ?t = "s\<lparr>segments := segments s @ [new_segment (write_segment s)], segment_fd := Some ino,
      open_segment := write_segment s, io := d\<rparr>"
    obtain c2 s2 where a: "add_segment (write_segment s) ?s1 = (c2, s2)" by (metis surj_pair)
    have c2: "c2 = GATEWAY_OK"
      using e none absent fd a
      by (cases "c2 = GATEWAY_OK") (auto simp: ensure_write_segment_def open_segment_fd_def o Let_def)
    have st: "same_saved s2 ?t"
      using same_saved_add_segment [OF a [unfolded c2]] by (simp add: same_saved_def)
    note t = created_inv [OF inv ok new ov(1) dv]
    have sorted: "sort_segments s2 = s2"
      using t(4) st by (intro sort_sorted_segments) (simp add: same_saved_def)
    obtain c3 s3 where sd: "sync_directory s2 = (c3, s3)" by (metis surj_pair)
    have "c3 = GATEWAY_OK" "s' = s3\<lparr>open_segment := write_segment s3\<rparr>"
      using e none absent fd a c2 sorted sd
      by (auto simp: ensure_write_segment_def open_segment_fd_def o Let_def split: if_split_asm)
    then have "same_saved s' ?t"
      using same_saved_trans [OF same_saved_sync_directory [OF sd] st] by (simp add: same_saved_def)
    then have "carries ?t s'" by (rule same_saved_carries)
    moreover have "carries s ?t"
      using created_kept [OF inv ok new ov(1) dv] by (simp add: carries_def)
    ultimately show ?thesis by (rule carries_trans [rotated])
  qed
qed

lemma written_kept:
  assumes inv: "spool_inv s" and ok: "\<not> failed s" and r: "rec_ok r"
    and fresh: "last_allocated_seq s < gateway_seq r" and fence: "gateway_seq r \<le> sequence_fence s"
    and room: "physical_bytes s \<le> max_bytes (options s) - GATEWAY_SPOOL_ENTRY_SIZE"
    and fd: "segment_fd s = Some ino" and old: "view (io s) (segment_name (write_segment s)) = Some (ino, c)"
    and wf: "disk_wf d"
    and new: "view d = (view (io s))(segment_name (write_segment s) \<mapsto> (ino, c @ v2_encode_record r))"
    and kept: "kept_for_restart s"
  shows "kept_for_restart (note_appended r (s\<lparr>io := d\<rparr>))"
proof -
  let ?t = "note_appended r (s\<lparr>io := d\<rparr>)"
  note ws = written_state [OF inv ok r fresh fence room fd old wf new]
  have i: "table_ok s" "cursor_ok s (ack_segment s) (ack_offset s)"
    using inv ok by (simp_all add: spool_inv_def wide_inv_def)
  have le: "ack_segment s \<le> write_segment s" using i(1) by (simp add: table_ok_def)
  have log: "seg_log ?t n = (if n = write_segment s then seg_log s (write_segment s) @ [r] else seg_log s n)" for n
    using ws(9) .
  have whole: "whole ?t = whole s @ [r]"
  proof -
    have "concat (map (seg_log ?t) [ack_segment s..<Suc (write_segment s)]) =
        concat (map (seg_log s) [ack_segment s..<Suc (write_segment s)]) @ [r]"
      by (rule concat_map_last [OF le]) (simp_all add: log)
    then show ?thesis by (simp add: whole_def all_log_def note_appended_def)
  qed
  have known: "files_known ?t"
  proof (rule files_known_step [of s])
    have "io ?t = d" by (simp add: note_appended_def)
    then show "view (io s) name \<noteq> None \<or> name \<in> segment_name ` numbers ?t" if "view (io ?t) name \<noteq> None" for name
      using that new old by (cases "name = segment_name (write_segment s)") simp_all
  qed (use kept ws(8) in \<open>simp_all add: kept_for_restart_def\<close>)
  have first: "ack_offset s div GATEWAY_SPOOL_ENTRY_SIZE \<le> length (whole s)"
  proof -
    have "ack_offset s div GATEWAY_SPOOL_ENTRY_SIZE \<le> length (seg_log s (ack_segment s))"
      using i(2) by (auto simp: cursor_ok_def elim!: dvdE)
    moreover have "whole s = seg_log s (ack_segment s) @ concat (map (seg_log s) [Suc (ack_segment s)..<Suc (write_segment s)])"
      using le by (simp add: whole_def all_log_def upt_conv_Cons del: upt_Suc)
    ultimately show ?thesis by simp
  qed
  have lk: "log_kept s" using kept by (simp add: kept_for_restart_def)
  have same: "ack_segment ?t = ack_segment s" "ack_offset ?t = ack_offset s" "last_acked_seq ?t = last_acked_seq s"
      "last_allocated_seq ?t = gateway_seq r" by (simp_all add: note_appended_def)
  have below: "\<forall>x\<in>set (whole s). gateway_seq x < gateway_seq r"
    using lk fresh by (auto simp: log_kept_def Let_def intro: le_less_trans)
  let ?k = "ack_offset s div GATEWAY_SPOOL_ENTRY_SIZE"
  have "(whole s @ [r]) ! (?k - 1) = whole s ! (?k - 1)" if "0 < ?k"
    using that first by (simp add: nth_append)
  then have "log_kept ?t"
    using lk below unfolding log_kept_def same whole ws(8)
    by (auto simp: in_order_append Let_def) (auto simp: in_order_def)
  moreover have "state_saved ?t"
    by (rule state_saved_step [where b = s])
      (use kept new in \<open>simp_all add: kept_for_restart_def same_state_def note_appended_def GATEWAY_SPOOL_ENTRY_SIZE_def\<close>)
  ultimately show ?thesis using known by (simp add: kept_for_restart_def)
qed

text \<open>The last part of an append, from the deadline on.\<close>

lemma append_end_carries:
  assumes d: "(if \<not> sync_deadline_set t then set_sync_deadline t else (GATEWAY_OK, t)) = (GATEWAY_OK, s5)"
    and e: "(code, s') = (if unsynced_records s5 \<ge> sync_records (options s5) \<or> write_offset s5 = segment_bytes s5
      then gateway_spool_v2_flush s5 else (GATEWAY_OK, s5))"
    and inv: "wide_inv t" "\<not> failed s'"
  shows "carries t s'"
proof -
  have sv: "same_saved s5 t \<and> quiet t s5"
    using d same_saved_deadline quiet_deadline by (cases "sync_deadline_set t") (auto simp: same_saved_def)
  then have "carries t s5" "wide_inv s5" using same_saved_carries quiet_inv inv(1) by auto
  moreover have "carries s5 s'"
  proof (cases "unsynced_records s5 \<ge> sync_records (options s5) \<or> write_offset s5 = segment_bytes s5")
    case True
    then have "gateway_spool_v2_flush s5 = (code, s')" using e by simp
    then show ?thesis by (rule flush_carries) fact+
  next
    case False
    then have "s' = s5" using e by simp
    then show ?thesis by simp
  qed
  ultimately show ?thesis by (blast intro: carries_trans)
qed

lemma append_carries:
  assumes a: "gateway_spool_v2_append r s = (code, s')" and inv: "spool_inv s" and r: "wf_record r"
    and open_: "\<not> failed s'"
  shows "carries s s'"
proof (cases "code = GATEWAY_OK")
  case False
  then show ?thesis using append_result [OF a inv r] open_ by simp
next
  case okc: True
  note a = a [unfolded okc]
  have go: "gateway_seq r \<noteq> 0" "\<not> failed s" "\<not> gateway_seq r \<le> last_allocated_seq s"
      "\<not> physical_bytes s > max_bytes (options s) - GATEWAY_SPOOL_ENTRY_SIZE"
    using a by (auto simp: gateway_spool_v2_append_def split: if_split_asm)
  then have ok: "\<not> failed s" and fresh: "last_allocated_seq s < gateway_seq r" and rok: "rec_ok r"
    using r by (simp_all add: rec_ok_def not_le)
  obtain c1 s1 where rs: "reserve_sequences r s = (c1, s1)" by (metis surj_pair)
  have ok1: "c1 = GATEWAY_OK"
    using a go rs by (cases "c1 = GATEWAY_OK") (simp_all add: gateway_spool_v2_append_def)
  then have s1: "spool_inv s1" "\<not> failed s1" "gateway_seq r \<le> sequence_fence s1" "same_cursor_fields s1 s"
    using reserve_result [OF rs inv ok fresh] by simp_all
  have car1: "carries s s1" by (rule reserve_carries [OF rs inv ok s1(2) fresh])
  obtain c2 s2 where es: "ensure_write_segment s1 = (c2, s2)" by (metis surj_pair)
  have ok2: "c2 = GATEWAY_OK"
    using a go rs ok1 es by (cases "c2 = GATEWAY_OK") (simp_all add: gateway_spool_v2_append_def)
  note ens = ensure_result [OF es s1(1,2)]
  obtain ino where fd: "segment_fd s2 = Some ino" using ens ok2 by auto
  have s2: "spool_inv s2" "\<not> failed s2" "last_allocated_seq s2 < gateway_seq r" "gateway_seq r \<le> sequence_fence s2"
      "physical_bytes s2 \<le> max_bytes (options s2) - GATEWAY_SPOOL_ENTRY_SIZE"
    using ens ok2 s1 fresh go by (simp_all add: same_cursor_fields_def)
  have car2: "carries s1 s2" by (rule ensure_carries [OF es [unfolded ok2] s1(1,2)])
  obtain hit s3 where ij: "inject_fault GATEWAY_SPOOL_FAULT_APPEND_WRITE s2 = (hit, s3)" by (metis surj_pair)
  have q3: "quiet s2 s3" by (rule quiet_inject [OF ij])
  have car3: "carries s2 s3" by (rule same_saved_carries [OF same_saved_inject [OF ij]])
  have s3: "spool_inv s3" "\<not> failed s3" "last_allocated_seq s3 < gateway_seq r" "gateway_seq r \<le> sequence_fence s3"
      "physical_bytes s3 \<le> max_bytes (options s3) - GATEWAY_SPOOL_ENTRY_SIZE" "segment_fd s3 = Some ino"
    using quiet_spool_inv [OF q3 s2(1)] q3 s2 fd by (simp_all add: quiet_def same_core_def)
  obtain c4 s4 where wr0: "(if hit then (GATEWAY_ERROR_IO, s3)
      else let (code, d) = write_exact (the (segment_fd s2)) (v2_encode_record r) (write_offset s3) (io s3)
           in (code, s3\<lparr>io := d\<rparr>)) = (c4, s4)" by (metis surj_pair)
  have ok4: "c4 = GATEWAY_OK"
    using a go rs ok1 es ok2 ij wr0 by (cases "c4 = GATEWAY_OK") (simp_all add: gateway_spool_v2_append_def)
  obtain d c where d: "s4 = s3\<lparr>io := d\<rparr>" "disk_wf d"
      "view (io s3) (segment_name (write_segment s3)) = Some (ino, c)"
      "view d = (view (io s3))(segment_name (write_segment s3) \<mapsto> (ino, c @ v2_encode_record r))"
    using entry_write [OF wr0 [unfolded fd option.sel] s3(1,2,6) r] ok4 by blast
  let ?t = "note_appended r s4"
  note ws = written_state [OF s3(1,2) rok s3(3-6) d(3,2,4), folded d(1)]
  have "kept_for_restart s3 \<Longrightarrow> kept_for_restart ?t"
    using written_kept [OF s3(1,2) rok s3(3-6) d(3,2,4)] d(1) by simp
  then have car4: "carries s3 ?t" using d(1) by (simp add: carries_def note_appended_def)
  obtain gw where found: "find_segment (write_segment s4) s4 = Some gw"
    using ws(7) d(1) by (auto simp: find_segment_def)
  obtain c5 s5 where dl: "(if \<not> sync_deadline_set ?t then set_sync_deadline ?t
      else (GATEWAY_OK, ?t)) = (c5, s5)" by (metis surj_pair)
  have ok5: "c5 = GATEWAY_OK"
    using a go rs ok1 es ok2 ij wr0 ok4 found dl
    by (cases "c5 = GATEWAY_OK") (simp_all add: gateway_spool_v2_append_def Let_def)
  have last: "(GATEWAY_OK, s') = (if unsynced_records s5 \<ge> sync_records (options s5) \<or>
      write_offset s5 = segment_bytes s5 then gateway_spool_v2_flush s5 else (GATEWAY_OK, s5))"
    using a go rs ok1 es ok2 ij wr0 ok4 found dl ok5 by (simp add: gateway_spool_v2_append_def Let_def)
  have "carries ?t s'" by (rule append_end_carries [OF dl [unfolded ok5] last ws(1) open_])
  then show ?thesis using car1 car2 car3 car4 by (blast intro: carries_trans)
qed

end
