(* ===== verification/Spool_V2_Saved_Acks.thy ===== *)
theory Spool_V2_Saved_Acks
  imports Spool_V2_Saved
begin

text \<open>
  Batches, acknowledgements and polls carry the files of the segmented spool on: the second half of
  the argument that the state file and the segments determine the queue between any two calls.
\<close>

subsection \<open>Batches and polls\<close>

lemma same_saved_read:
  assumes "read_record_at n off s = (r, s')"
  shows "same_saved s' s"
proof -
  obtain fd d where o: "sys_open (segment_name n) (io s) = (fd, d)" by (metis surj_pair)
  note ov = sys_open_view(1) [OF o]
  have rv: "view (snd (read_exact ino k off d)) = view d" for ino k
    by (simp add: read_exact_def Let_def split: prod.split)
  show ?thesis
  proof (cases fd)
    case None
    then show ?thesis
      using assms ov by (auto simp: read_record_at_def open_segment_fd_def o intro: same_saved_io)
  next
    case (Some ino)
    obtain e d2 where e: "read_exact ino GATEWAY_SPOOL_ENTRY_SIZE off d = (e, d2)" by (metis surj_pair)
    obtain ok d3 where c: "sys_close d2 = (ok, d3)" by (metis surj_pair)
    have "view d3 = view (io s)" using ov rv [of ino GATEWAY_SPOOL_ENTRY_SIZE] e sys_close_view(1) [OF c] by simp
    moreover have "s' = s\<lparr>io := d3\<rparr>"
      using assms Some e c by (simp add: read_record_at_def open_segment_fd_def o)
    ultimately show ?thesis by (simp add: same_saved_io)
  qed
qed

lemma prepare_loop_saved:
  assumes "prepare_loop capacity n off batch s = (GATEWAY_OK, n', off', batch', s')"
  shows "same_saved s' s"
  using assms
proof (induction capacity n off batch s rule: prepare_loop.induct)
  case (1 capacity n off batch s)
  note unfold = prepare_loop.simps [of capacity n off batch s]
  obtain r s1 where rd: "read_record_at n off s = (r, s1)" by (metis surj_pair)
  note sv = same_saved_read [OF rd]
  show ?case
  proof (cases "length batch \<ge> capacity \<or> find_segment n s = None \<or> off \<ge> seg_size (the (find_segment n s))")
    case True
    then show ?thesis
      using "1.prems" "1.IH"(1,2)
      by (cases "find_segment n s") (auto simp: unfold same_saved_def split: if_split_asm)
  next
    case False
    then obtain g where g: "find_segment n s = Some g" "\<not> length batch \<ge> capacity" "\<not> off \<ge> seg_size g" by auto
    show ?thesis
    proof (cases r)
      case (Inl e)
      then have "s' = s1\<lparr>corruptions := corruptions s1 + 1, failed := True\<rparr>"
        using "1.prems" g rd by (simp add: unfold)
      then show ?thesis using sv by (simp add: same_saved_def)
    next
      case (Inr x)
      have rd2: "(Inr x, s1) = read_record_at n off s" using rd Inr by simp
      have ord: "\<not> (batch \<noteq> [] \<and> gateway_seq x \<le> gateway_seq (last batch))"
        using "1.prems" g rd Inr by (auto simp: unfold split: if_split_asm)
      show ?thesis
      proof (cases "off + GATEWAY_SPOOL_ENTRY_SIZE = seg_size g \<and> seg_number g < write_segment s")
        case True
        have "prepare_loop capacity (n + 1) 0 (batch @ [x]) s1 = (GATEWAY_OK, n', off', batch', s')"
          using "1.prems" g rd Inr ord True by (simp add: unfold)
        from "1.IH"(3) [OF g(2,1,3) rd2 refl ord True this] show ?thesis using same_saved_trans sv by blast
      next
        case False
        have "prepare_loop capacity n (off + GATEWAY_SPOOL_ENTRY_SIZE) (batch @ [x]) s1 =
            (GATEWAY_OK, n', off', batch', s')"
          using "1.prems" unfolding unfold if_not_P [OF g(2)] g(1) option.case if_not_P [OF g(3)] rd prod.case
            Inr sum.case if_not_P [OF ord] if_not_P [OF False] .
        from "1.IH"(4) [OF g(2,1,3) rd2 refl ord False this] show ?thesis using same_saved_trans sv by blast
      qed
    qed
  qed
qed

lemma prepare_carries:
  assumes p: "gateway_spool_v2_prepare_batch capacity s = (code, out, s')" and inv: "spool_inv s"
    and open_: "\<not> failed s'"
  shows "carries s s'"
proof (cases "code = GATEWAY_OK")
  case False
  then show ?thesis using prepare_result [OF p inv] open_ by simp
next
  case True
  note p = p [unfolded True]
  have go: "\<not> (capacity = 0 \<or> batch_prepared s)" "\<not> failed s"
    using p by (auto simp: gateway_spool_v2_prepare_batch_def split: if_split_asm)
  obtain c1 s1 where fl: "gateway_spool_v2_flush s = (c1, s1)" by (metis surj_pair)
  have c1: "c1 = GATEWAY_OK"
    using p go fl by (cases "c1 = GATEWAY_OK") (simp_all add: gateway_spool_v2_prepare_batch_def)
  have wide: "wide_inv s" "write_offset s < segment_bytes s" using inv go by (simp_all add: spool_inv_def)
  have "\<not> failed s1" using flush_result [OF fl wide(1)] c1 wide(2) by simp
  then have one: "carries s s1" using flush_carries [OF fl wide(1)] by simp
  obtain c2 n off batch s2 where lp:
    "prepare_loop capacity (ack_segment s1) (ack_offset s1) [] s1 = (c2, n, off, batch, s2)"
    by (metis prod_cases5)
  have c2: "c2 = GATEWAY_OK"
    using p go fl c1 lp by (cases "c2 = GATEWAY_OK") (simp_all add: gateway_spool_v2_prepare_batch_def)
  have "same_saved s' s2"
    using p go fl c1 lp c2
    by (auto simp: gateway_spool_v2_prepare_batch_def same_saved_def split: if_split_asm)
  then have "carries s1 s'"
    using same_saved_trans [OF _ prepare_loop_saved [OF lp [unfolded c2]]] same_saved_carries by blast
  then show ?thesis using one by (blast intro: carries_trans)
qed

lemma cancel_carries: "carries s (gateway_spool_v2_cancel_prepared s)"
  by (rule same_saved_carries) (simp add: same_saved_def gateway_spool_v2_cancel_prepared_def)

lemma poll_carries:
  assumes p: "gateway_spool_v2_poll s = (code, s')" and inv: "spool_inv s" and open_: "\<not> failed s'"
  shows "carries s s'"
proof (cases "failed s \<or> unsynced_records s = 0 \<or> \<not> sync_deadline_set s")
  case True
  then have "s' = s" using p by (auto simp: gateway_spool_v2_poll_def split: if_split_asm)
  then show ?thesis by simp
next
  case go: False
  obtain c1 reached s1 where dl: "sync_deadline_reached s = (c1, reached, s1)" by (metis surj_pair)
  obtain t d where cl: "sys_clock (io s) = (t, d)" by (metis surj_pair)
  have s1: "s1 = s\<lparr>io := d\<rparr>"
    using dl cl by (simp add: sync_deadline_reached_def Let_def split: option.split_asm)
  have one: "carries s s1" using sys_clock_view [OF cl] by (simp add: s1 same_saved_io same_saved_carries)
  have q: "quiet s s1" using sys_clock_view [OF cl] by (simp add: quiet_def s1)
  have wide: "wide_inv s1" using quiet_spool_inv [OF q inv] by (simp add: spool_inv_def)
  have body: "(code, s') = (if c1 \<noteq> GATEWAY_OK then (c1, s1\<lparr>failed := True\<rparr>)
      else if reached then gateway_spool_v2_flush s1 else (GATEWAY_OK, s1))"
    using p go dl by (simp add: gateway_spool_v2_poll_def)
  show ?thesis
  proof (cases "c1 = GATEWAY_OK \<and> reached")
    case True
    then have f: "gateway_spool_v2_flush s1 = (code, s')" using body by simp
    show ?thesis by (rule carries_trans [OF one flush_carries [OF f wide open_]])
  next
    case False
    have c1: "c1 = GATEWAY_OK"
    proof (rule ccontr)
      assume "c1 \<noteq> GATEWAY_OK"
      then have "s' = s1\<lparr>failed := True\<rparr>" using body by simp
      then show False using open_ by simp
    qed
    then have "s' = s1" using False body by simp
    then show ?thesis using one by simp
  qed
qed

subsection \<open>Removing segments\<close>

lemma reclaim_files:
  assumes "reclaim_loop kept gs removed s = (GATEWAY_OK, kept', removed', s')" and "disk_wf (io s)"
  shows "generation s' = generation s \<and>
    (\<forall>name. view (io s') name =
      (if name \<in> segment_name ` seg_number ` {g \<in> set gs. seg_number g < ack_segment s} then None
       else view (io s) name))"
  using assms
proof (induction gs arbitrary: kept removed s)
  case Nil
  then show ?case by simp
next
  case (Cons g gs)
  show ?case
  proof (cases "seg_number g < ack_segment s")
    case False
    then have "reclaim_loop (kept @ [g]) gs removed s = (GATEWAY_OK, kept', removed', s')"
      using Cons.prems(1) by simp
    moreover have "{h \<in> set (g # gs). seg_number h < ack_segment s} = {h \<in> set gs. seg_number h < ack_segment s}"
      using False by auto
    ultimately show ?thesis using Cons.IH [OF _ Cons.prems(2)] by metis
  next
    case old: True
    obtain hit s1 where ij: "inject_fault GATEWAY_SPOOL_FAULT_SEGMENT_DELETE s = (hit, s1)" by (metis surj_pair)
    note i = inject_fault_frame [OF ij]
    obtain ok d where ul: "sys_unlink (segment_name (seg_number g)) (io s1) = (ok, d)" by (metis surj_pair)
    have wf1: "disk_wf (io s1)" using i Cons.prems(2) by simp
    note u = sys_unlink_view [OF ul wf1]
    have good: "\<not> hit" "ok" using Cons.prems(1) old ij ul by (auto split: if_split_asm)
    let ?s2 = "s1\<lparr>io := d, physical_bytes := physical_bytes s1 - seg_size g,
      segments_reclaimed := segments_reclaimed s1 + 1\<rparr>"
    have "reclaim_loop kept gs True ?s2 = (GATEWAY_OK, kept', removed', s')"
      using Cons.prems(1) old ij ul good by simp
    moreover have "disk_wf (io ?s2)" using u by simp
    ultimately have ih: "generation s' = generation ?s2 \<and>
        (\<forall>name. view (io s') name =
          (if name \<in> segment_name ` seg_number ` {h \<in> set gs. seg_number h < ack_segment ?s2} then None
           else view (io ?s2) name))" by (rule Cons.IH)
    have a: "ack_segment ?s2 = ack_segment s" using i(1) by (simp add: same_core_def)
    have set: "{h \<in> set (g # gs). seg_number h < ack_segment s} =
        insert g {h \<in> set gs. seg_number h < ack_segment s}" using old by auto
    show ?thesis
      unfolding set using ih i(2,3) u(3) [OF good(2)] unfolding a by simp
  qed
qed

lemma remove_saved:
  assumes rm: "remove_reclaimed_segments s = (GATEWAY_OK, s')" and wf: "disk_wf (io s)" and table: "table_ok s"
  shows "same_state s' s" and "write_offset s' = write_offset s" and "last_allocated_seq s' = last_allocated_seq s"
    and "files_known s \<Longrightarrow> files_known s'" and "\<And>m. ack_segment s \<le> m \<Longrightarrow> seg_log s' m = seg_log s m"
proof -
  obtain c1 kept removed s1 where lp: "reclaim_loop [] (segments s) False s = (c1, kept, removed, s1)"
    by (metis prod_cases4)
  have c1: "c1 = GATEWAY_OK" using rm lp by (auto simp: remove_reclaimed_segments_def split: if_split_asm)
  let ?gone = "{g \<in> set (segments s). seg_number g < ack_segment s}"
  have rf: "generation s1 = generation s"
      "\<And>name. view (io s1) name = (if name \<in> segment_name ` seg_number ` ?gone then None else view (io s) name)"
    using reclaim_files [OF lp [unfolded c1] wf] by blast+
  obtain p q where pq: "segments s = p @ q" "kept = filter (\<lambda>g. \<not> seg_number g < ack_segment s) p" "q = []"
      "same_core s1 (s\<lparr>physical_bytes := physical_bytes s -
        sum_list (map seg_size (filter (\<lambda>g. seg_number g < ack_segment s) p))\<rparr>)"
    using reclaim_loop_result [OF lp wf] c1 by auto
  let ?u = "s1\<lparr>segments := kept\<rparr>"
  have "(GATEWAY_OK, s') = (if removed then sync_directory ?u else (GATEWAY_OK, ?u))"
    using rm lp c1 by (simp add: remove_reclaimed_segments_def Let_def)
  then have sv: "same_saved s' ?u"
    using same_saved_sync_directory [of ?u GATEWAY_OK s'] by (cases removed) (simp_all add: same_saved_def)
  have kept: "segments s' = filter (\<lambda>g. \<not> seg_number g < ack_segment s) (segments s)"
    using sv pq by (simp add: same_saved_def)
  have nums: "numbers s' = {n \<in> numbers s. ack_segment s \<le> n}" by (auto simp: numbers_def kept)
  have v: "view (io s') name = (if name \<in> segment_name ` seg_number ` ?gone then None else view (io s) name)"
    if "name \<noteq> ''state.v2.tmp''" for name
    using sv rf(2) that by (simp add: same_saved_def)
  have "''state.v2'' \<notin> segment_name ` X" for X by auto
  then show "same_state s' s" "write_offset s' = write_offset s" "last_allocated_seq s' = last_allocated_seq s"
    using sv pq(4) rf v by (simp_all add: same_state_def same_saved_def same_core_def)
  have gone: "n \<in> numbers s \<Longrightarrow> segment_name n \<notin> segment_name ` seg_number ` ?gone \<longleftrightarrow> ack_segment s \<le> n" for n
  proof -
    assume n: "n \<in> numbers s"
    have "seg_number ` ?gone = {m \<in> numbers s. m < ack_segment s}" by (auto simp: numbers_def)
    then show ?thesis
      using n segment_name_inject [of n] numbers_between(3) [OF table] by (auto simp: not_less)
  qed
  show "seg_log s' m = seg_log s m" if m: "ack_segment s \<le> m" for m
  proof (cases "m \<in> numbers s")
    case True
    have "segment_name m \<notin> segment_name ` seg_number ` ?gone" using gone [OF True] m by blast
    then have "view (io s') (segment_name m) = view (io s) (segment_name m)"
      using v [of "segment_name m"] by simp
    then show ?thesis using True m by (simp add: seg_log_def nums stored_def)
  qed (simp add: seg_log_def nums)
  show "files_known s'" if known: "files_known s"
    unfolding files_known_def
  proof (intro allI impI)
    fix name assume n: "view (io s') name \<noteq> None"
    show "name \<in> book_names \<or> name \<in> segment_name ` numbers s'"
    proof (cases "name = ''state.v2.tmp''")
      case False
      then have here: "name \<notin> segment_name ` seg_number ` ?gone" "view (io s) name \<noteq> None"
        using n v [OF False] by (auto split: if_split_asm)
      then have "name \<in> book_names \<or> name \<in> segment_name ` numbers s" using known by (simp add: files_known_def)
      then show ?thesis using here(1) gone nums by auto
    qed (simp add: book_names_def)
  qed
qed

subsection \<open>Acknowledgements\<close>

text \<open>A cursor as a position in the whole log.\<close>

lemma whole_from:
  assumes "cursor_ok s n off"
  shows "\<exists>p. whole s = p @ drop 0 (concat (map (seg_log s) [n..<Suc (write_segment s)])) \<and>
    records_from s n off = drop (length p + off div GATEWAY_SPOOL_ENTRY_SIZE) (whole s) \<and>
    length p + off div GATEWAY_SPOOL_ENTRY_SIZE \<le> length (whole s)"
proof -
  let ?p = "concat (map (seg_log s) [ack_segment s..<n])" and ?j = "off div GATEWAY_SPOOL_ENTRY_SIZE"
  have le: "ack_segment s \<le> n" "n \<le> write_segment s" using assms by (simp_all add: cursor_ok_def)
  have split: "[ack_segment s..<Suc (write_segment s)] = [ack_segment s..<n] @ [n..<Suc (write_segment s)]"
    using upt_add_eq_append [of "ack_segment s" n "Suc (write_segment s) - n"] le by simp
  have w: "whole s = ?p @ concat (map (seg_log s) [n..<Suc (write_segment s)])"
    unfolding whole_def all_log_def split by simp
  have tail: "concat (map (seg_log s) [n..<Suc (write_segment s)]) =
      seg_log s n @ concat (map (seg_log s) [Suc n..<Suc (write_segment s)])"
    using le by (simp add: upt_conv_Cons del: upt_Suc)
  have j: "?j \<le> length (seg_log s n)" using assms by (auto simp: cursor_ok_def elim!: dvdE)
  have "records_from s n off = drop (length ?p + ?j) (whole s)"
    unfolding w tail records_from_def using j by simp
  then show ?thesis using w tail j by (intro exI [of _ ?p]) simp
qed

lemma moved_log:
  assumes inv: "spool_inv s" and ok: "\<not> failed s" and bp: "batch_prepared s" and kept: "log_kept s"
  defines "t \<equiv> moved_cursor s" and "j \<equiv> prepared_offset s div GATEWAY_SPOOL_ENTRY_SIZE"
  shows "in_order (whole t)" and "\<forall>r\<in>set (whole t). gateway_seq r \<le> last_allocated_seq s"
    and "0 < j \<Longrightarrow> gateway_seq (whole t ! (j - 1)) = prepared_last_seq s"
proof -
  have parts: "prepared_ok s" "cursor_ok s (ack_segment s) (ack_offset s)"
    using inv ok by (simp_all add: spool_inv_def wide_inv_def)
  have cur: "cursor_ok s (prepared_segment s) (prepared_offset s)" using parts(1) bp by (simp add: prepared_ok_def)
  have wt: "whole t = concat (map (seg_log s) [prepared_segment s..<Suc (write_segment s)])"
    by (simp add: whole_def all_log_def t_def)
  obtain p where p: "whole s = p @ whole t"
      "records_from s (prepared_segment s) (prepared_offset s) = drop (length p + j) (whole s)"
      "length p + j \<le> length (whole s)"
    using whole_from [OF cur] unfolding wt j_def by auto
  show "in_order (whole t)" "\<forall>r\<in>set (whole t). gateway_seq r \<le> last_allocated_seq s"
    using kept p(1) by (simp_all add: log_kept_def in_order_append)
  let ?a = "ack_offset s div GATEWAY_SPOOL_ENTRY_SIZE"
  have pend: "pend s = drop ?a (whole s)" "?a \<le> length (whole s)"
  proof -
    obtain p0 where p0: "whole s = p0 @ drop 0 (concat (map (seg_log s) [ack_segment s..<Suc (write_segment s)]))"
        "pend s = drop (length p0 + ?a) (whole s)" "length p0 + ?a \<le> length (whole s)"
      using whole_from [OF parts(2)] unfolding pend_def by blast
    then have "p0 = []" by (simp add: whole_def all_log_def)
    then show "pend s = drop ?a (whole s)" "?a \<le> length (whole s)" using p0 by simp_all
  qed
  obtain k where k: "k \<le> length (pend s)" "drop (length p + j) (whole s) = drop k (pend s)"
      "0 < k \<longrightarrow> prepared_last_seq s = gateway_seq (pend s ! (k - 1))"
      "k = 0 \<longrightarrow> prepared_last_seq s = last_acked_seq s"
    using parts(1) bp p(2) unfolding prepared_ok_def by metis
  have "length (drop (length p + j) (whole s)) = length (drop k (pend s))" using k(2) by simp
  then have pos: "length p + j = ?a + k" using p(3) k(1) pend by simp
  show "gateway_seq (whole t ! (j - 1)) = prepared_last_seq s" if j: "0 < j"
  proof -
    have at: "whole t ! (j - 1) = whole s ! (?a + k - 1)"
      unfolding p(1) pos [symmetric] using j by (simp add: nth_append)
    show ?thesis
    proof (cases "k = 0")
      case True
      then have "0 < ?a" using pos j by simp
      then show ?thesis using kept at True k(4) by (simp add: log_kept_def Let_def)
    next
      case False
      then have "pend s ! (k - 1) = whole s ! (?a + k - 1)" using pend k(1) by (simp add: nth_drop)
      then show ?thesis using at False k(3) by simp
    qed
  qed
qed

definition rotated_cursor :: "gateway_spool_v2 \<Rightarrow> gateway_spool_v2" where
  "rotated_cursor t = t\<lparr>write_segment := write_segment t + 1, write_offset := 0,
     ack_segment := write_segment t + 1, ack_offset := 0\<rparr>"

lemma advance_saved:
  assumes ad: "advance_drained t = (GATEWAY_OK, s1)"
  shows "same_saved s1 t \<or> same_saved s1 (rotated_cursor t)"
proof (cases "ack_segment t = write_segment t \<and> ack_offset t = write_offset t \<and> write_offset t \<noteq> 0")
  case False
  then have "s1 = t" using ad unfolding advance_drained_def if_not_P [OF False] by simp
  then show ?thesis by (simp add: same_saved_def)
next
  case drained: True
  have ne: "write_segment t \<noteq> u64_max" using ad drained by (auto simp: advance_drained_def)
  have "same_saved s1 (rotated_cursor t)"
  proof (cases "segment_fd t")
    case None
    then have "s1 = rotated_cursor t" using ad drained ne by (simp add: advance_drained_def rotated_cursor_def)
    then show ?thesis by (simp add: same_saved_def)
  next
    case (Some ino)
    obtain ok d where cl: "sys_close (io t) = (ok, d)" by (metis surj_pair)
    have ok: ok
      using ad drained ne Some cl by (cases ok) (simp_all add: advance_drained_def Let_def)
    have "s1 = rotated_cursor (t\<lparr>segment_fd := None, io := d, open_segment := 0\<rparr>)"
      using ad drained ne Some cl ok by (simp add: advance_drained_def Let_def rotated_cursor_def)
    then show ?thesis
      using sys_close_view(1) [OF cl] by (simp add: same_saved_def rotated_cursor_def)
  qed
  then show ?thesis by simp
qed

lemma ack_carries:
  assumes a: "gateway_spool_v2_ack_prepared s = (code, s')" and inv: "spool_inv s" and open_: "\<not> failed s'"
  shows "carries s s' \<or> write_segment s' = u64_max"
proof (cases "\<not> batch_prepared s \<or> failed s \<or> next_batch_seq s = u64_max")
  case True
  then have "s' = s" using a by (auto simp: gateway_spool_v2_ack_prepared_def split: if_split_asm)
  then show ?thesis by simp
next
  case go: False
  let ?t = "moved_cursor s"
  obtain c1 s1 where ad: "advance_drained ?t = (c1, s1)" by (metis surj_pair)
  have t: "spool_inv ?t" "\<not> failed ?t" using moved_inv [OF inv] go by simp_all
  have adv: "seg_log s1 = seg_log s" "disk_wf (io s1)"
      "c1 = GATEWAY_OK \<Longrightarrow> \<not> failed s1 \<and> spool_inv (gateway_spool_v2_cancel_prepared s1)"
      "c1 \<noteq> GATEWAY_OK \<Longrightarrow> s1 = ?t \<and> write_segment s = u64_max \<or> failed s1"
    using advance_result [OF ad t(1,2)] go by auto
  obtain c2 s2 where ps: "persist_state s1 = (c2, s2)" by (metis surj_pair)
  let ?c = "gateway_spool_v2_cancel_prepared s2"
  obtain c3 s3 where rm: "remove_reclaimed_segments ?c = (c3, s3)" by (metis surj_pair)
  have "(code, s') = (if c1 \<noteq> GATEWAY_OK then (c1, s1)
      else case persist_state s1 of (c2, s2) \<Rightarrow>
        if c2 \<noteq> GATEWAY_OK
        then (c2, s2\<lparr>ack_segment := ack_segment s, ack_offset := ack_offset s,
               last_acked_seq := last_acked_seq s, next_batch_seq := next_batch_seq s,
               write_segment := write_segment s, write_offset := write_offset s, failed := True\<rparr>)
        else case remove_reclaimed_segments (gateway_spool_v2_cancel_prepared s2) of (c3, s3) \<Rightarrow>
          if c3 \<noteq> GATEWAY_OK then (c3, s3\<lparr>failed := True\<rparr>) else (GATEWAY_OK, s3))"
    using a go ad unfolding gateway_spool_v2_ack_prepared_def moved_cursor_def Let_def
    by (simp add: eq_commute [of "(code, s')"])
  then have body: "(code, s') = (if c1 \<noteq> GATEWAY_OK then (c1, s1)
      else if c2 \<noteq> GATEWAY_OK
        then (c2, s2\<lparr>ack_segment := ack_segment s, ack_offset := ack_offset s,
               last_acked_seq := last_acked_seq s, next_batch_seq := next_batch_seq s,
               write_segment := write_segment s, write_offset := write_offset s, failed := True\<rparr>)
        else if c3 \<noteq> GATEWAY_OK then (c3, s3\<lparr>failed := True\<rparr>) else (GATEWAY_OK, s3))"
    unfolding ps prod.case rm .
  show ?thesis
  proof (cases "c1 = GATEWAY_OK")
    case False
    then have "s' = s1" using body by simp
    then show ?thesis using adv(4) [OF False] open_ by auto
  next
    case c1: True
    have c2: "c2 = GATEWAY_OK"
    proof (rule ccontr)
      assume "c2 \<noteq> GATEWAY_OK"
      then have "s' = s2\<lparr>ack_segment := ack_segment s, ack_offset := ack_offset s,
               last_acked_seq := last_acked_seq s, next_batch_seq := next_batch_seq s,
               write_segment := write_segment s, write_offset := write_offset s, failed := True\<rparr>"
        using body c1 by simp
      then show False using open_ by simp
    qed
    have c3: "c3 = GATEWAY_OK"
    proof (rule ccontr)
      assume "c3 \<noteq> GATEWAY_OK"
      then have "s' = s3\<lparr>failed := True\<rparr>" using body c1 c2 by simp
      then show False using open_ by simp
    qed
    have s': "s' = s3" using body c1 c2 c3 by simp
    have "code = GATEWAY_OK" using body c1 c2 c3 by simp
    then have above: "\<forall>n\<in>numbers s'. ack_segment s' \<le> n" using ack_result [OF a inv] by simp
    note rm = rm [unfolded c3 s' [symmetric]]
    have moved: "same_saved s1 ?t \<or> same_saved s1 (rotated_cursor ?t)"
      using advance_saved [OF ad [unfolded c1]] .
    have wide: "wide_inv (gateway_spool_v2_cancel_prepared s1)" "\<not> failed (gateway_spool_v2_cancel_prepared s1)"
      using adv(3) [OF c1] by (simp_all add: spool_inv_def gateway_spool_v2_cancel_prepared_def)
    have ok: "GATEWAY_SPOOL_ENTRY_SIZE dvd write_offset s1" "last_acked_seq s1 \<le> last_allocated_seq s1"
        "last_allocated_seq s1 \<le> sequence_fence s1" "table_ok (gateway_spool_v2_cancel_prepared s1)"
      using inv_saves [OF wide] by (simp_all add: gateway_spool_v2_cancel_prepared_def)
    have gen: "generation s1 = generation s" using moved by (auto simp: same_saved_def moved_cursor_def rotated_cursor_def)
    have same: "segment_records s1 = segment_records s" "last_allocated_seq s1 = last_allocated_seq s"
        "sequence_fence s1 = sequence_fence s" "last_acked_seq s1 = prepared_last_seq s" "segments s1 = segments s"
        "options s1 = options s" "numbers s1 = numbers s" "write_segment s \<le> write_segment s1"
      using moved by (auto simp: same_saved_def numbers_def moved_cursor_def rotated_cursor_def)

    have cs: "same_saved ?c s2" by (simp add: same_saved_def gateway_spool_v2_cancel_prepared_def)
    have core: "same_core s2 s1" and wf: "disk_wf (io ?c)"
      using persist_state_frame [OF ps adv(2)]
      by (simp_all add: replaces_state_def gateway_spool_v2_cancel_prepared_def)
    have "spool_inv ?c" "\<not> failed ?c"
      using quiet_spool_inv [OF quiet_cancel [OF quiet_persist [OF ps adv(2)]]] adv(3) [OF c1] core
      by (simp, simp add: gateway_spool_v2_cancel_prepared_def same_core_def)
    then have "table_ok ?c" using inv_saves(2) [of ?c] by (simp add: spool_inv_def)
    note r = remove_saved [OF rm wf this]
    have cur: "ack_segment s' = ack_segment s1" "ack_offset s' = ack_offset s1" "write_segment s' = write_segment s1"
        "last_acked_seq s' = last_acked_seq s1" "last_allocated_seq s' = last_allocated_seq s1"
      using r(1,3) cs core by (simp_all add: same_state_def same_saved_def same_core_def)
    have carried: "kept_for_restart s'" if kept: "kept_for_restart s"
    proof -
      have "generation s1 \<le> u64_max" using gen kept_generation [OF kept] by simp
      note p = persist_saves [OF ps [unfolded c2] adv(2) this ok(1-3)]
      have view1: "view (io s1) name = view (io s) name" if "name \<notin> state_files" for name
        using moved that by (auto simp: same_saved_def state_files_def moved_cursor_def rotated_cursor_def)
      have "files_known s1"
        by (rule files_known_step [where s = s]) (use kept view1 same(7) in \<open>simp_all add: kept_for_restart_def\<close>)
      then have "files_known ?c"
        by (intro files_known_step [OF p(2), of ?c])
          (use cs same_saved_log(1) [OF cs] in \<open>simp_all add: same_saved_def state_files_def\<close>)
      then have known: "files_known s'" by (rule r(4))
      have saved: "state_saved s'"
        using state_saved_step [OF r(1) same_saved_state [OF cs p(1)]] r(2,3) by simp
      have ack: "ack_segment ?c = ack_segment s1" using cs core by (simp add: same_saved_def same_core_def)
      have "seg_log s' m = seg_log s m" if "ack_segment s1 \<le> m" for m
        using r(5) [of m] that same_saved_log(2) [OF cs] p(4) adv(1) ack by simp
      then have same_logs: "map (seg_log s') [ack_segment s1..<Suc (write_segment s1)] =
          map (seg_log s) [ack_segment s1..<Suc (write_segment s1)]"
        by (intro map_cong) (simp_all del: upt_Suc)
      have log: "whole s' = concat (map (seg_log s) [ack_segment s1..<Suc (write_segment s1)])"
        unfolding whole_def all_log_def cur same_logs ..
      have "log_kept s'"
        using moved
      proof
        assume mv: "same_saved s1 ?t"
        then have pos: "ack_segment s1 = prepared_segment s" "ack_offset s1 = prepared_offset s"
            "write_segment s1 = write_segment s"
          by (simp_all add: same_saved_def)
        have "whole s' = whole ?t" unfolding log pos by (simp add: whole_def all_log_def)
        then show ?thesis
          using moved_log [OF inv _ _ conjunct1 [OF conjunct2 [OF kept [unfolded kept_for_restart_def]]]] go above
          by (simp add: log_kept_def cur pos same)
      next
        assume mv: "same_saved s1 (rotated_cursor ?t)"
        then have pos: "ack_segment s1 = Suc (write_segment s)" "ack_offset s1 = 0"
            "write_segment s1 = Suc (write_segment s)"
          by (simp_all add: same_saved_def rotated_cursor_def)
        have "table_ok s" using inv_saves(2) [of s] inv go by (simp add: spool_inv_def)
        then have "whole s' = []" using after_write_empty [of s] unfolding log pos by simp
        then show ?thesis using above by (simp add: log_kept_def cur pos in_order_def)
      qed
      then show ?thesis using known saved by (simp add: kept_for_restart_def)
    qed
    moreover have "write_segment s \<le> write_segment s'" using cur same(8) by simp
    moreover have "options s' = options s" "segment_records s' = segment_records s"
      using r(1) cs core same(1,6) by (simp_all add: same_state_def same_saved_def same_core_def)
    ultimately show ?thesis by (simp add: carries_def)
  qed
qed

end
