(* ===== verification/Spool_V2_Props.thy ===== *)
theory Spool_V2_Props
  imports Spool_V2_Open
begin

text \<open>
  The properties of the segmented spool, each over the code's operations, and concrete spools on
  which they apply.
\<close>

subsection \<open>Runs\<close>

abbreviation spool_run ::
    "telemetry_record spool_op list \<Rightarrow> gateway_spool_v2 \<Rightarrow> (telemetry_record, gateway_spool_v2) client" where
  "spool_run \<equiv> client_run gateway_spool_v2_append gateway_spool_v2_prepare_batch
     gateway_spool_v2_ack_prepared gateway_spool_v2_cancel_prepared gateway_spool_v2_poll"

lemma run_inv:
  assumes "spool_inv s" and "prepared_count s = 0" and "\<forall>r\<in>set (offered ops). wf_record r"
  shows "spool_inv (spool (spool_run ops s))"
  using v2.balanced_run [OF assms] by (simp add: v2.balanced_def)

subsection \<open>A concrete spool\<close>

definition start_spool :: gateway_spool_v2 where
  "start_spool = first_state \<lparr>max_bytes = 1048576, sync_records = 4, sync_interval_ms = 100\<rparr> 8 empty_disk"

definition sample_record :: "u64 \<Rightarrow> telemetry_record" where
  "sample_record n = zero_record\<lparr>gateway_seq := n\<rparr>"

lemma sample_record_wf [simp]: "wf_record (sample_record n)"
  by (simp add: sample_record_def wf_record_def zero_record_def)

lemma empty_disk_wf [simp]: "disk_wf empty_disk"
  by (simp add: empty_disk_def disk_wf_def)

lemma start_spool_inv [simp]: "spool_inv start_spool" "prepared_count start_spool = 0"
  "pend start_spool = []" "\<not> failed start_spool"
proof -
  show "spool_inv start_spool"
    unfolding start_spool_def
    by (rule first_state_inv)
      (simp_all add: options_valid_def GATEWAY_SPOOL_V2_SEGMENT_RECORDS_def GATEWAY_SPOOL_ENTRY_SIZE_def
        GATEWAY_SPOOL_MAX_BYTES_MAX_def)
  show "pend start_spool = []" by (simp add: start_spool_def first_state_empty)
  show "prepared_count start_spool = 0" "\<not> failed start_spool"
    by (simp_all add: start_spool_def first_state_def fresh_spool_def prepared_count_def)
qed

subsection \<open>Properties\<close>





text \<open>Preparing a batch. If the call returns OK, the caller gets the first records of the queue, as
  many as the capacity allows, and they stay in the queue as the prepared batch; an empty queue
  gives an empty batch and prepares nothing. If it returns an error, no batch is returned, the
  queue is unchanged, and the spool is closed or exactly what it was.\<close>

theorem v2_batch_outcomes:
  assumes "gateway_spool_v2_prepare_batch capacity s = (code, out, s')" and "spool_inv s"
  shows "spool_inv s' \<and> pend s' = pend s \<and>
    (if code = GATEWAY_OK
     then (\<exists>number. out = Some (take capacity (pend s), number)) \<and>
       prepared_count s' = min capacity (length (pend s)) \<and> batch_prepared s' = (pend s \<noteq> [])
     else out = None \<and> (failed s' \<or> s' = s))"
  using prepare_result [OF assms] by auto

lemma v2_batch_outcomes_witness:
  "pend (snd (snd (gateway_spool_v2_prepare_batch 3
     (spool (spool_run [Append (sample_record 1)] start_spool))))) =
   pend (spool (spool_run [Append (sample_record 1)] start_spool))"
proof -
  obtain code out s' where p: "gateway_spool_v2_prepare_batch 3
      (spool (spool_run [Append (sample_record 1)] start_spool)) = (code, out, s')" by (metis prod_cases3)
  have "spool_inv (spool (spool_run [Append (sample_record 1)] start_spool))"
    by (rule run_inv) simp_all
  from v2_batch_outcomes [OF p this] show ?thesis using p by simp
qed



text \<open>C37: The capacity bound. After any sequence of calls, as long as the spool is open, the bytes
  of all its segment files together are what it accounts for and at most the configured
  maximum.\<close>

theorem v2_capacity_bound:
  assumes "spool_inv s" and "prepared_count s = 0" and "\<forall>r\<in>set (offered ops). wf_record r"
    and "\<not> failed (spool (spool_run ops s))"
  shows "let t = spool (spool_run ops s) in
     (\<Sum>g\<leftarrow>segments t. length (content (the (file_at (segment_name (seg_number g)) (io t))))) = physical_bytes t \<and>
     physical_bytes t \<le> max_bytes (options t)"
proof -
  let ?t = "spool (spool_run ops s)"
  have inv: "spool_inv ?t" by (rule run_inv [OF assms(1-3)])
  then have parts: "\<forall>g\<in>set (segments ?t). segment_ok ?t g" "bytes_ok ?t"
    using assms(4) by (simp_all add: spool_inv_def wide_inv_def)
  have size: "length (content (the (file_at (segment_name (seg_number g)) (io ?t)))) = seg_size g"
    if g: "g \<in> set (segments ?t)" for g
  proof -
    let ?rs = "seg_log ?t (seg_number g)"
    have h: "holds (io ?t) (seg_number g) ?rs" "seg_size g = length ?rs * GATEWAY_SPOOL_ENTRY_SIZE"
      using parts(1) g by (simp_all add: segment_ok_def Let_def)
    then obtain ino where "map_of (names (io ?t)) (segment_name (seg_number g)) = Some ino"
        "content (inodes (io ?t) ino) = rec_bytes ?rs"
      by (auto simp: holds_def view_Some)
    then show ?thesis using h by (simp add: file_at_def holds_def)
  qed
  then have "map (\<lambda>g. length (content (the (file_at (segment_name (seg_number g)) (io ?t))))) (segments ?t) =
      map seg_size (segments ?t)" by simp
  then show ?thesis using parts(2) unfolding bytes_ok_def Let_def by metis
qed

lemma v2_capacity_bound_witness:
  "physical_bytes (spool (spool_run [] start_spool)) \<le> max_bytes (options (spool (spool_run [] start_spool)))"
  using v2_capacity_bound [of start_spool "[]"] by (simp add: client_run_def Let_def)

text \<open>The snapshot counts the queue: \<open>pending_records\<close>, which walks the segment table with byte
  offsets, equals the length of the queue, and \<open>pending_bytes\<close> follows from it.\<close>

theorem v2_snapshot_counts_queue:
  assumes "spool_inv s" and "\<not> failed s"
  shows "snap_pending_records (gateway_spool_v2_read s) = length (pend s) \<and>
    snap_pending_bytes (gateway_spool_v2_read s) = length (pend s) * GATEWAY_SPOOL_ENTRY_SIZE"
  using pending_length [OF assms] by (simp add: gateway_spool_v2_read_def Let_def)

lemma v2_snapshot_counts_queue_witness:
  "snap_pending_records (gateway_spool_v2_read start_spool) = 0"
  using v2_snapshot_counts_queue [of start_spool] by simp

text \<open>A failed spool refuses every operation with \<open>GATEWAY_ERROR_CLOSED\<close>, returns no batch and
  changes nothing, in memory or in the file system.\<close>

theorem v2_failed_refuses:
  assumes "failed s" and "batch_prepared s" and "gateway_seq r \<noteq> 0"
  shows "gateway_spool_v2_append r s = (GATEWAY_ERROR_CLOSED, s) \<and>
    gateway_spool_v2_flush s = (GATEWAY_ERROR_CLOSED, s) \<and>
    gateway_spool_v2_poll s = (GATEWAY_ERROR_CLOSED, s) \<and>
    gateway_spool_v2_ack_prepared s = (GATEWAY_ERROR_CLOSED, s)"
  using assms
  by (simp add: gateway_spool_v2_append_def gateway_spool_v2_flush_def gateway_spool_v2_poll_def
      gateway_spool_v2_ack_prepared_def)

lemma v2_failed_refuses_witness:
  "gateway_spool_v2_append (sample_record 1) (start_spool\<lparr>failed := True, batch_prepared := True\<rparr>) =
    (GATEWAY_ERROR_CLOSED, start_spool\<lparr>failed := True, batch_prepared := True\<rparr>)"
  using v2_failed_refuses [of "start_spool\<lparr>failed := True, batch_prepared := True\<rparr>" "sample_record 1"]
  by (simp add: sample_record_def)

text \<open>C14: Order. After any sequence of calls, as long as the spool is open, the sequence numbers of
  the queue increase strictly, they lie above the last acknowledged one, and none exceeds what the
  spool reports as the last sequence number given out.\<close>

theorem v2_queue_ordered:
  assumes "spool_inv s" and "prepared_count s = 0" and "\<forall>r\<in>set (offered ops). wf_record r"
    and "\<not> failed (spool (spool_run ops s))"
  shows "let t = spool (spool_run ops s) in
    sorted_wrt (\<lambda>a b. gateway_seq a < gateway_seq b) (pend t) \<and>
    (\<forall>r\<in>set (pend t). last_acked_seq t < gateway_seq r \<and> gateway_seq r \<le> gateway_spool_v2_last_gateway_seq t)"
proof -
  let ?t = "spool (spool_run ops s)"
  have "sequences_ok ?t"
    using run_inv [OF assms(1-3)] assms(4) by (simp add: spool_inv_def wide_inv_def)
  then show ?thesis
    by (auto simp: sequences_ok_def gateway_spool_v2_last_gateway_seq_def Let_def)
qed

lemma v2_queue_ordered_witness:
  "sorted_wrt (\<lambda>a b. gateway_seq a < gateway_seq b) (pend (spool (spool_run [] start_spool)))"
  using v2_queue_ordered [of start_spool "[]"] by (simp add: client_run_def Let_def)

text \<open>The first start. On an empty spool directory on which no call fails, opening returns OK and
  a well-formed, empty spool.\<close>

theorem v2_first_open:
  assumes "options_valid opts n" and "path_ok path" and "disk_wf d" and "names d = []"
    and "outcomes d = []" and "directory_status d = Path_directory"
  shows "\<exists>s d'. gateway_spool_v2_open True (Some path) (Some opts) n GATEWAY_SPOOL_FAULT_NONE d =
      (GATEWAY_OK, Some s, d') \<and> spool_inv s \<and> \<not> failed s \<and> pend s = [] \<and> \<not> batch_prepared s"
proof -
  obtain code res d' where o: "gateway_spool_v2_open True (Some path) (Some opts) n
      GATEWAY_SPOOL_FAULT_NONE d = (code, res, d')" by (metis prod_cases3)
  then have "code = GATEWAY_OK"
    using first_open_succeeds [OF assms(1,2,4,5,6,3)] by simp
  then show ?thesis using first_open_result [OF o assms(3,4)] o by auto
qed

lemma v2_first_open_witness:
  "\<exists>s d'. gateway_spool_v2_open True (Some ''/var/spool'')
      (Some \<lparr>max_bytes = 1048576, sync_records = 4, sync_interval_ms = 100\<rparr>) 8
      GATEWAY_SPOOL_FAULT_NONE empty_disk = (GATEWAY_OK, Some s, d') \<and> pend s = []"
  using v2_first_open [of "\<lparr>max_bytes = 1048576, sync_records = 4, sync_interval_ms = 100\<rparr>" 8
      "''/var/spool''" empty_disk]
  by (auto simp: options_valid_def GATEWAY_SPOOL_V2_SEGMENT_RECORDS_def GATEWAY_SPOOL_ENTRY_SIZE_def
      GATEWAY_SPOOL_MAX_BYTES_MAX_def path_ok_def GATEWAY_SPOOL_PATH_SIZE_def empty_disk_def disk_wf_def)

end
