(* ===== verification/Spool_V2_Survives.thy ===== *)
theory Spool_V2_Survives
  imports Spool_V2_Saved_Acks Spool_V2_Props
begin

text \<open>
  A process that uses the segmented spool dies between two calls, or while it writes the next record
  or the next state file; another one opens what is on the disk. The spool that it gets has the
  same queue.
\<close>

subsection \<open>The first open\<close>

lemma ensure_directory_generation:
  "ensure_directory path s = (code, s') \<Longrightarrow> generation s' = generation s"
  by (auto simp: ensure_directory_def open_directory_def Let_def split: if_split_asm path_status.split_asm prod.split_asm)

lemma inspect_empty_kept:
  assumes "inspect_directory s = (code, state_exists, tmp_exists, s')"
    and "names (io s) = []" and "segments s = []"
  shows "generation s' = generation s" and "view (io s') = view (io s)"
proof -
  obtain a d1 where a: "sys_call (io s) = (a, d1)" by (metis surj_pair)
  obtain b d2 where b: "sys_call d1 = (b, d2)" by (metis surj_pair)
  obtain c d3 where c: "sys_call d2 = (c, d3)" by (metis surj_pair)
  obtain e d4 where e: "sys_close d3 = (e, d4)" by (metis surj_pair)
  obtain f d5 where f: "sys_close d2 = (f, d5)" by (metis surj_pair)
  note v = sys_call_view [OF a] sys_call_view [OF b] sys_call_view [OF c] sys_close_view [OF e] sys_close_view [OF f]
  have "\<exists>d. s' = s\<lparr>io := d\<rparr> \<and> view d = view (io s)"
    using assms v
    by (auto simp: inspect_directory_def a b c e f close_with_def Let_def split: if_split_asm)
  then show "generation s' = generation s" and "view (io s') = view (io s)" by auto
qed

lemma take_lock_kept:
  assumes "take_lock s = (code, s')" and "disk_wf (io s)"
  shows "generation s' = generation s" and "name \<noteq> ''lock'' \<Longrightarrow> view (io s') name = view (io s) name"
proof -
  obtain r d where o: "sys_open_create ''lock'' (io s) = (r, d)" by (metis surj_pair)
  obtain ok d2 where c: "sys_call d = (ok, d2)" by (metis surj_pair)
  have "s' = s\<lparr>lock_fd := r, io := d\<rparr> \<or> s' = s\<lparr>lock_fd := r, io := d2\<rparr>"
    using assms(1) by (auto simp: take_lock_def o c Let_def split: option.split_asm if_split_asm)
  then show "generation s' = generation s" "name \<noteq> ''lock'' \<Longrightarrow> view (io s') name = view (io s) name"
    using sys_open_create_view [OF o assms(2)] sys_call_view [OF c] by auto
qed

lemma first_steps_kept:
  assumes "open_steps path s0 = (GATEWAY_OK, s')" and s0: "s0 = fresh_spool opts n GATEWAY_SPOOL_FAULT_NONE d"
    and "disk_wf d" and "names d = []"
  shows "kept_for_restart s'" and "generation s' = 1"
proof -
  let ?first = "\<lambda>s. s\<lparr>next_batch_seq := 1, ack_segment := 1, write_segment := 1\<rparr>"
  obtain s1 where s1: "ensure_directory path s0 = (GATEWAY_OK, s1)"
    using assms(1) by (auto simp: open_steps_def and_then_OK)
  obtain c2 e t s2 where s2: "inspect_directory s1 = (c2, e, t, s2)" by (metis prod_cases4)
  have q1: "quiet s0 s1 \<and> names (io s1) = names (io s0)" by (rule quiet_ensure_directory [OF s1])
  have fresh: "segments s0 = []" "io s0 = d" "generation s0 = 0" by (simp_all add: s0 fresh_spool_def)
  have wf1: "disk_wf (io s1)" "names (io s1) = []" "segments s1 = []"
    using q1 assms(3,4) fresh by (simp_all add: quiet_def same_core_def)
  have q2: "quiet s1 s2 \<and> \<not> e \<and> \<not> t" by (rule quiet_inspect_empty [OF s2 wf1(2,3)])
  obtain s3 s4 s5 s6 where s3: "take_lock s2 = (GATEWAY_OK, s3)" and s4: "sync_directory s3 = (GATEWAY_OK, s4)"
    and s5: "first_or_load_state False s4 = (GATEWAY_OK, s5)"
    and s6: "validate_and_scan s5 = (GATEWAY_OK, s6)" "remove_reclaimed_segments s6 = (GATEWAY_OK, s')"
    using assms(1) s1 s2 q2 by (auto simp: open_steps_def and_then_OK remove_stale_tmp_def)
  have wf2: "disk_wf (io s2)" using q2 wf1 by (simp add: quiet_def)
  note q3 = quiet_take_lock [OF s3 wf2]
  note q4 = quiet_sync_directory [OF s4]
  have q: "quiet s0 s4" using q1 q2 q3 q4 quiet_trans by blast
  have s4': "disk_wf (io s4)" "segments s4 = []" "write_offset s4 = 0" "last_acked_seq s4 = 0"
      "last_allocated_seq s4 = 0" "ack_offset s4 = 0"
    using q assms(3) fresh by (simp_all add: quiet_def same_core_def) (simp_all add: s0 fresh_spool_def)
  have ps: "persist_state (?first s4) = (GATEWAY_OK, s5)"
    using s5 s4'(2) by (simp add: first_or_load_state_def)
  have gen0: "generation s4 = generation s0"
    using ensure_directory_generation [OF s1] inspect_empty_kept(1) [OF s2 wf1(2,3)] take_lock_kept(1) [OF s3 wf2]
      sync_directory_frame(4) [OF s4] by simp
  have gen: "generation (?first s4) \<le> u64_max" by (simp add: fresh gen0)
  have "view (io s4) name = None" if "name \<noteq> ''lock''" for name
    using inspect_empty_kept(2) [OF s2 wf1(2,3)] take_lock_kept(2) [OF s3 wf2 that] sync_directory_frame(2) [OF s4]
      wf1(2) by (simp add: view_def)
  then have known: "files_known (?first s4)" by (auto simp: files_known_def book_names_def)
  have empty: "numbers s4 = {}" using s4'(2) by (simp add: numbers_def)
  have whole: "whole (?first s4) = []" by (simp add: whole_def all_log_def seg_log_def empty)
  have log: "log_kept (?first s4)" unfolding log_kept_def whole by (simp add: empty in_order_def s4')
  note p = persist_saves [OF ps]
  have "kept_for_restart s5"
    unfolding kept_for_restart_def using p [OF _ gen] s4' known log by simp
  moreover have "segments s5 = []" "write_offset s5 = 0" "ack_segment s5 = write_segment s5"
    using quiet_persist [OF ps] s4' by (simp_all add: quiet_def same_core_def)
  then have s': "s' = s5" using scan_nothing s6 by simp
  ultimately show "kept_for_restart s'" by simp
  have "generation s5 = generation (?first s4) + 1"
    using persist_state_frame [OF ps] s4'(1) by (auto simp: replaces_state_def)
  then show "generation s' = 1" by (simp add: s' gen0 fresh)
qed

lemma first_open_kept:
  assumes "gateway_spool_v2_open True (Some path) (Some opts) n GATEWAY_SPOOL_FAULT_NONE d =
      (GATEWAY_OK, Some s, d')"
    and "disk_wf d" and "names d = []"
  shows "kept_for_restart s" and "options s = opts" and "segment_records s = n"
    and "spool_inv s" and "\<not> failed s" and "pend s = []" and "prepared_count s = 0"
    and "generation s = 1" and "write_segment s = 1"
proof -
  obtain ok d1 where c: "sys_call d = (ok, d1)" by (metis surj_pair)
  have d1: "disk_wf d1" "names d1 = []" using sys_call_view [OF c] assms(2,3) by simp_all
  obtain c1 s1 where o: "open_steps path (fresh_spool opts n GATEWAY_SPOOL_FAULT_NONE d1) = (c1, s1)"
    by (metis surj_pair)
  have "c1 = GATEWAY_OK" "s1 = s"
    using assms(1) c o by (auto simp: gateway_spool_v2_open_def split: if_split_asm)
  note o = o [unfolded this]
  show "kept_for_restart s" "generation s = 1" by (rule first_steps_kept [OF o refl d1])+
  have "quiet (first_state opts n d1) s" by (rule first_steps [OF o refl d1])
  then show "options s = opts" "segment_records s = n" "write_segment s = 1"
    by (simp_all add: quiet_def same_core_def first_state_def fresh_spool_def)
  show "spool_inv s" "\<not> failed s" "pend s = []" "prepared_count s = 0"
    using first_open_result [OF assms] no_batch by auto
qed

subsection \<open>Runs\<close>

lemma op_carries:
  assumes inv: "spool_inv (spool c)" and valid: "\<forall>r\<in>set (offered [op]). wf_record r"
    and open_: "\<not> failed (spool (v2.step op c))"
  shows "\<not> failed (spool c) \<and> spool_inv (spool (v2.step op c)) \<and>
    (carries (spool c) (spool (v2.step op c)) \<or> write_segment (spool (v2.step op c)) = u64_max)"
proof (cases op)
  case (Append r)
  obtain code s' where a: "gateway_spool_v2_append r (spool c) = (code, s')" by (metis surj_pair)
  have "spool (v2.step op c) = s'" using Append a by (simp split: if_split)
  then show ?thesis
    using append_carries [OF a inv] append_result [OF a inv] append_closed [of "spool c" r] a valid open_ Append by auto
next
  case (Prepare n)
  obtain code out s' where p: "gateway_spool_v2_prepare_batch n (spool c) = (code, out, s')" by (metis prod_cases3)
  have "spool (v2.step op c) = s'" using Prepare p by (simp split: option.split)
  moreover have "s' = spool c" if "failed (spool c)"
    using p that by (auto simp: gateway_spool_v2_prepare_batch_def split: if_split_asm)
  ultimately show ?thesis using prepare_carries [OF p inv] prepare_result [OF p inv] open_ by auto
next
  case Ack
  obtain code s' where a: "gateway_spool_v2_ack_prepared (spool c) = (code, s')" by (metis surj_pair)
  have "spool (v2.step op c) = s'" using Ack a by (simp split: if_split)
  then show ?thesis
    using ack_carries [OF a inv] ack_result [OF a inv] ack_closed [of "spool c"] a open_ by auto
next
  case Cancel
  then show ?thesis
    using cancel_carries [of "spool c"] v2.cancel_inv [OF inv] open_
    by (auto simp: gateway_spool_v2_cancel_prepared_def)
next
  case Poll
  obtain code s' where a: "gateway_spool_v2_poll (spool c) = (code, s')" by (metis surj_pair)
  have "spool (v2.step op c) = s'" using Poll a by simp
  then show ?thesis
    using poll_carries [OF a inv] poll_result [OF a inv] poll_closed [of "spool c"] a open_ by auto
qed

text \<open>While the segment numbers last, an open spool is one that can be restarted.\<close>

definition going :: "gateway_spool_v2_options \<Rightarrow> nat \<Rightarrow> gateway_spool_v2 \<Rightarrow> bool" where
  "going opts n s \<longleftrightarrow> failed s \<or> write_segment s = u64_max \<or>
     kept_for_restart s \<and> options s = opts \<and> segment_records s = n"

lemma op_going:
  assumes "going opts n (spool c)" and inv: "spool_inv (spool c)" and "\<forall>r\<in>set (offered [op]). wf_record r"
  shows "going opts n (spool (v2.step op c))"
proof (cases "failed (spool (v2.step op c))")
  case False
  let ?s = "spool c" and ?t = "spool (v2.step op c)"
  have o: "\<not> failed ?s" "spool_inv ?t" "carries ?s ?t \<or> write_segment ?t = u64_max"
    using op_carries [OF inv assms(3) False] by simp_all
  have "write_segment ?t \<le> u64_max"
    using o(2) False by (simp add: spool_inv_def wide_inv_def table_ok_def)
  then show ?thesis using assms(1) o(1,3) unfolding going_def carries_def by auto
qed (simp add: going_def)

lemma run_going:
  assumes "spool_inv s" and "prepared_count s = 0" and "\<forall>r\<in>set (offered ops). wf_record r"
    and "going opts n s"
  shows "going opts n (spool (spool_run ops s))"
  using assms(3)
proof (induction ops rule: rev_induct)
  case (snoc op ops)
  then have "spool_inv (spool (spool_run ops s))" "going opts n (spool (spool_run ops s))"
    using run_inv [OF assms(1,2), of ops] by (simp_all add: offered_append)
  then show ?case
    using op_going [of opts n "spool_run ops s" op] snoc.prems by (simp add: client_run_def offered_append)
qed (use assms(4) in \<open>simp add: client_run_def\<close>)

subsection \<open>The disk after a crash\<close>

text \<open>What the next process finds: the files of the spool as they were, except that the next state
  may be half written in its temporary file, and that a part of the next record may be at the end
  of the write segment, whose file may have been created for it.\<close>

definition crash_leaves :: "gateway_spool_v2 \<Rightarrow> disk \<Rightarrow> bool" where
  "crash_leaves s d \<longleftrightarrow> disk_wf d \<and>
     (\<forall>name. name \<noteq> ''state.v2.tmp'' \<and> name \<noteq> segment_name (write_segment s) \<longrightarrow>
        view d name = view (io s) name) \<and>
     (view d (segment_name (write_segment s)) = view (io s) (segment_name (write_segment s)) \<or>
      (\<exists>ino part. length part < GATEWAY_SPOOL_ENTRY_SIZE \<and>
         view d (segment_name (write_segment s)) =
           Some (ino, (case view (io s) (segment_name (write_segment s)) of
                         None \<Rightarrow> [] | Some (_, c) \<Rightarrow> c) @ part)))"

text \<open>The size of the log.\<close>

lemma log_bytes:
  assumes wide: "wide_inv s" "\<not> failed s" and above: "\<forall>n\<in>numbers s. ack_segment s \<le> n"
  shows "length (whole s) * GATEWAY_SPOOL_ENTRY_SIZE = physical_bytes s"
proof -
  have parts: "\<forall>g\<in>set (segments s). segment_ok s g" "table_ok s" "bytes_ok s"
    using wide by (simp_all add: wide_inv_def)
  let ?E = GATEWAY_SPOOL_ENTRY_SIZE
  obtain lo hi where lo: "map seg_number (segments s) = [lo..<hi]" "lo \<le> ack_segment s"
      "hi = write_segment s \<or> hi = Suc (write_segment s)" "ack_segment s \<le> write_segment s"
    using parts(2) by (auto simp: table_ok_def)
  have nums: "numbers s = {lo..<hi}" using lo(1) by (metis numbers_def set_map set_upt)
  have same: "[lo..<hi] = [ack_segment s..<hi]"
  proof (cases "lo < hi")
    case True
    then have "lo \<in> numbers s" by (simp add: nums)
    then show ?thesis using above lo(2) by fastforce
  qed (use lo in auto)
  have "physical_bytes s = sum_list (map seg_size (segments s))" using parts(3) by (simp add: bytes_ok_def)
  also have "map seg_size (segments s) = map ((\<lambda>n. length (seg_log s n) * ?E) \<circ> seg_number) (segments s)"
    using parts(1) by (simp add: segment_ok_def Let_def)
  also have "\<dots> = map (\<lambda>n. length (seg_log s n) * ?E) [ack_segment s..<hi]"
    unfolding map_map [symmetric] lo(1) same ..
  also have "sum_list \<dots> = length (concat (map (seg_log s) [ack_segment s..<hi])) * ?E"
    by (simp add: length_concat sum_list_mult_const comp_def)
  also have "concat (map (seg_log s) [ack_segment s..<hi]) = whole s"
    using lo(3,4) by (auto simp: whole_def all_log_def seg_log_def nums)
  finally show ?thesis by simp
qed

lemma whole_front:
  assumes "ack_segment s \<le> write_segment s"
    and "ack_offset s \<le> length (seg_log s (ack_segment s)) * GATEWAY_SPOOL_ENTRY_SIZE"
  shows "whole s = seg_log s (ack_segment s) @ concat (map (seg_log s) [Suc (ack_segment s)..<Suc (write_segment s)])"
    and "pend s = drop (ack_offset s div GATEWAY_SPOOL_ENTRY_SIZE) (whole s)"
proof -
  have "[ack_segment s..<Suc (write_segment s)] = ack_segment s # [Suc (ack_segment s)..<Suc (write_segment s)]"
    using assms(1) by (simp add: upt_conv_Cons del: upt_Suc)
  then show w: "whole s = seg_log s (ack_segment s) @
      concat (map (seg_log s) [Suc (ack_segment s)..<Suc (write_segment s)])"
    unfolding whole_def all_log_def by simp
  have "ack_offset s div GATEWAY_SPOOL_ENTRY_SIZE \<le> length (seg_log s (ack_segment s))"
    using div_le_mono [OF assms(2), of GATEWAY_SPOOL_ENTRY_SIZE] by (simp add: GATEWAY_SPOOL_ENTRY_SIZE_def)
  then show "pend s = drop (ack_offset s div GATEWAY_SPOOL_ENTRY_SIZE) (whole s)"
    unfolding w pend_def records_from_def by simp
qed

text \<open>Sixteen records a segment keep the number of segments under what the table can hold.\<close>

lemma few_segments:
  assumes wide: "wide_inv s" "\<not> failed s" and above: "\<forall>n\<in>numbers s. ack_segment s \<le> n"
    and "16 \<le> segment_records s"
  shows "Suc (write_segment s) - ack_segment s + 3 \<le> 67108864"
proof -
  have parts: "options_ok s" "table_ok s" "bytes_ok s" using wide by (simp_all add: wide_inv_def)
  let ?E = GATEWAY_SPOOL_ENTRY_SIZE and ?k = "write_segment s - ack_segment s"
  have full: "length (seg_log s n) = segment_records s" if "n \<in> {ack_segment s..<write_segment s}" for n
    using parts(2) that by (simp add: table_ok_def)
  have le: "ack_segment s \<le> write_segment s" using parts(2) by (simp add: table_ok_def)
  have same: "map (\<lambda>n. length (seg_log s n)) [ack_segment s..<write_segment s] =
      map (\<lambda>n. segment_records s) [ack_segment s..<write_segment s]"
    using full by (intro map_cong) simp_all
  have "length (concat (map (seg_log s) [ack_segment s..<write_segment s])) = ?k * segment_records s"
    unfolding length_concat map_map comp_def same by (simp add: sum_list_triv)
  moreover have "whole s = concat (map (seg_log s) [ack_segment s..<write_segment s]) @ seg_log s (write_segment s)"
    using le by (simp add: whole_def all_log_def)
  ultimately have "?k * segment_records s \<le> length (whole s)" by simp
  then have "?k * segment_records s * ?E \<le> physical_bytes s"
    unfolding log_bytes [OF wide above, symmetric] by (rule mult_le_mono1)
  moreover have "physical_bytes s \<le> GATEWAY_SPOOL_MAX_BYTES_MAX"
    using parts(1,3) by (simp add: bytes_ok_def options_ok_def options_valid_def)
  moreover have "?k * 16 * ?E \<le> ?k * segment_records s * ?E" using assms(4) by simp
  ultimately have "?k * 16 * ?E \<le> GATEWAY_SPOOL_MAX_BYTES_MAX" by linarith
  then show ?thesis using le by (simp add: GATEWAY_SPOOL_MAX_BYTES_MAX_def GATEWAY_SPOOL_ENTRY_SIZE_def)
qed

lemma restart_ready:
  assumes inv: "spool_inv s" "\<not> failed s" and kept: "log_kept s" and small: "16 \<le> segment_records s"
    and hi: "hi = write_segment s \<and> write_segment s \<notin> numbers s \<or> hi = Suc (write_segment s)"
    and w: "GATEWAY_SPOOL_ENTRY_SIZE dvd w" "w \<le> write_offset s" "last_acked_seq s \<le> q" "q \<le> sequence_fence s"
      "w = write_offset s \<longrightarrow> q = last_allocated_seq s"
  defines "t \<equiv> s\<lparr>write_offset := w, last_allocated_seq := q\<rparr>"
  shows "saved_ok t hi (seg_log s)" and "behind t (seg_log s) = pend s"
proof -
  have wide: "wide_inv s" and room: "write_offset s < segment_bytes s" using inv by (simp_all add: spool_inv_def)
  have parts: "options_ok s" "\<forall>g\<in>set (segments s). segment_ok s g" "table_ok s"
      "cursor_ok s (ack_segment s) (ack_offset s)" "sequences_ok s" "bytes_ok s"
    using inv by (simp_all add: spool_inv_def wide_inv_def)
  let ?E = GATEWAY_SPOOL_ENTRY_SIZE and ?k = "ack_offset s div GATEWAY_SPOOL_ENTRY_SIZE"
  have above: "\<forall>n\<in>numbers s. ack_segment s \<le> n" and log: "in_order (whole s)"
      "\<forall>r\<in>set (whole s). gateway_seq r \<le> last_allocated_seq s"
      "0 < ?k \<longrightarrow> gateway_seq (whole s ! (?k - 1)) = last_acked_seq s"
    using kept by (simp_all add: log_kept_def Let_def)
  have tab: "0 < ack_segment s" "ack_segment s \<le> write_segment s" "write_segment s \<le> u64_max"
      "write_offset s = length (seg_log s (write_segment s)) * ?E"
      "\<forall>n\<in>{ack_segment s..<write_segment s}. length (seg_log s n) = segment_records s"
    using parts(3) by (auto simp: table_ok_def)
  have ack: "?E dvd ack_offset s" "ack_offset s \<le> length (seg_log s (ack_segment s)) * ?E"
    using parts(4) by (simp_all add: cursor_ok_def)
  note front = whole_front [OF tab(2) ack(2)]
  have k: "?k \<le> length (seg_log s (ack_segment s))" using ack by (auto elim!: dvdE)
  have all: "all_log t (seg_log s) = whole s" by (simp add: all_log_def whole_def t_def)
  show beh: "behind t (seg_log s) = pend s" unfolding behind_def all front(2) by (simp add: t_def)
  have none: "seg_log s n = []" if "n \<notin> {ack_segment s..<hi}" for n
  proof -
    have "n \<notin> numbers s"
      using that above numbers_between(2) [OF parts(3), of n] hi by (auto simp: le_less)
    then show ?thesis by (simp add: seg_log_def)
  qed
  have recs: "rec_ok r" if r: "r \<in> set (whole s)" for r
  proof -
    obtain n where n: "r \<in> set (seg_log s n)" using r by (auto simp: whole_def all_log_def simp del: upt_Suc)
    then have "n \<in> numbers s" by (auto simp: seg_log_def split: if_split_asm)
    then obtain g where "g \<in> set (segments s)" "seg_number g = n" by (auto simp: numbers_def)
    then show ?thesis using parts(2) n by (auto simp: segment_ok_def Let_def holds_def)
  qed
  have bytes: "length (whole s) * ?E \<le> max_bytes (options s)"
    using log_bytes [OF wide inv(2) above] parts(6) by (simp add: bytes_ok_def)
  have fence: "last_allocated_seq s \<le> sequence_fence s" "last_acked_seq s \<le> last_allocated_seq s"
      "0 < next_batch_seq s" "next_batch_seq s \<le> u64_max" "\<forall>r\<in>set (pend s). last_acked_seq s < gateway_seq r"
    using parts(5) by (simp_all add: sequences_ok_def)
  have short: "length (seg_log s (write_segment s)) < segment_records s"
    using room tab(4) parts(1) by (simp add: options_ok_def)
  have few: "hi - ack_segment s + 3 \<le> 67108864" using few_segments [OF wide inv(2) above small] hi by auto
  have acked: "gateway_seq (seg_log s (ack_segment s) ! (?k - 1)) = last_acked_seq s" if "ack_offset s \<noteq> 0"
  proof -
    have k0: "0 < ?k" using that ack(1) by (auto elim!: dvdE)
    then have "whole s ! (?k - 1) = seg_log s (ack_segment s) ! (?k - 1)"
      unfolding front(1) nth_append using k by (subst if_P) simp_all
    then show ?thesis using log(3) k0 by simp
  qed
  have below: "gateway_seq r \<le> sequence_fence s" if "r \<in> set (whole s)" for r
    using log(2) fence(1) that order_trans by blast
  have hi': "hi = write_segment s \<or> hi = Suc (write_segment s)" using hi by blast
  show "saved_ok t hi (seg_log s)"
    unfolding saved_ok_def beh all
    using parts(1) tab hi' few fence none ack w log below recs bytes short acked
    by (simp add: t_def options_ok_def)
qed

lemma restart_left:
  assumes inv: "spool_inv s" "\<not> failed s" and kept: "kept_for_restart s" and crash: "crash_leaves s d"
    and gen: "generation s < u64_max"
    and st: "view (io s) ''state.v2'' = Some (ino, encode_state t (generation s))"
    and t: "ack_segment t = ack_segment s" "write_segment t = write_segment s"
  defines "hi \<equiv> if view d (segment_name (write_segment s)) = None then write_segment s else Suc (write_segment s)"
  shows "left_behind d t (generation s) hi (seg_log s)"
    and "hi = write_segment s \<and> write_segment s \<notin> numbers s \<or> hi = Suc (write_segment s)"
proof -
  have parts: "\<forall>g\<in>set (segments s). segment_ok s g" "table_ok s" using inv by (simp_all add: spool_inv_def wide_inv_def)
  let ?f = "segment_name (write_segment s)"
  have above: "\<forall>n\<in>numbers s. ack_segment s \<le> n" and gen0: "0 < generation s" and known: "files_known s"
    using kept by (simp_all add: kept_for_restart_def log_kept_def state_saved_def)
  note bet = numbers_between [OF parts(2)]
  have wf: "disk_wf d" and other: "\<And>name. name \<noteq> ''state.v2.tmp'' \<Longrightarrow> name \<noteq> ?f \<Longrightarrow> view d name = view (io s) name"
    using crash by (simp_all add: crash_leaves_def)
  have holds: "holds (io s) n (seg_log s n)" if "n \<in> numbers s" for n
    using that parts(1) by (auto simp: numbers_def segment_ok_def Let_def)
  have ws: "write_segment s \<le> u64_max" "ack_segment s \<le> write_segment s" using parts(2) by (simp_all add: table_ok_def)
  have absent: "view (io s) ?f = None" if new: "write_segment s \<notin> numbers s"
  proof (rule ccontr)
    assume "view (io s) ?f \<noteq> None"
    then have "?f \<in> segment_name ` numbers s"
      using known book_names_no_segment(2) by (auto simp: files_known_def)
    then show False using new bet(3) ws(1) segment_name_inject [of "write_segment s"] by auto
  qed
  have tail_ok: "\<exists>p. file_holds d (write_segment s) (seg_log s (write_segment s)) p" if here: "view d ?f \<noteq> None"
  proof -
    obtain ino p where p: "length p < GATEWAY_SPOOL_ENTRY_SIZE"
        "view d ?f = Some (ino, (case view (io s) ?f of None \<Rightarrow> [] | Some (_, c) \<Rightarrow> c) @ p)"
    proof (cases "view d ?f = view (io s) ?f")
      case True
      then obtain ino c where "view d ?f = Some (ino, c)" "view (io s) ?f = Some (ino, c)" using here by auto
      then show ?thesis by (intro that [of "[]"]) (simp_all add: GATEWAY_SPOOL_ENTRY_SIZE_def)
    next
      case False
      then show ?thesis using crash that unfolding crash_leaves_def by blast
    qed
    show ?thesis
    proof (cases "write_segment s \<in> numbers s")
      case True
      then show ?thesis using holds [OF True] p by (auto simp: file_holds_def holds_def)
    next
      case False
      then show ?thesis using absent p by (auto simp: file_holds_def seg_log_def rec_bytes_def)
    qed
  qed
  have in_use: "write_segment s \<in> numbers s \<Longrightarrow> view d ?f \<noteq> None"
    using holds [of "write_segment s"] crash unfolding crash_leaves_def holds_def by auto
  then show "hi = write_segment s \<and> write_segment s \<notin> numbers s \<or> hi = Suc (write_segment s)"
    by (auto simp: hi_def)
  have segs: "\<exists>p. file_holds d n (seg_log s n) p \<and> (n \<noteq> write_segment s \<longrightarrow> p = [])"
    if n: "n \<in> {ack_segment s..<hi}" for n
  proof (cases "n = write_segment s")
    case True
    then have "view d ?f \<noteq> None" using n by (auto simp: hi_def split: if_split_asm)
    then show ?thesis using tail_ok True by simp
  next
    case False
    then have "n < write_segment s" using n by (auto simp: hi_def split: if_split_asm)
    then have n': "n \<in> numbers s" using bet(1) n by simp
    have "segment_name n \<noteq> ?f" using segment_name_inject [of n "write_segment s"] bet(3) [OF n'] ws(1) False by auto
    then have "view d (segment_name n) = view (io s) (segment_name n)" using other [of "segment_name n"] by simp
    then show ?thesis
      using holds [OF n'] by (intro exI [of _ "[]"]) (simp add: file_holds_def holds_def GATEWAY_SPOOL_ENTRY_SIZE_def)
  qed
  have names: "name \<in> book_names \<or> name \<in> segment_name ` {ack_segment s..<hi}" if n: "view d name \<noteq> None" for name
  proof -
    consider "name = ''state.v2.tmp''" | "name = ?f" | "name \<noteq> ''state.v2.tmp''" "name \<noteq> ?f" by blast
    then show ?thesis
    proof cases
      case 2
      then show ?thesis using n ws(2) by (auto simp: hi_def)
    next
      case 3
      then have "name \<in> book_names \<or> name \<in> segment_name ` numbers s"
        using n other known by (simp add: files_known_def)
      moreover have "m \<in> {ack_segment s..<hi}" if "m \<in> numbers s" "segment_name m \<noteq> ?f" for m
        using that above bet(2) [OF that(1)] by (cases "m = write_segment s") (auto simp: hi_def)
      ultimately show ?thesis using 3 by blast
    qed (simp add: book_names_def)
  qed
  have "view d ''state.v2'' = Some (ino, encode_state t (generation s))" using other [of "''state.v2''"] st by simp
  then show "left_behind d t (generation s) hi (seg_log s)"
    unfolding left_behind_def t using wf gen gen0 names segs by blast
qed

text \<open>The reopened spool can be restarted again.\<close>

lemma reopened_log:
  assumes ok: "saved_ok t hi L" and s: "reopened d t gen hi L s"
  shows "log_kept s" and "numbers s = {ack_segment t..<hi}"
proof -
  note ri = reopened_inv [OF ok s]
  have core: "ack_segment s = ack_segment t" "ack_offset s = ack_offset t" "write_segment s = write_segment t"
      "segments s = map (seg_entry L) [ack_segment t..<hi]"
    using s by (simp_all add: reopened_def same_core_def)
  show nums: "numbers s = {ack_segment t..<hi}" by (simp add: numbers_def core image_image)
  have whole: "whole s = all_log t L" by (simp add: whole_def all_log_def ri(10) core)
  have seqs: "sequences_ok s" and cur: "cursor_ok s (ack_segment s) (ack_offset s)" "ack_segment s \<le> write_segment s"
    using ri(1,2) by (simp_all add: spool_inv_def wide_inv_def table_ok_def)
  let ?k = "ack_offset s div GATEWAY_SPOOL_ENTRY_SIZE"
  have off: "ack_offset s \<le> length (seg_log s (ack_segment s)) * GATEWAY_SPOOL_ENTRY_SIZE"
    using cur(1) by (simp add: cursor_ok_def)
  note front = whole_front [OF cur(2) off]
  have k: "?k \<le> length (seg_log s (ack_segment s))" using cur(1) by (auto simp: cursor_ok_def elim!: dvdE)
  have order: "in_order (whole s)" using ok unfolding whole by (simp add: saved_ok_def)
  have acked: "gateway_seq (whole s ! (?k - 1)) = last_acked_seq s" if k0: "0 < ?k"
  proof -
    have "whole s ! (?k - 1) = seg_log s (ack_segment s) ! (?k - 1)"
      unfolding front(1) nth_append using k k0 by (subst if_P) simp_all
    moreover have "ack_offset t \<noteq> 0" using k0 core(2) by (cases "ack_offset t = 0") simp_all
    ultimately show ?thesis using ok core ri(6,10) by (simp add: saved_ok_def)
  qed
  have "gateway_seq r \<le> last_allocated_seq s" if r: "r \<in> set (whole s)" for r
  proof -
    obtain i where i: "i < length (whole s)" "r = whole s ! i" using r by (auto simp: in_set_conv_nth)
    show ?thesis
    proof (cases "?k \<le> i")
      case True
      then have "r = pend s ! (i - ?k)" "i - ?k < length (pend s)" unfolding front(2) using i by simp_all
      then have "r \<in> set (pend s)" by simp
      then show ?thesis using seqs by (simp add: sequences_ok_def)
    next
      case False
      then have le: "i \<le> ?k - 1" "0 < ?k" by linarith+
      have "?k \<le> length (whole s)" using k unfolding front(1) by simp
      then have in_range: "?k - 1 < length (whole s)" using le(2) by linarith
      have "gateway_seq r \<le> gateway_seq (whole s ! (?k - 1))"
      proof (cases "i = ?k - 1")
        case False
        then have "i < ?k - 1" using le(1) by linarith
        from sorted_wrt_nth_less [OF order [unfolded in_order_def] this in_range] show ?thesis using i(2) by simp
      qed (use i(2) in simp)
      also have "\<dots> \<le> last_allocated_seq s" using seqs acked [OF le(2)] by (simp add: sequences_ok_def)
      finally show ?thesis .
    qed
  qed
  then show "log_kept s" using order acked by (simp add: log_kept_def nums core(1) Let_def)
qed

lemma reopened_kept:
  assumes left: "left_behind d t gen hi L" and ok: "saved_ok t hi L" and s: "reopened d t gen hi L s"
  shows "kept_for_restart s"
proof -
  note rl = reopened_log [OF ok s] and ri = reopened_inv [OF ok s]
  have core: "same_core s (restored t hi L d)" and cur: "state_current s t gen" and other: "other_files s {ack_segment t..<hi} d"
    using s by (simp_all add: reopened_def)
  have "files_known s"
    unfolding files_known_def rl(2)
  proof (intro allI impI)
    fix name assume n: "view (io s) name \<noteq> None"
    show "name \<in> book_names \<or> name \<in> segment_name ` {ack_segment t..<hi}"
    proof (rule ccontr)
      assume c: "\<not> (name \<in> book_names \<or> name \<in> segment_name ` {ack_segment t..<hi})"
      then have "view d name = view (io s) name" using other by (simp add: other_files_def)
      then have "view d name \<noteq> None" using n by simp
      then show False using left c by (simp add: left_behind_def)
    qed
  qed
  moreover have "state_saved s"
  proof -
    have gen: "0 < gen" "gen < u64_max" using left by (simp_all add: left_behind_def)
    have fields: "write_offset s = length (L (write_segment t)) * GATEWAY_SPOOL_ENTRY_SIZE"
        "write_offset t < write_offset s \<or> last_allocated_seq s = last_allocated_seq t"
      using core by (simp_all add: same_core_def) (simp add: restored_def)
    have seqs: "last_acked_seq s \<le> last_allocated_seq s" "last_allocated_seq s \<le> sequence_fence s"
      using ri(1,2) by (simp_all add: spool_inv_def wide_inv_def sequences_ok_def)
    have wt: "GATEWAY_SPOOL_ENTRY_SIZE dvd write_offset t" "write_offset t \<le> write_offset s"
        "last_acked_seq t \<le> last_allocated_seq t" "last_allocated_seq t \<le> sequence_fence t"
      using ok by (simp_all add: saved_ok_def fields)
    obtain ino where "generation s = gen \<and> view (io s) ''state.v2'' = Some (ino, encode_state t gen) \<or>
        generation s = gen + 1 \<and> view (io s) ''state.v2'' = Some (ino, encode_state s (gen + 1))"
      using cur by (auto simp: state_current_def)
    then show ?thesis
    proof
      assume g: "generation s = gen \<and> view (io s) ''state.v2'' = Some (ino, encode_state t gen)"
      have "encode_state t gen =
          encode_state (s\<lparr>write_offset := write_offset t, last_allocated_seq := last_allocated_seq t\<rparr>) gen"
        using core by (intro encode_state_fields) (simp_all add: same_core_def)
      then show ?thesis
        unfolding state_saved_def using g gen wt fields(2) ri(6,7)
        by (intro conjI, simp, simp, intro exI [of "\<lambda>ino. \<exists>w q. _ ino w q" ino],
            intro exI [of "\<lambda>w. \<exists>q. _ w q" "write_offset t"], intro exI [of _ "last_allocated_seq t"]) auto
    next
      assume g: "generation s = gen + 1 \<and> view (io s) ''state.v2'' = Some (ino, encode_state s (gen + 1))"
      have "GATEWAY_SPOOL_ENTRY_SIZE dvd write_offset s" by (simp add: fields(1))
      then show ?thesis
        unfolding state_saved_def using g gen seqs
        by (intro conjI, simp, simp, intro exI [of "\<lambda>ino. \<exists>w q. _ ino w q" ino],
            intro exI [of "\<lambda>w. \<exists>q. _ w q" "write_offset s"], intro exI [of _ "last_allocated_seq s"]) simp
    qed
  qed
  ultimately show ?thesis using rl(1) by (simp add: kept_for_restart_def)
qed

lemma restart_result:
  assumes inv: "spool_inv s" "\<not> failed s" and kept: "kept_for_restart s" and crash: "crash_leaves s d"
    and gen: "generation s < u64_max" and small: "16 \<le> segment_records s"
    and path: "path_ok path" and calls: "outcomes d = []" "directory_status d = Path_directory"
  obtains s' where "gateway_spool_v2_open True (Some path) (Some (options s)) (segment_records s)
      GATEWAY_SPOOL_FAULT_NONE d = (GATEWAY_OK, Some s', io s')"
    "spool_inv s'" "\<not> failed s'" "\<not> batch_prepared s'" "pend s' = pend s"
    "next_batch_seq s' = next_batch_seq s" "last_acked_seq s' = last_acked_seq s"
    "gateway_spool_v2_last_gateway_seq s' = sequence_fence s" "kept_for_restart s'"
    "options s' = options s" "segment_records s' = segment_records s"
proof -
  obtain ino w q where st: "view (io s) ''state.v2'' =
        Some (ino, encode_state (s\<lparr>write_offset := w, last_allocated_seq := q\<rparr>) (generation s))"
      and w: "GATEWAY_SPOOL_ENTRY_SIZE dvd w" "w \<le> write_offset s" "last_acked_seq s \<le> q" "q \<le> sequence_fence s"
        "w = write_offset s \<longrightarrow> q = last_allocated_seq s"
    using kept by (auto simp: kept_for_restart_def state_saved_def)
  let ?t = "s\<lparr>write_offset := w, last_allocated_seq := q\<rparr>"
  let ?hi = "if view d (segment_name (write_segment s)) = None then write_segment s else Suc (write_segment s)"
  have log: "log_kept s" using kept by (simp add: kept_for_restart_def)
  have left: "left_behind d ?t (generation s) ?hi (seg_log s)"
      "?hi = write_segment s \<and> write_segment s \<notin> numbers s \<or> ?hi = Suc (write_segment s)"
    by (rule restart_left [OF inv kept crash gen st], simp, simp)+
  note ready = restart_ready [OF inv log small left(2) w]
  obtain s' where o: "gateway_spool_v2_open True (Some path) (Some (options ?t)) (segment_records ?t)
      GATEWAY_SPOOL_FAULT_NONE d = (GATEWAY_OK, Some s', io s')"
    and r: "reopened d ?t (generation s) ?hi (seg_log s) s'"
    using reopen_result [OF left(1) ready(1) path calls] by blast
  note ri = reopened_inv [OF ready(1) r]
  show thesis
  proof (rule that)
    show "gateway_spool_v2_open True (Some path) (Some (options s)) (segment_records s)
      GATEWAY_SPOOL_FAULT_NONE d = (GATEWAY_OK, Some s', io s')" using o by simp
    show "kept_for_restart s'" by (rule reopened_kept [OF left(1) ready(1) r])
  qed (use ri ready(2) in simp_all)
qed

end
