(* ===== verification/Spool_V2_Lives.thy ===== *)
theory Spool_V2_Lives
  imports Spool_V2_Survives
begin

text \<open>
  The lives of a segmented spool: a process opens it on an empty directory and calls its operations,
  dies, and another process opens what is on the disk, any number of times. The properties of
  such a history.
\<close>

subsection \<open>Histories\<close>

text \<open>\<open>life\<close> holds of the records offered for appending so far and of what the client has seen. A
  restart follows the death of a process whose spool is open and has not used up a 64-bit counter;
  the files are those of \<open>crash_leaves\<close>.\<close>

inductive life ::
    "string \<Rightarrow> gateway_spool_v2_options \<Rightarrow> nat \<Rightarrow> telemetry_record list \<Rightarrow>
     (telemetry_record, gateway_spool_v2) client \<Rightarrow> bool"
  for path :: string and opts :: gateway_spool_v2_options and n :: nat where
  first: "disk_wf d \<Longrightarrow> names d = [] \<Longrightarrow>
    gateway_spool_v2_open True (Some path) (Some opts) n GATEWAY_SPOOL_FAULT_NONE d = (GATEWAY_OK, Some s, d') \<Longrightarrow>
    life path opts n [] \<lparr>accepted = [], handed = [], confirmed = [], in_hand = [], spool = s\<rparr>"
| call: "life path opts n attempts c \<Longrightarrow> \<forall>r\<in>set (offered [op]). wf_record r \<Longrightarrow>
    life path opts n (attempts @ offered [op]) (v2.step op c)"
| restart: "life path opts n attempts c \<Longrightarrow> \<not> failed (spool c) \<Longrightarrow> generation (spool c) < u64_max \<Longrightarrow>
    write_segment (spool c) < u64_max \<Longrightarrow> crash_leaves (spool c) d \<Longrightarrow>
    outcomes d = [] \<Longrightarrow> directory_status d = Path_directory \<Longrightarrow>
    gateway_spool_v2_open True (Some path) (Some opts) n GATEWAY_SPOOL_FAULT_NONE d = (GATEWAY_OK, Some s, d') \<Longrightarrow>
    life path opts n attempts (c\<lparr>in_hand := [], spool := s\<rparr>)"

text \<open>The spool that the next process gets.\<close>

lemma going_restart:
  assumes g: "going opts n s" and inv: "spool_inv s" "\<not> failed s"
    and fresh: "generation s < u64_max" "write_segment s < u64_max"
    and crash: "crash_leaves s d" and calls: "outcomes d = []" "directory_status d = Path_directory"
    and path: "path_ok path" and small: "16 \<le> n"
  obtains s' where "gateway_spool_v2_open True (Some path) (Some opts) n GATEWAY_SPOOL_FAULT_NONE d =
      (GATEWAY_OK, Some s', io s')"
    "spool_inv s'" "\<not> failed s'" "prepared_count s' = 0" "pend s' = pend s"
    "next_batch_seq s' = next_batch_seq s" "last_acked_seq s' = last_acked_seq s"
    "gateway_spool_v2_last_gateway_seq s' = sequence_fence s" "going opts n s'"
proof -
  have k: "kept_for_restart s" "options s = opts" "segment_records s = n"
    using g inv(2) fresh(2) by (auto simp: going_def)
  have small': "16 \<le> segment_records s" using small k(3) by simp
  show thesis
  proof (rule restart_result [OF inv k(1) crash fresh(1) small' path calls])
    fix s'
    assume r: "gateway_spool_v2_open True (Some path) (Some (options s)) (segment_records s)
        GATEWAY_SPOOL_FAULT_NONE d = (GATEWAY_OK, Some s', io s')"
      "spool_inv s'" "\<not> failed s'" "\<not> batch_prepared s'" "pend s' = pend s"
      "next_batch_seq s' = next_batch_seq s" "last_acked_seq s' = last_acked_seq s"
      "gateway_spool_v2_last_gateway_seq s' = sequence_fence s" "kept_for_restart s'"
      "options s' = options s" "segment_records s' = segment_records s"
    show thesis
      by (rule that [of s']) (use r k no_batch in \<open>simp_all add: going_def\<close>)
  qed
qed

lemma life_invariant:
  assumes "life path opts n attempts c" and path: "path_ok path" and small: "16 \<le> n"
  shows "v2.balanced [] attempts c \<and> going opts n (spool c)"
  using assms(1)
proof (induction rule: life.induct)
  case (first d s d')
  note f = first_open_kept [OF first(3,1,2)]
  then show ?case by (auto simp: v2.balanced_def going_def)
next
  case (call attempts c op)
  have "spool_inv (spool c)" using call.IH by (simp add: v2.balanced_def)
  then show ?case
    using v2.balanced_step [OF _ call.hyps(2)] op_going [OF _ _ call.hyps(2)] call.IH by blast
next
  case (restart attempts c d s d')
  have b: "v2.balanced [] attempts c" and g: "going opts n (spool c)" using restart.IH by simp_all
  have inv: "spool_inv (spool c)" using b by (simp add: v2.balanced_def)
  show ?case
  proof (rule going_restart [OF g inv restart.hyps(2-7) path small])
    fix s'
    assume r: "gateway_spool_v2_open True (Some path) (Some opts) n GATEWAY_SPOOL_FAULT_NONE d =
        (GATEWAY_OK, Some s', io s')" "spool_inv s'" "\<not> failed s'" "prepared_count s' = 0"
      "pend s' = pend (spool c)" "going opts n s'"
    have "s' = s" using r(1) restart.hyps(8) by simp
    then show ?thesis using b r by (simp add: v2.balanced_def)
  qed
qed

subsection \<open>A concrete history\<close>

definition small_options :: gateway_spool_v2_options where
  "small_options = \<lparr>max_bytes = 1048576, sync_records = 4, sync_interval_ms = 100\<rparr>"

text \<open>The disk of a spool as it is, for a process in which no call fails.\<close>

definition rebooted :: "gateway_spool_v2 \<Rightarrow> disk" where
  "rebooted s = (io s)\<lparr>outcomes := [], directory_status := Path_directory\<rparr>"

lemma rebooted_crash:
  assumes "spool_inv s" and "\<not> failed s"
  shows "crash_leaves s (rebooted s)" and "outcomes (rebooted s) = []"
    and "directory_status (rebooted s) = Path_directory"
proof -
  have "disk_wf (io s)" using assms by (simp add: spool_inv_def wide_inv_def)
  then show "crash_leaves s (rebooted s)"
    by (simp add: crash_leaves_def rebooted_def disk_wf_def view_def fun_eq_iff)
qed (simp_all add: rebooted_def)

lemma small_path: "path_ok ''/var/spool''"
  by (simp add: path_ok_def GATEWAY_SPOOL_PATH_SIZE_def)

lemma small_life:
  obtains s d where "gateway_spool_v2_open True (Some ''/var/spool'') (Some small_options) 16
      GATEWAY_SPOOL_FAULT_NONE empty_disk = (GATEWAY_OK, Some s, d)"
    "spool_inv s" "\<not> failed s" "generation s < u64_max" "write_segment s < u64_max" "pend s = []"
    "life ''/var/spool'' small_options 16 []
      \<lparr>accepted = [], handed = [], confirmed = [], in_hand = [], spool = s\<rparr>"
proof -
  have disk: "disk_wf empty_disk" "names empty_disk = []" "outcomes empty_disk = []"
      "directory_status empty_disk = Path_directory"
    by (simp_all add: empty_disk_def disk_wf_def)
  have opts: "options_valid small_options 16"
    by (simp add: options_valid_def small_options_def GATEWAY_SPOOL_V2_SEGMENT_RECORDS_def
        GATEWAY_SPOOL_ENTRY_SIZE_def GATEWAY_SPOOL_MAX_BYTES_MAX_def)
  obtain code res d where o: "gateway_spool_v2_open True (Some ''/var/spool'') (Some small_options) 16
      GATEWAY_SPOOL_FAULT_NONE empty_disk = (code, res, d)" by (metis prod_cases3)
  have "code = GATEWAY_OK" using first_open_succeeds [OF opts small_path disk(2-4,1)] o by simp
  then obtain s where s: "gateway_spool_v2_open True (Some ''/var/spool'') (Some small_options) 16
      GATEWAY_SPOOL_FAULT_NONE empty_disk = (GATEWAY_OK, Some s, d)"
    using first_open_result [OF o disk(1,2)] o by auto
  note f = first_open_kept [OF s disk(1,2)]
  show thesis
    by (rule that [OF s f(4,5) _ _ f(6) life.first [OF disk(1,2) s]]) (simp_all add: f u64_max_def)
qed

subsection \<open>Properties\<close>





end
