(* ===== verification/Spool_Legacy.thy ===== *)
theory Spool_Legacy
  imports Telemetry Posix_Io
begin

text \<open>
  The legacy spool, \<open>gateway/src/spool.c\<close>: one data file of GSP1 entries that only grows, and a state
  file with the acknowledge cursor that is replaced by renaming a temporary file over it. The
  record holds the fields of \<open>struct gateway_spool\<close> that the format uses, and in \<open>lg_io\<close> the file system its
  calls act on. File names are full paths; all three files are in one directory. Counters that the
  code increments without a guard are words; file offsets are naturals. Pointers to a spool
  and to result variables are never null here.
\<close>

subsection \<open>State\<close>

definition LEGACY_STATE_SIZE :: nat where
  "LEGACY_STATE_SIZE = 40"

definition LEGACY_PATH_SIZE :: nat where
  "LEGACY_PATH_SIZE = 512"

definition STATE_PATH_SIZE :: nat where
  "STATE_PATH_SIZE = LEGACY_PATH_SIZE + 16"

definition STATE_MAGIC :: bytes where
  "STATE_MAGIC = map (of_nat \<circ> of_char) ''GST1''"

record legacy_spool =
  lg_data_fd :: "nat option"
  lg_data_path :: string
  lg_state_path :: string
  lg_state_tmp_path :: string
  lg_data_end :: nat
  lg_ack_offset :: nat
  lg_prepared_end :: nat
  lg_last_gateway_seq :: u64
  lg_last_acked_gateway_seq :: u64
  lg_next_batch_seq :: u64
  lg_records_appended :: u64
  lg_records_replayed :: u64
  lg_tail_recoveries :: u64
  lg_state_recoveries :: u64
  lg_corruptions :: u64
  lg_batch_prepared :: bool
  lg_io :: disk

text \<open>The structure after \<open>calloc\<close>.\<close>

definition zero_legacy_spool :: "disk \<Rightarrow> legacy_spool" where
  "zero_legacy_spool d = \<lparr>lg_data_fd = None, lg_data_path = [], lg_state_path = [],
     lg_state_tmp_path = [], lg_data_end = 0, lg_ack_offset = 0, lg_prepared_end = 0,
     lg_last_gateway_seq = 0, lg_last_acked_gateway_seq = 0, lg_next_batch_seq = 0,
     lg_records_appended = 0, lg_records_replayed = 0, lg_tail_recoveries = 0,
     lg_state_recoveries = 0, lg_corruptions = 0, lg_batch_prepared = False, lg_io = d\<rparr>"

text \<open>The descriptor of an open spool.\<close>

definition data_ino :: "legacy_spool \<Rightarrow> nat" where
  "data_ino s = the (lg_data_fd s)"

definition derive_paths :: "string \<Rightarrow> legacy_spool \<Rightarrow> gateway_error_code \<times> legacy_spool" where
  "derive_paths path s =
     (let n = length path in
      if n = 0 \<or> n \<ge> LEGACY_PATH_SIZE \<or> hd path \<noteq> CHR ''/'' then (GATEWAY_ERROR_ARGUMENT, s)
      else
        let state = (if n \<ge> 5 \<and> drop (n - 5) path = ''.data'' then take (n - 5) path @ ''.state''
                     else path @ ''.state'');
            s = s\<lparr>lg_data_path := path, lg_state_path := take (STATE_PATH_SIZE - 1) state\<rparr>
        in if length state \<ge> STATE_PATH_SIZE then (GATEWAY_ERROR_RANGE, s)
           else let tmp = state @ ''.tmp'';
                    s = s\<lparr>lg_state_tmp_path := take (STATE_PATH_SIZE - 1) tmp\<rparr>
             in (if length tmp \<ge> STATE_PATH_SIZE then GATEWAY_ERROR_RANGE else GATEWAY_OK, s))"

subsection \<open>Reading the data file\<close>

definition truncate_tail :: "nat \<Rightarrow> legacy_spool \<Rightarrow> gateway_error_code \<times> legacy_spool" where
  "truncate_tail valid_end s =
     (let (cut, d) = sys_ftruncate (data_ino s) valid_end (lg_io s) in
      if \<not> cut then (GATEWAY_ERROR_IO, s\<lparr>lg_io := d\<rparr>)
      else let (synced, d) = sys_fdatasync (data_ino s) d; s = s\<lparr>lg_io := d\<rparr> in
        if \<not> synced then (GATEWAY_ERROR_IO, s)
        else (GATEWAY_OK, s\<lparr>lg_data_end := valid_end, lg_tail_recoveries := lg_tail_recoveries s + 1\<rparr>))"

text \<open>The scan loop over the \<open>n\<close> whole entries from \<open>offset\<close> on: \<open>Inl\<close> when the function returns out of
  the loop, \<open>Inr\<close> with the last sequence number when the loop ends.\<close>

fun legacy_scan_entries ::
    "nat \<Rightarrow> nat \<Rightarrow> nat \<Rightarrow> u64 \<Rightarrow> legacy_spool \<Rightarrow>
       (gateway_error_code \<times> legacy_spool) + (u64 \<times> legacy_spool)" where
  "legacy_scan_entries st_size 0 offset previous_seq s = Inr (previous_seq, s)"
| "legacy_scan_entries st_size (Suc n) offset previous_seq s =
     (let (entry, d) = read_exact (data_ino s) GATEWAY_SPOOL_ENTRY_SIZE offset (lg_io s);
          s = s\<lparr>lg_io := d\<rparr>
      in case entry of
        Inl code \<Rightarrow> Inl (code, s)
      | Inr bs \<Rightarrow>
          let bad = (if offset + GATEWAY_SPOOL_ENTRY_SIZE = st_size
                     then Inl (truncate_tail offset (s\<lparr>lg_last_gateway_seq := previous_seq\<rparr>))
                     else Inl (GATEWAY_ERROR_INVALID_VALUE, s\<lparr>lg_corruptions := lg_corruptions s + 1\<rparr>))
          in case decode_record bs of
            Inl _ \<Rightarrow> bad
          | Inr r \<Rightarrow> if gateway_seq r \<le> previous_seq then bad
              else legacy_scan_entries st_size n (offset + GATEWAY_SPOOL_ENTRY_SIZE) (gateway_seq r) s)"

definition scan_data :: "legacy_spool \<Rightarrow> gateway_error_code \<times> legacy_spool" where
  "scan_data s =
     (let (status, d) = sys_fstat (data_ino s) (lg_io s); s = s\<lparr>lg_io := d\<rparr> in
      case status of
        None \<Rightarrow> (GATEWAY_ERROR_IO, s)
      | Some (reg, st_size) \<Rightarrow>
          if \<not> reg then (GATEWAY_ERROR_IO, s)
          else
            let s = s\<lparr>lg_data_end := st_size\<rparr> in
            case legacy_scan_entries st_size (st_size div GATEWAY_SPOOL_ENTRY_SIZE) 0 0 s of
              Inl result \<Rightarrow> result
            | Inr (previous_seq, s) \<Rightarrow>
                let offset = st_size - st_size mod GATEWAY_SPOOL_ENTRY_SIZE;
                    (code, s) = (if offset \<noteq> st_size then truncate_tail offset s else (GATEWAY_OK, s))
                in if code \<noteq> GATEWAY_OK then (code, s)
                   else (GATEWAY_OK, s\<lparr>lg_last_gateway_seq := previous_seq\<rparr>))"

definition record_seq_at :: "nat \<Rightarrow> legacy_spool \<Rightarrow> (gateway_error_code + u64) \<times> legacy_spool" where
  "record_seq_at offset s =
     (let (entry, d) = read_exact (data_ino s) GATEWAY_SPOOL_ENTRY_SIZE offset (lg_io s);
          s = s\<lparr>lg_io := d\<rparr>
      in case entry of
        Inl code \<Rightarrow> (Inl code, s)
      | Inr bs \<Rightarrow> (case decode_record bs of Inl code \<Rightarrow> (Inl code, s) | Inr r \<Rightarrow> (Inr (gateway_seq r), s)))"

subsection \<open>The state file\<close>

definition state_image :: "nat \<Rightarrow> u64 \<Rightarrow> u64 \<Rightarrow> bytes" where
  "state_image acknowledged ack_seq next_batch =
     (let tail = replicate 4 0 @ put_u64 (of_nat acknowledged) @ put_u64 ack_seq @ put_u64 next_batch in
      STATE_MAGIC @ put_u16 1 @ put_u16 (of_nat LEGACY_STATE_SIZE) @ put_u32 (crc32_bytes tail) @ tail)"

definition image_valid :: "bytes \<Rightarrow> bool" where
  "image_valid st \<longleftrightarrow>
     take 4 st = STATE_MAGIC \<and> get_u16 (drop 4 st) = 1 \<and>
     get_u16 (drop 6 st) = of_nat LEGACY_STATE_SIZE \<and>
     get_u32 (drop 8 st) = crc32_bytes (drop 12 st)"

text \<open>Whether \<open>open\<close> failed because the file is missing is read off the directory. The result of the
  checks is the cursor, or \<open>None\<close> for the cursor of an unusable state file.\<close>

definition legacy_load_state :: "legacy_spool \<Rightarrow> gateway_error_code \<times> legacy_spool" where
  "legacy_load_state s =
     (let missing = map_of (names (lg_io s)) (lg_state_path s) = None;
          (attempted, d0) = sys_call (lg_io s);
          (descriptor, d) = sys_open (lg_state_path s) (lg_io s);
          s = s\<lparr>lg_next_batch_seq := 1, lg_io := d\<rparr>;
          recover = (\<lambda>s. s\<lparr>lg_state_recoveries := lg_state_recoveries s + 1\<rparr>)
      in case descriptor of
        None \<Rightarrow>
          if attempted \<and> missing
          then (GATEWAY_OK, if lg_data_end s \<noteq> 0 then recover s else s)
          else (GATEWAY_ERROR_IO, s)
      | Some ino \<Rightarrow>
          let (status, d) = sys_fstat ino d;
              (state, d) = (case status of
                  None \<Rightarrow> (None, d)
                | Some (reg, n) \<Rightarrow> if n \<noteq> LEGACY_STATE_SIZE then (None, d)
                    else let (r, d) = read_exact ino LEGACY_STATE_SIZE 0 d in
                      (case r of Inl _ \<Rightarrow> None | Inr bs \<Rightarrow> Some bs, d));
              (closed, d) = sys_close d;
              s = s\<lparr>lg_io := d\<rparr>
          in if \<not> closed then (GATEWAY_ERROR_IO, s)
             else case state of
               None \<Rightarrow> (GATEWAY_OK, recover s)
             | Some st \<Rightarrow>
                 let acknowledged = unat (get_u64 (drop 16 st)); ack_seq = get_u64 (drop 24 st);
                     next_batch = get_u64 (drop 32 st)
                 in if \<not> image_valid st \<or> acknowledged > lg_data_end s \<or>
                       acknowledged mod GATEWAY_SPOOL_ENTRY_SIZE \<noteq> 0 \<or> next_batch = 0 \<or>
                       (acknowledged = 0) \<noteq> (ack_seq = 0)
                    then (GATEWAY_OK, recover s)
                    else
                      let (matches, s) =
                        (if acknowledged = 0 then (True, s)
                         else let (actual, s) = record_seq_at (acknowledged - GATEWAY_SPOOL_ENTRY_SIZE) s
                           in (actual = Inr ack_seq, s))
                      in if \<not> matches then (GATEWAY_OK, recover s)
                         else (GATEWAY_OK, s\<lparr>lg_ack_offset := acknowledged,
                             lg_last_acked_gateway_seq := ack_seq, lg_next_batch_seq := next_batch\<rparr>))"

definition fsync_parent_directory :: "string \<Rightarrow> disk \<Rightarrow> gateway_error_code \<times> disk" where
  "fsync_parent_directory path d =
     (if length path \<ge> STATE_PATH_SIZE then (GATEWAY_ERROR_RANGE, d)
      else if CHR ''/'' \<notin> set path then (GATEWAY_ERROR_ARGUMENT, d)
      else let (opened, d) = sys_call d in
        if \<not> opened then (GATEWAY_ERROR_IO, d)
        else let (synced, d) = sys_fsync_directory d; (closed, d) = sys_close d in
          (if synced \<and> closed then GATEWAY_OK else GATEWAY_ERROR_IO, d))"

text \<open>The temporary file is written, synced and closed; then it replaces the state file.\<close>

definition write_state_tmp :: "bytes \<Rightarrow> string \<Rightarrow> disk \<Rightarrow> gateway_error_code \<times> disk" where
  "write_state_tmp st tmp d =
     (let (descriptor, d) = sys_open_trunc tmp d in
      case descriptor of
        None \<Rightarrow> (GATEWAY_ERROR_IO, d)
      | Some ino \<Rightarrow>
          let (code, d) = write_exact ino st 0 d;
              (code, d) = (if code = GATEWAY_OK
                then let (synced, d) = sys_fdatasync ino d in (if synced then GATEWAY_OK else GATEWAY_ERROR_IO, d)
                else (code, d));
              (closed, d) = sys_close d;
              code = (if \<not> closed \<and> code = GATEWAY_OK then GATEWAY_ERROR_IO else code)
          in if code \<noteq> GATEWAY_OK then (code, snd (sys_unlink tmp d)) else (GATEWAY_OK, d))"

definition legacy_persist_state ::
    "nat \<Rightarrow> u64 \<Rightarrow> u64 \<Rightarrow> legacy_spool \<Rightarrow> gateway_error_code \<times> legacy_spool" where
  "legacy_persist_state acknowledged ack_seq next_batch s =
     (let (code, d) = write_state_tmp (state_image acknowledged ack_seq next_batch) (lg_state_tmp_path s) (lg_io s);
          (code, d) =
            (if code \<noteq> GATEWAY_OK then (code, d)
             else let (renamed, d) = sys_rename (lg_state_tmp_path s) (lg_state_path s) d in
               if \<not> renamed then (GATEWAY_ERROR_IO, snd (sys_unlink (lg_state_tmp_path s) d))
               else fsync_parent_directory (lg_state_path s) d)
      in (code, s\<lparr>lg_io := d\<rparr>))"

subsection \<open>Operations\<close>

definition legacy_close :: "legacy_spool \<Rightarrow> disk" where
  "legacy_close s =
     (case lg_data_fd s of None \<Rightarrow> lg_io s | Some _ \<Rightarrow> snd (sys_close (lg_io s)))"

definition legacy_open :: "string option \<Rightarrow> disk \<Rightarrow> gateway_error_code \<times> legacy_spool option \<times> disk" where
  "legacy_open path d =
     (case path of
        None \<Rightarrow> (GATEWAY_ERROR_ARGUMENT, None, d)
      | Some path \<Rightarrow>
          let (allocated, d) = sys_call d in
          if \<not> allocated then (GATEWAY_ERROR_SYSTEM, None, d)
          else
            let (code, s) = derive_paths path (zero_legacy_spool d) in
            if code \<noteq> GATEWAY_OK then (code, None, legacy_close s)
            else
              let (descriptor, d) = sys_open_create (lg_data_path s) (lg_io s);
                  s = s\<lparr>lg_data_fd := descriptor, lg_io := d\<rparr>
              in if descriptor = None then (GATEWAY_ERROR_IO, None, legacy_close s)
                 else
                   let (locked, d) = sys_call (lg_io s); s = s\<lparr>lg_io := d\<rparr> in
                   if \<not> locked then (GATEWAY_ERROR_CLOSED, None, legacy_close s)
                   else
                     let (code, s) = scan_data s;
                         (code, s) = (if code = GATEWAY_OK then legacy_load_state s else (code, s))
                     in if code \<noteq> GATEWAY_OK then (code, None, legacy_close s)
                        else (GATEWAY_OK, Some s, lg_io s))"

definition legacy_append :: "telemetry_record \<Rightarrow> legacy_spool \<Rightarrow> gateway_error_code \<times> legacy_spool" where
  "legacy_append r s =
     (if gateway_seq r = 0 \<or> lg_last_gateway_seq s \<noteq> 0 \<and> gateway_seq r \<le> lg_last_gateway_seq s
      then (GATEWAY_ERROR_INVALID_VALUE, s)
      else
        let original_end = lg_data_end s;
            (code, d) = write_exact (data_ino s) (encode_record r) original_end (lg_io s);
            (synced, d) = (if code = GATEWAY_OK then sys_fdatasync (data_ino s) d else (False, d))
        in if \<not> synced
           then (GATEWAY_ERROR_IO, s\<lparr>lg_io := snd (sys_ftruncate (data_ino s) original_end d)\<rparr>)
           else (GATEWAY_OK, s\<lparr>lg_io := d, lg_data_end := original_end + GATEWAY_SPOOL_ENTRY_SIZE,
               lg_last_gateway_seq := gateway_seq r, lg_records_appended := lg_records_appended s + 1\<rparr>))"

text \<open>The loop takes at most \<open>n\<close> more records.\<close>

fun legacy_prepare_loop ::
    "nat \<Rightarrow> nat \<Rightarrow> telemetry_record list \<Rightarrow> legacy_spool \<Rightarrow>
       gateway_error_code \<times> nat \<times> telemetry_record list \<times> legacy_spool" where
  "legacy_prepare_loop 0 offset rs s = (GATEWAY_OK, offset, rs, s)"
| "legacy_prepare_loop (Suc n) offset rs s =
     (if offset \<ge> lg_data_end s then (GATEWAY_OK, offset, rs, s)
      else
        let (entry, d) = read_exact (data_ino s) GATEWAY_SPOOL_ENTRY_SIZE offset (lg_io s);
            s = s\<lparr>lg_io := d\<rparr>;
            corrupt = (GATEWAY_ERROR_INVALID_VALUE, offset, rs, s\<lparr>lg_corruptions := lg_corruptions s + 1\<rparr>)
        in case entry of
          Inl code \<Rightarrow> (code, offset, rs, s)
        | Inr bs \<Rightarrow>
            (case decode_record bs of
               Inl _ \<Rightarrow> corrupt
             | Inr r \<Rightarrow>
                 if rs \<noteq> [] \<and> gateway_seq r \<le> gateway_seq (last rs) then corrupt
                 else legacy_prepare_loop n (offset + GATEWAY_SPOOL_ENTRY_SIZE) (rs @ [r]) s))"

definition legacy_prepare_batch ::
    "nat \<Rightarrow> legacy_spool \<Rightarrow> gateway_error_code \<times> (telemetry_record list \<times> nat) option \<times> legacy_spool" where
  "legacy_prepare_batch capacity s =
     (if capacity = 0 \<or> lg_batch_prepared s then (GATEWAY_ERROR_ARGUMENT, None, s)
      else
        let (code, offset, rs, s) = legacy_prepare_loop capacity (lg_ack_offset s) [] s in
        if code \<noteq> GATEWAY_OK then (code, None, s)
        else (GATEWAY_OK, Some (rs, unat (lg_next_batch_seq s)),
              if rs \<noteq> []
              then s\<lparr>lg_prepared_end := offset, lg_batch_prepared := True,
                     lg_records_replayed := lg_records_replayed s + of_nat (length rs)\<rparr>
              else s))"

definition legacy_ack_prepared :: "legacy_spool \<Rightarrow> gateway_error_code \<times> legacy_spool" where
  "legacy_ack_prepared s =
     (if \<not> lg_batch_prepared s then (GATEWAY_ERROR_ARGUMENT, s)
      else
        let (found, s) = record_seq_at (lg_prepared_end s - GATEWAY_SPOOL_ENTRY_SIZE) s in
        case found of
          Inl code \<Rightarrow> (code, s\<lparr>lg_corruptions := lg_corruptions s + 1\<rparr>)
        | Inr last_seq \<Rightarrow>
            let (code, s) = legacy_persist_state (lg_prepared_end s) last_seq (lg_next_batch_seq s + 1) s in
            if code \<noteq> GATEWAY_OK then (code, s)
            else (GATEWAY_OK, s\<lparr>lg_ack_offset := lg_prepared_end s, lg_last_acked_gateway_seq := last_seq,
                lg_next_batch_seq := lg_next_batch_seq s + 1, lg_batch_prepared := False,
                lg_prepared_end := 0\<rparr>))"

definition legacy_cancel_prepared :: "legacy_spool \<Rightarrow> legacy_spool" where
  "legacy_cancel_prepared s = s\<lparr>lg_batch_prepared := False, lg_prepared_end := 0\<rparr>"

end
