(* ===== verification/Spool_Legacy_Queue.thy ===== *)
theory Spool_Legacy_Queue
  imports Spool_Legacy Entry_Log Spool_Contract
begin

text \<open>
  The legacy spool as a queue: its invariant, and what each operation does to the queue that the data
  file and the acknowledge cursor stand for. The file holds the records of the log and behind them at most
  80 bytes that a failed append left there; the state file, when there is one, holds a cursor between
  that of the process and the end of the log.
\<close>

subsection \<open>The log\<close>

definition lg_log :: "legacy_spool \<Rightarrow> telemetry_record list" where
  "lg_log s = (case view (lg_io s) (lg_data_path s) of
     None \<Rightarrow> [] | Some (_, c) \<Rightarrow> decoded_log decode_record (take (lg_data_end s) c))"

definition lg_acked :: "legacy_spool \<Rightarrow> nat" where
  "lg_acked s = lg_ack_offset s div GATEWAY_SPOOL_ENTRY_SIZE"

definition lg_pend :: "legacy_spool \<Rightarrow> telemetry_record list" where
  "lg_pend s = drop (lg_acked s) (lg_log s)"

definition lg_batch :: "legacy_spool \<Rightarrow> nat" where
  "lg_batch s = (if lg_batch_prepared s
     then lg_prepared_end s div GATEWAY_SPOOL_ENTRY_SIZE - lg_acked s else 0)"

text \<open>The sequence number of the last of the first \<open>k\<close> records, 0 when there is none.\<close>

definition seq_before :: "telemetry_record list \<Rightarrow> nat \<Rightarrow> u64" where
  "seq_before log k = (if k = 0 then 0 else gateway_seq (log ! (k - 1)))"

subsection \<open>File names\<close>

definition legacy_path_ok :: "string \<Rightarrow> bool" where
  "legacy_path_ok path \<longleftrightarrow> path \<noteq> [] \<and> length path < LEGACY_PATH_SIZE \<and> hd path = CHR ''/''"

definition state_name :: "string \<Rightarrow> string" where
  "state_name path = (if length path \<ge> 5 \<and> drop (length path - 5) path = ''.data''
     then take (length path - 5) path @ ''.state'' else path @ ''.state'')"

lemma derive_paths_result:
  assumes "legacy_path_ok path"
  shows "derive_paths path s = (GATEWAY_OK, s\<lparr>lg_data_path := path, lg_state_path := state_name path,
    lg_state_tmp_path := state_name path @ ''.tmp''\<rparr>)"
proof -
  have "length (state_name path) \<le> length path + 6" by (simp add: state_name_def)
  then have "length (state_name path) + 4 < STATE_PATH_SIZE" "length (state_name path) < STATE_PATH_SIZE"
    using assms by (simp_all add: legacy_path_ok_def STATE_PATH_SIZE_def LEGACY_PATH_SIZE_def)
  then show ?thesis
    using assms by (simp add: derive_paths_def legacy_path_ok_def Let_def not_le flip: state_name_def)
qed

lemma names_distinct:
  "state_name path \<noteq> path" "state_name path @ ''.tmp'' \<noteq> path" "state_name path @ ''.tmp'' \<noteq> state_name path"
proof -
  have "length (state_name path) = length path + (if length path \<ge> 5 \<and>
      drop (length path - 5) path = ''.data'' then 1 else 6)"
    by (auto simp: state_name_def)
  then have "length (state_name path) \<noteq> length path" "length (state_name path @ ''.tmp'') \<noteq> length path"
    by simp_all
  then show "state_name path \<noteq> path" "state_name path @ ''.tmp'' \<noteq> path" by metis+
qed simp

subsection \<open>The invariant\<close>

text \<open>The data file: the log and the rest behind it.\<close>

definition data_file_ok :: "legacy_spool \<Rightarrow> nat \<Rightarrow> bytes \<Rightarrow> telemetry_record list \<Rightarrow> bytes \<Rightarrow> bool" where
  "data_file_ok s ino c log junk \<longleftrightarrow>
     lg_data_fd s = Some ino \<and>
     view (lg_io s) (lg_data_path s) = Some (ino, c @ junk) \<and> stores decode_record c log \<and>
     length junk \<le> GATEWAY_SPOOL_ENTRY_SIZE \<and>
     (\<forall>r\<in>set log. rec_ok r) \<and> sorted_wrt (\<lambda>a b. gateway_seq a < gateway_seq b) log \<and>
     lg_data_end s = length log * GATEWAY_SPOOL_ENTRY_SIZE \<and>
     lg_last_gateway_seq s = seq_before log (length log)"

definition cursors_ok :: "legacy_spool \<Rightarrow> telemetry_record list \<Rightarrow> bool" where
  "cursors_ok s log \<longleftrightarrow>
     (\<exists>a\<le>length log. lg_ack_offset s = a * GATEWAY_SPOOL_ENTRY_SIZE \<and>
        (lg_batch_prepared s \<longrightarrow>
           (\<exists>p\<le>length log. a < p \<and> lg_prepared_end s = p * GATEWAY_SPOOL_ENTRY_SIZE)))"

text \<open>The state file says \<open>k\<close> records are acknowledged.\<close>

definition state_file_ok :: "legacy_spool \<Rightarrow> telemetry_record list \<Rightarrow> bool" where
  "state_file_ok s log \<longleftrightarrow>
     (case view (lg_io s) (lg_state_path s) of
        None \<Rightarrow> lg_acked s = 0
      | Some (_, st) \<Rightarrow> \<exists>k nb. lg_acked s \<le> k \<and> k \<le> length log \<and>
          (nb = lg_next_batch_seq s \<or> nb = lg_next_batch_seq s + 1) \<and>
          st = state_image (k * GATEWAY_SPOOL_ENTRY_SIZE) (seq_before log k) nb)"

definition names_ok :: "legacy_spool \<Rightarrow> bool" where
  "names_ok s \<longleftrightarrow> legacy_path_ok (lg_data_path s) \<and> lg_state_path s = state_name (lg_data_path s) \<and>
     lg_state_tmp_path s = state_name (lg_data_path s) @ ''.tmp''"

definition lg_inv :: "legacy_spool \<Rightarrow> bool" where
  "lg_inv s \<longleftrightarrow> disk_wf (lg_io s) \<and> names_ok s \<and>
     (\<exists>ino c log junk. data_file_ok s ino c log junk \<and> cursors_ok s log \<and> state_file_ok s log)"

lemma data_file_log:
  assumes "data_file_ok s ino c log junk"
  shows "lg_log s = log"
proof -
  have "length c = lg_data_end s" "decoded_log decode_record c = log"
    using assms stores_decoded by (simp_all add: data_file_ok_def stores_def)
  then show ?thesis using assms by (simp add: lg_log_def data_file_ok_def)
qed

lemma lg_invE:
  assumes "lg_inv s"
  obtains ino c log junk where "disk_wf (lg_io s)" "names_ok s" "data_file_ok s ino c log junk"
    "cursors_ok s log" "state_file_ok s log" "lg_log s = log"
  using assms data_file_log by (auto simp: lg_inv_def)

lemma acked_le: "cursors_ok s log \<Longrightarrow> lg_acked s \<le> length log \<and> lg_ack_offset s = lg_acked s * GATEWAY_SPOOL_ENTRY_SIZE"
  by (auto simp: cursors_ok_def lg_acked_def)

lemma lg_batch_le: "lg_inv s \<Longrightarrow> lg_batch s \<le> length (lg_pend s)"
proof -
  assume "lg_inv s"
  then obtain ino c log junk where "cursors_ok s log" "lg_log s = log" by (rule lg_invE)
  then show ?thesis
    by (auto simp: lg_batch_def lg_pend_def cursors_ok_def lg_acked_def)
qed

text \<open>Steps that touch neither the files nor the cursors.\<close>

definition lg_same :: "legacy_spool \<Rightarrow> legacy_spool \<Rightarrow> bool" where
  "lg_same s s' \<longleftrightarrow> view (lg_io s') = view (lg_io s) \<and> disk_wf (lg_io s') = disk_wf (lg_io s) \<and>
     lg_data_fd s' = lg_data_fd s \<and> lg_data_path s' = lg_data_path s \<and>
     lg_state_path s' = lg_state_path s \<and> lg_state_tmp_path s' = lg_state_tmp_path s \<and>
     lg_data_end s' = lg_data_end s \<and> lg_ack_offset s' = lg_ack_offset s \<and>
     lg_prepared_end s' = lg_prepared_end s \<and> lg_last_gateway_seq s' = lg_last_gateway_seq s \<and>
     lg_next_batch_seq s' = lg_next_batch_seq s \<and> lg_batch_prepared s' = lg_batch_prepared s"

lemma lg_same_refl [simp]: "lg_same s s" by (simp add: lg_same_def)

lemma lg_same_trans: "lg_same a b \<Longrightarrow> lg_same b c \<Longrightarrow> lg_same a c" by (simp add: lg_same_def)

lemma lg_same_parts:
  assumes "lg_same s s'"
  shows "data_file_ok s' = data_file_ok s" "cursors_ok s' = cursors_ok s" "state_file_ok s' = state_file_ok s"
    "names_ok s' = names_ok s" "lg_log s' = lg_log s" "lg_acked s' = lg_acked s"
proof -
  have v: "view (lg_io s') = view (lg_io s)" "lg_data_path s' = lg_data_path s"
    "lg_state_path s' = lg_state_path s" "lg_data_end s' = lg_data_end s" "lg_data_fd s' = lg_data_fd s"
    "lg_last_gateway_seq s' = lg_last_gateway_seq s" "lg_next_batch_seq s' = lg_next_batch_seq s"
    using assms by (simp_all add: lg_same_def)
  show a: "lg_acked s' = lg_acked s" "names_ok s' = names_ok s" "cursors_ok s' = cursors_ok s"
    using assms by (auto simp: lg_same_def lg_acked_def names_ok_def cursors_ok_def)
  show "data_file_ok s' = data_file_ok s" "state_file_ok s' = state_file_ok s" "lg_log s' = lg_log s"
    unfolding data_file_ok_def state_file_ok_def lg_log_def v a(1) by (rule refl)+
qed

lemma lg_same_inv:
  assumes "lg_same s s'"
  shows "lg_inv s' = lg_inv s" "lg_pend s' = lg_pend s" "lg_batch s' = lg_batch s"
  using lg_same_parts [OF assms] assms
  by (simp_all add: lg_inv_def lg_pend_def lg_batch_def lg_same_def)

lemma lg_same_book [simp]:
  "lg_same s (s\<lparr>lg_corruptions := a\<rparr>)" "lg_same s (s\<lparr>lg_records_replayed := b\<rparr>)"
  "lg_same s (s\<lparr>lg_state_recoveries := c\<rparr>)"
  by (simp_all add: lg_same_def)

lemma lg_same_io: "view d = view (lg_io s) \<Longrightarrow> disk_wf d = disk_wf (lg_io s) \<Longrightarrow> lg_same s (s\<lparr>lg_io := d\<rparr>)"
  by (simp add: lg_same_def)

text \<open>The batch in memory is not part of the files.\<close>

lemma prepared_update [simp]:
  "lg_acked (s\<lparr>lg_prepared_end := a\<rparr>) = lg_acked s" "lg_acked (s\<lparr>lg_batch_prepared := b\<rparr>) = lg_acked s"
  "data_file_ok (s\<lparr>lg_prepared_end := a\<rparr>) = data_file_ok s"
  "data_file_ok (s\<lparr>lg_batch_prepared := b\<rparr>) = data_file_ok s"
  "state_file_ok (s\<lparr>lg_prepared_end := a\<rparr>) = state_file_ok s"
  "state_file_ok (s\<lparr>lg_batch_prepared := b\<rparr>) = state_file_ok s"
  "names_ok (s\<lparr>lg_prepared_end := a\<rparr>) = names_ok s" "names_ok (s\<lparr>lg_batch_prepared := b\<rparr>) = names_ok s"
  by (simp_all add: lg_acked_def data_file_ok_def state_file_ok_def names_ok_def fun_eq_iff split: option.split)

subsection \<open>Appending\<close>

text \<open>A write over what is left behind the log leaves the log alone.\<close>

lemma overwrite_within: "offset \<le> length bs \<Longrightarrow>
    overwrite offset new bs = take offset bs @ new @ drop (offset + length new) bs"
  by (simp add: overwrite_def resize_def)

lemma write_loop_within:
  assumes "write_loop buffer offset done xs bs = (code, xs', bs')"
    and "offset + done \<le> length bs" and "done \<le> length buffer"
    and "take done (drop offset bs) = take done buffer"
  shows "take offset bs' = take offset bs \<and> offset \<le> length bs' \<and>
     length bs' \<le> max (length bs) (offset + length buffer) \<and>
     (code = GATEWAY_OK \<longrightarrow> take (length buffer) (drop offset bs') = buffer) \<and>
     (code = GATEWAY_OK \<or> code = GATEWAY_ERROR_IO)"
  using assms
proof (induction xs arbitrary: "done" bs)
  case Nil
  have "bs' = (if done \<ge> length buffer then bs
      else take (offset + done) bs @ drop done buffer @ drop (offset + length buffer) bs)" "code = GATEWAY_OK"
    using Nil overwrite_within [of "offset + done" bs "drop done buffer"] by (auto split: if_split_asm)
  then show ?case using Nil.prems(2-4) by (auto simp: take_append drop_take min_def split: if_split_asm)
next
  case (Cons x xs)
  let ?asked = "drop done buffer"
  have step: ?case
    if w: "write_loop buffer offset (done + length (take k ?asked)) xs (overwrite (offset + done) (take k ?asked) bs) =
        (code, xs', bs')" for k
  proof -
    let ?bs = "overwrite (offset + done) (take k ?asked) bs"
    have b: "?bs = take (offset + done) bs @ take k ?asked @ drop (offset + done + length (take k ?asked)) bs"
      using overwrite_within [OF Cons.prems(2)] by simp
    have "take (done + length (take k ?asked)) (drop offset ?bs) = take (done + length (take k ?asked)) buffer"
      using Cons.prems(2,3,4) by (simp add: b drop_take take_add)
    moreover have "offset + (done + length (take k ?asked)) \<le> length ?bs"
      "done + length (take k ?asked) \<le> length buffer" "take offset ?bs = take offset bs"
      "max (length ?bs) (offset + length buffer) \<le> max (length bs) (offset + length buffer)"
      using Cons.prems(2,3) by (auto simp: b)
    ultimately show ?thesis using Cons.IH [OF w] by (auto intro: order_trans)
  qed
  have stop: ?case if "bs' = bs" "code = GATEWAY_ERROR_IO"
    using that Cons.prems(2) by simp
  show ?case
  proof (cases "done \<ge> length buffer")
    case True
    then show ?thesis using Cons.prems by auto
  next
    case False
    show ?thesis
    proof (cases x)
      case (Sys_short k)
      then have "k = 0 \<or> write_loop buffer offset (done + length (take k ?asked)) xs
          (overwrite (offset + done) (take k ?asked) bs) = (code, xs', bs')"
        using Cons.prems(1) False by (simp add: Let_def split: if_split_asm)
      then show ?thesis
      proof
        assume "k = 0"
        then show ?thesis using Sys_short Cons.prems(1) False stop by (simp add: Let_def)
      qed (rule step)
    qed (use Cons.prems False stop step [of "length buffer"] Cons.IH [OF _ Cons.prems(2,3,4)]
      in \<open>simp_all add: Let_def split: if_split_asm\<close>)
  qed
qed

lemma write_exact_within:
  assumes "write_exact ino buffer offset d = (code, d')" and "disk_wf d"
    and "view d name = Some (ino, c)" and "offset \<le> length c"
  shows "disk_wf d'" and "code = GATEWAY_OK \<or> code = GATEWAY_ERROR_IO"
    and "\<exists>rest. view d' = (view d)(name \<mapsto> (ino, take offset c @ rest)) \<and>
       length rest \<le> max (length c - offset) (length buffer) \<and>
       (code = GATEWAY_OK \<longrightarrow> take (length buffer) rest = buffer)"
proof -
  obtain xs bs where l: "write_loop buffer offset 0 (outcomes d) c = (code, xs, bs)"
      and d': "d' = set_content ino bs (d\<lparr>outcomes := xs\<rparr>)"
    using assms(1,3) by (auto simp: write_exact_def view_Some Let_def split: prod.split_asm)
  have v: "disk_wf (d\<lparr>outcomes := xs\<rparr>)" "view (d\<lparr>outcomes := xs\<rparr>) name = Some (ino, c)"
    using assms(2,3) by simp_all
  note w = write_loop_within [OF l]
  show "disk_wf d'" using set_content_view(1) [OF v] d' by simp
  show "code = GATEWAY_OK \<or> code = GATEWAY_ERROR_IO" using w assms(4) by simp
  have "bs = take offset c @ drop offset bs" using w assms(4) by (metis append_take_drop_id add_0_right take0 zero_le)
  then show "\<exists>rest. view d' = (view d)(name \<mapsto> (ino, take offset c @ rest)) \<and>
       length rest \<le> max (length c - offset) (length buffer) \<and>
       (code = GATEWAY_OK \<longrightarrow> take (length buffer) rest = buffer)"
    using set_content_view(2) [OF v, of bs] d' w assms(4)
    by (intro exI [of _ "drop offset bs"]) auto
qed

lemma seq_before_append: "k \<le> length log \<Longrightarrow> seq_before (log @ new) k = seq_before log k"
  by (auto simp: seq_before_def nth_append)

lemma names_ok_distinct:
  assumes "names_ok s"
  shows "lg_state_path s \<noteq> lg_data_path s" "lg_state_tmp_path s \<noteq> lg_data_path s"
    "lg_state_tmp_path s \<noteq> lg_state_path s"
  using assms names_distinct [of "lg_data_path s"] by (simp_all add: names_ok_def)

text \<open>The log grows by \<open>new\<close>, or stays as it is while the rest behind it changes.\<close>

lemma log_grows:
  assumes names: "names_ok s" and df: "data_file_ok s ino c log junk" and cur: "cursors_ok s log"
    and st: "state_file_ok s log" and wf: "disk_wf d"
    and v: "view d = (view (lg_io s))(lg_data_path s \<mapsto> (ino, c' @ rest))" and c': "stores decode_record c' (log @ new)"
    and rest: "length rest \<le> GATEWAY_SPOOL_ENTRY_SIZE" and ok: "\<forall>r\<in>set new. rec_ok r"
    and sorted: "sorted_wrt (\<lambda>a b. gateway_seq a < gateway_seq b) (log @ new)"
  defines "t \<equiv> s\<lparr>lg_io := d, lg_data_end := length (log @ new) * GATEWAY_SPOOL_ENTRY_SIZE,
      lg_last_gateway_seq := seq_before (log @ new) (length (log @ new))\<rparr>"
  shows "lg_inv t" and "lg_log t = log @ new" and "lg_acked t = lg_acked s" and "lg_batch t = lg_batch s"
    and "view d (lg_state_path s) = view (lg_io s) (lg_state_path s)"
proof -
  have df': "data_file_ok t ino c' (log @ new) rest"
    using df v rest ok sorted c' by (auto simp: data_file_ok_def t_def)
  show same: "view d (lg_state_path s) = view (lg_io s) (lg_state_path s)"
    using v names_ok_distinct [OF names] by simp
  show a: "lg_acked t = lg_acked s" "lg_batch t = lg_batch s"
    by (simp_all add: t_def lg_acked_def lg_batch_def)
  have "cursors_ok t (log @ new)"
    using cur by (fastforce simp: cursors_ok_def t_def)
  moreover have "state_file_ok t (log @ new)"
  proof (cases "view (lg_io s) (lg_state_path s)")
    case None
    then show ?thesis using st same a by (simp add: state_file_ok_def t_def)
  next
    case (Some p)
    then obtain i k nb where "p = (i, state_image (k * GATEWAY_SPOOL_ENTRY_SIZE) (seq_before log k) nb)"
        "lg_acked s \<le> k" "k \<le> length log" "nb = lg_next_batch_seq s \<or> nb = lg_next_batch_seq s + 1"
      using st by (cases p) (auto simp: state_file_ok_def)
    then have "lg_acked s \<le> k \<and> k \<le> length (log @ new) \<and>
        (nb = lg_next_batch_seq s \<or> nb = lg_next_batch_seq s + 1) \<and>
        snd p = state_image (k * GATEWAY_SPOOL_ENTRY_SIZE) (seq_before (log @ new) k) nb"
      by (simp add: seq_before_append)
    moreover have "view (lg_io t) (lg_state_path t) = Some p" "lg_acked t = lg_acked s"
      "lg_next_batch_seq t = lg_next_batch_seq s"
      using same Some a by (simp_all add: t_def)
    ultimately show ?thesis unfolding state_file_ok_def by (cases p) auto
  qed
  moreover have "disk_wf (lg_io t)" "names_ok t" using wf names by (simp_all add: t_def names_ok_def)
  ultimately show "lg_inv t" using df' unfolding lg_inv_def by blast
  show "lg_log t = log @ new" by (rule data_file_log [OF df'])
qed

lemma seq_before_last: "log \<noteq> [] \<Longrightarrow> seq_before log (length log) = gateway_seq (last log)"
  by (simp add: seq_before_def last_conv_nth)

lemma legacy_append_result:
  assumes run: "legacy_append r s = (code, s')" and inv: "lg_inv s" and wf: "wf_record r"
  shows "lg_inv s'" and "lg_batch s' = lg_batch s" and "lg_acked s' = lg_acked s"
    and "lg_pend s' = (if code = GATEWAY_OK then lg_pend s @ [r] else lg_pend s)"
    and "view (lg_io s') (lg_state_path s') = view (lg_io s) (lg_state_path s)"
    and "lg_next_batch_seq s' = lg_next_batch_seq s"
    and "lg_data_end s' = (if code = GATEWAY_OK then lg_data_end s + GATEWAY_SPOOL_ENTRY_SIZE else lg_data_end s)"
proof -
  obtain ino c log junk where p: "disk_wf (lg_io s)" "names_ok s" "data_file_ok s ino c log junk"
    "cursors_ok s log" "state_file_ok s log" and log: "lg_log s = log"
    using inv by (rule lg_invE)
  note f = p(3) [unfolded data_file_ok_def]
  have st: "stores decode_record c log" and len: "length c = lg_data_end s"
    using f by (simp_all add: stores_def)
  have a: "lg_acked s \<le> length log" using acked_le [OF p(4)] by simp
  have "lg_inv s' \<and> lg_batch s' = lg_batch s \<and> lg_acked s' = lg_acked s \<and>
      lg_pend s' = (if code = GATEWAY_OK then lg_pend s @ [r] else lg_pend s) \<and>
      view (lg_io s') (lg_state_path s') = view (lg_io s) (lg_state_path s) \<and>
      lg_next_batch_seq s' = lg_next_batch_seq s \<and>
      lg_data_end s' = (if code = GATEWAY_OK then lg_data_end s + GATEWAY_SPOOL_ENTRY_SIZE else lg_data_end s)"
  proof (cases "gateway_seq r = 0 \<or> lg_last_gateway_seq s \<noteq> 0 \<and> gateway_seq r \<le> lg_last_gateway_seq s")
    case True
    then show ?thesis using run inv by (auto simp: legacy_append_def)
  next
    case False
    have ino: "data_ino s = ino" using f by (simp add: data_ino_def)
    obtain wcode d1 where w: "write_exact ino (encode_record r) (lg_data_end s) (lg_io s) = (wcode, d1)"
      by (metis surj_pair)
    have vs: "view (lg_io s) (lg_data_path s) = Some (ino, c @ junk)" using f by simp
    have "lg_data_end s \<le> length (c @ junk)" using len by simp
    note w1 = write_exact_within [OF w p(1) vs this]
    have el: "length (encode_record r) = GATEWAY_SPOOL_ENTRY_SIZE" using wf by simp
    obtain rest where rest: "view d1 = (view (lg_io s))(lg_data_path s \<mapsto> (ino, c @ rest))"
        "length rest \<le> GATEWAY_SPOOL_ENTRY_SIZE"
        "wcode = GATEWAY_OK \<longrightarrow> take GATEWAY_SPOOL_ENTRY_SIZE rest = encode_record r"
      using w1(3) len f el by auto
    obtain synced d2 where y: "(if wcode = GATEWAY_OK then sys_fdatasync ino d1 else (False, d1)) = (synced, d2)"
      by (metis surj_pair)
    have d2: "view d2 = view d1" "disk_wf d2" using y w1(1) sync_view(2) by (auto split: if_split_asm)
    have rok: "rec_ok r" using wf False by (simp add: rec_ok_def)
    show ?thesis
    proof (cases synced)
      case True
      then have "wcode = GATEWAY_OK" using y by (auto split: if_split_asm)
      then have "rest = encode_record r" using rest(2,3) by simp
      then have v: "view d2 = (view (lg_io s))(lg_data_path s \<mapsto> (ino, (c @ encode_record r) @ []))"
        using rest(1) d2(1) by simp
      have st': "stores decode_record (c @ encode_record r) (log @ [r])"
        using stores_snoc [OF st el] decode_encode_record wf False by simp
      have last: "lg_last_gateway_seq s = gateway_seq (last log)" if "log \<noteq> []"
        using f seq_before_last [OF that] by simp
      have "gateway_seq x < gateway_seq r" if x: "x \<in> set log" for x
      proof -
        have "log \<noteq> []" using x by auto
        then have "gateway_seq (last log) < gateway_seq r"
          using False last f by (metis last_in_set rec_ok_def not_le)
        moreover have "gateway_seq x \<le> gateway_seq (last log)"
          using sorted_wrt_less_lastD [of gateway_seq log] f x by blast
        ultimately show ?thesis by simp
      qed
      then have sorted: "sorted_wrt (\<lambda>a b. gateway_seq a < gateway_seq b) (log @ [r])"
        using f by (simp add: sorted_wrt_append)
      note g = log_grows [OF p(2-5) d2(2) v st' _ _ sorted]
      have new: "\<forall>r\<in>set [r]. rec_ok r" using rok by simp
      let ?t = "s\<lparr>lg_io := d2, lg_data_end := length (log @ [r]) * GATEWAY_SPOOL_ENTRY_SIZE,
        lg_last_gateway_seq := seq_before (log @ [r]) (length (log @ [r]))\<rparr>"
      have e: "code = GATEWAY_OK" "s' = ?t\<lparr>lg_records_appended := lg_records_appended s + 1\<rparr>"
        using run False w y True f ino by (auto simp: legacy_append_def Let_def seq_before_def)
      have same: "lg_same ?t s'" by (simp add: e lg_same_def)
      have "lg_inv ?t" "lg_log ?t = log @ [r]" "lg_acked ?t = lg_acked s" "lg_batch ?t = lg_batch s"
        "view d2 (lg_state_path s) = view (lg_io s) (lg_state_path s)"
        using g [OF _ new] by simp_all
      then show ?thesis
        using lg_same_inv [OF same] lg_same_parts [OF same] log a f by (simp add: e(1) lg_pend_def) (simp add: e)
    next
      case False': False
      obtain cut d3 where c: "sys_ftruncate ino (lg_data_end s) d2 = (cut, d3)" by (metis surj_pair)
      have v2: "view d2 (lg_data_path s) = Some (ino, c @ rest)" using d2(1) rest(1) by simp
      note cv = sys_ftruncate_view [OF c d2(2) v2]
      define rest' where "rest' = (if cut then [] else rest)"
      have v: "view d3 = (view (lg_io s))(lg_data_path s \<mapsto> (ino, c @ rest'))"
        using cv(2,3) d2(1) rest(1) len by (auto simp: rest'_def resize_def)
      have sorted: "sorted_wrt (\<lambda>a b. gateway_seq a < gateway_seq b) (log @ [])" using f by simp
      have "length rest' \<le> GATEWAY_SPOOL_ENTRY_SIZE" using rest(2) by (simp add: rest'_def)
      have st0: "stores decode_record c (log @ [])" using st by simp
      note g = log_grows [OF p(2-5) cv(1) v st0 \<open>length rest' \<le> GATEWAY_SPOOL_ENTRY_SIZE\<close> _ sorted]
      have e: "code = GATEWAY_ERROR_IO" "s' = s\<lparr>lg_io := d3\<rparr>"
        using run False w y False' c ino by (auto simp: legacy_append_def Let_def split: if_split_asm)
      have "s' = s\<lparr>lg_io := d3, lg_data_end := length (log @ []) * GATEWAY_SPOOL_ENTRY_SIZE,
          lg_last_gateway_seq := seq_before (log @ []) (length (log @ []))\<rparr>"
        using f e(2) by simp
      then show ?thesis using g e(1) log f by (simp add: lg_pend_def)
    qed
  qed
  then show "lg_inv s'" "lg_batch s' = lg_batch s" "lg_acked s' = lg_acked s"
    "lg_pend s' = (if code = GATEWAY_OK then lg_pend s @ [r] else lg_pend s)"
    "view (lg_io s') (lg_state_path s') = view (lg_io s) (lg_state_path s)"
    "lg_next_batch_seq s' = lg_next_batch_seq s"
    "lg_data_end s' = (if code = GATEWAY_OK then lg_data_end s + GATEWAY_SPOOL_ENTRY_SIZE else lg_data_end s)"
    by auto
qed

subsection \<open>Preparing a batch\<close>

text \<open>Reading an entry of the log gives the record, or the call fails.\<close>

lemma read_entry:
  assumes "data_file_ok s ino c log junk" and "k < length log"
    and "read_exact ino GATEWAY_SPOOL_ENTRY_SIZE (k * GATEWAY_SPOOL_ENTRY_SIZE) (lg_io s) = (r, d)"
  shows "lg_same s (s\<lparr>lg_io := d\<rparr>)"
    and "(\<exists>bs. r = Inr bs \<and> decode_record bs = Inr (log ! k)) \<or> r = Inl GATEWAY_ERROR_IO"
proof -
  have f: "view (lg_io s) (lg_data_path s) = Some (ino, c @ junk)" "stores decode_record c log"
    using assms(1) by (simp_all add: data_file_ok_def)
  note v = read_exact_view [OF assms(3) f(1)]
  show "lg_same s (s\<lparr>lg_io := d\<rparr>)" by (rule lg_same_io [OF v(1,2)])
  show "(\<exists>bs. r = Inr bs \<and> decode_record bs = Inr (log ! k)) \<or> r = Inl GATEWAY_ERROR_IO"
    using v(3) stores_window [OF f(2) assms(2), of junk] by (auto simp: window_def)
qed

lemma record_seq_at_result:
  assumes "data_file_ok s ino c log junk" and "0 < k" and "k \<le> length log"
    and "record_seq_at (k * GATEWAY_SPOOL_ENTRY_SIZE - GATEWAY_SPOOL_ENTRY_SIZE) s = (r, s')"
  shows "lg_same s s'" and "r = Inr (seq_before log k) \<or> r = Inl GATEWAY_ERROR_IO"
proof -
  obtain e d where e: "read_exact ino GATEWAY_SPOOL_ENTRY_SIZE ((k - 1) * GATEWAY_SPOOL_ENTRY_SIZE) (lg_io s) = (e, d)"
    by (metis surj_pair)
  have ino: "data_ino s = ino" using assms(1) by (simp add: data_file_ok_def data_ino_def)
  have at: "k * GATEWAY_SPOOL_ENTRY_SIZE - GATEWAY_SPOOL_ENTRY_SIZE = (k - 1) * GATEWAY_SPOOL_ENTRY_SIZE"
    by (simp add: diff_mult_distrib)
  have "k - 1 < length log" using assms(2,3) by simp
  note re = read_entry [OF assms(1) this e]
  show "lg_same s s'" "r = Inr (seq_before log k) \<or> r = Inl GATEWAY_ERROR_IO"
    using re assms(2,4) e by (auto simp: record_seq_at_def at ino Let_def seq_before_def split: sum.split_asm)
qed

lemma legacy_prepare_loop_result:
  assumes "legacy_prepare_loop n (k * GATEWAY_SPOOL_ENTRY_SIZE) rs s = (code, offset, rs', s')"
    and "data_file_ok s ino c log junk" and "k \<le> length log" and "rs = take (k - a) (drop a log)" and "a \<le> k"
  shows "lg_same s s' \<and> (code = GATEWAY_OK \<longrightarrow>
     offset = min (k + n) (length log) * GATEWAY_SPOOL_ENTRY_SIZE \<and>
     rs' = take (min (k + n) (length log) - a) (drop a log))"
  using assms
proof (induction n arbitrary: k rs s)
  case (Suc n)
  note f = Suc.prems(2) [unfolded data_file_ok_def]
  have ino: "data_ino s = ino" using f by (simp add: data_ino_def)
  show ?case
  proof (cases "k < length log")
    case False
    then have "lg_data_end s \<le> k * GATEWAY_SPOOL_ENTRY_SIZE" using f by simp
    then show ?thesis using Suc.prems False by auto
  next
    case True
    then have at: "\<not> lg_data_end s \<le> k * GATEWAY_SPOOL_ENTRY_SIZE" using f by simp
    obtain e d where e: "read_exact ino GATEWAY_SPOOL_ENTRY_SIZE (k * GATEWAY_SPOOL_ENTRY_SIZE) (lg_io s) = (e, d)"
      by (metis surj_pair)
    note re = read_entry [OF Suc.prems(2) True e]
    show ?thesis
    proof (cases "e = Inl GATEWAY_ERROR_IO")
      case True
      then show ?thesis using Suc.prems(1) at e re(1) ino by (auto simp: Let_def)
    next
      case False
      then obtain bs where bs: "e = Inr bs" "decode_record bs = Inr (log ! k)" using re(2) by blast
      have rs: "rs @ [log ! k] = take (Suc k - a) (drop a log)"
        using Suc.prems(4,5) True by (simp add: Suc_diff_le take_Suc_conv_app_nth)
      have ordered: "\<not> (rs \<noteq> [] \<and> gateway_seq (log ! k) \<le> gateway_seq (last rs))"
      proof
        assume *: "rs \<noteq> [] \<and> gateway_seq (log ! k) \<le> gateway_seq (last rs)"
        then have "a < k" "length rs = k - a" using Suc.prems(4) True by auto
        then have "last rs = log ! (k - 1)"
          using Suc.prems(4) True * by (simp add: last_conv_nth)
        then show False
          using * f True \<open>a < k\<close> sorted_wrt_nth_less [of _ log "k - 1" k] by force
      qed
      have "legacy_prepare_loop n (Suc k * GATEWAY_SPOOL_ENTRY_SIZE) (rs @ [log ! k]) (s\<lparr>lg_io := d\<rparr>) =
          (code, offset, rs', s')"
        using Suc.prems(1) at e bs ordered ino by (simp add: Let_def add.commute)
      from Suc.IH [OF this _ _ rs] show ?thesis
        using Suc.prems(2,5) True re(1) lg_same_parts(1) [OF re(1)] lg_same_trans [OF re(1)] by auto
    qed
  qed
qed auto

lemma legacy_prepare_result:
  assumes run: "legacy_prepare_batch n s = (code, out, s')" and inv: "lg_inv s"
  shows "lg_inv s'" and "lg_pend s' = lg_pend s" and "lg_acked s' = lg_acked s"
    and "view (lg_io s') = view (lg_io s)" and "lg_state_path s' = lg_state_path s"
    and "lg_next_batch_seq s' = lg_next_batch_seq s" and "lg_data_end s' = lg_data_end s"
    and "if code = GATEWAY_OK
      then out = Some (take n (lg_pend s), unat (lg_next_batch_seq s)) \<and> lg_batch s' = min n (length (lg_pend s))
      else out = None \<and> lg_batch s' = lg_batch s"
proof -
  obtain ino c log junk where p: "disk_wf (lg_io s)" "names_ok s" "data_file_ok s ino c log junk"
    "cursors_ok s log" "state_file_ok s log" and log: "lg_log s = log"
    using inv by (rule lg_invE)
  have a: "lg_acked s \<le> length log" "lg_ack_offset s = lg_acked s * GATEWAY_SPOOL_ENTRY_SIZE"
    using acked_le [OF p(4)] by simp_all
  have "lg_inv s' \<and> lg_pend s' = lg_pend s \<and> lg_acked s' = lg_acked s \<and>
    view (lg_io s') = view (lg_io s) \<and> lg_state_path s' = lg_state_path s \<and>
    lg_next_batch_seq s' = lg_next_batch_seq s \<and> lg_data_end s' = lg_data_end s \<and>
    (if code = GATEWAY_OK
      then out = Some (take n (lg_pend s), unat (lg_next_batch_seq s)) \<and> lg_batch s' = min n (length (lg_pend s))
      else out = None \<and> lg_batch s' = lg_batch s)"
  proof (cases "n = 0 \<or> lg_batch_prepared s")
    case True
    then show ?thesis using run inv by (auto simp: legacy_prepare_batch_def)
  next
    case False
    obtain lc offset rs s1 where l: "legacy_prepare_loop n (lg_acked s * GATEWAY_SPOOL_ENTRY_SIZE) [] s = (lc, offset, rs, s1)"
      by (metis prod_cases4)
    have loop: "lg_same s s1" "lc = GATEWAY_OK \<Longrightarrow>
        offset = min (lg_acked s + n) (length log) * GATEWAY_SPOOL_ENTRY_SIZE \<and>
        rs = take (min (lg_acked s + n) (length log) - lg_acked s) (drop (lg_acked s) log)"
      using legacy_prepare_loop_result [OF l p(3), of "lg_acked s"] a by auto
    note same = lg_same_inv [OF loop(1)] lg_same_parts [OF loop(1)]
    have frame: "view (lg_io s1) = view (lg_io s)" "lg_state_path s1 = lg_state_path s"
      "lg_next_batch_seq s1 = lg_next_batch_seq s" "lg_data_end s1 = lg_data_end s"
      "lg_batch_prepared s1 = lg_batch_prepared s" "lg_ack_offset s1 = lg_ack_offset s"
      using loop(1) by (simp_all add: lg_same_def)
    have run': "(if lc \<noteq> GATEWAY_OK then (lc, None, s1)
        else (GATEWAY_OK, Some (rs, unat (lg_next_batch_seq s1)),
              if rs \<noteq> [] then s1\<lparr>lg_prepared_end := offset, lg_batch_prepared := True,
                     lg_records_replayed := lg_records_replayed s1 + of_nat (length rs)\<rparr>
              else s1)) = (code, out, s')"
      using run False l a by (simp add: legacy_prepare_batch_def Let_def)
    show ?thesis
    proof (cases "lc = GATEWAY_OK")
      case c: True
      have rs: "rs = take n (lg_pend s)"
        using loop(2) [OF c] a log by (simp add: lg_pend_def min_def)
      show ?thesis
      proof (cases "rs = []")
        case True
        then have "lg_pend s = []" using rs False by simp
        then show ?thesis using run' c True rs same frame inv False by (auto simp: lg_batch_def)
      next
        case rs_ne: False
        let ?p = "min (lg_acked s + n) (length log)"
        define t where "t = s1\<lparr>lg_prepared_end := offset, lg_batch_prepared := True\<rparr>"
        have e: "code = GATEWAY_OK" "out = Some (rs, unat (lg_next_batch_seq s))"
          "s' = t\<lparr>lg_records_replayed := lg_records_replayed s1 + of_nat (length rs)\<rparr>"
          using run' c rs_ne frame by (simp_all add: t_def)
        have st: "lg_same t s'" by (simp add: e(3))
        have off: "offset = ?p * GATEWAY_SPOOL_ENTRY_SIZE" using loop(2) [OF c] by simp
        have "lg_acked s < ?p" using rs_ne rs log False by (auto simp: lg_pend_def)
        then have "cursors_ok t log"
          using a off frame by (auto simp: cursors_ok_def t_def)
        moreover have "data_file_ok t ino c log junk" "names_ok t" "disk_wf (lg_io t)" "state_file_ok t log"
          using same(4,6,7) p loop(1) by (simp_all add: t_def lg_same_def)
        ultimately have "lg_inv t" "lg_log t = log" "lg_acked t = lg_acked s" "lg_batch t = ?p - lg_acked s"
          using data_file_log frame off unfolding lg_inv_def by (auto simp: t_def lg_acked_def lg_batch_def)
        moreover have "?p - lg_acked s = min n (length (lg_pend s))" using log a(1) by (auto simp: lg_pend_def min_def)
        moreover have "view (lg_io s') = view (lg_io s)" "lg_state_path s' = lg_state_path s"
          "lg_next_batch_seq s' = lg_next_batch_seq s" "lg_data_end s' = lg_data_end s"
          using frame by (simp_all add: e(3) t_def)
        ultimately show ?thesis
          using lg_same_inv [OF st] lg_same_parts [OF st] e(1,2) rs log by (simp add: lg_pend_def)
      qed
    next
      case False
      then show ?thesis using run' same frame inv by auto
    qed
  qed
  then show "lg_inv s'" "lg_pend s' = lg_pend s" "lg_acked s' = lg_acked s"
    "view (lg_io s') = view (lg_io s)" "lg_state_path s' = lg_state_path s"
    "lg_next_batch_seq s' = lg_next_batch_seq s" "lg_data_end s' = lg_data_end s"
    "if code = GATEWAY_OK
      then out = Some (take n (lg_pend s), unat (lg_next_batch_seq s)) \<and> lg_batch s' = min n (length (lg_pend s))
      else out = None \<and> lg_batch s' = lg_batch s"
    by auto
qed

end
