(* ===== verification/Spool_Legacy_Acks.thy ===== *)
theory Spool_Legacy_Acks
  imports Spool_Legacy_Queue
begin

text \<open>
  Acknowledging in the legacy spool, and what a restart finds. The state file is replaced as a whole: after
  a failed call it holds the old cursor or the new one. A restart reads the log and the cursor back.
\<close>

subsection \<open>Replacing the state file\<close>

lemma write_state_tmp_result:
  assumes run: "write_state_tmp st tmp d = (code, d')" and wf: "disk_wf d"
  shows "disk_wf d'" and "\<And>n. n \<noteq> tmp \<Longrightarrow> view d' n = view d n"
    and "code = GATEWAY_OK \<Longrightarrow> \<exists>ino. view d' tmp = Some (ino, st)"
proof -
  obtain descriptor d1 where o: "sys_open_trunc tmp d = (descriptor, d1)" by (metis surj_pair)
  note ov = sys_open_trunc_view [OF o wf]
  have "disk_wf d' \<and> (\<forall>n. n \<noteq> tmp \<longrightarrow> view d' n = view d n) \<and>
      (code = GATEWAY_OK \<longrightarrow> (\<exists>ino. view d' tmp = Some (ino, st)))"
  proof (cases descriptor)
    case None
    then show ?thesis using run o ov by (simp add: write_state_tmp_def)
  next
    case (Some ino)
    have v1: "view d1 = (view d)(tmp \<mapsto> (ino, []))" using ov(3) Some by simp
    obtain c1 d2 where w: "write_exact ino st 0 d1 = (c1, d2)" by (metis surj_pair)
    have "view d1 tmp = Some (ino, [])" using v1 by simp
    note wv = write_exact_at_end [OF w ov(1) this]
    obtain k where k: "view d2 = (view d)(tmp \<mapsto> (ino, take k st))" "c1 = GATEWAY_OK \<longrightarrow> k = length st"
      using wv(2) v1 by auto
    obtain c2 d3 where y: "(if c1 = GATEWAY_OK then let (synced, d) = sys_fdatasync ino d2 in
        (if synced then GATEWAY_OK else GATEWAY_ERROR_IO, d) else (c1, d2)) = (c2, d3)" by (metis surj_pair)
    have d3: "view d3 = view d2" "disk_wf d3" "c2 = GATEWAY_OK \<Longrightarrow> c1 = GATEWAY_OK"
      using y wv(1) sync_view(2) by (auto simp: Let_def split: if_split_asm prod.split_asm)
    obtain closed d4 where c: "sys_close d3 = (closed, d4)" by (metis surj_pair)
    have d4: "view d4 = view d2" "disk_wf d4" using sys_close_view [OF c] d3 by simp_all
    obtain ok d5 where u: "sys_unlink tmp d4 = (ok, d5)" by (metis surj_pair)
    note uv = sys_unlink_view [OF u d4(2)]
    define c3 where "c3 = (if \<not> closed \<and> c2 = GATEWAY_OK then GATEWAY_ERROR_IO else c2)"
    have e: "(code, d') = (if c3 \<noteq> GATEWAY_OK then (c3, d5) else (GATEWAY_OK, d4))"
      using run o Some w y c u by (auto simp: write_state_tmp_def Let_def c3_def split: if_split_asm)
    show ?thesis
    proof (cases "c3 = GATEWAY_OK")
      case True
      then have "c2 = GATEWAY_OK" by (auto simp: c3_def split: if_split_asm)
      then show ?thesis using e True d3(3) d4 k by simp
    next
      case False
      have "view d5 n = view d n" if "n \<noteq> tmp" for n
        using uv(2,3) d4(1) k(1) that by (cases ok) simp_all
      then show ?thesis using e False uv(1) by simp
    qed
  qed
  then show "disk_wf d'" "\<And>n. n \<noteq> tmp \<Longrightarrow> view d' n = view d n"
    "code = GATEWAY_OK \<Longrightarrow> \<exists>ino. view d' tmp = Some (ino, st)" by blast+
qed

lemma fsync_parent_directory_view:
  "fsync_parent_directory path d = (code, d') \<Longrightarrow> view d' = view d \<and> disk_wf d' = disk_wf d"
proof -
  assume run: "fsync_parent_directory path d = (code, d')"
  obtain opened d1 where o: "sys_call d = (opened, d1)" by (metis surj_pair)
  obtain synced d2 where y: "sys_fsync_directory d1 = (synced, d2)" by (metis surj_pair)
  obtain closed d3 where c: "sys_close d2 = (closed, d3)" by (metis surj_pair)
  have "d' = d \<or> d' = d1 \<or> d' = d3"
    using run o y c by (auto simp: fsync_parent_directory_def Let_def split: if_split_asm)
  then show "view d' = view d \<and> disk_wf d' = disk_wf d"
    using sys_call_view(1,2) [OF o] sync_view(1) [OF y] sys_close_view [OF c] by auto
qed

lemma legacy_persist_result:
  assumes run: "legacy_persist_state k seq nb s = (code, s')" and wf: "disk_wf (lg_io s)" and names: "names_ok s"
  shows "s' = s\<lparr>lg_io := lg_io s'\<rparr>" and "disk_wf (lg_io s')"
    and "view (lg_io s') (lg_data_path s) = view (lg_io s) (lg_data_path s)"
    and "code = GATEWAY_OK \<Longrightarrow> \<exists>i. view (lg_io s') (lg_state_path s) = Some (i, state_image k seq nb)"
    and "view (lg_io s') (lg_state_path s) = view (lg_io s) (lg_state_path s) \<or>
      (\<exists>i. view (lg_io s') (lg_state_path s) = Some (i, state_image k seq nb))"
proof -
  let ?st = "state_image k seq nb" and ?tmp = "lg_state_tmp_path s" and ?state = "lg_state_path s"
  note dist = names_ok_distinct [OF names]
  obtain c1 d1 where w: "write_state_tmp ?st ?tmp (lg_io s) = (c1, d1)" by (metis surj_pair)
  note wv = write_state_tmp_result [OF w wf]
  obtain renamed d2 where r: "sys_rename ?tmp ?state d1 = (renamed, d2)" by (metis surj_pair)
  note rv = sys_rename_view [OF r wv(1) dist(3)]
  obtain ok d3 where u: "sys_unlink ?tmp d2 = (ok, d3)" by (metis surj_pair)
  note uv = sys_unlink_view [OF u rv(1)]
  obtain c4 d4 where f: "fsync_parent_directory ?state d2 = (c4, d4)" by (metis surj_pair)
  note fv = fsync_parent_directory_view [OF f]
  have e: "(code, s') = (if c1 \<noteq> GATEWAY_OK then (c1, s\<lparr>lg_io := d1\<rparr>)
      else if \<not> renamed then (GATEWAY_ERROR_IO, s\<lparr>lg_io := d3\<rparr>) else (c4, s\<lparr>lg_io := d4\<rparr>))"
    using run w r u f by (auto simp: legacy_persist_state_def Let_def split: if_split_asm)
  have unl: "view d3 n = view d2 n" if "n \<noteq> ?tmp" for n
    using uv(2,3) that by (cases ok) simp_all
  have "s' = s\<lparr>lg_io := lg_io s'\<rparr> \<and> disk_wf (lg_io s') \<and>
      view (lg_io s') (lg_data_path s) = view (lg_io s) (lg_data_path s) \<and>
      (code = GATEWAY_OK \<longrightarrow> (\<exists>i. view (lg_io s') ?state = Some (i, ?st))) \<and>
      (view (lg_io s') ?state = view (lg_io s) ?state \<or> (\<exists>i. view (lg_io s') ?state = Some (i, ?st)))"
  proof (cases "c1 = GATEWAY_OK")
    case False
    then show ?thesis using e wv dist by simp
  next
    case c1: True
    then obtain i where i: "view d1 ?tmp = Some (i, ?st)" using wv(3) by blast
    show ?thesis
    proof (cases renamed)
      case True
      then have v2: "view d2 = (view d1)(?tmp := None, ?state := Some (i, ?st))" using rv(3) i by simp
      have "view d2 (lg_data_path s) = view (lg_io s) (lg_data_path s)" "view d2 ?state = Some (i, ?st)"
        using v2 dist wv(2) by simp_all
      then show ?thesis using e c1 True fv rv(1) by simp
    next
      case False
      then have "view d2 = view d1" by (rule rv(2))
      then show ?thesis using e c1 False unl wv(2) dist uv(1) by simp
    qed
  qed
  then show "s' = s\<lparr>lg_io := lg_io s'\<rparr>" "disk_wf (lg_io s')"
    "view (lg_io s') (lg_data_path s) = view (lg_io s) (lg_data_path s)"
    "code = GATEWAY_OK \<Longrightarrow> \<exists>i. view (lg_io s') ?state = Some (i, ?st)"
    "view (lg_io s') ?state = view (lg_io s) ?state \<or> (\<exists>i. view (lg_io s') ?state = Some (i, ?st))"
    by blast+
qed

subsection \<open>Acknowledging\<close>

text \<open>How many records at the front of the queue the state file has acknowledged already.\<close>

definition lg_sealed :: "legacy_spool \<Rightarrow> nat" where
  "lg_sealed s = (case view (lg_io s) (lg_state_path s) of
     None \<Rightarrow> 0
   | Some (_, st) \<Rightarrow> unat (get_u64 (drop 16 st)) div GATEWAY_SPOOL_ENTRY_SIZE - lg_acked s)"

lemma state_image_reads:
  "drop 16 (state_image k seq nb) = put_u64 (of_nat k) @ put_u64 seq @ put_u64 nb"
  "get_u64 (drop 16 (state_image k seq nb)) = of_nat k" "get_u64 (drop 24 (state_image k seq nb)) = seq"
  "get_u64 (drop 32 (state_image k seq nb)) = nb" "length (state_image k seq nb) = LEGACY_STATE_SIZE"
  "image_valid (state_image k seq nb)"
proof -
  have m: "length STATE_MAGIC = 4" by (simp add: STATE_MAGIC_def)
  show d: "drop 16 (state_image k seq nb) = put_u64 (of_nat k) @ put_u64 seq @ put_u64 nb"
    using m by (simp add: state_image_def Let_def)
  have "drop 24 (state_image k seq nb) = drop 8 (drop 16 (state_image k seq nb))"
    "drop 32 (state_image k seq nb) = drop 16 (drop 16 (state_image k seq nb))" by simp_all
  then show "get_u64 (drop 16 (state_image k seq nb)) = of_nat k" "get_u64 (drop 24 (state_image k seq nb)) = seq"
    "get_u64 (drop 32 (state_image k seq nb)) = nb"
    unfolding d using get_put_u64 [of nb "[]"] by simp_all
  show "length (state_image k seq nb) = LEGACY_STATE_SIZE" "image_valid (state_image k seq nb)"
    using m by (simp_all add: state_image_def Let_def LEGACY_STATE_SIZE_def image_valid_def)
qed

definition lg_turns :: "legacy_spool \<Rightarrow> nat" where
  "lg_turns s = min (if lg_next_batch_seq s = 0 then 0 else u64_max - unat (lg_next_batch_seq s))
     ((2 ^ 63 - lg_data_end s) div GATEWAY_SPOOL_ENTRY_SIZE)"

lemma lg_turns_bound: "0 < lg_turns s \<Longrightarrow> lg_data_end s < 2 ^ 63 \<and> lg_next_batch_seq s \<noteq> 0 \<and>
    lg_next_batch_seq s + 1 \<noteq> 0"
proof -
  assume t: "0 < lg_turns s"
  then have "lg_next_batch_seq s \<noteq> 0" "0 < u64_max - unat (lg_next_batch_seq s)"
      "0 < (2 ^ 63 - lg_data_end s) div GATEWAY_SPOOL_ENTRY_SIZE"
    unfolding lg_turns_def by (auto split: if_split_asm)
  moreover have "lg_next_batch_seq s + 1 \<noteq> 0"
  proof
    assume "lg_next_batch_seq s + 1 = 0"
    then have "lg_next_batch_seq s = - 1" by (simp add: eq_neg_iff_add_eq_0)
    then have "unat (lg_next_batch_seq s) = u64_max"
      by (simp add: unsigned_minus_1_eq_mask mask_eq_exp_minus_1 u64_max_def)
    then show False using calculation(2) by simp
  qed
  moreover have "lg_data_end s < 2 ^ 63"
  proof (rule ccontr)
    assume "\<not> lg_data_end s < 2 ^ 63"
    then have "2 ^ 63 - lg_data_end s = 0" by simp
    then show False using calculation(3) by (simp only: div_0)
  qed
  ultimately show ?thesis by blast
qed

lemma sealed_image:
  assumes "view (lg_io s) (lg_state_path s) = Some (i, state_image (k * GATEWAY_SPOOL_ENTRY_SIZE) seq nb)"
    and "k * GATEWAY_SPOOL_ENTRY_SIZE < 2 ^ 63"
  shows "lg_sealed s = k - lg_acked s"
  using assms by (simp add: lg_sealed_def state_image_reads unat_of_nat_u64 u64_max_def del: of_nat_mult)

lemma sealed_cong:
  assumes "view (lg_io s') (lg_state_path s') = view (lg_io s) (lg_state_path s)" and "lg_acked s' = lg_acked s"
  shows "lg_sealed s' = lg_sealed s"
  unfolding lg_sealed_def assms ..

lemma state_file_cong:
  assumes "view (lg_io s') (lg_state_path s') = view (lg_io s) (lg_state_path s)"
    and "lg_acked s' = lg_acked s" and "lg_next_batch_seq s' = lg_next_batch_seq s"
  shows "state_file_ok s' log = state_file_ok s log"
  unfolding state_file_ok_def assms ..

text \<open>The state file has a new cursor, which the process may know or not.\<close>

lemma state_file_moves:
  assumes p: "names_ok s" "data_file_ok s ino c log junk" "cursors_ok s log"
    and k: "lg_acked s \<le> k" "k \<le> length log" and wf: "disk_wf d"
    and d: "view d (lg_data_path s) = view (lg_io s) (lg_data_path s)"
    and st: "view d (lg_state_path s) = Some (i, state_image (k * GATEWAY_SPOOL_ENTRY_SIZE) (seq_before log k)
      (lg_next_batch_seq s + 1))"
  shows "lg_inv (s\<lparr>lg_io := d\<rparr>)" and "lg_log (s\<lparr>lg_io := d\<rparr>) = log"
    and "lg_inv (s\<lparr>lg_io := d, lg_ack_offset := k * GATEWAY_SPOOL_ENTRY_SIZE, lg_last_acked_gateway_seq := q,
      lg_next_batch_seq := lg_next_batch_seq s + 1, lg_batch_prepared := False, lg_prepared_end := 0\<rparr>)"
    and "lg_log (s\<lparr>lg_io := d, lg_ack_offset := k * GATEWAY_SPOOL_ENTRY_SIZE, lg_last_acked_gateway_seq := q,
      lg_next_batch_seq := lg_next_batch_seq s + 1, lg_batch_prepared := False, lg_prepared_end := 0\<rparr>) = log"
proof -
  let ?s1 = "s\<lparr>lg_io := d\<rparr>"
  let ?s2 = "s\<lparr>lg_io := d, lg_ack_offset := k * GATEWAY_SPOOL_ENTRY_SIZE, lg_last_acked_gateway_seq := q,
      lg_next_batch_seq := lg_next_batch_seq s + 1, lg_batch_prepared := False, lg_prepared_end := 0\<rparr>"
  have "data_file_ok ?s1 ino c log junk" "data_file_ok ?s2 ino c log junk"
    using p(2) d by (simp_all add: data_file_ok_def)
  moreover have "cursors_ok ?s1 log" "cursors_ok ?s2 log"
    using p(3) k(2) by (auto simp: cursors_ok_def)
  moreover have "state_file_ok ?s1 log"
    using st k unfolding state_file_ok_def by (auto simp: lg_acked_def)
  moreover have "state_file_ok ?s2 log"
    using st k unfolding state_file_ok_def by (auto simp: lg_acked_def)
  moreover have "names_ok ?s1" "names_ok ?s2" "disk_wf (lg_io ?s1)" "disk_wf (lg_io ?s2)"
    using p(1) wf by (simp_all add: names_ok_def)
  ultimately show "lg_inv ?s1" "lg_inv ?s2" "lg_log ?s1 = log" "lg_log ?s2 = log"
    using data_file_log unfolding lg_inv_def by blast+
qed

lemma legacy_ack_result:
  assumes run: "legacy_ack_prepared s = (code, s')" and inv: "lg_inv s"
  shows "lg_inv s'" and "lg_data_end s' = lg_data_end s"
    and "if code = GATEWAY_OK
      then lg_batch_prepared s \<and> lg_pend s' = drop (lg_batch s) (lg_pend s) \<and> lg_batch s' = 0 \<and>
        lg_next_batch_seq s' = lg_next_batch_seq s + 1 \<and> (lg_data_end s < 2 ^ 63 \<longrightarrow> lg_sealed s' = 0)
      else lg_pend s' = lg_pend s \<and> lg_batch s' = lg_batch s \<and> lg_next_batch_seq s' = lg_next_batch_seq s \<and>
        (lg_data_end s < 2 ^ 63 \<longrightarrow> lg_sealed s' = lg_sealed s \<or> lg_sealed s' = lg_batch s)"
proof -
  obtain ino c log junk where p: "disk_wf (lg_io s)" "names_ok s" "data_file_ok s ino c log junk"
    "cursors_ok s log" "state_file_ok s log" and log: "lg_log s = log"
    using inv by (rule lg_invE)
  have "lg_inv s' \<and> lg_data_end s' = lg_data_end s \<and> (if code = GATEWAY_OK
      then lg_batch_prepared s \<and> lg_pend s' = drop (lg_batch s) (lg_pend s) \<and> lg_batch s' = 0 \<and>
        lg_next_batch_seq s' = lg_next_batch_seq s + 1 \<and> (lg_data_end s < 2 ^ 63 \<longrightarrow> lg_sealed s' = 0)
      else lg_pend s' = lg_pend s \<and> lg_batch s' = lg_batch s \<and> lg_next_batch_seq s' = lg_next_batch_seq s \<and>
        (lg_data_end s < 2 ^ 63 \<longrightarrow> lg_sealed s' = lg_sealed s \<or> lg_sealed s' = lg_batch s))"
  proof (cases "lg_batch_prepared s")
    case False
    then show ?thesis using run inv by (auto simp: legacy_ack_prepared_def)
  next
    case True
    then obtain k where k: "k \<le> length log" "lg_acked s < k" "lg_prepared_end s = k * GATEWAY_SPOOL_ENTRY_SIZE"
      using p(4) by (auto simp: cursors_ok_def lg_acked_def)
    have batch: "lg_batch s = k - lg_acked s" using True k(3) by (simp add: lg_batch_def)
    have small: "k * GATEWAY_SPOOL_ENTRY_SIZE < 2 ^ 63" if "lg_data_end s < 2 ^ 63"
    proof -
      have "k * GATEWAY_SPOOL_ENTRY_SIZE \<le> lg_data_end s"
        using p(3) k(1) by (simp add: data_file_ok_def)
      then show ?thesis using that by simp
    qed
    obtain found s1 where q: "record_seq_at (k * GATEWAY_SPOOL_ENTRY_SIZE - GATEWAY_SPOOL_ENTRY_SIZE) s = (found, s1)"
      by (metis surj_pair)
    have "0 < k" using k(2) by simp
    note found = record_seq_at_result [OF p(3) this k(1) q]
    note same = lg_same_inv [OF found(1)] lg_same_parts [OF found(1)]
    have f1: "lg_prepared_end s1 = k * GATEWAY_SPOOL_ENTRY_SIZE" "lg_next_batch_seq s1 = lg_next_batch_seq s"
      "lg_data_end s1 = lg_data_end s" "view (lg_io s1) = view (lg_io s)" "disk_wf (lg_io s1)"
      "lg_state_path s1 = lg_state_path s" "lg_batch_prepared s1"
      using found(1) k(3) p(1) True by (simp_all add: lg_same_def)
    have sealed1: "lg_sealed s1 = lg_sealed s" by (rule sealed_cong) (simp_all add: f1 same)
    from found(2) show ?thesis
    proof
      assume "found = Inl GATEWAY_ERROR_IO"
      then have e: "code = GATEWAY_ERROR_IO" "s' = s1\<lparr>lg_corruptions := lg_corruptions s1 + 1\<rparr>"
        using run True q k(3) by (auto simp: legacy_ack_prepared_def)
      have s: "lg_same s1 s'" by (simp add: e(2))
      have "lg_sealed s' = lg_sealed s1" by (rule sealed_cong) (simp_all add: e(2) lg_acked_def)
      then show ?thesis
        using e lg_same_inv [OF s] same inv f1 sealed1 by simp
    next
      assume F: "found = Inr (seq_before log k)"
      obtain pc s2 where ps: "legacy_persist_state (k * GATEWAY_SPOOL_ENTRY_SIZE) (seq_before log k)
          (lg_next_batch_seq s1 + 1) s1 = (pc, s2)" by (metis surj_pair)
      have n1: "names_ok s1" "data_file_ok s1 ino c log junk" "cursors_ok s1 log" "state_file_ok s1 log"
        using p same by simp_all
      note pr = legacy_persist_result [OF ps f1(5) n1(1)]
      have k1: "lg_acked s1 \<le> k" using same k(2) by simp
      have moved: "view (lg_io s2) (lg_state_path s1) = Some (i, state_image (k * GATEWAY_SPOOL_ENTRY_SIZE)
            (seq_before log k) (lg_next_batch_seq s1 + 1)) \<Longrightarrow>
          lg_inv s2 \<and> lg_log s2 = log \<and>
          lg_inv (s2\<lparr>lg_ack_offset := k * GATEWAY_SPOOL_ENTRY_SIZE, lg_last_acked_gateway_seq := seq_before log k,
            lg_next_batch_seq := lg_next_batch_seq s1 + 1, lg_batch_prepared := False, lg_prepared_end := 0\<rparr>) \<and>
          lg_log (s2\<lparr>lg_ack_offset := k * GATEWAY_SPOOL_ENTRY_SIZE, lg_last_acked_gateway_seq := seq_before log k,
            lg_next_batch_seq := lg_next_batch_seq s1 + 1, lg_batch_prepared := False, lg_prepared_end := 0\<rparr>) = log" for i
        using state_file_moves [OF n1(1-3) k1 k(1) pr(2,3)] pr(1) by metis
      have fr: "lg_prepared_end s2 = lg_prepared_end s1" "lg_next_batch_seq s2 = lg_next_batch_seq s1"
        "lg_data_end s2 = lg_data_end s1" "lg_ack_offset s2 = lg_ack_offset s1" "lg_acked s2 = lg_acked s1"
        "lg_batch s2 = lg_batch s1" "lg_state_path s2 = lg_state_path s1"
        by (subst pr(1), simp add: lg_acked_def lg_batch_def)+
      let ?t = "s2\<lparr>lg_ack_offset := k * GATEWAY_SPOOL_ENTRY_SIZE, lg_last_acked_gateway_seq := seq_before log k,
            lg_next_batch_seq := lg_next_batch_seq s1 + 1, lg_batch_prepared := False, lg_prepared_end := 0\<rparr>"
      have e: "(code, s') = (if pc \<noteq> GATEWAY_OK then (pc, s2) else (GATEWAY_OK, ?t))"
        using run True q k(3) F ps f1 fr by (auto simp: legacy_ack_prepared_def split: if_split_asm)
      show ?thesis
      proof (cases "pc = GATEWAY_OK")
        case True
        then obtain i where i: "view (lg_io s2) (lg_state_path s1) = Some (i, state_image
            (k * GATEWAY_SPOOL_ENTRY_SIZE) (seq_before log k) (lg_next_batch_seq s1 + 1))" using pr(4) by blast
        have t: "lg_acked ?t = k" "lg_batch ?t = 0" by (simp_all add: lg_acked_def lg_batch_def)
        have "lg_sealed ?t = 0" if "lg_data_end s < 2 ^ 63"
          using sealed_image [of ?t i k] i small [OF that] fr f1 t by simp
        moreover have "lg_pend ?t = drop (lg_batch s) (lg_pend s)"
          using moved [OF i] t log batch k(2) by (simp add: lg_pend_def)
        ultimately show ?thesis using e True moved [OF i] t \<open>lg_batch_prepared s\<close> f1 fr by simp
      next
        case False
        have pend: "lg_pend s2 = lg_pend s" if "lg_log s2 = log"
          using that log fr same by (simp add: lg_pend_def)
        from pr(5) show ?thesis
        proof
          assume v: "view (lg_io s2) (lg_state_path s1) = view (lg_io s1) (lg_state_path s1)"
          obtain d where d: "s2 = s1\<lparr>lg_io := d\<rparr>" using pr(1) by blast
          then have "view d (lg_data_path s1) = view (lg_io s1) (lg_data_path s1)" using pr(3) by simp
          then have "data_file_ok s2 ino c log junk" "cursors_ok s2 log" "names_ok s2"
            using n1(1-3) by (simp_all add: d data_file_ok_def cursors_ok_def names_ok_def)
          moreover have "state_file_ok s2 log"
            using state_file_cong [of s2 s1 log] n1(4) v fr by simp
          ultimately have "lg_inv s2" "lg_log s2 = log"
            using pr(2) data_file_log unfolding lg_inv_def by blast+
          moreover have "lg_sealed s2 = lg_sealed s1" using v fr by (intro sealed_cong) simp_all
          ultimately show ?thesis using e False pend fr f1 same sealed1 by simp
        next
          assume "\<exists>i. view (lg_io s2) (lg_state_path s1) = Some (i, state_image
            (k * GATEWAY_SPOOL_ENTRY_SIZE) (seq_before log k) (lg_next_batch_seq s1 + 1))"
          then obtain i where i: "view (lg_io s2) (lg_state_path s1) = Some (i, state_image
            (k * GATEWAY_SPOOL_ENTRY_SIZE) (seq_before log k) (lg_next_batch_seq s1 + 1))" by blast
          have "lg_sealed s2 = lg_batch s" if "lg_data_end s < 2 ^ 63"
            using sealed_image [of s2 i k] i small [OF that] fr same batch by simp
          then show ?thesis using e False moved [OF i] pend fr f1 same by simp
        qed
      qed
    qed
  qed
  then show "lg_inv s'" "lg_data_end s' = lg_data_end s" "if code = GATEWAY_OK
      then lg_batch_prepared s \<and> lg_pend s' = drop (lg_batch s) (lg_pend s) \<and> lg_batch s' = 0 \<and>
        lg_next_batch_seq s' = lg_next_batch_seq s + 1 \<and> (lg_data_end s < 2 ^ 63 \<longrightarrow> lg_sealed s' = 0)
      else lg_pend s' = lg_pend s \<and> lg_batch s' = lg_batch s \<and> lg_next_batch_seq s' = lg_next_batch_seq s \<and>
        (lg_data_end s < 2 ^ 63 \<longrightarrow> lg_sealed s' = lg_sealed s \<or> lg_sealed s' = lg_batch s)"
    by blast+
qed

end
