(* ===== verification/Spool_Legacy_Recovery.thy ===== *)
theory Spool_Legacy_Recovery
  imports Spool_Legacy_Acks
begin

text \<open>
  Restarting the legacy spool: the process is killed at any point, in the middle of a call or between two,
  and opens the spool again on what it left on the disk. The log is read back whole, an incomplete entry
  behind it is cut off, and the queue starts where the state file says.
\<close>

subsection \<open>Calls that do not fail\<close>

lemma smooth_steps:
  assumes "outcomes d = []"
  shows "sys_call d = (True, d)" and "sys_close d = (True, d)"
    and "sys_open name d = (map_of (names d) name, d)"
    and "sys_fstat ino d = (Some (regular (inodes d ino), length (content (inodes d ino))), d)"
    and "sys_ftruncate ino n d = (True, set_content ino (resize n (content (inodes d ino))) d)"
    and "sys_fdatasync ino d = (True, d\<lparr>inodes := (inodes d)(ino :=
      (inodes d ino)\<lparr>durable := content (inodes d ino)\<rparr>)\<rparr>)"
  using calls_succeed [OF assms]
  by (simp_all add: sys_close_def sys_open_def sys_fstat_def sys_ftruncate_def sys_fdatasync_def)

lemma smooth_read:
  assumes "outcomes d = []" and "view d name = Some (ino, c)" and "offset + n \<le> length c"
  shows "read_exact ino n offset d = (Inr (take n (drop offset c)), d)"
proof -
  have "content (inodes d ino) = c" using assms(2) by (simp add: view_Some)
  then show ?thesis using assms(1,3) by (simp add: read_exact_def Let_def)
qed

lemma smooth_open_existing:
  assumes "outcomes d = []" and "view d name = Some (ino, c)"
  shows "sys_open_create name d = (Some ino, d)" and "sys_open name d = (Some ino, d)"
  using assms by (simp_all add: sys_open_create_def smooth_steps view_Some)

subsection \<open>Reading the log back\<close>

lemma seq_before_0 [simp]: "seq_before log 0 = 0"
  by (simp add: seq_before_def)

lemma scan_log:
  assumes "outcomes (lg_io s) = []" and "lg_data_fd s = Some ino"
    and "view (lg_io s) name = Some (ino, c @ junk)" and "stores decode_record c log"
    and "\<forall>r\<in>set log. rec_ok r" and "sorted_wrt (\<lambda>a b. gateway_seq a < gateway_seq b) log"
    and "k \<le> length log"
  shows "legacy_scan_entries st_size (length log - k + m) (k * GATEWAY_SPOOL_ENTRY_SIZE) (seq_before log k) s =
    legacy_scan_entries st_size m (length log * GATEWAY_SPOOL_ENTRY_SIZE) (seq_before log (length log)) s"
  using assms(7)
proof (induction "length log - k" arbitrary: k)
  case 0
  then have "k = length log" by simp
  then show ?case by simp
next
  case (Suc n)
  then have k: "k < length log" by simp
  have len: "length c = length log * GATEWAY_SPOOL_ENTRY_SIZE" using assms(4) by (simp add: stores_def)
  have fits: "k * GATEWAY_SPOOL_ENTRY_SIZE + GATEWAY_SPOOL_ENTRY_SIZE \<le> length (c @ junk)"
    using k mult_le_mono1 [of "Suc k" "length log" GATEWAY_SPOOL_ENTRY_SIZE] len by simp
  have r: "read_exact ino GATEWAY_SPOOL_ENTRY_SIZE (k * GATEWAY_SPOOL_ENTRY_SIZE) (lg_io s) =
      (Inr (window k (c @ junk)), lg_io s)"
    using smooth_read [OF assms(1,3) fits] by (simp add: window_def)
  have above: "\<not> gateway_seq (log ! k) \<le> seq_before log k"
  proof (cases k)
    case 0
    then show ?thesis using assms(5) k nth_mem [OF k] by (simp add: rec_ok_def)
  next
    case (Suc j)
    then show ?thesis using assms(6) k sorted_wrt_nth_less [of _ log j k] by (simp add: seq_before_def not_le)
  qed
  have nxt: "Suc k * GATEWAY_SPOOL_ENTRY_SIZE = k * GATEWAY_SPOOL_ENTRY_SIZE + GATEWAY_SPOOL_ENTRY_SIZE"
    "gateway_seq (log ! k) = seq_before log (Suc k)" "length log - k = Suc (length log - Suc k)"
    using k by (simp_all add: seq_before_def)
  have "s\<lparr>lg_io := lg_io s\<rparr> = s" by simp
  then have "legacy_scan_entries st_size (length log - k + m) (k * GATEWAY_SPOOL_ENTRY_SIZE) (seq_before log k) s =
      legacy_scan_entries st_size (length log - Suc k + m) (Suc k * GATEWAY_SPOOL_ENTRY_SIZE) (seq_before log (Suc k)) s"
    using r above assms(2) stores_window [OF assms(4) k, of junk] nxt
    by (simp add: data_ino_def Let_def add.commute)
  also have "\<dots> = legacy_scan_entries st_size m (length log * GATEWAY_SPOOL_ENTRY_SIZE) (seq_before log (length log)) s"
    using Suc k by (intro Suc.hyps) simp_all
  finally show ?case .
qed

text \<open>The end of the log that a restart finds: whether what is behind the log is a whole entry.\<close>

definition tail_record :: "telemetry_record list \<Rightarrow> bytes \<Rightarrow> telemetry_record list" where
  "tail_record log junk =
     (if length junk = GATEWAY_SPOOL_ENTRY_SIZE
      then case decode_record junk of
          Inr r \<Rightarrow> if gateway_seq r \<le> seq_before log (length log) then [] else [r]
        | Inl _ \<Rightarrow> []
      else [])"

lemma truncate_tail_smooth:
  assumes "outcomes (lg_io s) = []" and "lg_data_fd s = Some ino" and "disk_wf (lg_io s)"
    and "view (lg_io s) (lg_data_path s) = Some (ino, c @ junk)" and "length c = n"
  shows "\<exists>d. truncate_tail n s = (GATEWAY_OK, s\<lparr>lg_io := d, lg_data_end := n,
      lg_tail_recoveries := lg_tail_recoveries s + 1\<rparr>) \<and> outcomes d = [] \<and> disk_wf d \<and>
    view d = (view (lg_io s))(lg_data_path s \<mapsto> (ino, c))"
proof -
  obtain ok d1 where t: "sys_ftruncate ino n (lg_io s) = (ok, d1)" by (metis surj_pair)
  have ok: "ok" "outcomes d1 = []"
    using t smooth_steps(5) [OF assms(1), of ino n] assms(1) by (auto simp: set_content_def)
  note tv = sys_ftruncate_view [OF t assms(3,4)]
  obtain ok2 d2 where y: "sys_fdatasync ino d1 = (ok2, d2)" by (metis surj_pair)
  have "ok2" "outcomes d2 = []" using y smooth_steps(6) [OF ok(2), of ino] ok(2) by auto
  moreover have "view d2 = (view (lg_io s))(lg_data_path s \<mapsto> (ino, c))" "disk_wf d2"
    using sync_view(2) [OF y] tv(1) tv(3) [OF ok(1)] assms(5) by (simp_all add: resize_def)
  ultimately show ?thesis
    using t y ok(1) assms(2) by (intro exI [of _ d2]) (simp add: truncate_tail_def data_ino_def)
qed

lemma scan_data_smooth:
  assumes o: "outcomes (lg_io s) = []" and fd: "lg_data_fd s = Some ino" and wf: "disk_wf (lg_io s)"
    and v: "view (lg_io s) (lg_data_path s) = Some (ino, c @ junk)" and st: "stores decode_record c log"
    and ok: "\<forall>r\<in>set log. rec_ok r" and sorted: "sorted_wrt (\<lambda>a b. gateway_seq a < gateway_seq b) log"
    and junk: "length junk \<le> GATEWAY_SPOOL_ENTRY_SIZE"
  defines "log' \<equiv> log @ tail_record log junk"
  shows "\<exists>d n c'. scan_data s = (GATEWAY_OK, s\<lparr>lg_io := d,
      lg_data_end := length log' * GATEWAY_SPOOL_ENTRY_SIZE,
      lg_last_gateway_seq := seq_before log' (length log'), lg_tail_recoveries := n\<rparr>) \<and>
    outcomes d = [] \<and> disk_wf d \<and> view d = (view (lg_io s))(lg_data_path s \<mapsto> (ino, c')) \<and>
    stores decode_record c' log'"
proof -
  let ?n = "length log * GATEWAY_SPOOL_ENTRY_SIZE"
  have len: "length c = ?n" using st by (simp add: stores_def)
  have content: "content (inodes (lg_io s) ino) = c @ junk" "regular (inodes (lg_io s) ino)"
    using v wf by (auto simp: view_Some disk_wf_def dest: map_of_SomeD)
  define s1 where "s1 = s\<lparr>lg_data_end := length (c @ junk)\<rparr>"
  have s1: "outcomes (lg_io s1) = []" "lg_data_fd s1 = Some ino" "disk_wf (lg_io s1)"
    "view (lg_io s1) (lg_data_path s1) = Some (ino, c @ junk)" "lg_data_path s1 = lg_data_path s"
    using o fd wf v by (simp_all add: s1_def)
  obtain size where size_eq: "length (c @ junk) = size" by blast
  have start: "scan_data s = (case legacy_scan_entries size (size div GATEWAY_SPOOL_ENTRY_SIZE) 0 0 s1 of
      Inl result \<Rightarrow> result
    | Inr (previous_seq, s) \<Rightarrow>
        let offset = size - size mod GATEWAY_SPOOL_ENTRY_SIZE;
            (code, s) = (if offset \<noteq> size then truncate_tail offset s else (GATEWAY_OK, s))
        in if code \<noteq> GATEWAY_OK then (code, s) else (GATEWAY_OK, s\<lparr>lg_last_gateway_seq := previous_seq\<rparr>))"
    using smooth_steps(4) [OF o, of ino] content fd size_eq by (simp add: scan_data_def data_ino_def s1_def)
  note scan = scan_log [OF s1(1,2,4) st ok sorted, of 0, simplified]
  show ?thesis
  proof (cases "length junk = GATEWAY_SPOOL_ENTRY_SIZE")
    case False
    then have short: "length junk < GATEWAY_SPOOL_ENTRY_SIZE" using junk by simp
    then have size: "size div GATEWAY_SPOOL_ENTRY_SIZE = length log" "size mod GATEWAY_SPOOL_ENTRY_SIZE = length junk"
      "size = ?n + length junk"
      using len size_eq by (auto simp flip: size_eq)
    have log': "log' = log" using False by (simp add: log'_def tail_record_def)
    have loop: "legacy_scan_entries size (size div GATEWAY_SPOOL_ENTRY_SIZE) 0 0 s1 =
        Inr (seq_before log (length log), s1)"
      using scan [of size 0] unfolding size(1) by simp
    show ?thesis
    proof (cases "junk = []")
      case True
      then show ?thesis using start loop size len log' st v o wf
        by (intro exI [of _ "lg_io s"] exI [of _ "lg_tail_recoveries s"] exI [of _ c]) (simp add: s1_def fun_upd_idem)
    next
      case False
      obtain d where d: "truncate_tail ?n s1 = (GATEWAY_OK, s1\<lparr>lg_io := d, lg_data_end := ?n,
          lg_tail_recoveries := lg_tail_recoveries s1 + 1\<rparr>)" "outcomes d = []" "disk_wf d"
          "view d = (view (lg_io s1))(lg_data_path s1 \<mapsto> (ino, c))"
        using truncate_tail_smooth [OF s1(1-4) len] by blast
      have "size - size mod GATEWAY_SPOOL_ENTRY_SIZE = ?n" "?n \<noteq> size" using size len False by simp_all
      then show ?thesis using start loop d False log' st
        by (intro exI [of _ d] exI [of _ "lg_tail_recoveries s + 1"] exI [of _ c]) (simp add: s1_def len Let_def)
    qed
  next
    case True
    then have size: "size div GATEWAY_SPOOL_ENTRY_SIZE = length log + 1" "size mod GATEWAY_SPOOL_ENTRY_SIZE = 0"
        "size = ?n + GATEWAY_SPOOL_ENTRY_SIZE"
      using len size_eq by (auto simp flip: size_eq)
    have r: "read_exact ino GATEWAY_SPOOL_ENTRY_SIZE ?n (lg_io s1) = (Inr junk, lg_io s1)"
      using smooth_read [OF s1(1,4), of ?n GATEWAY_SPOOL_ENTRY_SIZE] len True by simp
    have "s1\<lparr>lg_io := lg_io s1\<rparr> = s1" by simp
    then have one: "legacy_scan_entries size (Suc 0) ?n p s1 =
        (case decode_record junk of Inl _ \<Rightarrow> Inl (truncate_tail ?n (s1\<lparr>lg_last_gateway_seq := p\<rparr>))
         | Inr r \<Rightarrow> if gateway_seq r \<le> p then Inl (truncate_tail ?n (s1\<lparr>lg_last_gateway_seq := p\<rparr>))
             else Inr (gateway_seq r, s1))" for p
      using r s1(2) size(3) by (simp add: data_ino_def Let_def split: sum.split)
    have loop: "legacy_scan_entries size (size div GATEWAY_SPOOL_ENTRY_SIZE) 0 0 s1 =
        (let bad = Inl (truncate_tail ?n (s1\<lparr>lg_last_gateway_seq := seq_before log (length log)\<rparr>)) in
         case decode_record junk of Inl _ \<Rightarrow> bad
         | Inr r \<Rightarrow> if gateway_seq r \<le> seq_before log (length log) then bad else Inr (gateway_seq r, s1))"
      using scan [of size "Suc 0"] one unfolding size(1)
      by (simp del: legacy_scan_entries.simps add: Let_def)
    show ?thesis
    proof (cases "tail_record log junk")
      case Nil
      let ?s2 = "s1\<lparr>lg_last_gateway_seq := seq_before log (length log)\<rparr>"
      have s2: "outcomes (lg_io ?s2) = []" "lg_data_fd ?s2 = Some ino" "disk_wf (lg_io ?s2)"
        "view (lg_io ?s2) (lg_data_path ?s2) = Some (ino, c @ junk)" using s1 by simp_all
      obtain d where d: "truncate_tail ?n ?s2 = (GATEWAY_OK, ?s2\<lparr>lg_io := d, lg_data_end := ?n,
          lg_tail_recoveries := lg_tail_recoveries ?s2 + 1\<rparr>)" "outcomes d = []" "disk_wf d"
          "view d = (view (lg_io ?s2))(lg_data_path ?s2 \<mapsto> (ino, c))"
        using truncate_tail_smooth [OF s2 len] by blast
      have "legacy_scan_entries size (size div GATEWAY_SPOOL_ENTRY_SIZE) 0 0 s1 = Inl (truncate_tail ?n ?s2)"
        using loop Nil True by (auto simp: tail_record_def Let_def split: sum.split_asm if_split_asm)
      then show ?thesis using start d Nil st log'_def
        by (intro exI [of _ d] exI [of _ "lg_tail_recoveries s + 1"] exI [of _ c]) (simp add: s1_def)
    next
      case (Cons r rs)
      then have r: "tail_record log junk = [r]" "decode_record junk = Inr r"
          "\<not> gateway_seq r \<le> seq_before log (length log)"
        using True by (auto simp: tail_record_def split: sum.split_asm if_split_asm)
      have log': "log' = log @ [r]" using r(1) by (simp add: log'_def)
      have "stores decode_record (c @ junk) log'" using stores_snoc [OF st True r(2)] log' by simp
      moreover have "legacy_scan_entries size (size div GATEWAY_SPOOL_ENTRY_SIZE) 0 0 s1 = Inr (gateway_seq r, s1)"
        using loop r by (simp add: Let_def)
      moreover have "seq_before log' (length log') = gateway_seq r" by (simp add: log' seq_before_def)
      moreover have "size = length log' * GATEWAY_SPOOL_ENTRY_SIZE" using size(3) log' by simp
      moreover have "s1\<lparr>lg_last_gateway_seq := gateway_seq r\<rparr> = s\<lparr>lg_io := lg_io s,
          lg_data_end := length log' * GATEWAY_SPOOL_ENTRY_SIZE, lg_last_gateway_seq := gateway_seq r,
          lg_tail_recoveries := lg_tail_recoveries s\<rparr>"
        using calculation(4) size_eq by (simp add: s1_def)
      ultimately show ?thesis using start size(2) v o wf
        by (intro exI [of _ "lg_io s"] exI [of _ "lg_tail_recoveries s"] exI [of _ "c @ junk"])
          (simp add: fun_upd_idem del: legacy_scan_entries.simps)
    qed
  qed
qed

subsection \<open>Reading the state back\<close>

lemma load_state_smooth:
  assumes o: "outcomes (lg_io s) = []" and fd: "lg_data_fd s = Some ino"
    and v: "view (lg_io s) (lg_data_path s) = Some (ino, c)" and st: "stores decode_record c log"
    and data_end: "lg_data_end s = length log * GATEWAY_SPOOL_ENTRY_SIZE" "lg_data_end s \<le> u64_max"
    and ok: "\<forall>r\<in>set log. rec_ok r"
    and state: "view (lg_io s) (lg_state_path s) = None \<and> k = 0 \<or>
      (\<exists>i nb. view (lg_io s) (lg_state_path s) = Some (i, state_image (k * GATEWAY_SPOOL_ENTRY_SIZE)
        (seq_before log k) nb) \<and> nb \<noteq> 0 \<and> next_seq = nb)"
    and k: "k \<le> length log" and ack0: "lg_ack_offset s = 0"
  shows "\<exists>q n. legacy_load_state s = (GATEWAY_OK, s\<lparr>lg_ack_offset := k * GATEWAY_SPOOL_ENTRY_SIZE,
      lg_last_acked_gateway_seq := q, lg_state_recoveries := n,
      lg_next_batch_seq := (if view (lg_io s) (lg_state_path s) = None then 1 else next_seq)\<rparr>)"
proof -
  have io: "s\<lparr>lg_io := lg_io s\<rparr> = s" for s by simp
  from state show ?thesis
  proof
    assume none: "view (lg_io s) (lg_state_path s) = None \<and> k = 0"
    then have "map_of (names (lg_io s)) (lg_state_path s) = None" by (simp add: view_None)
    then have "legacy_load_state s = (GATEWAY_OK, if lg_data_end s \<noteq> 0
        then s\<lparr>lg_next_batch_seq := 1, lg_state_recoveries := lg_state_recoveries s + 1\<rparr> else s\<lparr>lg_next_batch_seq := 1\<rparr>)"
      using smooth_steps(1,3) [OF o] by (simp add: legacy_load_state_def Let_def)
    moreover have "s\<lparr>lg_ack_offset := 0, lg_last_acked_gateway_seq := lg_last_acked_gateway_seq s,
        lg_state_recoveries := n, lg_next_batch_seq := 1\<rparr> = s\<lparr>lg_state_recoveries := n, lg_next_batch_seq := 1\<rparr>" for n
      using ack0 by simp
    ultimately show ?thesis
      using none
      by (intro exI [of _ "lg_last_acked_gateway_seq s"]
            exI [of _ "if lg_data_end s \<noteq> 0 then lg_state_recoveries s + 1 else lg_state_recoveries s"]) simp
  next
    assume "\<exists>i nb. view (lg_io s) (lg_state_path s) = Some (i, state_image (k * GATEWAY_SPOOL_ENTRY_SIZE)
        (seq_before log k) nb) \<and> nb \<noteq> 0 \<and> next_seq = nb"
    then obtain i where i: "view (lg_io s) (lg_state_path s) = Some (i, state_image (k * GATEWAY_SPOOL_ENTRY_SIZE)
        (seq_before log k) next_seq)" "next_seq \<noteq> 0" by blast
    let ?st = "state_image (k * GATEWAY_SPOOL_ENTRY_SIZE) (seq_before log k) next_seq"
    define b where "b = k * GATEWAY_SPOOL_ENTRY_SIZE"
    have b: "b \<le> lg_data_end s" using k data_end(1) by (simp add: b_def)
    have reads: "unat (get_u64 (drop 16 ?st)) = b" "get_u64 (drop 24 ?st) = seq_before log k"
        "get_u64 (drop 32 ?st) = next_seq" "image_valid ?st" "length ?st = LEGACY_STATE_SIZE"
      using b data_end(2) by (simp_all add: state_image_reads unat_of_nat_u64 b_def del: of_nat_mult)
    have open_state: "sys_open (lg_state_path s) (lg_io s) = (Some i, lg_io s)"
      using smooth_open_existing(2) [OF o i(1)] .
    have stat: "\<exists>reg. sys_fstat i (lg_io s) = (Some (reg, LEGACY_STATE_SIZE), lg_io s)"
      using smooth_steps(4) [OF o, of i] i(1) reads(5) by (simp add: view_Some)
    have read: "read_exact i LEGACY_STATE_SIZE 0 (lg_io s) = (Inr ?st, lg_io s)"
      using smooth_read [OF o i(1), of 0 LEGACY_STATE_SIZE] reads(5) by simp
    have zero: "(b = 0) = (seq_before log k = 0)"
    proof (cases k)
      case (Suc j)
      then have "log ! j \<in> set log" using k by simp
      then show ?thesis using ok Suc by (auto simp: b_def seq_before_def rec_ok_def)
    qed (simp add: b_def)
    have at: "record_seq_at (b - GATEWAY_SPOOL_ENTRY_SIZE) t = (Inr (seq_before log k), t)"
      if "k \<noteq> 0" "lg_io t = lg_io s" "lg_data_fd t = Some ino" for t
    proof -
      obtain j where j: "k = Suc j" using \<open>k \<noteq> 0\<close> by (cases k) auto
      have len: "length c = length log * GATEWAY_SPOOL_ENTRY_SIZE" using st by (simp add: stores_def)
      have "j * GATEWAY_SPOOL_ENTRY_SIZE + GATEWAY_SPOOL_ENTRY_SIZE \<le> length c"
        using k j len mult_le_mono1 [of k "length log" GATEWAY_SPOOL_ENTRY_SIZE] by simp
      from smooth_read [OF o v this] have "read_exact ino GATEWAY_SPOOL_ENTRY_SIZE (j * GATEWAY_SPOOL_ENTRY_SIZE) (lg_io s) =
          (Inr (window j c), lg_io s)" by (simp add: window_def)
      moreover have "decode_record (window j c) = Inr (log ! j)"
        using st k j by (simp add: stores_def)
      ultimately show ?thesis using that io [of t] j by (simp add: record_seq_at_def data_ino_def b_def seq_before_def)
    qed
    have good: "\<not> (\<not> image_valid ?st \<or> b > lg_data_end s \<or> b mod GATEWAY_SPOOL_ENTRY_SIZE \<noteq> 0 \<or>
        next_seq = 0 \<or> (b = 0) \<noteq> (seq_before log k = 0))"
      using reads(4) b zero i(2) by (simp add: b_def)
    obtain reg where reg: "sys_fstat i (lg_io s) = (Some (reg, LEGACY_STATE_SIZE), lg_io s)" using stat by blast
    define t where "t = s\<lparr>lg_next_batch_seq := 1\<rparr>"
    have t: "lg_io t = lg_io s" "lg_data_fd t = Some ino" "lg_data_end t = lg_data_end s" "t\<lparr>lg_io := lg_io s\<rparr> = t"
      using fd by (simp_all add: t_def)
    have "legacy_load_state s =
        (let (matches, s) = (if b = 0 then (True, t)
             else let (actual, s) = record_seq_at (b - GATEWAY_SPOOL_ENTRY_SIZE) t in (actual = Inr (seq_before log k), s))
         in if \<not> matches then (GATEWAY_OK, s\<lparr>lg_state_recoveries := lg_state_recoveries s + 1\<rparr>)
            else (GATEWAY_OK, s\<lparr>lg_ack_offset := b, lg_last_acked_gateway_seq := seq_before log k,
              lg_next_batch_seq := next_seq\<rparr>))"
      using smooth_steps(1,2) [OF o] open_state reg read reads(1-3) good t
      by (simp add: legacy_load_state_def Let_def t_def)
    also have "\<dots> = (GATEWAY_OK, t\<lparr>lg_ack_offset := b, lg_last_acked_gateway_seq := seq_before log k,
              lg_next_batch_seq := next_seq\<rparr>)"
      using at [OF _ t(1,2)] by (cases "k = 0") (simp_all add: b_def)
    finally show ?thesis using i(1)
      by (intro exI [of _ "seq_before log k"] exI [of _ "lg_state_recoveries s"]) (simp add: t_def b_def)
  qed
qed

subsection \<open>A restart\<close>

text \<open>Opening again what is on the disk, with no failing call; the outcomes of the later calls are given.\<close>

definition legacy_restart :: "sys_outcome list \<Rightarrow> legacy_spool \<Rightarrow> legacy_spool" where
  "legacy_restart later s =
     (case legacy_open (Some (lg_data_path s)) ((lg_io s)\<lparr>outcomes := []\<rparr>) of
        (GATEWAY_OK, Some s', _) \<Rightarrow> s'\<lparr>lg_io := (lg_io s')\<lparr>outcomes := later\<rparr>\<rparr>
      | _ \<Rightarrow> s)"

lemma turns_room: "0 < lg_turns s \<Longrightarrow> lg_data_end s + GATEWAY_SPOOL_ENTRY_SIZE \<le> 2 ^ 63"
proof -
  assume "0 < lg_turns s"
  then have "0 < (2 ^ 63 - lg_data_end s) div GATEWAY_SPOOL_ENTRY_SIZE" by (simp add: lg_turns_def)
  then have "\<not> 2 ^ 63 - lg_data_end s < GATEWAY_SPOOL_ENTRY_SIZE" by (metis div_less less_irrefl)
  moreover have "lg_data_end s < 2 ^ 63" using lg_turns_bound [OF \<open>0 < lg_turns s\<close>] by simp
  ultimately show ?thesis by (metis add_le_imp_le_diff le_add_diff_inverse2 less_imp_le not_le add.commute nat_add_left_cancel_le)
qed

lemma tail_record_result:
  assumes "length junk \<le> GATEWAY_SPOOL_ENTRY_SIZE" and "sorted_wrt (\<lambda>a b. gateway_seq a < gateway_seq b) log"
    and "\<forall>r\<in>set log. rec_ok r"
  shows "length (tail_record log junk) \<le> 1" and "\<forall>r\<in>set (log @ tail_record log junk). rec_ok r"
    and "sorted_wrt (\<lambda>a b. gateway_seq a < gateway_seq b) (log @ tail_record log junk)"
proof -
  show "length (tail_record log junk) \<le> 1"
    by (simp add: tail_record_def split: sum.split)
  have new: "rec_ok r \<and> seq_before log (length log) < gateway_seq r" if "r \<in> set (tail_record log junk)" for r
  proof -
    have d: "decode_record junk = Inr r \<and> length junk = GATEWAY_SPOOL_ENTRY_SIZE \<and>
        \<not> gateway_seq r \<le> seq_before log (length log)"
    proof (cases "decode_record junk")
      case (Inl e)
      then have "tail_record log junk = []" by (simp add: tail_record_def)
      then show ?thesis using that by simp
    next
      case (Inr x)
      have "length junk = GATEWAY_SPOOL_ENTRY_SIZE"
        by (rule ccontr) (use that in \<open>simp add: tail_record_def\<close>)
      then have "tail_record log junk = (if gateway_seq x \<le> seq_before log (length log) then [] else [x])"
        unfolding tail_record_def Inr by (simp only: if_True sum.case simp_thms)
      then show ?thesis using that Inr \<open>length junk = GATEWAY_SPOOL_ENTRY_SIZE\<close>
        by (cases "gateway_seq x \<le> seq_before log (length log)") (simp_all only: if_True if_False, simp_all)
    qed
    then show ?thesis
      using decode_record_InrD [of junk r] by (simp add: GATEWAY_SPOOL_ENTRY_SIZE_def rec_ok_def not_le)
  qed
  then show "\<forall>r\<in>set (log @ tail_record log junk). rec_ok r" using assms(3) by auto
  have "gateway_seq x < gateway_seq r" if x: "x \<in> set log" and r: "r \<in> set (tail_record log junk)" for x r
  proof -
    have "log \<noteq> []" using x by auto
    then show ?thesis
      using sorted_wrt_less_lastD [OF assms(2) x] new [OF r] seq_before_last [of log] le_less_trans by auto
  qed
  moreover have "sorted_wrt (\<lambda>a b. gateway_seq a < gateway_seq b) (tail_record log junk)"
    by (simp add: tail_record_def split: sum.split)
  ultimately show "sorted_wrt (\<lambda>a b. gateway_seq a < gateway_seq b) (log @ tail_record log junk)"
    using assms(2) by (auto simp: sorted_wrt_append)
qed

lemma legacy_open_again:
  assumes inv: "lg_inv s" and t: "0 < lg_turns s"
  shows "\<exists>s' d extra. legacy_open (Some (lg_data_path s)) ((lg_io s)\<lparr>outcomes := []\<rparr>) = (GATEWAY_OK, Some s', d) \<and>
    lg_inv s' \<and> \<not> lg_batch_prepared s' \<and> lg_log s' = lg_log s @ extra \<and> length extra \<le> 1 \<and>
    lg_acked s' = lg_acked s + lg_sealed s \<and> lg_sealed s' = 0 \<and>
    lg_data_end s' \<le> lg_data_end s + GATEWAY_SPOOL_ENTRY_SIZE \<and>
    (lg_next_batch_seq s' = 1 \<or> lg_next_batch_seq s' = lg_next_batch_seq s \<or>
     lg_next_batch_seq s' = lg_next_batch_seq s + 1)"
proof -
  obtain ino c log junk where p: "disk_wf (lg_io s)" "names_ok s" "data_file_ok s ino c log junk"
    "cursors_ok s log" "state_file_ok s log" and log: "lg_log s = log"
    using inv by (rule lg_invE)
  note f = p(3) [unfolded data_file_ok_def]
  note bound = lg_turns_bound [OF t] and room = turns_room [OF t]
  let ?path = "lg_data_path s" and ?d0 = "(lg_io s)\<lparr>outcomes := []\<rparr>"
  have path: "legacy_path_ok ?path" and st_name: "lg_state_path s = state_name ?path"
    and tmp_name: "lg_state_tmp_path s = state_name ?path @ ''.tmp''"
    using p(2) by (simp_all add: names_ok_def)
  define s1 where "s1 = (zero_legacy_spool ?d0)\<lparr>lg_data_path := ?path, lg_state_path := lg_state_path s,
      lg_state_tmp_path := lg_state_tmp_path s, lg_data_fd := Some ino\<rparr>"
  have s1: "outcomes (lg_io s1) = []" "lg_data_fd s1 = Some ino" "disk_wf (lg_io s1)"
    "view (lg_io s1) (lg_data_path s1) = Some (ino, c @ junk)"
    using p(1) f by (simp_all add: s1_def zero_legacy_spool_def)
  define log' where "log' = log @ tail_record log junk"
  have st: "stores decode_record c log" and rok: "\<forall>r\<in>set log. rec_ok r"
    and sorted: "sorted_wrt (\<lambda>a b. gateway_seq a < gateway_seq b) log"
    and junk: "length junk \<le> GATEWAY_SPOOL_ENTRY_SIZE" using f by auto
  note tail = tail_record_result [OF junk sorted rok, folded log'_def]
  obtain d n c' where scan: "scan_data s1 = (GATEWAY_OK, s1\<lparr>lg_io := d,
      lg_data_end := length log' * GATEWAY_SPOOL_ENTRY_SIZE,
      lg_last_gateway_seq := seq_before log' (length log'), lg_tail_recoveries := n\<rparr>)"
      "outcomes d = []" "disk_wf d" "view d = (view (lg_io s1))(lg_data_path s1 \<mapsto> (ino, c'))"
      "stores decode_record c' log'"
    using scan_data_smooth [OF s1 st rok sorted junk] unfolding log'_def by blast
  let ?s2 = "s1\<lparr>lg_io := d, lg_data_end := length log' * GATEWAY_SPOOL_ENTRY_SIZE,
      lg_last_gateway_seq := seq_before log' (length log'), lg_tail_recoveries := n\<rparr>"
  have grown: "length log' * GATEWAY_SPOOL_ENTRY_SIZE \<le> lg_data_end s + GATEWAY_SPOOL_ENTRY_SIZE"
    using f tail(1) by (auto simp: log'_def le_Suc_eq)
  then have small: "length log' * GATEWAY_SPOOL_ENTRY_SIZE \<le> u64_max" using room by (simp add: u64_max_def)
  have view_state: "view d (lg_state_path s) = view (lg_io s) (lg_state_path s)"
    using scan(4) names_ok_distinct(1) [OF p(2)] by (simp add: s1_def zero_legacy_spool_def)
  have acked: "lg_acked s \<le> length log" using acked_le [OF p(4)] by simp
  obtain k nb where k: "lg_acked s \<le> k" "k \<le> length log" "k = lg_acked s + lg_sealed s"
    "view (lg_io s) (lg_state_path s) = None \<and> k = 0 \<or>
      (\<exists>i nb'. view (lg_io s) (lg_state_path s) = Some (i, state_image (k * GATEWAY_SPOOL_ENTRY_SIZE)
        (seq_before log k) nb') \<and> nb' \<noteq> 0 \<and> nb = nb')"
    "nb = lg_next_batch_seq s \<or> nb = lg_next_batch_seq s + 1"
  proof (cases "view (lg_io s) (lg_state_path s)")
    case None
    then show ?thesis using that [of 0 "lg_next_batch_seq s"] p(5) by (simp add: state_file_ok_def lg_sealed_def)
  next
    case (Some q)
    then obtain i k nb where q: "view (lg_io s) (lg_state_path s) = Some (i, state_image (k * GATEWAY_SPOOL_ENTRY_SIZE)
        (seq_before log k) nb)" "lg_acked s \<le> k" "k \<le> length log"
        "nb = lg_next_batch_seq s \<or> nb = lg_next_batch_seq s + 1"
      using p(5) by (cases q) (auto simp: state_file_ok_def)
    have "k * GATEWAY_SPOOL_ENTRY_SIZE \<le> lg_data_end s" using q(3) f by simp
    from le_less_trans [OF this] have "k * GATEWAY_SPOOL_ENTRY_SIZE < 2 ^ 63" using bound by blast
    then have "lg_sealed s = k - lg_acked s" by (rule sealed_image [OF q(1)])
    then have "k = lg_acked s + lg_sealed s" using q(2) by simp
    moreover have "nb \<noteq> 0" using q(4) bound by metis
    ultimately show ?thesis using that [of k nb] q by blast
  qed
  have k': "k \<le> length log'" "seq_before log' k = seq_before log k"
    using k(2) by (simp_all add: log'_def seq_before_append)
  have pre: "outcomes (lg_io ?s2) = []" "lg_data_fd ?s2 = Some ino"
    "view (lg_io ?s2) (lg_data_path ?s2) = Some (ino, c')" "stores decode_record c' log'"
    "lg_data_end ?s2 = length log' * GATEWAY_SPOOL_ENTRY_SIZE" "lg_data_end ?s2 \<le> u64_max"
    "\<forall>r\<in>set log'. rec_ok r"
    "view (lg_io ?s2) (lg_state_path ?s2) = None \<and> k = 0 \<or>
      (\<exists>i nb'. view (lg_io ?s2) (lg_state_path ?s2) = Some (i, state_image (k * GATEWAY_SPOOL_ENTRY_SIZE)
        (seq_before log' k) nb') \<and> nb' \<noteq> 0 \<and> nb = nb')" "k \<le> length log'" "lg_ack_offset ?s2 = 0"
    using scan(2,4,5) small tail(2) k(4) k' view_state s1(2) by (simp_all add: s1_def zero_legacy_spool_def)
  obtain q m where load: "legacy_load_state ?s2 = (GATEWAY_OK, ?s2\<lparr>lg_ack_offset := k * GATEWAY_SPOOL_ENTRY_SIZE,
      lg_last_acked_gateway_seq := q, lg_state_recoveries := m,
      lg_next_batch_seq := (if view (lg_io ?s2) (lg_state_path ?s2) = None then 1 else nb)\<rparr>)"
    using load_state_smooth [OF pre] by blast
  define s3 where "s3 = ?s2\<lparr>lg_ack_offset := k * GATEWAY_SPOOL_ENTRY_SIZE,
      lg_last_acked_gateway_seq := q, lg_state_recoveries := m,
      lg_next_batch_seq := (if view (lg_io ?s2) (lg_state_path ?s2) = None then 1 else nb)\<rparr>"
  have opened: "legacy_open (Some ?path) ?d0 = (GATEWAY_OK, Some s3, lg_io s3)"
  proof -
    have "derive_paths ?path (zero_legacy_spool ?d0) = (GATEWAY_OK, (zero_legacy_spool ?d0)\<lparr>
        lg_data_path := ?path, lg_state_path := lg_state_path s, lg_state_tmp_path := lg_state_tmp_path s\<rparr>)"
      by (simp add: derive_paths_result [OF path] st_name tmp_name)
    moreover have "sys_open_create ?path ?d0 = (Some ino, ?d0)"
      by (rule smooth_open_existing(1)) (use f in simp_all)
    moreover have "sys_call ?d0 = (True, ?d0)" by (rule smooth_steps(1)) simp
    ultimately show ?thesis
      using scan(1) load unfolding s1_def [symmetric] s3_def
      by (simp add: legacy_open_def Let_def s1_def zero_legacy_spool_def)
  qed
  have s3_acked: "lg_acked s3 = k" by (simp add: s3_def lg_acked_def)
  have "data_file_ok s3 ino c' log' []"
    using scan(4,5) tail(2,3) s1(2) by (simp add: data_file_ok_def s3_def s1_def zero_legacy_spool_def)
  moreover have "cursors_ok s3 log'"
    using k' by (auto simp: cursors_ok_def s3_def s1_def zero_legacy_spool_def)
  moreover have "state_file_ok s3 log'"
  proof (cases "view (lg_io s) (lg_state_path s)")
    case None
    then have "view (lg_io s3) (lg_state_path s3) = None" "lg_acked s3 = 0"
      using k(4) view_state s3_acked by (auto simp: s3_def s1_def)
    then show ?thesis by (simp add: state_file_ok_def)
  next
    case (Some x)
    then obtain i where "view (lg_io s3) (lg_state_path s3) = Some (i, state_image (k * GATEWAY_SPOOL_ENTRY_SIZE)
        (seq_before log k) nb)" "lg_next_batch_seq s3 = nb" using k(4) view_state by (auto simp: s3_def s1_def)
    then show ?thesis using s3_acked k' unfolding state_file_ok_def
      by (simp only: option.case prod.case) (metis order_refl)
  qed
  moreover have "names_ok s3" "disk_wf (lg_io s3)"
    using path st_name tmp_name scan(3) by (simp_all add: names_ok_def s3_def s1_def)
  ultimately have inv3: "lg_inv s3" "lg_log s3 = log'" using data_file_log unfolding lg_inv_def by blast+
  have sealed3: "lg_sealed s3 = 0"
  proof (cases "view (lg_io s) (lg_state_path s)")
    case None
    then show ?thesis using view_state by (simp add: lg_sealed_def s3_def s1_def)
  next
    case (Some x)
    then obtain i where "view (lg_io s3) (lg_state_path s3) = Some (i, state_image (k * GATEWAY_SPOOL_ENTRY_SIZE)
        (seq_before log k) nb)" using k(4) view_state by (auto simp: s3_def s1_def)
    moreover have "k * GATEWAY_SPOOL_ENTRY_SIZE \<le> lg_data_end s" using k(2) f by simp
    then have "k * GATEWAY_SPOOL_ENTRY_SIZE < 2 ^ 63" using bound le_less_trans by blast
    ultimately have "lg_sealed s3 = k - lg_acked s3" by (rule sealed_image)
    then show ?thesis using s3_acked by simp
  qed
  have "\<not> lg_batch_prepared s3" "lg_data_end s3 \<le> lg_data_end s + GATEWAY_SPOOL_ENTRY_SIZE"
    "lg_next_batch_seq s3 = 1 \<or> lg_next_batch_seq s3 = lg_next_batch_seq s \<or>
     lg_next_batch_seq s3 = lg_next_batch_seq s + 1"
    using grown k(5) by (simp_all add: s3_def s1_def zero_legacy_spool_def)
  then show ?thesis
    using opened inv3 sealed3 s3_acked k(3) log tail(1) by (intro exI [of _ s3] exI [of _ "lg_io s3"]
      exI [of _ "tail_record log junk"]) (simp add: log'_def)
qed

end
