(* ===== verification/Spool_Legacy_Contract.thy ===== *)
theory Spool_Legacy_Contract
  imports Spool_Legacy_Recovery Spool_Contract
begin

text \<open>
  The one-file spool of \<open>spool.c\<close> as an instance of the spool interface, across crashes. Each call uses up at
  most one turn: an append one entry of the file, an acknowledgement one batch number, a restart one entry.
\<close>

subsection \<open>Turns\<close>

lemma turns_mono:
  assumes "lg_next_batch_seq s' = lg_next_batch_seq s \<or> lg_next_batch_seq s' = lg_next_batch_seq s + 1 \<or>
      lg_next_batch_seq s' = 1"
    and "lg_data_end s' \<le> lg_data_end s + GATEWAY_SPOOL_ENTRY_SIZE"
  shows "lg_turns s \<le> Suc (lg_turns s')"
proof -
  let ?room = "\<lambda>e. (2 ^ 63 - e) div GATEWAY_SPOOL_ENTRY_SIZE" and ?nb = "lg_next_batch_seq s"
  let ?left = "\<lambda>nb :: u64. if nb = 0 then 0 else u64_max - unat nb"
  have entry: "0 < GATEWAY_SPOOL_ENTRY_SIZE" by (simp add: GATEWAY_SPOOL_ENTRY_SIZE_def)
  have "?room (lg_data_end s) \<le> Suc (?room (lg_data_end s + GATEWAY_SPOOL_ENTRY_SIZE))"
  proof (cases "lg_data_end s + GATEWAY_SPOOL_ENTRY_SIZE \<le> 2 ^ 63")
    case True
    then have "2 ^ 63 - lg_data_end s = (2 ^ 63 - (lg_data_end s + GATEWAY_SPOOL_ENTRY_SIZE)) + GATEWAY_SPOOL_ENTRY_SIZE"
      using add_le_imp_le_diff by (metis add.commute diff_diff_left le_add_diff_inverse2)
    then show ?thesis using entry by (metis div_add_self2 le_refl not_gr_zero Suc_eq_plus1)
  next
    case False
    then have "2 ^ 63 < lg_data_end s + GATEWAY_SPOOL_ENTRY_SIZE" by (rule not_le_imp_less)
    then have "2 ^ 63 - lg_data_end s < GATEWAY_SPOOL_ENTRY_SIZE" using entry by linarith
    then have "?room (lg_data_end s) = 0" by (rule div_less)
    then show ?thesis by (metis le0)
  qed
  moreover have "?room (lg_data_end s + GATEWAY_SPOOL_ENTRY_SIZE) \<le> ?room (lg_data_end s')"
    using assms(2) by (intro div_le_mono diff_le_mono2)
  ultimately have room: "?room (lg_data_end s) \<le> Suc (?room (lg_data_end s'))" by simp
  have "?left ?nb \<le> Suc (?left (?nb + 1))"
  proof (cases "?nb + 1 = 0")
    case True
    then have "?nb = - 1" by (simp add: eq_neg_iff_add_eq_0)
    then show ?thesis by (simp add: u64_max_def unsigned_minus_1_eq_mask mask_eq_exp_minus_1)
  next
    case False
    then have "unat (?nb + 1) = Suc (unat ?nb)" by (simp add: unatSuc add.commute)
    then show ?thesis using False by (simp only: if_False split: if_split) linarith
  qed
  moreover have "?left ?nb \<le> Suc (?left 1)" by simp linarith
  ultimately have "?left ?nb \<le> Suc (?left (lg_next_batch_seq s'))" using assms(1) by auto
  from min.mono [OF this room] show ?thesis by (simp only: lg_turns_def min_Suc_Suc)
qed

subsection \<open>What a call does to the turns\<close>

lemma prepare_loop_frame:
  "legacy_prepare_loop n k rs s = (code, k', rs', s') \<Longrightarrow>
     lg_data_end s' = lg_data_end s \<and> lg_next_batch_seq s' = lg_next_batch_seq s"
proof (induction n k rs s rule: legacy_prepare_loop.induct)
  case (2 n offset rs s)
  obtain entry d where e: "read_exact (data_ino s) GATEWAY_SPOOL_ENTRY_SIZE offset (lg_io s) = (entry, d)"
    by (metis surj_pair)
  show ?case
  proof (cases "offset \<ge> lg_data_end s")
    case False
    then show ?thesis using 2 e
      by (cases entry) (auto simp: Let_def split: sum.splits if_splits)
  qed (use 2(2) in auto)
qed auto

lemma append_turns: "lg_turns s \<le> Suc (lg_turns (snd (legacy_append r s)))"
  by (rule turns_mono) (auto simp: legacy_append_def Let_def split: prod.split)

lemma prepare_turns: "lg_turns s \<le> Suc (lg_turns (snd (snd (legacy_prepare_batch n s))))"
proof -
  obtain code k rs t where l: "legacy_prepare_loop n (lg_ack_offset s) [] s = (code, k, rs, t)" by (metis prod_cases4)
  show ?thesis
    by (rule turns_mono) (use prepare_loop_frame [OF l] in \<open>auto simp: legacy_prepare_batch_def l\<close>)
qed

lemma ack_turns: "lg_turns s \<le> Suc (lg_turns (snd (legacy_ack_prepared s)))"
proof -
  obtain r t where r: "record_seq_at (lg_prepared_end s - GATEWAY_SPOOL_ENTRY_SIZE) s = (r, t)" by (metis surj_pair)
  have t: "lg_data_end t = lg_data_end s" "lg_next_batch_seq t = lg_next_batch_seq s"
    using r by (auto simp: record_seq_at_def Let_def split: prod.splits sum.splits)
  show ?thesis
    by (rule turns_mono)
      (auto simp: legacy_ack_prepared_def r t legacy_persist_state_def Let_def split: prod.split sum.split)
qed

lemma cancel_turns: "lg_turns s \<le> Suc (lg_turns (legacy_cancel_prepared s))"
  by (rule turns_mono) (auto simp: legacy_cancel_prepared_def)

subsection \<open>What a call does to the seal\<close>

lemma append_sealed: "lg_inv s \<Longrightarrow> wf_record r \<Longrightarrow> lg_sealed (snd (legacy_append r s)) = lg_sealed s"
  by (rule sealed_cong) (metis legacy_append_result(5) legacy_append_result(3) prod.collapse)+

lemma prepare_sealed: "lg_inv s \<Longrightarrow> lg_sealed (snd (snd (legacy_prepare_batch n s))) = lg_sealed s"
  by (rule sealed_cong) (metis legacy_prepare_result(3-5) prod.collapse)+

lemma legacy_cancel_result:
  assumes "lg_inv s"
  shows "lg_inv (legacy_cancel_prepared s)" "lg_pend (legacy_cancel_prepared s) = lg_pend s"
    "lg_batch (legacy_cancel_prepared s) = 0" "lg_sealed (legacy_cancel_prepared s) = lg_sealed s"
proof -
  let ?t = "legacy_cancel_prepared s"
  obtain ino c log junk where p: "disk_wf (lg_io s)" "names_ok s" "data_file_ok s ino c log junk"
    "cursors_ok s log" "state_file_ok s log" and log: "lg_log s = log"
    using assms by (rule lg_invE)
  have q: "data_file_ok ?t ino c log junk" "cursors_ok ?t log" "state_file_ok ?t log" "names_ok ?t"
    "disk_wf (lg_io ?t)" "lg_acked ?t = lg_acked s"
    using p by (auto simp: legacy_cancel_prepared_def cursors_ok_def)
  then show "lg_inv ?t" by (auto simp: lg_inv_def)
  show "lg_pend ?t = lg_pend s" using data_file_log [OF q(1)] log q(6) by (simp add: lg_pend_def)
  show "lg_batch ?t = 0" by (simp add: lg_batch_def legacy_cancel_prepared_def)
  show "lg_sealed ?t = lg_sealed s" by (rule sealed_cong) (simp_all add: legacy_cancel_prepared_def q(6) [unfolded legacy_cancel_prepared_def])
qed

lemma sealed_within: "lg_inv s \<Longrightarrow> 0 < lg_turns s \<Longrightarrow> lg_sealed s \<le> length (lg_pend s)"
proof -
  assume inv: "lg_inv s" and "0 < lg_turns s"
  note bound = lg_turns_bound [OF this(2)]
  obtain ino c log junk where p: "data_file_ok s ino c log junk" "state_file_ok s log" and log: "lg_log s = log"
    using inv by (rule lg_invE)
  show ?thesis
  proof (cases "view (lg_io s) (lg_state_path s)")
    case (Some q)
    then obtain i k nb where q: "view (lg_io s) (lg_state_path s) = Some (i, state_image (k * GATEWAY_SPOOL_ENTRY_SIZE)
        (seq_before log k) nb)" "k \<le> length log"
      using p(2) by (cases q) (auto simp: state_file_ok_def)
    have "k * GATEWAY_SPOOL_ENTRY_SIZE \<le> lg_data_end s" using q(2) p(1) by (simp add: data_file_ok_def)
    then have "k * GATEWAY_SPOOL_ENTRY_SIZE < 2 ^ 63" using bound le_less_trans by blast
    from sealed_image [OF q(1) this] show ?thesis using q(2) log by (simp add: lg_pend_def)
  qed (simp add: lg_sealed_def)
qed

subsection \<open>Restarting\<close>

lemma outcomes_frame:
  "lg_inv (s\<lparr>lg_io := (lg_io s)\<lparr>outcomes := later\<rparr>\<rparr>) = lg_inv s"
  "lg_pend (s\<lparr>lg_io := (lg_io s)\<lparr>outcomes := later\<rparr>\<rparr>) = lg_pend s"
  "lg_batch (s\<lparr>lg_io := (lg_io s)\<lparr>outcomes := later\<rparr>\<rparr>) = lg_batch s"
  "lg_sealed (s\<lparr>lg_io := (lg_io s)\<lparr>outcomes := later\<rparr>\<rparr>) = lg_sealed s"
  "lg_turns (s\<lparr>lg_io := (lg_io s)\<lparr>outcomes := later\<rparr>\<rparr>) = lg_turns s"
proof -
  have same: "lg_same s (s\<lparr>lg_io := (lg_io s)\<lparr>outcomes := later\<rparr>\<rparr>)" by (rule lg_same_io) simp_all
  from lg_same_inv [OF this] show "lg_inv (s\<lparr>lg_io := (lg_io s)\<lparr>outcomes := later\<rparr>\<rparr>) = lg_inv s"
    "lg_pend (s\<lparr>lg_io := (lg_io s)\<lparr>outcomes := later\<rparr>\<rparr>) = lg_pend s"
    "lg_batch (s\<lparr>lg_io := (lg_io s)\<lparr>outcomes := later\<rparr>\<rparr>) = lg_batch s" .
  show "lg_sealed (s\<lparr>lg_io := (lg_io s)\<lparr>outcomes := later\<rparr>\<rparr>) = lg_sealed s"
    by (rule sealed_cong) (simp_all add: lg_same_parts(6) [OF same])
  show "lg_turns (s\<lparr>lg_io := (lg_io s)\<lparr>outcomes := later\<rparr>\<rparr>) = lg_turns s" by (simp add: lg_turns_def)
qed

lemma legacy_restart_result:
  assumes "lg_inv s" and "0 < lg_turns s"
  shows "lg_inv (legacy_restart later s)"
    and "\<exists>extra. lg_pend (legacy_restart later s) = drop (lg_sealed s) (lg_pend s) @ extra \<and> length extra \<le> 1"
    and "lg_batch (legacy_restart later s) = 0" and "lg_sealed (legacy_restart later s) = 0"
    and "lg_turns s \<le> Suc (lg_turns (legacy_restart later s))"
proof -
  obtain t d extra where o: "legacy_open (Some (lg_data_path s)) ((lg_io s)\<lparr>outcomes := []\<rparr>) = (GATEWAY_OK, Some t, d)"
    and t: "lg_inv t" "\<not> lg_batch_prepared t" "lg_log t = lg_log s @ extra" "length extra \<le> 1"
    "lg_acked t = lg_acked s + lg_sealed s" "lg_sealed t = 0" "lg_data_end t \<le> lg_data_end s + GATEWAY_SPOOL_ENTRY_SIZE"
    "lg_next_batch_seq t = 1 \<or> lg_next_batch_seq t = lg_next_batch_seq s \<or>
     lg_next_batch_seq t = lg_next_batch_seq s + 1"
    using legacy_open_again [OF assms] by blast
  have r: "legacy_restart later s = t\<lparr>lg_io := (lg_io t)\<lparr>outcomes := later\<rparr>\<rparr>"
    by (simp add: legacy_restart_def o)
  have "lg_acked s + lg_sealed s \<le> length (lg_log s)"
    using sealed_within [OF assms] lg_batch_le assms(1) acked_le lg_invE [OF assms(1)]
    by (metis diff_add_inverse le_diff_conv2 length_drop lg_pend_def add.commute)
  then have "lg_pend t = drop (lg_sealed s) (lg_pend s) @ extra"
    by (simp add: lg_pend_def t(3,5) add.commute)
  then show "\<exists>extra. lg_pend (legacy_restart later s) = drop (lg_sealed s) (lg_pend s) @ extra \<and> length extra \<le> 1"
    using t(4) by (auto simp: r outcomes_frame)
  show "lg_inv (legacy_restart later s)" "lg_batch (legacy_restart later s) = 0"
    "lg_sealed (legacy_restart later s) = 0" "lg_turns s \<le> Suc (lg_turns (legacy_restart later s))"
    using t(1,2,6) turns_mono [OF _ t(7)] t(8) by (auto simp: r outcomes_frame lg_batch_def)
qed

subsection \<open>The first start\<close>

lemma legacy_first_open:
  assumes path: "legacy_path_ok path" and o: "outcomes d = []" and wf: "disk_wf d"
    and absent: "view d path = None" "view d (state_name path) = None"
  shows "\<exists>s d'. legacy_open (Some path) d = (GATEWAY_OK, Some s, d') \<and> lg_inv s \<and> lg_pend s = [] \<and>
    lg_batch s = 0 \<and> lg_sealed s = 0 \<and> lg_next_batch_seq s = 1 \<and> lg_data_end s = 0"
proof -
  obtain ino d1 where c: "create_file path d = (ino, d1)" by (metis surj_pair)
  have d1: "disk_wf d1" "view d1 = (view d)(path \<mapsto> (ino, []))"
    using create_file_view [OF wf _ c] absent(1) by (simp_all add: view_None)
  have o1: "outcomes d1 = []" using c o by (auto simp: create_file_def Let_def)
  define s1 where "s1 = (zero_legacy_spool d)\<lparr>lg_data_path := path, lg_state_path := state_name path,
      lg_state_tmp_path := state_name path @ ''.tmp'', lg_data_fd := Some ino, lg_io := d1\<rparr>"
  have s1: "outcomes (lg_io s1) = []" "lg_data_fd s1 = Some ino" "disk_wf (lg_io s1)"
    "view (lg_io s1) (lg_data_path s1) = Some (ino, [] @ [])"
    using d1 o1 by (simp_all add: s1_def)
  obtain e n c' where scan: "scan_data s1 = (GATEWAY_OK, s1\<lparr>lg_io := e, lg_data_end := 0,
      lg_last_gateway_seq := 0, lg_tail_recoveries := n\<rparr>)" "outcomes e = []" "disk_wf e"
      "view e = (view (lg_io s1))(path \<mapsto> (ino, c'))" "stores decode_record c' []"
    using scan_data_smooth [OF s1, of "[]"]
    by (auto simp: tail_record_def s1_def GATEWAY_SPOOL_ENTRY_SIZE_def stores_def seq_before_def)
  define s2 where "s2 = s1\<lparr>lg_io := e, lg_data_end := 0, lg_last_gateway_seq := 0, lg_tail_recoveries := n\<rparr>"
  have st: "view e (state_name path) = None"
    using scan(4) absent(2) d1(2) names_distinct(1) [of path] by (simp add: s1_def)
  have "map_of (names e) (state_name path) = None" using st by (simp add: view_None)
  then have load: "legacy_load_state s2 = (GATEWAY_OK, s2\<lparr>lg_next_batch_seq := 1\<rparr>)"
    using smooth_steps(1,3) [OF scan(2)] by (simp add: legacy_load_state_def s2_def s1_def)
  let ?s = "s2\<lparr>lg_next_batch_seq := 1\<rparr>"
  have opened: "legacy_open (Some path) d = (GATEWAY_OK, Some ?s, lg_io ?s)"
  proof -
    have "derive_paths path (zero_legacy_spool d) = (GATEWAY_OK, (zero_legacy_spool d)\<lparr>
        lg_data_path := path, lg_state_path := state_name path, lg_state_tmp_path := state_name path @ ''.tmp''\<rparr>)"
      by (rule derive_paths_result [OF path])
    moreover have "sys_open_create path d = (Some ino, d1)"
      using smooth_steps(1) [OF o] absent(1) c by (simp add: sys_open_create_def view_None)
    moreover have "sys_call d = (True, d)" "sys_call d1 = (True, d1)" by (rule smooth_steps(1); rule o o1)+
    ultimately show ?thesis
      using scan(1) load unfolding s1_def [symmetric] s2_def
      by (simp add: legacy_open_def Let_def s1_def zero_legacy_spool_def)
  qed
  have "data_file_ok ?s ino c' [] []"
    using scan(4,5) by (simp add: data_file_ok_def s2_def s1_def seq_before_def)
  moreover have "cursors_ok ?s []" "state_file_ok ?s []" "names_ok ?s" "disk_wf (lg_io ?s)"
    using path scan(3) st
    by (simp_all add: cursors_ok_def state_file_ok_def names_ok_def s2_def s1_def zero_legacy_spool_def lg_acked_def)
  ultimately have "lg_inv ?s" "lg_log ?s = []" using data_file_log unfolding lg_inv_def by blast+
  moreover have "lg_batch ?s = 0" "lg_sealed ?s = 0" "lg_data_end ?s = 0"
    using st by (simp_all add: lg_batch_def lg_sealed_def s2_def s1_def zero_legacy_spool_def)
  ultimately show ?thesis using opened by (intro exI [of _ ?s] exI [of _ "lg_io ?s"]) (simp add: lg_pend_def)
qed

end
