(* ===== verification/Spool_Legacy_Props.thy ===== *)
theory Spool_Legacy_Props
  imports Spool_Legacy_Contract
begin

text \<open>
  The properties of the one-file spool, each over the code's operations, with concrete spools on which they
  apply.
\<close>

interpretation legacy: restartable_spool lg_inv wf_record "\<lambda>_. False" lg_pend lg_batch
  legacy_append legacy_prepare_batch legacy_ack_prepared legacy_cancel_prepared "\<lambda>s. (GATEWAY_OK, s)"
  lg_sealed lg_turns legacy_restart
proof
  fix s s' :: legacy_spool and r code n rs number and later :: "sys_outcome list"
  assume inv: "lg_inv s"
  show "lg_inv (snd (legacy_append r s))" if "wf_record r"
    by (rule legacy_append_result(1) [OF prod.collapse [symmetric] inv that])
  show "\<not> False \<and> lg_pend s' = lg_pend s @ [r] \<and> lg_batch s' = lg_batch s"
    if "wf_record r" "legacy_append r s = (GATEWAY_OK, s')"
    using legacy_append_result(2,4) [OF that(2) inv that(1)] by simp
  show "lg_pend s' = lg_pend s \<and> lg_batch s' = lg_batch s \<and> False = False \<or>
      False \<and> (lg_pend s' = lg_pend s \<or> lg_pend s' = lg_pend s @ [r])"
    if "wf_record r" "legacy_append r s = (code, s')" "code \<noteq> GATEWAY_OK"
    using legacy_append_result(2,4) [OF that(2) inv that(1)] that(3) by simp
  show "lg_inv (snd (snd (legacy_prepare_batch n s)))"
    using legacy_prepare_result(1) [OF _ inv] by (metis prod.collapse)
  show "\<not> False \<and> rs = take n (lg_pend s) \<and> lg_pend s' = lg_pend s \<and> lg_batch s' = length rs"
    if "legacy_prepare_batch n s = (code, Some (rs, number), s')"
    using legacy_prepare_result(2,8) [OF that inv] by (auto simp: min.commute split: if_split_asm)
  show "lg_pend s' = lg_pend s \<and> (False \<or> lg_batch s' = lg_batch s \<and> False = False)"
    if "legacy_prepare_batch n s = (code, None, s')"
    using legacy_prepare_result(2,8) [OF that inv] by (auto split: if_split_asm)
  show "lg_inv (snd (legacy_ack_prepared s))"
    using legacy_ack_result(1) [OF _ inv] by (metis prod.collapse)
  show "\<not> False \<and> lg_pend s' = drop (lg_batch s) (lg_pend s) \<and> lg_batch s' = 0"
    if "legacy_ack_prepared s = (GATEWAY_OK, s')"
    using legacy_ack_result(3) [OF that inv] by simp
  show "lg_pend s' = lg_pend s \<and> lg_batch s' = lg_batch s \<and> False = False \<or>
      (False \<or> lg_batch s' = 0) \<and> (lg_pend s' = lg_pend s \<or> \<not> False \<and> lg_pend s' = drop (lg_batch s) (lg_pend s))"
    if "legacy_ack_prepared s = (code, s')" "code \<noteq> GATEWAY_OK"
    using legacy_ack_result(3) [OF that(1) inv] that(2) by simp
  show "lg_inv (legacy_cancel_prepared s)"
    "lg_pend (legacy_cancel_prepared s) = lg_pend s \<and> lg_batch (legacy_cancel_prepared s) = 0"
    using legacy_cancel_result [OF inv] by simp_all
  show "lg_batch s \<le> length (lg_pend s)" by (rule lg_batch_le [OF inv])
next
  fix s s' :: legacy_spool and r code n and later :: "sys_outcome list"
  assume inv: "lg_inv s" and t: "0 < lg_turns s"
  show "lg_sealed s \<le> length (lg_pend s)" by (rule sealed_within [OF inv t])
  show "lg_sealed (snd (legacy_append r s)) = lg_sealed s" if "wf_record r"
    by (rule append_sealed [OF inv that])
  show "lg_sealed (snd (snd (legacy_prepare_batch n s))) = lg_sealed s" by (rule prepare_sealed [OF inv])
  show "lg_sealed (legacy_cancel_prepared s) = lg_sealed s" by (rule legacy_cancel_result(4) [OF inv])
  show "lg_sealed s' = 0 \<or> lg_pend s' = lg_pend s \<and> (lg_sealed s' = lg_sealed s \<or> \<not> False \<and> lg_sealed s' = lg_batch s)"
    if "legacy_ack_prepared s = (code, s')"
    using legacy_ack_result(3) [OF that inv] lg_turns_bound [OF t] by (auto split: if_split_asm)
  note r = legacy_restart_result [OF inv t, of later]
  show "lg_inv (legacy_restart later s)" "lg_turns s \<le> Suc (lg_turns (legacy_restart later s))"
    by (fact r)+
  show "\<exists>extra. lg_pend (legacy_restart later s) = drop (lg_sealed s) (lg_pend s) @ extra" using r(2) by blast
  show "\<not> False \<and> lg_batch (legacy_restart later s) = 0 \<and> lg_sealed (legacy_restart later s) = 0" using r by simp
qed (simp_all add: append_turns prepare_turns ack_turns cancel_turns)

subsection \<open>A concrete spool\<close>

abbreviation legacy_run ::
    "(telemetry_record, sys_outcome list) spool_event list \<Rightarrow> legacy_spool \<Rightarrow>
       (telemetry_record, legacy_spool) client" where
  "legacy_run \<equiv> event_run (client_step legacy_append legacy_prepare_batch legacy_ack_prepared
     legacy_cancel_prepared (\<lambda>s. (GATEWAY_OK, s))) legacy_restart"

definition start_legacy :: legacy_spool where
  "start_legacy = (case legacy_open (Some ''/var/spool/a.data'') empty_disk of
     (_, Some s, _) \<Rightarrow> s | _ \<Rightarrow> zero_legacy_spool empty_disk)"

lemma start_legacy [simp]: "lg_inv start_legacy" "lg_pend start_legacy = []" "lg_batch start_legacy = 0"
  "lg_sealed start_legacy = 0" "100 < lg_turns start_legacy"
proof -
  have "legacy_path_ok ''/var/spool/a.data''" by (simp add: legacy_path_ok_def LEGACY_PATH_SIZE_def)
  moreover have "outcomes empty_disk = []" "disk_wf empty_disk" "view empty_disk n = None" for n
    by (simp_all add: empty_disk_def disk_wf_def view_def)
  ultimately obtain s d where o: "legacy_open (Some ''/var/spool/a.data'') empty_disk = (GATEWAY_OK, Some s, d)"
    and s: "lg_inv s" "lg_pend s = []" "lg_batch s = 0" "lg_sealed s = 0" "lg_next_batch_seq s = 1" "lg_data_end s = 0"
    using legacy_first_open by blast
  have "start_legacy = s" by (simp add: start_legacy_def o)
  moreover have "100 < lg_turns s" by (simp add: lg_turns_def s u64_max_def GATEWAY_SPOOL_ENTRY_SIZE_def)
  ultimately show "lg_inv start_legacy" "lg_pend start_legacy = []" "lg_batch start_legacy = 0"
    "lg_sealed start_legacy = 0" "100 < lg_turns start_legacy" using s by simp_all
qed

definition legacy_record :: "u64 \<Rightarrow> telemetry_record" where
  "legacy_record n = zero_record\<lparr>gateway_seq := n\<rparr>"

lemma legacy_record_wf [simp]: "wf_record (legacy_record n)"
  by (simp add: legacy_record_def wf_record_def zero_record_def)

subsection \<open>Properties\<close>

text \<open>C8: At-least-once delivery across crashes. On an open spool, whatever calls are made, whatever
  system calls fail, and wherever the process is killed and the spool opened again in between: what has left the
  queue followed by what is in it is the old queue followed by what has entered it; every record whose append
  returned OK has entered; everything that left was handed out in a batch; everything
  in an acknowledged batch has left. The bound on the number of events keeps the file offsets below
  \<open>2 ^ 63\<close> and the batch numbers below \<open>2 ^ 64\<close>.\<close>

theorem legacy_survives_crashes:
  assumes "lg_inv s" and "lg_batch s = 0" and "lg_sealed s = 0"
    and "\<forall>r\<in>set (all_offered events). wf_record r" and "length events < lg_turns s"
  shows "\<exists>gone taken. gone @ lg_pend (spool (legacy_run events s)) = lg_pend s @ taken \<and>
     subseq (accepted (legacy_run events s)) taken \<and> set gone \<subseteq> set (handed (legacy_run events s)) \<and>
     subseq (confirmed (legacy_run events s)) gone"
  using legacy.at_least_once_across_crashes [OF assms] .

lemma legacy_survives_crashes_witness:
  "\<exists>gone taken. gone @ lg_pend (spool (legacy_run [Call (Append (legacy_record 1)), Crash [], Call (Prepare 1),
       Call Ack, Crash []] start_legacy)) = taken \<and>
     subseq (accepted (legacy_run [Call (Append (legacy_record 1)), Crash [], Call (Prepare 1), Call Ack, Crash []]
       start_legacy)) taken \<and>
     set gone \<subseteq> set (handed (legacy_run [Call (Append (legacy_record 1)), Crash [], Call (Prepare 1), Call Ack, Crash []]
       start_legacy)) \<and>
     subseq (confirmed (legacy_run [Call (Append (legacy_record 1)), Crash [], Call (Prepare 1), Call Ack, Crash []]
       start_legacy)) gone"
proof -
  have "length [Call (Append (legacy_record 1)), Crash [], Call (Prepare 1), Call Ack,
      Crash ([] :: sys_outcome list)] < lg_turns start_legacy"
    by (rule less_trans [OF _ start_legacy(5)]) simp
  from legacy_survives_crashes [OF start_legacy(1,3,4) _ this] show ?thesis by simp
qed



end
