(* ===== verification/Spool_Facade.thy ===== *)
theory Spool_Facade
  imports Spool_V2_Contract Spool_Legacy_Props
begin

text \<open>
  The spool as its users see it: the public functions of \<open>spool.c\<close>, which dispatch on the format. Both
  formats satisfy the spool interface, so their union does.
\<close>

subsection \<open>Model\<close>

text \<open>The C structure holds the fields of the one-file format and a pointer to the segmented spool; \<open>v2\<close> says which
  is in use.\<close>

datatype gateway_spool = Legacy_spool legacy_spool | V2_spool gateway_spool_v2

definition GATEWAY_SPOOL_MAX_BYTES_DEFAULT :: nat where
  "GATEWAY_SPOOL_MAX_BYTES_DEFAULT = 268435456"

definition GATEWAY_SPOOL_SYNC_RECORDS_DEFAULT :: nat where
  "GATEWAY_SPOOL_SYNC_RECORDS_DEFAULT = 1"

definition GATEWAY_SPOOL_SYNC_INTERVAL_MS_DEFAULT :: nat where
  "GATEWAY_SPOOL_SYNC_INTERVAL_MS_DEFAULT = 1000"

definition gateway_spool_v2_options_init :: gateway_spool_v2_options where
  "gateway_spool_v2_options_init =
     \<lparr>max_bytes = GATEWAY_SPOOL_MAX_BYTES_DEFAULT, sync_records = GATEWAY_SPOOL_SYNC_RECORDS_DEFAULT,
      sync_interval_ms = GATEWAY_SPOOL_SYNC_INTERVAL_MS_DEFAULT\<rparr>"

definition gateway_spool_open :: "string option \<Rightarrow> disk \<Rightarrow> gateway_error_code \<times> gateway_spool option \<times> disk" where
  "gateway_spool_open path d =
     (let (code, s, d) = legacy_open path d in (code, map_option Legacy_spool s, d))"

definition open_v2_dispatch ::
    "string option \<Rightarrow> gateway_spool_v2_options option \<Rightarrow> nat \<Rightarrow> gateway_spool_fault_point \<Rightarrow> disk \<Rightarrow>
       gateway_error_code \<times> gateway_spool option \<times> disk" where
  "open_v2_dispatch path opts seg_records initial_fault d =
     (if path = None \<or> opts = None then (GATEWAY_ERROR_ARGUMENT, None, d)
      else let (allocated, d) = sys_call d in
        if \<not> allocated then (GATEWAY_ERROR_SYSTEM, None, d)
        else let (code, s, d) = gateway_spool_v2_open True path opts seg_records initial_fault d in
          if code \<noteq> GATEWAY_OK then (code, None, d) else (GATEWAY_OK, map_option V2_spool s, d))"

definition gateway_spool_open_v2 ::
    "string option \<Rightarrow> gateway_spool_v2_options option \<Rightarrow> disk \<Rightarrow> gateway_error_code \<times> gateway_spool option \<times> disk" where
  "gateway_spool_open_v2 path opts d =
     open_v2_dispatch path opts GATEWAY_SPOOL_V2_SEGMENT_RECORDS GATEWAY_SPOOL_FAULT_NONE d"

definition gateway_spool_test_open_v2 ::
    "string option \<Rightarrow> gateway_spool_v2_options option \<Rightarrow> nat \<Rightarrow> disk \<Rightarrow>
       gateway_error_code \<times> gateway_spool option \<times> disk" where
  "gateway_spool_test_open_v2 path opts seg_records d =
     open_v2_dispatch path opts seg_records GATEWAY_SPOOL_FAULT_NONE d"

definition gateway_spool_test_open_v2_with_fault ::
    "string option \<Rightarrow> gateway_spool_v2_options option \<Rightarrow> nat \<Rightarrow> gateway_spool_fault_point \<Rightarrow> disk \<Rightarrow>
       gateway_error_code \<times> gateway_spool option \<times> disk" where
  "gateway_spool_test_open_v2_with_fault path opts seg_records fault d =
     (if fault = GATEWAY_SPOOL_FAULT_NONE then (GATEWAY_ERROR_ARGUMENT, None, d)
      else open_v2_dispatch path opts seg_records fault d)"

definition gateway_spool_close :: "gateway_spool \<Rightarrow> disk" where
  "gateway_spool_close sp = (case sp of Legacy_spool s \<Rightarrow> legacy_close s | V2_spool s \<Rightarrow> gateway_spool_v2_close s)"

definition gateway_spool_append :: "telemetry_record \<Rightarrow> gateway_spool \<Rightarrow> gateway_error_code \<times> gateway_spool" where
  "gateway_spool_append r sp = (case sp of
     V2_spool s \<Rightarrow> apsnd V2_spool (gateway_spool_v2_append r s)
   | Legacy_spool s \<Rightarrow> apsnd Legacy_spool (legacy_append r s))"

definition gateway_spool_prepare_batch ::
    "nat \<Rightarrow> gateway_spool \<Rightarrow> gateway_error_code \<times> (telemetry_record list \<times> nat) option \<times> gateway_spool" where
  "gateway_spool_prepare_batch capacity sp = (case sp of
     V2_spool s \<Rightarrow> apsnd (apsnd V2_spool) (gateway_spool_v2_prepare_batch capacity s)
   | Legacy_spool s \<Rightarrow> apsnd (apsnd Legacy_spool) (legacy_prepare_batch capacity s))"

definition gateway_spool_ack_prepared :: "gateway_spool \<Rightarrow> gateway_error_code \<times> gateway_spool" where
  "gateway_spool_ack_prepared sp = (case sp of
     V2_spool s \<Rightarrow> apsnd V2_spool (gateway_spool_v2_ack_prepared s)
   | Legacy_spool s \<Rightarrow> apsnd Legacy_spool (legacy_ack_prepared s))"

definition gateway_spool_cancel_prepared :: "gateway_spool \<Rightarrow> gateway_spool" where
  "gateway_spool_cancel_prepared sp = (case sp of
     V2_spool s \<Rightarrow> V2_spool (gateway_spool_v2_cancel_prepared s)
   | Legacy_spool s \<Rightarrow> Legacy_spool (legacy_cancel_prepared s))"

definition gateway_spool_last_gateway_seq :: "gateway_spool \<Rightarrow> u64" where
  "gateway_spool_last_gateway_seq sp = (case sp of
     V2_spool s \<Rightarrow> gateway_spool_v2_last_gateway_seq s | Legacy_spool s \<Rightarrow> lg_last_gateway_seq s)"

definition gateway_spool_flush :: "gateway_spool \<Rightarrow> gateway_error_code \<times> gateway_spool" where
  "gateway_spool_flush sp = (case sp of
     V2_spool s \<Rightarrow> apsnd V2_spool (gateway_spool_v2_flush s) | Legacy_spool s \<Rightarrow> (GATEWAY_OK, sp))"

definition gateway_spool_poll :: "gateway_spool \<Rightarrow> gateway_error_code \<times> gateway_spool" where
  "gateway_spool_poll sp = (case sp of
     V2_spool s \<Rightarrow> apsnd V2_spool (gateway_spool_v2_poll s) | Legacy_spool s \<Rightarrow> (GATEWAY_OK, sp))"

definition gateway_spool_test_fail_next ::
    "gateway_spool_fault_point \<Rightarrow> gateway_spool \<Rightarrow> gateway_error_code \<times> gateway_spool" where
  "gateway_spool_test_fail_next point sp = (case sp of
     V2_spool s \<Rightarrow> apsnd V2_spool (gateway_spool_v2_fail_next point s)
   | Legacy_spool s \<Rightarrow> (GATEWAY_ERROR_ARGUMENT, sp))"

definition legacy_read :: "legacy_spool \<Rightarrow> gateway_spool_snapshot" where
  "legacy_read s =
     \<lparr>snap_total_records = lg_data_end s div GATEWAY_SPOOL_ENTRY_SIZE,
      snap_pending_records = (lg_data_end s - lg_ack_offset s) div GATEWAY_SPOOL_ENTRY_SIZE,
      snap_last_gateway_seq = lg_last_gateway_seq s,
      snap_last_acked_gateway_seq = lg_last_acked_gateway_seq s,
      snap_next_batch_seq = unat (lg_next_batch_seq s),
      snap_records_appended = lg_records_appended s,
      snap_records_replayed = lg_records_replayed s,
      snap_tail_recoveries = lg_tail_recoveries s,
      snap_state_recoveries = lg_state_recoveries s,
      snap_corruptions = lg_corruptions s,
      snap_physical_bytes = lg_data_end s,
      snap_pending_bytes = lg_data_end s - lg_ack_offset s,
      snap_segment_count = 0, snap_segments_reclaimed = 0, snap_sync_count = 0, snap_sync_failures = 0,
      snap_unsynced_records = 0, snap_v2 = False,
      snap_batch_prepared = lg_batch_prepared s\<rparr>"

definition gateway_spool_read :: "gateway_spool \<Rightarrow> gateway_spool_snapshot" where
  "gateway_spool_read sp = (case sp of V2_spool s \<Rightarrow> gateway_spool_v2_read s | Legacy_spool s \<Rightarrow> legacy_read s)"

subsection \<open>The interface holds\<close>

definition queue_inv :: "gateway_spool \<Rightarrow> bool" where
  "queue_inv sp = (case sp of Legacy_spool s \<Rightarrow> lg_inv s | V2_spool s \<Rightarrow> spool_inv s)"

definition queue_closed :: "gateway_spool \<Rightarrow> bool" where
  "queue_closed sp = (case sp of Legacy_spool s \<Rightarrow> False | V2_spool s \<Rightarrow> failed s)"

definition queued :: "gateway_spool \<Rightarrow> telemetry_record list" where
  "queued sp = (case sp of Legacy_spool s \<Rightarrow> lg_pend s | V2_spool s \<Rightarrow> pend s)"

definition queue_batch :: "gateway_spool \<Rightarrow> nat" where
  "queue_batch sp = (case sp of Legacy_spool s \<Rightarrow> lg_batch s | V2_spool s \<Rightarrow> prepared_count s)"

named_theorems queue_defs
declare queue_inv_def [queue_defs] queue_closed_def [queue_defs] queued_def [queue_defs] queue_batch_def [queue_defs]
  gateway_spool_append_def [queue_defs] gateway_spool_prepare_batch_def [queue_defs]
  gateway_spool_ack_prepared_def [queue_defs] gateway_spool_cancel_prepared_def [queue_defs]
  gateway_spool_poll_def [queue_defs]

text \<open>Two spools under one roof: the laws carry over to the union, whichever the halves are.\<close>

lemma apsnd_eq: "apsnd f p = (a, b) \<longleftrightarrow> (\<exists>b'. p = (a, b') \<and> b = f b')"
  by (cases p) auto

interpretation any: record_spool queue_inv wf_record queue_closed queued queue_batch
  gateway_spool_append gateway_spool_prepare_batch gateway_spool_ack_prepared gateway_spool_cancel_prepared
  gateway_spool_poll
proof
  fix sp sp' :: gateway_spool and r code n rs number
  assume inv: "queue_inv sp"
  show "queue_inv (snd (gateway_spool_append r sp))" if "wf_record r"
    using inv that v2.add_inv legacy.add_inv by (auto simp: queue_defs split: gateway_spool.split)
  show "\<not> queue_closed sp \<and> queued sp' = queued sp @ [r] \<and> queue_batch sp' = queue_batch sp"
    if "wf_record r" "gateway_spool_append r sp = (GATEWAY_OK, sp')"
    by (cases sp; cases sp'; use inv that in \<open>simp add: queue_defs apsnd_eq\<close>; blast dest: v2.add_ok legacy.add_ok)
  show "queued sp' = queued sp \<and> queue_batch sp' = queue_batch sp \<and> queue_closed sp' = queue_closed sp \<or>
      queue_closed sp' \<and> (queued sp' = queued sp \<or> queued sp' = queued sp @ [r])"
    if "wf_record r" "gateway_spool_append r sp = (code, sp')" "code \<noteq> GATEWAY_OK"
    by (cases sp; cases sp'; use inv that in \<open>simp add: queue_defs apsnd_eq\<close>; blast dest: v2.add_error legacy.add_error)
  show "queue_inv (snd (snd (gateway_spool_prepare_batch n sp)))"
    using inv v2.prepare_inv legacy.prepare_inv by (auto simp: queue_defs split: gateway_spool.split)
  show "\<not> queue_closed sp \<and> rs = take n (queued sp) \<and> queued sp' = queued sp \<and> queue_batch sp' = length rs"
    if "gateway_spool_prepare_batch n sp = (code, Some (rs, number), sp')"
    by (cases sp; cases sp'; use inv that in \<open>simp add: queue_defs apsnd_eq\<close>; blast dest: v2.prepare_ok legacy.prepare_ok)
  show "queued sp' = queued sp \<and> (queue_closed sp' \<or> queue_batch sp' = queue_batch sp \<and> queue_closed sp' = queue_closed sp)"
    if "gateway_spool_prepare_batch n sp = (code, None, sp')"
    by (cases sp; cases sp'; use inv that in \<open>simp add: queue_defs apsnd_eq\<close>; blast dest: v2.prepare_error legacy.prepare_error)
  show "queue_inv (snd (gateway_spool_ack_prepared sp))"
    using inv v2.ack_inv legacy.ack_inv by (auto simp: queue_defs split: gateway_spool.split)
  show "\<not> queue_closed sp \<and> queued sp' = drop (queue_batch sp) (queued sp) \<and> queue_batch sp' = 0"
    if "gateway_spool_ack_prepared sp = (GATEWAY_OK, sp')"
    by (cases sp; cases sp'; use inv that in \<open>simp add: queue_defs apsnd_eq\<close>; blast dest: v2.ack_ok legacy.ack_ok)
  show "queued sp' = queued sp \<and> queue_batch sp' = queue_batch sp \<and> queue_closed sp' = queue_closed sp \<or>
      (queue_closed sp' \<or> queue_batch sp' = 0) \<and>
      (queued sp' = queued sp \<or> \<not> queue_closed sp \<and> queued sp' = drop (queue_batch sp) (queued sp))"
    if ack: "gateway_spool_ack_prepared sp = (code, sp')" "code \<noteq> GATEWAY_OK"
  proof (cases sp)
    case (Legacy_spool s)
    then obtain t where "legacy_ack_prepared s = (code, t)" "sp' = Legacy_spool t" "lg_inv s"
      using inv ack by (auto simp: queue_defs apsnd_eq)
    then show ?thesis using legacy.ack_error [of s code t] ack(2) Legacy_spool by (simp add: queue_defs)
  next
    case (V2_spool s)
    then obtain t where "gateway_spool_v2_ack_prepared s = (code, t)" "sp' = V2_spool t" "spool_inv s"
      using inv ack by (auto simp: queue_defs apsnd_eq)
    then show ?thesis using v2.ack_error [of s code t] ack(2) V2_spool by (simp add: queue_defs)
  qed
  show "queue_inv (gateway_spool_cancel_prepared sp)"
    using inv v2.cancel_inv legacy.cancel_inv by (auto simp: queue_defs split: gateway_spool.split)
  show "queued (gateway_spool_cancel_prepared sp) = queued sp \<and> queue_batch (gateway_spool_cancel_prepared sp) = 0"
    using inv v2.cancel_queue legacy.cancel_queue by (auto simp: queue_defs split: gateway_spool.split)
  show "queue_inv (snd (gateway_spool_poll sp))"
    using inv v2.poll_inv legacy.poll_inv by (auto simp: queue_defs split: gateway_spool.split)
  show "queued sp' = queued sp \<and> (queue_closed sp' \<or> \<not> queue_closed sp \<and> queue_batch sp' = queue_batch sp)"
    if "gateway_spool_poll sp = (code, sp')"
    by (cases sp; cases sp'; use inv that in \<open>simp add: queue_defs apsnd_eq\<close>; blast dest: v2.poll_queue legacy.poll_queue)
  show "queue_batch sp \<le> length (queued sp)"
    using inv v2.batch_le legacy.batch_le by (auto simp: queue_defs split: gateway_spool.split)
qed

subsection \<open>Properties\<close>

lemma legacy_read_counts:
  assumes "lg_inv s"
  shows "snap_pending_records (legacy_read s) = length (lg_pend s)"
    and "snap_pending_bytes (legacy_read s) = length (lg_pend s) * GATEWAY_SPOOL_ENTRY_SIZE"
proof -
  obtain ino c log junk where p: "data_file_ok s ino c log junk" "cursors_ok s log" and log: "lg_log s = log"
    using assms by (rule lg_invE)
  have "lg_ack_offset s = lg_acked s * GATEWAY_SPOOL_ENTRY_SIZE" "lg_data_end s = length log * GATEWAY_SPOOL_ENTRY_SIZE"
    using acked_le [OF p(2)] p(1) by (simp_all add: data_file_ok_def)
  then have "lg_data_end s - lg_ack_offset s = length (lg_pend s) * GATEWAY_SPOOL_ENTRY_SIZE"
    using log by (simp add: lg_pend_def flip: diff_mult_distrib)
  then show "snap_pending_records (legacy_read s) = length (lg_pend s)"
    "snap_pending_bytes (legacy_read s) = length (lg_pend s) * GATEWAY_SPOOL_ENTRY_SIZE"
    by (simp_all add: legacy_read_def GATEWAY_SPOOL_ENTRY_SIZE_def)
qed

text \<open>C40: The snapshot counts the queue. Whichever format is in use, the pending records and bytes of the
  snapshot, which the code computes from file offsets or by walking the segment table, are those of the
  queue.\<close>

theorem spool_snapshot_counts_queue:
  assumes "queue_inv sp" and "\<not> queue_closed sp"
  shows "snap_pending_records (gateway_spool_read sp) = length (queued sp) \<and>
    snap_pending_bytes (gateway_spool_read sp) = length (queued sp) * GATEWAY_SPOOL_ENTRY_SIZE"
proof (cases sp)
  case (Legacy_spool s)
  then show ?thesis
    using assms legacy_read_counts [of s] by (simp add: gateway_spool_read_def queue_defs)
next
  case (V2_spool s)
  then show ?thesis
    using assms pending_length [of s] by (simp add: gateway_spool_read_def gateway_spool_v2_read_def queue_defs Let_def)
qed

lemma spool_snapshot_counts_queue_witness:
  "snap_pending_records (gateway_spool_read (Legacy_spool start_legacy)) = 0"
  using spool_snapshot_counts_queue [of "Legacy_spool start_legacy"] by (simp add: queue_defs)

end
