(* ===== verification/C_Text.thy ===== *)
theory C_Text
  imports Gw_Prelude
begin

text \<open>
  The C library's text routines as the gateway uses them: character classes of the C locale, number
  conversion, bounded copies, and the formatting of numbers. Strings are lists of
  characters without the terminating NUL.
\<close>

subsection \<open>Character classes\<close>

definition c_isspace :: "char \<Rightarrow> bool" where
  "c_isspace c \<longleftrightarrow> of_char c = (32 :: nat) \<or> 9 \<le> (of_char c :: nat) \<and> of_char c \<le> (13 :: nat)"

definition c_isdigit :: "char \<Rightarrow> bool" where
  "c_isdigit c \<longleftrightarrow> 48 \<le> (of_char c :: nat) \<and> of_char c \<le> (57 :: nat)"

definition c_isalnum :: "char \<Rightarrow> bool" where
  "c_isalnum c \<longleftrightarrow> c_isdigit c \<or> 65 \<le> (of_char c :: nat) \<and> of_char c \<le> (90 :: nat) \<or>
     97 \<le> (of_char c :: nat) \<and> of_char c \<le> (122 :: nat)"

definition c_iscntrl :: "char \<Rightarrow> bool" where
  "c_iscntrl c \<longleftrightarrow> of_char c < (32 :: nat) \<or> of_char c = (127 :: nat)"

definition newline :: char where
  "newline = CHR 0x0A"

text \<open>A buffer read as a C string ends at its first NUL.\<close>

definition c_string :: "string \<Rightarrow> string" where
  "c_string s = takeWhile (\<lambda>c. c \<noteq> CHR 0x00) s"

text \<open>\<open>snprintf(buffer, size, "%s", s)\<close>.\<close>

definition copy_string :: "nat \<Rightarrow> string \<Rightarrow> string" where
  "copy_string capacity s = take (capacity - 1) s"

subsection \<open>Numbers\<close>

definition digit_value :: "char \<Rightarrow> nat" where
  "digit_value c = of_char c - 48"

definition digits_value :: "string \<Rightarrow> nat" where
  "digits_value ds = foldl (\<lambda>v c. v * 10 + digit_value c) 0 ds"

text \<open>\<open>strtoull(text, &end, 10)\<close>: the value, whether \<open>errno\<close> is \<open>ERANGE\<close>, and the rest of the text;
  \<open>None\<close> when there is no number, in which case \<open>end\<close> is the start of the text and the value
  is 0. A minus sign negates the value in the unsigned type.\<close>

definition strtoull :: "string \<Rightarrow> (nat \<times> bool \<times> string) option" where
  "strtoull text =
     (let t = dropWhile c_isspace text;
          negative = (t \<noteq> [] \<and> hd t = CHR ''-'');
          t = (if t \<noteq> [] \<and> (hd t = CHR ''-'' \<or> hd t = CHR ''+'') then tl t else t);
          ds = takeWhile c_isdigit t; rest = dropWhile c_isdigit t
      in if ds = [] then None
         else let v = digits_value ds in
           if v > u64_max then Some (u64_max, True, rest)
           else Some (if negative then (2 ^ 64 - v) mod 2 ^ 64 else v, False, rest))"

text \<open>\<open>%u\<close>, \<open>%zu\<close> and the other decimal conversions.\<close>

fun show_nat :: "nat \<Rightarrow> string" where
  "show_nat n = (if n < 10 then [char_of (48 + n)] else show_nat (n div 10) @ [char_of (48 + n mod 10)])"

declare show_nat.simps [simp del]

subsection \<open>Reading back a printed number\<close>

lemma show_nat_digits: "\<forall>c\<in>set (show_nat n). c_isdigit c"
proof (induction n rule: show_nat.induct)
  case (1 n)
  have "c_isdigit (char_of (48 + k))" if "k < 10" for k :: nat
    using that by (simp add: c_isdigit_def)
  then show ?case using "1.IH" by (subst show_nat.simps) auto
qed

lemma show_nat_nonempty [simp]: "show_nat n \<noteq> []"
  by (subst show_nat.simps) simp

lemma digits_value_snoc: "digits_value (ds @ [c]) = digits_value ds * 10 + digit_value c"
  by (simp add: digits_value_def)

lemma digit_value_char [simp]: "k < 10 \<Longrightarrow> digit_value (char_of (48 + k)) = k"
  by (simp add: digit_value_def)

lemma digits_value_show [simp]: "digits_value (show_nat n) = n"
proof (induction n rule: show_nat.induct)
  case (1 n)
  show ?case
  proof (cases "n < 10")
    case True
    then show ?thesis by (subst show_nat.simps) (simp add: digits_value_def)
  next
    case False
    then show ?thesis using "1.IH" by (subst show_nat.simps) (simp add: digits_value_snoc)
  qed
qed

lemma digit_not:
  "c_isdigit c \<Longrightarrow> \<not> c_isspace c" "c_isdigit c \<Longrightarrow> c \<noteq> CHR ''-''" "c_isdigit c \<Longrightarrow> c \<noteq> CHR ''+''"
  by (auto simp: c_isdigit_def c_isspace_def)

lemma strtoull_show:
  "strtoull (show_nat n) = Some (if n > u64_max then (u64_max, True, []) else (n, False, []))"
proof -
  obtain c cs where s: "show_nat n = c # cs" by (cases "show_nat n") auto
  have digits: "\<forall>x\<in>set (c # cs). c_isdigit x" using show_nat_digits [of n] by (simp add: s)
  then have "c_isdigit c" by simp
  note no = digit_not [OF this]
  have "takeWhile c_isdigit (c # cs) = c # cs" "dropWhile c_isdigit (c # cs) = []"
    using digits by (simp_all add: takeWhile_eq_all_conv dropWhile_eq_Nil_conv)
  moreover have "digits_value (c # cs) = n" using digits_value_show [of n] by (simp add: s)
  ultimately show ?thesis using no by (simp add: strtoull_def s Let_def)
qed

end
