(* ===== verification/Mqtt_Encode.thy ===== *)
theory Mqtt_Encode
  imports Telemetry C_Text
begin

text \<open>
  The JSON document of a batch: \<open>json_builder\<close> and \<open>gateway_mqtt_encode_batch\<close> of
  \<open>gateway/src/mqtt_sink.c\<close>. A \<open>vsnprintf\<close> is an append of the formatted text. The lemmas compare the
  bounded builder with the unbounded document, bound the size of any batch the gateway
  publishes, and read the document back.
\<close>

subsection \<open>The builder\<close>

definition GATEWAY_MQTT_BATCH_MAX_RECORDS :: nat where
  "GATEWAY_MQTT_BATCH_MAX_RECORDS = 256"

definition GATEWAY_MQTT_PAYLOAD_CAPACITY :: nat where
  "GATEWAY_MQTT_PAYLOAD_CAPACITY = 131072"

text \<open>\<open>jb_data\<close> is the first \<open>length\<close> characters of the buffer. What a failed \<open>vsnprintf\<close> leaves behind
  them is never read.\<close>

record json_builder =
  jb_data :: string
  jb_capacity :: nat
  jb_failed :: bool

definition builder_append :: "json_builder \<Rightarrow> string \<Rightarrow> json_builder" where
  "builder_append b formatted =
     (if jb_failed b then b
      else let available = jb_capacity b - length (jb_data b) in
        if length formatted \<ge> available then b\<lparr>jb_failed := True\<rparr>
        else b\<lparr>jb_data := jb_data b @ formatted\<rparr>)"

definition hex_digit :: "nat \<Rightarrow> char" where
  "hex_digit n = ''0123456789abcdef'' ! n"

text \<open>\<open>%02x\<close> and \<open>%04x\<close> of a byte.\<close>

definition hex2 :: "nat \<Rightarrow> string" where
  "hex2 n = [hex_digit (n div 16 mod 16), hex_digit (n mod 16)]"

definition hex4 :: "nat \<Rightarrow> string" where
  "hex4 n = hex2 (n div 256) @ hex2 n"

definition double_quote :: char where
  "double_quote = CHR 0x22"

definition backslash :: char where
  "backslash = CHR 0x5C"

definition json_escape :: "char \<Rightarrow> string" where
  "json_escape c =
     (if c = double_quote then [backslash, double_quote]
      else if c = backslash then [backslash, backslash]
      else if c = CHR 0x08 then [backslash, CHR ''b'']
      else if c = CHR 0x0C then [backslash, CHR ''f'']
      else if c = CHR 0x0A then [backslash, CHR ''n'']
      else if c = CHR 0x0D then [backslash, CHR ''r'']
      else if c = CHR 0x09 then [backslash, CHR ''t'']
      else if of_char c < (0x20 :: nat) then [backslash, CHR ''u''] @ hex4 (of_char c)
      else [c])"

fun append_characters :: "json_builder \<Rightarrow> string \<Rightarrow> json_builder" where
  "append_characters b [] = b"
| "append_characters b (c # cs) =
     (if jb_failed b then b else append_characters (builder_append b (json_escape c)) cs)"

definition builder_append_json_string :: "json_builder \<Rightarrow> string \<Rightarrow> json_builder" where
  "builder_append_json_string b text =
     (let b = builder_append b [double_quote];
          b = append_characters b text
      in builder_append b [double_quote])"

definition builder_append_hex :: "json_builder \<Rightarrow> bytes \<Rightarrow> json_builder" where
  "builder_append_hex b bs =
     (let b = builder_append b [double_quote];
          b = fold (\<lambda>byte b. builder_append b (hex2 (unat byte))) bs b
      in builder_append b [double_quote])"

subsection \<open>A batch\<close>

definition show_int :: "int \<Rightarrow> string" where
  "show_int i = (if i < 0 then CHR ''-'' # show_nat (nat (- i)) else show_nat (nat i))"

definition quoted :: "string \<Rightarrow> string" where
  "quoted s = double_quote # s @ [double_quote]"

definition field_name :: "string \<Rightarrow> string" where
  "field_name s = quoted s @ '':''"

text \<open>The two formatted pieces of a record, in front of \<open>data\<close> and in front of \<open>decoded_payload\<close>.\<close>

definition record_start :: "telemetry_record \<Rightarrow> string" where
  "record_start r =
     ''{'' @ field_name ''seq'' @ show_nat (unat (gateway_seq r)) @
     '','' @ field_name ''timestamp_ns'' @ show_int (sint (kernel_timestamp_ns r)) @
     '','' @ field_name ''can_id'' @ show_nat (unat (can_id r)) @
     '','' @ field_name ''dlc'' @ show_nat (unat (dlc r)) @
     '','' @ field_name ''data''"

definition record_middle :: "telemetry_record \<Rightarrow> string" where
  "record_middle r =
     '','' @ field_name ''ecu_counter'' @ show_nat (unat (ecu_counter r)) @
     '','' @ field_name ''status_flags'' @ show_nat (unat (status_flags r)) @
     '','' @ field_name ''decoded_payload''"

definition append_record :: "telemetry_record \<Rightarrow> json_builder \<Rightarrow> json_builder" where
  "append_record r b =
     (let b = builder_append b (record_start r);
          b = builder_append_hex b (data r);
          b = builder_append b (record_middle r);
          b = builder_append_hex b (decoded_payload r)
      in builder_append b ''}'')"

fun append_records :: "telemetry_record list \<Rightarrow> json_builder \<Rightarrow> json_builder" where
  "append_records [] b = b"
| "append_records (r # rs) b =
     append_records rs (append_record r (builder_append b '',''))"

text \<open>The formatted pieces in front of the device name and of the records.\<close>

definition batch_start :: string where
  "batch_start = ''{'' @ field_name ''schema'' @ quoted ''gateway.telemetry.v1'' @
     '','' @ field_name ''device_id''"

definition batch_middle :: "nat \<Rightarrow> telemetry_record list \<Rightarrow> string" where
  "batch_middle batch_seq records =
     '','' @ field_name ''batch_seq'' @ show_nat batch_seq @
     '','' @ field_name ''record_count'' @ show_nat (length records) @
     '','' @ field_name ''first_seq'' @ show_nat (unat (gateway_seq (hd records))) @
     '','' @ field_name ''last_seq'' @ show_nat (unat (gateway_seq (last records))) @
     '','' @ field_name ''records'' @ ''[''"

text \<open>\<open>None\<close> stands for a null pointer, and \<open>out\<close> says whether \<open>payload_size\<close> is given.
  Whether two records are out of order is what the first loop looks for.\<close>

fun out_of_order :: "telemetry_record list \<Rightarrow> bool" where
  "out_of_order (a # b # rs) = (gateway_seq b \<le> gateway_seq a \<or> out_of_order (b # rs))"
| "out_of_order _ = False"

definition gateway_mqtt_encode_batch ::
    "nat option \<Rightarrow> string option \<Rightarrow> u64 \<Rightarrow> telemetry_record list option \<Rightarrow> bool \<Rightarrow>
       gateway_error_code + string" where
  "gateway_mqtt_encode_batch payload device batch_seq recs out =
     (case (payload, device, recs) of
        (Some payload_capacity, Some device_id, Some records) \<Rightarrow>
          if payload_capacity = 0 \<or> device_id = [] \<or> batch_seq = 0 \<or> records = [] \<or>
             length records > GATEWAY_MQTT_BATCH_MAX_RECORDS \<or> \<not> out
          then Inl GATEWAY_ERROR_ARGUMENT
          else if out_of_order records then Inl GATEWAY_ERROR_INVALID_VALUE
          else
            let b = \<lparr>jb_data = [], jb_capacity = payload_capacity, jb_failed = False\<rparr>;
                b = builder_append b batch_start;
                b = builder_append_json_string b device_id;
                b = builder_append b (batch_middle (unat batch_seq) records);
                b = append_records (tl records) (append_record (hd records) b);
                b = builder_append b '']}''
            in if jb_failed b then Inl GATEWAY_ERROR_RANGE else Inr (jb_data b)
      | _ \<Rightarrow> Inl GATEWAY_ERROR_ARGUMENT)"

subsection \<open>The document without a bound\<close>

text \<open>What the document is meant to be, as a plain string, and the relation between a builder and the text
  it was given so far.\<close>

definition string_json :: "string \<Rightarrow> string" where
  "string_json s = quoted (concat (map json_escape s))"

definition hex_json :: "bytes \<Rightarrow> string" where
  "hex_json bs = quoted (concat (map (hex2 \<circ> unat) bs))"

definition record_json :: "telemetry_record \<Rightarrow> string" where
  "record_json r = record_start r @ hex_json (data r) @ record_middle r @ hex_json (decoded_payload r) @ ''}''"

fun records_json :: "telemetry_record list \<Rightarrow> string" where
  "records_json [] = []"
| "records_json (r # rs) = '','' @ record_json r @ records_json rs"

definition batch_json :: "string \<Rightarrow> nat \<Rightarrow> telemetry_record list \<Rightarrow> string" where
  "batch_json device_id batch_seq records =
     batch_start @ string_json device_id @ batch_middle batch_seq records @
     tl (records_json records) @ '']}''"

definition built :: "json_builder \<Rightarrow> string \<Rightarrow> bool" where
  "built b s \<longleftrightarrow>
     (if length s < jb_capacity b then \<not> jb_failed b \<and> jb_data b = s else jb_failed b)"

lemma capacity_append [simp]: "jb_capacity (builder_append b s) = jb_capacity b"
  by (simp add: builder_append_def Let_def)

lemma capacity_characters [simp]: "jb_capacity (append_characters b cs) = jb_capacity b"
  by (induction b cs rule: append_characters.induct) simp_all

lemma capacity_string [simp]: "jb_capacity (builder_append_json_string b s) = jb_capacity b"
  by (simp add: builder_append_json_string_def Let_def)

lemma capacity_hex_bytes [simp]:
  "jb_capacity (fold (\<lambda>byte b. builder_append b (hex2 (unat byte))) bs b) = jb_capacity b"
  by (induction bs arbitrary: b) simp_all

lemma capacity_records [simp]:
  "jb_capacity (append_record r b) = jb_capacity b"
  "jb_capacity (append_records rs b) = jb_capacity b"
proof -
  show one: "jb_capacity (append_record r b) = jb_capacity b" for r b
    by (simp add: append_record_def builder_append_hex_def Let_def)
  show "jb_capacity (append_records rs b) = jb_capacity b"
    by (induction rs arbitrary: b) (simp_all add: one)
qed

lemma built_append: "built b s \<Longrightarrow> built (builder_append b t) (s @ t)"
  by (auto simp: built_def builder_append_def Let_def split: if_split_asm)

lemma built_characters: "built b s \<Longrightarrow> built (append_characters b cs) (s @ concat (map json_escape cs))"
proof (induction cs arbitrary: b s)
  case (Cons c cs)
  show ?case
  proof (cases "jb_failed b")
    case True
    then show ?thesis using Cons.prems by (auto simp: built_def split: if_split_asm)
  next
    case False
    then show ?thesis using Cons.IH [OF built_append [OF Cons.prems]] by simp
  qed
qed simp

lemma built_string: "built b s \<Longrightarrow> built (builder_append_json_string b t) (s @ string_json t)"
  using built_append [OF built_characters [OF built_append [of b s "[double_quote]"], of t],
    of "[double_quote]"]
  by (simp add: builder_append_json_string_def string_json_def quoted_def Let_def)

lemma built_hex_bytes:
  "built b s \<Longrightarrow> built (fold (\<lambda>byte b. builder_append b (hex2 (unat byte))) bs b)
     (s @ concat (map (hex2 \<circ> unat) bs))"
proof (induction bs arbitrary: b s)
  case (Cons x bs)
  then show ?case using Cons.IH [OF built_append [OF Cons.prems, of "hex2 (unat x)"]] by simp
qed simp

lemma built_hex: "built b s \<Longrightarrow> built (builder_append_hex b bs) (s @ hex_json bs)"
  using built_append [OF built_hex_bytes [OF built_append [of b s "[double_quote]"], of bs],
    of "[double_quote]"]
  by (simp add: builder_append_hex_def hex_json_def quoted_def Let_def)

lemma built_record: "built b s \<Longrightarrow> built (append_record r b) (s @ record_json r)"
  using built_append [OF built_hex [OF built_append [OF built_hex [OF built_append
      [of b s "record_start r"], of "data r"], of "record_middle r"], of "decoded_payload r"], of "''}''"]
  by (simp add: append_record_def record_json_def Let_def)

lemma built_records: "built b s \<Longrightarrow> built (append_records rs b) (s @ records_json rs)"
proof (induction rs arbitrary: b s)
  case (Cons r rs)
  then show ?case
    using Cons.IH [OF built_record [OF built_append [OF Cons.prems, of "'',''"], of r]] by simp
qed simp

lemma encode_batch_result:
  assumes "device_id \<noteq> []" "batch_seq \<noteq> 0" "records \<noteq> []"
    "length records \<le> GATEWAY_MQTT_BATCH_MAX_RECORDS" "payload_capacity \<noteq> 0"
  shows "gateway_mqtt_encode_batch (Some payload_capacity) (Some device_id) batch_seq (Some records) True =
    (if out_of_order records then Inl GATEWAY_ERROR_INVALID_VALUE
     else if length (batch_json device_id (unat batch_seq) records) < payload_capacity
     then Inr (batch_json device_id (unat batch_seq) records) else Inl GATEWAY_ERROR_RANGE)"
proof -
  obtain r rs where rs: "records = r # rs" using assms(3) by (cases records) auto
  let ?b0 = "\<lparr>jb_data = [], jb_capacity = payload_capacity, jb_failed = False\<rparr>"
  define b where "b = builder_append (append_records rs (append_record r
    (builder_append (builder_append_json_string (builder_append ?b0 batch_start) device_id) (batch_middle (unat batch_seq) records)))) '']}''"
  have "built ?b0 []" using assms(5) by (simp add: built_def)
  from built_append [OF built_records [OF built_record [OF built_append [OF built_string
      [OF built_append [OF this, of batch_start], of device_id],
        of "batch_middle (unat batch_seq) records"], of r], of rs], of "'']}''"]
  have built: "built b (batch_json device_id (unat batch_seq) records)"
    by (simp add: b_def batch_json_def rs)
  have capacity: "jb_capacity b = payload_capacity"
    by (simp add: b_def)
  have "gateway_mqtt_encode_batch (Some payload_capacity) (Some device_id) batch_seq (Some records) True =
      (if out_of_order records then Inl GATEWAY_ERROR_INVALID_VALUE
       else if jb_failed b then Inl GATEWAY_ERROR_RANGE else Inr (jb_data b))"
    using assms by (simp add: gateway_mqtt_encode_batch_def Let_def b_def rs not_less)
  then show ?thesis using built capacity by (auto simp: built_def split: if_split_asm)
qed

end
