(* ===== verification/Mqtt_Encode_Props.thy ===== *)
theory Mqtt_Encode_Props
  imports Mqtt_Encode
begin

text \<open>
  What the subscriber of the topic gets. A reader of the document is defined here, independent of
  the builder, and the document of every batch is read back to the records it was made of. The size of
  the largest possible batch is below the capacity of the payload buffer, so that no
  valid batch is ever refused for its size.
\<close>

subsection \<open>A reader\<close>

definition read_text :: "string \<Rightarrow> string \<Rightarrow> string option" where
  "read_text s inp = (if take (length s) inp = s then Some (drop (length s) inp) else None)"

definition read_nat :: "string \<Rightarrow> (nat \<times> string) option" where
  "read_nat inp = (let ds = takeWhile c_isdigit inp in
     if ds = [] then None else Some (digits_value ds, dropWhile c_isdigit inp))"

definition read_int :: "string \<Rightarrow> (int \<times> string) option" where
  "read_int inp =
     (if take 1 inp = ''-''
      then map_option (\<lambda>(n, r). (- int n, r)) (read_nat (tl inp))
      else map_option (\<lambda>(n, r). (int n, r)) (read_nat inp))"

definition hex_value :: "char \<Rightarrow> nat" where
  "hex_value c = (if c_isdigit c then of_char c - 48 else of_char c - 87)"

fun read_hex :: "string \<Rightarrow> (bytes \<times> string) option" where
  "read_hex (a # cs) =
     (if a = double_quote then Some ([], cs)
      else case cs of
        [] \<Rightarrow> None
      | b # rest \<Rightarrow> map_option (\<lambda>(bs, r). (of_nat (hex_value a * 16 + hex_value b) # bs, r)) (read_hex rest))"
| "read_hex [] = None"

text \<open>A character of a JSON string: itself, or the meaning of an escape.\<close>

fun read_character :: "string \<Rightarrow> (char \<times> string) option" where
  "read_character (c # cs) =
     (if c \<noteq> backslash then Some (c, cs)
      else case cs of
        [] \<Rightarrow> None
      | e # rest \<Rightarrow>
          if e = CHR ''u''
          then Some (char_of (foldl (\<lambda>v h. v * 16 + hex_value h) 0 (take 4 rest)), drop 4 rest)
          else map_option (\<lambda>c. (c, rest)) (map_of
            [(double_quote, double_quote), (backslash, backslash), (CHR ''b'', CHR 0x08),
             (CHR ''f'', CHR 0x0C), (CHR ''n'', CHR 0x0A), (CHR ''r'', CHR 0x0D), (CHR ''t'', CHR 0x09)] e))"
| "read_character [] = None"

lemma read_character_shorter: "read_character s = Some (c, rest) \<Longrightarrow> length rest < length s"
  by (cases s) (auto split: if_split_asm list.split_asm)

function read_string :: "string \<Rightarrow> (string \<times> string) option" where
  "read_string s =
     (if take 1 s = [double_quote] then Some ([], tl s)
      else case read_character s of
        None \<Rightarrow> None
      | Some (c, rest) \<Rightarrow> map_option (\<lambda>(cs, r). (c # cs, r)) (read_string rest))"
  by auto
termination
  by (relation "measure length") (auto dest: read_character_shorter)

declare read_string.simps [simp del]

definition read_record :: "string \<Rightarrow> (telemetry_record \<times> string) option" where
  "read_record inp =
     Option.bind (read_text (''{'' @ field_name ''seq'') inp) (\<lambda>inp.
     Option.bind (read_nat inp) (\<lambda>(seq, inp).
     Option.bind (read_text ('','' @ field_name ''timestamp_ns'') inp) (\<lambda>inp.
     Option.bind (read_int inp) (\<lambda>(timestamp, inp).
     Option.bind (read_text ('','' @ field_name ''can_id'') inp) (\<lambda>inp.
     Option.bind (read_nat inp) (\<lambda>(id, inp).
     Option.bind (read_text ('','' @ field_name ''dlc'') inp) (\<lambda>inp.
     Option.bind (read_nat inp) (\<lambda>(n, inp).
     Option.bind (read_text ('','' @ field_name ''data'' @ [double_quote]) inp) (\<lambda>inp.
     Option.bind (read_hex inp) (\<lambda>(bs, inp).
     Option.bind (read_text ('','' @ field_name ''ecu_counter'') inp) (\<lambda>inp.
     Option.bind (read_nat inp) (\<lambda>(counter, inp).
     Option.bind (read_text ('','' @ field_name ''status_flags'') inp) (\<lambda>inp.
     Option.bind (read_nat inp) (\<lambda>(flags, inp).
     Option.bind (read_text ('','' @ field_name ''decoded_payload'' @ [double_quote]) inp) (\<lambda>inp.
     Option.bind (read_hex inp) (\<lambda>(decoded, inp).
     Option.bind (read_text ''}'' inp) (\<lambda>inp.
     Some (\<lparr>gateway_seq = of_nat seq, kernel_timestamp_ns = of_int timestamp, can_id = of_nat id,
            data = bs, status_flags = of_nat flags, dlc = of_nat n, ecu_counter = of_nat counter,
            decoded_payload = decoded\<rparr>, inp))))))))))))))))))"

fun read_records :: "nat \<Rightarrow> string \<Rightarrow> (telemetry_record list \<times> string) option" where
  "read_records 0 inp = Some ([], inp)"
| "read_records (Suc n) inp =
     Option.bind (read_record inp) (\<lambda>(r, inp).
     Option.bind (if n = 0 then Some inp else read_text '','' inp) (\<lambda>inp.
     map_option (\<lambda>(rs, inp). (r # rs, inp)) (read_records n inp)))"

definition read_batch :: "string \<Rightarrow> (string \<times> nat \<times> telemetry_record list) option" where
  "read_batch inp =
     Option.bind (read_text (batch_start @ [double_quote]) inp) (\<lambda>inp.
     Option.bind (read_string inp) (\<lambda>(device, inp).
     Option.bind (read_text ('','' @ field_name ''batch_seq'') inp) (\<lambda>inp.
     Option.bind (read_nat inp) (\<lambda>(number, inp).
     Option.bind (read_text ('','' @ field_name ''record_count'') inp) (\<lambda>inp.
     Option.bind (read_nat inp) (\<lambda>(n, inp).
     Option.bind (read_text ('','' @ field_name ''first_seq'') inp) (\<lambda>inp.
     Option.bind (read_nat inp) (\<lambda>(first, inp).
     Option.bind (read_text ('','' @ field_name ''last_seq'') inp) (\<lambda>inp.
     Option.bind (read_nat inp) (\<lambda>(last, inp).
     Option.bind (read_text ('','' @ field_name ''records'' @ ''['') inp) (\<lambda>inp.
     Option.bind (read_records n inp) (\<lambda>(rs, inp).
     if inp = '']}'' then Some (device, number, rs) else None))))))))))))"

subsection \<open>Reading what was written\<close>

named_theorems read_back \<open>a reader in front of what it reads\<close>

definition number_ends :: "string \<Rightarrow> bool" where
  "number_ends s \<longleftrightarrow> (\<forall>c\<in>set (take 1 s). \<not> c_isdigit c)"

lemma read_text_append [read_back]: "read_text s (s @ t) = Some t"
  by (simp add: read_text_def)

lemma read_text_steps [read_back]:
  "read_text [] t = Some t" "read_text (c # s) (c # t) = read_text s t"
  "read_text (field_name x @ s) (field_name x @ t) = read_text s t"
  "read_text (field_name x) (field_name x @ t) = Some t"
  "read_text (batch_start @ s) (batch_start @ t) = read_text s t"
  by (simp_all add: read_text_def)

lemma number_ends_comma [simp]: "number_ends (CHR '','' # s)" "number_ends []"
  by (simp_all add: number_ends_def c_isdigit_def)

lemma takeWhile_dropWhile_split:
  assumes "\<forall>c\<in>set ds. P c" "\<forall>c\<in>set (take 1 t). \<not> P c"
  shows "takeWhile P (ds @ t) = ds" "dropWhile P (ds @ t) = t"
  using assms by (cases t; simp add: takeWhile_append2 dropWhile_append2)+

lemma read_nat_show [read_back]: "number_ends t \<Longrightarrow> read_nat (show_nat n @ t) = Some (n, t)"
  using takeWhile_dropWhile_split [OF show_nat_digits]
  by (simp add: read_nat_def number_ends_def)

lemma read_int_show [read_back]: "number_ends t \<Longrightarrow> read_int (show_int i @ t) = Some (i, t)"
proof -
  assume t: "number_ends t"
  obtain c cs where s: "show_nat (nat i) = c # cs" by (cases "show_nat (nat i)") auto
  have "c \<noteq> CHR ''-''" using show_nat_digits [of "nat i"] s digit_not(2) by auto
  then show ?thesis
    using read_nat_show [OF t, of "nat i"] read_nat_show [OF t, of "nat (- i)"] s
    by (simp add: read_int_def show_int_def)
qed

lemma hex_digit_values:
  assumes "n < 16"
  shows "hex_value (hex_digit n) = n" and "hex_digit n \<noteq> double_quote"
proof -
  have "list_all (\<lambda>n. hex_value (hex_digit n) = n \<and> hex_digit n \<noteq> double_quote) [0..<16]"
    by code_simp
  then have "hex_value (hex_digit n) = n \<and> hex_digit n \<noteq> double_quote"
    using assms by (simp add: list_all_iff)
  then show "hex_value (hex_digit n) = n" "hex_digit n \<noteq> double_quote" by simp_all
qed

lemma read_hex_json [read_back]:
  "read_hex (concat (map (hex2 \<circ> unat) bs) @ double_quote # t) = Some (bs, t)"
proof (induction bs)
  case (Cons x bs)
  have "unat x < 256" using unsigned_less [of x] by simp
  then have small: "unat x div 16 mod 16 < 16" "unat x mod 16 < 16"
    "unat x div 16 mod 16 * 16 + unat x mod 16 = unat x" by auto
  have "(of_nat (unat x) :: u8) = x" by simp
  then show ?case
    using Cons hex_digit_values [OF small(1)] hex_digit_values [OF small(2)] small(3)
    by (simp add: hex2_def)
qed simp

lemma hex4_value:
  assumes "n < 32"
  shows "foldl (\<lambda>v h. v * 16 + hex_value h) 0 (hex4 n) = n"
proof -
  have "hex4 n = [hex_digit 0, hex_digit 0, hex_digit (n div 16), hex_digit (n mod 16)]"
    using assms by (simp add: hex4_def hex2_def)
  moreover have "n div 16 * 16 + n mod 16 = n" by simp
  ultimately show ?thesis
    using assms by (simp add: hex_digit_values(1))
qed

lemma length_hex4: "length (hex4 n) = 4"
  by (simp add: hex4_def hex2_def)

lemma read_unicode: "read_character (backslash # CHR ''u'' # hex4 n @ t) = Some (char_of (foldl (\<lambda>v h. v * 16 + hex_value h) 0 (hex4 n)), t)"
  by (simp add: length_hex4)

lemma read_character_escape: "read_character (json_escape c @ t) = Some (c, t)"
proof (cases "c \<in> set [double_quote, backslash, CHR 0x08, CHR 0x0C, CHR 0x0A, CHR 0x0D, CHR 0x09]")
  case True
  then show ?thesis by (auto simp: json_escape_def backslash_def double_quote_def)
next
  case False
  then have e: "json_escape c =
      (if of_char c < (0x20 :: nat) then backslash # CHR ''u'' # hex4 (of_char c) else [c])" "c \<noteq> backslash"
    by (simp_all add: json_escape_def)
  then show ?thesis using hex4_value [of "of_char c"] by (simp add: read_unicode del: read_character.simps) simp
qed

lemma escape_no_quote: "take 1 (json_escape c @ t) \<noteq> [double_quote]"
  by (auto simp: json_escape_def backslash_def double_quote_def)

lemma read_string_json [read_back]:
  "read_string (concat (map json_escape s) @ double_quote # t) = Some (s, t)"
proof (induction s)
  case Nil
  show ?case by (subst read_string.simps) simp
next
  case (Cons c s)
  then show ?case
    using escape_no_quote [of c] read_character_escape [of c]
    by (subst read_string.simps) (simp del: take_append take_Suc_Cons)
qed

lemma read_record_json [read_back]: "read_record (record_json r @ t) = Some (r, t)"
  by (simp add: read_record_def record_json_def record_start_def record_middle_def hex_json_def
      quoted_def read_back)

lemma read_records_json: "rs \<noteq> [] \<Longrightarrow>
    read_records (length rs) (tl (records_json rs) @ t) = Some (rs, t)"
proof (induction rs)
  case (Cons r rs)
  show ?case
  proof (cases rs)
    case Nil
    then show ?thesis by (simp add: read_back)
  next
    case (Cons r' rs')
    then have "records_json rs = CHR '','' # tl (records_json rs)" by simp
    then show ?thesis using Cons.IH Cons by (simp add: read_back)
  qed
qed simp

lemma read_batch_json:
  "records \<noteq> [] \<Longrightarrow> read_batch (batch_json device_id batch_seq records) = Some (device_id, batch_seq, records)"
  by (simp add: read_batch_def batch_json_def batch_middle_def string_json_def quoted_def read_back
      read_records_json)

subsection \<open>The size of a document\<close>

lemma length_show_nat: "n < 10 ^ k \<Longrightarrow> 0 < k \<Longrightarrow> length (show_nat n) \<le> k"
proof (induction k arbitrary: n)
  case (Suc k)
  show ?case
  proof (cases "n < 10")
    case True
    then show ?thesis by (subst show_nat.simps) simp
  next
    case False
    then have "0 < k" "n div 10 < 10 ^ k" using Suc.prems by (cases k; simp)+
    then show ?thesis using Suc.IH [of "n div 10"] False by (subst show_nat.simps) simp
  qed
qed simp

lemma length_show_word:
  "length (show_nat (unat (a :: u64))) \<le> 20" "length (show_nat (unat (b :: u32))) \<le> 10"
  "length (show_nat (unat (c :: u16))) \<le> 5" "length (show_nat (unat (d :: u8))) \<le> 3"
proof -
  have "unat a < 2 ^ LENGTH(64)" "unat b < 2 ^ LENGTH(32)" "unat c < 2 ^ LENGTH(16)" "unat d < 2 ^ LENGTH(8)"
    by (rule unsigned_less)+
  then show "length (show_nat (unat a)) \<le> 20" "length (show_nat (unat b)) \<le> 10"
    "length (show_nat (unat c)) \<le> 5" "length (show_nat (unat d)) \<le> 3"
    by (simp_all add: length_show_nat)
qed

lemma length_show_sint: "length (show_int (sint (a :: u64))) \<le> 20"
proof -
  have "sint a < 2 ^ (LENGTH(64) - 1)" "- (2 ^ (LENGTH(64) - 1)) \<le> sint a"
    by (rule sint_lt, rule sint_ge)
  then have "nat (sint a) < 10 ^ 20" "nat (- sint a) < 10 ^ 19" by simp_all
  then show ?thesis
    using length_show_nat [of "nat (sint a)" 20] length_show_nat [of "nat (- sint a)" 19]
    by (simp add: show_int_def)
qed

lemma length_hex_json: "length (hex_json bs) = 2 * length bs + 2"
proof -
  have "length (concat (map (hex2 \<circ> unat) bs)) = 2 * length bs"
    by (induction bs) (simp_all add: hex2_def)
  then show ?thesis by (simp add: hex_json_def quoted_def)
qed

lemma length_string_json: "length (string_json s) \<le> 6 * length s + 2"
proof -
  have one: "length (json_escape c) \<le> 6" for c
    by (simp add: json_escape_def length_hex4)
  have "length (concat (map json_escape s)) \<le> 6 * length s"
  proof (induction s)
    case (Cons c s)
    then show ?case using one [of c] by simp
  qed simp
  then show ?thesis by (simp add: string_json_def quoted_def)
qed

lemma length_record_json:
  assumes "wf_record r"
  shows "length (record_json r) \<le> 250"
  using assms length_show_word(1) [of "gateway_seq r"] length_show_sint [of "kernel_timestamp_ns r"]
    length_show_word(2) [of "can_id r"] length_show_word(3) [of "status_flags r"]
    length_show_word(4) [of "dlc r"] length_show_word(4) [of "ecu_counter r"]
  by (simp add: record_json_def record_start_def record_middle_def length_hex_json field_name_def
      quoted_def wf_record_def GATEWAY_CAN_DATA_SIZE_def GATEWAY_DECODED_PAYLOAD_SIZE_def)

lemma length_records_json:
  "\<forall>r\<in>set rs. wf_record r \<Longrightarrow> length (records_json rs) \<le> 251 * length rs"
proof (induction rs)
  case (Cons r rs)
  then show ?case using length_record_json [of r] by simp
qed simp

lemma length_batch_json:
  assumes "\<forall>r\<in>set records. wf_record r" "length device_id < 64" "length records \<le> 256"
  shows "length (batch_json device_id (unat (batch_seq :: u64)) records) \<le> 65000"
  using length_records_json [OF assms(1)] length_string_json [of device_id] assms(2,3)
    length_show_word(1) [of batch_seq] length_show_nat [of "length records" 3]
    length_show_word(1) [of "gateway_seq (hd records)"] length_show_word(1) [of "gateway_seq (last records)"]
  by (simp add: batch_json_def batch_start_def batch_middle_def field_name_def quoted_def)

lemma in_order_sorted:
  "out_of_order rs \<longleftrightarrow> \<not> sorted_wrt (\<lambda>a b. gateway_seq a < gateway_seq b) rs"
proof (induction rs rule: out_of_order.induct)
  case (1 a b rs)
  have "\<forall>x\<in>set rs. gateway_seq a < gateway_seq x"
    if "gateway_seq a < gateway_seq b" "\<forall>x\<in>set rs. gateway_seq b < gateway_seq x"
    using that less_trans by blast
  then show ?case using 1 by (auto simp: not_le)
qed simp_all

subsection \<open>Properties\<close>

definition sample_batch :: "telemetry_record list" where
  "sample_batch = [zero_record\<lparr>gateway_seq := 7\<rparr>, zero_record\<lparr>gateway_seq := 9\<rparr>]"

lemma sample_batch_ok: "\<forall>r\<in>set sample_batch. wf_record r" "\<not> out_of_order sample_batch"
  "sample_batch \<noteq> []" "length sample_batch = 2"
  by (simp_all add: sample_batch_def wf_record_def zero_record_def)

text \<open>A batch that the sink can hand over always fits the payload buffer: for every device name a
  configuration can hold, and at most 256 whole records in increasing order, the encoder succeeds in
  the 128 KiB buffer and the document has less than half of that size.\<close>

theorem mqtt_batch_fits:
  assumes "device_id \<noteq> []" and "length device_id < 64" and "batch_seq \<noteq> 0"
    and "records \<noteq> []" and "length records \<le> GATEWAY_MQTT_BATCH_MAX_RECORDS"
    and "\<forall>r\<in>set records. wf_record r"
    and "sorted_wrt (\<lambda>a b. gateway_seq a < gateway_seq b) records"
  shows "\<exists>payload. gateway_mqtt_encode_batch (Some GATEWAY_MQTT_PAYLOAD_CAPACITY) (Some device_id) batch_seq
      (Some records) True = Inr payload \<and> length payload < 65536"
proof -
  have "length (batch_json device_id (unat batch_seq) records) \<le> 65000"
    using assms by (intro length_batch_json)
      (simp_all add: GATEWAY_MQTT_BATCH_MAX_RECORDS_def)
  then show ?thesis
    using encode_batch_result [OF assms(1,3,4,5), of GATEWAY_MQTT_PAYLOAD_CAPACITY] assms(7)
    by (simp add: in_order_sorted GATEWAY_MQTT_PAYLOAD_CAPACITY_def)
qed

lemma mqtt_batch_fits_witness:
  "\<exists>payload. gateway_mqtt_encode_batch (Some GATEWAY_MQTT_PAYLOAD_CAPACITY) (Some ''gateway-lab'') 3
      (Some sample_batch) True = Inr payload \<and> length payload < 65536"
  using sample_batch_ok
  by (intro mqtt_batch_fits)
    (simp_all add: GATEWAY_MQTT_BATCH_MAX_RECORDS_def in_order_sorted)

text \<open>C27: The published document holds everything: whatever the capacity and the device name, a payload
  that the encoder returns is read back, by a reader that knows nothing of the builder, to the device
  name, the batch number and all the records with all their fields; and it fits the buffer with its
  terminating NUL.\<close>

theorem mqtt_payload_readback:
  assumes "gateway_mqtt_encode_batch (Some payload_capacity) (Some device_id) batch_seq (Some records) out =
      Inr payload"
  shows "read_batch payload = Some (device_id, unat batch_seq, records) \<and> length payload < payload_capacity"
proof -
  have "device_id \<noteq> []" "batch_seq \<noteq> 0" "records \<noteq> []" "payload_capacity \<noteq> 0" "out"
      "length records \<le> GATEWAY_MQTT_BATCH_MAX_RECORDS"
    using assms by (auto simp: gateway_mqtt_encode_batch_def split: if_split_asm)
  then show ?thesis
    using assms encode_batch_result [of device_id batch_seq records payload_capacity]
    by (auto simp: read_batch_json split: if_split_asm)
qed

lemma mqtt_payload_readback_witness:
  "\<exists>payload. read_batch payload = Some (''gateway-lab'', 3, sample_batch)"
proof -
  have "length (batch_json ''gateway-lab'' (unat (3 :: u64)) sample_batch) \<le> 65000"
    using sample_batch_ok by (intro length_batch_json) simp_all
  then have "gateway_mqtt_encode_batch (Some 100000) (Some ''gateway-lab'') 3 (Some sample_batch) True =
      Inr (batch_json ''gateway-lab'' (unat (3 :: u64)) sample_batch)"
    using sample_batch_ok encode_batch_result [of "''gateway-lab''" 3 sample_batch 100000]
    by (simp add: GATEWAY_MQTT_BATCH_MAX_RECORDS_def)
  from mqtt_payload_readback [OF this] show ?thesis by auto
qed

end
