(* ===== verification/Mqtt_Reactor.thy ===== *)
theory Mqtt_Reactor
  imports Gw_Prelude
begin

text \<open>
  The epoll reactor of \<open>gateway/src/mqtt_reactor.c\<close>, which drives libmosquitto's external loop. The library and
  the kernel are the environment: every call takes the next answer of a list, and any answer may be a failure.
  Callbacks that the library runs inside a call are collected in the order in which they run; the reactor
  itself does not look at what they change.
\<close>

subsection \<open>The environment\<close>

text \<open>Values fixed by the interfaces of libmosquitto and of the kernel.\<close>

definition MOSQ_ERR_SUCCESS :: int where "MOSQ_ERR_SUCCESS = 0"

definition MOSQ_ERR_INVAL :: int where "MOSQ_ERR_INVAL = 3"

definition MOSQ_ERR_NO_CONN :: int where "MOSQ_ERR_NO_CONN = 4"

definition EPOLLIN :: u32 where "EPOLLIN = 0x001"
definition EPOLLOUT :: u32 where "EPOLLOUT = 0x004"
definition EPOLLERR :: u32 where "EPOLLERR = 0x008"
definition EPOLLHUP :: u32 where "EPOLLHUP = 0x010"
definition EPOLLRDHUP :: u32 where "EPOLLRDHUP = 0x2000"

datatype mqtt_callback = On_connect int | On_disconnect int | On_publish int

text \<open>The answer to a call into libmosquitto: the return code, the message identifier it assigns when
  it publishes, and the callbacks that run before it returns.\<close>

record lib_reply =
  reply_code :: int
  reply_mid :: int
  reply_callbacks :: "mqtt_callback list"

text \<open>A transfer of eight bytes on the eventfd or the timerfd.\<close>

datatype io_outcome = Io_value u64 | Io_interrupted | Io_again | Io_failed

datatype epoll_outcome = Epoll_events "(u32 \<times> u32) list" | Epoll_interrupted | Epoll_failed

datatype epoll_operation = EPOLL_CTL_ADD | EPOLL_CTL_MOD | EPOLL_CTL_DEL

text \<open>What crosses the boundary to the library, in order. Clients are numbered as they are created.\<close>

datatype mqtt_event =
    Client_created nat
  | Client_destroyed nat
  | Connect_called nat
  | Disconnect_called nat
  | Published nat int string string
  | Callback_run nat mqtt_callback

record mqtt_world =
  socket_answers :: "int list"
  want_answers :: "bool list"
  ctl_answers :: "bool list"
  io_answers :: "io_outcome list"
  epoll_answers :: "epoll_outcome list"
  lib_answers :: "lib_reply list"
  clock_answers :: "timespec option list"
  call_answers :: "bool list"
  fd_answers :: "int list"
  interest :: "int \<Rightarrow> u32 option"
  open_fds :: "int list"
  next_client :: nat
  delivered :: "mqtt_callback list"
  history :: "mqtt_event list"

text \<open>The next answer of a list, or a default when the list is used up.\<close>

fun next_answer :: "'a \<Rightarrow> 'a list \<Rightarrow> 'a \<times> 'a list" where
  "next_answer d [] = (d, [])"
| "next_answer d (x # xs) = (x, xs)"

definition mosquitto_socket :: "mqtt_world \<Rightarrow> int \<times> mqtt_world" where
  "mosquitto_socket w = (let (a, xs) = next_answer (- 1) (socket_answers w) in (a, w\<lparr>socket_answers := xs\<rparr>))"

definition mosquitto_want_write :: "mqtt_world \<Rightarrow> bool \<times> mqtt_world" where
  "mosquitto_want_write w = (let (a, xs) = next_answer False (want_answers w) in (a, w\<lparr>want_answers := xs\<rparr>))"

text \<open>A call of which only success or failure matters: \<open>calloc\<close>, \<open>timerfd_settime\<close>, \<open>pthread_mutex_init\<close>.\<close>

definition plain_call :: "mqtt_world \<Rightarrow> bool \<times> mqtt_world" where
  "plain_call w = (let (a, xs) = next_answer True (call_answers w) in (a, w\<lparr>call_answers := xs\<rparr>))"

text \<open>The time on the monotonic clock, or a failure.\<close>

definition monotonic_clock :: "mqtt_world \<Rightarrow> timespec option \<times> mqtt_world" where
  "monotonic_clock w = (let (a, xs) = next_answer None (clock_answers w) in (a, w\<lparr>clock_answers := xs\<rparr>))"

text \<open>A call of a library function on a client. What the call itself puts on record may depend on the answer, and
  precedes the callbacks that run before it returns.\<close>

definition lib_call_with :: "(lib_reply \<Rightarrow> mqtt_event list) \<Rightarrow> nat \<Rightarrow> mqtt_world \<Rightarrow> lib_reply \<times> mqtt_world" where
  "lib_call_with events client w =
     (let (a, xs) = next_answer \<lparr>reply_code = MOSQ_ERR_SUCCESS, reply_mid = 0, reply_callbacks = []\<rparr> (lib_answers w) in
      (a, w\<lparr>lib_answers := xs, delivered := delivered w @ reply_callbacks a,
            history := history w @ events a @ map (Callback_run client) (reply_callbacks a)\<rparr>))"

abbreviation lib_call :: "nat \<Rightarrow> mqtt_world \<Rightarrow> lib_reply \<times> mqtt_world" where
  "lib_call \<equiv> lib_call_with (\<lambda>_. [])"

text \<open>\<open>epoll_ctl\<close>: a successful call changes the interest list.\<close>

definition epoll_ctl :: "epoll_operation \<Rightarrow> int \<Rightarrow> u32 \<Rightarrow> mqtt_world \<Rightarrow> bool \<times> mqtt_world" where
  "epoll_ctl op fd events w =
     (let (ok, xs) = next_answer True (ctl_answers w); w = w\<lparr>ctl_answers := xs\<rparr> in
      (ok, if \<not> ok then w
           else w\<lparr>interest := (interest w)(fd := (if op = EPOLL_CTL_DEL then None else Some events))\<rparr>))"

definition epoll_wait :: "mqtt_world \<Rightarrow> epoll_outcome \<times> mqtt_world" where
  "epoll_wait w = (let (a, xs) = next_answer (Epoll_events []) (epoll_answers w) in (a, w\<lparr>epoll_answers := xs\<rparr>))"

text \<open>A new descriptor, or \<open>- 1\<close>.\<close>

definition open_fd :: "mqtt_world \<Rightarrow> int \<times> mqtt_world" where
  "open_fd w =
     (let (fd, xs) = next_answer (- 1) (fd_answers w); w = w\<lparr>fd_answers := xs\<rparr> in
      if fd < 0 then (- 1, w) else (fd, w\<lparr>open_fds := fd # open_fds w\<rparr>))"

definition close_fd :: "int \<Rightarrow> mqtt_world \<Rightarrow> mqtt_world" where
  "close_fd fd w = (if fd < 0 then w else w\<lparr>open_fds := remove1 fd (open_fds w)\<rparr>)"

subsection \<open>The reactor\<close>

definition REACTOR_EVENT_CAPACITY :: nat where "REACTOR_EVENT_CAPACITY = 3"
definition REACTOR_TAG_WAKE :: u32 where "REACTOR_TAG_WAKE = 1"
definition REACTOR_TAG_TIMER :: u32 where "REACTOR_TAG_TIMER = 2"
definition REACTOR_TAG_MQTT :: u32 where "REACTOR_TAG_MQTT = 3"

record gateway_mqtt_reactor_snapshot =
  re_enabled :: bool
  re_network_fd :: int
  re_epoll_waits :: u64
  re_wake_notifications :: u64
  re_wake_events :: u64
  re_timer_expirations :: u64
  re_socket_events :: u64
  re_loop_read_calls :: u64
  re_loop_write_calls :: u64
  re_loop_misc_calls :: u64

record gateway_mqtt_reactor =
  epoll_fd :: int
  wake_fd :: int
  timer_fd :: int
  network_fd :: int
  network_events :: u32
  client :: "nat option"
  re_snapshot :: gateway_mqtt_reactor_snapshot

definition zero_reactor_snapshot :: gateway_mqtt_reactor_snapshot where
  "zero_reactor_snapshot = \<lparr>re_enabled = False, re_network_fd = - 1, re_epoll_waits = 0,
     re_wake_notifications = 0, re_wake_events = 0, re_timer_expirations = 0, re_socket_events = 0,
     re_loop_read_calls = 0, re_loop_write_calls = 0, re_loop_misc_calls = 0\<rparr>"

abbreviation bump :: "(gateway_mqtt_reactor_snapshot \<Rightarrow> gateway_mqtt_reactor_snapshot) \<Rightarrow>
    gateway_mqtt_reactor \<Rightarrow> gateway_mqtt_reactor" where
  "bump f r \<equiv> r\<lparr>re_snapshot := f (re_snapshot r)\<rparr>"

definition add_fixed_fd :: "int \<Rightarrow> mqtt_world \<Rightarrow> gateway_error_code \<times> mqtt_world" where
  "add_fixed_fd fd w =
     (let (ok, w) = epoll_ctl EPOLL_CTL_ADD fd EPOLLIN w in (if ok then GATEWAY_OK else GATEWAY_ERROR_SYSTEM, w))"

definition remove_network_fd :: "gateway_mqtt_reactor \<Rightarrow> mqtt_world \<Rightarrow> gateway_mqtt_reactor \<times> mqtt_world" where
  "remove_network_fd r w =
     (let w = (if network_fd r \<ge> 0 then snd (epoll_ctl EPOLL_CTL_DEL (network_fd r) 0 w) else w) in
      (bump (re_network_fd_update (\<lambda>_. - 1)) (r\<lparr>network_fd := - 1, network_events := 0\<rparr>), w))"

definition update_network_fd ::
    "gateway_mqtt_reactor \<Rightarrow> mqtt_world \<Rightarrow> gateway_error_code \<times> gateway_mqtt_reactor \<times> mqtt_world" where
  "update_network_fd r w =
     (let (desired_fd, w) = (case client r of None \<Rightarrow> (- 1, w) | Some _ \<Rightarrow> mosquitto_socket w) in
      if desired_fd < 0 then (GATEWAY_OK, remove_network_fd r w)
      else
        let (want, w) = mosquitto_want_write w;
            desired_events = EPOLLIN OR EPOLLERR OR EPOLLHUP OR EPOLLRDHUP;
            desired_events = (if want then desired_events OR EPOLLOUT else desired_events)
        in if desired_fd = network_fd r \<and> desired_events = network_events r then (GATEWAY_OK, r, w)
           else
             let operation = (if desired_fd \<noteq> network_fd r then EPOLL_CTL_ADD else EPOLL_CTL_MOD);
                 (r, w) = (if desired_fd \<noteq> network_fd r then remove_network_fd r w else (r, w));
                 (ok, w) = epoll_ctl operation desired_fd desired_events w
             in if \<not> ok then (GATEWAY_ERROR_SYSTEM, remove_network_fd r w)
                else (GATEWAY_OK, bump (re_network_fd_update (\<lambda>_. desired_fd))
                       (r\<lparr>network_fd := desired_fd, network_events := desired_events\<rparr>), w))"

fun drain_wake_loop :: "io_outcome list \<Rightarrow> u64 \<Rightarrow> gateway_error_code \<times> u64 \<times> io_outcome list" where
  "drain_wake_loop [] acc = (GATEWAY_OK, acc, [])"
| "drain_wake_loop (Io_value v # xs) acc = drain_wake_loop xs (acc + v)"
| "drain_wake_loop (Io_interrupted # xs) acc = drain_wake_loop xs acc"
| "drain_wake_loop (Io_again # xs) acc = (GATEWAY_OK, acc, xs)"
| "drain_wake_loop (Io_failed # xs) acc = (GATEWAY_ERROR_SYSTEM, acc, xs)"

definition drain_wake_fd ::
    "gateway_mqtt_reactor \<Rightarrow> mqtt_world \<Rightarrow> gateway_error_code \<times> gateway_mqtt_reactor \<times> mqtt_world" where
  "drain_wake_fd r w =
     (let (code, acc, xs) = drain_wake_loop (io_answers w) (re_wake_events (re_snapshot r)) in
      (code, bump (re_wake_events_update (\<lambda>_. acc)) r, w\<lparr>io_answers := xs\<rparr>))"

text \<open>The loops that repeat an interrupted transfer.\<close>

fun io_retry :: "io_outcome list \<Rightarrow> io_outcome \<times> io_outcome list" where
  "io_retry [] = (Io_again, [])"
| "io_retry (Io_interrupted # xs) = io_retry xs"
| "io_retry (x # xs) = (x, xs)"

definition transfer :: "mqtt_world \<Rightarrow> io_outcome \<times> mqtt_world" where
  "transfer w = (let (x, xs) = io_retry (io_answers w) in (x, w\<lparr>io_answers := xs\<rparr>))"

definition process_timer ::
    "int \<Rightarrow> gateway_mqtt_reactor \<Rightarrow> mqtt_world \<Rightarrow> gateway_error_code \<times> int \<times> gateway_mqtt_reactor \<times> mqtt_world" where
  "process_timer mosquitto_code r w =
     (let (result, w) = transfer w in
      case result of
        Io_again \<Rightarrow> (GATEWAY_OK, mosquitto_code, r, w)
      | Io_value expirations \<Rightarrow>
          let r = bump (re_timer_expirations_update (\<lambda>n. n + expirations)) r in
          if client r = None \<or> network_fd r < 0 then (GATEWAY_OK, mosquitto_code, r, w)
          else
            let r = bump (re_loop_misc_calls_update (\<lambda>n. n + 1)) r;
                (reply, w) = lib_call (the (client r)) w
            in (if reply_code reply = MOSQ_ERR_SUCCESS then GATEWAY_OK else GATEWAY_ERROR_IO, reply_code reply, r, w)
      | _ \<Rightarrow> (GATEWAY_ERROR_SYSTEM, mosquitto_code, r, w))"

definition process_socket ::
    "u32 \<Rightarrow> int \<Rightarrow> gateway_mqtt_reactor \<Rightarrow> mqtt_world \<Rightarrow>
       gateway_error_code \<times> int \<times> gateway_mqtt_reactor \<times> mqtt_world" where
  "process_socket events mosquitto_code r w =
     (if client r = None \<or> network_fd r < 0 then (GATEWAY_OK, mosquitto_code, r, w)
      else
        let r = bump (re_socket_events_update (\<lambda>n. n + 1)) r;
            (writing, w) = (if events AND EPOLLOUT \<noteq> 0 then mosquitto_want_write w else (False, w));
            (code, mosquitto_code, r, w) =
              (if writing
               then let r = bump (re_loop_write_calls_update (\<lambda>n. n + 1)) r;
                        (reply, w) = lib_call (the (client r)) w
                 in (if reply_code reply = MOSQ_ERR_SUCCESS then GATEWAY_OK else GATEWAY_ERROR_IO, reply_code reply, r, w)
               else (GATEWAY_OK, mosquitto_code, r, w))
        in if code \<noteq> GATEWAY_OK then (code, mosquitto_code, r, w)
           else if events AND (EPOLLIN OR EPOLLERR OR EPOLLHUP OR EPOLLRDHUP) \<noteq> 0
           then let r = bump (re_loop_read_calls_update (\<lambda>n. n + 1)) r;
                    (reply, w) = lib_call (the (client r)) w
             in (if reply_code reply = MOSQ_ERR_SUCCESS then GATEWAY_OK else GATEWAY_ERROR_IO, reply_code reply, r, w)
           else (GATEWAY_OK, mosquitto_code, r, w))"

definition gateway_mqtt_reactor_destroy :: "gateway_mqtt_reactor \<Rightarrow> mqtt_world \<Rightarrow> mqtt_world" where
  "gateway_mqtt_reactor_destroy r w =
     (let (r, w) = remove_network_fd r w in close_fd (epoll_fd r) (close_fd (wake_fd r) (close_fd (timer_fd r) w)))"

text \<open>The descriptors are usable and epoll watches the eventfd and the timerfd.\<close>

definition register_fixed_fds :: "int \<Rightarrow> int \<Rightarrow> int \<Rightarrow> mqtt_world \<Rightarrow> bool \<times> mqtt_world" where
  "register_fixed_fds efd wfd tfd w =
     (if efd < 0 \<or> wfd < 0 \<or> tfd < 0 then (False, w)
      else let (code, w) = add_fixed_fd wfd w in
        if code \<noteq> GATEWAY_OK then (False, w)
        else let (code, w) = add_fixed_fd tfd w in (code = GATEWAY_OK, w))"

definition gateway_mqtt_reactor_create ::
    "nat option \<Rightarrow> u32 \<Rightarrow> mqtt_world \<Rightarrow> gateway_error_code \<times> gateway_mqtt_reactor option \<times> mqtt_world" where
  "gateway_mqtt_reactor_create mosq misc_interval_ms w =
     (if misc_interval_ms = 0 then (GATEWAY_ERROR_ARGUMENT, None, w)
      else let (allocated, w) = plain_call w in
        if \<not> allocated then (GATEWAY_ERROR_SYSTEM, None, w)
        else
          let (efd, w) = open_fd w; (wfd, w) = open_fd w; (tfd, w) = open_fd w;
              r = \<lparr>epoll_fd = efd, wake_fd = wfd, timer_fd = tfd, network_fd = - 1, network_events = 0,
                   client = mosq, re_snapshot = zero_reactor_snapshot\<rparr>;
              (fixed, w) = register_fixed_fds efd wfd tfd w
          in if \<not> fixed then (GATEWAY_ERROR_SYSTEM, None, gateway_mqtt_reactor_destroy r w)
             else
               let (armed, w) = plain_call w;
                   (code, r, w) = (if armed then update_network_fd r w else (GATEWAY_ERROR_SYSTEM, r, w))
               in if code \<noteq> GATEWAY_OK then (GATEWAY_ERROR_SYSTEM, None, gateway_mqtt_reactor_destroy r w)
                  else (GATEWAY_OK, Some (bump (re_enabled_update (\<lambda>_. True)) r), w))"

definition gateway_mqtt_reactor_bind ::
    "nat option \<Rightarrow> gateway_mqtt_reactor \<Rightarrow> mqtt_world \<Rightarrow> gateway_error_code \<times> gateway_mqtt_reactor \<times> mqtt_world" where
  "gateway_mqtt_reactor_bind mosq r w =
     (let (r, w) = remove_network_fd r w in update_network_fd (r\<lparr>client := mosq\<rparr>) w)"

definition gateway_mqtt_reactor_notify ::
    "gateway_mqtt_reactor \<Rightarrow> mqtt_world \<Rightarrow> gateway_error_code \<times> gateway_mqtt_reactor \<times> mqtt_world" where
  "gateway_mqtt_reactor_notify r w =
     (let (result, w) = transfer w in
      case result of
        Io_again \<Rightarrow> (GATEWAY_OK, r, w)
      | Io_value _ \<Rightarrow> (GATEWAY_OK, bump (re_wake_notifications_update (\<lambda>n. n + 1)) r, w)
      | _ \<Rightarrow> (GATEWAY_ERROR_SYSTEM, r, w))"

text \<open>The events of one wait, until one of them fails.\<close>

fun handle_events ::
    "(u32 \<times> u32) list \<Rightarrow> int \<Rightarrow> gateway_mqtt_reactor \<Rightarrow> mqtt_world \<Rightarrow>
       gateway_error_code \<times> int \<times> gateway_mqtt_reactor \<times> mqtt_world" where
  "handle_events [] mosquitto_code r w = (GATEWAY_OK, mosquitto_code, r, w)"
| "handle_events ((tag, events) # rest) mosquitto_code r w =
     (let (code, mosquitto_code, r, w) =
        (if tag = REACTOR_TAG_WAKE then let (code, r, w) = drain_wake_fd r w in (code, mosquitto_code, r, w)
         else if tag = REACTOR_TAG_TIMER then process_timer mosquitto_code r w
         else if tag = REACTOR_TAG_MQTT then process_socket events mosquitto_code r w
         else (GATEWAY_OK, mosquitto_code, r, w))
      in if code \<noteq> GATEWAY_OK then (code, mosquitto_code, r, w) else handle_events rest mosquitto_code r w)"

definition gateway_mqtt_reactor_step ::
    "int \<Rightarrow> gateway_mqtt_reactor \<Rightarrow> mqtt_world \<Rightarrow>
       gateway_error_code \<times> int \<times> gateway_mqtt_reactor \<times> mqtt_world" where
  "gateway_mqtt_reactor_step timeout_ms r w =
     (if timeout_ms < - 1 then (GATEWAY_ERROR_ARGUMENT, MOSQ_ERR_SUCCESS, r, w)
      else let (code, r, w) = update_network_fd r w in
        if code \<noteq> GATEWAY_OK then (GATEWAY_ERROR_SYSTEM, MOSQ_ERR_SUCCESS, r, w)
        else
          let r = bump (re_epoll_waits_update (\<lambda>n. n + 1)) r; (result, w) = epoll_wait w in
          case result of
            Epoll_interrupted \<Rightarrow> (GATEWAY_OK, MOSQ_ERR_SUCCESS, r, w)
          | Epoll_failed \<Rightarrow> (GATEWAY_ERROR_SYSTEM, MOSQ_ERR_SUCCESS, r, w)
          | Epoll_events events \<Rightarrow>
              let (code, mosquitto_code, r, w) =
                    handle_events (take REACTOR_EVENT_CAPACITY events) MOSQ_ERR_SUCCESS r w;
                  (updated, r, w) = update_network_fd r w
              in (if code \<noteq> GATEWAY_OK then code else updated, mosquitto_code, r, w))"

definition gateway_mqtt_reactor_read :: "gateway_mqtt_reactor \<Rightarrow> gateway_mqtt_reactor_snapshot" where
  "gateway_mqtt_reactor_read r = re_snapshot r"


subsection \<open>Invariants\<close>

text \<open>What epoll watches for the library is what the reactor believes, and what it reports.\<close>

definition registered :: "gateway_mqtt_reactor \<Rightarrow> mqtt_world \<Rightarrow> bool" where
  "registered r w \<longleftrightarrow> re_network_fd (re_snapshot r) = network_fd r \<and> - 1 \<le> network_fd r \<and>
     (network_fd r \<ge> 0 \<longrightarrow> interest w (network_fd r) = Some (network_events r))"

text \<open>What a reactor call may do: the client, the descriptors and the clock stay; the library ran callbacks of
  the bound client only.\<close>

definition reacts ::
    "gateway_mqtt_reactor \<times> mqtt_world \<Rightarrow> gateway_mqtt_reactor \<times> mqtt_world \<Rightarrow> bool" where
  "reacts a b = (case (a, b) of ((r, w), (r', w')) \<Rightarrow>
     client r' = client r \<and> epoll_fd r' = epoll_fd r \<and> wake_fd r' = wake_fd r \<and> timer_fd r' = timer_fd r \<and>
     open_fds w' = open_fds w \<and> next_client w' = next_client w \<and> clock_answers w' = clock_answers w \<and>
     (\<exists>ds. delivered w' = delivered w @ ds \<and> history w' = history w @ map (Callback_run (the (client r))) ds \<and>
        (client r = None \<longrightarrow> ds = [])) \<and>
     (registered r w \<longrightarrow> registered r' w'))"

lemma reacts_refl: "reacts a a"
  by (cases a) (simp add: reacts_def)

lemma reacts_trans: "reacts a b \<Longrightarrow> reacts b c \<Longrightarrow> reacts a c"
  by (cases a; cases b; cases c) (auto simp: reacts_def; metis append.assoc map_append)

lemma reacts_same:
  assumes "client r' = client r" "epoll_fd r' = epoll_fd r" "wake_fd r' = wake_fd r" "timer_fd r' = timer_fd r"
    "network_fd r' = network_fd r" "network_events r' = network_events r"
    "re_network_fd (re_snapshot r') = re_network_fd (re_snapshot r)"
    "open_fds w' = open_fds w" "next_client w' = next_client w" "clock_answers w' = clock_answers w"
    "delivered w' = delivered w" "history w' = history w" "interest w' = interest w"
  shows "reacts (r, w) (r', w')"
  using assms by (simp add: reacts_def registered_def)

lemma next_answer_cases: "next_answer d xs = (a, ys) \<Longrightarrow> xs = [] \<and> a = d \<and> ys = [] \<or> xs = a # ys"
  by (cases xs) auto

lemma reacts_lib_call:
  assumes "lib_call c w = (a, w')" and "client r = Some c"
  shows "reacts (r, w) (r, w')"
  using assms by (auto simp: lib_call_with_def Let_def reacts_def registered_def split: prod.split_asm)

lemma reacts_remove: "reacts (r, w) (remove_network_fd r w)"
  by (auto simp: remove_network_fd_def reacts_def registered_def epoll_ctl_def Let_def split: prod.split)

lemma reacts_socket: "mosquitto_socket w = (a, w') \<Longrightarrow> reacts (r, w) (r, w')"
  "mosquitto_want_write w = (b, w') \<Longrightarrow> reacts (r, w) (r, w')"
  "plain_call w = (b, w') \<Longrightarrow> reacts (r, w) (r, w')"
  "epoll_wait w = (e, w') \<Longrightarrow> reacts (r, w) (r, w')"
  "transfer w = (i, w') \<Longrightarrow> reacts (r, w) (r, w')"
  by (auto simp: mosquitto_socket_def mosquitto_want_write_def plain_call_def epoll_wait_def transfer_def Let_def
      intro!: reacts_same split: prod.split_asm)

lemma reacts_update:
  assumes "update_network_fd r w = (code, r', w')"
  shows "reacts (r, w) (r', w')"
    and "code = GATEWAY_OK \<Longrightarrow> registered r w \<Longrightarrow> registered r' w'"
proof -
  obtain fd w1 where fd: "(case client r of None \<Rightarrow> (- 1, w) | Some _ \<Rightarrow> mosquitto_socket w) = (fd, w1)" by (metis surj_pair)
  then have w1: "reacts (r, w) (r, w1)" using reacts_socket(1) reacts_refl by (auto split: option.split_asm)
  obtain want w2 where want: "mosquitto_want_write w1 = (want, w2)" by (metis surj_pair)
  let ?ev = "EPOLLIN OR EPOLLERR OR EPOLLHUP OR EPOLLRDHUP"
  define events where "events = (if want then ?ev OR EPOLLOUT else ?ev)"
  show "reacts (r, w) (r', w')"
  proof (cases "fd < 0")
    case True
    then have "(r', w') = remove_network_fd r w1" using assms fd by (simp add: update_network_fd_def)
    then show ?thesis using reacts_trans [OF w1 reacts_remove] by simp
  next
    case False
    have w2: "reacts (r, w) (r, w2)" using reacts_trans [OF w1 reacts_socket(2) [OF want]] .
    show ?thesis
    proof (cases "fd = network_fd r \<and> events = network_events r")
      case True
      then have "r' = r" "w' = w2" using assms fd want False by (auto simp: update_network_fd_def events_def)
      then show ?thesis using w2 by simp
    next
      case changed: False
      define op where "op = (if fd \<noteq> network_fd r then EPOLL_CTL_ADD else EPOLL_CTL_MOD)"
      obtain r3 w3 where r3: "(if fd \<noteq> network_fd r then remove_network_fd r w2 else (r, w2)) = (r3, w3)"
        by (metis surj_pair)
      obtain ok w4 where ok: "epoll_ctl op fd events w3 = (ok, w4)" by (metis surj_pair)
      have r3': "reacts (r, w) (r3, w3)"
        using r3 w2 reacts_trans [OF w2 reacts_remove] by (auto split: if_split_asm)
      have result: "(r', w') = (if \<not> ok then remove_network_fd r3 w4
          else (bump (re_network_fd_update (\<lambda>_. fd)) (r3\<lparr>network_fd := fd, network_events := events\<rparr>), w4))"
        using assms fd want False changed r3 ok
        by (auto simp: update_network_fd_def events_def op_def Let_def split: if_split_asm)
      show ?thesis
      proof (cases ok)
        case True
        have "reacts (r3, w3) (bump (re_network_fd_update (\<lambda>_. fd)) (r3\<lparr>network_fd := fd, network_events := events\<rparr>), w4)"
          using ok True False by (auto simp: epoll_ctl_def Let_def reacts_def registered_def op_def split: prod.split_asm)
        then show ?thesis using result True reacts_trans [OF r3'] by simp
      next
        case failed: False
        then have "reacts (r3, w3) (r3, w4)"
          using ok by (auto simp: epoll_ctl_def Let_def intro!: reacts_same split: prod.split_asm)
        then show ?thesis using result failed reacts_trans [OF r3'] reacts_trans reacts_remove by (metis (full_types))
      qed
    qed
  qed
  then show "code = GATEWAY_OK \<Longrightarrow> registered r w \<Longrightarrow> registered r' w'" by (simp add: reacts_def)
qed

lemma reacts_drain: "drain_wake_fd r w = (code, r', w') \<Longrightarrow> reacts (r, w) (r', w')"
  by (auto simp: drain_wake_fd_def Let_def intro!: reacts_same split: prod.split_asm)

lemma reacts_bump:
  assumes "re_network_fd (f (re_snapshot r)) = re_network_fd (re_snapshot r)"
  shows "reacts (r, w) (bump f r, w)"
  using assms by (intro reacts_same) simp_all

lemma reacts_timer:
  assumes "process_timer mc r w = (code, mc', r', w')"
  shows "reacts (r, w) (r', w')"
proof -
  obtain i w1 where i: "transfer w = (i, w1)" by (metis surj_pair)
  note w1 = reacts_socket(5) [OF i, of r]
  show ?thesis
  proof (cases "\<exists>n. i = Io_value n \<and> client r \<noteq> None \<and> network_fd r \<ge> 0")
    case False
    then have "w' = w1 \<and> (r' = r \<or> (\<exists>n. r' = bump (re_timer_expirations_update (\<lambda>m. m + n)) r))"
      using assms i by (auto simp: process_timer_def Let_def split: io_outcome.split_asm if_split_asm prod.split_asm)
    then show ?thesis using w1 reacts_trans [OF w1 reacts_bump] by auto
  next
    case True
    then obtain n c where n: "i = Io_value n" "client r = Some c" "network_fd r \<ge> 0" by auto
    obtain a w2 where a: "lib_call c w1 = (a, w2)" by (metis surj_pair)
    have "w' = w2" "r' = bump (re_loop_misc_calls_update (\<lambda>m. m + 1)) (bump (re_timer_expirations_update (\<lambda>m. m + n)) r)"
      using assms i n a by (auto simp: process_timer_def Let_def)
    then have "reacts (r, w2) (r', w')" by (intro reacts_same) simp_all
    then show ?thesis using reacts_trans [OF reacts_trans [OF w1 reacts_lib_call [OF a n(2)]]] by blast
  qed
qed

lemma reacts_socket_events:
  assumes "process_socket events mc r w = (code, mc', r', w')"
  shows "reacts (r, w) (r', w')"
proof (cases "client r = None \<or> network_fd r < 0")
  case True
  then show ?thesis using assms reacts_refl by (simp add: process_socket_def)
next
  case False
  then obtain c where c: "client r = Some c" by auto
  define r1 where "r1 = bump (re_socket_events_update (\<lambda>n. n + 1)) r"
  obtain writing w1 where want: "(if events AND EPOLLOUT \<noteq> 0 then mosquitto_want_write w else (False, w)) = (writing, w1)"
    by (metis surj_pair)
  have w1: "reacts (r, w) (r, w1)" using want reacts_socket(2) reacts_refl by (auto split: if_split_asm)
  define r2 where "r2 = (if writing then bump (re_loop_write_calls_update (\<lambda>n. n + 1)) r1 else r1)"
  obtain a w2 where wr: "lib_call c w1 = (a, w2)" by (metis surj_pair)
  obtain b w3 where rd: "lib_call c (if writing then w2 else w1) = (b, w3)" by (metis surj_pair)
  define ww where "ww = (if writing then w2 else w1)"
  have "reacts (r, w) (r, ww)" using w1 reacts_trans [OF w1 reacts_lib_call [OF wr c]] by (simp add: ww_def)
  moreover have "reacts (r, ww) (r, w3)" using reacts_lib_call [OF rd c] by (simp add: ww_def)
  moreover have "w' = ww \<or> w' = w3"
    using assms False c want wr rd by (auto simp: process_socket_def Let_def ww_def split: if_split_asm)
  ultimately have w': "reacts (r, w) (r, w')" using reacts_trans by metis
  have "r' = r2 \<or> r' = bump (re_loop_read_calls_update (\<lambda>n. n + 1)) r2"
    using assms False c want wr rd
    by (auto simp: process_socket_def Let_def r1_def r2_def split: if_split_asm)
  then have "reacts (r, w') (r', w')" by (intro reacts_same; auto simp: r2_def r1_def)
  then show ?thesis using reacts_trans [OF w'] by blast
qed

lemma reacts_events: "handle_events evs mc r w = (code, mc', r', w') \<Longrightarrow> reacts (r, w) (r', w')"
proof (induction evs mc r w arbitrary: code mc' r' w' rule: handle_events.induct)
  case (1 mc r w)
  then show ?case by (simp add: reacts_refl)
next
  case (2 tag events rest mc r w)
  obtain code1 mc1 r1 w1 where one:
    "(if tag = REACTOR_TAG_WAKE then let (code, r, w) = drain_wake_fd r w in (code, mc, r, w)
      else if tag = REACTOR_TAG_TIMER then process_timer mc r w
      else if tag = REACTOR_TAG_MQTT then process_socket events mc r w else (GATEWAY_OK, mc, r, w)) = (code1, mc1, r1, w1)"
    by (metis prod_cases4)
  then have step: "reacts (r, w) (r1, w1)"
    using reacts_drain reacts_timer reacts_socket_events reacts_refl
    by (auto split: if_split_asm prod.split_asm)
  show ?case
  proof (cases "code1 = GATEWAY_OK")
    case True
    then have "handle_events rest mc1 r1 w1 = (code, mc', r', w')" using 2(2) one by simp
    then show ?thesis using 2(1) [OF one [symmetric] refl refl refl] True reacts_trans [OF step] by simp
  next
    case False
    then show ?thesis using 2(2) one step by simp
  qed
qed

lemma reacts_step:
  assumes "gateway_mqtt_reactor_step timeout_ms r w = (code, mc, r', w')"
  shows "reacts (r, w) (r', w')"
proof (cases "timeout_ms < - 1")
  case True
  then show ?thesis using assms reacts_refl by (simp add: gateway_mqtt_reactor_step_def)
next
  case False
  obtain code1 r1 w1 where u: "update_network_fd r w = (code1, r1, w1)" by (metis prod_cases3)
  note step1 = reacts_update(1) [OF u]
  show ?thesis
  proof (cases "code1 = GATEWAY_OK")
    case False
    then show ?thesis using assms u step1 \<open>\<not> timeout_ms < - 1\<close> by (simp add: gateway_mqtt_reactor_step_def)
  next
    case True
    define r2 where "r2 = bump (re_epoll_waits_update (\<lambda>n. n + 1)) r1"
    obtain e w2 where e: "epoll_wait w1 = (e, w2)" by (metis surj_pair)
    have "reacts (r1, w1) (r2, w1)" by (rule reacts_same) (simp_all add: r2_def)
    then have step2: "reacts (r, w) (r2, w2)"
      using reacts_trans [OF reacts_trans [OF step1] reacts_socket(4) [OF e]] by blast
    show ?thesis
    proof (cases e)
      case (Epoll_events evs)
      obtain code3 mc3 r3 w3 where h: "handle_events (take REACTOR_EVENT_CAPACITY evs) MOSQ_ERR_SUCCESS r2 w2 =
          (code3, mc3, r3, w3)" by (metis prod_cases4)
      obtain code4 r4 w4 where u4: "update_network_fd r3 w3 = (code4, r4, w4)" by (metis prod_cases3)
      have "r' = r4" "w' = w4"
        using assms False u True e Epoll_events h u4
        by (simp_all add: gateway_mqtt_reactor_step_def r2_def [symmetric])
      then show ?thesis
        using reacts_trans [OF reacts_trans [OF step2 reacts_events [OF h]] reacts_update(1) [OF u4]] by simp
    qed (use assms False u True e step2 in \<open>simp_all add: gateway_mqtt_reactor_step_def r2_def [symmetric]\<close>)
  qed
qed

lemma reacts_notify:
  assumes "gateway_mqtt_reactor_notify r w = (code, r', w')"
  shows "reacts (r, w) (r', w')"
proof -
  obtain i w1 where i: "transfer w = (i, w1)" by (metis surj_pair)
  have "w' = w1 \<and> (r' = r \<or> r' = bump (re_wake_notifications_update (\<lambda>n. n + 1)) r)"
    using assms i by (auto simp: gateway_mqtt_reactor_notify_def Let_def split: io_outcome.split_asm)
  then show ?thesis using reacts_trans [OF reacts_socket(5) [OF i] reacts_bump] reacts_socket(5) [OF i] by auto
qed

lemma reacts_bind:
  assumes "gateway_mqtt_reactor_bind c r w = (code, r', w')"
  shows "reacts (r\<lparr>client := c\<rparr>, w) (r', w')"
proof -
  obtain r1 w1 where rm: "remove_network_fd r w = (r1, w1)" by (metis surj_pair)
  then have "remove_network_fd (r\<lparr>client := c\<rparr>) w = (r1\<lparr>client := c\<rparr>, w1)"
    by (auto simp: remove_network_fd_def Let_def)
  then have "reacts (r\<lparr>client := c\<rparr>, w) (r1\<lparr>client := c\<rparr>, w1)" by (metis reacts_remove)
  moreover have "update_network_fd (r1\<lparr>client := c\<rparr>) w1 = (code, r', w')"
    using assms rm by (simp add: gateway_mqtt_reactor_bind_def)
  ultimately show ?thesis using reacts_trans reacts_update(1) by blast
qed

subsection \<open>Descriptors\<close>

lemma destroy_closes:
  "open_fds (gateway_mqtt_reactor_destroy r w) = open_fds (close_fd (epoll_fd r) (close_fd (wake_fd r) (close_fd (timer_fd r) w)))"
proof -
  obtain r1 w1 where rm: "remove_network_fd r w = (r1, w1)" by (metis surj_pair)
  then have "open_fds w1 = open_fds w" "epoll_fd r1 = epoll_fd r" "wake_fd r1 = wake_fd r" "timer_fd r1 = timer_fd r"
    using reacts_remove [of r w] by (simp_all add: reacts_def)
  then show ?thesis using rm by (simp add: gateway_mqtt_reactor_destroy_def close_fd_def)
qed

lemma open_fd_result: "open_fd w = (fd, w') \<Longrightarrow> - 1 \<le> fd \<and> open_fds w' = (if fd < 0 then open_fds w else fd # open_fds w)"
  by (auto simp: open_fd_def Let_def split: prod.split_asm if_split_asm)

lemma close_three:
  assumes "open_fds w' = (if tfd < 0 then id else Cons tfd) ((if wfd < 0 then id else Cons wfd)
      ((if efd < 0 then id else Cons efd) (open_fds w)))"
  shows "open_fds (close_fd efd (close_fd wfd (close_fd tfd w'))) = open_fds w"
  using assms by (auto simp: close_fd_def)

definition owns :: "gateway_mqtt_reactor \<Rightarrow> int list \<Rightarrow> mqtt_world \<Rightarrow> bool" where
  "owns r fds w \<longleftrightarrow> open_fds w = (if timer_fd r < 0 then id else Cons (timer_fd r))
     ((if wake_fd r < 0 then id else Cons (wake_fd r)) ((if epoll_fd r < 0 then id else Cons (epoll_fd r)) fds))"

lemma owns_destroy: "owns r (open_fds w0) w \<Longrightarrow> open_fds (gateway_mqtt_reactor_destroy r w) = open_fds w0"
  unfolding destroy_closes by (rule close_three) (simp add: owns_def)

lemma owns_reacts: "reacts (r, w) (r', w') \<Longrightarrow> owns r fds w \<Longrightarrow> owns r' fds w'"
  by (simp add: reacts_def owns_def)

lemma add_fixed_frame:
  assumes "add_fixed_fd fd w = (code, w')" and "network_fd r = - 1"
  shows "reacts (r, w) (r, w')"
  using assms by (auto simp: add_fixed_fd_def epoll_ctl_def Let_def reacts_def registered_def split: prod.split_asm)

lemma open_fd_frame: "open_fd w = (fd, w') \<Longrightarrow> delivered w' = delivered w \<and> history w' = history w \<and>
    next_client w' = next_client w \<and> clock_answers w' = clock_answers w"
  by (auto simp: open_fd_def Let_def split: prod.split_asm if_split_asm)

lemma destroy_reacts: "\<exists>r' w'. reacts (r, w) (r', w') \<and> gateway_mqtt_reactor_destroy r w =
    close_fd (epoll_fd r') (close_fd (wake_fd r') (close_fd (timer_fd r') w'))"
  using reacts_remove [of r w] by (cases "remove_network_fd r w") (auto simp: gateway_mqtt_reactor_destroy_def)

definition runs_callbacks :: "nat option \<Rightarrow> mqtt_world \<Rightarrow> mqtt_world \<Rightarrow> bool" where
  "runs_callbacks mosq w w' \<longleftrightarrow> next_client w' = next_client w \<and> clock_answers w' = clock_answers w \<and>
     (\<exists>ds. delivered w' = delivered w @ ds \<and> history w' = history w @ map (Callback_run (the mosq)) ds \<and>
        (mosq = None \<longrightarrow> ds = []))"

lemma reacts_runs: "reacts (r, w) (r', w') \<Longrightarrow> runs_callbacks (client r) w w'"
  by (auto simp: reacts_def runs_callbacks_def)

lemma runs_refl: "runs_callbacks c w w"
  by (simp add: runs_callbacks_def)

lemma runs_trans: "runs_callbacks c w1 w2 \<Longrightarrow> runs_callbacks c w2 w3 \<Longrightarrow> runs_callbacks c w1 w3"
  by (auto simp: runs_callbacks_def; metis append.assoc map_append)

lemma runs_close: "runs_callbacks c w (close_fd fd w)"
  by (simp add: runs_callbacks_def close_fd_def)

lemma runs_destroy: "runs_callbacks (client r) w (gateway_mqtt_reactor_destroy r w)"
  using destroy_reacts [of r w] runs_trans runs_close reacts_runs by metis

lemma create_result:
  assumes "gateway_mqtt_reactor_create mosq ms w = (code, res, w')"
  shows "runs_callbacks mosq w w' \<and> (case res of
      None \<Rightarrow> code \<noteq> GATEWAY_OK \<and> open_fds w' = open_fds w
    | Some r \<Rightarrow> code = GATEWAY_OK \<and> client r = mosq \<and> registered r w' \<and> owns r (open_fds w) w')"
proof -
  obtain allocated w0 where al: "plain_call w = (allocated, w0)" by (metis surj_pair)
  have w0: "open_fds w0 = open_fds w" "runs_callbacks mosq w w0"
    using al by (auto simp: plain_call_def Let_def runs_callbacks_def split: prod.split_asm)
  show ?thesis
  proof (cases "ms = 0 \<or> \<not> allocated")
    case True
    then have "res = None \<and> code \<noteq> GATEWAY_OK \<and> (w' = w \<or> w' = w0)"
      using assms al by (auto simp: gateway_mqtt_reactor_create_def split: if_split_asm)
    then show ?thesis using w0 runs_refl by auto
  next
    case go: False
    obtain efd w1 where e: "open_fd w0 = (efd, w1)" by (metis surj_pair)
    obtain wfd w2 where wk: "open_fd w1 = (wfd, w2)" by (metis surj_pair)
    obtain tfd w3 where t: "open_fd w2 = (tfd, w3)" by (metis surj_pair)
    define r where "r = \<lparr>epoll_fd = efd, wake_fd = wfd, timer_fd = tfd, network_fd = - 1, network_events = 0,
        client = mosq, re_snapshot = zero_reactor_snapshot\<rparr>"
    have r: "network_fd r = - 1" "client r = mosq" "registered r v" for v
      by (simp_all add: r_def registered_def zero_reactor_snapshot_def)
    have own3: "owns r (open_fds w) w3"
      using open_fd_result [OF e] open_fd_result [OF wk] open_fd_result [OF t] w0 by (simp add: owns_def r_def)
    have "runs_callbacks mosq w0 w3"
      using open_fd_frame [OF e] open_fd_frame [OF wk] open_fd_frame [OF t] by (auto simp: runs_callbacks_def)
    then have runs3: "runs_callbacks mosq w w3" using runs_trans [OF w0(2)] by blast
    obtain c4 w4 where a4: "add_fixed_fd wfd w3 = (c4, w4)" by (metis surj_pair)
    obtain c5 w5 where a5: "add_fixed_fd tfd w4 = (c5, w5)" by (metis surj_pair)
    have s4: "reacts (r, w3) (r, w4)" "reacts (r, w3) (r, w5)"
      using add_fixed_frame [OF a4 r(1)] reacts_trans add_fixed_frame [OF a5 r(1)] by blast+
    obtain fixed w6 where fixed: "register_fixed_fds efd wfd tfd w3 = (fixed, w6)" by (metis surj_pair)
    then have s6: "reacts (r, w3) (r, w6)"
      using s4 reacts_refl a4 a5 by (auto simp: register_fixed_fds_def split: if_split_asm)
    note own6 = owns_reacts [OF s6 own3]
    have runs6: "runs_callbacks mosq w w6" using runs_trans [OF runs3] reacts_runs [OF s6] r(2) by simp
    show ?thesis
    proof (cases fixed)
      case False
      then have "res = None" "code \<noteq> GATEWAY_OK" "w' = gateway_mqtt_reactor_destroy r w6"
        using assms al go e wk t fixed by (simp_all add: gateway_mqtt_reactor_create_def r_def)
      then show ?thesis using owns_destroy [OF own6] runs_trans [OF runs6] runs_destroy [of r w6] r(2) by simp
    next
      case True
      obtain armed w7 where arm: "plain_call w6 = (armed, w7)" by (metis surj_pair)
      obtain c8 r8 w8 where u: "(if armed then update_network_fd r w7 else (GATEWAY_ERROR_SYSTEM, r, w7)) = (c8, r8, w8)"
        by (metis prod_cases3)
      have s8: "reacts (r, w6) (r8, w8)"
        using reacts_socket(3) [OF arm, of r] u reacts_trans reacts_update(1) by (auto split: if_split_asm)
      note own8 = owns_reacts [OF s8 own6]
      have runs8: "runs_callbacks mosq w w8" using runs_trans [OF runs6] reacts_runs [OF s8] r(2) by simp
      have reg8: "registered r8 w8" "client r8 = mosq" using s8 r by (auto simp: reacts_def)
      have result: "(code, res, w') = (if c8 \<noteq> GATEWAY_OK then (GATEWAY_ERROR_SYSTEM, None, gateway_mqtt_reactor_destroy r8 w8)
          else (GATEWAY_OK, Some (bump (re_enabled_update (\<lambda>_. True)) r8), w8))"
        using assms al go e wk t fixed True arm u [unfolded r_def] by (simp add: gateway_mqtt_reactor_create_def Let_def)
      show ?thesis
      proof (cases "c8 = GATEWAY_OK")
        case True
        then show ?thesis using result own8 runs8 reg8 by (simp add: owns_def registered_def)
      next
        case False
        then show ?thesis
          using result owns_destroy [OF own8] runs_trans [OF runs8] runs_destroy [of r8 w8] reg8(2) by simp
      qed
    qed
  qed
qed

subsection \<open>Runs\<close>

datatype reactor_op = Bind "nat option" | Notify | Wait int

fun reactor_op_step :: "reactor_op \<Rightarrow> gateway_mqtt_reactor \<times> mqtt_world \<Rightarrow> gateway_mqtt_reactor \<times> mqtt_world" where
  "reactor_op_step (Bind c) (r, w) = snd (gateway_mqtt_reactor_bind c r w)"
| "reactor_op_step Notify (r, w) = snd (gateway_mqtt_reactor_notify r w)"
| "reactor_op_step (Wait timeout_ms) (r, w) = snd (snd (gateway_mqtt_reactor_step timeout_ms r w))"

definition reactor_run :: "reactor_op list \<Rightarrow> gateway_mqtt_reactor \<times> mqtt_world \<Rightarrow> gateway_mqtt_reactor \<times> mqtt_world" where
  "reactor_run ops rw = fold reactor_op_step ops rw"

lemma op_step_keeps:
  assumes "reactor_op_step op (r, w) = (r', w')" and "registered r w" and "owns r fds w"
  shows "registered r' w' \<and> owns r' fds w'"
proof -
  have same: "registered (r\<lparr>client := c\<rparr>) w" "owns (r\<lparr>client := c\<rparr>) fds w" for c
    using assms(2,3) by (simp_all add: registered_def owns_def)
  have keep: "registered r' w' \<and> owns r' fds w'" if "reacts (q, w) (r', w')" "registered q w" "owns q fds w" for q
    using that owns_reacts [OF that(1,3)] by (simp add: reacts_def)
  show ?thesis
  proof (cases op)
    case (Bind c)
    then show ?thesis
      using assms(1) keep [OF reacts_bind same] by (cases "gateway_mqtt_reactor_bind c r w") auto
  next
    case Notify
    then show ?thesis
      using assms keep [OF reacts_notify] by (cases "gateway_mqtt_reactor_notify r w") auto
  next
    case (Wait timeout_ms)
    then show ?thesis
      using assms keep [OF reacts_step] by (cases "gateway_mqtt_reactor_step timeout_ms r w") auto
  qed
qed

lemma run_keeps:
  assumes "registered r w" and "owns r fds w" and "reactor_run ops (r, w) = (r', w')"
  shows "registered r' w' \<and> owns r' fds w'"
  using assms
proof (induction ops arbitrary: r w)
  case Nil
  then show ?case by (simp add: reactor_run_def)
next
  case (Cons op ops)
  obtain r1 w1 where s: "reactor_op_step op (r, w) = (r1, w1)" by (metis surj_pair)
  then have "reactor_run ops (r1, w1) = (r', w')" using Cons.prems(3) by (simp add: reactor_run_def)
  then show ?case using Cons.IH op_step_keeps [OF s Cons.prems(1,2)] by blast
qed

subsection \<open>Properties\<close>

definition quiet_world :: mqtt_world where
  "quiet_world = \<lparr>socket_answers = [], want_answers = [], ctl_answers = [], io_answers = [], epoll_answers = [],
     lib_answers = [], clock_answers = [], call_answers = [], fd_answers = [10, 11, 12], interest = (\<lambda>_. None),
     open_fds = [], next_client = 0, delivered = [], history = []\<rparr>"

text \<open>C31: The reactor's descriptors. Whatever the kernel and the library answer: a creation that fails has closed
  every descriptor it had opened. After one that succeeds and any sequence of bindings, notifications and waits,
  the socket that epoll watches, with the events it watches for, is the one the reactor holds and reports, and
  destroying the reactor closes exactly the descriptors that its creation opened.\<close>

theorem reactor_descriptors:
  assumes "gateway_mqtt_reactor_create mosq ms w = (code, res, w')"
  shows "case res of
      None \<Rightarrow> code \<noteq> GATEWAY_OK \<and> open_fds w' = open_fds w
    | Some r \<Rightarrow> code = GATEWAY_OK \<and> (let (r', v) = reactor_run ops (r, w') in
        re_network_fd (gateway_mqtt_reactor_read r') = network_fd r' \<and>
        (network_fd r' \<ge> 0 \<longrightarrow> interest v (network_fd r') = Some (network_events r')) \<and>
        open_fds (gateway_mqtt_reactor_destroy r' v) = open_fds w)"
proof (cases res)
  case None
  then show ?thesis using create_result [OF assms] by simp
next
  case (Some r)
  obtain r' v where run: "reactor_run ops (r, w') = (r', v)" by (metis surj_pair)
  have r: "code = GATEWAY_OK" "registered r w'" "owns r (open_fds w) w'"
    using create_result [OF assms] Some by simp_all
  have k: "registered r' v" "owns r' (open_fds w) v" using run_keeps [OF r(2,3) run] by simp_all
  show ?thesis
    using Some run r(1) k(1) owns_destroy [OF k(2)] by (simp add: registered_def gateway_mqtt_reactor_read_def)
qed

lemma reactor_descriptors_witness:
  "\<exists>r w'. gateway_mqtt_reactor_create (Some 0) 1000 quiet_world = (GATEWAY_OK, Some r, w') \<and>
     (let (r', v) = reactor_run [Notify, Wait 50, Bind None] (r, w') in
        open_fds (gateway_mqtt_reactor_destroy r' v) = [])"
proof -
  obtain code res w' where c: "gateway_mqtt_reactor_create (Some 0) 1000 quiet_world = (code, res, w')"
    by (metis prod_cases3)
  then have "code = GATEWAY_OK \<and> (\<exists>r. res = Some r)"
    by (auto simp: register_fixed_fds_def gateway_mqtt_reactor_create_def quiet_world_def plain_call_def open_fd_def add_fixed_fd_def
        epoll_ctl_def update_network_fd_def mosquitto_socket_def remove_network_fd_def Let_def split: prod.split_asm)
  moreover have "open_fds quiet_world = []" by (simp add: quiet_world_def)
  ultimately show ?thesis using reactor_descriptors [OF c, of "[Notify, Wait 50, Bind None]"] c by (auto simp: Let_def)
qed

end
