(* ===== verification/Gw_Log.thy ===== *)
theory Gw_Log
  imports C_Text
begin

text \<open>
  The logger, \<open>gateway/src/log.c\<close>: levels, the threshold, and the line a call writes. A log call is
  one critical section under the logger's mutex, so that the stream is the sequence of the lines.
  The message is passed already formatted, and the calendar time that \<open>gmtime_r\<close> computes is an input.
\<close>

subsection \<open>Levels\<close>

datatype gateway_log_level =
    GATEWAY_LOG_DEBUG
  | GATEWAY_LOG_INFO
  | GATEWAY_LOG_WARN
  | GATEWAY_LOG_ERROR

fun log_level_rank :: "gateway_log_level \<Rightarrow> nat" where
  "log_level_rank GATEWAY_LOG_DEBUG = 0"
| "log_level_rank GATEWAY_LOG_INFO = 1"
| "log_level_rank GATEWAY_LOG_WARN = 2"
| "log_level_rank GATEWAY_LOG_ERROR = 3"

text \<open>The enumeration is ordered by its values, as in C.\<close>

instantiation gateway_log_level :: linorder
begin

definition less_eq_gateway_log_level :: "gateway_log_level \<Rightarrow> gateway_log_level \<Rightarrow> bool" where
  "less_eq_gateway_log_level a b \<longleftrightarrow> log_level_rank a \<le> log_level_rank b"

definition less_gateway_log_level :: "gateway_log_level \<Rightarrow> gateway_log_level \<Rightarrow> bool" where
  "less_gateway_log_level a b \<longleftrightarrow> log_level_rank a < log_level_rank b"

instance
proof
  fix a b :: gateway_log_level
  show "a \<le> b \<Longrightarrow> b \<le> a \<Longrightarrow> a = b"
    by (cases a; cases b) (simp_all add: less_eq_gateway_log_level_def)
qed (auto simp: less_eq_gateway_log_level_def less_gateway_log_level_def)

end

definition gateway_log_level_parse :: "string \<Rightarrow> gateway_error_code + gateway_log_level" where
  "gateway_log_level_parse text =
     (if text = ''debug'' then Inr GATEWAY_LOG_DEBUG
      else if text = ''info'' then Inr GATEWAY_LOG_INFO
      else if text = ''warn'' then Inr GATEWAY_LOG_WARN
      else if text = ''error'' then Inr GATEWAY_LOG_ERROR
      else Inl GATEWAY_ERROR_INVALID_VALUE)"

fun gateway_log_level_name :: "gateway_log_level \<Rightarrow> string" where
  "gateway_log_level_name GATEWAY_LOG_DEBUG = ''DEBUG''"
| "gateway_log_level_name GATEWAY_LOG_INFO = ''INFO''"
| "gateway_log_level_name GATEWAY_LOG_WARN = ''WARN''"
| "gateway_log_level_name GATEWAY_LOG_ERROR = ''ERROR''"

subsection \<open>The logger\<close>

text \<open>\<open>stream\<close> is what has been written to the log stream.\<close>

record gateway_logger =
  stream :: string
  minimum_level :: gateway_log_level

text \<open>\<open>struct tm\<close> as far as it is printed.\<close>

record calendar_time =
  tm_year :: nat
  tm_mon :: nat
  tm_mday :: nat
  tm_hour :: nat
  tm_min :: nat
  tm_sec :: nat

text \<open>\<open>%0wd\<close>: at least \<open>w\<close> digits.\<close>

definition show_padded :: "nat \<Rightarrow> nat \<Rightarrow> string" where
  "show_padded w n = replicate (w - length (show_nat n)) CHR ''0'' @ show_nat n"

definition log_timestamp :: "(calendar_time \<times> nat) option \<Rightarrow> string" where
  "log_timestamp now = copy_string 32
     (case now of
        None \<Rightarrow> ''time-unavailable''
      | Some (utc, nsec) \<Rightarrow>
          show_padded 4 (tm_year utc + 1900) @ ''-'' @ show_padded 2 (tm_mon utc + 1) @ ''-'' @
          show_padded 2 (tm_mday utc) @ ''T'' @ show_padded 2 (tm_hour utc) @ '':'' @
          show_padded 2 (tm_min utc) @ '':'' @ show_padded 2 (tm_sec utc) @ ''.'' @
          show_padded 3 (nsec div 1000000) @ ''Z'')"

definition gateway_logger_init ::
    "bool \<Rightarrow> string option \<Rightarrow> gateway_log_level \<Rightarrow> bool \<Rightarrow> gateway_error_code + gateway_logger" where
  "gateway_logger_init logger_given out level mutex_created =
     (case out of
        None \<Rightarrow> Inl GATEWAY_ERROR_ARGUMENT
      | Some out \<Rightarrow>
          if \<not> logger_given then Inl GATEWAY_ERROR_ARGUMENT
          else if \<not> mutex_created then Inl GATEWAY_ERROR_SYSTEM
          else Inr \<lparr>stream = out, minimum_level = level\<rparr>)"

definition log_line :: "(calendar_time \<times> nat) option \<Rightarrow> gateway_log_level \<Rightarrow> string \<Rightarrow> string \<Rightarrow> string" where
  "log_line now level component message =
     ''['' @ log_timestamp now @ ''] '' @ gateway_log_level_name level @ '' '' @ component @ '': '' @
     message @ [newline]"

definition gateway_log ::
    "gateway_logger \<Rightarrow> (calendar_time \<times> nat) option \<Rightarrow> gateway_log_level \<Rightarrow> string \<Rightarrow> string \<Rightarrow> gateway_logger" where
  "gateway_log logger now level component message =
     (if level < minimum_level logger then logger
      else logger\<lparr>stream := stream logger @ log_line now level component message\<rparr>)"

subsection \<open>What the log holds\<close>

lemma level_name_parse:
  "gateway_log_level_parse text = Inr level \<longleftrightarrow>
     text = (case level of GATEWAY_LOG_DEBUG \<Rightarrow> ''debug'' | GATEWAY_LOG_INFO \<Rightarrow> ''info''
       | GATEWAY_LOG_WARN \<Rightarrow> ''warn'' | GATEWAY_LOG_ERROR \<Rightarrow> ''error'')"
  by (cases level) (auto simp: gateway_log_level_parse_def)

lemma level_at_least:
  "(level < GATEWAY_LOG_DEBUG) = False" "(GATEWAY_LOG_ERROR < level) = False"
  by (cases level; simp add: less_gateway_log_level_def)+

text \<open>A log call only ever appends, and an error is never suppressed.\<close>

lemma log_appends: "\<exists>line. stream (gateway_log logger now level component message) = stream logger @ line"
  by (simp add: gateway_log_def)

lemma log_error_written:
  "stream (gateway_log logger now GATEWAY_LOG_ERROR component message) =
     stream logger @ log_line now GATEWAY_LOG_ERROR component message"
  by (simp add: gateway_log_def level_at_least)

end
