(* ===== verification/Gw_Config.thy ===== *)
theory Gw_Config
  imports Gw_Log
begin

text \<open>
  The configuration, \<open>gateway/src/config.c\<close>: defaults, the \<open>key=value\<close> file, single assignments from the
  command line, the validation of the merged result, and the redacted log line. \<open>char\<close> arrays are
  strings, written through \<open>snprintf\<close> with the truncation of their size. Pointers that may
  be \<open>NULL\<close> are options.
\<close>

subsection \<open>Types and bounds\<close>

text \<open>The sizes and bounds of \<open>config.h\<close> and \<open>spool.h\<close>.\<close>

definition GATEWAY_DEVICE_ID_SIZE :: nat where
  "GATEWAY_DEVICE_ID_SIZE = 64"

definition GATEWAY_CAN_INTERFACE_SIZE :: nat where
  "GATEWAY_CAN_INTERFACE_SIZE = 16"

definition GATEWAY_BROKER_HOST_SIZE :: nat where
  "GATEWAY_BROKER_HOST_SIZE = 256"

definition GATEWAY_BROKER_USERNAME_SIZE :: nat where
  "GATEWAY_BROKER_USERNAME_SIZE = 128"

definition GATEWAY_BROKER_PASSWORD_SIZE :: nat where
  "GATEWAY_BROKER_PASSWORD_SIZE = 256"

definition GATEWAY_MQTT_TOPIC_SIZE :: nat where
  "GATEWAY_MQTT_TOPIC_SIZE = 256"

definition GATEWAY_CONFIG_SPOOL_PATH_SIZE :: nat where
  "GATEWAY_CONFIG_SPOOL_PATH_SIZE = 512"

definition GATEWAY_CONFIG_KEY_SIZE :: nat where
  "GATEWAY_CONFIG_KEY_SIZE = 32"

definition GATEWAY_CONFIG_MESSAGE_SIZE :: nat where
  "GATEWAY_CONFIG_MESSAGE_SIZE = 160"

definition GATEWAY_QUEUE_CAPACITY_MAX :: nat where
  "GATEWAY_QUEUE_CAPACITY_MAX = 65536"

definition GATEWAY_QUEUE_PUSH_TIMEOUT_MS_MAX :: nat where
  "GATEWAY_QUEUE_PUSH_TIMEOUT_MS_MAX = 60000"

definition GATEWAY_BATCH_INTERVAL_MS_MIN :: nat where
  "GATEWAY_BATCH_INTERVAL_MS_MIN = 100"

definition GATEWAY_BATCH_INTERVAL_MS_MAX :: nat where
  "GATEWAY_BATCH_INTERVAL_MS_MAX = 60000"

definition GATEWAY_MQTT_ACK_TIMEOUT_MS_MIN :: nat where
  "GATEWAY_MQTT_ACK_TIMEOUT_MS_MIN = 100"

definition GATEWAY_MQTT_ACK_TIMEOUT_MS_MAX :: nat where
  "GATEWAY_MQTT_ACK_TIMEOUT_MS_MAX = 60000"

definition GATEWAY_MQTT_RECONNECT_INTERVAL_MS_MIN :: nat where
  "GATEWAY_MQTT_RECONNECT_INTERVAL_MS_MIN = 100"

definition GATEWAY_MQTT_RECONNECT_INTERVAL_MS_MAX :: nat where
  "GATEWAY_MQTT_RECONNECT_INTERVAL_MS_MAX = 60000"

definition CONFIG_SPOOL_MAX_BYTES_MIN :: nat where
  "CONFIG_SPOOL_MAX_BYTES_MIN = 5242880"

definition CONFIG_SPOOL_MAX_BYTES_MAX :: nat where
  "CONFIG_SPOOL_MAX_BYTES_MAX = 68719476736"

definition CONFIG_SPOOL_SYNC_RECORDS_MAX :: nat where
  "CONFIG_SPOOL_SYNC_RECORDS_MAX = 65536"

definition CONFIG_LINE_SIZE :: nat where
  "CONFIG_LINE_SIZE = 2048"

lemmas config_bounds = GATEWAY_DEVICE_ID_SIZE_def GATEWAY_CAN_INTERFACE_SIZE_def
  GATEWAY_BROKER_HOST_SIZE_def GATEWAY_BROKER_USERNAME_SIZE_def GATEWAY_BROKER_PASSWORD_SIZE_def
  GATEWAY_MQTT_TOPIC_SIZE_def GATEWAY_CONFIG_SPOOL_PATH_SIZE_def GATEWAY_CONFIG_KEY_SIZE_def
  GATEWAY_CONFIG_MESSAGE_SIZE_def GATEWAY_QUEUE_CAPACITY_MAX_def
  GATEWAY_QUEUE_PUSH_TIMEOUT_MS_MAX_def GATEWAY_BATCH_INTERVAL_MS_MIN_def
  GATEWAY_BATCH_INTERVAL_MS_MAX_def GATEWAY_MQTT_ACK_TIMEOUT_MS_MIN_def
  GATEWAY_MQTT_ACK_TIMEOUT_MS_MAX_def GATEWAY_MQTT_RECONNECT_INTERVAL_MS_MIN_def
  GATEWAY_MQTT_RECONNECT_INTERVAL_MS_MAX_def CONFIG_SPOOL_MAX_BYTES_MIN_def
  CONFIG_SPOOL_MAX_BYTES_MAX_def CONFIG_SPOOL_SYNC_RECORDS_MAX_def

datatype gateway_spool_format = GATEWAY_SPOOL_FORMAT_LEGACY | GATEWAY_SPOOL_FORMAT_V2

datatype config_field =
    CONFIG_FIELD_DEVICE_ID
  | CONFIG_FIELD_CAN_INTERFACE
  | CONFIG_FIELD_BROKER_HOST
  | CONFIG_FIELD_BROKER_PORT
  | CONFIG_FIELD_BROKER_USERNAME
  | CONFIG_FIELD_BROKER_PASSWORD
  | CONFIG_FIELD_MQTT_TOPIC
  | CONFIG_FIELD_QUEUE_CAPACITY
  | CONFIG_FIELD_QUEUE_PUSH_TIMEOUT_MS
  | CONFIG_FIELD_BATCH_INTERVAL_MS
  | CONFIG_FIELD_MQTT_ACK_TIMEOUT_MS
  | CONFIG_FIELD_MQTT_RECONNECT_INTERVAL_MS
  | CONFIG_FIELD_SPOOL_PATH
  | CONFIG_FIELD_SPOOL_FORMAT
  | CONFIG_FIELD_SPOOL_MAX_BYTES
  | CONFIG_FIELD_SPOOL_SYNC_RECORDS
  | CONFIG_FIELD_SPOOL_SYNC_INTERVAL_MS
  | CONFIG_FIELD_LOG_LEVEL

text \<open>\<open>size_t\<close> has 32 bits on the target.\<close>

record gateway_config =
  device_id :: string
  can_interface :: string
  broker_host :: string
  broker_port :: u16
  broker_username :: string
  broker_password :: string
  mqtt_topic :: string
  queue_capacity :: u32
  queue_push_timeout_ms :: u32
  batch_interval_ms :: u32
  mqtt_ack_timeout_ms :: u32
  mqtt_reconnect_interval_ms :: u32
  spool_path :: string
  spool_format :: gateway_spool_format
  spool_max_bytes :: u64
  spool_sync_records :: u32
  spool_sync_interval_ms :: u32
  log_level :: gateway_log_level

record gateway_config_error =
  err_code :: gateway_error_code
  err_line :: nat
  err_key :: string
  err_message :: string

subsection \<open>Errors\<close>

definition clear_error :: "gateway_config_error option \<Rightarrow> gateway_config_error option" where
  "clear_error error = map_option (\<lambda>_.
     \<lparr>err_code = GATEWAY_OK, err_line = 0, err_key = [], err_message = []\<rparr>) error"

definition set_error ::
    "gateway_config_error option \<Rightarrow> gateway_error_code \<Rightarrow> nat \<Rightarrow> string option \<Rightarrow> string option \<Rightarrow>
       gateway_config_error option" where
  "set_error error code line key message = map_option (\<lambda>_.
     \<lparr>err_code = code, err_line = line,
      err_key = copy_string GATEWAY_CONFIG_KEY_SIZE (case key of None \<Rightarrow> [] | Some k \<Rightarrow> k),
      err_message = copy_string GATEWAY_CONFIG_MESSAGE_SIZE
        (case message of None \<Rightarrow> gateway_error_string code | Some m \<Rightarrow> m)\<rparr>) error"

subsection \<open>Values\<close>

definition trim :: "string \<Rightarrow> string" where
  "trim s = rev (dropWhile c_isspace (rev (dropWhile c_isspace s)))"

definition valid_identifier :: "string \<Rightarrow> nat \<Rightarrow> bool \<Rightarrow> bool" where
  "valid_identifier value maximum allow_colon \<longleftrightarrow>
     length value \<noteq> 0 \<and> length value \<le> maximum \<and>
     list_all (\<lambda>c. c_isalnum c \<or> c = CHR ''-'' \<or> c = CHR ''_'' \<or> c = CHR ''.'' \<or>
       allow_colon \<and> c = CHR '':'') value"

definition valid_visible_string :: "string \<Rightarrow> nat \<Rightarrow> bool \<Rightarrow> bool" where
  "valid_visible_string value maximum required \<longleftrightarrow>
     \<not> (required \<and> length value = 0) \<and> length value \<le> maximum \<and>
     list_all (\<lambda>c. \<not> c_iscntrl c) value"

text \<open>\<open>strpbrk\<close> as the code uses it: whether one of the characters occurs.\<close>

definition has_any :: "string \<Rightarrow> string \<Rightarrow> bool" where
  "has_any value accept \<longleftrightarrow> list_ex (\<lambda>c. c \<in> set accept) value"

definition parse_unsigned :: "string \<Rightarrow> nat \<Rightarrow> nat \<Rightarrow> gateway_error_code + nat" where
  "parse_unsigned value minimum maximum =
     (if value = [] \<or> hd value = CHR ''-'' then Inl GATEWAY_ERROR_INVALID_VALUE
      else case strtoull value of
        None \<Rightarrow> if 0 < minimum then Inl GATEWAY_ERROR_RANGE else Inl GATEWAY_ERROR_INVALID_VALUE
      | Some (v, erange, rest) \<Rightarrow>
          if erange \<or> v < minimum \<or> v > maximum then Inl GATEWAY_ERROR_RANGE
          else if rest \<noteq> [] then Inl GATEWAY_ERROR_INVALID_VALUE
          else Inr v)"

definition config_keys :: "(string \<times> config_field) list" where
  "config_keys =
    [(''device_id'', CONFIG_FIELD_DEVICE_ID),
     (''can_interface'', CONFIG_FIELD_CAN_INTERFACE),
     (''broker_host'', CONFIG_FIELD_BROKER_HOST),
     (''broker_port'', CONFIG_FIELD_BROKER_PORT),
     (''broker_username'', CONFIG_FIELD_BROKER_USERNAME),
     (''broker_password'', CONFIG_FIELD_BROKER_PASSWORD),
     (''mqtt_topic'', CONFIG_FIELD_MQTT_TOPIC),
     (''queue_capacity'', CONFIG_FIELD_QUEUE_CAPACITY),
     (''queue_push_timeout_ms'', CONFIG_FIELD_QUEUE_PUSH_TIMEOUT_MS),
     (''batch_interval_ms'', CONFIG_FIELD_BATCH_INTERVAL_MS),
     (''mqtt_ack_timeout_ms'', CONFIG_FIELD_MQTT_ACK_TIMEOUT_MS),
     (''mqtt_reconnect_interval_ms'', CONFIG_FIELD_MQTT_RECONNECT_INTERVAL_MS),
     (''spool_path'', CONFIG_FIELD_SPOOL_PATH),
     (''spool_format'', CONFIG_FIELD_SPOOL_FORMAT),
     (''spool_max_bytes'', CONFIG_FIELD_SPOOL_MAX_BYTES),
     (''spool_sync_records'', CONFIG_FIELD_SPOOL_SYNC_RECORDS),
     (''spool_sync_interval_ms'', CONFIG_FIELD_SPOOL_SYNC_INTERVAL_MS),
     (''log_level'', CONFIG_FIELD_LOG_LEVEL)]"

definition field_index :: "string \<Rightarrow> config_field option" where
  "field_index key = map_of config_keys key"

subsection \<open>One assignment\<close>

type_synonym config_result =
  "gateway_error_code \<times> gateway_config \<times> gateway_config_error option"

definition set_field ::
    "gateway_config \<Rightarrow> string \<Rightarrow> string \<Rightarrow> nat \<Rightarrow> gateway_config_error option \<Rightarrow> config_result" where
  "set_field config key value line error =
     (let fail = (\<lambda>code message. (code, config, set_error error code line (Some key) message));
          checked = (\<lambda>ok message config'.
            if \<not> ok then fail GATEWAY_ERROR_INVALID_VALUE message else (GATEWAY_OK, config', error));
          number = (\<lambda>minimum maximum update.
            case parse_unsigned value minimum maximum of
              Inl code \<Rightarrow> fail code None
            | Inr parsed \<Rightarrow> (GATEWAY_OK, update parsed, error))
      in case field_index key of
        None \<Rightarrow> fail GATEWAY_ERROR_UNKNOWN_KEY None
      | Some field \<Rightarrow> (case field of
          CONFIG_FIELD_DEVICE_ID \<Rightarrow>
            checked (valid_identifier value (GATEWAY_DEVICE_ID_SIZE - 1) False)
              (Some ''device_id must use [A-Za-z0-9._-]'')
              (config\<lparr>device_id := copy_string GATEWAY_DEVICE_ID_SIZE value\<rparr>)
        | CONFIG_FIELD_CAN_INTERFACE \<Rightarrow>
            checked (valid_identifier value (GATEWAY_CAN_INTERFACE_SIZE - 1) True)
              (Some ''invalid CAN interface name'')
              (config\<lparr>can_interface := copy_string GATEWAY_CAN_INTERFACE_SIZE value\<rparr>)
        | CONFIG_FIELD_BROKER_HOST \<Rightarrow>
            checked (valid_visible_string value (GATEWAY_BROKER_HOST_SIZE - 1) True \<and>
              \<not> has_any value [CHR '' '', CHR 0x09])
              (Some ''invalid Broker hostname/address'')
              (config\<lparr>broker_host := copy_string GATEWAY_BROKER_HOST_SIZE value\<rparr>)
        | CONFIG_FIELD_BROKER_PORT \<Rightarrow>
            number 1 65535 (\<lambda>n. config\<lparr>broker_port := of_nat n\<rparr>)
        | CONFIG_FIELD_BROKER_USERNAME \<Rightarrow>
            checked (valid_visible_string value (GATEWAY_BROKER_USERNAME_SIZE - 1) False)
              None
              (config\<lparr>broker_username := copy_string GATEWAY_BROKER_USERNAME_SIZE value\<rparr>)
        | CONFIG_FIELD_BROKER_PASSWORD \<Rightarrow>
            checked (valid_visible_string value (GATEWAY_BROKER_PASSWORD_SIZE - 1) False)
              None
              (config\<lparr>broker_password := copy_string GATEWAY_BROKER_PASSWORD_SIZE value\<rparr>)
        | CONFIG_FIELD_MQTT_TOPIC \<Rightarrow>
            checked (valid_visible_string value (GATEWAY_MQTT_TOPIC_SIZE - 1) True \<and>
              \<not> has_any value ''+#'')
              (Some ''publish topic must not contain wildcards'')
              (config\<lparr>mqtt_topic := copy_string GATEWAY_MQTT_TOPIC_SIZE value\<rparr>)
        | CONFIG_FIELD_QUEUE_CAPACITY \<Rightarrow>
            number 1 GATEWAY_QUEUE_CAPACITY_MAX (\<lambda>n. config\<lparr>queue_capacity := of_nat n\<rparr>)
        | CONFIG_FIELD_QUEUE_PUSH_TIMEOUT_MS \<Rightarrow>
            number 0 GATEWAY_QUEUE_PUSH_TIMEOUT_MS_MAX (\<lambda>n. config\<lparr>queue_push_timeout_ms := of_nat n\<rparr>)
        | CONFIG_FIELD_BATCH_INTERVAL_MS \<Rightarrow>
            number GATEWAY_BATCH_INTERVAL_MS_MIN GATEWAY_BATCH_INTERVAL_MS_MAX (\<lambda>n. config\<lparr>batch_interval_ms := of_nat n\<rparr>)
        | CONFIG_FIELD_MQTT_ACK_TIMEOUT_MS \<Rightarrow>
            number GATEWAY_MQTT_ACK_TIMEOUT_MS_MIN GATEWAY_MQTT_ACK_TIMEOUT_MS_MAX (\<lambda>n. config\<lparr>mqtt_ack_timeout_ms := of_nat n\<rparr>)
        | CONFIG_FIELD_MQTT_RECONNECT_INTERVAL_MS \<Rightarrow>
            number GATEWAY_MQTT_RECONNECT_INTERVAL_MS_MIN GATEWAY_MQTT_RECONNECT_INTERVAL_MS_MAX (\<lambda>n. config\<lparr>mqtt_reconnect_interval_ms := of_nat n\<rparr>)
        | CONFIG_FIELD_SPOOL_PATH \<Rightarrow>
            checked (valid_visible_string value (GATEWAY_CONFIG_SPOOL_PATH_SIZE - 1) True \<and>
              hd value = CHR ''/'')
              (Some ''spool_path must be absolute'')
              (config\<lparr>spool_path := copy_string GATEWAY_CONFIG_SPOOL_PATH_SIZE value\<rparr>)
        | CONFIG_FIELD_SPOOL_FORMAT \<Rightarrow>
            if value = ''legacy'' then (GATEWAY_OK, config\<lparr>spool_format := GATEWAY_SPOOL_FORMAT_LEGACY\<rparr>, error)
            else if value = ''v2'' then (GATEWAY_OK, config\<lparr>spool_format := GATEWAY_SPOOL_FORMAT_V2\<rparr>, error)
            else fail GATEWAY_ERROR_INVALID_VALUE (Some ''spool_format must be legacy or v2'')
        | CONFIG_FIELD_SPOOL_MAX_BYTES \<Rightarrow>
            number CONFIG_SPOOL_MAX_BYTES_MIN CONFIG_SPOOL_MAX_BYTES_MAX (\<lambda>n. config\<lparr>spool_max_bytes := of_nat n\<rparr>)
        | CONFIG_FIELD_SPOOL_SYNC_RECORDS \<Rightarrow>
            number 1 CONFIG_SPOOL_SYNC_RECORDS_MAX (\<lambda>n. config\<lparr>spool_sync_records := of_nat n\<rparr>)
        | CONFIG_FIELD_SPOOL_SYNC_INTERVAL_MS \<Rightarrow>
            number 1 60000 (\<lambda>n. config\<lparr>spool_sync_interval_ms := of_nat n\<rparr>)
        | CONFIG_FIELD_LOG_LEVEL \<Rightarrow>
            (case gateway_log_level_parse value of
               Inl code \<Rightarrow> fail code (Some ''log_level must be debug, info, warn, or error'')
             | Inr level \<Rightarrow> (GATEWAY_OK, config\<lparr>log_level := level\<rparr>, error))))"

definition gateway_config_init_defaults :: gateway_config where
  "gateway_config_init_defaults = \<lparr>
     device_id = copy_string GATEWAY_DEVICE_ID_SIZE ''gateway-lab'',
     can_interface = copy_string GATEWAY_CAN_INTERFACE_SIZE ''can0'',
     broker_host = copy_string GATEWAY_BROKER_HOST_SIZE ''broker.example.invalid'',
     broker_port = 1883,
     broker_username = [],
     broker_password = [],
     mqtt_topic = copy_string GATEWAY_MQTT_TOPIC_SIZE ''vehicle/gateway-lab/telemetry'',
     queue_capacity = 1024,
     queue_push_timeout_ms = 50,
     batch_interval_ms = 1000,
     mqtt_ack_timeout_ms = 5000,
     mqtt_reconnect_interval_ms = 1000,
     spool_path = copy_string GATEWAY_CONFIG_SPOOL_PATH_SIZE ''/var/lib/gatewayd/spool.data'',
     spool_format = GATEWAY_SPOOL_FORMAT_LEGACY,
     spool_max_bytes = 268435456,
     spool_sync_records = 1,
     spool_sync_interval_ms = 1000,
     log_level = GATEWAY_LOG_INFO\<rparr>"

subsection \<open>Validation\<close>

text \<open>The checks in the order of the code, each with the error it reports. The checks of the two
  enumerations for values outside them have no counterpart: every value of the type is valid.\<close>

definition validate_checks :: "gateway_config \<Rightarrow> (bool \<times> gateway_error_code \<times> string \<times> string option) list" where
  "validate_checks c =
    [(valid_identifier (device_id c) (GATEWAY_DEVICE_ID_SIZE - 1) False,
        GATEWAY_ERROR_INVALID_VALUE, ''device_id'', None),
     (valid_identifier (can_interface c) (GATEWAY_CAN_INTERFACE_SIZE - 1) True,
        GATEWAY_ERROR_INVALID_VALUE, ''can_interface'', None),
     (valid_visible_string (broker_host c) (GATEWAY_BROKER_HOST_SIZE - 1) True \<and>
        \<not> has_any (broker_host c) [CHR '' '', CHR 0x09],
        GATEWAY_ERROR_INVALID_VALUE, ''broker_host'', None),
     (broker_port c \<noteq> 0, GATEWAY_ERROR_RANGE, ''broker_port'', None),
     (valid_visible_string (broker_username c) (GATEWAY_BROKER_USERNAME_SIZE - 1) False \<and>
        valid_visible_string (broker_password c) (GATEWAY_BROKER_PASSWORD_SIZE - 1) False,
        GATEWAY_ERROR_INVALID_VALUE, ''broker_credentials'', None),
     (\<not> (broker_username c = [] \<and> broker_password c \<noteq> []),
        GATEWAY_ERROR_INVALID_VALUE, ''broker_password'', Some ''broker_password requires broker_username''),
     (valid_visible_string (mqtt_topic c) (GATEWAY_MQTT_TOPIC_SIZE - 1) True \<and>
        \<not> has_any (mqtt_topic c) ''+#'',
        GATEWAY_ERROR_INVALID_VALUE, ''mqtt_topic'', None),
     (queue_capacity c \<noteq> 0 \<and> unat (queue_capacity c) \<le> GATEWAY_QUEUE_CAPACITY_MAX,
        GATEWAY_ERROR_RANGE, ''queue_capacity'', None),
     (unat (queue_push_timeout_ms c) \<le> GATEWAY_QUEUE_PUSH_TIMEOUT_MS_MAX,
        GATEWAY_ERROR_RANGE, ''queue_push_timeout_ms'', None),
     (GATEWAY_BATCH_INTERVAL_MS_MIN \<le> unat (batch_interval_ms c) \<and>
        unat (batch_interval_ms c) \<le> GATEWAY_BATCH_INTERVAL_MS_MAX,
        GATEWAY_ERROR_RANGE, ''batch_interval_ms'', None),
     (GATEWAY_MQTT_ACK_TIMEOUT_MS_MIN \<le> unat (mqtt_ack_timeout_ms c) \<and>
        unat (mqtt_ack_timeout_ms c) \<le> GATEWAY_MQTT_ACK_TIMEOUT_MS_MAX,
        GATEWAY_ERROR_RANGE, ''mqtt_ack_timeout_ms'', None),
     (GATEWAY_MQTT_RECONNECT_INTERVAL_MS_MIN \<le> unat (mqtt_reconnect_interval_ms c) \<and>
        unat (mqtt_reconnect_interval_ms c) \<le> GATEWAY_MQTT_RECONNECT_INTERVAL_MS_MAX,
        GATEWAY_ERROR_RANGE, ''mqtt_reconnect_interval_ms'', None),
     (valid_visible_string (spool_path c) (GATEWAY_CONFIG_SPOOL_PATH_SIZE - 1) True \<and>
        hd (spool_path c) = CHR ''/'',
        GATEWAY_ERROR_INVALID_VALUE, ''spool_path'', None),
     (CONFIG_SPOOL_MAX_BYTES_MIN \<le> unat (spool_max_bytes c) \<and>
        unat (spool_max_bytes c) \<le> CONFIG_SPOOL_MAX_BYTES_MAX,
        GATEWAY_ERROR_RANGE, ''spool_max_bytes'',
        Some ''must fit at least one segment and not exceed 64 GiB''),
     (spool_sync_records c \<noteq> 0 \<and> unat (spool_sync_records c) \<le> CONFIG_SPOOL_SYNC_RECORDS_MAX,
        GATEWAY_ERROR_RANGE, ''spool_sync_records'', None),
     (spool_sync_interval_ms c \<noteq> 0 \<and> unat (spool_sync_interval_ms c) \<le> 60000,
        GATEWAY_ERROR_RANGE, ''spool_sync_interval_ms'', None)]"

fun first_failed :: "(bool \<times> 'a) list \<Rightarrow> 'a option" where
  "first_failed [] = None"
| "first_failed ((ok, e) # checks) = (if ok then first_failed checks else Some e)"

definition gateway_config_validate ::
    "gateway_config option \<Rightarrow> gateway_config_error option \<Rightarrow>
       gateway_error_code \<times> gateway_config_error option" where
  "gateway_config_validate config error =
     (let error = clear_error error in
      case config of
        None \<Rightarrow> (GATEWAY_ERROR_ARGUMENT, set_error error GATEWAY_ERROR_ARGUMENT 0 None None)
      | Some c \<Rightarrow> (case first_failed (validate_checks c) of
          None \<Rightarrow> (GATEWAY_OK, error)
        | Some (code, key, message) \<Rightarrow> (code, set_error error code 0 (Some key) message)))"

subsection \<open>Assignments and files\<close>

text \<open>The part of a text in front of the first separator, and the part behind it.\<close>

definition split_at :: "char \<Rightarrow> string \<Rightarrow> (string \<times> string) option" where
  "split_at sep s =
     (if sep \<in> set s
      then Some (takeWhile (\<lambda>c. c \<noteq> sep) s, tl (dropWhile (\<lambda>c. c \<noteq> sep) s)) else None)"

definition gateway_config_apply_assignment ::
    "gateway_config \<Rightarrow> string option \<Rightarrow> gateway_config_error option \<Rightarrow> config_result" where
  "gateway_config_apply_assignment config assignment error =
     (let error = clear_error error in
      case assignment of
        None \<Rightarrow> (GATEWAY_ERROR_ARGUMENT, config, set_error error GATEWAY_ERROR_ARGUMENT 0 None None)
      | Some text \<Rightarrow>
          if length text \<ge> CONFIG_LINE_SIZE
          then (GATEWAY_ERROR_PARSE, config,
                set_error error GATEWAY_ERROR_PARSE 0 None (Some ''assignment is too long''))
          else (case split_at CHR ''='' text of
            None \<Rightarrow> (GATEWAY_ERROR_PARSE, config,
                     set_error error GATEWAY_ERROR_PARSE 0 None (Some ''expected key=value''))
          | Some (before, after) \<Rightarrow>
              let key = trim before; value = trim after in
              if key = []
              then (GATEWAY_ERROR_PARSE, config,
                    set_error error GATEWAY_ERROR_PARSE 0 None (Some ''empty configuration key''))
              else set_field config key value 0 error))"

text \<open>The buffers that \<open>fgets\<close> fills: up to \<open>CONFIG_LINE_SIZE - 1\<close> characters, ending after a
  newline. A buffer without newline that is not full has met the end of the file.\<close>

fun fgets_chunks :: "nat \<Rightarrow> string \<Rightarrow> string \<Rightarrow> string list" where
  "fgets_chunks room cur [] = (if cur = [] then [] else [rev cur])"
| "fgets_chunks room cur (c # cs) =
     (if c = newline \<or> room \<le> 1 then rev (c # cur) # fgets_chunks (CONFIG_LINE_SIZE - 1) [] cs
      else fgets_chunks (room - 1) (c # cur) cs)"

text \<open>A configuration file: whether it opens, what \<open>fgets\<close> delivers of it, whether reading ends with an
  error, whether it closes, and the text of \<open>errno\<close>.\<close>

record config_file =
  openable :: bool
  contents :: string
  read_error :: bool
  closable :: bool
  errno_text :: string

text \<open>The loop over the lines. Its result is \<open>None\<close> when the file has been used up, with the number
  of lines read.\<close>

fun load_lines ::
    "string list \<Rightarrow> nat \<Rightarrow> config_field list \<Rightarrow> gateway_config \<Rightarrow> gateway_config_error option \<Rightarrow>
       gateway_error_code option \<times> nat \<times> gateway_config \<times> gateway_config_error option" where
  "load_lines [] line seen config error = (None, line, config, error)"
| "load_lines (chunk # chunks) line seen config error =
     (let line = line + 1;
          buffer = c_string chunk;
          at_eof = (newline \<notin> set chunk \<and> length chunk < CONFIG_LINE_SIZE - 1);
          stop = (\<lambda>code key message. (Some code, line, config, set_error error code line key message))
      in if newline \<notin> set buffer \<and> \<not> at_eof
      then stop GATEWAY_ERROR_PARSE None (Some ''configuration line is too long'')
      else let text = trim buffer in
        if text = [] \<or> hd text = CHR ''#'' then load_lines chunks line seen config error
        else case split_at CHR ''='' text of
          None \<Rightarrow> stop GATEWAY_ERROR_PARSE None (Some ''expected key=value'')
        | Some (before, after) \<Rightarrow>
            let value = trim after; key = trim before in
            if key = [] then stop GATEWAY_ERROR_PARSE None (Some ''empty configuration key'')
            else if (case field_index key of None \<Rightarrow> False | Some field \<Rightarrow> field \<in> set seen)
            then stop GATEWAY_ERROR_DUPLICATE_KEY (Some key) None
            else let (code, config, error) = set_field config key value line error in
              if code \<noteq> GATEWAY_OK then (Some code, line, config, error)
              else load_lines chunks line (the (field_index key) # seen) config error)"

definition gateway_config_load_file ::
    "gateway_config \<Rightarrow> config_file option \<Rightarrow> gateway_config_error option \<Rightarrow> config_result" where
  "gateway_config_load_file config path error =
     (let error = clear_error error in
      case path of
        None \<Rightarrow> (GATEWAY_ERROR_ARGUMENT, config, set_error error GATEWAY_ERROR_ARGUMENT 0 None None)
      | Some f \<Rightarrow>
          if \<not> openable f
          then (GATEWAY_ERROR_IO, config, set_error error GATEWAY_ERROR_IO 0 None (Some (errno_text f)))
          else
            let (result, line, config, error) =
              load_lines (fgets_chunks (CONFIG_LINE_SIZE - 1) [] (contents f)) 0 [] config error
            in case result of
              Some code \<Rightarrow> (code, config, error)
            | None \<Rightarrow>
                if read_error f \<or> \<not> closable f
                then (GATEWAY_ERROR_IO, config,
                      set_error error GATEWAY_ERROR_IO line None (Some (errno_text f)))
                else let (code, error) = gateway_config_validate (Some config) error in (code, config, error))"

subsection \<open>The log line\<close>

definition spool_format_name :: "gateway_spool_format \<Rightarrow> string" where
  "spool_format_name f = (if f = GATEWAY_SPOOL_FORMAT_V2 then ''v2'' else ''legacy'')"

definition redacted_message :: "gateway_config \<Rightarrow> string" where
  "redacted_message c =
     ''device_id='' @ device_id c @ '' can_interface='' @ can_interface c @
     '' broker_host='' @ broker_host c @ '' broker_port='' @ show_nat (unat (broker_port c)) @
     '' broker_username='' @ (if broker_username c = [] then ''<unset>'' else ''<redacted>'') @
     '' broker_password=<redacted> mqtt_topic='' @ mqtt_topic c @
     '' queue_capacity='' @ show_nat (unat (queue_capacity c)) @
     '' queue_push_timeout_ms='' @ show_nat (unat (queue_push_timeout_ms c)) @
     '' batch_interval_ms='' @ show_nat (unat (batch_interval_ms c)) @
     '' mqtt_ack_timeout_ms='' @ show_nat (unat (mqtt_ack_timeout_ms c)) @
     '' mqtt_reconnect_interval_ms='' @ show_nat (unat (mqtt_reconnect_interval_ms c)) @
     '' spool_path='' @ spool_path c @ '' spool_format='' @ spool_format_name (spool_format c) @
     '' spool_max_bytes='' @ show_nat (unat (spool_max_bytes c)) @
     '' spool_sync_records='' @ show_nat (unat (spool_sync_records c)) @
     '' spool_sync_interval_ms='' @ show_nat (unat (spool_sync_interval_ms c)) @
     '' log_level='' @ gateway_log_level_name (log_level c)"

definition gateway_config_log_redacted ::
    "gateway_config \<Rightarrow> (calendar_time \<times> nat) option \<Rightarrow> gateway_logger \<Rightarrow> gateway_logger" where
  "gateway_config_log_redacted c now logger =
     gateway_log logger now GATEWAY_LOG_INFO ''config'' (redacted_message c)"

end
