(* ===== verification/Mqtt_Sink.thy ===== *)
theory Mqtt_Sink
  imports Mqtt_Reactor Mqtt_Encode Spool_Facade Gw_Stats Gw_Config
begin

text \<open>
  The MQTT sink of \<open>gateway/src/mqtt_sink.c\<close>: batches of records are published with QoS 1, one at a time, and
  leave the spool, or the buffer when no spool is configured, once the broker's PUBACK has arrived. The consumer
  thread runs every function; the mutex only lets another thread read the snapshot and is not part of the
  state. Log lines are not modelled.
\<close>

subsection \<open>State\<close>

definition MQTT_LOOP_SLICE_MS :: int where "MQTT_LOOP_SLICE_MS = 50"
definition MQTT_MISC_INTERVAL_MS :: u32 where "MQTT_MISC_INTERVAL_MS = 1000"
definition C_INT_MAX :: int where "C_INT_MAX = 2147483647"

text \<open>\<open>SIZE_MAX\<close> of the 32-bit target.\<close>

definition C_SIZE_MAX :: nat where "C_SIZE_MAX = 4294967295"

record gateway_mqtt_sink_snapshot =
  sn_connected :: bool
  sn_failed :: bool
  sn_in_flight :: bool
  sn_in_flight_mid :: int
  sn_buffered_records :: nat
  sn_next_batch_seq :: u64
  sn_last_acked_batch_seq :: u64
  sn_last_acked_gateway_seq :: u64
  sn_batches_acked :: u64
  sn_records_acked :: u64
  sn_puback_matched :: u64
  sn_puback_unexpected :: u64
  sn_durable :: bool
  sn_spool_total_records :: nat
  sn_spool_pending_records :: nat
  sn_spool_records_appended :: u64
  sn_spool_records_replayed :: u64
  sn_spool_tail_recoveries :: u64
  sn_spool_state_recoveries :: u64
  sn_spool_corruptions :: u64
  sn_spool_physical_bytes :: nat
  sn_spool_pending_bytes :: nat
  sn_spool_segment_count :: nat
  sn_spool_segments_reclaimed :: u64
  sn_spool_sync_count :: u64
  sn_spool_sync_failures :: u64
  sn_spool_unsynced_records :: nat
  sn_spool_v2 :: bool
  sn_reactor_enabled :: bool
  sn_reactor_network_fd :: int
  sn_reactor_epoll_waits :: u64
  sn_reactor_wake_events :: u64
  sn_reactor_timer_expirations :: u64
  sn_reactor_socket_events :: u64
  sn_reactor_loop_read_calls :: u64
  sn_reactor_loop_write_calls :: u64
  sn_reactor_loop_misc_calls :: u64

text \<open>The sink. \<open>records\<close> holds the buffered records, so that its length is \<open>record_count\<close>; a durable sink uses the
  array only within a flush. The last field is what the library and the kernel will answer.\<close>

record gateway_mqtt_sink =
  mk_device_id :: string
  mk_broker_host :: string
  mk_broker_port :: u16
  mk_broker_username :: string
  mk_broker_password :: string
  mk_topic :: string
  mk_batch_interval_ms :: u32
  mk_ack_timeout_ms :: u32
  mk_reconnect_interval_ms :: u32
  mk_max_records :: nat
  mk_stats :: gateway_stats
  mk_mosq :: "nat option"
  mk_reactor :: "gateway_mqtt_reactor option"
  mk_spool :: "gateway_spool option"
  mk_records :: "telemetry_record list"
  mk_batch_deadline :: timespec
  mk_batch_deadline_set :: bool
  mk_library_initialized :: bool
  mk_connect_callback_seen :: bool
  mk_connect_result :: int
  mk_explicit_disconnect :: bool
  mk_durable :: bool
  mk_ever_connected :: bool
  mk_transport_lost :: bool
  mk_reconnect_deadline_set :: bool
  mk_reconnect_in_progress :: bool
  mk_reconnect_attempt_deadline_set :: bool
  mk_replay_pending :: bool
  mk_reconnect_deadline :: timespec
  mk_reconnect_attempt_deadline :: timespec
  mk_have_last_gateway_seq :: bool
  mk_last_gateway_seq :: u64
  mk_snapshot :: gateway_mqtt_sink_snapshot
  mk_world :: mqtt_world

abbreviation on_snapshot :: "(gateway_mqtt_sink_snapshot \<Rightarrow> gateway_mqtt_sink_snapshot) \<Rightarrow>
    gateway_mqtt_sink \<Rightarrow> gateway_mqtt_sink" where
  "on_snapshot f s \<equiv> s\<lparr>mk_snapshot := f (mk_snapshot s)\<rparr>"

abbreviation on_world :: "(mqtt_world \<Rightarrow> mqtt_world) \<Rightarrow> gateway_mqtt_sink \<Rightarrow> gateway_mqtt_sink" where
  "on_world f s \<equiv> s\<lparr>mk_world := f (mk_world s)\<rparr>"

definition stat_add :: "gateway_stat_counter \<Rightarrow> u64 \<Rightarrow> gateway_mqtt_sink \<Rightarrow> gateway_mqtt_sink" where
  "stat_add c v s = s\<lparr>mk_stats := gateway_stats_add c v (mk_stats s)\<rparr>"

abbreviation stat_increment :: "gateway_stat_counter \<Rightarrow> gateway_mqtt_sink \<Rightarrow> gateway_mqtt_sink" where
  "stat_increment c s \<equiv> stat_add c 1 s"

definition the_spool :: "gateway_mqtt_sink \<Rightarrow> gateway_spool" where
  "the_spool s = the (mk_spool s)"

subsection \<open>Time\<close>

definition timespec_reached :: "timespec \<Rightarrow> gateway_mqtt_sink \<Rightarrow> bool \<times> gateway_mqtt_sink" where
  "timespec_reached deadline s =
     (let (reading, w) = monotonic_clock (mk_world s) in
      (case reading of
         None \<Rightarrow> False
       | Some t \<Rightarrow> tv_sec t > tv_sec deadline \<or> tv_sec t = tv_sec deadline \<and> tv_nsec t \<ge> tv_nsec deadline,
       s\<lparr>mk_world := w\<rparr>))"

text \<open>The deadline, when the clock could be read.\<close>

definition deadline_after_milliseconds :: "u32 \<Rightarrow> gateway_mqtt_sink \<Rightarrow> timespec option \<times> gateway_mqtt_sink" where
  "deadline_after_milliseconds timeout_ms s =
     (let (reading, w) = monotonic_clock (mk_world s);
          ms = int (unat timeout_ms)
      in (map_option (\<lambda>t.
            let sec = tv_sec t + ms div 1000; nsec = tv_nsec t + ms mod 1000 * 1000000 in
            if nsec \<ge> 1000000000 then \<lparr>tv_sec = sec + 1, tv_nsec = nsec - 1000000000\<rparr>
            else \<lparr>tv_sec = sec, tv_nsec = nsec\<rparr>) reading,
          s\<lparr>mk_world := w\<rparr>))"

definition milliseconds_until :: "timespec \<Rightarrow> timespec option \<Rightarrow> int" where
  "milliseconds_until deadline reading =
     (case reading of
        None \<Rightarrow> - 1
      | Some t \<Rightarrow>
          let sec = tv_sec deadline - tv_sec t; nsec = tv_nsec deadline - tv_nsec t;
              (sec, nsec) = (if nsec < 0 then (sec - 1, nsec + 1000000000) else (sec, nsec))
          in if sec < 0 \<or> sec = 0 \<and> nsec = 0 then 0
             else let ms = sec * 1000 + (nsec + 999999) div 1000000 in
               if ms > C_INT_MAX then C_INT_MAX else ms)"

subsection \<open>Snapshots and failures\<close>

definition snapshot_mark_failed :: "gateway_mqtt_sink \<Rightarrow> gateway_mqtt_sink" where
  "snapshot_mark_failed s = on_snapshot (sn_failed_update (\<lambda>_. True)) s"

definition snapshot_set_mqtt_failed :: "gateway_mqtt_sink \<Rightarrow> gateway_mqtt_sink" where
  "snapshot_set_mqtt_failed s = stat_increment GATEWAY_STAT_MQTT_ERRORS (snapshot_mark_failed s)"

definition sync_spool_snapshot :: "gateway_mqtt_sink \<Rightarrow> gateway_mqtt_sink" where
  "sync_spool_snapshot s =
     (if \<not> mk_durable s then s
      else let v = gateway_spool_read (the_spool s) in
        on_snapshot (\<lambda>n. n\<lparr>sn_durable := True,
          sn_buffered_records := (if snap_pending_records v > C_SIZE_MAX then C_SIZE_MAX else snap_pending_records v),
          sn_spool_total_records := snap_total_records v,
          sn_spool_pending_records := snap_pending_records v,
          sn_spool_records_appended := snap_records_appended v,
          sn_spool_records_replayed := snap_records_replayed v,
          sn_spool_tail_recoveries := snap_tail_recoveries v,
          sn_spool_state_recoveries := snap_state_recoveries v,
          sn_spool_corruptions := snap_corruptions v,
          sn_spool_physical_bytes := snap_physical_bytes v,
          sn_spool_pending_bytes := snap_pending_bytes v,
          sn_spool_segment_count := snap_segment_count v,
          sn_spool_segments_reclaimed := snap_segments_reclaimed v,
          sn_spool_sync_count := snap_sync_count v,
          sn_spool_sync_failures := snap_sync_failures v,
          sn_spool_unsynced_records := snap_unsynced_records v,
          sn_spool_v2 := snap_v2 v,
          sn_next_batch_seq := of_nat (snap_next_batch_seq v),
          sn_last_acked_gateway_seq := snap_last_acked_gateway_seq v\<rparr>) s)"

definition sync_reactor_snapshot :: "gateway_mqtt_sink \<Rightarrow> gateway_mqtt_sink" where
  "sync_reactor_snapshot s =
     (case mk_reactor s of
        None \<Rightarrow> s
      | Some r \<Rightarrow> let v = gateway_mqtt_reactor_read r in
          on_snapshot (\<lambda>n. n\<lparr>sn_reactor_enabled := re_enabled v,
            sn_reactor_network_fd := re_network_fd v,
            sn_reactor_epoll_waits := re_epoll_waits v,
            sn_reactor_wake_events := re_wake_events v,
            sn_reactor_timer_expirations := re_timer_expirations v,
            sn_reactor_socket_events := re_socket_events v,
            sn_reactor_loop_read_calls := re_loop_read_calls v,
            sn_reactor_loop_write_calls := re_loop_write_calls v,
            sn_reactor_loop_misc_calls := re_loop_misc_calls v\<rparr>) s)"

definition spool_failure :: "gateway_error_code \<Rightarrow> gateway_mqtt_sink \<Rightarrow> gateway_error_code \<times> gateway_mqtt_sink" where
  "spool_failure code s = (code, stat_increment GATEWAY_STAT_SPOOL_ERRORS (snapshot_mark_failed s))"

definition mqtt_failure :: "gateway_error_code \<Rightarrow> gateway_mqtt_sink \<Rightarrow> gateway_error_code \<times> gateway_mqtt_sink" where
  "mqtt_failure code s = (code, snapshot_set_mqtt_failed s)"

subsection \<open>Callbacks\<close>

definition on_connect :: "int \<Rightarrow> gateway_mqtt_sink \<Rightarrow> gateway_mqtt_sink" where
  "on_connect result s =
     on_snapshot (sn_connected_update (\<lambda>_. result = 0))
       (s\<lparr>mk_connect_callback_seen := True, mk_connect_result := result\<rparr>)"

definition on_disconnect :: "int \<Rightarrow> gateway_mqtt_sink \<Rightarrow> gateway_mqtt_sink" where
  "on_disconnect result s =
     (let s = on_snapshot (sn_connected_update (\<lambda>_. False)) s in
      if \<not> mk_explicit_disconnect s \<and> result \<noteq> 0
      then if mk_durable s then s\<lparr>mk_transport_lost := True\<rparr> else snapshot_set_mqtt_failed s
      else s)"

definition on_publish :: "int \<Rightarrow> gateway_mqtt_sink \<Rightarrow> gateway_mqtt_sink" where
  "on_publish mid s =
     (if sn_in_flight (mk_snapshot s) \<and> sn_in_flight_mid (mk_snapshot s) = mid
      then stat_increment GATEWAY_STAT_MQTT_PUBACK_MATCHED
        (on_snapshot (\<lambda>n. n\<lparr>sn_in_flight := False, sn_puback_matched := sn_puback_matched n + 1\<rparr>) s)
      else stat_increment GATEWAY_STAT_MQTT_PUBACK_UNEXPECTED
        (on_snapshot (\<lambda>n. n\<lparr>sn_puback_unexpected := sn_puback_unexpected n + 1\<rparr>) s))"

fun run_callback :: "mqtt_callback \<Rightarrow> gateway_mqtt_sink \<Rightarrow> gateway_mqtt_sink" where
  "run_callback (On_connect result) s = on_connect result s"
| "run_callback (On_disconnect result) s = on_disconnect result s"
| "run_callback (On_publish mid) s = on_publish mid s"

text \<open>The callbacks that the library has run since the last look, on the sink. The reactor, which is where most of
  them run, reads nothing that they change.\<close>

definition run_delivered :: "gateway_mqtt_sink \<Rightarrow> gateway_mqtt_sink" where
  "run_delivered s =
     fold run_callback (delivered (mk_world s)) (on_world (delivered_update (\<lambda>_. [])) s)"

text \<open>A call of a library function on the sink's client; the library refuses a \<open>NULL\<close> client.\<close>

definition library ::
    "(lib_reply \<Rightarrow> mqtt_event list) \<Rightarrow> gateway_mqtt_sink \<Rightarrow> lib_reply \<times> gateway_mqtt_sink" where
  "library events s =
     (case mk_mosq s of
        None \<Rightarrow> (\<lparr>reply_code = MOSQ_ERR_INVAL, reply_mid = 0, reply_callbacks = []\<rparr>, s)
      | Some c \<Rightarrow>
          let (reply, w) = lib_call_with events c (mk_world s) in
          (reply, run_delivered (s\<lparr>mk_world := w\<rparr>)))"

subsection \<open>The reactor\<close>

definition reactor_step :: "int \<Rightarrow> gateway_mqtt_sink \<Rightarrow> gateway_error_code \<times> int \<times> gateway_mqtt_sink" where
  "reactor_step timeout_ms s =
     (let (code, mosquitto_code, r, w) = gateway_mqtt_reactor_step timeout_ms (the (mk_reactor s)) (mk_world s) in
      (code, mosquitto_code, sync_reactor_snapshot (run_delivered (s\<lparr>mk_reactor := Some r, mk_world := w\<rparr>))))"

definition reactor_notify :: "gateway_mqtt_sink \<Rightarrow> gateway_error_code \<times> gateway_mqtt_sink" where
  "reactor_notify s =
     (let (code, r, w) = gateway_mqtt_reactor_notify (the (mk_reactor s)) (mk_world s) in
      (code, s\<lparr>mk_reactor := Some r, mk_world := w\<rparr>))"

definition reactor_bind :: "nat option \<Rightarrow> gateway_mqtt_sink \<Rightarrow> gateway_error_code \<times> gateway_mqtt_sink" where
  "reactor_bind mosq s =
     (let (code, r, w) = gateway_mqtt_reactor_bind mosq (the (mk_reactor s)) (mk_world s) in
      (code, run_delivered (s\<lparr>mk_reactor := Some r, mk_world := w\<rparr>)))"

subsection \<open>The client\<close>

definition mosquitto_new :: "gateway_mqtt_sink \<Rightarrow> gateway_mqtt_sink" where
  "mosquitto_new s =
     (let (ok, w) = plain_call (mk_world s) in
      if \<not> ok then s\<lparr>mk_mosq := None, mk_world := w\<rparr>
      else s\<lparr>mk_mosq := Some (next_client w),
             mk_world := w\<lparr>next_client := next_client w + 1, history := history w @ [Client_created (next_client w)]\<rparr>\<rparr>)"

definition mosquitto_destroy :: "gateway_mqtt_sink \<Rightarrow> gateway_mqtt_sink" where
  "mosquitto_destroy s =
     (case mk_mosq s of
        None \<Rightarrow> s
      | Some c \<Rightarrow> on_world (\<lambda>w. w\<lparr>history := history w @ [Client_destroyed c]\<rparr>) s)"

definition create_mosquitto_client :: "gateway_mqtt_sink \<Rightarrow> gateway_error_code \<times> gateway_mqtt_sink" where
  "create_mosquitto_client s =
     (let s = mosquitto_new s in
      if mk_mosq s = None then (GATEWAY_ERROR_SYSTEM, s)
      else let (reply, s) = library (\<lambda>_. []) s in
        if reply_code reply \<noteq> MOSQ_ERR_SUCCESS then (GATEWAY_ERROR_SYSTEM, (mosquitto_destroy s)\<lparr>mk_mosq := None\<rparr>)
        else if mk_broker_username s = [] then (GATEWAY_OK, s)
        else let (reply, s) = library (\<lambda>_. []) s in
          if reply_code reply \<noteq> MOSQ_ERR_SUCCESS
          then (GATEWAY_ERROR_INVALID_VALUE, (mosquitto_destroy s)\<lparr>mk_mosq := None\<rparr>)
          else (GATEWAY_OK, s))"

definition reset_mosquitto_client :: "gateway_mqtt_sink \<Rightarrow> gateway_error_code \<times> gateway_mqtt_sink" where
  "reset_mosquitto_client s =
     (let (code, s) = reactor_bind None s in
      if code \<noteq> GATEWAY_OK then (code, s)
      else
        let s = (mosquitto_destroy s)\<lparr>mk_mosq := None, mk_transport_lost := False, mk_connect_callback_seen := False,
              mk_explicit_disconnect := False, mk_reconnect_in_progress := False,
              mk_reconnect_attempt_deadline_set := False\<rparr>;
            (code, s) = create_mosquitto_client s
        in if code \<noteq> GATEWAY_OK then (code, s) else reactor_bind (mk_mosq s) s)"

definition durable_transport_offline :: "gateway_mqtt_sink \<Rightarrow> gateway_error_code \<times> gateway_mqtt_sink" where
  "durable_transport_offline s =
     (let s = on_snapshot (\<lambda>n. n\<lparr>sn_connected := False, sn_in_flight := False, sn_in_flight_mid := - 1\<rparr>) s;
          s = s\<lparr>mk_spool := Some (gateway_spool_cancel_prepared (the_spool s))\<rparr>;
          s = stat_increment GATEWAY_STAT_MQTT_ERRORS s;
          (code, s) = reset_mosquitto_client s
      in if code \<noteq> GATEWAY_OK then mqtt_failure code s
         else
           let (deadline, s) = deadline_after_milliseconds (mk_reconnect_interval_ms s) s in
           case deadline of
             None \<Rightarrow> mqtt_failure GATEWAY_ERROR_SYSTEM s
           | Some t \<Rightarrow>
               (GATEWAY_OK, sync_spool_snapshot (s\<lparr>mk_reconnect_deadline := t, mk_reconnect_deadline_set := True\<rparr>)))"

definition required_record_status_valid :: "telemetry_record \<Rightarrow> bool" where
  "required_record_status_valid r \<longleftrightarrow>
     (let required = GATEWAY_RECORD_STATUS_KERNEL_TIMESTAMP_VALID OR GATEWAY_RECORD_STATUS_CHECKSUM_VALID OR
        GATEWAY_RECORD_STATUS_DECODED_VALID
      in gateway_seq r \<noteq> 0 \<and> dlc r = of_nat GATEWAY_CAN_DATA_SIZE \<and> status_flags r AND required = required)"

subsection \<open>Waiting\<close>

text \<open>The wait loops: until the condition holds, at most until the deadline, in slices of the reactor. Every turn
  reads the clock once, and a clock that cannot be read ends the wait.\<close>

datatype wait_end = Wait_over | Wait_timeout | Wait_error gateway_error_code

definition set_clock :: "timespec option list \<Rightarrow> gateway_mqtt_sink \<Rightarrow> gateway_mqtt_sink" where
  "set_clock readings s = on_world (clock_answers_update (\<lambda>_. readings)) s"

fun await_loop ::
    "(gateway_mqtt_sink \<Rightarrow> bool) \<Rightarrow> (gateway_mqtt_sink \<Rightarrow> bool) \<Rightarrow> timespec \<Rightarrow> timespec option list \<Rightarrow>
       gateway_mqtt_sink \<Rightarrow> wait_end \<times> gateway_mqtt_sink" where
  "await_loop over lost deadline [] s = (if over s then Wait_over else Wait_timeout, set_clock [] s)"
| "await_loop over lost deadline (reading # readings) s =
     (if over s then (Wait_over, set_clock (reading # readings) s)
      else
        let remaining = milliseconds_until deadline reading in
        if remaining \<le> 0 then (Wait_timeout, set_clock readings s)
        else
          let slice = (if remaining < MQTT_LOOP_SLICE_MS then remaining else MQTT_LOOP_SLICE_MS);
              (code, mosquitto_code, s) = reactor_step slice s
          in if code \<noteq> GATEWAY_OK \<or> lost s then (Wait_error code, set_clock readings s)
             else await_loop over lost deadline readings s)"

abbreviation in_flight :: "gateway_mqtt_sink \<Rightarrow> bool" where
  "in_flight s \<equiv> sn_in_flight (mk_snapshot s)"

definition await_connack :: "timespec \<Rightarrow> gateway_mqtt_sink \<Rightarrow> wait_end \<times> gateway_mqtt_sink" where
  "await_connack deadline s =
     await_loop mk_connect_callback_seen (\<lambda>_. False) deadline (clock_answers (mk_world s)) s"

definition await_puback_durable :: "timespec \<Rightarrow> gateway_mqtt_sink \<Rightarrow> wait_end \<times> gateway_mqtt_sink" where
  "await_puback_durable deadline s =
     await_loop (\<lambda>s. \<not> in_flight s) mk_transport_lost deadline (clock_answers (mk_world s)) s"

definition await_puback :: "timespec \<Rightarrow> gateway_mqtt_sink \<Rightarrow> wait_end \<times> gateway_mqtt_sink" where
  "await_puback deadline s =
     await_loop (\<lambda>s. \<not> in_flight s) (\<lambda>_. False) deadline (clock_answers (mk_world s)) s"

subsection \<open>Connecting\<close>

definition connect_succeeded :: "gateway_mqtt_sink \<Rightarrow> gateway_mqtt_sink" where
  "connect_succeeded s =
     (let s = stat_increment GATEWAY_STAT_MQTT_CONNECT_SUCCESS s;
          s = (if mk_ever_connected s then stat_increment GATEWAY_STAT_MQTT_RECONNECTS s else s)
      in s\<lparr>mk_ever_connected := True, mk_reconnect_deadline_set := False\<rparr>)"

definition connect_call :: "gateway_mqtt_sink \<Rightarrow> lib_reply \<times> gateway_mqtt_sink" where
  "connect_call s = library (\<lambda>_. [Connect_called (the (mk_mosq s))]) s"

definition gateway_mqtt_sink_connect :: "gateway_mqtt_sink \<Rightarrow> gateway_error_code \<times> gateway_mqtt_sink" where
  "gateway_mqtt_sink_connect s =
     (if mk_mosq s = None then (GATEWAY_ERROR_ARGUMENT, s)
      else
        let s = stat_increment GATEWAY_STAT_MQTT_CONNECT_ATTEMPTS s;
            (reply, s) = connect_call (s\<lparr>mk_connect_callback_seen := False\<rparr>);
            offline_or = (\<lambda>code s. if mk_durable s then durable_transport_offline s else mqtt_failure code s)
        in if reply_code reply \<noteq> MOSQ_ERR_SUCCESS then offline_or GATEWAY_ERROR_IO s
           else let (notified, s) = reactor_notify s in
             if notified \<noteq> GATEWAY_OK then mqtt_failure GATEWAY_ERROR_SYSTEM s
             else let (deadline, s) = deadline_after_milliseconds (mk_ack_timeout_ms s) s in
               case deadline of
                 None \<Rightarrow> mqtt_failure GATEWAY_ERROR_SYSTEM s
               | Some t \<Rightarrow>
                   (case await_connack t s of
                      (Wait_timeout, s) \<Rightarrow> offline_or GATEWAY_ERROR_TIMEOUT s
                    | (Wait_error code, s) \<Rightarrow> offline_or code s
                    | (Wait_over, s) \<Rightarrow>
                        if mk_connect_result s \<noteq> 0 then mqtt_failure GATEWAY_ERROR_IO s
                        else (GATEWAY_OK, connect_succeeded s)))"

subsection \<open>Publishing a batch\<close>

definition publish_call :: "string \<Rightarrow> gateway_mqtt_sink \<Rightarrow> lib_reply \<times> gateway_mqtt_sink" where
  "publish_call payload s =
     library (\<lambda>a. if reply_code a = MOSQ_ERR_SUCCESS
                 then [Published (the (mk_mosq s)) (reply_mid a) (mk_topic s) payload] else []) s"

definition publish_accepted :: "int \<Rightarrow> gateway_mqtt_sink \<Rightarrow> gateway_mqtt_sink" where
  "publish_accepted mid s =
     stat_increment GATEWAY_STAT_MQTT_PUBLISH_ACCEPTED
       (on_snapshot (\<lambda>n. n\<lparr>sn_in_flight := True, sn_in_flight_mid := mid\<rparr>) s)"

definition encode_payload_of :: "u64 \<Rightarrow> telemetry_record list \<Rightarrow> gateway_mqtt_sink \<Rightarrow> gateway_error_code + string" where
  "encode_payload_of batch_seq records s =
     (case gateway_mqtt_encode_batch (Some GATEWAY_MQTT_PAYLOAD_CAPACITY) (Some (mk_device_id s)) batch_seq
        (Some records) True of
        Inl code \<Rightarrow> Inl code
      | Inr payload \<Rightarrow> if int (length payload) > C_INT_MAX then Inl GATEWAY_ERROR_RANGE else Inr payload)"

definition ready :: "gateway_mqtt_sink \<Rightarrow> bool" where
  "ready s \<longleftrightarrow> sn_connected (mk_snapshot s) \<and> \<not> sn_failed (mk_snapshot s) \<and> \<not> in_flight s"

text \<open>The bookkeeping after the PUBACK of a durable batch: the spool's cursor moves first.\<close>

definition acknowledge_durable ::
    "telemetry_record list \<Rightarrow> u64 \<Rightarrow> gateway_mqtt_sink \<Rightarrow> gateway_error_code \<times> gateway_mqtt_sink" where
  "acknowledge_durable records batch_seq s =
     (let (code, sp) = gateway_spool_ack_prepared (the_spool s); s = s\<lparr>mk_spool := Some sp\<rparr> in
      if code \<noteq> GATEWAY_OK then spool_failure code s
      else
        let n = of_nat (length records);
            s = stat_add GATEWAY_STAT_MQTT_RECORDS_ACKED n (stat_add GATEWAY_STAT_SPOOL_RECORDS_ACKED n s);
            s = on_snapshot (\<lambda>v. v\<lparr>sn_batches_acked := sn_batches_acked v + 1,
                  sn_records_acked := sn_records_acked v + n, sn_last_acked_batch_seq := batch_seq,
                  sn_last_acked_gateway_seq := gateway_seq (last records), sn_in_flight_mid := - 1\<rparr>) s;
            s = s\<lparr>mk_replay_pending := (snap_pending_records (gateway_spool_read sp) \<noteq> 0),
                  mk_batch_deadline_set := False\<rparr>
        in (GATEWAY_OK, sync_spool_snapshot s))"

text \<open>From the accepted publication to the acknowledged batch.\<close>

definition settle_durable ::
    "telemetry_record list \<Rightarrow> u64 \<Rightarrow> gateway_mqtt_sink \<Rightarrow> gateway_error_code \<times> gateway_mqtt_sink" where
  "settle_durable records batch_seq s =
     (let (notified, s) = reactor_notify s in
      if notified \<noteq> GATEWAY_OK then durable_transport_offline s
      else let (deadline, s) = deadline_after_milliseconds (mk_ack_timeout_ms s) s in
        case deadline of
          None \<Rightarrow> mqtt_failure GATEWAY_ERROR_SYSTEM s
        | Some t \<Rightarrow>
            (case await_puback_durable t s of
               (Wait_over, s) \<Rightarrow> acknowledge_durable records batch_seq s
             | (_, s) \<Rightarrow> durable_transport_offline s))"

text \<open>A prepared batch that is not empty is published.\<close>

definition publish_durable ::
    "telemetry_record list \<Rightarrow> u64 \<Rightarrow> gateway_mqtt_sink \<Rightarrow> gateway_error_code \<times> gateway_mqtt_sink" where
  "publish_durable records batch_seq s =
     (let s = stat_add GATEWAY_STAT_SPOOL_RECORDS_REPLAYED (of_nat (length records)) s in
      case encode_payload_of batch_seq records s of
        Inl code \<Rightarrow> mqtt_failure code (s\<lparr>mk_spool := Some (gateway_spool_cancel_prepared (the_spool s))\<rparr>)
      | Inr payload \<Rightarrow>
          let (reply, s) = publish_call payload (stat_increment GATEWAY_STAT_MQTT_PUBLISH_ATTEMPTS s) in
          if reply_code reply \<noteq> MOSQ_ERR_SUCCESS then durable_transport_offline s
          else settle_durable records batch_seq (publish_accepted (reply_mid reply) s))"

definition flush_durable :: "gateway_mqtt_sink \<Rightarrow> gateway_error_code \<times> gateway_mqtt_sink" where
  "flush_durable s =
     (let (code, sp) = gateway_spool_flush (the_spool s); s = s\<lparr>mk_spool := Some sp\<rparr> in
      if code \<noteq> GATEWAY_OK then spool_failure code s
      else if snap_pending_records (gateway_spool_read sp) = 0
      then (GATEWAY_OK, sync_spool_snapshot (s\<lparr>mk_replay_pending := False, mk_batch_deadline_set := False\<rparr>))
      else if \<not> ready s then (GATEWAY_OK, s)
      else
        let (code, out, sp) = gateway_spool_prepare_batch (mk_max_records s) sp; s = s\<lparr>mk_spool := Some sp\<rparr> in
        case out of
          None \<Rightarrow> spool_failure code s
        | Some (records, number) \<Rightarrow>
            if code \<noteq> GATEWAY_OK then spool_failure code s
            else if records = [] then (GATEWAY_OK, sync_spool_snapshot s)
            else publish_durable records (of_nat number) s)"

subsection \<open>Reconnecting\<close>

definition complete_reconnect :: "gateway_mqtt_sink \<Rightarrow> gateway_error_code \<times> gateway_mqtt_sink" where
  "complete_reconnect s =
     (if \<not> mk_connect_callback_seen s then (GATEWAY_OK, s)
      else
        let s = s\<lparr>mk_reconnect_in_progress := False, mk_reconnect_attempt_deadline_set := False\<rparr> in
        if mk_connect_result s \<noteq> 0 then mqtt_failure GATEWAY_ERROR_IO s
        else (GATEWAY_OK, (connect_succeeded s)\<lparr>mk_replay_pending := True\<rparr>))"

text \<open>The start of an attempt, when none is running and the pause is over.\<close>

definition begin_reconnect :: "gateway_mqtt_sink \<Rightarrow> (gateway_error_code \<times> gateway_mqtt_sink) + gateway_mqtt_sink" where
  "begin_reconnect s =
     (let s = stat_increment GATEWAY_STAT_MQTT_CONNECT_ATTEMPTS s;
          (reply, s) = connect_call (s\<lparr>mk_connect_callback_seen := False, mk_connect_result := 0\<rparr>)
      in if reply_code reply \<noteq> MOSQ_ERR_SUCCESS then Inl (durable_transport_offline s)
         else let (notified, s) = reactor_notify s in
           if notified \<noteq> GATEWAY_OK then Inl (mqtt_failure GATEWAY_ERROR_SYSTEM s)
           else let (deadline, s) = deadline_after_milliseconds (mk_ack_timeout_ms s) s in
             case deadline of
               None \<Rightarrow> Inl (mqtt_failure GATEWAY_ERROR_SYSTEM s)
             | Some t \<Rightarrow> Inr (s\<lparr>mk_reconnect_attempt_deadline := t, mk_reconnect_in_progress := True,
                   mk_reconnect_attempt_deadline_set := True\<rparr>))"

text \<open>One look at a running attempt.\<close>

definition watch_reconnect :: "gateway_mqtt_sink \<Rightarrow> gateway_error_code \<times> gateway_mqtt_sink" where
  "watch_reconnect s =
     (if \<not> mk_reconnect_in_progress s then (GATEWAY_OK, s)
      else let (code, mosquitto_code, s) = reactor_step 0 s in
        if code \<noteq> GATEWAY_OK \<or> mk_transport_lost s then durable_transport_offline s
        else if mk_connect_callback_seen s then complete_reconnect s
        else if mk_reconnect_attempt_deadline_set s
        then let (reached, s) = timespec_reached (mk_reconnect_attempt_deadline s) s in
          if reached then durable_transport_offline s else (GATEWAY_OK, s)
        else (GATEWAY_OK, s))"

definition durable_reconnect_step :: "gateway_mqtt_sink \<Rightarrow> gateway_error_code \<times> gateway_mqtt_sink" where
  "durable_reconnect_step s =
     (if sn_connected (mk_snapshot s) then (GATEWAY_OK, s)
      else
        let (start, s) = (if mk_reconnect_in_progress s then (False, s)
                          else if \<not> mk_reconnect_deadline_set s then (True, s)
                          else timespec_reached (mk_reconnect_deadline s) s)
        in if \<not> start then watch_reconnect s
           else case begin_reconnect s of Inl result \<Rightarrow> result | Inr s \<Rightarrow> watch_reconnect s)"

subsection \<open>The public operations\<close>

definition acknowledge_buffered :: "u64 \<Rightarrow> gateway_mqtt_sink \<Rightarrow> gateway_mqtt_sink" where
  "acknowledge_buffered batch_seq s =
     (let n = of_nat (length (mk_records s)); last_seq = gateway_seq (last (mk_records s));
          s = stat_add GATEWAY_STAT_MQTT_RECORDS_ACKED n (s\<lparr>mk_records := [], mk_batch_deadline_set := False\<rparr>)
      in on_snapshot (\<lambda>v. v\<lparr>sn_buffered_records := 0, sn_batches_acked := sn_batches_acked v + 1,
           sn_records_acked := sn_records_acked v + n, sn_last_acked_batch_seq := batch_seq,
           sn_last_acked_gateway_seq := last_seq, sn_next_batch_seq := sn_next_batch_seq v + 1\<rparr>) s)"

definition settle_buffered :: "u64 \<Rightarrow> gateway_mqtt_sink \<Rightarrow> gateway_error_code \<times> gateway_mqtt_sink" where
  "settle_buffered batch_seq s =
     (let (notified, s) = reactor_notify s in
      if notified \<noteq> GATEWAY_OK then mqtt_failure GATEWAY_ERROR_SYSTEM s
      else let (deadline, s) = deadline_after_milliseconds (mk_ack_timeout_ms s) s in
        case deadline of
          None \<Rightarrow> mqtt_failure GATEWAY_ERROR_SYSTEM s
        | Some t \<Rightarrow>
            (case await_puback t s of
               (Wait_over, s) \<Rightarrow> (GATEWAY_OK, acknowledge_buffered batch_seq s)
             | (Wait_timeout, s) \<Rightarrow> mqtt_failure GATEWAY_ERROR_TIMEOUT s
             | (Wait_error code, s) \<Rightarrow> mqtt_failure code s))"

definition gateway_mqtt_sink_flush :: "gateway_mqtt_sink \<Rightarrow> gateway_error_code \<times> gateway_mqtt_sink" where
  "gateway_mqtt_sink_flush s =
     (if mk_durable s then flush_durable s
      else if mk_records s = [] then (GATEWAY_OK, s)
      else if \<not> ready s then (GATEWAY_ERROR_CLOSED, s)
      else
        let batch_seq = sn_next_batch_seq (mk_snapshot s) in
        case encode_payload_of batch_seq (mk_records s) s of
          Inl code \<Rightarrow> mqtt_failure code s
        | Inr payload \<Rightarrow>
            let (reply, s) = publish_call payload (stat_increment GATEWAY_STAT_MQTT_PUBLISH_ATTEMPTS s) in
            if reply_code reply \<noteq> MOSQ_ERR_SUCCESS then mqtt_failure GATEWAY_ERROR_IO s
            else settle_buffered batch_seq (publish_accepted (reply_mid reply) s))"

definition batch_due :: "gateway_mqtt_sink \<Rightarrow> bool \<times> gateway_mqtt_sink" where
  "batch_due s = (if mk_batch_deadline_set s then timespec_reached (mk_batch_deadline s) s else (False, s))"

definition gateway_mqtt_sink_poll :: "gateway_mqtt_sink \<Rightarrow> gateway_error_code \<times> gateway_mqtt_sink" where
  "gateway_mqtt_sink_poll s =
     (if mk_durable s
      then
        let (code, sp) = gateway_spool_poll (the_spool s); s = s\<lparr>mk_spool := Some sp\<rparr> in
        if code \<noteq> GATEWAY_OK then spool_failure code s
        else let (code, s) = durable_reconnect_step s in
          if code \<noteq> GATEWAY_OK then (code, s)
          else if \<not> sn_connected (mk_snapshot s) then (GATEWAY_OK, s)
          else let (code, mosquitto_code, s) = reactor_step 0 s in
            if code \<noteq> GATEWAY_OK \<or> mk_transport_lost s then durable_transport_offline s
            else
              let pending = snap_pending_records (gateway_spool_read (the_spool s)) in
              if pending = 0 then (GATEWAY_OK, s)
              else let (due, s) = (if mk_replay_pending s \<or> pending \<ge> mk_max_records s then (True, s) else batch_due s) in
                if due then flush_durable s else (GATEWAY_OK, s)
      else
        let (code, mosquitto_code, s) = reactor_step 0 s in
        if code \<noteq> GATEWAY_OK then mqtt_failure code s
        else let (due, s) = (if mk_records s = [] then (False, s) else batch_due s) in
          if due then gateway_mqtt_sink_flush s else (GATEWAY_OK, s))"

definition start_batch_deadline :: "gateway_mqtt_sink \<Rightarrow> bool \<times> gateway_mqtt_sink" where
  "start_batch_deadline s =
     (let (deadline, s) = deadline_after_milliseconds (mk_batch_interval_ms s) s in
      case deadline of
        None \<Rightarrow> (False, s)
      | Some t \<Rightarrow> (True, s\<lparr>mk_batch_deadline := t, mk_batch_deadline_set := True\<rparr>))"

definition consume_durable :: "telemetry_record \<Rightarrow> gateway_mqtt_sink \<Rightarrow> gateway_error_code \<times> gateway_mqtt_sink" where
  "consume_durable r s =
     (if mk_have_last_gateway_seq s \<and> gateway_seq r \<le> mk_last_gateway_seq s
      then (GATEWAY_ERROR_INVALID_VALUE, s)
      else
        let (code, sp) = gateway_spool_append r (the_spool s); s = s\<lparr>mk_spool := Some sp\<rparr> in
        if code \<noteq> GATEWAY_OK then spool_failure code s
        else
          let s = stat_increment GATEWAY_STAT_SPOOL_RECORDS_APPENDED s;
              s = s\<lparr>mk_have_last_gateway_seq := True, mk_last_gateway_seq := gateway_seq r\<rparr>;
              (started, s) = (if mk_batch_deadline_set s then (True, s) else start_batch_deadline s)
          in if \<not> started then spool_failure GATEWAY_ERROR_SYSTEM s
             else
               let (code, s) = (if mk_ever_connected s \<or> mk_reconnect_deadline_set s
                                then gateway_mqtt_sink_poll s else (GATEWAY_OK, s))
               in if code \<noteq> GATEWAY_OK then (code, s)
                  else
                    let pending = snap_pending_records (gateway_spool_read (the_spool s)); s = sync_spool_snapshot s in
                    if pending \<ge> mk_max_records s then flush_durable s else (GATEWAY_OK, s))"

definition consume_buffered :: "telemetry_record \<Rightarrow> gateway_mqtt_sink \<Rightarrow> gateway_error_code \<times> gateway_mqtt_sink" where
  "consume_buffered r s =
     (if \<not> ready s then (GATEWAY_ERROR_CLOSED, s)
      else if mk_have_last_gateway_seq s \<and> gateway_seq r \<le> mk_last_gateway_seq s
      then (GATEWAY_ERROR_INVALID_VALUE, s)
      else
        let (due, s) = (if mk_records s = [] then (False, s) else batch_due s);
            (code, s) = (if due then gateway_mqtt_sink_flush s else (GATEWAY_OK, s))
        in if code \<noteq> GATEWAY_OK then (code, s)
           else if length (mk_records s) \<ge> mk_max_records s then (GATEWAY_ERROR_RANGE, s)
           else
             let s = s\<lparr>mk_records := mk_records s @ [r], mk_have_last_gateway_seq := True,
                       mk_last_gateway_seq := gateway_seq r\<rparr>;
                 (started, s) = (if length (mk_records s) = 1 then start_batch_deadline s else (True, s))
             in if \<not> started then mqtt_failure GATEWAY_ERROR_SYSTEM s
                else
                  let s = on_snapshot (sn_buffered_records_update (\<lambda>_. length (mk_records s))) s in
                  if length (mk_records s) = mk_max_records s then gateway_mqtt_sink_flush s else (GATEWAY_OK, s))"

definition gateway_mqtt_sink_consume :: "telemetry_record \<Rightarrow> gateway_mqtt_sink \<Rightarrow> gateway_error_code \<times> gateway_mqtt_sink" where
  "gateway_mqtt_sink_consume r s =
     (if \<not> required_record_status_valid r then (GATEWAY_ERROR_INVALID_VALUE, s)
      else if mk_durable s then consume_durable r s else consume_buffered r s)"

definition gateway_mqtt_sink_disconnect :: "gateway_mqtt_sink \<Rightarrow> gateway_error_code \<times> gateway_mqtt_sink" where
  "gateway_mqtt_sink_disconnect s =
     (if mk_mosq s = None then (GATEWAY_ERROR_ARGUMENT, s)
      else
        let (reply, s) = library (\<lambda>_. [Disconnect_called (the (mk_mosq s))]) (s\<lparr>mk_explicit_disconnect := True\<rparr>) in
        if reply_code reply = MOSQ_ERR_NO_CONN then (GATEWAY_OK, s)
        else if reply_code reply \<noteq> MOSQ_ERR_SUCCESS then mqtt_failure GATEWAY_ERROR_IO s
        else let (notified, s) = reactor_notify s in
          if notified \<noteq> GATEWAY_OK then mqtt_failure GATEWAY_ERROR_SYSTEM s
          else let (code, mosquitto_code, s) = reactor_step MQTT_LOOP_SLICE_MS s in
            if code \<noteq> GATEWAY_OK \<and> mosquitto_code \<noteq> MOSQ_ERR_NO_CONN then mqtt_failure code s
            else (GATEWAY_OK, s))"

definition gateway_mqtt_sink_read :: "gateway_mqtt_sink \<Rightarrow> gateway_mqtt_sink_snapshot \<times> gateway_mqtt_sink" where
  "gateway_mqtt_sink_read s =
     (let s = sync_reactor_snapshot (sync_spool_snapshot s) in (mk_snapshot s, s))"

definition gateway_mqtt_sink_next_gateway_seq :: "gateway_mqtt_sink \<Rightarrow> u64" where
  "gateway_mqtt_sink_next_gateway_seq s =
     (let last_sequence = (if mk_durable s then gateway_spool_last_gateway_seq (the_spool s) else mk_last_gateway_seq s)
      in if last_sequence = - 1 then 0 else last_sequence + 1)"

subsection \<open>Creation and destruction\<close>

record gateway_mqtt_sink_config =
  mc_device_id :: "string option"
  mc_broker_host :: "string option"
  mc_broker_port :: u16
  mc_broker_username :: "string option"
  mc_broker_password :: "string option"
  mc_topic :: "string option"
  mc_batch_interval_ms :: u32
  mc_ack_timeout_ms :: u32
  mc_reconnect_interval_ms :: u32
  mc_spool_path :: "string option"
  mc_spool_format :: gateway_spool_format
  mc_spool_max_bytes :: nat
  mc_spool_sync_records :: nat
  mc_spool_sync_interval_ms :: nat
  mc_max_records :: nat
  mc_stats :: "gateway_stats option"
  mc_logger :: bool

text \<open>The arguments that are refused, in the order of the code. An absent string is a \<open>NULL\<close> pointer.\<close>

definition sink_config_invalid :: "gateway_mqtt_sink_config \<Rightarrow> bool" where
  "sink_config_invalid c \<longleftrightarrow>
     mc_device_id c = None \<or> mc_device_id c = Some [] \<or> mc_broker_host c = None \<or> mc_broker_host c = Some [] \<or>
     mc_broker_port c = 0 \<or> mc_broker_username c = None \<or> mc_broker_password c = None \<or>
     mc_topic c = None \<or> mc_topic c = Some [] \<or> mc_batch_interval_ms c = 0 \<or> mc_ack_timeout_ms c = 0 \<or>
     mc_max_records c = 0 \<or> mc_max_records c > GATEWAY_MQTT_BATCH_MAX_RECORDS \<or>
     mc_stats c = None \<or> \<not> mc_logger c \<or>
     length (the (mc_device_id c)) \<ge> GATEWAY_DEVICE_ID_SIZE \<or>
     length (the (mc_broker_host c)) \<ge> GATEWAY_BROKER_HOST_SIZE \<or>
     length (the (mc_broker_username c)) \<ge> GATEWAY_BROKER_USERNAME_SIZE \<or>
     length (the (mc_broker_password c)) \<ge> GATEWAY_BROKER_PASSWORD_SIZE \<or>
     length (the (mc_topic c)) \<ge> GATEWAY_MQTT_TOPIC_SIZE \<or>
     (case mc_spool_path c of None \<Rightarrow> False | Some p \<Rightarrow> p \<noteq> [] \<and> length p \<ge> LEGACY_PATH_SIZE) \<or>
     the (mc_broker_username c) = [] \<and> the (mc_broker_password c) \<noteq> []"

definition zero_mqtt_snapshot :: gateway_mqtt_sink_snapshot where
  "zero_mqtt_snapshot =
     \<lparr>sn_connected = False, sn_failed = False, sn_in_flight = False, sn_in_flight_mid = 0, sn_buffered_records = 0,
      sn_next_batch_seq = 0, sn_last_acked_batch_seq = 0, sn_last_acked_gateway_seq = 0, sn_batches_acked = 0,
      sn_records_acked = 0, sn_puback_matched = 0, sn_puback_unexpected = 0, sn_durable = False,
      sn_spool_total_records = 0, sn_spool_pending_records = 0, sn_spool_records_appended = 0,
      sn_spool_records_replayed = 0, sn_spool_tail_recoveries = 0, sn_spool_state_recoveries = 0,
      sn_spool_corruptions = 0, sn_spool_physical_bytes = 0, sn_spool_pending_bytes = 0, sn_spool_segment_count = 0,
      sn_spool_segments_reclaimed = 0, sn_spool_sync_count = 0, sn_spool_sync_failures = 0,
      sn_spool_unsynced_records = 0, sn_spool_v2 = False, sn_reactor_enabled = False, sn_reactor_network_fd = 0,
      sn_reactor_epoll_waits = 0, sn_reactor_wake_events = 0, sn_reactor_timer_expirations = 0,
      sn_reactor_socket_events = 0, sn_reactor_loop_read_calls = 0, sn_reactor_loop_write_calls = 0,
      sn_reactor_loop_misc_calls = 0\<rparr>"

definition DEFAULT_RECONNECT_INTERVAL_MS :: u32 where "DEFAULT_RECONNECT_INTERVAL_MS = 1000"

text \<open>The sink before its spool, library and reactor are there.\<close>

definition configured_sink :: "gateway_mqtt_sink_config \<Rightarrow> mqtt_world \<Rightarrow> gateway_mqtt_sink" where
  "configured_sink c w =
     \<lparr>mk_device_id = copy_string GATEWAY_DEVICE_ID_SIZE (the (mc_device_id c)),
      mk_broker_host = copy_string GATEWAY_BROKER_HOST_SIZE (the (mc_broker_host c)),
      mk_broker_port = mc_broker_port c,
      mk_broker_username = copy_string GATEWAY_BROKER_USERNAME_SIZE (the (mc_broker_username c)),
      mk_broker_password = copy_string GATEWAY_BROKER_PASSWORD_SIZE (the (mc_broker_password c)),
      mk_topic = copy_string GATEWAY_MQTT_TOPIC_SIZE (the (mc_topic c)),
      mk_batch_interval_ms = mc_batch_interval_ms c, mk_ack_timeout_ms = mc_ack_timeout_ms c,
      mk_reconnect_interval_ms = (if mc_reconnect_interval_ms c = 0 then DEFAULT_RECONNECT_INTERVAL_MS
        else mc_reconnect_interval_ms c),
      mk_max_records = mc_max_records c, mk_stats = the (mc_stats c), mk_mosq = None, mk_reactor = None,
      mk_spool = None, mk_records = [], mk_batch_deadline = \<lparr>tv_sec = 0, tv_nsec = 0\<rparr>,
      mk_batch_deadline_set = False, mk_library_initialized = False, mk_connect_callback_seen = False,
      mk_connect_result = 0, mk_explicit_disconnect = False, mk_durable = False, mk_ever_connected = False,
      mk_transport_lost = False, mk_reconnect_deadline_set = False, mk_reconnect_in_progress = False,
      mk_reconnect_attempt_deadline_set = False, mk_replay_pending = False,
      mk_reconnect_deadline = \<lparr>tv_sec = 0, tv_nsec = 0\<rparr>,
      mk_reconnect_attempt_deadline = \<lparr>tv_sec = 0, tv_nsec = 0\<rparr>,
      mk_have_last_gateway_seq = False, mk_last_gateway_seq = 0,
      mk_snapshot = zero_mqtt_snapshot\<lparr>sn_next_batch_seq := 1, sn_in_flight_mid := - 1, sn_reactor_network_fd := - 1\<rparr>,
      mk_world = w\<rparr>"

text \<open>Closing everything that the sink owns; the disk it hands back is the one its spool held.\<close>

definition gateway_mqtt_sink_destroy :: "gateway_mqtt_sink \<Rightarrow> disk \<Rightarrow> disk \<times> mqtt_world" where
  "gateway_mqtt_sink_destroy s d =
     (let s = (case mk_reactor s of
                 None \<Rightarrow> s
               | Some _ \<Rightarrow> let (code, s) = reactor_bind None s in
                   on_world (gateway_mqtt_reactor_destroy (the (mk_reactor s))) s);
          s = mosquitto_destroy s
      in (case mk_spool s of None \<Rightarrow> d | Some sp \<Rightarrow> gateway_spool_close sp, mk_world s))"

definition spool_options :: "gateway_mqtt_sink_config \<Rightarrow> gateway_spool_v2_options" where
  "spool_options c =
     (let opts = gateway_spool_v2_options_init;
          opts = (if mc_spool_max_bytes c \<noteq> 0 then opts\<lparr>max_bytes := mc_spool_max_bytes c\<rparr> else opts);
          opts = (if mc_spool_sync_records c \<noteq> 0 then opts\<lparr>sync_records := mc_spool_sync_records c\<rparr> else opts)
      in if mc_spool_sync_interval_ms c \<noteq> 0 then opts\<lparr>sync_interval_ms := mc_spool_sync_interval_ms c\<rparr> else opts)"

text \<open>The spool, when one is configured.\<close>

definition open_sink_spool ::
    "gateway_mqtt_sink_config \<Rightarrow> gateway_mqtt_sink \<Rightarrow> disk \<Rightarrow> gateway_error_code \<times> gateway_mqtt_sink \<times> disk" where
  "open_sink_spool c s d =
     (if mc_spool_path c = None \<or> mc_spool_path c = Some [] then (GATEWAY_OK, s, d)
      else
        let s = s\<lparr>mk_durable := True\<rparr>;
            (code, sp, d) = (if mc_spool_format c = GATEWAY_SPOOL_FORMAT_V2
               then gateway_spool_open_v2 (mc_spool_path c) (Some (spool_options c)) d
               else gateway_spool_open (mc_spool_path c) d)
        in if code \<noteq> GATEWAY_OK then (code, s, d)
           else
             let v = gateway_spool_read (the sp);
                 s = s\<lparr>mk_spool := sp, mk_have_last_gateway_seq := (snap_last_gateway_seq v \<noteq> 0),
                       mk_last_gateway_seq := snap_last_gateway_seq v,
                       mk_replay_pending := (snap_pending_records v \<noteq> 0)\<rparr>;
                 s = stat_add GATEWAY_STAT_SPOOL_TAIL_RECOVERIES (snap_tail_recoveries v) s;
                 s = stat_add GATEWAY_STAT_SPOOL_STATE_RECOVERIES (snap_state_recoveries v) s
             in (GATEWAY_OK, sync_spool_snapshot s, d))"

text \<open>The library, its client and the reactor.\<close>

definition start_sink_library :: "gateway_mqtt_sink \<Rightarrow> gateway_error_code \<times> gateway_mqtt_sink" where
  "start_sink_library s =
     (let (initialised, w) = plain_call (mk_world s); s = s\<lparr>mk_world := w\<rparr> in
      if \<not> initialised then (GATEWAY_ERROR_SYSTEM, s)
      else
        let (code, s) = create_mosquitto_client (s\<lparr>mk_library_initialized := True\<rparr>) in
        if code \<noteq> GATEWAY_OK then (GATEWAY_ERROR_SYSTEM, s)
        else
          let (code, r, w) = gateway_mqtt_reactor_create (mk_mosq s) MQTT_MISC_INTERVAL_MS (mk_world s);
              s = run_delivered (s\<lparr>mk_reactor := r, mk_world := w\<rparr>)
          in if code \<noteq> GATEWAY_OK then (GATEWAY_ERROR_SYSTEM, s) else (GATEWAY_OK, sync_reactor_snapshot s))"

definition gateway_mqtt_sink_create ::
    "gateway_mqtt_sink_config option \<Rightarrow> disk \<Rightarrow> mqtt_world \<Rightarrow>
       gateway_error_code \<times> gateway_mqtt_sink option \<times> disk \<times> mqtt_world" where
  "gateway_mqtt_sink_create config d w =
     (case config of
        None \<Rightarrow> (GATEWAY_ERROR_ARGUMENT, None, d, w)
      | Some c \<Rightarrow>
          if sink_config_invalid c then (GATEWAY_ERROR_ARGUMENT, None, d, w)
          else
            let (sink_ok, w) = plain_call w in
            if \<not> sink_ok then (GATEWAY_ERROR_SYSTEM, None, d, w)
            else
              let (records_ok, w) = plain_call w; (payload_ok, w) = plain_call w in
              if \<not> records_ok \<or> \<not> payload_ok then (GATEWAY_ERROR_SYSTEM, None, d, w)
              else
                let (mutex_ok, w) = plain_call w in
                if \<not> mutex_ok then (GATEWAY_ERROR_SYSTEM, None, d, w)
                else
                  let (code, s, d) = open_sink_spool c (configured_sink c w) d in
                  if code \<noteq> GATEWAY_OK then (code, None, gateway_mqtt_sink_destroy s d)
                  else
                    let (code, s) = start_sink_library s in
                    if code \<noteq> GATEWAY_OK then (code, None, gateway_mqtt_sink_destroy s d)
                    else (GATEWAY_OK, Some s, d, mk_world s))"

end
