(* ===== verification/Mqtt_Sink_Queue.thy ===== *)
theory Mqtt_Sink_Queue
  imports Mqtt_Sink
begin

text \<open>
  What the sink's functions do to the records it holds: the queue of a sink, what the library calls leave alone, and
  the evidence that a batch was delivered.
\<close>

subsection \<open>The queue of a sink\<close>

definition sink_queue :: "gateway_mqtt_sink \<Rightarrow> telemetry_record list" where
  "sink_queue s = (if mk_durable s then queued (the_spool s) else mk_records s)"

text \<open>Evidence of delivery: the document of the batch was published by a client, and the PUBACK with the
  message identifier of that publication arrived at the same client before it was destroyed.\<close>

definition delivered_batch :: "string \<Rightarrow> mqtt_event list \<Rightarrow> telemetry_record list \<Rightarrow> bool" where
  "delivered_batch device h batch \<longleftrightarrow>
     (\<exists>before c mid topic payload between after batch_seq.
        h = before @ [Published c mid topic payload] @ between @ [Callback_run c (On_publish mid)] @ after \<and>
        Client_destroyed c \<notin> set between \<and>
        gateway_mqtt_encode_batch (Some GATEWAY_MQTT_PAYLOAD_CAPACITY) (Some device) batch_seq (Some batch) True =
          Inr payload)"

lemma delivered_batch_mono: "delivered_batch device h batch \<Longrightarrow> delivered_batch device (h @ h') batch"
  unfolding delivered_batch_def by (metis append.assoc)

abbreviation log_of :: "gateway_mqtt_sink \<Rightarrow> mqtt_event list" where
  "log_of s \<equiv> history (mk_world s)"

abbreviation flight_mid :: "gateway_mqtt_sink \<Rightarrow> int" where
  "flight_mid s \<equiv> sn_in_flight_mid (mk_snapshot s)"

abbreviation sink_failed :: "gateway_mqtt_sink \<Rightarrow> bool" where
  "sink_failed s \<equiv> sn_failed (mk_snapshot s)"

text \<open>The reactor drives the sink's client, and every callback that ran has been seen.\<close>

definition linked :: "gateway_mqtt_sink \<Rightarrow> bool" where
  "linked s \<longleftrightarrow> delivered (mk_world s) = [] \<and> (\<exists>r. mk_reactor s = Some r \<and> client r = mk_mosq s)"

subsection \<open>Calm steps\<close>

text \<open>What a step keeps that neither touches the queue nor changes the client.\<close>

definition kept :: "gateway_mqtt_sink \<Rightarrow> gateway_mqtt_sink \<Rightarrow> bool" where
  "kept s s' \<longleftrightarrow> mk_spool s' = mk_spool s \<and> mk_records s' = mk_records s \<and> mk_durable s' = mk_durable s \<and>
     mk_device_id s' = mk_device_id s \<and> mk_max_records s' = mk_max_records s \<and> mk_mosq s' = mk_mosq s"

text \<open>No client is destroyed, and a message in flight stays in flight until its PUBACK.\<close>

definition calm :: "gateway_mqtt_sink \<Rightarrow> gateway_mqtt_sink \<Rightarrow> bool" where
  "calm s s' \<longleftrightarrow> kept s s' \<and> (linked s \<longrightarrow> linked s' \<and>
     (\<exists>h. log_of s' = log_of s @ h \<and> (\<forall>c. Client_destroyed c \<notin> set h) \<and>
        (in_flight s \<longrightarrow> in_flight s' \<and> flight_mid s' = flight_mid s \<or>
           (\<exists>c. mk_mosq s = Some c \<and> Callback_run c (On_publish (flight_mid s)) \<in> set h))) \<and>
     (\<not> in_flight s \<longrightarrow> \<not> in_flight s') \<and> (sink_failed s \<longrightarrow> sink_failed s'))"

lemma kept_refl: "kept s s"
  by (simp add: kept_def)

lemma kept_trans: "kept s t \<Longrightarrow> kept t u \<Longrightarrow> kept s u"
  by (simp add: kept_def)

lemma calm_refl: "calm s s"
  unfolding calm_def kept_def by (auto intro: exI [of _ "[]"])

lemma calm_kept: "calm s t \<Longrightarrow> kept s t"
  by (simp add: calm_def)

lemma calm_trans:
  assumes a: "calm s t" and b: "calm t u"
  shows "calm s u"
proof -
  have k: "kept s u" using assms kept_trans calm_kept by blast
  have m: "mk_mosq t = mk_mosq s" using a by (simp add: calm_def kept_def)
  show ?thesis
    unfolding calm_def
  proof (intro conjI impI k)
    assume l: "linked s"
    let ?acked = "\<lambda>s h. \<exists>c. mk_mosq s = Some c \<and> Callback_run c (On_publish (flight_mid s)) \<in> set h"
    obtain h where h: "linked t" "log_of t = log_of s @ h" "\<forall>c. Client_destroyed c \<notin> set h"
      "in_flight s \<longrightarrow> in_flight t \<and> flight_mid t = flight_mid s \<or> ?acked s h"
      "\<not> in_flight s \<longrightarrow> \<not> in_flight t" "sink_failed s \<longrightarrow> sink_failed t"
      using a l by (auto simp: calm_def)
    obtain h' where h': "linked u" "log_of u = log_of t @ h'" "\<forall>c. Client_destroyed c \<notin> set h'"
      "in_flight t \<longrightarrow> in_flight u \<and> flight_mid u = flight_mid t \<or> ?acked t h'"
      "\<not> in_flight t \<longrightarrow> \<not> in_flight u" "sink_failed t \<longrightarrow> sink_failed u"
      using b h(1) by (auto simp: calm_def)
    show "linked u" by (fact h')
    show "\<not> in_flight u" if "\<not> in_flight s" using that h h' by blast
    show "sink_failed u" if "sink_failed s" using that h h' by blast
    show "\<exists>h. log_of u = log_of s @ h \<and> (\<forall>c. Client_destroyed c \<notin> set h) \<and>
        (in_flight s \<longrightarrow> in_flight u \<and> flight_mid u = flight_mid s \<or> ?acked s h)"
      by (rule exI [of _ "h @ h'"]) (use h h' m in auto)
  qed
qed

text \<open>Bookkeeping that changes none of what \<open>calm\<close> looks at.\<close>

lemma calm_book:
  assumes "kept s s'" and "mk_world s' = mk_world s" and "mk_reactor s' = mk_reactor s"
    and "in_flight s' = in_flight s" and "flight_mid s' = flight_mid s" and "sink_failed s \<longrightarrow> sink_failed s'"
  shows "calm s s'"
  using assms unfolding calm_def by (auto simp: kept_def linked_def intro: exI [of _ "[]"])

lemma calm_simps [simp]:
  "calm s (stat_add c v s)" "calm s (snapshot_mark_failed s)" "calm s (snapshot_set_mqtt_failed s)"
  "calm s (sync_spool_snapshot s)" "calm s (sync_reactor_snapshot s)"
  by (rule calm_book; simp add: stat_add_def snapshot_mark_failed_def snapshot_set_mqtt_failed_def
      sync_spool_snapshot_def sync_reactor_snapshot_def kept_def Let_def split: option.split)+

subsection \<open>Callbacks\<close>

lemma run_callback_frame:
  "mk_world (run_callback cb s) = mk_world s" "mk_reactor (run_callback cb s) = mk_reactor s"
  "kept s (run_callback cb s)" "flight_mid (run_callback cb s) = flight_mid s"
  "sink_failed s \<Longrightarrow> sink_failed (run_callback cb s)"
  "\<not> in_flight s \<Longrightarrow> \<not> in_flight (run_callback cb s)"
  "in_flight s \<Longrightarrow> cb \<noteq> On_publish (flight_mid s) \<Longrightarrow> in_flight (run_callback cb s)"
  by (cases cb; simp add: on_connect_def on_disconnect_def on_publish_def stat_add_def snapshot_set_mqtt_failed_def
      snapshot_mark_failed_def kept_def Let_def)+

lemma run_callbacks_frame:
  "mk_world (fold run_callback cbs s) = mk_world s \<and> mk_reactor (fold run_callback cbs s) = mk_reactor s \<and>
   kept s (fold run_callback cbs s) \<and> flight_mid (fold run_callback cbs s) = flight_mid s \<and>
   (sink_failed s \<longrightarrow> sink_failed (fold run_callback cbs s)) \<and>
   (\<not> in_flight s \<longrightarrow> \<not> in_flight (fold run_callback cbs s)) \<and>
   (in_flight s \<longrightarrow> in_flight (fold run_callback cbs s) \<or> On_publish (flight_mid s) \<in> set cbs)"
proof (induction cbs arbitrary: s)
  case Nil
  then show ?case by (simp add: kept_refl)
next
  case (Cons cb cbs)
  note f = run_callback_frame [where cb = cb and s = s]
  show ?case
    using Cons [of "run_callback cb s"] f kept_trans by auto
qed

text \<open>A library call whose callbacks are then run.\<close>

lemma run_delivered_result:
  fixes s :: gateway_mqtt_sink and w :: mqtt_world
  assumes "delivered w = ds"
  defines "t \<equiv> run_delivered (s\<lparr>mk_world := w\<rparr>)"
  shows "kept s t" and "mk_reactor t = mk_reactor s" and "delivered (mk_world t) = []" and "log_of t = history w"
    and "in_flight s \<longrightarrow> in_flight t \<and> flight_mid t = flight_mid s \<or> On_publish (flight_mid s) \<in> set ds"
    and "\<not> in_flight s \<longrightarrow> \<not> in_flight t" and "sink_failed s \<longrightarrow> sink_failed t"
    and "clock_answers (mk_world t) = clock_answers w" and "flight_mid t = flight_mid s"
proof -
  let ?u = "on_world (delivered_update (\<lambda>_. [])) (s\<lparr>mk_world := w\<rparr>)"
  have t: "t = fold run_callback ds ?u" using assms(1) by (simp add: t_def run_delivered_def)
  have f: "mk_world t = mk_world ?u" "mk_reactor t = mk_reactor ?u" "kept ?u t" "flight_mid t = flight_mid ?u"
    "sink_failed ?u \<longrightarrow> sink_failed t" "\<not> in_flight ?u \<longrightarrow> \<not> in_flight t"
    "in_flight ?u \<longrightarrow> in_flight t \<or> On_publish (flight_mid ?u) \<in> set ds"
    using run_callbacks_frame [of ds ?u] unfolding t by blast+
  show "kept s t" using f(3) by (simp add: kept_def)
  show "mk_reactor t = mk_reactor s" using f(2) by simp
  show "delivered (mk_world t) = []" "log_of t = history w" "clock_answers (mk_world t) = clock_answers w"
    using f(1) by simp_all
  show "in_flight s \<longrightarrow> in_flight t \<and> flight_mid t = flight_mid s \<or> On_publish (flight_mid s) \<in> set ds"
    using f(4,7) by simp
  show "\<not> in_flight s \<longrightarrow> \<not> in_flight t" "sink_failed s \<longrightarrow> sink_failed t" "flight_mid t = flight_mid s"
    using f(4-6) by simp_all
qed

lemma linked_client: "linked s \<Longrightarrow> client (the (mk_reactor s)) = mk_mosq s \<and> delivered (mk_world s) = []"
  by (auto simp: linked_def)

lemma calm_delivered:
  assumes ds: "delivered w = delivered (mk_world s) @ ds"
    and h: "history w = log_of s @ h @ map (Callback_run (the (mk_mosq s))) ds" "\<forall>c. Client_destroyed c \<notin> set h"
    and none: "mk_mosq s = None \<longrightarrow> ds = []" and r: "mk_reactor s \<noteq> None" "client r' = client (the (mk_reactor s))"
  shows "calm s (run_delivered (s\<lparr>mk_reactor := Some r', mk_world := w\<rparr>))"
proof -
  let ?s = "s\<lparr>mk_reactor := Some r'\<rparr>" and ?t = "run_delivered (s\<lparr>mk_reactor := Some r', mk_world := w\<rparr>)"
  show ?thesis
    unfolding calm_def
  proof (intro conjI impI)
    note f = run_delivered_result [OF refl, where s = ?s and w = w]
    show "kept s ?t" using f(1) by (simp add: kept_def)
    assume "linked s"
    then have d: "delivered w = ds" using ds linked_client by auto
    note g = run_delivered_result [OF d, where s = ?s]
    show "linked ?t" using g(1-3) \<open>linked s\<close> r by (auto simp: linked_def kept_def)
    show "\<not> in_flight ?t" if "\<not> in_flight s" using that g(6) by simp
    show "sink_failed ?t" if "sink_failed s" using that g(7) by simp
    show "\<exists>h. log_of ?t = log_of s @ h \<and> (\<forall>c. Client_destroyed c \<notin> set h) \<and>
        (in_flight s \<longrightarrow> in_flight ?t \<and> flight_mid ?t = flight_mid s \<or>
          (\<exists>c. mk_mosq s = Some c \<and> Callback_run c (On_publish (flight_mid s)) \<in> set h))"
    proof (intro exI conjI)
      show "log_of ?t = log_of s @ h @ map (Callback_run (the (mk_mosq s))) ds" using g(4) h(1) by simp
      show "\<forall>c. Client_destroyed c \<notin> set (h @ map (Callback_run (the (mk_mosq s))) ds)" using h(2) by auto
      show "in_flight s \<longrightarrow> in_flight ?t \<and> flight_mid ?t = flight_mid s \<or>
          (\<exists>c. mk_mosq s = Some c \<and> Callback_run c (On_publish (flight_mid s)) \<in>
             set (h @ map (Callback_run (the (mk_mosq s))) ds))"
        using g(5) none by (cases "mk_mosq s") auto
    qed
  qed
qed

lemma calm_reacts:
  assumes "reacts (the (mk_reactor s), mk_world s) (r', w)" and "linked s"
  shows "calm s (run_delivered (s\<lparr>mk_reactor := Some r', mk_world := w\<rparr>))"
proof -
  have c: "client (the (mk_reactor s)) = mk_mosq s" "mk_reactor s \<noteq> None" using assms(2) by (auto simp: linked_def)
  obtain ds where ds: "delivered w = delivered (mk_world s) @ ds"
      "history w = log_of s @ map (Callback_run (the (mk_mosq s))) ds" "mk_mosq s = None \<longrightarrow> ds = []"
      "client r' = client (the (mk_reactor s))"
    using assms(1) c by (auto simp: reacts_def)
  show ?thesis by (rule calm_delivered [where ds = ds and h = "[]"]) (use ds c in auto)
qed

lemma calm_unlinked: "\<not> linked s \<Longrightarrow> kept s s' \<Longrightarrow> calm s s'"
  by (simp add: calm_def)

lemma run_delivered_kept: "kept s (run_delivered (s\<lparr>mk_reactor := r, mk_world := w\<rparr>))"
  using run_delivered_result(1) [OF refl, where s = "s\<lparr>mk_reactor := r\<rparr>" and w = w] by (simp add: kept_def)

lemma calm_reactor_step:
  assumes "reactor_step t s = (code, mc, s')"
  shows "calm s s'"
proof -
  obtain c m r w where g: "gateway_mqtt_reactor_step t (the (mk_reactor s)) (mk_world s) = (c, m, r, w)" by (metis prod_cases4)
  let ?u = "run_delivered (s\<lparr>mk_reactor := Some r, mk_world := w\<rparr>)"
  have "calm s ?u"
    using calm_reacts [OF reacts_step [OF g]] calm_unlinked run_delivered_kept by blast
  moreover have "s' = sync_reactor_snapshot ?u" using assms g by (simp add: reactor_step_def)
  ultimately show ?thesis using calm_trans calm_simps(5) by blast
qed

lemma calm_notify:
  assumes "reactor_notify s = (code, s')"
  shows "calm s s'"
proof -
  obtain c r w where g: "gateway_mqtt_reactor_notify (the (mk_reactor s)) (mk_world s) = (c, r, w)" by (metis prod_cases3)
  obtain i w1 where i: "transfer (mk_world s) = (i, w1)" by (metis surj_pair)
  have w1: "delivered w1 = delivered (mk_world s)" "history w1 = log_of s"
    using i by (auto simp: transfer_def Let_def split: prod.split_asm)
  have "w = w1" "client r = client (the (mk_reactor s))"
    using g i by (auto simp: gateway_mqtt_reactor_notify_def Let_def split: io_outcome.split_asm)
  moreover have "s' = s\<lparr>mk_reactor := Some r, mk_world := w\<rparr>" using assms g by (simp add: reactor_notify_def)
  ultimately show ?thesis using w1 by (auto simp: calm_def kept_def linked_def)
qed

lemma clock_frame: "monotonic_clock w = (t, w') \<Longrightarrow> delivered w' = delivered w \<and> history w' = history w"
  by (auto simp: monotonic_clock_def Let_def split: prod.split_asm)

lemma calm_world: "delivered w = delivered (mk_world s) \<Longrightarrow> history w = log_of s \<Longrightarrow> calm s (s\<lparr>mk_world := w\<rparr>)"
  by (auto simp: calm_def kept_def linked_def)

lemma calm_clock:
  "timespec_reached d s = (b, s') \<Longrightarrow> calm s s'"
  "deadline_after_milliseconds ms s = (r, s') \<Longrightarrow> calm s s'"
  "batch_due s = (b, s') \<Longrightarrow> calm s s'"
  "calm s (set_clock readings s)"
  using clock_frame [of "mk_world s"]
  by (auto simp: timespec_reached_def deadline_after_milliseconds_def batch_due_def set_clock_def Let_def calm_refl
      intro!: calm_world split: prod.split_asm if_split_asm)

lemma calm_await: "await_loop over lost deadline readings s = (e, s') \<Longrightarrow> calm s s'"
proof (induction over lost deadline readings s arbitrary: e s' rule: await_loop.induct)
  case (1 over lost deadline s)
  then show ?case using calm_clock(4) by (auto split: if_split_asm)
next
  case (2 over lost deadline reading readings s)
  let ?remaining = "milliseconds_until deadline reading"
  let ?slice = "if ?remaining < MQTT_LOOP_SLICE_MS then ?remaining else MQTT_LOOP_SLICE_MS"
  obtain code mc t where r: "reactor_step ?slice s = (code, mc, t)" by (metis prod_cases3)
  note t = calm_reactor_step [OF r]
  show ?case
  proof (cases "over s \<or> ?remaining \<le> 0")
    case True
    then show ?thesis using 2(2) calm_clock(4) by (auto simp: Let_def split: if_split_asm)
  next
    case False
    then have "(if code \<noteq> GATEWAY_OK \<or> lost t then (Wait_error code, set_clock readings t)
        else await_loop over lost deadline readings t) = (e, s')"
      using 2(2) r by (simp add: Let_def)
    then consider "s' = set_clock readings t" | "await_loop over lost deadline readings t = (e, s')" "code = GATEWAY_OK" "\<not> lost t"
      by (auto split: if_split_asm)
    then show ?thesis
    proof cases
      case 1
      then show ?thesis using calm_trans [OF t calm_clock(4)] by simp
    next
      case again: 2
      have "calm t s'"
        using 2(1) [OF _ refl _ refl refl r [symmetric] refl _ again(1)] False again(2,3) by simp
      then show ?thesis by (rule calm_trans [OF t])
    qed
  qed
qed

lemma await_over: "await_loop over lost deadline readings s = (Wait_over, s') \<Longrightarrow>
    (\<And>t xs. over (set_clock xs t) = over t) \<Longrightarrow> over s'"
proof (induction over lost deadline readings s arbitrary: s' rule: await_loop.induct)
  case (1 over lost deadline s)
  then show ?case by (auto split: if_split_asm)
next
  case (2 over lost deadline reading readings s)
  let ?remaining = "milliseconds_until deadline reading"
  let ?slice = "if ?remaining < MQTT_LOOP_SLICE_MS then ?remaining else MQTT_LOOP_SLICE_MS"
  obtain code mc t where r: "reactor_step ?slice s = (code, mc, t)" by (metis prod_cases3)
  show ?case
  proof (cases "over s \<or> ?remaining \<le> 0")
    case True
    then show ?thesis using 2(2,3) by (auto simp: Let_def split: if_split_asm)
  next
    case False
    then have again: "await_loop over lost deadline readings t = (Wait_over, s')" "code = GATEWAY_OK" "\<not> lost t"
      using 2(2) r by (auto simp: Let_def split: if_split_asm)
    show ?thesis
      using 2(1) [OF _ refl _ refl refl r [symmetric] refl _ again(1) 2(3)] False again(2,3) by simp
  qed
qed

subsection \<open>Library calls\<close>

lemma library_result:
  assumes l: "library events s = (reply, s')" and ev: "\<And>a c. Client_destroyed c \<notin> set (events a)"
  shows "calm s s'"
    and "mk_mosq s = None \<Longrightarrow> s' = s \<and> reply_code reply \<noteq> MOSQ_ERR_SUCCESS"
    and "mk_mosq s \<noteq> None \<Longrightarrow> linked s \<Longrightarrow> log_of s' = log_of s @ events reply @
      map (Callback_run (the (mk_mosq s))) (reply_callbacks reply)"
proof -
  show none: "mk_mosq s = None \<Longrightarrow> s' = s \<and> reply_code reply \<noteq> MOSQ_ERR_SUCCESS"
    using l by (auto simp: library_def MOSQ_ERR_INVAL_def MOSQ_ERR_SUCCESS_def)
  obtain a w where lib: "lib_call_with events (the (mk_mosq s)) (mk_world s) = (a, w)" by (metis surj_pair)
  have w: "delivered w = delivered (mk_world s) @ reply_callbacks a"
    "history w = log_of s @ events a @ map (Callback_run (the (mk_mosq s))) (reply_callbacks a)"
    using lib by (auto simp: lib_call_with_def Let_def split: prod.split_asm)
  have s': "reply = a" "s' = run_delivered (s\<lparr>mk_world := w\<rparr>)" if "mk_mosq s \<noteq> None"
    using l lib that by (auto simp: library_def)
  show "calm s s'"
  proof (cases "mk_mosq s = None")
    case True
    then show ?thesis using none calm_refl by simp
  next
    case False
    show ?thesis
    proof (cases "linked s")
      case True
      then obtain r where r: "mk_reactor s = Some r" "client r = mk_mosq s" by (auto simp: linked_def)
      have "calm s (run_delivered (s\<lparr>mk_reactor := Some r, mk_world := w\<rparr>))"
        by (rule calm_delivered [OF w(1) w(2)]) (use ev r False in auto)
      moreover have "s\<lparr>mk_reactor := Some r, mk_world := w\<rparr> = s\<lparr>mk_world := w\<rparr>" using r(1) by (cases s) simp
      ultimately show ?thesis using s' False by simp
    next
      case unlinked: False
      then show ?thesis
        using calm_unlinked s'(2) False run_delivered_result(1) [OF refl, where s = s and w = w] by metis
    qed
  qed
  show "log_of s' = log_of s @ events reply @ map (Callback_run (the (mk_mosq s))) (reply_callbacks reply)"
    if "mk_mosq s \<noteq> None" "linked s"
    using s' that w(2) run_delivered_result(4) [OF refl, where s = s and w = w] by simp
qed

lemma calm_connect_call: "connect_call s = (reply, s') \<Longrightarrow> calm s s'"
  using library_result(1) [of "\<lambda>_. [Connect_called (the (mk_mosq s))]" s reply s'] by (simp add: connect_call_def)

text \<open>The client is replaced: the queue stays, and what is in flight is forgotten.\<close>

definition rewired :: "gateway_mqtt_sink \<Rightarrow> gateway_mqtt_sink \<Rightarrow> bool" where
  "rewired s s' \<longleftrightarrow> mk_spool s' = mk_spool s \<and> mk_records s' = mk_records s \<and> mk_durable s' = mk_durable s \<and>
     mk_device_id s' = mk_device_id s \<and> mk_max_records s' = mk_max_records s \<and>
     (linked s \<longrightarrow> linked s' \<and> (\<exists>h. log_of s' = log_of s @ h) \<and> (\<not> in_flight s \<longrightarrow> \<not> in_flight s') \<and>
       (sink_failed s \<longrightarrow> sink_failed s'))"

lemma rewired_trans: "rewired s t \<Longrightarrow> rewired t u \<Longrightarrow> rewired s u"
  unfolding rewired_def by (elim conjE) (intro conjI impI; (simp; fail)?; auto)

lemma calm_rewired: "calm s s' \<Longrightarrow> rewired s s'"
  by (auto simp: calm_def kept_def rewired_def)

text \<open>Between the moments when the reactor and the sink agree on the client, every callback has been seen and the reactor
  is left alone.\<close>

definition unbound :: "gateway_mqtt_sink \<Rightarrow> bool" where
  "unbound s \<longleftrightarrow> delivered (mk_world s) = []"

definition detached :: "gateway_mqtt_sink \<Rightarrow> gateway_mqtt_sink \<Rightarrow> bool" where
  "detached s s' \<longleftrightarrow> mk_spool s' = mk_spool s \<and> mk_records s' = mk_records s \<and> mk_durable s' = mk_durable s \<and>
     mk_device_id s' = mk_device_id s \<and> mk_max_records s' = mk_max_records s \<and> mk_reactor s' = mk_reactor s \<and> unbound s' \<and>
     (\<exists>h. log_of s' = log_of s @ h) \<and> (\<not> in_flight s \<longrightarrow> \<not> in_flight s') \<and> (sink_failed s \<longrightarrow> sink_failed s')"

lemma detached_trans: "detached s t \<Longrightarrow> detached t u \<Longrightarrow> detached s u"
  unfolding detached_def by auto

lemma bind_result:
  assumes b: "reactor_bind c s = (code, s')" and r: "mk_reactor s = Some r" and d: "delivered (mk_world s) = []"
  shows "kept s s'" and "delivered (mk_world s') = []" and "\<exists>r'. mk_reactor s' = Some r' \<and> client r' = c"
    and "\<exists>h. log_of s' = log_of s @ h" and "\<not> in_flight s \<longrightarrow> \<not> in_flight s'" and "sink_failed s \<longrightarrow> sink_failed s'"
    and "c = None \<Longrightarrow> code = GATEWAY_OK"
proof -
  obtain code' r' w where g: "gateway_mqtt_reactor_bind c r (mk_world s) = (code', r', w)" by (metis prod_cases3)
  have s': "s' = run_delivered ((s\<lparr>mk_reactor := Some r'\<rparr>)\<lparr>mk_world := w\<rparr>)" "code = code'"
    using b r g by (simp_all add: reactor_bind_def)
  have re: "client r' = c" "\<exists>h. history w = log_of s @ h"
    using reacts_bind [OF g] by (auto simp: reacts_def)
  note f = run_delivered_result [OF refl, where s = "s\<lparr>mk_reactor := Some r'\<rparr>" and w = w, folded s'(1)]
  show "kept s s'" using f(1) by (simp add: kept_def)
  show "delivered (mk_world s') = []" "\<exists>r'. mk_reactor s' = Some r' \<and> client r' = c"
    "\<exists>h. log_of s' = log_of s @ h" "\<not> in_flight s \<longrightarrow> \<not> in_flight s'" "sink_failed s \<longrightarrow> sink_failed s'"
    using f re by simp_all
  show "code = GATEWAY_OK" if "c = None"
    using g s'(2) that by (auto simp: gateway_mqtt_reactor_bind_def update_network_fd_def split: prod.split_asm)
qed

lemma detached_library:
  assumes l: "library (\<lambda>_. []) s = (reply, s')" and u: "unbound s"
  shows "detached s s' \<and> mk_mosq s' = mk_mosq s"
proof (cases "mk_mosq s")
  case None
  then show ?thesis using l u by (auto simp: library_def detached_def)
next
  case (Some c)
  obtain a w where lib: "lib_call_with (\<lambda>_. []) c (mk_world s) = (a, w)" by (metis surj_pair)
  have w: "\<exists>h. history w = log_of s @ h" using lib by (auto simp: lib_call_with_def Let_def split: prod.split_asm)
  have "s' = run_delivered (s\<lparr>mk_world := w\<rparr>)" using l lib Some by (simp add: library_def)
  then show ?thesis
    using run_delivered_result [OF refl, where s = s and w = w] w u by (auto simp: detached_def kept_def unbound_def)
qed

lemma detached_new: "unbound s \<Longrightarrow> detached s (mosquitto_new s)"
  by (auto simp: mosquitto_new_def plain_call_def detached_def unbound_def Let_def split: prod.split)

lemma detached_destroy: "unbound s \<Longrightarrow> detached s ((mosquitto_destroy s)\<lparr>mk_mosq := c\<rparr>)"
  by (auto simp: mosquitto_destroy_def detached_def unbound_def split: option.split)

lemma unbound_after: "detached s s' \<Longrightarrow> unbound s'"
  by (simp add: detached_def)

lemma create_client_result:
  assumes "create_mosquitto_client s = (code, s')" and u: "unbound s"
  shows "detached s s'" and "code \<noteq> GATEWAY_OK \<Longrightarrow> mk_mosq s' = None"
proof -
  define s1 where "s1 = mosquitto_new s"
  obtain a s2 where l: "library (\<lambda>_. []) s1 = (a, s2)" by (metis surj_pair)
  obtain b s3 where m: "library (\<lambda>_. []) s2 = (b, s3)" by (metis surj_pair)
  have d1: "detached s s1" unfolding s1_def by (rule detached_new [OF u])
  note d2 = detached_trans [OF d1 conjunct1 [OF detached_library [OF l unbound_after [OF d1]]]]
  note d3 = detached_trans [OF d2 conjunct1 [OF detached_library [OF m unbound_after [OF d2]]]]
  have destroyed: "detached s ((mosquitto_destroy s2)\<lparr>mk_mosq := None\<rparr>)" "detached s ((mosquitto_destroy s3)\<lparr>mk_mosq := None\<rparr>)"
    using detached_trans [OF d2 detached_destroy] detached_trans [OF d3 detached_destroy] unbound_after d2 d3 by blast+
  consider "s' = s1" "code = GATEWAY_OK \<or> mk_mosq s' = None" | "s' = s2" "code = GATEWAY_OK" | "s' = s3" "code = GATEWAY_OK"
    | "s' = (mosquitto_destroy s2)\<lparr>mk_mosq := None\<rparr>" | "s' = (mosquitto_destroy s3)\<lparr>mk_mosq := None\<rparr>"
    using assms(1) l m by (auto simp: create_mosquitto_client_def s1_def [symmetric] Let_def split: if_split_asm)
  then show "detached s s'" "code \<noteq> GATEWAY_OK \<Longrightarrow> mk_mosq s' = None"
    using d1 d2 d3 destroyed by (cases; auto)+
qed

lemma reset_result:
  assumes "reset_mosquitto_client s = (code, s')"
  shows "linked s \<Longrightarrow> rewired s s'"
proof -
  assume l: "linked s"
  then obtain r where r: "mk_reactor s = Some r" "delivered (mk_world s) = []" by (auto simp: linked_def)
  obtain c1 s1 where b1: "reactor_bind None s = (c1, s1)" by (metis surj_pair)
  note f1 = bind_result [OF b1 r]
  have c1: "c1 = GATEWAY_OK" using f1(7) by simp
  obtain r1 where r1: "mk_reactor s1 = Some r1" "client r1 = None" using f1(3) by auto
  have u1: "unbound s1" using f1(2) by (simp add: unbound_def)
  define s2 where "s2 = (mosquitto_destroy s1)\<lparr>mk_mosq := None, mk_transport_lost := False, mk_connect_callback_seen := False,
      mk_explicit_disconnect := False, mk_reconnect_in_progress := False, mk_reconnect_attempt_deadline_set := False\<rparr>"
  have "detached s1 ((mosquitto_destroy s1)\<lparr>mk_mosq := None\<rparr>)" using detached_destroy u1 by blast
  then have d2: "detached s1 s2" unfolding s2_def by (simp add: detached_def unbound_def)
  obtain c3 s3 where cr: "create_mosquitto_client s2 = (c3, s3)" by (metis surj_pair)
  note f3 = create_client_result [OF cr unbound_after [OF d2]]
  note d3 = detached_trans [OF d2 f3(1)]
  have result: "(code, s') = (if c3 \<noteq> GATEWAY_OK then (c3, s3) else reactor_bind (mk_mosq s3) s3)"
    using assms b1 c1 cr by (simp add: reset_mosquitto_client_def s2_def)
  show "rewired s s'"
  proof (cases "c3 = GATEWAY_OK")
    case False
    then have "s' = s3" "mk_mosq s3 = None" using result f3(2) by simp_all
    then show ?thesis using d3 f1(1-6) r1 by (auto simp: detached_def rewired_def unbound_def linked_def kept_def)
  next
    case True
    then have b: "reactor_bind (mk_mosq s3) s3 = (code, s')" using result by simp
    have "mk_reactor s3 = Some r1" "delivered (mk_world s3) = []" using d3 r1 by (auto simp: detached_def unbound_def)
    note f4 = bind_result [OF b this]
    show ?thesis
      using f4(1-6) d3 f1(1-6) by (auto simp: detached_def rewired_def linked_def kept_def)
  qed
qed

subsection \<open>Moves\<close>

text \<open>A sink whose parts agree, and a sink at rest: unless it has failed, no message is in flight and no batch is
  prepared.\<close>

definition sink_ok :: "gateway_mqtt_sink \<Rightarrow> bool" where
  "sink_ok s \<longleftrightarrow> linked s \<and> (mk_durable s \<longrightarrow> mk_spool s \<noteq> None \<and> queue_inv (the_spool s))"

definition rested :: "gateway_mqtt_sink \<Rightarrow> bool" where
  "rested s \<longleftrightarrow> sink_failed s \<or> \<not> in_flight s \<and> (mk_durable s \<longrightarrow> queue_batch (the_spool s) = 0)"

text \<open>What an operation may do to the queue: records enter at the back, and whole batches with evidence of their
  delivery leave at the front.\<close>

definition moves :: "telemetry_record list \<Rightarrow> gateway_mqtt_sink \<Rightarrow> gateway_mqtt_sink \<Rightarrow> bool" where
  "moves taken s s' \<longleftrightarrow> sink_ok s' \<and> mk_durable s' = mk_durable s \<and> mk_device_id s' = mk_device_id s \<and>
     mk_max_records s' = mk_max_records s \<and> (\<exists>h. log_of s' = log_of s @ h) \<and> (sink_failed s \<longrightarrow> sink_failed s') \<and>
     (rested s \<longrightarrow> rested s') \<and>
     (\<exists>batches. concat batches @ sink_queue s' = sink_queue s @ taken \<and>
        (\<forall>b\<in>set batches. delivered_batch (mk_device_id s) (log_of s') b))"

lemma moves_ok: "moves taken s s' \<Longrightarrow> sink_ok s'"
  by (simp add: moves_def)

lemma moves_durable: "moves taken s s' \<Longrightarrow> mk_durable s' = mk_durable s"
  by (simp add: moves_def)

lemma moves_rested: "moves taken s s' \<Longrightarrow> rested s \<Longrightarrow> rested s'"
  by (simp add: moves_def)

lemma moves_trans:
  assumes "moves xs s t" and "moves ys t u"
  shows "moves (xs @ ys) s u"
proof -
  obtain bs where b: "concat bs @ sink_queue t = sink_queue s @ xs"
      "\<forall>b\<in>set bs. delivered_batch (mk_device_id s) (log_of t) b"
    using assms(1) by (auto simp: moves_def)
  obtain cs where c: "concat cs @ sink_queue u = sink_queue t @ ys"
      "\<forall>b\<in>set cs. delivered_batch (mk_device_id t) (log_of u) b"
    using assms(2) by (auto simp: moves_def)
  obtain h where h: "log_of u = log_of t @ h" using assms(2) by (auto simp: moves_def)
  have "concat (bs @ cs) @ sink_queue u = sink_queue s @ xs @ ys"
    using b(1) c(1) by (metis append.assoc concat_append)
  moreover have "\<forall>b\<in>set bs. delivered_batch (mk_device_id s) (log_of u) b"
    using b(2) unfolding h by (intro ballI delivered_batch_mono) blast
  moreover have "\<forall>b\<in>set cs. delivered_batch (mk_device_id s) (log_of u) b"
    using c(2) assms(1) by (simp add: moves_def)
  ultimately have "\<exists>bs. concat bs @ sink_queue u = sink_queue s @ xs @ ys \<and>
      (\<forall>b\<in>set bs. delivered_batch (mk_device_id s) (log_of u) b)"
    by (intro exI [of _ "bs @ cs"]) auto
  then show ?thesis using assms by (auto simp: moves_def)
qed

lemma moves_nil_trans: "moves [] s t \<Longrightarrow> moves ys t u \<Longrightarrow> moves ys s u" "moves xs s t \<Longrightarrow> moves [] t u \<Longrightarrow> moves xs s u"
  using moves_trans by fastforce+

lemma moves_rewired:
  assumes "rewired s s'" and "sink_ok s"
  shows "moves [] s s'"
  using assms unfolding moves_def rewired_def sink_ok_def rested_def
  by (auto simp: sink_queue_def the_spool_def intro: exI [of _ "[]"])

lemma moves_calm: "calm s s' \<Longrightarrow> sink_ok s \<Longrightarrow> moves [] s s'"
  using moves_rewired calm_rewired by blast

lemma moves_refl: "sink_ok s \<Longrightarrow> moves [] s s"
  using moves_calm calm_refl by blast

lemma failed_rested: "sink_failed s \<Longrightarrow> rested s"
  by (simp add: rested_def)

lemma mqtt_failure_result: "mqtt_failure code s = (c, s') \<Longrightarrow> calm s s' \<and> sink_failed s' \<and> c = code"
  using calm_simps(3) [of s] by (auto simp: mqtt_failure_def snapshot_set_mqtt_failed_def snapshot_mark_failed_def stat_add_def)

lemma spool_failure_result: "spool_failure code s = (c, s') \<Longrightarrow> calm s s' \<and> sink_failed s' \<and> c = code"
  using calm_trans [OF calm_simps(2) calm_simps(1)]
  by (auto simp: spool_failure_def snapshot_mark_failed_def stat_add_def)

lemma moves_failure:
  "sink_ok s \<Longrightarrow> mqtt_failure code s = (c, s') \<Longrightarrow> moves [] s s' \<and> rested s'"
  "sink_ok s \<Longrightarrow> spool_failure code s = (c, s') \<Longrightarrow> moves [] s s' \<and> rested s'"
  using mqtt_failure_result spool_failure_result moves_calm failed_rested by blast+

text \<open>The spool was replaced by one whose queue is the same, but for new records at its end.\<close>

lemma moves_spool:
  assumes "sink_ok s" and "mk_durable s" and "queue_inv sp" and "queued sp = queued (the_spool s) @ taken"
    and "queue_batch (the_spool s) \<noteq> 0 \<or> sink_failed s \<or> queue_batch sp = 0"
  shows "moves taken s (s\<lparr>mk_spool := Some sp\<rparr>)"
  using assms unfolding moves_def sink_ok_def rested_def
  by (auto simp: sink_queue_def the_spool_def linked_def intro: exI [of _ "[]"])

subsection \<open>Losing the transport\<close>

lemma offline_result:
  assumes off: "durable_transport_offline s = (code, s')" and ok: "sink_ok s" and d: "mk_durable s"
  shows "moves [] s s' \<and> rested s'"
proof -
  define s1 where "s1 = stat_increment GATEWAY_STAT_MQTT_ERRORS
    ((on_snapshot (\<lambda>n. n\<lparr>sn_connected := False, sn_in_flight := False, sn_in_flight_mid := - 1\<rparr>) s)
      \<lparr>mk_spool := Some (gateway_spool_cancel_prepared (the_spool s))\<rparr>)"
  have inv: "queue_inv (the_spool s)" using ok d by (simp add: sink_ok_def)
  note cancel = any.cancel_inv [OF inv] any.cancel_queue [OF inv]
  have m1: "moves [] s s1"
    using ok d cancel unfolding moves_def sink_ok_def rested_def s1_def
    by (auto simp: sink_queue_def the_spool_def linked_def stat_add_def intro: exI [of _ "[]"])
  have r1: "rested s1" using cancel d by (simp add: s1_def rested_def the_spool_def stat_add_def)
  have ok1: "sink_ok s1" by (rule moves_ok [OF m1])
  obtain c2 s2 where re: "reset_mosquitto_client s1 = (c2, s2)" by (metis surj_pair)
  have m2: "moves [] s1 s2" using moves_rewired reset_result [OF re] ok1 by (simp add: sink_ok_def)
  note m12 = moves_nil_trans(1) [OF m1 m2] and r2 = moves_rested [OF m2 r1] and ok2 = moves_ok [OF m2]
  have result: "(code, s') = (if c2 \<noteq> GATEWAY_OK then mqtt_failure c2 s2 else
      let (deadline, s) = deadline_after_milliseconds (mk_reconnect_interval_ms s2) s2 in
           case deadline of
             None \<Rightarrow> mqtt_failure GATEWAY_ERROR_SYSTEM s
           | Some t \<Rightarrow>
               (GATEWAY_OK, sync_spool_snapshot (s\<lparr>mk_reconnect_deadline := t, mk_reconnect_deadline_set := True\<rparr>)))"
    using off re by (simp add: durable_transport_offline_def s1_def the_spool_def Let_def)
  have "moves [] s2 s'"
  proof (cases "c2 = GATEWAY_OK")
    case False
    then show ?thesis using result moves_failure(1) [OF ok2] by (metis (full_types))
  next
    case True
    obtain deadline s3 where dl: "deadline_after_milliseconds (mk_reconnect_interval_ms s2) s2 = (deadline, s3)"
      by (metis surj_pair)
    note m3 = moves_calm [OF calm_clock(2) [OF dl] ok2] and ok3 = moves_ok [OF moves_calm [OF calm_clock(2) [OF dl] ok2]]
    show ?thesis
    proof (cases deadline)
      case None
      then have "mqtt_failure GATEWAY_ERROR_SYSTEM s3 = (code, s')" using result True dl by simp
      then show ?thesis using moves_failure(1) [OF ok3] moves_nil_trans(1) [OF m3] by blast
    next
      case (Some t)
      have "calm s3 (s3\<lparr>mk_reconnect_deadline := t, mk_reconnect_deadline_set := True\<rparr>)"
        by (rule calm_book) (simp_all add: kept_def)
      then have "calm s3 s'" using result True dl Some calm_trans calm_simps(4) by fastforce
      then show ?thesis using moves_calm ok3 moves_nil_trans(1) [OF m3] by blast
    qed
  qed
  then show ?thesis using moves_nil_trans(1) [OF m12] moves_rested r2 by blast
qed

end
