(* ===== verification/Mqtt_Sink_Delivery.thy ===== *)
theory Mqtt_Sink_Delivery
  imports Mqtt_Sink_Queue
begin

text \<open>
  Batches leave the sink only with evidence: what publishing, waiting for the PUBACK and acknowledging do to the
  queue, and then every operation of the sink.
\<close>

subsection \<open>A published batch\<close>

text \<open>The batch is in flight: its document is the last thing a client that still exists has published.\<close>

definition published :: "gateway_mqtt_sink \<Rightarrow> telemetry_record list \<Rightarrow> bool" where
  "published s batch \<longleftrightarrow> in_flight s \<and>
     (\<exists>before c topic payload between batch_seq.
        mk_mosq s = Some c \<and>
        log_of s = before @ [Published c (flight_mid s) topic payload] @ between \<and> Client_destroyed c \<notin> set between \<and>
        gateway_mqtt_encode_batch (Some GATEWAY_MQTT_PAYLOAD_CAPACITY) (Some (mk_device_id s)) batch_seq (Some batch) True =
          Inr payload)"

lemma encode_payload_ok: "encode_payload_of batch_seq batch s = Inr payload \<Longrightarrow>
    gateway_mqtt_encode_batch (Some GATEWAY_MQTT_PAYLOAD_CAPACITY) (Some (mk_device_id s)) batch_seq (Some batch) True =
      Inr payload"
  by (auto simp: encode_payload_of_def split: sum.split_asm if_split_asm)

lemma publish_result:
  assumes p: "publish_call payload s = (reply, s1)" and l: "linked s"
  shows "calm s s1"
    and "reply_code reply = MOSQ_ERR_SUCCESS \<Longrightarrow> encode_payload_of batch_seq batch s = Inr payload \<Longrightarrow>
      published (publish_accepted (reply_mid reply) s1) batch"
proof -
  let ?events = "\<lambda>a. if reply_code a = MOSQ_ERR_SUCCESS
                 then [Published (the (mk_mosq s)) (reply_mid a) (mk_topic s) payload] else []"
  note f = library_result [OF p [unfolded publish_call_def]]
  show "calm s s1" by (rule f(1)) simp
  then have k: "kept s s1" by (rule calm_kept)
  assume r: "reply_code reply = MOSQ_ERR_SUCCESS" and e: "encode_payload_of batch_seq batch s = Inr payload"
  obtain c where c: "mk_mosq s = Some c" using f(2) r by fastforce
  have h: "log_of s1 = log_of s @ [Published c (reply_mid reply) (mk_topic s) payload] @
      map (Callback_run c) (reply_callbacks reply)"
    using f(3) [OF _ _ l] c r by simp
  show "published (publish_accepted (reply_mid reply) s1) batch"
    unfolding published_def
  proof (intro conjI exI)
    show "in_flight (publish_accepted (reply_mid reply) s1)" by (simp add: publish_accepted_def stat_add_def)
    show "mk_mosq (publish_accepted (reply_mid reply) s1) = Some c"
      using k c by (simp add: publish_accepted_def stat_add_def kept_def)
    show "log_of (publish_accepted (reply_mid reply) s1) =
        log_of s @ [Published c (flight_mid (publish_accepted (reply_mid reply) s1)) (mk_topic s) payload] @
        map (Callback_run c) (reply_callbacks reply)"
      using h by (simp add: publish_accepted_def stat_add_def)
    show "Client_destroyed c \<notin> set (map (Callback_run c) (reply_callbacks reply))" by auto
    show "gateway_mqtt_encode_batch (Some GATEWAY_MQTT_PAYLOAD_CAPACITY)
        (Some (mk_device_id (publish_accepted (reply_mid reply) s1))) batch_seq (Some batch) True = Inr payload"
      using encode_payload_ok [OF e] k by (simp add: publish_accepted_def stat_add_def kept_def)
  qed
qed

text \<open>When nothing is in flight any more, the PUBACK of the batch has arrived.\<close>

lemma puback_arrived:
  assumes p: "published s batch" and c: "calm s s'" and l: "linked s" and over: "\<not> in_flight s'"
  shows "delivered_batch (mk_device_id s) (log_of s') batch"
proof -
  obtain before c topic payload between batch_seq where
    pub: "mk_mosq s = Some c" "log_of s = before @ [Published c (flight_mid s) topic payload] @ between"
      "Client_destroyed c \<notin> set between" "gateway_mqtt_encode_batch (Some GATEWAY_MQTT_PAYLOAD_CAPACITY)
        (Some (mk_device_id s)) batch_seq (Some batch) True = Inr payload" and fl: "in_flight s"
    using p by (auto simp: published_def)
  obtain h where h: "log_of s' = log_of s @ h" "\<forall>c. Client_destroyed c \<notin> set h"
      "Callback_run c (On_publish (flight_mid s)) \<in> set h"
    using c l over fl pub(1) by (auto simp: calm_def)
  then obtain h1 h2 where split: "h = h1 @ Callback_run c (On_publish (flight_mid s)) # h2" by (meson split_list)
  have "Client_destroyed c \<notin> set (between @ h1)" using pub(3) h(2) split by auto
  moreover have "log_of s' = before @ [Published c (flight_mid s) topic payload] @ (between @ h1) @
      [Callback_run c (On_publish (flight_mid s))] @ h2"
    using h(1) pub(2) split by simp
  ultimately show ?thesis unfolding delivered_batch_def using pub(4) by blast
qed

subsection \<open>The durable sink\<close>

lemma flush_keeps_queue:
  assumes "gateway_spool_flush sp = (code, sp')" and "queue_inv sp"
  shows "queue_inv sp' \<and> queued sp' = queued sp \<and> (code = GATEWAY_OK \<longrightarrow> queue_batch sp' = queue_batch sp)"
proof (cases sp)
  case (Legacy_spool s)
  then show ?thesis using assms by (auto simp: gateway_spool_flush_def)
next
  case (V2_spool s)
  then obtain s' where f: "gateway_spool_v2_flush s = (code, s')" "sp' = V2_spool s'"
    using assms(1) by (auto simp: gateway_spool_flush_def apsnd_eq)
  have "spool_inv s" using assms(2) V2_spool by (simp add: queue_defs)
  then have "wide_inv s" "failed s \<or> unsynced_records s \<noteq> 0 \<or> write_offset s < segment_bytes s"
    by (auto simp: spool_inv_def)
  from flush_result [OF f(1) this] show ?thesis using V2_spool f(2) by (simp add: queue_defs)
qed

lemma poll_keeps_batch:
  assumes "gateway_spool_poll sp = (GATEWAY_OK, sp')" and "queue_inv sp"
  shows "queue_batch sp' = queue_batch sp"
proof (cases sp)
  case (Legacy_spool s)
  then show ?thesis using assms by (auto simp: gateway_spool_poll_def)
next
  case (V2_spool s)
  then obtain s' where "gateway_spool_v2_poll s = (GATEWAY_OK, s')" "sp' = V2_spool s'" "spool_inv s"
    using assms by (auto simp: gateway_spool_poll_def queue_inv_def apsnd_eq)
  then show ?thesis using poll_result [of s GATEWAY_OK s'] V2_spool by (simp add: queue_defs)
qed

text \<open>The acknowledged batch leaves the queue; when the spool refuses, it may stay.\<close>

lemma acknowledge_result:
  assumes ack: "acknowledge_durable batch batch_seq s = (code, s')" and ok: "sink_ok s" and d: "mk_durable s"
    and b: "batch = take (queue_batch (the_spool s)) (sink_queue s)"
    and e: "delivered_batch (mk_device_id s) (log_of s) batch" and over: "\<not> in_flight s"
  shows "moves [] s s' \<and> rested s'"
proof -
  obtain c sp where a: "gateway_spool_ack_prepared (the_spool s) = (c, sp)" by (metis surj_pair)
  define t where "t = s\<lparr>mk_spool := Some sp\<rparr>"
  have inv: "queue_inv (the_spool s)" "sink_queue s = queued (the_spool s)" "linked s"
    using ok d by (simp_all add: sink_ok_def sink_queue_def)
  have spi: "queue_inv sp" using any.ack_inv [OF inv(1)] a by simp
  have t: "sink_ok t" "sink_queue t = queued sp" using spi inv(3) d
    by (simp_all add: t_def sink_ok_def the_spool_def linked_def sink_queue_def)
  have evidence: "\<forall>x\<in>set [batch]. delivered_batch (mk_device_id s) (log_of t) x" using e by (simp add: t_def)
  have base: "mk_durable t = mk_durable s" "mk_device_id t = mk_device_id s" "mk_max_records t = mk_max_records s"
    "\<exists>h. log_of t = log_of s @ h" "sink_failed t = sink_failed s" by (simp_all add: t_def)
  have result: "(code, s') = (if c \<noteq> GATEWAY_OK then spool_failure c t else (GATEWAY_OK, s'))"
    "c = GATEWAY_OK \<Longrightarrow> kept t s' \<and> mk_world s' = mk_world t \<and> mk_reactor s' = mk_reactor t \<and>
      in_flight s' = in_flight t \<and> sink_failed s' = sink_failed t"
    using ack a by (auto simp: acknowledge_durable_def t_def [symmetric] Let_def kept_def sync_spool_snapshot_def
        stat_add_def split: if_split_asm)
  have gone: "concat [batch] @ queued sp = sink_queue s" if "queued sp = drop (queue_batch (the_spool s)) (queued (the_spool s))"
    using that b inv(2) by simp
  show ?thesis
  proof (cases "c = GATEWAY_OK")
    case True
    have q: "queued sp = drop (queue_batch (the_spool s)) (queued (the_spool s))" "queue_batch sp = 0"
      using any.ack_ok [OF inv(1)] a True by auto
    have s': "sink_ok s'" "sink_queue s' = queued sp" "rested s'"
      using result(2) [OF True] t q(2) over d base
      by (auto simp: sink_ok_def kept_def linked_def the_spool_def sink_queue_def rested_def t_def)
    have "\<exists>batches. concat batches @ sink_queue s' = sink_queue s @ [] \<and>
        (\<forall>x\<in>set batches. delivered_batch (mk_device_id s) (log_of s') x)"
      by (rule exI [of _ "[batch]"]) (use gone [OF q(1)] s'(2) evidence result(2) [OF True] in simp)
    then show ?thesis
      using s' base result(2) [OF True] by (auto simp: moves_def kept_def)
  next
    case False
    then have f: "spool_failure c t = (code, s')" using result(1) by simp
    note fail = moves_failure(2) [OF t(1) f]
    have "queued sp = queued (the_spool s) \<or> queued sp = drop (queue_batch (the_spool s)) (queued (the_spool s))"
      using any.ack_error [OF inv(1) a False] by blast
    then obtain batches where bs: "concat batches @ sink_queue t = sink_queue s" "set batches \<subseteq> set [batch]"
    proof
      assume "queued sp = queued (the_spool s)"
      then show ?thesis using that [of "[]"] t(2) inv(2) by simp
    next
      assume "queued sp = drop (queue_batch (the_spool s)) (queued (the_spool s))"
      then show ?thesis using that [of "[batch]"] gone t(2) by simp
    qed
    define u where "u = snapshot_mark_failed t"
    have u: "sink_ok u" "sink_queue u = sink_queue t" "sink_failed u" "log_of u = log_of t" "rested u"
      using t(1) by (simp_all add: u_def snapshot_mark_failed_def sink_ok_def linked_def the_spool_def sink_queue_def rested_def)
    have "\<exists>batches. concat batches @ sink_queue u = sink_queue s @ [] \<and>
        (\<forall>x\<in>set batches. delivered_batch (mk_device_id s) (log_of u) x)"
      by (rule exI [of _ batches]) (use bs evidence u in auto)
    then have "moves [] s u" using u base by (auto simp: moves_def u_def snapshot_mark_failed_def)
    moreover have "calm u s'" using f by (auto simp: spool_failure_def u_def)
    ultimately show ?thesis using moves_calm u(1) moves_nil_trans fail by blast
  qed
qed

text \<open>An operation that starts with calm steps.\<close>

lemma moves_via:
  assumes "calm s t" and "sink_ok s" and "sink_ok t \<Longrightarrow> moves taken t s' \<and> rested s'"
  shows "moves taken s s' \<and> rested s'"
  using assms moves_calm moves_ok moves_nil_trans(1) by blast

lemma kept_durable: "calm s t \<Longrightarrow> mk_durable t = mk_durable s \<and> mk_spool t = mk_spool s \<and>
    mk_max_records t = mk_max_records s \<and> mk_device_id t = mk_device_id s"
  using calm_kept [of s t] by (simp add: kept_def)

lemma calm_queue: "calm s t \<Longrightarrow> sink_queue t = sink_queue s \<and> the_spool t = the_spool s"
  using calm_kept [of s t] by (simp add: kept_def sink_queue_def the_spool_def)

lemma settle_durable_result:
  assumes settle: "settle_durable batch batch_seq s = (code, s')" and ok: "sink_ok s" and d: "mk_durable s"
    and b: "batch = take (queue_batch (the_spool s)) (sink_queue s)" and p: "published s batch"
  shows "moves [] s s' \<and> rested s'"
proof -
  obtain n s1 where n: "reactor_notify s = (n, s1)" by (metis surj_pair)
  note c1 = calm_notify [OF n]
  show ?thesis
  proof (cases "n = GATEWAY_OK")
    case False
    then have "durable_transport_offline s1 = (code, s')" using settle n by (simp add: settle_durable_def)
    then show ?thesis using moves_via [OF c1 ok] offline_result kept_durable [OF c1] d by blast
  next
    case True
    obtain dl s2 where dl: "deadline_after_milliseconds (mk_ack_timeout_ms s1) s1 = (dl, s2)" by (metis surj_pair)
    note c2 = calm_trans [OF c1 calm_clock(2) [OF dl]]
    show ?thesis
    proof (cases dl)
      case None
      then have "mqtt_failure GATEWAY_ERROR_SYSTEM s2 = (code, s')" using settle n True dl by (simp add: settle_durable_def)
      then show ?thesis using moves_via [OF c2 ok] moves_failure(1) by blast
    next
      case (Some t)
      obtain w s3 where w: "await_puback_durable t s2 = (w, s3)" by (metis surj_pair)
      note c3 = calm_trans [OF c2 calm_await [OF w [unfolded await_puback_durable_def]]]
      have result: "(code, s') = (if w = Wait_over then acknowledge_durable batch batch_seq s3
          else durable_transport_offline s3)"
        using settle n True dl Some w by (cases w) (simp_all add: settle_durable_def)
      show ?thesis
      proof (cases "w = Wait_over")
        case False
        then have "durable_transport_offline s3 = (code, s')" using result by simp
        then show ?thesis using moves_via [OF c3 ok] offline_result kept_durable [OF c3] d by blast
      next
        case True
        have over: "\<not> in_flight s3"
          using await_over [OF w [unfolded await_puback_durable_def True]] by (simp add: set_clock_def)
        note e = puback_arrived [OF p c3 _ over]
        have a: "acknowledge_durable batch batch_seq s3 = (code, s')" using result True by simp
        show ?thesis
          by (rule moves_via [OF c3 ok]; rule acknowledge_result [OF a])
            (use e over b d ok kept_durable [OF c3] calm_queue [OF c3] in \<open>simp_all add: sink_ok_def\<close>)
      qed
    qed
  qed
qed

text \<open>Publishing the prepared batch. The prepared batch leaves the queue or is given up.\<close>

lemma publish_durable_result:
  assumes pub: "publish_durable batch batch_seq s = (code, s')" and ok: "sink_ok s" and d: "mk_durable s"
    and b: "batch = take (queue_batch (the_spool s)) (sink_queue s)"
  shows "moves [] s s' \<and> rested s'"
proof -
  define s1 where "s1 = stat_add GATEWAY_STAT_SPOOL_RECORDS_REPLAYED (of_nat (length batch)) s"
  have c1: "calm s s1" by (simp add: s1_def)
  note k1 = kept_durable [OF c1] calm_queue [OF c1]
  have ok1: "sink_ok s1" using moves_ok [OF moves_calm [OF c1 ok]] .
  have "moves [] s1 s' \<and> rested s'"
  proof (cases "encode_payload_of batch_seq batch s1")
    case (Inl e)
    let ?t = "s1\<lparr>mk_spool := Some (gateway_spool_cancel_prepared (the_spool s1))\<rparr>"
    have inv: "queue_inv (the_spool s1)" using ok1 d k1 by (simp add: sink_ok_def)
    have m: "moves [] s1 ?t"
      by (rule moves_spool [OF ok1]) (use any.cancel_inv [OF inv] any.cancel_queue [OF inv] d k1 in simp_all)
    have "mqtt_failure e ?t = (code, s')" using pub Inl by (simp add: publish_durable_def s1_def Let_def)
    then show ?thesis using moves_failure(1) [OF moves_ok [OF m]] moves_nil_trans(1) [OF m] by blast
  next
    case (Inr payload)
    define s2 where "s2 = stat_increment GATEWAY_STAT_MQTT_PUBLISH_ATTEMPTS s1"
    have c2: "calm s1 s2" by (simp add: s2_def)
    obtain reply s3 where p: "publish_call payload s2 = (reply, s3)" by (metis surj_pair)
    have l2: "linked s2" using c2 ok1 by (simp add: calm_def sink_ok_def)
    note c3 = calm_trans [OF c2 publish_result(1) [OF p l2]]
    note k3 = kept_durable [OF c3] calm_queue [OF c3]
    have result: "(code, s') = (if reply_code reply \<noteq> MOSQ_ERR_SUCCESS then durable_transport_offline s3
        else settle_durable batch batch_seq (publish_accepted (reply_mid reply) s3))"
      using pub Inr p by (simp add: publish_durable_def s1_def s2_def)
    show ?thesis
    proof (cases "reply_code reply = MOSQ_ERR_SUCCESS")
      case False
      then have "durable_transport_offline s3 = (code, s')" using result by simp
      then have "moves [] s3 s' \<and> rested s'" if "sink_ok s3" using offline_result that d k1 k3 by simp
      then show ?thesis using moves_via [OF c3 ok1] by blast
    next
      case True
      define s4 where "s4 = publish_accepted (reply_mid reply) s3"
      have e: "encode_payload_of batch_seq batch s2 = Inr payload"
        using Inr by (simp add: encode_payload_of_def s2_def stat_add_def)
      have settle: "settle_durable batch batch_seq s4 = (code, s')" using result True by (simp add: s4_def)
      have ok3: "sink_ok s3" using moves_ok [OF moves_calm [OF c3 ok1]] .
      have s4: "sink_ok s4" "mk_durable s4" "sink_queue s4 = sink_queue s3" "the_spool s4 = the_spool s3"
          "mk_device_id s4 = mk_device_id s3" "log_of s4 = log_of s3" "sink_failed s4 = sink_failed s3"
          "mk_max_records s4 = mk_max_records s3"
        using ok3 d k1 k3 by (auto simp: s4_def publish_accepted_def stat_add_def sink_ok_def linked_def the_spool_def
            sink_queue_def)
      have "moves [] s4 s' \<and> rested s'"
        by (rule settle_durable_result [OF settle s4(1,2)])
          (use b k1 k3 s4 publish_result(2) [OF p l2 True e] in \<open>simp_all add: s4_def\<close>)
      then have "moves [] s3 s' \<and> rested s'" using s4 d k1 k3 by (auto simp: moves_def)
      then show ?thesis using moves_via [OF c3 ok1] by blast
    qed
  qed
  then show ?thesis using moves_via [OF c1 ok] by blast
qed

text \<open>A failing flush or preparation.\<close>

lemma failing_spool:
  assumes f: "spool_failure c (s\<lparr>mk_spool := Some sp\<rparr>) = (code, s')" and ok: "sink_ok s" and d: "mk_durable s"
    and sp: "queue_inv sp" "queued sp = queued (the_spool s) @ taken"
  shows "moves taken s s' \<and> rested s'"
proof -
  define u where "u = snapshot_mark_failed s"
  have u: "calm s u" "sink_failed u" unfolding u_def by simp (simp add: snapshot_mark_failed_def)
  show ?thesis
  proof (rule moves_via [OF u(1) ok])
    assume uok: "sink_ok u"
    have m: "moves taken u (u\<lparr>mk_spool := Some sp\<rparr>)"
      by (rule moves_spool [OF uok]) (use sp d u in \<open>simp_all add: u_def snapshot_mark_failed_def the_spool_def\<close>)
    have "snapshot_mark_failed (s\<lparr>mk_spool := Some sp\<rparr>) = u\<lparr>mk_spool := Some sp\<rparr>"
      by (cases s) (simp add: u_def snapshot_mark_failed_def)
    then have "s' = stat_increment GATEWAY_STAT_SPOOL_ERRORS (u\<lparr>mk_spool := Some sp\<rparr>)"
      using f by (simp add: spool_failure_def)
    then have "calm (u\<lparr>mk_spool := Some sp\<rparr>) s'" by simp
    then show "moves taken u s' \<and> rested s'"
      using moves_calm moves_ok [OF m] moves_nil_trans(2) [OF m] spool_failure_result [OF f] failed_rested by blast
  qed
qed

lemma flush_durable_result:
  assumes fl: "flush_durable s = (code, s')" and ok: "sink_ok s" and d: "mk_durable s" and r: "rested s"
  shows "moves [] s s' \<and> rested s'"
proof -
  have inv: "queue_inv (the_spool s)" using ok d by (simp add: sink_ok_def)
  obtain c1 sp where f: "gateway_spool_flush (the_spool s) = (c1, sp)" by (metis surj_pair)
  note fk = flush_keeps_queue [OF f inv]
  define s1 where "s1 = s\<lparr>mk_spool := Some sp\<rparr>"
  have d1: "mk_durable s1" "the_spool s1 = sp" using d by (simp_all add: s1_def the_spool_def)
  show ?thesis
  proof (cases "c1 = GATEWAY_OK")
    case False
    then have "spool_failure c1 (s\<lparr>mk_spool := Some sp\<rparr>) = (code, s')" using fl f by (simp add: flush_durable_def)
    then show ?thesis using failing_spool [where taken = "[]"] ok d fk by simp
  next
    case ok1: True
    have m1: "moves [] s s1" unfolding s1_def by (rule moves_spool [OF ok d]) (use fk ok1 in auto)
    note sok1 = moves_ok [OF m1] and r1 = moves_rested [OF m1 r]
    have calmly: "moves [] s s' \<and> rested s'" if "calm s1 s'"
      using moves_calm [OF that sok1] moves_nil_trans(1) [OF m1] moves_rested r1 by blast
    consider (drained) "s' = sync_spool_snapshot (s1\<lparr>mk_replay_pending := False, mk_batch_deadline_set := False\<rparr>)"
      | (offline) "s' = s1" | (go) "snap_pending_records (gateway_spool_read sp) \<noteq> 0" "ready s1"
      using fl f ok1 by (auto simp: flush_durable_def s1_def Let_def split: if_split_asm)
    then show ?thesis
    proof cases
      case drained
      have "calm s1 (s1\<lparr>mk_replay_pending := False, mk_batch_deadline_set := False\<rparr>)"
        by (rule calm_book) (simp_all add: kept_def)
      then have "calm s1 s'" unfolding drained by (rule calm_trans [OF _ calm_simps(4)])
      then show ?thesis by (rule calmly)
    next
      case offline
      then show ?thesis using calmly calm_refl by simp
    next
      case go
      obtain c2 out sp2 where pr: "gateway_spool_prepare_batch (mk_max_records s1) sp = (c2, out, sp2)" by (metis prod_cases3)
      have isp: "queue_inv sp" "\<not> in_flight s1" using fk go by (auto simp: ready_def)
      have sp2: "queue_inv sp2" "queued sp2 = queued sp"
        using any.prepare_inv [OF isp(1), of "mk_max_records s1"] any.prepare_ok [OF isp(1)] any.prepare_error [OF isp(1)] pr
        by (cases out; fastforce)+
      define s2 where "s2 = s1\<lparr>mk_spool := Some sp2\<rparr>"
      have s2: "s2 = s\<lparr>mk_spool := Some sp2\<rparr>" by (simp add: s2_def s1_def)
      have result: "(code, s') = (case out of
          None \<Rightarrow> spool_failure c2 s2
        | Some (records, number) \<Rightarrow>
            if c2 \<noteq> GATEWAY_OK then spool_failure c2 s2
            else if records = [] then (GATEWAY_OK, sync_spool_snapshot s2)
            else publish_durable records (of_nat number) s2)"
        using fl f ok1 go pr unfolding s2 by (simp add: flush_durable_def s1_def Let_def)
      consider (fail) "spool_failure c2 s2 = (code, s')"
        | (given) records number where "out = Some (records, number)"
          "(code, s') = (if records = [] then (GATEWAY_OK, sync_spool_snapshot s2) else publish_durable records (of_nat number) s2)"
        using result by (auto split: option.split_asm prod.split_asm if_split_asm)
      then show ?thesis
      proof cases
        case fail
        then have "moves [] s1 s' \<and> rested s'" using failing_spool [where taken = "[]"] sok1 d1 sp2 unfolding s2_def by simp
        then show ?thesis using moves_nil_trans(1) [OF m1] by blast
      next
        case given
        have b: "records = take (queue_batch sp2) (queued sp2)" "queue_batch sp2 = length records"
          using any.prepare_ok [OF isp(1) pr [unfolded given(1)]] by (auto simp: min_def)
        have s2: "sink_ok s2" "mk_durable s2" "the_spool s2 = sp2" "sink_queue s2 = queued sp2"
          using sok1 sp2 d1 by (simp_all add: s2_def sink_ok_def the_spool_def linked_def sink_queue_def)
        text \<open>The queues of \<open>s1\<close> and \<open>s2\<close> are the same, but \<open>s2\<close> is not at rest.\<close>
        have m2: "moves [] s1 s' \<and> rested s'" if "moves [] s2 s' \<and> rested s'"
          using that sp2(2) d1 s2 unfolding moves_def by (auto simp: s2_def sink_queue_def)
        show ?thesis
        proof (cases "records = []")
          case True
          then have "rested s2" using b(2) isp(2) s2(3) by (simp add: rested_def s2_def)
          moreover have "s' = sync_spool_snapshot s2" using given(2) True by simp
          then have "calm s2 s'" by simp
          ultimately show ?thesis using m2 moves_calm s2(1) moves_rested moves_nil_trans(1) [OF m1] by blast
        next
          case False
          then have "publish_durable records (of_nat number) s2 = (code, s')" using given(2) by simp
          from publish_durable_result [OF this s2(1,2) b(1) [folded s2(3,4)]] show ?thesis
            using m2 moves_nil_trans(1) [OF m1] by blast
        qed
      qed
    qed
  qed
qed

end
