(* ===== verification/Mqtt_Sink_Ops.thy ===== *)
theory Mqtt_Sink_Ops
  imports Mqtt_Sink_Delivery
begin

text \<open>
  Every operation of the sink keeps its parts in agreement, leaves it at rest and moves records only in at the back of
  the queue and, with evidence, out at its front.
\<close>

definition at_rest :: "gateway_mqtt_sink \<Rightarrow> bool" where
  "at_rest s \<longleftrightarrow> sink_ok s \<and> rested s"

lemma moves_at_rest: "moves taken s s' \<Longrightarrow> at_rest s \<Longrightarrow> at_rest s'"
  by (auto simp: at_rest_def dest: moves_ok moves_rested)

lemma calm_moves: "calm s s' \<Longrightarrow> at_rest s \<Longrightarrow> moves [] s s'"
  by (simp add: at_rest_def moves_calm)

lemma moves_after:
  assumes "calm s t" and "at_rest s" and "at_rest t \<Longrightarrow> moves taken t s'"
  shows "moves taken s s'"
  using assms calm_moves moves_at_rest moves_nil_trans(1) by blast

lemma moves_then:
  assumes "moves taken s t" and "at_rest s" and "at_rest t \<Longrightarrow> moves [] t s'"
  shows "moves taken s s'"
  using assms moves_at_rest moves_nil_trans(2) by blast

lemma failure_moves:
  "mqtt_failure code s = (c, s') \<Longrightarrow> at_rest s \<Longrightarrow> moves [] s s'"
  "spool_failure code s = (c, s') \<Longrightarrow> at_rest s \<Longrightarrow> moves [] s s'"
  using moves_failure by (auto simp: at_rest_def)

lemma offline_moves: "durable_transport_offline s = (c, s') \<Longrightarrow> at_rest s \<Longrightarrow> mk_durable s \<Longrightarrow> moves [] s s'"
  using offline_result by (auto simp: at_rest_def)

lemma flush_durable_moves: "flush_durable s = (c, s') \<Longrightarrow> at_rest s \<Longrightarrow> mk_durable s \<Longrightarrow> moves [] s s'"
  using flush_durable_result by (auto simp: at_rest_def)

subsection \<open>Connecting\<close>

lemma calm_connect_succeeded: "calm s (connect_succeeded s)"
  by (rule calm_book) (simp_all add: connect_succeeded_def stat_add_def kept_def Let_def)

lemma offline_or_moves:
  assumes "(if mk_durable s then durable_transport_offline s else mqtt_failure code s) = (c, s')" and "at_rest s"
  shows "moves [] s s'"
  using assms offline_moves failure_moves(1) by (auto split: if_split_asm)

lemma connect_moves:
  assumes con: "gateway_mqtt_sink_connect s = (code, s')" and rest: "at_rest s"
  shows "moves [] s s'"
proof (cases "mk_mosq s = None")
  case True
  then show ?thesis using con calm_moves [OF calm_refl rest] by (simp add: gateway_mqtt_sink_connect_def)
next
  case mosq: False
  define s1 where "s1 = (stat_increment GATEWAY_STAT_MQTT_CONNECT_ATTEMPTS s)\<lparr>mk_connect_callback_seen := False\<rparr>"
  have c1: "calm s s1" by (rule calm_book) (simp_all add: s1_def stat_add_def kept_def)
  obtain reply s2 where r: "connect_call s1 = (reply, s2)" by (metis surj_pair)
  note c2 = calm_trans [OF c1 calm_connect_call [OF r]]
  define offline_or where "offline_or = (\<lambda>code s. if mk_durable s then durable_transport_offline s else mqtt_failure code s)"
  have offline: "moves [] s s'" if "offline_or e t = (code, s')" "calm s t" for e t
    using moves_after [OF that(2) rest] offline_or_moves that(1) unfolding offline_or_def by blast
  obtain n s3 where n: "reactor_notify s2 = (n, s3)" by (metis surj_pair)
  note c3 = calm_trans [OF c2 calm_notify [OF n]]
  obtain dl s4 where dl: "deadline_after_milliseconds (mk_ack_timeout_ms s3) s3 = (dl, s4)" by (metis surj_pair)
  note c4 = calm_trans [OF c3 calm_clock(2) [OF dl]]
  obtain w s5 where w: "await_connack (the dl) s4 = (w, s5)" by (metis surj_pair)
  note c5 = calm_trans [OF c4 calm_await [OF w [unfolded await_connack_def]]]
  note c6 = calm_trans [OF c5 calm_connect_succeeded]
  have "(code, s') = (if reply_code reply \<noteq> MOSQ_ERR_SUCCESS then offline_or GATEWAY_ERROR_IO s2
      else if n \<noteq> GATEWAY_OK then mqtt_failure GATEWAY_ERROR_SYSTEM s3
      else if dl = None then mqtt_failure GATEWAY_ERROR_SYSTEM s4
      else case w of Wait_timeout \<Rightarrow> offline_or GATEWAY_ERROR_TIMEOUT s5
         | Wait_error code \<Rightarrow> offline_or code s5
         | Wait_over \<Rightarrow> if mk_connect_result s5 \<noteq> 0 then mqtt_failure GATEWAY_ERROR_IO s5 else (GATEWAY_OK, connect_succeeded s5))"
    using con mosq r n dl w
    by (cases "reply_code reply = MOSQ_ERR_SUCCESS"; cases "n = GATEWAY_OK"; cases dl; cases w)
      (simp_all add: gateway_mqtt_sink_connect_def offline_or_def s1_def Let_def)
  then consider e t where "offline_or e t = (code, s')" "calm s t" | e t where "mqtt_failure e t = (code, s')" "calm s t"
    | "s' = connect_succeeded s5"
    using c2 c3 c4 c5 by (auto split: if_split_asm wait_end.split_asm)
  then show ?thesis
    using offline moves_after [OF _ rest] failure_moves(1) calm_moves [OF c6 rest] by cases blast+
qed

lemma begin_reconnect_result:
  assumes rest: "at_rest s" and d: "mk_durable s"
  shows "begin_reconnect s = Inl (code, s') \<Longrightarrow> moves [] s s'" and "begin_reconnect s = Inr s' \<Longrightarrow> calm s s'"
proof -
  define s1 where "s1 = (stat_increment GATEWAY_STAT_MQTT_CONNECT_ATTEMPTS s)\<lparr>mk_connect_callback_seen := False, mk_connect_result := 0\<rparr>"
  have c1: "calm s s1" by (rule calm_book) (simp_all add: s1_def stat_add_def kept_def)
  obtain reply s2 where r: "connect_call s1 = (reply, s2)" by (metis surj_pair)
  note c2 = calm_trans [OF c1 calm_connect_call [OF r]]
  obtain n s3 where n: "reactor_notify s2 = (n, s3)" by (metis surj_pair)
  note c3 = calm_trans [OF c2 calm_notify [OF n]]
  obtain dl s4 where dl: "deadline_after_milliseconds (mk_ack_timeout_ms s3) s3 = (dl, s4)" by (metis surj_pair)
  note c4 = calm_trans [OF c3 calm_clock(2) [OF dl]]
  have result: "begin_reconnect s = (if reply_code reply \<noteq> MOSQ_ERR_SUCCESS then Inl (durable_transport_offline s2)
      else if n \<noteq> GATEWAY_OK then Inl (mqtt_failure GATEWAY_ERROR_SYSTEM s3)
      else if dl = None then Inl (mqtt_failure GATEWAY_ERROR_SYSTEM s4)
      else Inr (s4\<lparr>mk_reconnect_attempt_deadline := the dl, mk_reconnect_in_progress := True,
                   mk_reconnect_attempt_deadline_set := True\<rparr>))"
    using r n dl by (cases dl; simp add: begin_reconnect_def s1_def)
  have d2: "mk_durable s2" using kept_durable [OF c2] d by simp
  show "moves [] s s'" if b: "begin_reconnect s = Inl (code, s')"
  proof -
    consider "durable_transport_offline s2 = (code, s')" | e t where "mqtt_failure e t = (code, s')" "calm s t"
      using b [unfolded result] c3 c4 by (auto split: if_split_asm)
    then show ?thesis
      using moves_after [OF _ rest] c2 offline_moves d2 failure_moves(1) by cases blast+
  qed
  have c5: "calm s4 (s4\<lparr>mk_reconnect_attempt_deadline := the dl, mk_reconnect_in_progress := True,
      mk_reconnect_attempt_deadline_set := True\<rparr>)"
    by (rule calm_book) (simp_all add: kept_def)
  show "calm s s'" if "begin_reconnect s = Inr s'"
    using that [unfolded result] calm_trans [OF c4 c5] by (auto split: if_split_asm)
qed

lemma complete_reconnect_moves:
  assumes "complete_reconnect s = (code, s')" and rest: "at_rest s"
  shows "moves [] s s'"
proof -
  define t where "t = s\<lparr>mk_reconnect_in_progress := False, mk_reconnect_attempt_deadline_set := False\<rparr>"
  have t: "calm s t" by (rule calm_book) (simp_all add: t_def kept_def)
  have up: "calm t ((connect_succeeded t)\<lparr>mk_replay_pending := True\<rparr>)"
    by (rule calm_book) (simp_all add: connect_succeeded_def stat_add_def kept_def Let_def)
  consider "s' = s" | "mqtt_failure GATEWAY_ERROR_IO t = (code, s')" | "s' = (connect_succeeded t)\<lparr>mk_replay_pending := True\<rparr>"
    using assms(1) by (auto simp: complete_reconnect_def t_def [symmetric] Let_def split: if_split_asm)
  then show ?thesis
    using calm_moves [OF calm_refl rest] moves_after [OF t rest] failure_moves(1) calm_moves [OF up] by cases blast+
qed

lemma watch_reconnect_moves:
  assumes watch: "watch_reconnect s = (code, s')" and rest: "at_rest s" and d: "mk_durable s"
  shows "moves [] s s'"
proof -
  obtain c m s1 where r: "reactor_step 0 s = (c, m, s1)" by (metis prod_cases3)
  note c1 = calm_reactor_step [OF r]
  obtain reached s2 where tr: "timespec_reached (mk_reconnect_attempt_deadline s1) s1 = (reached, s2)" by (metis surj_pair)
  note c2 = calm_trans [OF c1 calm_clock(1) [OF tr]]
  have d1: "mk_durable s1" "mk_durable s2" using kept_durable c1 c2 d by simp_all
  consider "s' \<in> {s, s1, s2}" | "durable_transport_offline s1 = (code, s')" | "durable_transport_offline s2 = (code, s')"
    | "complete_reconnect s1 = (code, s')"
    using watch r tr by (auto simp: watch_reconnect_def split: if_split_asm)
  then show ?thesis
  proof cases
    case 1
    then show ?thesis using calm_moves [OF _ rest] calm_refl c1 c2 by blast
  next
    case 2
    then show ?thesis using moves_after [OF c1 rest] offline_moves d1 by blast
  next
    case 3
    then show ?thesis using moves_after [OF c2 rest] offline_moves d1 by blast
  next
    case 4
    then show ?thesis using moves_after [OF c1 rest] complete_reconnect_moves by blast
  qed
qed

lemma reconnect_moves:
  assumes re: "durable_reconnect_step s = (code, s')" and rest: "at_rest s" and d: "mk_durable s"
  shows "moves [] s s'"
proof (cases "sn_connected (mk_snapshot s)")
  case True
  then show ?thesis using re calm_moves [OF calm_refl rest] by (simp add: durable_reconnect_step_def)
next
  case off: False
  obtain start s1 where st: "(if mk_reconnect_in_progress s then (False, s)
      else if \<not> mk_reconnect_deadline_set s then (True, s) else timespec_reached (mk_reconnect_deadline s) s) = (start, s1)"
    by (metis surj_pair)
  then have c1: "calm s s1" using calm_refl calm_clock(1) by (auto split: if_split_asm)
  note rest1 = moves_at_rest [OF calm_moves [OF c1 rest] rest]
  have d1: "mk_durable s1" using kept_durable [OF c1] d by simp
  have result: "(code, s') = (if \<not> start then watch_reconnect s1
      else case begin_reconnect s1 of Inl result \<Rightarrow> result | Inr s \<Rightarrow> watch_reconnect s)"
    using re off st by (simp add: durable_reconnect_step_def)
  have "moves [] s1 s'"
  proof (cases start)
    case False
    then have "watch_reconnect s1 = (code, s')" using result by simp
    then show ?thesis using watch_reconnect_moves rest1 d1 by blast
  next
    case True
    note b = begin_reconnect_result [OF rest1 d1]
    show ?thesis
    proof (cases "begin_reconnect s1")
      case (Inl res)
      then have "begin_reconnect s1 = Inl (code, s')" using result True by simp
      then show ?thesis by (rule b(1))
    next
      case (Inr t)
      then have "watch_reconnect t = (code, s')" using result True by simp
      then show ?thesis
        using moves_after [OF b(2) [OF Inr] rest1] watch_reconnect_moves kept_durable [OF b(2) [OF Inr]] d1 by blast
    qed
  qed
  then show ?thesis using moves_after [OF c1 rest] by blast
qed

subsection \<open>The buffered sink\<close>

lemma acknowledge_buffered_result:
  assumes ok: "sink_ok s" and d: "\<not> mk_durable s" and e: "delivered_batch (mk_device_id s) (log_of s) (mk_records s)"
    and over: "\<not> in_flight s"
  shows "moves [] s (acknowledge_buffered batch_seq s)"
proof -
  let ?t = "acknowledge_buffered batch_seq s"
  have t: "mk_records ?t = []" "mk_world ?t = mk_world s" "mk_reactor ?t = mk_reactor s" "mk_mosq ?t = mk_mosq s"
    "mk_durable ?t = mk_durable s" "mk_device_id ?t = mk_device_id s" "mk_max_records ?t = mk_max_records s"
    "in_flight ?t = in_flight s" "sink_failed ?t = sink_failed s"
    by (simp_all add: acknowledge_buffered_def stat_add_def Let_def)
  have "\<exists>batches. concat batches @ sink_queue ?t = sink_queue s @ [] \<and>
      (\<forall>b\<in>set batches. delivered_batch (mk_device_id s) (log_of ?t) b)"
    by (rule exI [of _ "[mk_records s]"]) (use t d e in \<open>simp add: sink_queue_def\<close>)
  then show ?thesis
    using t ok d over unfolding moves_def by (auto simp: sink_ok_def linked_def rested_def)
qed

lemma settle_buffered_result:
  assumes settle: "settle_buffered batch_seq s = (code, s')" and ok: "sink_ok s" and d: "\<not> mk_durable s"
    and p: "published s (mk_records s)"
  shows "moves [] s s' \<and> rested s'"
proof -
  obtain n s1 where n: "reactor_notify s = (n, s1)" by (metis surj_pair)
  note c1 = calm_notify [OF n]
  obtain dl s2 where dl: "deadline_after_milliseconds (mk_ack_timeout_ms s1) s1 = (dl, s2)" by (metis surj_pair)
  note c2 = calm_trans [OF c1 calm_clock(2) [OF dl]]
  obtain w s3 where w: "await_puback (the dl) s2 = (w, s3)" by (metis surj_pair)
  note c3 = calm_trans [OF c2 calm_await [OF w [unfolded await_puback_def]]]
  consider e t where "mqtt_failure e t = (code, s')" "calm s t"
    | "w = Wait_over" "s' = acknowledge_buffered batch_seq s3"
    using settle n dl w c1 c2 c3
    by (cases "n = GATEWAY_OK"; cases dl; cases w) (auto simp: settle_buffered_def)
  then show ?thesis
  proof cases
    case 1
    then show ?thesis using moves_via ok moves_failure(1) by blast
  next
    case 2
    have over: "\<not> in_flight s3"
      using await_over [OF w [unfolded await_puback_def 2(1)]] by (simp add: set_clock_def)
    have k: "mk_records s3 = mk_records s" "mk_device_id s3 = mk_device_id s" "mk_durable s3 = mk_durable s"
      using calm_kept [OF c3] by (simp_all add: kept_def)
    have e: "delivered_batch (mk_device_id s) (log_of s3) (mk_records s)"
      using puback_arrived [OF p c3 _ over] ok by (simp add: sink_ok_def)
    have m: "sink_ok s3 \<Longrightarrow> moves [] s3 s'"
      unfolding 2(2) by (rule acknowledge_buffered_result) (use k e d over in simp_all)
    have "rested s'" using over k d by (simp add: 2(2) rested_def acknowledge_buffered_def stat_add_def Let_def)
    then show ?thesis using moves_via [OF c3 ok] m by blast
  qed
qed

lemma flush_moves:
  assumes fl: "gateway_mqtt_sink_flush s = (code, s')" and rest: "at_rest s"
  shows "moves [] s s'"
proof (cases "mk_durable s")
  case True
  then show ?thesis using fl flush_durable_moves rest by (simp add: gateway_mqtt_sink_flush_def)
next
  case d: False
  have ok: "sink_ok s" using rest by (simp add: at_rest_def)
  define s1 where "s1 = stat_increment GATEWAY_STAT_MQTT_PUBLISH_ATTEMPTS s"
  have c1: "calm s s1" by (simp add: s1_def)
  let ?seq = "sn_next_batch_seq (mk_snapshot s)"
  consider "s' = s" | e where "mqtt_failure e s = (code, s')"
    | payload where "encode_payload_of ?seq (mk_records s) s = Inr payload"
      "(code, s') = (let (reply, s) = publish_call payload s1 in
          if reply_code reply \<noteq> MOSQ_ERR_SUCCESS then mqtt_failure GATEWAY_ERROR_IO s
          else settle_buffered ?seq (publish_accepted (reply_mid reply) s))"
    using fl d by (auto simp: gateway_mqtt_sink_flush_def s1_def Let_def split: sum.split_asm if_split_asm)
  then show ?thesis
  proof cases
    case 1
    then show ?thesis using calm_moves calm_refl rest by simp
  next
    case 2
    then show ?thesis using failure_moves(1) rest by blast
  next
    case 3
    obtain reply s2 where p: "publish_call payload s1 = (reply, s2)" by (metis surj_pair)
    have l1: "linked s1" using c1 ok by (simp add: calm_def sink_ok_def)
    have e: "encode_payload_of ?seq (mk_records s) s1 = Inr payload"
      using 3(1) by (simp add: encode_payload_of_def s1_def stat_add_def)
    note c2 = calm_trans [OF c1 publish_result(1) [OF p l1]]
    note pub = publish_result(2) [OF p l1 _ e]
    show ?thesis
    proof (cases "reply_code reply = MOSQ_ERR_SUCCESS")
      case False
      then have "mqtt_failure GATEWAY_ERROR_IO s2 = (code, s')" using 3(2) p by simp
      then show ?thesis using moves_after [OF c2 rest] failure_moves(1) by blast
    next
      case True
      define s3 where "s3 = publish_accepted (reply_mid reply) s2"
      have settle: "settle_buffered ?seq s3 = (code, s')" using 3(2) p True by (simp add: s3_def)
      have k: "mk_records s2 = mk_records s" "mk_durable s2 = mk_durable s" using calm_kept [OF c2] by (simp_all add: kept_def)
      have s3: "mk_records s3 = mk_records s2" "mk_durable s3 = mk_durable s2" "mk_world s3 = mk_world s2"
          "mk_reactor s3 = mk_reactor s2" "mk_mosq s3 = mk_mosq s2" "mk_device_id s3 = mk_device_id s2"
          "mk_max_records s3 = mk_max_records s2" "sink_failed s3 = sink_failed s2"
        by (simp_all add: s3_def publish_accepted_def stat_add_def)
      have ok3: "sink_ok s3" if "sink_ok s2" using that s3 k d by (simp add: sink_ok_def linked_def)
      have "moves [] s3 s' \<and> rested s'" if "sink_ok s2"
        by (rule settle_buffered_result [OF settle ok3 [OF that]])
          (use s3 k d pub [OF True] in \<open>simp_all add: s3_def [symmetric]\<close>)
      then have "moves [] s2 s' \<and> rested s'" if "sink_ok s2"
        using that s3 k d by (auto simp: moves_def sink_queue_def)
      then show ?thesis using moves_via [OF c2 ok] by blast
    qed
  qed
qed

subsection \<open>The public operations\<close>

lemma poll_moves:
  assumes poll: "gateway_mqtt_sink_poll s = (code, s')" and rest: "at_rest s"
  shows "moves [] s s'"
proof (cases "mk_durable s")
  case d: True
  have ok: "sink_ok s" using rest by (simp add: at_rest_def)
  obtain c1 sp where sp: "gateway_spool_poll (the_spool s) = (c1, sp)" by (metis surj_pair)
  have inv: "queue_inv (the_spool s)" using ok d by (simp add: sink_ok_def)
  have spi: "queue_inv sp" "queued sp = queued (the_spool s)"
    "queue_closed sp \<or> queue_batch sp = queue_batch (the_spool s)"
    using any.poll_inv [OF inv] any.poll_queue [OF inv sp] sp by auto
  define s1 where "s1 = s\<lparr>mk_spool := Some sp\<rparr>"
  show ?thesis
  proof (cases "c1 = GATEWAY_OK")
    case False
    then have "spool_failure c1 (s\<lparr>mk_spool := Some sp\<rparr>) = (code, s')" using poll sp d by (simp add: gateway_mqtt_sink_poll_def)
    then show ?thesis using failing_spool [where taken = "[]"] ok d spi by simp
  next
    case True
    have m1: "moves [] s s1" unfolding s1_def
      by (rule moves_spool [OF ok d]) (use spi poll_keeps_batch [OF sp [unfolded True] inv] in auto)
    note rest1 = moves_at_rest [OF m1 rest]
    have d1: "mk_durable s1" using d by (simp add: s1_def)
    obtain c2 s2 where re: "durable_reconnect_step s1 = (c2, s2)" by (metis surj_pair)
    note m2 = moves_nil_trans(1) [OF m1 reconnect_moves [OF re rest1 d1]]
    note rest2 = moves_at_rest [OF m2 rest]
    have d2: "mk_durable s2" using moves_durable [OF m2] d by simp
    obtain c3 m s3 where r: "reactor_step 0 s2 = (c3, m, s3)" by (metis prod_cases3)
    note c3 = calm_reactor_step [OF r]
    note rest3 = moves_at_rest [OF calm_moves [OF c3 rest2] rest2]
    have d3: "mk_durable s3" using kept_durable [OF c3] d2 by simp
    let ?pending = "snap_pending_records (gateway_spool_read (the_spool s3))"
    obtain due s4 where due: "(if mk_replay_pending s3 \<or> ?pending \<ge> mk_max_records s3 then (True, s3) else batch_due s3) = (due, s4)"
      by (metis surj_pair)
    have c4: "calm s3 s4" using due calm_refl calm_clock(3) by (auto split: if_split_asm)
    have d4: "mk_durable s4" using kept_durable [OF c4] d3 by simp
    have result: "(code, s') = (if c2 \<noteq> GATEWAY_OK then (c2, s2) else if \<not> sn_connected (mk_snapshot s2) then (GATEWAY_OK, s2)
        else if c3 \<noteq> GATEWAY_OK \<or> mk_transport_lost s3 then durable_transport_offline s3
        else if ?pending = 0 then (GATEWAY_OK, s3) else if due then flush_durable s4 else (GATEWAY_OK, s4))"
      using poll [unfolded gateway_mqtt_sink_poll_def] sp d True re [unfolded s1_def] r due
      by (cases "c2 = GATEWAY_OK"; cases "sn_connected (mk_snapshot s2)"; cases "c3 = GATEWAY_OK \<and> \<not> mk_transport_lost s3";
          cases "?pending = 0") (simp_all add: Let_def)
    then consider "s' = s2" | "s' = s3" | "s' = s4" | "durable_transport_offline s3 = (code, s')" | "flush_durable s4 = (code, s')"
      by (auto split: if_split_asm)
    then have "moves [] s2 s'"
    proof cases
      case 1
      then show ?thesis using calm_moves [OF calm_refl rest2] by simp
    next
      case 2
      then show ?thesis using calm_moves [OF c3 rest2] by simp
    next
      case 3
      then show ?thesis using calm_moves [OF calm_trans [OF c3 c4] rest2] by simp
    next
      case 4
      then show ?thesis using moves_after [OF c3 rest2] offline_moves d3 by blast
    next
      case 5
      then show ?thesis using moves_after [OF calm_trans [OF c3 c4] rest2] flush_durable_moves d4 by blast
    qed
    then show ?thesis using moves_nil_trans(1) [OF m2] by blast
  qed
next
  case d: False
  obtain c m s1 where r: "reactor_step 0 s = (c, m, s1)" by (metis prod_cases3)
  note c1 = calm_reactor_step [OF r]
  obtain due s2 where due: "(if mk_records s1 = [] then (False, s1) else batch_due s1) = (due, s2)" by (metis surj_pair)
  have "calm s1 s2" using due calm_refl calm_clock(3) by (auto split: if_split_asm)
  note c2 = calm_trans [OF c1 this]
  consider "mqtt_failure c s1 = (code, s')" | "s' = s2" | "gateway_mqtt_sink_flush s2 = (code, s')"
    using poll d r due by (auto simp: gateway_mqtt_sink_poll_def split: if_split_asm prod.split_asm)
  then show ?thesis
    using moves_after [OF c1 rest] failure_moves(1) calm_moves [OF c2 rest] moves_after [OF c2 rest] flush_moves
    by cases blast+
qed

definition takes :: "telemetry_record \<Rightarrow> gateway_error_code \<Rightarrow> gateway_mqtt_sink \<Rightarrow> gateway_mqtt_sink \<Rightarrow> bool" where
  "takes r code s s' \<longleftrightarrow> (\<exists>taken. moves taken s s' \<and> (taken = [r] \<or> taken = [] \<and> code \<noteq> GATEWAY_OK))"

lemma takes_moves: "moves [r] s s' \<Longrightarrow> takes r code s s'" "moves [] s s' \<Longrightarrow> code \<noteq> GATEWAY_OK \<Longrightarrow> takes r code s s'"
  unfolding takes_def by blast+

lemma calm_start_deadline:
  assumes "start_batch_deadline s = (b, s')"
  shows "calm s s'"
proof -
  obtain dl t where dl: "deadline_after_milliseconds (mk_batch_interval_ms s) s = (dl, t)" by (metis surj_pair)
  have "calm t (t\<lparr>mk_batch_deadline := the dl, mk_batch_deadline_set := True\<rparr>)"
    by (rule calm_book) (simp_all add: kept_def)
  from calm_trans [OF calm_clock(2) [OF dl] this] show ?thesis
    using assms dl calm_clock(2) [OF dl] by (cases dl) (simp_all add: start_batch_deadline_def)
qed

lemma consume_durable_takes:
  assumes con: "consume_durable r s = (code, s')" and rest: "at_rest s" and d: "mk_durable s" and wf: "wf_record r"
  shows "takes r code s s'"
proof (cases "mk_have_last_gateway_seq s \<and> gateway_seq r \<le> mk_last_gateway_seq s")
  case True
  then have "code \<noteq> GATEWAY_OK \<and> s' = s" using con by (auto simp: consume_durable_def)
  then show ?thesis using takes_moves(2) [OF calm_moves [OF calm_refl rest]] by simp
next
  case new: False
  have ok: "sink_ok s" using rest by (simp add: at_rest_def)
  obtain c1 sp where sp: "gateway_spool_append r (the_spool s) = (c1, sp)" by (metis surj_pair)
  have inv: "queue_inv (the_spool s)" using ok d by (simp add: sink_ok_def)
  have spi: "queue_inv sp" using any.add_inv [OF inv wf] sp by simp
  define s1 where "s1 = s\<lparr>mk_spool := Some sp\<rparr>"
  have result1: "(code, s') = (if c1 \<noteq> GATEWAY_OK then spool_failure c1 s1 else (code, s'))"
    using con new sp unfolding consume_durable_def s1_def by (cases "c1 = GATEWAY_OK") simp_all
  show ?thesis
  proof (cases "c1 = GATEWAY_OK")
    case False
    then have f: "spool_failure c1 (s\<lparr>mk_spool := Some sp\<rparr>) = (code, s')" using result1 by (simp add: s1_def)
    then have "code \<noteq> GATEWAY_OK" using spool_failure_result [OF f] False by simp
    moreover have "queued sp = queued (the_spool s) @ [] \<or> queued sp = queued (the_spool s) @ [r]"
      using any.add_error [OF inv wf sp False] by auto
    ultimately show ?thesis using failing_spool [OF f ok d spi] takes_moves by blast
  next
    case True
    have q: "queued sp = queued (the_spool s) @ [r]" "queue_batch sp = queue_batch (the_spool s)"
      using any.add_ok [OF inv wf] sp True by auto
    have m1: "moves [r] s s1" unfolding s1_def by (rule moves_spool [OF ok d spi q(1)]) (use q(2) in auto)
    note rest1 = moves_at_rest [OF m1 rest]
    define s2 where "s2 = (stat_increment GATEWAY_STAT_SPOOL_RECORDS_APPENDED s1)
        \<lparr>mk_have_last_gateway_seq := True, mk_last_gateway_seq := gateway_seq r\<rparr>"
    have c2: "calm s1 s2" by (rule calm_book) (simp_all add: s2_def stat_add_def kept_def)
    obtain started s3 where st: "(if mk_batch_deadline_set s2 then (True, s2) else start_batch_deadline s2) = (started, s3)"
      by (metis surj_pair)
    have "calm s2 s3" using st calm_refl calm_start_deadline by (auto split: if_split_asm)
    note c3 = calm_trans [OF c2 this]
    note rest3 = moves_at_rest [OF calm_moves [OF c3 rest1] rest1]
    have d3: "mk_durable s3" using kept_durable [OF c3] d by (simp add: s1_def)
    obtain c4 s4 where p: "(if mk_ever_connected s3 \<or> mk_reconnect_deadline_set s3
        then gateway_mqtt_sink_poll s3 else (GATEWAY_OK, s3)) = (c4, s4)" by (metis surj_pair)
    then have m4: "moves [] s3 s4" using poll_moves rest3 calm_moves [OF calm_refl rest3] by (auto split: if_split_asm)
    note rest4 = moves_at_rest [OF m4 rest3]
    define s5 where "s5 = sync_spool_snapshot s4"
    have c5: "calm s4 s5" by (simp add: s5_def)
    note rest5 = moves_at_rest [OF calm_moves [OF c5 rest4] rest4]
    have d5: "mk_durable s5" using kept_durable [OF c5] moves_durable [OF m4] d3 by simp
    have "(code, s') = (let (started, s) = (if mk_batch_deadline_set s2 then (True, s2) else start_batch_deadline s2) in
          if \<not> started then spool_failure GATEWAY_ERROR_SYSTEM s
          else let (code, s) = (if mk_ever_connected s \<or> mk_reconnect_deadline_set s
                                then gateway_mqtt_sink_poll s else (GATEWAY_OK, s)) in
            if code \<noteq> GATEWAY_OK then (code, s)
            else let pending = snap_pending_records (gateway_spool_read (the_spool s)); s = sync_spool_snapshot s in
              if pending \<ge> mk_max_records s then flush_durable s else (GATEWAY_OK, s))"
      using con [unfolded consume_durable_def] new sp True
      unfolding s1_def s2_def by (cases "mk_have_last_gateway_seq s"; simp add: Let_def split del: if_split)
    then have "(code, s') = (if \<not> started then spool_failure GATEWAY_ERROR_SYSTEM s3 else if c4 \<noteq> GATEWAY_OK then (c4, s4)
        else if snap_pending_records (gateway_spool_read (the_spool s4)) \<ge> mk_max_records s5
        then flush_durable s5 else (GATEWAY_OK, s5))"
      using st p by (cases started; cases "c4 = GATEWAY_OK") (simp_all add: s5_def Let_def)
    then consider "spool_failure GATEWAY_ERROR_SYSTEM s3 = (code, s')" | "s' = s4" | "s' = s5" | "flush_durable s5 = (code, s')"
      by (auto split: if_split_asm)
    then have "moves [] s3 s'"
    proof cases
      case 1
      then show ?thesis using failure_moves(2) rest3 by blast
    next
      case 2
      then show ?thesis using m4 by simp
    next
      case 3
      then show ?thesis using moves_nil_trans(1) [OF m4 calm_moves [OF c5 rest4]] by simp
    next
      case 4
      then show ?thesis
        using moves_nil_trans(1) [OF m4] moves_after [OF c5 rest4] flush_durable_moves d5 by blast
    qed
    then have "moves [] s1 s'" using moves_nil_trans(1) [OF calm_moves [OF c3 rest1]] by blast
    then show ?thesis using takes_moves(1) moves_nil_trans(2) [OF m1] by blast
  qed
qed

lemma consume_buffered_takes:
  assumes con: "consume_buffered r s = (code, s')" and rest: "at_rest s" and d: "\<not> mk_durable s"
  shows "takes r code s s'"
proof (cases "\<not> ready s \<or> mk_have_last_gateway_seq s \<and> gateway_seq r \<le> mk_last_gateway_seq s")
  case True
  then have "code \<noteq> GATEWAY_OK \<and> s' = s" using con by (cases "ready s") (auto simp: consume_buffered_def)
  then show ?thesis using takes_moves(2) [OF calm_moves [OF calm_refl rest]] by simp
next
  case new: False
  obtain due s1 where due: "(if mk_records s = [] then (False, s) else batch_due s) = (due, s1)" by (metis surj_pair)
  then have c1: "calm s s1" using calm_refl calm_clock(3) by (auto split: if_split_asm)
  note rest1 = moves_at_rest [OF calm_moves [OF c1 rest] rest]
  obtain c2 s2 where fl: "(if due then gateway_mqtt_sink_flush s1 else (GATEWAY_OK, s1)) = (c2, s2)" by (metis surj_pair)
  then have "moves [] s1 s2" using flush_moves rest1 calm_moves [OF calm_refl rest1] by (auto split: if_split_asm)
  note m2 = moves_nil_trans(1) [OF calm_moves [OF c1 rest] this]
  note rest2 = moves_at_rest [OF m2 rest]
  have d2: "\<not> mk_durable s2" using moves_durable [OF m2] d by simp
  define s3 where "s3 = s2\<lparr>mk_records := mk_records s2 @ [r], mk_have_last_gateway_seq := True, mk_last_gateway_seq := gateway_seq r\<rparr>"
  have m3: "moves [r] s2 s3"
    using rest2 d2 unfolding moves_def at_rest_def sink_ok_def rested_def
    by (auto simp: s3_def sink_queue_def linked_def intro: exI [of _ "[]"])
  note m23 = moves_nil_trans(1) [OF m2 m3]
  note rest3 = moves_at_rest [OF m3 rest2]
  obtain started s4 where st: "(if length (mk_records s3) = 1 then start_batch_deadline s3 else (True, s3)) = (started, s4)"
    by (metis surj_pair)
  then have c4: "calm s3 s4" using calm_refl calm_start_deadline by (auto split: if_split_asm)
  define s5 where "s5 = on_snapshot (sn_buffered_records_update (\<lambda>_. length (mk_records s4))) s4"
  have "calm s4 s5" by (rule calm_book) (simp_all add: s5_def kept_def)
  note c5 = calm_trans [OF c4 this]
  have result: "(code, s') = (if c2 \<noteq> GATEWAY_OK then (c2, s2)
      else if length (mk_records s2) \<ge> mk_max_records s2 then (GATEWAY_ERROR_RANGE, s2)
      else if \<not> started then mqtt_failure GATEWAY_ERROR_SYSTEM s4
      else if length (mk_records s4) = mk_max_records s4 then gateway_mqtt_sink_flush s5 else (GATEWAY_OK, s5))"
    using con [unfolded consume_buffered_def] new due fl st [unfolded s3_def]
    by (cases "mk_have_last_gateway_seq s"; cases "c2 = GATEWAY_OK"; cases "length (mk_records s2) \<ge> mk_max_records s2";
        cases started; cases "length (mk_records s4) = mk_max_records s4") (simp_all add: s5_def Let_def)
  show ?thesis
  proof (cases "c2 \<noteq> GATEWAY_OK \<or> length (mk_records s2) \<ge> mk_max_records s2")
    case True
    then have "code \<noteq> GATEWAY_OK" "s' = s2" using result by (auto split: if_split_asm)
    then show ?thesis using takes_moves(2) m2 by blast
  next
    case False
    then consider "mqtt_failure GATEWAY_ERROR_SYSTEM s4 = (code, s')" | "s' = s5" | "gateway_mqtt_sink_flush s5 = (code, s')"
      using result by (auto split: if_split_asm)
    then have "moves [] s3 s'"
      using moves_after [OF c4 rest3] failure_moves(1) calm_moves [OF c5 rest3] moves_after [OF c5 rest3] flush_moves
      by cases blast+
    then show ?thesis using takes_moves(1) moves_nil_trans(2) [OF m23] by blast
  qed
qed

lemma consume_takes:
  assumes "gateway_mqtt_sink_consume r s = (code, s')" and "at_rest s" and "wf_record r"
  shows "takes r code s s'"
  using assms consume_durable_takes consume_buffered_takes takes_moves(2) [OF calm_moves [OF calm_refl]]
  by (auto simp: gateway_mqtt_sink_consume_def split: if_split_asm)

lemma disconnect_moves:
  assumes dis: "gateway_mqtt_sink_disconnect s = (code, s')" and rest: "at_rest s"
  shows "moves [] s s'"
proof (cases "mk_mosq s = None")
  case True
  then show ?thesis using dis calm_moves [OF calm_refl rest] by (simp add: gateway_mqtt_sink_disconnect_def)
next
  case mosq: False
  define s1 where "s1 = s\<lparr>mk_explicit_disconnect := True\<rparr>"
  have c1: "calm s s1" by (rule calm_book) (simp_all add: s1_def kept_def)
  obtain reply s2 where l: "library (\<lambda>_. [Disconnect_called (the (mk_mosq s))]) s1 = (reply, s2)" by (metis surj_pair)
  have c2: "calm s s2" by (rule calm_trans [OF c1 library_result(1) [OF l]]) simp
  obtain n s3 where n: "reactor_notify s2 = (n, s3)" by (metis surj_pair)
  note c3 = calm_trans [OF c2 calm_notify [OF n]]
  obtain c m s4 where st: "reactor_step MQTT_LOOP_SLICE_MS s3 = (c, m, s4)" by (metis prod_cases3)
  note c4 = calm_trans [OF c3 calm_reactor_step [OF st]]
  have result: "(code, s') = (if reply_code reply = MOSQ_ERR_NO_CONN then (GATEWAY_OK, s2)
      else if reply_code reply \<noteq> MOSQ_ERR_SUCCESS then mqtt_failure GATEWAY_ERROR_IO s2
      else if n \<noteq> GATEWAY_OK then mqtt_failure GATEWAY_ERROR_SYSTEM s3
      else if c \<noteq> GATEWAY_OK \<and> m \<noteq> MOSQ_ERR_NO_CONN then mqtt_failure c s4 else (GATEWAY_OK, s4))"
    using dis mosq l [unfolded s1_def] n st unfolding gateway_mqtt_sink_disconnect_def
    by (cases "reply_code reply = MOSQ_ERR_NO_CONN"; cases "reply_code reply = MOSQ_ERR_SUCCESS"; cases "n = GATEWAY_OK")
      (simp_all add: Let_def)
  consider "s' \<in> {s2, s4}" | e t where "mqtt_failure e t = (code, s')" "calm s t"
    using result c2 c3 c4 by (auto split: if_split_asm)
  then show ?thesis
    using calm_moves [OF _ rest] c2 c4 moves_after [OF _ rest] failure_moves(1) by cases blast+
qed

lemma read_moves: "gateway_mqtt_sink_read s = (v, s') \<Longrightarrow> at_rest s \<Longrightarrow> moves [] s s'"
  using calm_moves [OF calm_trans [OF calm_simps(4) calm_simps(5)]] by (auto simp: gateway_mqtt_sink_read_def Let_def)

subsection \<open>Runs\<close>

text \<open>What the consumer thread may call, in any order.\<close>

datatype sink_op = Sink_consume telemetry_record | Sink_poll | Sink_flush | Sink_connect | Sink_disconnect | Sink_read

fun sink_step :: "sink_op \<Rightarrow> gateway_mqtt_sink \<Rightarrow> gateway_error_code \<times> gateway_mqtt_sink" where
  "sink_step (Sink_consume r) s = gateway_mqtt_sink_consume r s"
| "sink_step Sink_poll s = gateway_mqtt_sink_poll s"
| "sink_step Sink_flush s = gateway_mqtt_sink_flush s"
| "sink_step Sink_connect s = gateway_mqtt_sink_connect s"
| "sink_step Sink_disconnect s = gateway_mqtt_sink_disconnect s"
| "sink_step Sink_read s = (GATEWAY_OK, snd (gateway_mqtt_sink_read s))"

text \<open>The records offered and those whose consumption returned success.\<close>

fun offered_records :: "sink_op list \<Rightarrow> telemetry_record list" where
  "offered_records [] = []"
| "offered_records (Sink_consume r # ops) = r # offered_records ops"
| "offered_records (_ # ops) = offered_records ops"

fun sink_run :: "sink_op list \<Rightarrow> gateway_mqtt_sink \<Rightarrow> telemetry_record list \<times> gateway_mqtt_sink" where
  "sink_run [] s = ([], s)"
| "sink_run (op # ops) s =
     (let (code, t) = sink_step op s; (took, u) = sink_run ops t
      in (case op of Sink_consume r \<Rightarrow> if code = GATEWAY_OK then r # took else took | _ \<Rightarrow> took, u))"

lemma step_moves:
  assumes "sink_step op s = (code, t)" and "at_rest s" and "\<forall>r\<in>set (offered_records [op]). wf_record r"
  shows "case op of Sink_consume r \<Rightarrow> takes r code s t | _ \<Rightarrow> moves [] s t"
  using assms consume_takes poll_moves flush_moves connect_moves disconnect_moves read_moves [OF prod.collapse [symmetric]]
  by (cases op) auto

lemma run_moves:
  assumes "sink_run ops s = (took, s')" and "at_rest s" and "\<forall>r\<in>set (offered_records ops). wf_record r"
  shows "\<exists>taken. moves taken s s' \<and> subseq took taken \<and> subseq taken (offered_records ops)"
  using assms
proof (induction ops arbitrary: s took)
  case Nil
  then show ?case using calm_moves [OF calm_refl] by auto
next
  case (Cons op ops)
  obtain code t where st: "sink_step op s = (code, t)" by (metis surj_pair)
  obtain acc u where run: "sink_run ops t = (acc, u)" by (metis surj_pair)
  have u: "u = s'" "took = (case op of Sink_consume r \<Rightarrow> if code = GATEWAY_OK then r # acc else acc | _ \<Rightarrow> acc)"
    using Cons.prems(1) st run by auto
  have wf: "\<forall>r\<in>set (offered_records [op]). wf_record r" "\<forall>r\<in>set (offered_records ops). wf_record r"
    using Cons.prems(3) by (cases op; simp)+
  note m = step_moves [OF st Cons.prems(2) wf(1)]
  obtain first where first: "moves first s t" "first = (case op of Sink_consume r \<Rightarrow> [r] | _ \<Rightarrow> []) \<or>
      first = [] \<and> (\<forall>r. op = Sink_consume r \<longrightarrow> code \<noteq> GATEWAY_OK)"
    using m by (cases op) (auto simp: takes_def)
  obtain taken where taken: "moves taken t s'" "subseq acc taken" "subseq taken (offered_records ops)"
    using Cons.IH [OF run [unfolded u(1)] moves_at_rest [OF first(1) Cons.prems(2)] wf(2)] by blast
  have "subseq took (first @ taken)" "subseq (first @ taken) (offered_records (op # ops))"
    using first(2) taken(2,3) u(2) by (cases op; auto intro: list_emb_append2)+
  then show ?case using moves_trans [OF first(1) taken(1)] by blast
qed

end
