(* ===== verification/Mqtt_Sink_Props.thy ===== *)
theory Mqtt_Sink_Props
  imports Mqtt_Sink_Ops "HOL-Library.Code_Target_Numeral"
begin

text \<open>
  The properties of the sink: at-least-once delivery in order, the invariant that it rests in, what its creation
  gives and gives back, its deadlines, and the pace of its reconnections.
\<close>

subsection \<open>Time\<close>

definition nanoseconds :: "timespec \<Rightarrow> int" where
  "nanoseconds t = tv_sec t * 1000000000 + tv_nsec t"

definition normal_time :: "timespec \<Rightarrow> bool" where
  "normal_time t \<longleftrightarrow> 0 \<le> tv_nsec t \<and> tv_nsec t < 1000000000"

text \<open>The remaining time. For a clock that could be read, \<open>milliseconds_until\<close> is the time to the deadline,
  rounded up to a whole millisecond, cut off at zero below and at \<open>INT_MAX\<close> above; so it is zero exactly when the
  deadline is reached, and waiting that long never ends before the deadline by rounding down.\<close>

theorem remaining_time_rounds_up:
  assumes "normal_time deadline" and "normal_time t"
  shows "milliseconds_until deadline (Some t) =
     min C_INT_MAX (max 0 (- ((nanoseconds t - nanoseconds deadline) div 1000000)))"
proof -
  obtain ds dn ts tn where d: "deadline = \<lparr>tv_sec = ds, tv_nsec = dn\<rparr>" "t = \<lparr>tv_sec = ts, tv_nsec = tn\<rparr>"
    by (cases deadline; cases t)
  have n: "0 \<le> dn" "dn < 1000000000" "0 \<le> tn" "tn < 1000000000" using assms by (simp_all add: normal_time_def d)
  have up: "(b + 999999) div 1000000 = - ((- b) div 1000000)" for b :: int
    by (rule int_div_pos_eq [where r = "999999 - (- b) mod 1000000"])
      (use div_mult_mod_eq [of "- b" 1000000] pos_mod_bound [of 1000000 "- b"] pos_mod_sign [of 1000000 "- b"] in linarith)+
  define sec nsec where "sec = (if dn < tn then ds - ts - 1 else ds - ts)"
    and "nsec = (if dn < tn then dn - tn + 1000000000 else dn - tn)"
  have nsec: "0 \<le> nsec" "nsec < 1000000000" "nanoseconds deadline - nanoseconds t = sec * 1000000000 + nsec"
    using n by (auto simp: sec_def nsec_def nanoseconds_def d algebra_simps)
  have split: "- ((nanoseconds t - nanoseconds deadline) div 1000000) = sec * 1000 + (nsec + 999999) div 1000000"
  proof -
    have "nanoseconds t - nanoseconds deadline = (- nsec) + (- sec * 1000) * 1000000" using nsec(3) by simp
    then have "(nanoseconds t - nanoseconds deadline) div 1000000 = (- nsec) div 1000000 + (- sec * 1000)"
      by (metis div_mult_self1 add.commute zero_neq_numeral)
    then show ?thesis using up [of nsec] by simp
  qed
  have cut: "(if C_INT_MAX < ms then C_INT_MAX else ms) = min C_INT_MAX ms" for ms by auto
  have model: "milliseconds_until deadline (Some t) = (if sec < 0 \<or> sec = 0 \<and> nsec = 0 then 0
      else min C_INT_MAX (sec * 1000 + (nsec + 999999) div 1000000))"
    by (cases "dn < tn") (simp_all add: milliseconds_until_def d sec_def nsec_def Let_def cut)
  have bounds: "0 \<le> (nsec + 999999) div 1000000" "(nsec + 999999) div 1000000 \<le> 1000" using nsec(1,2) by auto
  show ?thesis
  proof (cases "sec < 0 \<or> sec = 0 \<and> nsec = 0")
    case True
    then have "sec * 1000 + (nsec + 999999) div 1000000 \<le> 0" using bounds by auto
    then show ?thesis unfolding model split using True by (simp add: C_INT_MAX_def)
  next
    case False
    then have "0 \<le> sec * 1000 + (nsec + 999999) div 1000000" using bounds by auto
    then show ?thesis unfolding model split using False by auto
  qed
qed

lemma remaining_time_rounds_up_witness:
  "milliseconds_until \<lparr>tv_sec = 5, tv_nsec = 1\<rparr> (Some \<lparr>tv_sec = 4, tv_nsec = 999000000\<rparr>) = 2"
  using remaining_time_rounds_up [of "\<lparr>tv_sec = 5, tv_nsec = 1\<rparr>" "\<lparr>tv_sec = 4, tv_nsec = 999000000\<rparr>"]
  by (simp add: normal_time_def nanoseconds_def C_INT_MAX_def)

text \<open>The part of the clock readings that a wait uses.\<close>

lemma await_readings:
  "await_loop over lost deadline readings s = (e, s') \<Longrightarrow>
   \<exists>n\<le>length readings. clock_answers (mk_world s') = drop n readings \<and>
     (\<forall>i. Suc i < n \<longrightarrow> milliseconds_until deadline (readings ! i) > 0) \<and>
     (e = Wait_timeout \<longrightarrow> n = length readings \<or> n \<noteq> 0 \<and> milliseconds_until deadline (readings ! (n - 1)) \<le> 0)"
proof (induction over lost deadline readings s arbitrary: e s' rule: await_loop.induct)
  case (1 over lost deadline s)
  then show ?case by (auto simp: set_clock_def split: if_split_asm)
next
  case (2 over lost deadline reading readings s)
  let ?remaining = "milliseconds_until deadline reading"
  let ?slice = "if ?remaining < MQTT_LOOP_SLICE_MS then ?remaining else MQTT_LOOP_SLICE_MS"
  obtain code mc t where r: "reactor_step ?slice s = (code, mc, t)" by (metis prod_cases3)
  consider "over s" | "\<not> over s" "?remaining \<le> 0" | "\<not> over s" "?remaining > 0" by fastforce
  then show ?case
  proof cases
    case 1
    then show ?thesis using 2(2) by (intro exI [of _ 0]) (auto simp: set_clock_def)
  next
    case late: 2
    then show ?thesis using 2(2) by (intro exI [of _ 1]) (auto simp: set_clock_def)
  next
    case go: 3
    show ?thesis
    proof (cases "code \<noteq> GATEWAY_OK \<or> lost t")
      case True
      then have "e = Wait_error code" "s' = set_clock readings t" using 2(2) r go by (simp_all add: Let_def split: if_split_asm)
      then show ?thesis by (intro exI [of _ 1]) (auto simp: set_clock_def)
    next
      case False
      then have again: "await_loop over lost deadline readings t = (e, s')" using 2(2) r go by (simp add: Let_def split: if_split_asm)
      have "\<not> ?remaining \<le> 0" using go(2) by simp
      from 2(1) [OF go(1) refl this refl refl r [symmetric] refl False again]
      obtain n where n: "n \<le> length readings" "clock_answers (mk_world s') = drop n readings"
        "\<And>i. Suc i < n \<Longrightarrow> milliseconds_until deadline (readings ! i) > 0"
        "e = Wait_timeout \<longrightarrow> n = length readings \<or> n \<noteq> 0 \<and> milliseconds_until deadline (readings ! (n - 1)) \<le> 0"
        by blast
      have "milliseconds_until deadline ((reading # readings) ! i) > 0" if "Suc i < Suc n" for i
        using that n(3) go(2) by (cases i) auto
      then show ?thesis using n by (intro exI [of _ "Suc n"]) (auto simp: nth_Cons')
    qed
  qed
qed

subsection \<open>A sink that is up\<close>

definition example_record :: "u64 \<Rightarrow> telemetry_record" where
  "example_record n = zero_record\<lparr>gateway_seq := n, dlc := 8,
     status_flags := GATEWAY_RECORD_STATUS_KERNEL_TIMESTAMP_VALID OR GATEWAY_RECORD_STATUS_CHECKSUM_VALID OR
       GATEWAY_RECORD_STATUS_DECODED_VALID\<rparr>"

definition example_config :: gateway_mqtt_sink_config where
  "example_config = \<lparr>mc_device_id = Some ''gw'', mc_broker_host = Some ''host'', mc_broker_port = 1883,
     mc_broker_username = Some [], mc_broker_password = Some [], mc_topic = Some ''t'', mc_batch_interval_ms = 100,
     mc_ack_timeout_ms = 1000, mc_reconnect_interval_ms = 1000, mc_spool_path = None,
     mc_spool_format = GATEWAY_SPOOL_FORMAT_V2, mc_spool_max_bytes = 0, mc_spool_sync_records = 0,
     mc_spool_sync_interval_ms = 0, mc_max_records = 1, mc_stats = Some zero_stats, mc_logger = True\<rparr>"

text \<open>A reactor that has a client, and a broker that accepts the connection and acknowledges one message.\<close>

definition example_world :: mqtt_world where
  "example_world = quiet_world\<lparr>socket_answers := replicate 20 5,
     clock_answers := map (\<lambda>sec. Some \<lparr>tv_sec = sec, tv_nsec = 0\<rparr>) [10, 11, 12, 12],
     epoll_answers := [Epoll_events [(REACTOR_TAG_MQTT, EPOLLIN)]],
     lib_answers := [\<lparr>reply_code = 0, reply_mid = 0, reply_callbacks = [On_connect 0]\<rparr>,
       \<lparr>reply_code = 0, reply_mid = 7, reply_callbacks = []\<rparr>,
       \<lparr>reply_code = 0, reply_mid = 0, reply_callbacks = [On_publish 7]\<rparr>]\<rparr>"

definition example_sink :: gateway_mqtt_sink where
  "example_sink = (configured_sink example_config example_world)
     \<lparr>mk_mosq := Some 0, mk_reactor := Some \<lparr>epoll_fd = 10, wake_fd = 11, timer_fd = 12, network_fd = - 1,
        network_events = 0, client = Some 0, re_snapshot = zero_reactor_snapshot\<rparr>\<rparr>"

definition durable_example :: gateway_mqtt_sink where
  "durable_example = on_world (epoll_answers_update (Cons (Epoll_events [])))
     (example_sink\<lparr>mk_durable := True, mk_spool := Some (Legacy_spool start_legacy)\<rparr>)"

lemma example_at_rest: "at_rest example_sink" "at_rest durable_example"
proof -
  show "at_rest example_sink"
    by (simp add: at_rest_def sink_ok_def rested_def linked_def example_sink_def configured_sink_def zero_mqtt_snapshot_def
        example_world_def quiet_world_def)
  show "at_rest durable_example"
    by (simp add: at_rest_def sink_ok_def rested_def linked_def durable_example_def example_sink_def configured_sink_def
        zero_mqtt_snapshot_def example_world_def quiet_world_def the_spool_def queue_defs)
qed

lemma example_record_wf [simp]: "wf_record (example_record n)"
  by (simp add: example_record_def wf_record_def zero_record_def)

subsection \<open>Waiting\<close>

text \<open>C18: A wait ends by its deadline. However long the PUBACK stays away, the wait reads the clock again only while
  the last reading was before the deadline, and it reports a timeout only when a reading has reached the deadline or
  the clock can no longer be read. So on a clock that advances, the wait ends; it cannot go on past the
  first reading at or after the deadline.\<close>

theorem puback_wait_ends_by_deadline:
  assumes "await_puback_durable deadline s = (e, s')"
  shows "\<exists>n. clock_answers (mk_world s') = drop n (clock_answers (mk_world s)) \<and>
     (\<forall>i. Suc i < n \<longrightarrow> milliseconds_until deadline (clock_answers (mk_world s) ! i) > 0) \<and>
     (e = Wait_timeout \<longrightarrow> n = length (clock_answers (mk_world s)) \<or>
        n \<noteq> 0 \<and> milliseconds_until deadline (clock_answers (mk_world s) ! (n - 1)) \<le> 0) \<and>
     (e = Wait_over \<longrightarrow> \<not> in_flight s')"
  using await_readings [OF assms [unfolded await_puback_durable_def]]
    await_over [OF _, of "\<lambda>s. \<not> in_flight s" mk_transport_lost deadline "clock_answers (mk_world s)" s s']
    assms [unfolded await_puback_durable_def]
  by (auto simp: set_clock_def)

lemma puback_wait_ends_by_deadline_witness:
  "\<exists>e s' n. await_puback_durable \<lparr>tv_sec = 11, tv_nsec = 0\<rparr> example_sink = (e, s') \<and>
     clock_answers (mk_world s') = drop n (clock_answers (mk_world example_sink))"
proof -
  obtain e s' where w: "await_puback_durable \<lparr>tv_sec = 11, tv_nsec = 0\<rparr> example_sink = (e, s')" by (metis surj_pair)
  show ?thesis using puback_wait_ends_by_deadline [OF w] w by blast
qed

subsection \<open>Delivery\<close>

text \<open>C3: At least once, in order, until the PUBACK. From a sink at rest and over any sequence of operations, the
  records that have left the queue, followed by those still in it, are those that were in it, followed by the ones taken
  in since, in the order of the calls. Every record whose consumption reported success was taken in. What has
  left did so in whole batches, and for each of them the history holds the evidence: the document that encodes exactly
  this batch was published by a client, and the PUBACK with that message's identifier came in on the same
  client before it was destroyed. This holds with a spool of either format and without one, whatever the library, the
  network, the clock and the disk do.\<close>

theorem sink_delivers_at_least_once:
  assumes "sink_run ops s = (took, s')" and "at_rest s" and "\<forall>r\<in>set (offered_records ops). wf_record r"
  shows "\<exists>batches taken. concat batches @ sink_queue s' = sink_queue s @ taken \<and>
     subseq took taken \<and> subseq taken (offered_records ops) \<and>
     (\<forall>b\<in>set batches. delivered_batch (mk_device_id s) (log_of s') b)"
  using run_moves [OF assms] by (auto simp: moves_def)

text \<open>A sink that delivers: the record is taken, and it is gone.\<close>

lemma example_run:
  "fst (sink_run [Sink_connect, Sink_consume (example_record 1)] example_sink) = [example_record 1]"
  "sink_queue (snd (sink_run [Sink_connect, Sink_consume (example_record 1)] example_sink)) = []"
  by code_simp+

lemma sink_delivers_at_least_once_witness:
  "\<exists>batches. concat batches = [example_record 1] \<and> (\<forall>b\<in>set batches. delivered_batch ''gw''
     (log_of (snd (sink_run [Sink_connect, Sink_consume (example_record 1)] example_sink))) b)"
proof -
  let ?ops = "[Sink_connect, Sink_consume (example_record 1)]"
  obtain took s' where run: "sink_run ?ops example_sink = (took, s')" by (metis surj_pair)
  have start: "sink_queue example_sink = []" "mk_device_id example_sink = ''gw''" by code_simp+
  obtain batches taken where b: "concat batches @ sink_queue s' = taken" "subseq took taken" "subseq taken [example_record 1]"
      "\<forall>b\<in>set batches. delivered_batch ''gw'' (log_of s') b"
    using sink_delivers_at_least_once [OF run example_at_rest(1)] start by auto
  have "took = [example_record 1]" "sink_queue s' = []" using example_run run by simp_all
  then show ?thesis using b run by (metis append_Nil2 snd_conv subseq_order.antisym)
qed

text \<open>C9: A sink at rest stays at rest: after every operation, unless the sink has failed, no message is in flight and
  the spool holds no prepared batch; the reactor drives the sink's client; and a sink that has failed stays
  failed.\<close>

theorem sink_stays_at_rest:
  assumes "sink_run ops s = (took, s')" and "at_rest s" and "\<forall>r\<in>set (offered_records ops). wf_record r"
  shows "(sink_failed s' \<or> \<not> in_flight s' \<and> (mk_durable s' \<longrightarrow> queue_batch (the_spool s') = 0)) \<and>
    (mk_durable s' \<longrightarrow> queue_inv (the_spool s')) \<and> (\<exists>r. mk_reactor s' = Some r \<and> client r = mk_mosq s') \<and>
    (sink_failed s \<longrightarrow> sink_failed s')"
proof -
  obtain taken where m: "moves taken s s'" using run_moves [OF assms] by blast
  then have "at_rest s'" using moves_at_rest assms(2) by blast
  then show ?thesis using m by (auto simp: at_rest_def rested_def sink_ok_def linked_def moves_def)
qed

lemma sink_stays_at_rest_witness:
  "let s' = snd (sink_run [Sink_connect, Sink_consume (example_record 1)] durable_example) in
    sink_failed s' \<or> \<not> in_flight s' \<and> (mk_durable s' \<longrightarrow> queue_batch (the_spool s') = 0)"
proof -
  let ?ops = "[Sink_connect, Sink_consume (example_record 1)]"
  obtain took s' where run: "sink_run ?ops durable_example = (took, s')" by (metis surj_pair)
  show ?thesis using sink_stays_at_rest [OF run example_at_rest(2)] run by (simp add: Let_def)
qed

subsection \<open>Reconnecting\<close>

lemma moves_log: "moves taken s s' \<Longrightarrow> \<exists>h. log_of s' = log_of s @ h"
  by (simp add: moves_def)

lemma begin_reconnect_calls:
  assumes rest: "at_rest s" and d: "mk_durable s" and c: "mk_mosq s = Some c"
  shows "begin_reconnect s = Inl (code, s') \<Longrightarrow> \<exists>h. log_of s' = log_of s @ Connect_called c # h"
    and "begin_reconnect s = Inr s' \<Longrightarrow> \<exists>h. log_of s' = log_of s @ Connect_called c # h"
proof -
  define s1 where "s1 = (stat_increment GATEWAY_STAT_MQTT_CONNECT_ATTEMPTS s)\<lparr>mk_connect_callback_seen := False, mk_connect_result := 0\<rparr>"
  have c1: "calm s s1" by (rule calm_book) (simp_all add: s1_def stat_add_def kept_def)
  have s1: "log_of s1 = log_of s" "mk_mosq s1 = Some c" "linked s1"
    using c rest c1 by (simp_all add: s1_def stat_add_def calm_def at_rest_def sink_ok_def)
  obtain reply s2 where r: "connect_call s1 = (reply, s2)" by (metis surj_pair)
  note c2 = calm_trans [OF c1 calm_connect_call [OF r]]
  have h2: "log_of s2 = log_of s @ Connect_called c # map (Callback_run c) (reply_callbacks reply)"
    using library_result(3) [OF r [unfolded connect_call_def]] s1 by simp
  note rest2 = moves_at_rest [OF calm_moves [OF c2 rest] rest]
  obtain n s3 where n: "reactor_notify s2 = (n, s3)" by (metis surj_pair)
  note c3 = calm_notify [OF n]
  obtain dl s4 where dl: "deadline_after_milliseconds (mk_ack_timeout_ms s3) s3 = (dl, s4)" by (metis surj_pair)
  note c4 = calm_trans [OF c3 calm_clock(2) [OF dl]]
  have result: "begin_reconnect s = (if reply_code reply \<noteq> MOSQ_ERR_SUCCESS then Inl (durable_transport_offline s2)
      else if n \<noteq> GATEWAY_OK then Inl (mqtt_failure GATEWAY_ERROR_SYSTEM s3)
      else if dl = None then Inl (mqtt_failure GATEWAY_ERROR_SYSTEM s4)
      else Inr (s4\<lparr>mk_reconnect_attempt_deadline := the dl, mk_reconnect_in_progress := True,
                   mk_reconnect_attempt_deadline_set := True\<rparr>))"
    using r n dl by (cases dl; simp add: begin_reconnect_def s1_def)
  have grown: "\<exists>h. log_of t = log_of s @ Connect_called c # h" if "\<exists>h. log_of t = log_of s2 @ h" for t
    using that h2 by auto
  have d2: "mk_durable s2" using kept_durable [OF c2] d by simp
  show "\<exists>h. log_of s' = log_of s @ Connect_called c # h" if b: "begin_reconnect s = Inl (code, s')"
  proof -
    consider "durable_transport_offline s2 = (code, s')" | e t where "mqtt_failure e t = (code, s')" "calm s2 t"
      using b [unfolded result] c3 c4 by (auto split: if_split_asm)
    then have "moves [] s2 s'"
      using moves_after [OF _ rest2] offline_moves [OF _ rest2 d2] failure_moves(1) by cases blast+
    then show ?thesis using grown moves_log by blast
  qed
  have "moves [] s2 s4" using calm_moves [OF c4 rest2] .
  then have "\<exists>h. log_of s4 = log_of s @ Connect_called c # h" using grown moves_log by blast
  then show "\<exists>h. log_of s' = log_of s @ Connect_called c # h" if b: "begin_reconnect s = Inr s'"
    using b [unfolded result] by (auto split: if_split_asm)
qed

text \<open>C17: Reconnections are paced. A durable sink that is offline, with no attempt running and a deadline for the next
  one, looks at the clock: before the deadline, or when the clock cannot be read, the step does nothing else, and no
  library function is called; at the deadline or after it, the first thing that happens is a connection attempt.\<close>

theorem reconnect_waits_for_deadline:
  assumes "at_rest s" and "mk_durable s" and "mk_mosq s = Some c" and "\<not> sn_connected (mk_snapshot s)"
    and "\<not> mk_reconnect_in_progress s" and "mk_reconnect_deadline_set s"
    and "timespec_reached (mk_reconnect_deadline s) s = (reached, t)"
    and "durable_reconnect_step s = (code, s')"
  shows "if reached then \<exists>h. log_of s' = log_of s @ Connect_called c # h
     else code = GATEWAY_OK \<and> s' = s\<lparr>mk_world := mk_world t\<rparr> \<and> log_of s' = log_of s"
proof -
  have t: "calm s t" "log_of t = log_of s" "t = s\<lparr>mk_world := mk_world t\<rparr>" "mk_mosq t = mk_mosq s"
      "mk_reconnect_in_progress t = mk_reconnect_in_progress s"
    using calm_clock(1) [OF assms(7)] assms(7) clock_frame [of "mk_world s"]
    by (auto simp: timespec_reached_def Let_def split: prod.split_asm)
  have rest: "at_rest t" using moves_at_rest [OF calm_moves [OF t(1) assms(1)] assms(1)] .
  have d: "mk_durable t" using kept_durable [OF t(1)] assms(2) by simp
  have step: "(code, s') = (if \<not> reached then watch_reconnect t
      else case begin_reconnect t of Inl result \<Rightarrow> result | Inr s \<Rightarrow> watch_reconnect s)"
    using assms(4-8) by (simp add: durable_reconnect_step_def)
  show ?thesis
  proof (cases reached)
    case False
    then show ?thesis using step t assms(5) by (simp add: watch_reconnect_def)
  next
    case True
    have mosq: "mk_mosq t = Some c" using t(4) assms(3) by simp
    note calls = begin_reconnect_calls [OF rest d mosq]
    show ?thesis
    proof (cases "begin_reconnect t")
      case (Inl res)
      then have "begin_reconnect t = Inl (code, s')" using step True by simp
      then show ?thesis using calls(1) t(2) True by simp
    next
      case (Inr u)
      have w: "watch_reconnect u = (code, s')" using step True Inr by simp
      have cu: "calm t u" by (rule begin_reconnect_result(2) [OF rest d Inr])
      have "moves [] u s'"
        using watch_reconnect_moves [OF w moves_at_rest [OF calm_moves [OF cu rest] rest]] kept_durable [OF cu] d by blast
      then show ?thesis using calls(2) [OF Inr] moves_log t(2) True by fastforce
    qed
  qed
qed

definition offline_example :: gateway_mqtt_sink where
  "offline_example = durable_example\<lparr>mk_reconnect_deadline := \<lparr>tv_sec = 11, tv_nsec = 0\<rparr>, mk_reconnect_deadline_set := True\<rparr>"

lemma reconnect_waits_for_deadline_witness:
  "fst (durable_reconnect_step offline_example) = GATEWAY_OK \<and> log_of (snd (durable_reconnect_step offline_example)) = []"
proof -
  obtain code s' where step: "durable_reconnect_step offline_example = (code, s')" by (metis surj_pair)
  obtain t where r: "timespec_reached (mk_reconnect_deadline offline_example) offline_example = (False, t)"
    by (simp add: timespec_reached_def offline_example_def durable_example_def example_sink_def configured_sink_def
        example_world_def monotonic_clock_def)
  have ex: "at_rest offline_example" "mk_durable offline_example" "mk_mosq offline_example = Some 0"
      "\<not> sn_connected (mk_snapshot offline_example)" "\<not> mk_reconnect_in_progress offline_example"
      "mk_reconnect_deadline_set offline_example" "log_of offline_example = []"
    using example_at_rest(2)
    by (simp_all add: at_rest_def sink_ok_def rested_def linked_def offline_example_def the_spool_def durable_example_def
        example_sink_def configured_sink_def zero_mqtt_snapshot_def example_world_def quiet_world_def)
  have "code = GATEWAY_OK \<and> log_of s' = []" using reconnect_waits_for_deadline [OF ex(1-6) r step] unfolding if_False ex(7) by blast
  then show ?thesis by (simp add: step)
qed

subsection \<open>Creation\<close>

text \<open>The spool that a configuration opens, and that it has its invariant and no batch handed out.\<close>

definition opened_spool :: "gateway_mqtt_sink_config \<Rightarrow> disk \<Rightarrow> gateway_error_code \<times> gateway_spool option \<times> disk" where
  "opened_spool c d = (if mc_spool_format c = GATEWAY_SPOOL_FORMAT_V2
     then gateway_spool_open_v2 (mc_spool_path c) (Some (spool_options c)) d
     else gateway_spool_open (mc_spool_path c) d)"

definition spool_opens_well :: "gateway_mqtt_sink_config \<Rightarrow> disk \<Rightarrow> bool" where
  "spool_opens_well c d \<longleftrightarrow> (case opened_spool c d of
     (code, sp, d') \<Rightarrow> code = GATEWAY_OK \<longrightarrow> (case sp of None \<Rightarrow> False | Some q \<Rightarrow> queue_inv q \<and> queue_batch q = 0))"

lemma created_frame:
  "open_fds (mk_world (fold run_callback cbs s)) = open_fds (mk_world s)"
  using run_callbacks_frame [of cbs s] by simp

lemma run_delivered_fds: "open_fds (mk_world (run_delivered s)) = open_fds (mk_world s)"
  by (simp add: run_delivered_def created_frame)

lemma library_fds: "library events s = (reply, s') \<Longrightarrow> open_fds (mk_world s') = open_fds (mk_world s)"
  by (auto simp: library_def lib_call_with_def run_delivered_fds Let_def split: option.split_asm prod.split_asm)

lemma create_client_fds:
  assumes "create_mosquitto_client s = (code, s')"
  shows "open_fds (mk_world s') = open_fds (mk_world s)"
proof -
  have n: "open_fds (mk_world (mosquitto_new s)) = open_fds (mk_world s)" for s
    by (auto simp: mosquitto_new_def plain_call_def Let_def split: prod.split)
  have d: "open_fds (mk_world (mosquitto_destroy s)) = open_fds (mk_world s)" for s
    by (auto simp: mosquitto_destroy_def split: option.split)
  obtain a s2 where l: "library (\<lambda>_. []) (mosquitto_new s) = (a, s2)" by (metis surj_pair)
  obtain b s3 where m: "library (\<lambda>_. []) s2 = (b, s3)" by (metis surj_pair)
  show ?thesis
    using assms l m n [of s] d [of s2] d [of s3] library_fds [OF l] library_fds [OF m]
    by (auto simp: create_mosquitto_client_def Let_def split: if_split_asm)
qed

lemma start_library_result:
  assumes start: "start_sink_library s = (code, s')" and u: "delivered (mk_world s) = []" and none: "mk_reactor s = None"
  shows "mk_spool s' = mk_spool s" and "mk_records s' = mk_records s"
    and "mk_durable s' = mk_durable s \<and> mk_device_id s' = mk_device_id s"
    and "\<not> in_flight s \<Longrightarrow> \<not> in_flight s'"
    and "code = GATEWAY_OK \<Longrightarrow> linked s'"
    and "code \<noteq> GATEWAY_OK \<Longrightarrow> mk_reactor s' = None \<and> open_fds (mk_world s') = open_fds (mk_world s)"
proof -
  obtain ok w where p: "plain_call (mk_world s) = (ok, w)" by (metis surj_pair)
  have w: "delivered w = []" "open_fds w = open_fds (mk_world s)"
    using p u by (auto simp: plain_call_def Let_def split: prod.split_asm)
  define s1 where "s1 = s\<lparr>mk_world := w, mk_library_initialized := True\<rparr>"
  obtain c2 s2 where cr: "create_mosquitto_client s1 = (c2, s2)" by (metis surj_pair)
  have u1: "unbound s1" using w by (simp add: unbound_def s1_def)
  note f2 = create_client_result(1) [OF cr u1]
  note fds2 = create_client_fds [OF cr]
  obtain c3 r w3 where re: "gateway_mqtt_reactor_create (mk_mosq s2) MQTT_MISC_INTERVAL_MS (mk_world s2) = (c3, r, w3)"
    by (metis prod_cases3)
  define s3 where "s3 = run_delivered (s2\<lparr>mk_reactor := r, mk_world := w3\<rparr>)"
  note k3 = run_delivered_result [OF refl, where s = "s2\<lparr>mk_reactor := r\<rparr>" and w = w3]
  have s3: "kept s2 s3" "mk_reactor s3 = r" "delivered (mk_world s3) = []" "\<not> in_flight s2 \<longrightarrow> \<not> in_flight s3"
      "open_fds (mk_world s3) = open_fds w3"
    using k3(1-3,6) by (simp_all add: s3_def kept_def run_delivered_fds)
  have result: "(code, s') = (if \<not> ok then (GATEWAY_ERROR_SYSTEM, s\<lparr>mk_world := w\<rparr>)
      else if c2 \<noteq> GATEWAY_OK then (GATEWAY_ERROR_SYSTEM, s2)
      else if c3 \<noteq> GATEWAY_OK then (GATEWAY_ERROR_SYSTEM, s3) else (GATEWAY_OK, sync_reactor_snapshot s3))"
    using start p cr re by (cases ok; cases "c2 = GATEWAY_OK"; cases "c3 = GATEWAY_OK") (simp_all add: start_sink_library_def s1_def s3_def Let_def)
  have cs: "calm s3 (sync_reactor_snapshot s3)" by simp
  have sync: "mk_reactor (sync_reactor_snapshot s3) = mk_reactor s3" "mk_world (sync_reactor_snapshot s3) = mk_world s3"
    by (simp_all add: sync_reactor_snapshot_def Let_def split: option.split)
  have made: "case r of None \<Rightarrow> c3 \<noteq> GATEWAY_OK \<and> open_fds w3 = open_fds (mk_world s2)
      | Some r \<Rightarrow> c3 = GATEWAY_OK \<and> client r = mk_mosq s2"
    using create_result [OF re] by (cases r) auto
  have k2: "mk_spool s2 = mk_spool s" "mk_records s2 = mk_records s" "mk_durable s2 = mk_durable s \<and> mk_device_id s2 = mk_device_id s"
      "mk_reactor s2 = None" "\<not> in_flight s \<longrightarrow> \<not> in_flight s2"
    using f2 none by (auto simp: detached_def s1_def)
  show "mk_spool s' = mk_spool s" "mk_records s' = mk_records s"
    "mk_durable s' = mk_durable s \<and> mk_device_id s' = mk_device_id s"
    using result k2 s3(1) calm_kept [OF cs] by (auto simp: kept_def split: if_split_asm)
  show "\<not> in_flight s'" if "\<not> in_flight s"
    using that result k2 s3(4) cs by (auto simp: calm_def sync_reactor_snapshot_def Let_def split: if_split_asm option.split)
  show "linked s'" if "code = GATEWAY_OK"
    using that result made s3(1-3) sync calm_kept [OF cs]
    by (cases r) (auto simp: linked_def kept_def split: if_split_asm)
  show "mk_reactor s' = None \<and> open_fds (mk_world s') = open_fds (mk_world s)" if "code \<noteq> GATEWAY_OK"
    using that result made s3(2,5) k2 none fds2 w(2) by (cases r) (auto simp: s1_def split: if_split_asm)
qed

lemma open_spool_result:
  assumes "open_sink_spool c (configured_sink c w) d = (code, s, d')"
  shows "mk_device_id s = mk_device_id (configured_sink c w) \<and> mk_world s = w \<and> mk_reactor s = None \<and> mk_mosq s = None \<and> \<not> in_flight s \<and> mk_records s = [] \<and>
    (code = GATEWAY_OK \<longrightarrow> (if mc_spool_path c = None \<or> mc_spool_path c = Some [] then \<not> mk_durable s
       else mk_durable s \<and> opened_spool c d = (GATEWAY_OK, mk_spool s, d')))"
proof (cases "mc_spool_path c = None \<or> mc_spool_path c = Some []")
  case True
  then show ?thesis using assms by (auto simp: open_sink_spool_def configured_sink_def zero_mqtt_snapshot_def)
next
  case False
  obtain c1 sp d1 where o: "opened_spool c d = (c1, sp, d1)" by (metis prod_cases3)
  show ?thesis
    using assms False o
    by (cases "c1 = GATEWAY_OK"; cases sp)
      (auto simp: open_sink_spool_def opened_spool_def [symmetric] configured_sink_def zero_mqtt_snapshot_def stat_add_def
        sync_spool_snapshot_def Let_def split: prod.split_asm if_split_asm)
qed

lemma create_sink_result:
  assumes "gateway_mqtt_sink_create (Some c) d w = (code, res, d', w')" and "delivered w = []"
    and "mc_spool_path c \<noteq> None \<and> mc_spool_path c \<noteq> Some [] \<Longrightarrow> spool_opens_well c d"
  shows "case res of
      None \<Rightarrow> code \<noteq> GATEWAY_OK \<and> open_fds w' = open_fds w
    | Some s \<Rightarrow> code = GATEWAY_OK \<and> at_rest s \<and> mk_world s = w' \<and> mk_device_id s = the (mc_device_id c) \<and>
        (if mc_spool_path c = None \<or> mc_spool_path c = Some [] then \<not> mk_durable s \<and> sink_queue s = []
         else mk_durable s \<and> opened_spool c d = (GATEWAY_OK, mk_spool s, d'))"
proof -
  obtain ok1 w1 where p1: "plain_call w = (ok1, w1)" by (metis surj_pair)
  obtain ok2 w2 where p2: "plain_call w1 = (ok2, w2)" by (metis surj_pair)
  obtain ok3 w3 where p3: "plain_call w2 = (ok3, w3)" by (metis surj_pair)
  obtain ok4 w4 where p4: "plain_call w3 = (ok4, w4)" by (metis surj_pair)
  have plain: "delivered v' = delivered v \<and> open_fds v' = open_fds v" if "plain_call v = (ok, v')" for ok v v'
    using that by (auto simp: plain_call_def Let_def split: prod.split_asm)
  note fr = plain [OF p1] plain [OF p2] plain [OF p3] plain [OF p4]
  obtain c5 s5 d5 where sp: "open_sink_spool c (configured_sink c w4) d = (c5, s5, d5)" by (metis prod_cases3)
  obtain c6 s6 where st: "start_sink_library s5 = (c6, s6)" by (metis surj_pair)
  have result: "(code, res, d', w') = (if sink_config_invalid c then (GATEWAY_ERROR_ARGUMENT, None, d, w)
      else if \<not> ok1 then (GATEWAY_ERROR_SYSTEM, None, d, w1)
      else if \<not> ok2 \<or> \<not> ok3 then (GATEWAY_ERROR_SYSTEM, None, d, w3)
      else if \<not> ok4 then (GATEWAY_ERROR_SYSTEM, None, d, w4)
      else if c5 \<noteq> GATEWAY_OK then (c5, None, gateway_mqtt_sink_destroy s5 d5)
      else if c6 \<noteq> GATEWAY_OK then (c6, None, gateway_mqtt_sink_destroy s6 d5) else (GATEWAY_OK, Some s6, d5, mk_world s6))"
    using assms(1) p1 p2 p3 p4 sp st
    by (cases "sink_config_invalid c"; cases ok1; cases "ok2 \<and> ok3"; cases ok4; cases "c5 = GATEWAY_OK"; cases "c6 = GATEWAY_OK")
      (simp_all add: gateway_mqtt_sink_create_def)
  let ?plain = "mc_spool_path c = None \<or> mc_spool_path c = Some []"
  have device: "mk_device_id s5 = mk_device_id (configured_sink c w4)" using open_spool_result [OF sp] by blast
  have s5: "mk_world s5 = w4" "mk_reactor s5 = None" "mk_mosq s5 = None" "\<not> in_flight s5" "mk_records s5 = []"
    "c5 = GATEWAY_OK \<Longrightarrow> if ?plain then \<not> mk_durable s5
       else mk_durable s5 \<and> opened_spool c d = (GATEWAY_OK, mk_spool s5, d5)"
    using open_spool_result [OF sp] by blast+
  have done5: "open_fds (snd (gateway_mqtt_sink_destroy s d0)) = open_fds (mk_world s)" if "mk_reactor s = None" for s d0
    using that by (simp add: gateway_mqtt_sink_destroy_def mosquitto_destroy_def split: option.split)
  have w4: "delivered w4 = []" "open_fds w4 = open_fds w" using fr assms(2) by simp_all
  note lib = start_library_result [OF st w4(1) [folded s5(1)] s5(2)]
  consider (ok) "code = GATEWAY_OK" "res = Some s6" "d' = d5" "w' = mk_world s6" "c5 = GATEWAY_OK" "c6 = GATEWAY_OK"
    | (bad) "code \<noteq> GATEWAY_OK" "res = None" "open_fds w' = open_fds w"
    using result fr w4 s5(1,2) done5 [of s5 d5] done5 [of s6 d5] lib(6)
    by (cases "sink_config_invalid c"; cases ok1; cases "ok2 \<and> ok3"; cases ok4; cases "c5 = GATEWAY_OK"; cases "c6 = GATEWAY_OK")
      (auto dest: sym [of _ "gateway_mqtt_sink_destroy _ _"])
  then show ?thesis
  proof cases
    case ok
    have base: "linked s6" "\<not> in_flight s6" "mk_records s6 = []" using lib(2,4,5) ok s5 by simp_all
    have "\<not> sink_config_invalid c" using result ok by (auto split: if_split_asm)
    then have "length (the (mc_device_id c)) \<le> GATEWAY_DEVICE_ID_SIZE - 1"
      by (auto simp: sink_config_invalid_def config_bounds)
    then have id: "mk_device_id s6 = the (mc_device_id c)"
      using device lib(3) by (simp add: configured_sink_def copy_string_def)
    show ?thesis
    proof (cases ?plain)
      case True
      then have "\<not> mk_durable s6" using s5(6) ok lib(3) by simp
      then show ?thesis using ok base id True by (simp add: at_rest_def sink_ok_def rested_def sink_queue_def)
    next
      case False
      then have "mk_durable s6" "opened_spool c d = (GATEWAY_OK, mk_spool s6, d')" using s5(6) ok lib(1,3) by simp_all
      moreover from this have "mk_spool s6 \<noteq> None \<and> queue_inv (the_spool s6) \<and> queue_batch (the_spool s6) = 0"
        using assms(3) False by (auto simp: spool_opens_well_def the_spool_def split: option.split_asm)
      ultimately show ?thesis using ok base id False by (simp add: at_rest_def sink_ok_def rested_def)
    qed
  next
    case bad
    then show ?thesis by simp
  qed
qed



end
