(* ===== verification/Gw_Config_Props.thy ===== *)
theory Gw_Config_Props
  imports Gw_Config
begin

text \<open>
  Properties of the configuration: the checks of a single assignment and the validation of the
  whole agree, numbers are accepted exactly in their ranges, a refused assignment changes nothing, and the
  log line does not depend on the credentials.
\<close>

subsection \<open>Fields\<close>

text \<open>What every single check establishes: all of the validation but the pairing of the
  credentials.\<close>

definition within :: "nat \<Rightarrow> nat \<Rightarrow> 'a::len word \<Rightarrow> bool" where
  "within lo hi w \<longleftrightarrow> lo \<le> unat w \<and> unat w \<le> hi"

definition fields_ok :: "gateway_config \<Rightarrow> bool" where
  "fields_ok c \<longleftrightarrow>
     valid_identifier (device_id c) (GATEWAY_DEVICE_ID_SIZE - 1) False \<and>
     valid_identifier (can_interface c) (GATEWAY_CAN_INTERFACE_SIZE - 1) True \<and>
     valid_visible_string (broker_host c) (GATEWAY_BROKER_HOST_SIZE - 1) True \<and>
     \<not> has_any (broker_host c) [CHR '' '', CHR 0x09] \<and>
     within 1 65535 (broker_port c) \<and>
     valid_visible_string (broker_username c) (GATEWAY_BROKER_USERNAME_SIZE - 1) False \<and>
     valid_visible_string (broker_password c) (GATEWAY_BROKER_PASSWORD_SIZE - 1) False \<and>
     valid_visible_string (mqtt_topic c) (GATEWAY_MQTT_TOPIC_SIZE - 1) True \<and>
     \<not> has_any (mqtt_topic c) ''+#'' \<and>
     within 1 GATEWAY_QUEUE_CAPACITY_MAX (queue_capacity c) \<and>
     within 0 GATEWAY_QUEUE_PUSH_TIMEOUT_MS_MAX (queue_push_timeout_ms c) \<and>
     within GATEWAY_BATCH_INTERVAL_MS_MIN GATEWAY_BATCH_INTERVAL_MS_MAX (batch_interval_ms c) \<and>
     within GATEWAY_MQTT_ACK_TIMEOUT_MS_MIN GATEWAY_MQTT_ACK_TIMEOUT_MS_MAX (mqtt_ack_timeout_ms c) \<and>
     within GATEWAY_MQTT_RECONNECT_INTERVAL_MS_MIN GATEWAY_MQTT_RECONNECT_INTERVAL_MS_MAX
       (mqtt_reconnect_interval_ms c) \<and>
     valid_visible_string (spool_path c) (GATEWAY_CONFIG_SPOOL_PATH_SIZE - 1) True \<and>
     hd (spool_path c) = CHR ''/'' \<and>
     within CONFIG_SPOOL_MAX_BYTES_MIN CONFIG_SPOOL_MAX_BYTES_MAX (spool_max_bytes c) \<and>
     within 1 CONFIG_SPOOL_SYNC_RECORDS_MAX (spool_sync_records c) \<and>
     within 1 60000 (spool_sync_interval_ms c)"

lemma parse_unsigned_error [simp]: "parse_unsigned value lo hi \<noteq> Inl GATEWAY_OK"
  by (auto simp: parse_unsigned_def split: option.split prod.split)

lemma level_parse_error [simp]: "gateway_log_level_parse level \<noteq> Inl GATEWAY_OK"
  by (simp add: gateway_log_level_parse_def)

lemma word_neq_zero: "(w :: 'a::len word) \<noteq> 0 \<longleftrightarrow> 1 \<le> unat w"
  by (simp add: Suc_le_eq unat_gt_0)

lemma first_failed_None: "first_failed checks = None \<longleftrightarrow> list_all fst checks"
  by (induction checks rule: first_failed.induct) auto

text \<open>On a configuration whose fields are valid, only the pairing of the credentials can fail.\<close>

lemma validate_fields_ok:
  assumes "fields_ok c"
  shows "first_failed (validate_checks c) =
    (if broker_username c = [] \<and> broker_password c \<noteq> []
     then Some (GATEWAY_ERROR_INVALID_VALUE, ''broker_password'', Some ''broker_password requires broker_username'')
     else None)"
  using assms by (simp add: fields_ok_def within_def validate_checks_def word_neq_zero del: list.case)

lemma validated_fields_ok:
  assumes "first_failed (validate_checks c) = None"
  shows "fields_ok c" and "\<not> (broker_username c = [] \<and> broker_password c \<noteq> [])"
proof -
  have "unat (broker_port c) < 65536" using unsigned_less [of "broker_port c"] by simp
  then have port: "unat (broker_port c) \<le> 65535" by simp
  have "list_all fst (validate_checks c)" using assms by (simp only: first_failed_None)
  note v = this [unfolded validate_checks_def list.pred_inject fst_conv word_neq_zero]
  show "fields_ok c"
    unfolding fields_ok_def within_def using v port le0 by blast
  show "\<not> (broker_username c = [] \<and> broker_password c \<noteq> [])" using v by blast
qed

lemma defaults_ok: "fields_ok gateway_config_init_defaults"
  by (simp add: fields_ok_def gateway_config_init_defaults_def valid_identifier_def
      valid_visible_string_def has_any_def copy_string_def config_bounds c_isalnum_def c_isdigit_def
      c_iscntrl_def within_def)

text \<open>What was accepted fits the buffer, so that the bounded copy keeps it whole.\<close>

lemma copy_valid:
  "valid_identifier value (n - 1) colon \<Longrightarrow> copy_string n value = value"
  "valid_visible_string value (n - 1) required \<Longrightarrow> copy_string n value = value"
  by (simp_all add: valid_identifier_def valid_visible_string_def copy_string_def)

lemma parse_unsigned_range: "parse_unsigned value lo hi = Inr n \<Longrightarrow> lo \<le> n \<and> n \<le> hi"
  by (auto simp: parse_unsigned_def split: if_split_asm option.split_asm)

lemma within_of_nat:
  "lo \<le> n \<Longrightarrow> n \<le> hi \<Longrightarrow> hi < 2 ^ LENGTH('a::len) \<Longrightarrow> within lo hi (of_nat n :: 'a word)"
  by (simp add: within_def unat_of_nat take_bit_nat_eq_self)

lemma fields_ok_update:
  assumes "fields_ok c"
  shows "valid_identifier v (GATEWAY_DEVICE_ID_SIZE - 1) False \<Longrightarrow> fields_ok (c\<lparr>device_id := v\<rparr>)"
    and "valid_identifier v (GATEWAY_CAN_INTERFACE_SIZE - 1) True \<Longrightarrow> fields_ok (c\<lparr>can_interface := v\<rparr>)"
    and "valid_visible_string v (GATEWAY_BROKER_HOST_SIZE - 1) True \<Longrightarrow> \<not> has_any v [CHR '' '', CHR 0x09] \<Longrightarrow>
      fields_ok (c\<lparr>broker_host := v\<rparr>)"
    and "within 1 65535 w2 \<Longrightarrow> fields_ok (c\<lparr>broker_port := w2\<rparr>)"
    and "valid_visible_string v (GATEWAY_BROKER_USERNAME_SIZE - 1) False \<Longrightarrow> fields_ok (c\<lparr>broker_username := v\<rparr>)"
    and "valid_visible_string v (GATEWAY_BROKER_PASSWORD_SIZE - 1) False \<Longrightarrow> fields_ok (c\<lparr>broker_password := v\<rparr>)"
    and "valid_visible_string v (GATEWAY_MQTT_TOPIC_SIZE - 1) True \<Longrightarrow> \<not> has_any v ''+#'' \<Longrightarrow>
      fields_ok (c\<lparr>mqtt_topic := v\<rparr>)"
    and "within 1 GATEWAY_QUEUE_CAPACITY_MAX w \<Longrightarrow> fields_ok (c\<lparr>queue_capacity := w\<rparr>)"
    and "within 0 GATEWAY_QUEUE_PUSH_TIMEOUT_MS_MAX w \<Longrightarrow> fields_ok (c\<lparr>queue_push_timeout_ms := w\<rparr>)"
    and "within GATEWAY_BATCH_INTERVAL_MS_MIN GATEWAY_BATCH_INTERVAL_MS_MAX w \<Longrightarrow>
      fields_ok (c\<lparr>batch_interval_ms := w\<rparr>)"
    and "within GATEWAY_MQTT_ACK_TIMEOUT_MS_MIN GATEWAY_MQTT_ACK_TIMEOUT_MS_MAX w \<Longrightarrow>
      fields_ok (c\<lparr>mqtt_ack_timeout_ms := w\<rparr>)"
    and "within GATEWAY_MQTT_RECONNECT_INTERVAL_MS_MIN GATEWAY_MQTT_RECONNECT_INTERVAL_MS_MAX w \<Longrightarrow>
      fields_ok (c\<lparr>mqtt_reconnect_interval_ms := w\<rparr>)"
    and "valid_visible_string v (GATEWAY_CONFIG_SPOOL_PATH_SIZE - 1) True \<Longrightarrow> hd v = CHR ''/'' \<Longrightarrow>
      fields_ok (c\<lparr>spool_path := v\<rparr>)"
    and "fields_ok (c\<lparr>spool_format := fmt\<rparr>)"
    and "within CONFIG_SPOOL_MAX_BYTES_MIN CONFIG_SPOOL_MAX_BYTES_MAX w8 \<Longrightarrow> fields_ok (c\<lparr>spool_max_bytes := w8\<rparr>)"
    and "within 1 CONFIG_SPOOL_SYNC_RECORDS_MAX w \<Longrightarrow> fields_ok (c\<lparr>spool_sync_records := w\<rparr>)"
    and "within 1 60000 w \<Longrightarrow> fields_ok (c\<lparr>spool_sync_interval_ms := w\<rparr>)"
    and "fields_ok (c\<lparr>log_level := level\<rparr>)"
  using assms by (simp_all add: fields_ok_def)

lemma config_bounds_small:
  "GATEWAY_QUEUE_CAPACITY_MAX < 4294967296" "GATEWAY_QUEUE_PUSH_TIMEOUT_MS_MAX < 4294967296"
  "GATEWAY_BATCH_INTERVAL_MS_MAX < 4294967296" "GATEWAY_MQTT_ACK_TIMEOUT_MS_MAX < 4294967296"
  "GATEWAY_MQTT_RECONNECT_INTERVAL_MS_MAX < 4294967296"
  "CONFIG_SPOOL_MAX_BYTES_MAX < 18446744073709551616" "CONFIG_SPOOL_SYNC_RECORDS_MAX < 4294967296"
  by (simp_all add: config_bounds)

lemma parse_within:
  "parse_unsigned value lo hi = Inr n \<Longrightarrow> hi < 2 ^ LENGTH('a::len) \<Longrightarrow> within lo hi (of_nat n :: 'a word)"
  using parse_unsigned_range within_of_nat by blast

text \<open>The outcome of an assignment: refused without any effect, or accepted, and then the fields
  are still valid.\<close>

lemma set_field_fields_ok:
  assumes "set_field c key value line e = (GATEWAY_OK, c', e')" and "fields_ok c"
  shows "fields_ok c'"
proof -
  obtain f where f: "field_index key = Some f"
    using assms(1) by (cases "field_index key") (auto simp: set_field_def Let_def)
  show ?thesis
    using assms(1) f
    by (cases f)
      (auto simp: set_field_def copy_valid config_bounds_small assms(2) simp del: One_nat_def
        intro!: fields_ok_update [OF assms(2)] parse_within split: if_split_asm sum.split_asm)
qed

lemma set_field_error:
  assumes "set_field c key value line e = (code, c', e')" and "code \<noteq> GATEWAY_OK"
  shows "c' = c \<and> (\<exists>message. e' = set_error e code line (Some key) message)"
proof (cases "field_index key")
  case None
  then show ?thesis using assms by (auto simp: set_field_def)
next
  case (Some f)
  then show ?thesis
    using assms by (cases f) (auto simp: set_field_def split: if_split_asm sum.split_asm)
qed

subsection \<open>Assignments and files\<close>

lemma apply_steps:
  "gateway_config_apply_assignment c (Some text) e =
     (if length text \<ge> CONFIG_LINE_SIZE
      then (GATEWAY_ERROR_PARSE, c, set_error (clear_error e) GATEWAY_ERROR_PARSE 0 None (Some ''assignment is too long''))
      else case split_at CHR ''='' text of
        None \<Rightarrow> (GATEWAY_ERROR_PARSE, c,
          set_error (clear_error e) GATEWAY_ERROR_PARSE 0 None (Some ''expected key=value''))
      | Some (before, after) \<Rightarrow>
          if trim before = []
          then (GATEWAY_ERROR_PARSE, c,
            set_error (clear_error e) GATEWAY_ERROR_PARSE 0 None (Some ''empty configuration key''))
          else set_field c (trim before) (trim after) 0 (clear_error e))"
  by (auto simp: gateway_config_apply_assignment_def Let_def split: option.split)

lemma apply_fields_ok:
  assumes "gateway_config_apply_assignment c arg e = (GATEWAY_OK, c', e')" and "fields_ok c"
  shows "fields_ok c'"
proof (cases arg)
  case None
  then show ?thesis using assms(1) by (simp add: gateway_config_apply_assignment_def)
next
  case (Some t)
  then obtain before after where "set_field c (trim before) (trim after) 0 (clear_error e) = (GATEWAY_OK, c', e')"
    using assms(1) by (auto simp: apply_steps split: if_split_asm option.split_asm)
  then show ?thesis using set_field_fields_ok assms(2) by blast
qed

text \<open>What one line of a file does.\<close>

lemma load_lines_cases:
  assumes "load_lines (chunk # chunks) line seen c e = (result, line', c', e')"
  obtains (stop) code where "result = Some code" "code \<noteq> GATEWAY_OK" "c' = c" "line' = line + 1"
  | (skip) "load_lines chunks (line + 1) seen c e = (result, line', c', e')"
  | (refused) k v code where "set_field c k v (line + 1) e = (code, c', e')"
      "code \<noteq> GATEWAY_OK" "result = Some code" "line' = line + 1"
  | (assigned) k v f c1 e1 where "set_field c k v (line + 1) e = (GATEWAY_OK, c1, e1)"
      "field_index k = Some f" "f \<notin> set seen"
      "load_lines chunks (line + 1) (f # seen) c1 e1 = (result, line', c', e')"
proof -
  let ?text = "trim (c_string chunk)"
  let ?long = "newline \<notin> set (c_string chunk) \<and>
      \<not> (newline \<notin> set chunk \<and> length chunk < CONFIG_LINE_SIZE - 1)"
  note r = assms [unfolded load_lines.simps Let_def]
  show thesis
  proof (cases ?long)
    case True
    then show thesis using r by (intro stop) auto
  next
    case short: False
    note r2 = r [unfolded if_not_P [OF short]]
    show thesis
    proof (cases "?text = [] \<or> hd ?text = CHR ''#''")
      case True
      then show thesis using r2 by (intro skip) simp
    next
      case content: False
      note r3 = r2 [unfolded if_not_P [OF content]]
      show thesis
      proof (cases "split_at CHR ''='' ?text")
        case None
        then show thesis using r3 by (intro stop) auto
      next
        case (Some kv)
        obtain before after where kv: "kv = (before, after)" by (metis surj_pair)
        let ?k = "trim before" and ?v = "trim after"
        let ?dup = "case field_index ?k of None \<Rightarrow> False | Some field \<Rightarrow> field \<in> set seen"
        note r4 = r3 [unfolded Some kv option.case prod.case]
        show thesis
        proof (cases "?k = [] \<or> ?dup")
          case True
          then show thesis
            using r4 stop [of GATEWAY_ERROR_PARSE] stop [of GATEWAY_ERROR_DUPLICATE_KEY]
            by (cases "?k = []") simp_all
        next
          case False
          obtain code c1 e1 where sf: "set_field c ?k ?v (line + 1) e = (code, c1, e1)" by (metis prod_cases3)
          have r5: "(if code \<noteq> GATEWAY_OK then (Some code, line + 1, c1, e1)
              else load_lines chunks (line + 1) (the (field_index ?k) # seen) c1 e1) = (result, line', c', e')"
            using r4 False sf by (simp split: if_split_asm)
          show thesis
          proof (cases "code = GATEWAY_OK")
            case True
            then obtain f where f: "field_index ?k = Some f"
              using sf by (cases "field_index ?k") (auto simp: set_field_def)
            have "load_lines chunks (line + 1) (f # seen) c1 e1 = (result, line', c', e')"
              using r5 True f by simp
            moreover have "f \<notin> set seen" using \<open>\<not> (?k = [] \<or> ?dup)\<close> f by simp
            ultimately show thesis using assigned [of ?k ?v c1 e1 f] sf True f by simp
          next
            case False
            then have "result = Some code" "line' = line + 1" "c1 = c'" "e1 = e'" using r5 by simp_all
            then show thesis using refused [of ?k ?v code] sf False by blast
          qed
        qed
      qed
    qed
  qed
qed

lemma load_lines_fields_ok:
  "load_lines chunks line seen c e = (result, line', c', e') \<Longrightarrow> fields_ok c \<Longrightarrow> fields_ok c'"
proof (induction chunks arbitrary: line seen c e)
  case Nil
  then show ?case by simp
next
  case (Cons chunk chunks)
  from Cons.prems(1) show ?case
  proof (cases rule: load_lines_cases)
    case (refused k v code)
    then show ?thesis using set_field_error Cons.prems(2) by blast
  next
    case (assigned k v f c1 e1)
    then show ?thesis using Cons.IH set_field_fields_ok Cons.prems(2) by blast
  qed (use Cons in simp_all)
qed

lemma load_file_fields_ok:
  assumes "gateway_config_load_file c path e = (code, c', e')" and "fields_ok c"
  shows "fields_ok c'"
proof (cases path)
  case None
  then show ?thesis using assms by (simp add: gateway_config_load_file_def)
next
  case (Some f)
  obtain result line c1 e1 where l: "load_lines (fgets_chunks (CONFIG_LINE_SIZE - 1) [] (contents f)) 0 [] c
      (clear_error e) = (result, line, c1, e1)" by (metis prod_cases4)
  then have "c' = c \<or> c' = c1"
    using assms(1) Some
    by (auto simp: gateway_config_load_file_def Let_def split: if_split_asm option.split_asm prod.split_asm)
  then show ?thesis using assms(2) load_lines_fields_ok [OF l] by blast
qed

text \<open>The command line of \<open>main\<close>: the assignments in order, up to the first that is refused.\<close>

fun apply_overrides ::
    "gateway_config \<Rightarrow> string list \<Rightarrow> gateway_config_error option \<Rightarrow> config_result" where
  "apply_overrides c [] e = (GATEWAY_OK, c, e)"
| "apply_overrides c (a # as) e =
     (let (code, c, e) = gateway_config_apply_assignment c (Some a) e in
      if code \<noteq> GATEWAY_OK then (code, c, e) else apply_overrides c as e)"

lemma apply_overrides_fields_ok:
  "apply_overrides c as e = (GATEWAY_OK, c', e') \<Longrightarrow> fields_ok c \<Longrightarrow> fields_ok c'"
proof (induction as arbitrary: c e)
  case (Cons a as)
  then show ?case
    using apply_fields_ok by (auto split: prod.split_asm if_split_asm)
qed simp

subsection \<open>Numeric keys\<close>

text \<open>The bounds of the numeric keys, and the assignment each of them makes.\<close>

fun number_bounds :: "config_field \<Rightarrow> (nat \<times> nat) option" where
  "number_bounds CONFIG_FIELD_BROKER_PORT = Some (1, 65535)"
| "number_bounds CONFIG_FIELD_QUEUE_CAPACITY = Some (1, 65536)"
| "number_bounds CONFIG_FIELD_QUEUE_PUSH_TIMEOUT_MS = Some (0, 60000)"
| "number_bounds CONFIG_FIELD_BATCH_INTERVAL_MS = Some (100, 60000)"
| "number_bounds CONFIG_FIELD_MQTT_ACK_TIMEOUT_MS = Some (100, 60000)"
| "number_bounds CONFIG_FIELD_MQTT_RECONNECT_INTERVAL_MS = Some (100, 60000)"
| "number_bounds CONFIG_FIELD_SPOOL_MAX_BYTES = Some (5242880, 68719476736)"
| "number_bounds CONFIG_FIELD_SPOOL_SYNC_RECORDS = Some (1, 65536)"
| "number_bounds CONFIG_FIELD_SPOOL_SYNC_INTERVAL_MS = Some (1, 60000)"
| "number_bounds _ = None"

fun set_number :: "config_field \<Rightarrow> nat \<Rightarrow> gateway_config \<Rightarrow> gateway_config" where
  "set_number CONFIG_FIELD_BROKER_PORT n c = c\<lparr>broker_port := of_nat n\<rparr>"
| "set_number CONFIG_FIELD_QUEUE_CAPACITY n c = c\<lparr>queue_capacity := of_nat n\<rparr>"
| "set_number CONFIG_FIELD_QUEUE_PUSH_TIMEOUT_MS n c = c\<lparr>queue_push_timeout_ms := of_nat n\<rparr>"
| "set_number CONFIG_FIELD_BATCH_INTERVAL_MS n c = c\<lparr>batch_interval_ms := of_nat n\<rparr>"
| "set_number CONFIG_FIELD_MQTT_ACK_TIMEOUT_MS n c = c\<lparr>mqtt_ack_timeout_ms := of_nat n\<rparr>"
| "set_number CONFIG_FIELD_MQTT_RECONNECT_INTERVAL_MS n c = c\<lparr>mqtt_reconnect_interval_ms := of_nat n\<rparr>"
| "set_number CONFIG_FIELD_SPOOL_MAX_BYTES n c = c\<lparr>spool_max_bytes := of_nat n\<rparr>"
| "set_number CONFIG_FIELD_SPOOL_SYNC_RECORDS n c = c\<lparr>spool_sync_records := of_nat n\<rparr>"
| "set_number CONFIG_FIELD_SPOOL_SYNC_INTERVAL_MS n c = c\<lparr>spool_sync_interval_ms := of_nat n\<rparr>"
| "set_number _ n c = c"

lemma parse_unsigned_show:
  "hi \<le> u64_max \<Longrightarrow> parse_unsigned (show_nat n) lo hi =
     (if lo \<le> n \<and> n \<le> hi then Inr n else Inl GATEWAY_ERROR_RANGE)"
  using show_nat_digits [of n] hd_in_set [OF show_nat_nonempty [of n]] digit_not(2)
  by (auto simp: parse_unsigned_def strtoull_show)

lemma set_number_field:
  assumes "field_index key = Some f" and "number_bounds f = Some (lo, hi)"
  shows "set_field c key (show_nat n) 0 None =
    (if lo \<le> n \<and> n \<le> hi then (GATEWAY_OK, set_number f n c, None) else (GATEWAY_ERROR_RANGE, c, None))"
  using assms
  by (cases f) (auto simp: set_field_def parse_unsigned_show u64_max_def config_bounds set_error_def)

lemma key_shape:
  assumes "field_index key = Some f"
  shows "trim key = key \<and> CHR ''='' \<notin> set key \<and> length key < 100 \<and> key \<noteq> []"
proof -
  have "key \<in> set (map fst config_keys)"
    using assms by (force simp: field_index_def dest: map_of_SomeD)
  moreover have "list_all (\<lambda>k. trim k = k \<and> CHR ''='' \<notin> set k \<and> length k < 100 \<and> k \<noteq> []) (map fst config_keys)"
    by (simp add: config_keys_def trim_def c_isspace_def)
  ultimately show ?thesis unfolding list_all_iff by blast
qed

lemma trim_show: "trim (show_nat n) = show_nat n"
proof -
  have "dropWhile c_isspace xs = xs" if "\<forall>c\<in>set xs. c_isdigit c" for xs
    using that digit_not(1) by (cases xs) auto
  then show ?thesis using show_nat_digits [of n] by (simp add: trim_def)
qed

subsection \<open>Properties\<close>



lemma validate_checks_pass:
  assumes "fst (gateway_config_validate (Some c) e) = GATEWAY_OK"
  shows "first_failed (validate_checks c) = None"
proof (rule ccontr)
  assume "first_failed (validate_checks c) \<noteq> None"
  then obtain code key message where f: "first_failed (validate_checks c) = Some (code, key, message)" by auto
  have "code \<noteq> GATEWAY_OK"
    using f by (auto simp: validate_checks_def split: if_split_asm)
  then show False using assms f by (simp add: gateway_config_validate_def)
qed

text \<open>What a valid configuration guarantees to the rest of the program: every bound that
  the queue, the batches, the timers and the spools rely on, and strings that fit their buffers.\<close>

theorem config_valid_bounds:
  assumes "fst (gateway_config_validate (Some c) e) = GATEWAY_OK"
  shows "0 < unat (broker_port c) \<and>
    0 < unat (queue_capacity c) \<and> unat (queue_capacity c) \<le> 65536 \<and>
    unat (queue_push_timeout_ms c) \<le> 60000 \<and>
    100 \<le> unat (batch_interval_ms c) \<and> unat (batch_interval_ms c) \<le> 60000 \<and>
    100 \<le> unat (mqtt_ack_timeout_ms c) \<and> unat (mqtt_ack_timeout_ms c) \<le> 60000 \<and>
    100 \<le> unat (mqtt_reconnect_interval_ms c) \<and> unat (mqtt_reconnect_interval_ms c) \<le> 60000 \<and>
    5242880 \<le> unat (spool_max_bytes c) \<and> unat (spool_max_bytes c) \<le> 68719476736 \<and>
    0 < unat (spool_sync_records c) \<and> unat (spool_sync_records c) \<le> 65536 \<and>
    0 < unat (spool_sync_interval_ms c) \<and> unat (spool_sync_interval_ms c) \<le> 60000 \<and>
    length (device_id c) < 64 \<and> length (can_interface c) < 16 \<and> length (broker_host c) < 256 \<and>
    length (broker_username c) < 128 \<and> length (broker_password c) < 256 \<and>
    length (mqtt_topic c) < 256 \<and> length (spool_path c) < 512 \<and>
    take 1 (spool_path c) = ''/'' \<and> (broker_password c = [] \<or> broker_username c \<noteq> [])"
proof -
  note v = validated_fields_ok [OF validate_checks_pass [OF assms]]
  have "take 1 (spool_path c) = ''/''"
    using v(1) by (cases "spool_path c") (simp_all add: fields_ok_def valid_visible_string_def)
  then show ?thesis
    using v
    by (auto simp: fields_ok_def within_def config_bounds valid_identifier_def valid_visible_string_def)
qed

lemma config_valid_bounds_witness: "0 < unat (queue_capacity gateway_config_init_defaults)"
  using config_valid_bounds [of gateway_config_init_defaults None] validate_fields_ok [OF defaults_ok]
  by (simp add: gateway_config_validate_def) (simp add: gateway_config_init_defaults_def)

text \<open>Numbers are accepted exactly in their range, whatever their size, and stored without
  wrap-around: for every numeric key, the decimal form of every natural number either sets
  the field to that number or is refused with \<open>GATEWAY_ERROR_RANGE\<close> without effect.\<close>

theorem config_number_range:
  assumes "field_index key = Some f" and "number_bounds f = Some (lo, hi)" and "length (show_nat n) < 1900"
  shows "gateway_config_apply_assignment c (Some (key @ ''='' @ show_nat n)) None =
     (if lo \<le> n \<and> n \<le> hi then (GATEWAY_OK, set_number f n c, None) else (GATEWAY_ERROR_RANGE, c, None))"
proof -
  have key: "trim key = key" "CHR ''='' \<notin> set key" "length key < 100" "key \<noteq> []"
    using key_shape [OF assms(1)] by simp_all
  then have "split_at CHR ''='' (key @ ''='' @ show_nat n) = Some (key, show_nat n)"
    by (auto simp: split_at_def takeWhile_append dropWhile_append takeWhile_eq_all_conv)
  moreover have "\<not> CONFIG_LINE_SIZE \<le> length (key @ ''='' @ show_nat n)"
    using key(3) assms(3) by (simp add: CONFIG_LINE_SIZE_def)
  ultimately have "gateway_config_apply_assignment c (Some (key @ ''='' @ show_nat n)) None =
      set_field c key (show_nat n) 0 None"
    using key by (simp add: apply_steps trim_show clear_error_def)
  then show ?thesis using set_number_field [OF assms(1,2)] by simp
qed

lemma config_number_range_witness:
  "fst (gateway_config_apply_assignment gateway_config_init_defaults
     (Some (''broker_port'' @ ''='' @ show_nat 70000)) None) = GATEWAY_ERROR_RANGE"
proof -
  have "field_index ''broker_port'' = Some CONFIG_FIELD_BROKER_PORT"
    by (simp add: field_index_def config_keys_def)
  moreover have "length (show_nat 70000) < 1900" by (simp add: show_nat.simps)
  ultimately show ?thesis
    using config_number_range [of "''broker_port''" CONFIG_FIELD_BROKER_PORT 1 65535 70000] by simp
qed

text \<open>C39: A refused assignment leaves the configuration as it was and reports its own code; no line
  number is reported, as there is no file.\<close>

theorem config_refusal_atomic:
  assumes "gateway_config_apply_assignment c arg (Some e) = (code, c', e')" and "code \<noteq> GATEWAY_OK"
  shows "c' = c \<and> map_option err_code e' = Some code \<and> map_option err_line e' = Some 0"
proof (cases arg)
  case None
  then show ?thesis
    using assms(1) by (auto simp: gateway_config_apply_assignment_def set_error_def clear_error_def)
next
  case (Some t)
  have report: "map_option err_code (set_error (clear_error (Some e)) x l k m) = Some x"
    "map_option err_line (set_error (clear_error (Some e)) x l k m) = Some l" for x l k m
    by (simp_all add: set_error_def clear_error_def)
  have refused: "?thesis" if "set_field c k v 0 (clear_error (Some e)) = (code, c', e')" for k v
    using set_field_error [OF that assms(2)] report by auto
  show ?thesis
    using assms(1) Some report refused
    by (auto simp: apply_steps split: if_split_asm option.split_asm)
qed

lemma config_refusal_atomic_witness:
  "fst (snd (gateway_config_apply_assignment gateway_config_init_defaults None
     (Some \<lparr>err_code = GATEWAY_OK, err_line = 3, err_key = [], err_message = []\<rparr>))) = gateway_config_init_defaults"
proof -
  obtain code c' e' where a: "gateway_config_apply_assignment gateway_config_init_defaults None
     (Some \<lparr>err_code = GATEWAY_OK, err_line = 3, err_key = [], err_message = []\<rparr>) = (code, c', e')"
    by (metis prod_cases3)
  then have "code \<noteq> GATEWAY_OK" by (auto simp: gateway_config_apply_assignment_def)
  from config_refusal_atomic [OF a this] show ?thesis using a by simp
qed

text \<open>The log line does not depend on the credentials: two configurations that differ in the
  password, and in the user name as long as both have one, are logged in the same way.\<close>

theorem config_log_hides_credentials:
  assumes "user \<noteq> []" and "user' \<noteq> []"
  shows "gateway_config_log_redacted (c\<lparr>broker_username := user, broker_password := password\<rparr>) now logger =
    gateway_config_log_redacted (c\<lparr>broker_username := user', broker_password := password'\<rparr>) now logger"
  using assms by (simp add: gateway_config_log_redacted_def redacted_message_def)

lemma config_log_hides_credentials_witness:
  "gateway_config_log_redacted (gateway_config_init_defaults\<lparr>broker_username := ''a'', broker_password := ''x''\<rparr>)
     None \<lparr>stream = [], minimum_level = GATEWAY_LOG_INFO\<rparr> =
   gateway_config_log_redacted (gateway_config_init_defaults\<lparr>broker_username := ''b'', broker_password := ''yz''\<rparr>)
     None \<lparr>stream = [], minimum_level = GATEWAY_LOG_INFO\<rparr>"
  using config_log_hides_credentials [of "''a''" "''b''"] by simp

text \<open>A text that is no number is reported as out of range when the minimum is positive, since the range is checked
  first.\<close>

lemma text_for_number_is_range:
  "parse_unsigned ''abc'' 1 65535 = Inl GATEWAY_ERROR_RANGE"
  "parse_unsigned ''abc'' 0 60000 = Inl GATEWAY_ERROR_INVALID_VALUE"
  by (simp_all add: parse_unsigned_def strtoull_def c_isspace_def c_isdigit_def)

end
