(* ===== verification/Record_Consumer.thy ===== *)
theory Record_Consumer
  imports Pipeline
begin

text \<open>
  What the consumer thread relies on: a consumer takes the record it is given or reports an error, and polling it takes
  nothing. Over any run of the two threads such a consumer has then taken the records that were popped,
  in their order; only the one whose consumption failed may be missing.
\<close>

subsection \<open>Records that reach the consumer\<close>

lemma next_record_wf:
  assumes "order_ok first cap p" "offers_valid p" "rb_count (queue p) \<noteq> 0"
  shows "wf_record (fst (ring_get (queue p))) \<and> record_valid (fst (ring_get (queue p)))"
proof -
  have led: "ring_inv (queue p)" "g_pushed p = g_consumed p @ ring_items (queue p)"
    using assms(1) by (simp_all add: order_ok_def rq.ledger_def)
  obtain rest where "g_offered p = rest @ pending_push p" "subseq (g_pushed p) rest"
    using assms(1) by (auto simp: order_ok_def)
  then have "set (g_pushed p) \<subseteq> set (g_offered p)"
    by (auto dest: list_emb_set)
  moreover have "ring_items (queue p) \<noteq> []"
    using assms(3) by (metis length_ring_items list.size(3))
  then have "fst (ring_get (queue p)) \<in> set (g_pushed p)"
    using led(2) ring_get_items [OF led(1)] by (metis Un_iff list.set_intros(1) set_append)
  ultimately show ?thesis
    using assms(2) by (auto simp: offers_valid_def)
qed

subsection \<open>The contract of a consumer\<close>

locale record_consumer =
  fixes consume :: "'c \<Rightarrow> telemetry_record \<Rightarrow> gateway_error_code \<times> 'c"
    and poll :: "('c \<Rightarrow> gateway_error_code \<times> 'c) option"
    and good :: "'c \<Rightarrow> bool"
    and moved :: "telemetry_record list \<Rightarrow> 'c \<Rightarrow> 'c \<Rightarrow> bool"
  assumes stays: "good s \<Longrightarrow> moved [] s s"
    and moved_trans: "moved xs s t \<Longrightarrow> moved ys t u \<Longrightarrow> moved (xs @ ys) s u"
    and good_after: "moved xs s t \<Longrightarrow> good s \<Longrightarrow> good t"
    and consume_takes: "good s \<Longrightarrow> wf_record r \<Longrightarrow> consume s r = (code, t) \<Longrightarrow>
      \<exists>taken. moved taken s t \<and> (taken = [r] \<or> taken = [] \<and> code \<noteq> GATEWAY_OK)"
    and poll_takes_nothing: "poll = Some f \<Longrightarrow> good s \<Longrightarrow> f s = (code, t) \<Longrightarrow> moved [] s t"
begin

definition served :: "'c gateway_pipeline \<Rightarrow> bool" where
  "served p \<longleftrightarrow> consume_fn (config p) = Some consume \<and> consume_idle (config p) = poll"

definition taken_over :: "'c \<Rightarrow> 'c gateway_pipeline \<Rightarrow> bool" where
  "taken_over s0 p \<longleftrightarrow> good (sink_state p) \<and> (consumer_at p = C_loop \<longrightarrow> consumer_error p = GATEWAY_OK) \<and>
     (\<exists>taken. moved taken s0 (sink_state p) \<and> subseq taken (g_consumed p) \<and>
        (consumer_error p = GATEWAY_OK \<longrightarrow> taken = g_consumed p))"

lemma taken_over_frame:
  assumes "taken_over s0 p" "sink_state p' = sink_state p" "g_consumed p' = g_consumed p"
    "consumer_at p' = consumer_at p" "consumer_error p' = consumer_error p"
  shows "taken_over s0 p'"
  using assms by (simp add: taken_over_def)

lemma consumer_taken_over:
  assumes "taken_over s0 p" "served p" "consumer_at p = C_loop" "pop_event_ok ev p"
    "order_ok first cap p" "offers_valid p"
  shows "taken_over s0 (consumer_pass ev p)"
proof -
  let ?s = "sink_state p" and ?r = "fst (ring_get (queue p))"
  have good: "good ?s" and m: "moved (g_consumed p) s0 ?s"
    using assms(1,3) by (auto simp: taken_over_def)
  have taken: "\<exists>taken. moved taken ?s c \<and> (taken = [?r] \<or> taken = [] \<and> code \<noteq> GATEWAY_OK)"
    if "rb_count (queue p) \<noteq> 0" "the (consume_fn (config p)) ?s ?r = (code, c)" for code c
    using that consume_takes [OF good] next_record_wf [OF assms(5,6)] assms(2) by (simp add: served_def)
  have kept: "moved [] ?s c"
    if "c = ?s \<or> (\<exists>f. consume_idle (config p) = Some f \<and> f ?s = (code, c))" for code c
    using that poll_takes_nothing [OF _ good] stays [OF good] assms(2) by (auto simp: served_def)
  note after = moved_trans [OF m] good_after [OF _ good]
  from assms(4) show ?thesis
  proof (cases rule: consumer_pass_cases)
    case (took c)
    have "moved [?r] ?s c" using taken [OF took(1,3)] by auto
    then show ?thesis
      using took(2) after [of "[?r]" c] assms(1,3) by (auto simp: taken_over_def take_one_def)
  next
    case (rejected c code)
    obtain taken where t: "moved taken ?s c" "taken = [?r] \<or> taken = []"
      using taken [OF rejected(1,4)] by blast
    then have "moved (g_consumed p @ taken) s0 c" "subseq (g_consumed p @ taken) (g_consumed p @ [?r])"
      using after(1) by (auto simp: list_emb_append_mono)
    then show ?thesis
      using rejected(2,3) after(2) [OF t(1)] by (auto simp: taken_over_def take_one_def pipe_frame)
  next
    case drained
    show ?thesis
      using assms(1,3) m good unfolding drained by (auto simp: taken_over_def pipe_frame)
  next
    case (idle c f)
    have "moved [] ?s c" using idle(2,3) kept [of c GATEWAY_OK] by blast
    then show ?thesis
      using idle(1) after [of "[]" c] assms(1,3) by (auto simp: taken_over_def)
  next
    case (failed c code)
    have "moved [] ?s c" using kept [OF failed(3)] .
    then show ?thesis
      using failed(1,2) after [of "[]" c] by (auto simp: taken_over_def pipe_frame)
  qed
qed

lemma step_taken_over:
  assumes step: "pipeline_step receive valid_env p p'"
    and inv: "taken_over s0 p" "served p" "order_ok first cap p" "offers_valid p"
  shows "taken_over s0 p'"
  using step
proof cases
  case (produce e)
  from produce(4) show ?thesis
    by (cases rule: producer_pass_cases)
      (rule taken_over_frame [OF inv(1)]; simp add: pipe_frame)+
next
  case (push r ev)
  from push(3) show ?thesis
    by (cases rule: producer_push_cases [of ev p r])
      (rule taken_over_frame [OF inv(1)]; use push(1) in \<open>simp add: pipe_frame\<close>)+
next
  case (consume ev)
  then show ?thesis
    using consumer_taken_over [OF inv(1,2) _ _ inv(3,4)] by simp
next
  case (stop sig)
  then show ?thesis
    by (intro taken_over_frame [OF inv(1)]) (simp_all add: pipe_frame)
next
  case (request sig)
  then show ?thesis
    by (intro taken_over_frame [OF inv(1)]) (simp_all add: pipe_frame)
next
  case (start ok1 ok2 code)
  then show ?thesis
    by (cases rule: start_cases) (rule taken_over_frame [OF inv(1)]; simp add: pipe_frame)+
next
  case (join code)
  then show ?thesis
    by (cases rule: join_cases) (rule taken_over_frame [OF inv(1)]; simp add: pipe_frame)+
qed

lemma reach_taken_over:
  assumes reach: "pipeline_reach (socket_receive rx t) valid_socket_env p0 p"
    and start: "created cfg p0" "served p0" "good (sink_state p0)"
  shows "taken_over (sink_state p0) p"
proof -
  have "served p \<and> taken_over (sink_state p0) p \<and>
      order_ok (first_seq cfg) (queue_capacity cfg) p \<and> offers_valid p"
    using reach
  proof (rule reach_invariant)
    show "served p0 \<and> taken_over (sink_state p0) p0 \<and>
        order_ok (first_seq cfg) (queue_capacity cfg) p0 \<and> offers_valid p0"
      using created_ok [OF start(1)] created_fields [OF start(1)] start(2,3) stays
      by (auto simp: taken_over_def)
  next
    fix p p'
    assume st: "pipeline_step (socket_receive rx t) valid_socket_env p p'"
      and inv: "served p \<and> taken_over (sink_state p0) p \<and>
        order_ok (first_seq cfg) (queue_capacity cfg) p \<and> offers_valid p"
    show "served p' \<and> taken_over (sink_state p0) p' \<and>
        order_ok (first_seq cfg) (queue_capacity cfg) p' \<and> offers_valid p'"
      using inv step_taken_over [OF st, of "sink_state p0" "first_seq cfg" "queue_capacity cfg"] step_config [OF st] socket.step_order_ok [OF st]
        socket.step_offers_valid [OF st]
      by (simp add: served_def)
  qed
  then show ?thesis by blast
qed

end

subsection \<open>The consumer without a broker\<close>

text \<open>The mock sink takes a record by counting it.\<close>

definition mock_consume :: "gateway_mock_sink \<Rightarrow> telemetry_record \<Rightarrow> gateway_error_code \<times> gateway_mock_sink" where
  "mock_consume s r = (case gateway_mock_sink_consume True (Some s) (Some r) of (code, t) \<Rightarrow> (code, the t))"

definition mock_moved :: "telemetry_record list \<Rightarrow> gateway_mock_sink \<Rightarrow> gateway_mock_sink \<Rightarrow> bool" where
  "mock_moved taken s t \<longleftrightarrow> sink_initialized s \<and> t = s\<lparr>sink_values := fold count_record taken (sink_values s)\<rparr>"

interpretation mock: record_consumer mock_consume None sink_initialized mock_moved
proof
  fix s r code t
  assume "sink_initialized s" "mock_consume s r = (code, t)"
  then show "\<exists>taken. mock_moved taken s t \<and> (taken = [r] \<or> taken = [] \<and> code \<noteq> GATEWAY_OK)"
    by (auto simp: mock_consume_def gateway_mock_sink_consume_def mock_moved_def intro!: exI [of _ "[r]"])
qed (auto simp: mock_moved_def)

end
