(* ===== verification/Gw_Main.thy ===== *)
theory Gw_Main
  imports Mqtt_Sink_Props Gw_Config_Props Record_Consumer
begin

text \<open>
  The program \<open>gatewayd\<close> (\<open>gateway/src/main.c\<close>): its command line, the receiving mode, and the two modes that
  run the pipeline, with the mock sink and with the MQTT sink. Answers of the system are arguments. Log
  lines are left out, except for the lines that report a frame, which are the output of the receiving mode
  (\<open>cs_frames\<close>).
\<close>

subsection \<open>Command line\<close>

definition parse_unsigned_argument :: "string \<Rightarrow> nat \<Rightarrow> nat \<Rightarrow> nat option" where
  "parse_unsigned_argument t minimum maximum =
     (if t = [] \<or> hd t = CHR ''-'' then None
      else case strtoull t of
        None \<Rightarrow> None
      | Some (parsed, erange, rest) \<Rightarrow>
          if erange \<or> rest \<noteq> [] \<or> parsed < minimum \<or> parsed > maximum then None else Some parsed)"

definition CAN_RECEIVE_COUNT_MAX :: nat where
  "CAN_RECEIVE_COUNT_MAX = 1000000"

definition CAN_RECEIVE_TIMEOUT_MS_DEFAULT :: nat where
  "CAN_RECEIVE_TIMEOUT_MS_DEFAULT = 5000"

definition CAN_RECEIVE_TIMEOUT_MS_MAX :: nat where
  "CAN_RECEIVE_TIMEOUT_MS_MAX = 60000"

definition MOCK_SINK_DELAY_MS_MAX :: nat where
  "MOCK_SINK_DELAY_MS_MAX = 60000"

text \<open>The local variables of \<open>main\<close>; an optional value is one with its \<open>_set\<close> flag.\<close>

record gateway_options =
  o_config_path :: "string option"
  o_overrides :: "string list"
  o_print_config :: bool
  o_wait_for_signal :: bool
  o_can_receive :: "nat option"
  o_can_timeout_ms :: "nat option"
  o_run_mock_sink :: bool
  o_run_mqtt :: bool
  o_mock_sink_delay_ms :: "nat option"

definition no_options :: gateway_options where
  "no_options = \<lparr>o_config_path = None, o_overrides = [], o_print_config = False, o_wait_for_signal = False,
     o_can_receive = None, o_can_timeout_ms = None, o_run_mock_sink = False, o_run_mqtt = False,
     o_mock_sink_delay_ms = None\<rparr>"

text \<open>One turn of the argument loop that takes a number: the option may come once, and the number has bounds.\<close>

definition number_option ::
    "nat option \<Rightarrow> nat \<Rightarrow> nat \<Rightarrow> string list \<Rightarrow> (nat \<times> string list) option" where
  "number_option present minimum maximum arguments =
     (case arguments of
        [] \<Rightarrow> None
      | a # rest \<Rightarrow> if present \<noteq> None then None
                    else map_option (\<lambda>n. (n, rest)) (parse_unsigned_argument a minimum maximum))"

lemma number_option_shorter: "number_option o1 lo hi as = Some (n, rest) \<Longrightarrow> length rest < length as"
  by (auto simp: number_option_def split: list.split_asm if_split_asm)

text \<open>The loop over \<open>argv\<close>; \<open>None\<close> is the usage message with status 2.\<close>

function (sequential) parse_arguments :: "string list \<Rightarrow> gateway_options \<Rightarrow> gateway_options option" where
  "parse_arguments [] opts = Some opts"
| "parse_arguments (a # rest) opts =
     (if a = ''--config''
      then (case rest of
          [] \<Rightarrow> None
        | path # rest' \<Rightarrow> if o_config_path opts \<noteq> None then None
                          else parse_arguments rest' (opts\<lparr>o_config_path := Some path\<rparr>))
      else if a = ''--set''
      then (case rest of
          [] \<Rightarrow> None
        | assignment # rest' \<Rightarrow>
            parse_arguments rest' (opts\<lparr>o_overrides := o_overrides opts @ [assignment]\<rparr>))
      else if a = ''--print-config'' then parse_arguments rest (opts\<lparr>o_print_config := True\<rparr>)
      else if a = ''--wait-for-signal'' then parse_arguments rest (opts\<lparr>o_wait_for_signal := True\<rparr>)
      else if a = ''--can-receive''
      then (case number_option (o_can_receive opts) 1 CAN_RECEIVE_COUNT_MAX rest of
          None \<Rightarrow> None
        | Some (n, rest') \<Rightarrow> parse_arguments rest' (opts\<lparr>o_can_receive := Some n\<rparr>))
      else if a = ''--can-timeout-ms''
      then (case number_option (o_can_timeout_ms opts) 1 CAN_RECEIVE_TIMEOUT_MS_MAX rest of
          None \<Rightarrow> None
        | Some (n, rest') \<Rightarrow> parse_arguments rest' (opts\<lparr>o_can_timeout_ms := Some n\<rparr>))
      else if a = ''--run-mock-sink''
      then (if o_run_mock_sink opts then None else parse_arguments rest (opts\<lparr>o_run_mock_sink := True\<rparr>))
      else if a = ''--run-mqtt''
      then (if o_run_mqtt opts then None else parse_arguments rest (opts\<lparr>o_run_mqtt := True\<rparr>))
      else if a = ''--mock-sink-delay-ms''
      then (case number_option (o_mock_sink_delay_ms opts) 0 MOCK_SINK_DELAY_MS_MAX rest of
          None \<Rightarrow> None
        | Some (n, rest') \<Rightarrow> parse_arguments rest' (opts\<lparr>o_mock_sink_delay_ms := Some n\<rparr>))
      else None)"
  by pat_completeness auto

termination
  by (relation "measure (\<lambda>(arguments, opts). length arguments)") (auto dest: number_option_shorter)

definition options_conflict :: "gateway_options \<Rightarrow> bool" where
  "options_conflict opts \<longleftrightarrow>
     o_wait_for_signal opts \<and> (o_can_receive opts \<noteq> None \<or> o_run_mock_sink opts \<or> o_run_mqtt opts) \<or>
     o_can_receive opts \<noteq> None \<and> (o_run_mock_sink opts \<or> o_run_mqtt opts) \<or>
     o_run_mock_sink opts \<and> o_run_mqtt opts \<or>
     o_can_timeout_ms opts \<noteq> None \<and> o_can_receive opts = None \<or>
     o_mock_sink_delay_ms opts \<noteq> None \<and> \<not> o_run_mock_sink opts"

text \<open>What \<open>main\<close> goes on to do, decided before any thread or socket exists: \<open>files\<close> is the file that
  \<open>fopen\<close> finds under a path, and the logger's \<open>pthread_mutex_init\<close> has succeeded.\<close>

datatype main_action =
    Show_help | Show_version | Usage_error
  | Config_error gateway_config_error
  | Receive_frames gateway_config nat nat
  | Run_mock_sink gateway_config nat
  | Run_mqtt gateway_config
  | Check_only gateway_config
  | Wait_for_signal gateway_config

definition clean_config_error :: gateway_config_error where
  "clean_config_error = \<lparr>err_code = GATEWAY_OK, err_line = 0, err_key = [], err_message = []\<rparr>"

definition choose_mode :: "gateway_options \<Rightarrow> gateway_config \<Rightarrow> main_action" where
  "choose_mode opts c =
     (case o_can_receive opts of
        Some n \<Rightarrow> Receive_frames c n
          (case o_can_timeout_ms opts of Some t \<Rightarrow> t | None \<Rightarrow> CAN_RECEIVE_TIMEOUT_MS_DEFAULT)
      | None \<Rightarrow>
        if o_run_mock_sink opts
        then Run_mock_sink c (case o_mock_sink_delay_ms opts of Some d \<Rightarrow> d | None \<Rightarrow> 0)
        else if o_run_mqtt opts then Run_mqtt c
        else if \<not> o_wait_for_signal opts then Check_only c
        else Wait_for_signal c)"

definition merge_config ::
    "(string \<Rightarrow> config_file) \<Rightarrow> gateway_options \<Rightarrow> gateway_config_error + gateway_config" where
  "merge_config files opts =
     (let (code, c, e) =
        (case o_config_path opts of
           None \<Rightarrow> (GATEWAY_OK, gateway_config_init_defaults, Some clean_config_error)
         | Some path \<Rightarrow> gateway_config_load_file gateway_config_init_defaults (Some (files path))
             (Some clean_config_error))
      in if code \<noteq> GATEWAY_OK then Inl (the e)
         else let (code, c, e) = apply_overrides c (o_overrides opts) e in
           if code \<noteq> GATEWAY_OK then Inl (the e)
           else let (code, e) = gateway_config_validate (Some c) e in
             if code \<noteq> GATEWAY_OK then Inl (the e) else Inr c)"

definition main_decide :: "(string \<Rightarrow> config_file) \<Rightarrow> string list \<Rightarrow> main_action" where
  "main_decide files arguments =
     (if arguments = [''--help''] then Show_help
      else if arguments = [''--version''] then Show_version
      else case parse_arguments arguments no_options of
        None \<Rightarrow> Usage_error
      | Some opts \<Rightarrow>
        if options_conflict opts then Usage_error
        else (case merge_config files opts of
            Inl e \<Rightarrow> Config_error e
          | Inr c \<Rightarrow> choose_mode opts c))"

subsection \<open>Receiving a number of frames\<close>

definition receive_deadline :: "nat \<Rightarrow> timespec option \<Rightarrow> timespec option" where
  "receive_deadline timeout_ms reading =
     (case reading of
        None \<Rightarrow> None
      | Some t \<Rightarrow>
          let sec = tv_sec t + int timeout_ms div 1000; nsec = tv_nsec t + int timeout_ms mod 1000 * 1000000
          in Some (if nsec \<ge> 1000000000 then \<lparr>tv_sec = sec + 1, tv_nsec = nsec - 1000000000\<rparr>
                   else \<lparr>tv_sec = sec, tv_nsec = nsec\<rparr>))"

definition remaining_ms :: "timespec \<Rightarrow> timespec option \<Rightarrow> int" where
  "remaining_ms deadline reading =
     (case reading of
        None \<Rightarrow> - 1
      | Some t \<Rightarrow>
          let sec = tv_sec deadline - tv_sec t; nsec = tv_nsec deadline - tv_nsec t;
              (sec, nsec) = (if nsec < 0 then (sec - 1, nsec + 1000000000) else (sec, nsec))
          in if sec < 0 \<or> sec = 0 \<and> nsec = 0 then 0
             else if sec > C_INT_MAX div 1000 then C_INT_MAX
             else let ms = sec * 1000 + (nsec + 999999) div 1000000 in
               if ms > C_INT_MAX then C_INT_MAX else ms)"

record can_session =
  cs_accepted :: u64
  cs_stats :: gateway_stats
  cs_frames :: "telemetry_record list"

definition count_can :: "gateway_stat_counter \<Rightarrow> can_session \<Rightarrow> can_session" where
  "count_can c s = s\<lparr>cs_stats := gateway_stats_increment c (cs_stats s)\<rparr>"

text \<open>The counter that a rejected frame adds to, as in the pipeline.\<close>

definition count_frame_rejection :: "gateway_can_reject_reason \<Rightarrow> can_session \<Rightarrow> can_session" where
  "count_frame_rejection reason s = count_can (rejection_counter reason) s"

text \<open>One turn of the loop with a reading of the clock and what the socket delivers: whether the loop goes on, or
  \<open>None\<close> while the receive call has not returned.\<close>

definition receive_turn ::
    "gateway_can_receiver \<Rightarrow> timespec \<Rightarrow> timespec option \<times> socket_env \<Rightarrow> can_session \<Rightarrow>
     (bool \<times> can_session) option" where
  "receive_turn receiver deadline answers s =
     (let remaining = remaining_ms deadline (fst answers) in
      if remaining < 0 then Some (False, count_can GATEWAY_STAT_CAN_RECEIVE_ERRORS s)
      else if remaining = 0 then Some (False, count_can GATEWAY_STAT_CAN_RECEIVE_TIMEOUTS s)
      else let s = count_can GATEWAY_STAT_CAN_RECEIVE_ATTEMPTS s in
        case socket_receive receiver remaining (snd answers) (cs_accepted s + 1) of
          None \<Rightarrow> None
        | Some (code, reject_reason, r) \<Rightarrow>
          if code = GATEWAY_OK
          then let s = count_can GATEWAY_STAT_CAN_RECEIVE_SUCCESS s in
            Some (True, s\<lparr>cs_accepted := cs_accepted s + 1, cs_frames := cs_frames s @ [r]\<rparr>)
          else if code = GATEWAY_ERROR_TIMEOUT
          then Some (False, count_can GATEWAY_STAT_CAN_RECEIVE_TIMEOUTS s)
          else if code = GATEWAY_ERROR_INVALID_VALUE
          then Some (True, count_frame_rejection reject_reason s)
          else Some (False, count_can GATEWAY_STAT_CAN_RECEIVE_ERRORS s))"

text \<open>The loop. It has not ended when the answers run out.\<close>

fun receive_loop ::
    "gateway_can_receiver \<Rightarrow> timespec \<Rightarrow> u64 \<Rightarrow> (timespec option \<times> socket_env) list \<Rightarrow> can_session \<Rightarrow>
     can_session option" where
  "receive_loop receiver deadline receive_count answers s =
     (if \<not> cs_accepted s < receive_count then Some s
      else case answers of
        [] \<Rightarrow> None
      | a # rest \<Rightarrow>
        (case receive_turn receiver deadline a s of
           None \<Rightarrow> None
         | Some (go_on, s) \<Rightarrow>
             if go_on then receive_loop receiver deadline receive_count rest s else Some s))"

declare receive_loop.simps [simp del]

definition closed_receiver :: gateway_can_receiver where
  "closed_receiver = \<lparr>fd = - 1\<rparr>"

definition new_session :: can_session where
  "new_session = \<lparr>cs_accepted = 0, cs_stats = zero_stats, cs_frames = []\<rparr>"

text \<open>The exit status, what was reported, and the descriptors that were closed.\<close>

definition run_can_receive ::
    "bool \<Rightarrow> timespec option \<Rightarrow> open_env \<Rightarrow> (timespec option \<times> socket_env) list \<Rightarrow> gateway_config \<Rightarrow>
     u64 \<Rightarrow> nat \<Rightarrow> (int \<times> can_session \<times> int list) option" where
  "run_can_receive stats_ok clock env answers c receive_count timeout_ms =
     (if fst (gateway_stats_init stats_ok (Some zero_stats)) \<noteq> GATEWAY_OK then Some (1, new_session, [])
      else case receive_deadline timeout_ms clock of
        None \<Rightarrow> Some (1, new_session, snd (gateway_can_receiver_close (Some closed_receiver)))
      | Some deadline \<Rightarrow>
        (case gateway_can_receiver_open env (Some closed_receiver) (Some (can_interface c)) of
           (code, receiver, closed) \<Rightarrow>
             if code \<noteq> GATEWAY_OK
             then Some (1, new_session, closed @ snd (gateway_can_receiver_close receiver))
             else (case receive_loop (the receiver) deadline receive_count answers new_session of
                 None \<Rightarrow> None
               | Some s \<Rightarrow> Some (if cs_accepted s = receive_count then 0 else 1, s,
                   closed @ snd (gateway_can_receiver_close receiver)))))"

subsection \<open>Running the pipeline\<close>

definition M5_RECEIVE_POLL_MS :: int where
  "M5_RECEIVE_POLL_MS = 100"

definition M6_CONSUMER_IDLE_POLL_MS :: u32 where
  "M6_CONSUMER_IDLE_POLL_MS = 50"

text \<open>The thread that controls a run: it waits for a signal, it has what the wait returned, or it has left its loop,
  with \<open>control_error\<close>.\<close>

datatype control_point = Control_wait | Control_got gateway_error_code int | Control_left bool

record 'c gateway_run =
  rn_pipeline :: "'c gateway_pipeline"
  rn_signals :: process_signals
  rn_control :: control_point

text \<open>The wait of 100 ms, and what follows from its result.\<close>

definition control_wait ::
    "pipe_poll list \<Rightarrow> bool list \<Rightarrow> bool \<Rightarrow> 'c gateway_run \<Rightarrow> 'c gateway_run option" where
  "control_wait polls reads lock_ok run =
     (case gateway_lifecycle_wait_signal polls reads lock_ok M5_RECEIVE_POLL_MS (Some 0)
         (pl_lifecycle (rn_pipeline run), rn_signals run) of
        None \<Rightarrow> None
      | Some (code, signal_number, l, sigs) \<Rightarrow>
          Some (run\<lparr>rn_pipeline := (rn_pipeline run)\<lparr>pl_lifecycle := l\<rparr>, rn_signals := sigs,
                    rn_control := Control_got code (the signal_number)\<rparr>))"

definition stop_run :: "int \<Rightarrow> 'c gateway_pipeline \<Rightarrow> 'c gateway_pipeline" where
  "stop_run signal_number p = the (snd (gateway_pipeline_request_stop signal_number (Some p)))"

definition control_react :: "gateway_error_code \<Rightarrow> int \<Rightarrow> 'c gateway_run \<Rightarrow> 'c gateway_run" where
  "control_react code signal_number run =
     (let p = rn_pipeline run; snapshot = gateway_pipeline_read p in
      if code = GATEWAY_OK
      then run\<lparr>rn_pipeline := stop_run signal_number p, rn_control := Control_left False\<rparr>
      else if code \<noteq> GATEWAY_ERROR_TIMEOUT
      then run\<lparr>rn_pipeline := stop_run 0 p, rn_control := Control_left True\<rparr>
      else if ps_producer_done snapshot \<or> ps_consumer_done snapshot \<or>
         fst (gateway_lifecycle_is_stop_requested True (Some (pl_lifecycle p)) None)
      then run\<lparr>rn_pipeline := stop_run 0 p, rn_control := Control_left True\<rparr>
      else run\<lparr>rn_control := Control_wait\<rparr>)"

text \<open>A run interleaves the two worker threads, the controlling thread and the signal handler.\<close>

inductive run_step :: "'e receive_fn \<Rightarrow> ('e \<Rightarrow> bool) \<Rightarrow> 'c gateway_run \<Rightarrow> 'c gateway_run \<Rightarrow> bool"
  for receive valid_env where
  worker: "pipeline_step receive valid_env (rn_pipeline run) p' \<Longrightarrow>
     run_step receive valid_env run (run\<lparr>rn_pipeline := p'\<rparr>)"
| signal: "run_step receive valid_env run
     (run\<lparr>rn_signals := lifecycle_signal_handler write_ok signal_number (rn_signals run)\<rparr>)"
| wait: "rn_control run = Control_wait \<Longrightarrow> control_wait polls reads lock_ok run = Some run' \<Longrightarrow>
     run_step receive valid_env run run'"
| react: "rn_control run = Control_got code signal_number \<Longrightarrow>
     run_step receive valid_env run (control_react code signal_number run)"

inductive run_reach :: "'e receive_fn \<Rightarrow> ('e \<Rightarrow> bool) \<Rightarrow> 'c gateway_run \<Rightarrow> 'c gateway_run \<Rightarrow> bool"
  for receive valid_env run0 where
  run_here: "run_reach receive valid_env run0 run0"
| run_there: "run_reach receive valid_env run0 run \<Longrightarrow> run_step receive valid_env run run' \<Longrightarrow>
     run_reach receive valid_env run0 run'"

text \<open>What the system answers while a run starts.\<close>

record start_env =
  se_stats_ok :: bool
  se_lifecycle :: init_env
  se_sigint_ok :: bool
  se_sigterm_ok :: bool
  se_signals :: process_signals
  se_open :: open_env
  se_ring :: create_env
  se_calloc_ok :: bool
  se_mutex_ok :: bool
  se_consumer_ok :: bool
  se_producer_ok :: bool

text \<open>Statistics, lifecycle and signal handlers, which both modes set up first; \<open>None\<close> ends the run with status 1.\<close>

definition run_prepare :: "start_env \<Rightarrow> lifecycle_state option" where
  "run_prepare env =
     (if fst (gateway_stats_init (se_stats_ok env) (Some zero_stats)) \<noteq> GATEWAY_OK then None
      else case gateway_lifecycle_init (se_lifecycle env) (Some cleared_lifecycle) of
        (code, l, _) \<Rightarrow>
          if code \<noteq> GATEWAY_OK then None
          else case gateway_lifecycle_install_signal_handlers (se_sigint_ok env) (se_sigterm_ok env)
              (the l, se_signals env) of
            (code, s) \<Rightarrow> if code \<noteq> GATEWAY_OK then None else Some s)"

text \<open>Creating and starting the pipeline, the last step of both modes: the run, or the consumer as it is left.\<close>

definition run_start ::
    "start_env \<Rightarrow> lifecycle_state \<Rightarrow> 'c \<Rightarrow> 'c gateway_pipeline_config \<Rightarrow> 'c + 'c gateway_run" where
  "run_start env ls sink cfg =
     (case gateway_pipeline_create (se_ring env) (se_calloc_ok env) (se_mutex_ok env) True (fst ls) zero_stats sink
         (Some cfg) of
        (code, p) \<Rightarrow>
          if code \<noteq> GATEWAY_OK then Inl sink
          else case gateway_pipeline_start (se_consumer_ok env) (se_producer_ok env) p of
            (code, p) \<Rightarrow>
              if code \<noteq> GATEWAY_OK then Inl (sink_state (the p))
              else Inr \<lparr>rn_pipeline = the p, rn_signals = snd ls, rn_control = Control_wait\<rparr>)"

definition mock_pipeline_config :: "gateway_config \<Rightarrow> gateway_mock_sink gateway_pipeline_config" where
  "mock_pipeline_config c =
     \<lparr>queue_capacity = unat (Gw_Config.queue_capacity c),
      queue_push_timeout_ms = Gw_Config.queue_push_timeout_ms c, receive_timeout_ms = M5_RECEIVE_POLL_MS,
      receive_given = True, consume_fn = Some mock_consume, consumer_idle_timeout_ms = 0, consume_idle = None,
      lifecycle_given = True, stats_given = True, initial_gateway_seq = 0\<rparr>"

text \<open>Starting the mode with the mock sink: the run and its receiver, or \<open>None\<close> for status 1. The sink is
  initialised from zeroed memory.\<close>

definition mock_startup ::
    "start_env \<Rightarrow> bool \<Rightarrow> gateway_config \<Rightarrow> nat \<Rightarrow> (gateway_mock_sink gateway_run \<times> gateway_can_receiver) option" where
  "mock_startup env sink_mutex_ok c delay =
     (case run_prepare env of
        None \<Rightarrow> None
      | Some ls \<Rightarrow>
        (case gateway_can_receiver_open (se_open env) (Some closed_receiver) (Some (can_interface c)) of
           (code, receiver, _) \<Rightarrow>
             if code \<noteq> GATEWAY_OK then None
             else case gateway_mock_sink_init sink_mutex_ok
                 (Some \<lparr>sink_values = zero_sink_snapshot, delay_ms = 0, sink_initialized = False\<rparr>) (of_nat delay) of
               (code, sink) \<Rightarrow>
                 if code \<noteq> GATEWAY_OK then None
                 else case run_start env ls (the sink) (mock_pipeline_config c) of
                   Inl _ \<Rightarrow> None | Inr run \<Rightarrow> Some (run, the receiver)))"

text \<open>After the loop: join, read both snapshots, and the exit status; \<open>None\<close> while the join waits.\<close>

definition mock_finish :: "bool \<Rightarrow> gateway_mock_sink gateway_pipeline \<Rightarrow> (int \<times> gateway_mock_sink gateway_pipeline) option" where
  "mock_finish control_error p =
     (case gateway_pipeline_join (Some p) of
        None \<Rightarrow> None
      | Some (code, p') \<Rightarrow>
        if code \<noteq> GATEWAY_OK then Some (1, the p')
        else let snapshot = gateway_pipeline_read (the p');
                 values = the (gateway_mock_sink_read (Some (sink_state (the p'))) (Some zero_sink_snapshot)) in
          Some (if \<not> control_error \<and> ps_producer_error snapshot = GATEWAY_OK \<and>
                   ps_consumer_error snapshot = GATEWAY_OK \<and> non_monotonic_records values = 0 \<and>
                   invalid_records values = 0 then 0 else 1, the p'))"

definition mqtt_sink_config :: "gateway_config \<Rightarrow> gateway_mqtt_sink_config" where
  "mqtt_sink_config c =
     \<lparr>mc_device_id = Some (device_id c), mc_broker_host = Some (broker_host c), mc_broker_port = broker_port c,
      mc_broker_username = Some (broker_username c), mc_broker_password = Some (broker_password c),
      mc_topic = Some (mqtt_topic c), mc_batch_interval_ms = batch_interval_ms c,
      mc_ack_timeout_ms = mqtt_ack_timeout_ms c, mc_reconnect_interval_ms = mqtt_reconnect_interval_ms c,
      mc_spool_path = Some (spool_path c), mc_spool_format = spool_format c,
      mc_spool_max_bytes = unat (spool_max_bytes c), mc_spool_sync_records = unat (spool_sync_records c),
      mc_spool_sync_interval_ms = unat (spool_sync_interval_ms c),
      mc_max_records = GATEWAY_MQTT_BATCH_MAX_RECORDS, mc_stats = Some zero_stats, mc_logger = True\<rparr>"

definition mqtt_pipeline_config ::
    "gateway_config \<Rightarrow> gateway_mqtt_sink \<Rightarrow> gateway_mqtt_sink gateway_pipeline_config" where
  "mqtt_pipeline_config c sink =
     \<lparr>queue_capacity = unat (Gw_Config.queue_capacity c),
      queue_push_timeout_ms = Gw_Config.queue_push_timeout_ms c, receive_timeout_ms = M5_RECEIVE_POLL_MS,
      receive_given = True, consume_fn = Some (\<lambda>s r. gateway_mqtt_sink_consume r s),
      consumer_idle_timeout_ms = M6_CONSUMER_IDLE_POLL_MS, consume_idle = Some gateway_mqtt_sink_poll,
      lifecycle_given = True, stats_given = True,
      initial_gateway_seq = gateway_mqtt_sink_next_gateway_seq sink\<rparr>"

text \<open>What \<open>cleanup\<close> does with the sink.\<close>

definition mqtt_cleanup :: "gateway_mqtt_sink \<Rightarrow> disk \<Rightarrow> disk \<times> mqtt_world" where
  "mqtt_cleanup sink d = gateway_mqtt_sink_destroy (snd (gateway_mqtt_sink_disconnect sink)) d"

text \<open>Starting the mode with the MQTT sink: the run and its receiver, or \<open>None\<close> for status 1 after the cleanup.\<close>

definition mqtt_startup ::
    "start_env \<Rightarrow> gateway_config \<Rightarrow> disk \<Rightarrow> mqtt_world \<Rightarrow>
     (gateway_mqtt_sink gateway_run \<times> gateway_can_receiver) option \<times> disk \<times> mqtt_world" where
  "mqtt_startup env c d w =
     (case run_prepare env of
        None \<Rightarrow> (None, d, w)
      | Some ls \<Rightarrow>
        (case gateway_mqtt_sink_create (Some (mqtt_sink_config c)) d w of
           (code, created_sink, d, w) \<Rightarrow>
             if code \<noteq> GATEWAY_OK then (None, d, w)
             else case gateway_mqtt_sink_connect (the created_sink) of
               (code, sink) \<Rightarrow>
                 if code \<noteq> GATEWAY_OK then (None, mqtt_cleanup sink d)
                 else case gateway_can_receiver_open (se_open env) (Some closed_receiver)
                     (Some (can_interface c)) of
                   (code, receiver, _) \<Rightarrow>
                     if code \<noteq> GATEWAY_OK then (None, mqtt_cleanup sink d)
                     else if initial_gateway_seq (mqtt_pipeline_config c sink) = 0
                     then (None, mqtt_cleanup sink d)
                     else case run_start env ls sink (mqtt_pipeline_config c sink) of
                       Inl sink \<Rightarrow> (None, mqtt_cleanup sink d)
                     | Inr run \<Rightarrow> (Some (run, the receiver), d, mk_world sink)))"

text \<open>After the loop: join, flush, read both snapshots (the summary line reads the sink's once before), and the
  exit status.\<close>

definition mqtt_finish :: "bool \<Rightarrow> gateway_mqtt_sink gateway_pipeline \<Rightarrow> (int \<times> gateway_mqtt_sink gateway_pipeline) option" where
  "mqtt_finish control_error p =
     (case gateway_pipeline_join (Some p) of
        None \<Rightarrow> None
      | Some (code, p') \<Rightarrow>
        if code \<noteq> GATEWAY_OK then Some (1, the p')
        else let (flush_code, sink) = gateway_mqtt_sink_flush (sink_state (the p'));
                 sink = snd (gateway_mqtt_sink_read sink);
                 snapshot = gateway_pipeline_read (the p');
                 (values, sink) = gateway_mqtt_sink_read sink in
          Some (if \<not> control_error \<and> flush_code = GATEWAY_OK \<and> ps_producer_error snapshot = GATEWAY_OK \<and>
                   ps_consumer_error snapshot = GATEWAY_OK \<and> ps_queue_count snapshot = 0 \<and> \<not> sn_failed values \<and>
                   \<not> sn_in_flight values \<and> (sn_durable values \<or> sn_buffered_records values = 0) \<and>
                   sn_puback_unexpected values = 0 then 0 else 1,
                (the p')\<lparr>sink_state := sink\<rparr>))"

subsection \<open>Waiting for a signal\<close>

text \<open>The mode that only waits: the exit status and the process afterwards, or \<open>None\<close> while no signal has come.\<close>

definition wait_mode ::
    "start_env \<Rightarrow> pipe_poll list \<Rightarrow> bool list \<Rightarrow> bool \<Rightarrow> (int \<times> process_signals) option" where
  "wait_mode env polls reads lock_ok =
     (case gateway_lifecycle_init (se_lifecycle env) (Some cleared_lifecycle) of
        (code, l, _) \<Rightarrow>
          if code \<noteq> GATEWAY_OK then Some (1, se_signals env)
          else case gateway_lifecycle_install_signal_handlers (se_sigint_ok env) (se_sigterm_ok env)
              (the l, se_signals env) of
            (code, s) \<Rightarrow>
              if code \<noteq> GATEWAY_OK then Some (1, snd (fst (gateway_lifecycle_destroy s)))
              else (case gateway_lifecycle_wait_signal polls reads lock_ok (- 1) (Some 0) s of
                  None \<Rightarrow> None
                | Some (code, _, s) \<Rightarrow>
                    Some (if code \<noteq> GATEWAY_OK then 1 else 0, snd (fst (gateway_lifecycle_destroy s)))))"

end
