(* ===== verification/Gw_Main_Runs.thy ===== *)
theory Gw_Main_Runs
  imports Gw_Main
begin

text \<open>
  Lemmas on the program as a whole: a run of the program is a run of the pipeline, the two sinks meet the contract of a
  consumer, and what the command line and the configuration guarantee to the modes.
\<close>

subsection \<open>Runs and pipelines\<close>

lemma request_stop_locked:
  "gateway_lifecycle_request_stop ok sig (Some l) = (code, res) \<Longrightarrow>
     res = Some l \<or> res = snd (gateway_lifecycle_request_stop True sig (Some l))"
  by (auto simp: gateway_lifecycle_request_stop_def split: if_split_asm)

lemma wait_signal_lifecycle:
  assumes "gateway_lifecycle_wait_signal polls reads ok t sig (l, signals0) = Some (code, sig', l', signals1)"
  shows "l' = l \<or> (\<exists>n. l' = the (snd (gateway_lifecycle_request_stop True n (Some l))))"
  using assms request_stop_locked
  by (auto simp: gateway_lifecycle_wait_signal_def Let_def
      split: if_split_asm option.split_asm pipe_poll.split_asm bool.split_asm prod.split_asm
        gateway_error_code.split_asm) (metis option.sel)+

lemma stop_run_eq: "stop_run sig p = close_queue (request_lifecycle_stop sig p)"
  by (simp add: stop_run_def gateway_pipeline_request_stop_def)

lemma run_step_pipeline:
  assumes "run_step receive valid_env run run'"
  shows "rn_pipeline run' = rn_pipeline run \<or>
     pipeline_step receive valid_env (rn_pipeline run) (rn_pipeline run')"
  using assms
proof cases
  case (wait polls reads lock_ok)
  then obtain code sig l signals where
    w: "gateway_lifecycle_wait_signal polls reads lock_ok M5_RECEIVE_POLL_MS (Some 0)
         (pl_lifecycle (rn_pipeline run), rn_signals run) = Some (code, sig, l, signals)"
    and p: "rn_pipeline run' = (rn_pipeline run)\<lparr>pl_lifecycle := l\<rparr>"
    by (auto simp: control_wait_def split: option.split_asm)
  from wait_signal_lifecycle [OF w] show ?thesis
  proof
    assume "\<exists>n. l = the (snd (gateway_lifecycle_request_stop True n (Some (pl_lifecycle (rn_pipeline run)))))"
    then obtain n where "rn_pipeline run' = request_lifecycle_stop n (rn_pipeline run)"
      using p by (auto simp: request_lifecycle_stop_def)
    then show ?thesis
      using pipeline_step.request by metis
  qed (simp add: p)
next
  case (react code sig)
  then show ?thesis
    using pipeline_step.stop
    by (auto simp: control_react_def Let_def stop_run_eq)
qed auto

lemma run_reach_pipeline:
  "run_reach receive valid_env run0 run \<Longrightarrow>
     pipeline_reach receive valid_env (rn_pipeline run0) (rn_pipeline run)"
proof (induction rule: run_reach.induct)
  case run_here
  show ?case by (rule pipeline_reach.here)
next
  case (run_there run run')
  then show ?case
    using run_step_pipeline [OF run_there(2)] pipeline_reach.there [OF run_there(3)] by auto
qed

lemma pipeline_create_result:
  assumes "gateway_pipeline_create env calloc_ok mutex_ok True l zero_stats sink (Some cfg) = (GATEWAY_OK, po)"
  shows "\<exists>p0. po = Some p0 \<and> created cfg p0 \<and> sink_state p0 = sink \<and> pl_lifecycle p0 = l"
proof -
  obtain code qo where q: "gateway_ring_buffer_create env True (queue_capacity cfg) True = (code, qo)"
    by (metis surj_pair)
  have "calloc_ok \<and> mutex_ok \<and> (\<exists>q'. po = Some (fresh_pipeline cfg q' zero_stats l sink))"
    using assms unfolding gateway_pipeline_create_def q option.case prod.case
    by (cases code; cases qo) (auto split: if_split_asm)
  then obtain q' where r: "calloc_ok" "mutex_ok" "po = Some (fresh_pipeline cfg q' zero_stats l sink)" by blast
  have "gateway_pipeline_create env True True True l zero_stats sink (Some cfg) =
      (GATEWAY_OK, Some (fresh_pipeline cfg q' zero_stats l sink))"
    using assms r by simp
  then have "created cfg (fresh_pipeline cfg q' zero_stats l sink)"
    unfolding created_def by blast
  then show ?thesis
    using r(3) by (simp add: fresh_pipeline_def)
qed

lemma run_start_created:
  assumes "run_start env ls sink cfg = Inr run"
  shows "\<exists>p0. created cfg p0 \<and> sink_state p0 = sink \<and>
    pipeline_reach receive valid_env p0 (rn_pipeline run) \<and> rn_signals run = snd ls \<and> rn_control run = Control_wait"
proof -
  obtain code po where c: "gateway_pipeline_create (se_ring env) (se_calloc_ok env) (se_mutex_ok env) True (fst ls)
      zero_stats sink (Some cfg) = (code, po)" by (metis surj_pair)
  have ok: "code = GATEWAY_OK"
    using assms unfolding run_start_def c prod.case by (cases "code = GATEWAY_OK") simp_all
  obtain p0 where p0: "po = Some p0" "created cfg p0" "sink_state p0 = sink"
    using pipeline_create_result [OF c [unfolded ok]] by auto
  obtain c2 p1 where s: "gateway_pipeline_start (se_consumer_ok env) (se_producer_ok env) (Some p0) = (c2, p1)"
    by (metis surj_pair)
  then obtain p where p: "p1 = Some p"
    by (cases p1) (auto simp: gateway_pipeline_start_def split: if_split_asm)
  have "run = \<lparr>rn_pipeline = p, rn_signals = snd ls, rn_control = Control_wait\<rparr>"
    using assms unfolding run_start_def c prod.case ok p0(1) s p
    by (cases "c2 = GATEWAY_OK") simp_all
  moreover have "pipeline_reach receive valid_env p0 p"
    using reach_step [OF pipeline_step.start] s p by metis
  ultimately show ?thesis using p0 by auto
qed

interpretation mqtt: record_consumer "\<lambda>s r. gateway_mqtt_sink_consume r s" "Some gateway_mqtt_sink_poll" at_rest moves
proof
  fix s t r code xs ys u f
  show "moves [] s s" if "at_rest s" using that moves_refl by (simp add: at_rest_def)
  show "moves (xs @ ys) s u" if "moves xs s t" "moves ys t u" using that by (rule moves_trans)
  show "at_rest t" if "moves xs s t" "at_rest s" using that by (rule moves_at_rest)
  show "\<exists>taken. moves taken s t \<and> (taken = [r] \<or> taken = [] \<and> code \<noteq> GATEWAY_OK)"
    if "at_rest s" "wf_record r" "gateway_mqtt_sink_consume r s = (code, t)"
    using consume_takes [OF that(3,1,2)] by (simp add: takes_def)
  show "moves [] s t" if "Some gateway_mqtt_sink_poll = Some f" "at_rest s" "f s = (code, t)"
    using that poll_moves by simp
qed

subsection \<open>The command line\<close>

definition config_valid :: "gateway_config \<Rightarrow> bool" where
  "config_valid c \<longleftrightarrow> fst (gateway_config_validate (Some c) None) = GATEWAY_OK"

definition options_bounded :: "gateway_options \<Rightarrow> bool" where
  "options_bounded opts \<longleftrightarrow>
     (\<forall>n. o_can_receive opts = Some n \<longrightarrow> 1 \<le> n \<and> n \<le> 1000000) \<and>
     (\<forall>n. o_can_timeout_ms opts = Some n \<longrightarrow> 1 \<le> n \<and> n \<le> 60000) \<and>
     (\<forall>n. o_mock_sink_delay_ms opts = Some n \<longrightarrow> n \<le> 60000)"

lemmas argument_bounds = CAN_RECEIVE_COUNT_MAX_def CAN_RECEIVE_TIMEOUT_MS_DEFAULT_def
  CAN_RECEIVE_TIMEOUT_MS_MAX_def MOCK_SINK_DELAY_MS_MAX_def

lemma number_option_range: "number_option present lo hi as = Some (n, rest) \<Longrightarrow> lo \<le> n \<and> n \<le> hi"
  by (auto simp: number_option_def parse_unsigned_argument_def
      split: list.split_asm if_split_asm option.split_asm prod.split_asm)

lemma parse_arguments_bounded:
  "parse_arguments as opts = Some opts' \<Longrightarrow> options_bounded opts \<Longrightarrow> options_bounded opts'"
proof (induction as opts rule: parse_arguments.induct)
  case (2 a rest opts)
  note range = number_option_range [of "o_can_receive opts" 1 CAN_RECEIVE_COUNT_MAX rest]
    number_option_range [of "o_can_timeout_ms opts" 1 CAN_RECEIVE_TIMEOUT_MS_MAX rest]
    number_option_range [of "o_mock_sink_delay_ms opts" 0 MOCK_SINK_DELAY_MS_MAX rest]
  consider "a = ''--config''" | "a = ''--set''" | "a = ''--print-config''" | "a = ''--wait-for-signal''"
    | "a = ''--can-receive''" | "a = ''--can-timeout-ms''" | "a = ''--run-mock-sink''" | "a = ''--run-mqtt''"
    | "a = ''--mock-sink-delay-ms''"
    using "2.prems"(1) by (auto split: if_split_asm)
  then show ?case
    using "2.prems" "2.IH" range
    by cases (auto simp: options_bounded_def argument_bounds split: list.split_asm option.split_asm if_split_asm)
qed simp

lemma valid_config_facts:
  assumes "config_valid c"
  shows "\<not> sink_config_invalid (mqtt_sink_config c) \<and> spool_path c \<noteq> [] \<and> 0 < unat (Gw_Config.queue_capacity c)"
proof -
  note v = validated_fields_ok [OF validate_checks_pass [OF assms [unfolded config_valid_def]]]
  note b = config_valid_bounds [OF assms [unfolded config_valid_def]]
  have "broker_port c \<noteq> 0" "batch_interval_ms c \<noteq> 0" "mqtt_ack_timeout_ms c \<noteq> 0"
    using b by auto
  moreover have "device_id c \<noteq> []" "broker_host c \<noteq> []" "mqtt_topic c \<noteq> []" "spool_path c \<noteq> []"
    using v by (auto simp: fields_ok_def within_def valid_identifier_def valid_visible_string_def)
  ultimately show ?thesis
    using b by (auto simp: sink_config_invalid_def mqtt_sink_config_def config_bounds LEGACY_PATH_SIZE_def
        GATEWAY_MQTT_BATCH_MAX_RECORDS_def)
qed

end
