(* ===== verification/Gw_Main_Props.thy ===== *)
theory Gw_Main_Props
  imports Gw_Main_Runs
begin

text \<open>
  The program from its command line to its exit status: what the command line lets through, what the receiving mode
  reports, and what becomes of the records in the two modes that run the pipeline.
\<close>

subsection \<open>The mode with the MQTT sink\<close>

text \<open>What a start of this mode has done when it succeeds.\<close>

lemma mqtt_startup_result:
  assumes start: "mqtt_startup env c d w = (Some (run0, rx), d', w')" and w: "delivered w = []"
    and opens: "spool_opens_well (mqtt_sink_config c) d" and path: "spool_path c \<noteq> []"
  shows "\<exists>s1 s q d1 p0. opened_spool (mqtt_sink_config c) d = (GATEWAY_OK, Some q, d1) \<and> sink_queue s1 = queued q \<and>
    mk_durable s1 \<and> mk_device_id s1 = device_id c \<and> at_rest s \<and> moves [] s1 s \<and>
    created (mqtt_pipeline_config c s) p0 \<and> sink_state p0 = s \<and> mqtt.served p0 \<and>
    pipeline_reach (socket_receive rx M5_RECEIVE_POLL_MS) valid_socket_env p0 (rn_pipeline run0)"
proof -
  obtain ls where ls: "run_prepare env = Some ls"
    using start by (cases "run_prepare env") (simp_all add: mqtt_startup_def)
  obtain code created_sink d1 w1 where cr: "gateway_mqtt_sink_create (Some (mqtt_sink_config c)) d w = (code, created_sink, d1, w1)"
    by (metis prod_cases4)
  have code: "code = GATEWAY_OK"
    using start ls cr by (cases "code = GATEWAY_OK") (simp_all add: mqtt_startup_def)
  note res = create_sink_result [OF cr w opens]
  obtain s1 where s1: "created_sink = Some s1" "at_rest s1" "mk_device_id s1 = device_id c" "mk_durable s1"
      "opened_spool (mqtt_sink_config c) d = (GATEWAY_OK, mk_spool s1, d1)"
    using res code path by (cases created_sink) (simp_all add: mqtt_sink_config_def)
  then obtain q where q: "mk_spool s1 = Some q"
    by (cases "mk_spool s1") (simp_all add: at_rest_def sink_ok_def)
  obtain code2 s where con: "gateway_mqtt_sink_connect s1 = (code2, s)" by (metis surj_pair)
  note m = connect_moves [OF con s1(2)]
  obtain code3 receiver closed where op: "gateway_can_receiver_open (se_open env) (Some closed_receiver)
      (Some (can_interface c)) = (code3, receiver, closed)" by (metis prod_cases3)
  obtain run where run: "run_start env ls s (mqtt_pipeline_config c s) = Inr run" "run0 = run"
    using start ls cr code s1(1) con op
    by (cases "run_start env ls s (mqtt_pipeline_config c s)")
      (auto simp: mqtt_startup_def split: if_split_asm prod.split_asm)
  obtain p0 where p0: "created (mqtt_pipeline_config c s) p0" "sink_state p0 = s"
      "pipeline_reach (socket_receive rx M5_RECEIVE_POLL_MS) valid_socket_env p0 (rn_pipeline run)"
    using run_start_created [OF run(1)] by blast
  have "mqtt.served p0"
    using created_fields [OF p0(1)] by (simp add: mqtt.served_def mqtt_pipeline_config_def)
  moreover have "sink_queue s1 = queued q"
    using s1(4) q by (simp add: sink_queue_def the_spool_def)
  ultimately show ?thesis
    using s1 q m p0 run(2) moves_at_rest [OF m s1(2)] by metis
qed

text \<open>From the start of the program on: what the spool held, and what has been popped since.\<close>

lemma mqtt_run_result:
  assumes start: "mqtt_startup env c d w = (Some (run0, rx), d', w')" "delivered w = []"
      "spool_opens_well (mqtt_sink_config c) d" "spool_path c \<noteq> []"
    and reach: "run_reach (socket_receive rx M5_RECEIVE_POLL_MS) valid_socket_env run0 run"
  obtains q d1 s1 taken cap first where
      "opened_spool (mqtt_sink_config c) d = (GATEWAY_OK, Some q, d1)" "sink_queue s1 = queued q" "mk_durable s1"
      "mk_device_id s1 = device_id c" "moves taken s1 (sink_state (rn_pipeline run))"
      "at_rest (sink_state (rn_pipeline run))" "subseq taken (g_consumed (rn_pipeline run))"
      "consumer_error (rn_pipeline run) = GATEWAY_OK \<Longrightarrow> taken = g_consumed (rn_pipeline run)"
      "order_ok first cap (rn_pipeline run)"
proof -
  obtain s1 s q d1 p0 where s1: "opened_spool (mqtt_sink_config c) d = (GATEWAY_OK, Some q, d1)"
      "sink_queue s1 = queued q" "mk_durable s1" "mk_device_id s1 = device_id c" "at_rest s" "moves [] s1 s"
    and p0: "created (mqtt_pipeline_config c s) p0" "sink_state p0 = s" "mqtt.served p0"
      "pipeline_reach (socket_receive rx M5_RECEIVE_POLL_MS) valid_socket_env p0 (rn_pipeline run0)"
    using mqtt_startup_result [OF start] by blast
  let ?p = "rn_pipeline run"
  have r: "pipeline_reach (socket_receive rx M5_RECEIVE_POLL_MS) valid_socket_env p0 ?p"
    by (rule reach_trans [OF p0(4) run_reach_pipeline [OF reach]])
  have "mqtt.taken_over s ?p"
    using mqtt.reach_taken_over [OF r p0(1,3)] p0(2) s1(5) by simp
  then obtain taken where t: "at_rest (sink_state ?p)" "moves taken s (sink_state ?p)" "subseq taken (g_consumed ?p)"
      "consumer_error ?p = GATEWAY_OK \<longrightarrow> taken = g_consumed ?p"
    by (auto simp: mqtt.taken_over_def)
  show ?thesis
    by (rule that [OF s1(1-4) moves_nil_trans(1) [OF s1(6) t(2)] t(1,3) _ reach_order_ok [OF p0(1) r, THEN conjunct1]])
      (use t(4) in blast)
qed


lemma join_result:
  assumes "gateway_pipeline_join (Some p) = Some (GATEWAY_OK, Some p')"
  shows "sink_state p' = sink_state p \<and> g_pushed p' = g_pushed p \<and> g_consumed p' = g_consumed p \<and>
    g_received p' = g_received p \<and> consumer_error p' = consumer_error p \<and> producer_error p' = producer_error p \<and>
    rb_count (queue p') = rb_count (queue p) \<and> ring_items (queue p') = ring_items (queue p)"
  using assms by (cases rule: join_cases) (simp_all add: pipe_frame)

lemma join_some: "gateway_pipeline_join (Some p) = Some (code, res) \<Longrightarrow> \<exists>p'. res = Some p'"
  by (auto simp: gateway_pipeline_join_def Let_def split: if_split_asm)

lemma ring_items_nil: "rb_count q = 0 \<Longrightarrow> ring_items q = []"
  by (metis length_0_conv length_ring_items)

text \<open>C1: Status 0 means that nothing was lost. When the program ends with status 0 in this mode, the queue between the
  threads is empty, and the records that the spool held at the start, followed by every record that was ever pushed into
  that queue, are exactly the delivered batches, each with the evidence of its PUBACK, followed by what is in
  the spool now; the sink has not failed and no message is in flight.\<close>

theorem exit_status_zero_loses_nothing:
  assumes "mqtt_startup env c d w = (Some (run0, rx), d', w')" and "delivered w = []"
    and "spool_opens_well (mqtt_sink_config c) d" and "spool_path c \<noteq> []"
    and "run_reach (socket_receive rx M5_RECEIVE_POLL_MS) valid_socket_env run0 run"
    and "mqtt_finish control_error (rn_pipeline run) = Some (0, p')"
  shows "\<exists>q d1 batches. opened_spool (mqtt_sink_config c) d = (GATEWAY_OK, Some q, d1) \<and>
    concat batches @ queued (the_spool (sink_state p')) = queued q @ g_pushed p' \<and> ring_items (queue p') = [] \<and>
    (\<forall>b\<in>set batches. delivered_batch (device_id c) (log_of (sink_state p')) b) \<and>
    \<not> sink_failed (sink_state p') \<and> \<not> in_flight (sink_state p') \<and> \<not> control_error"
proof -
  let ?p = "rn_pipeline run"
  obtain q d1 s1 taken cap first where r: "opened_spool (mqtt_sink_config c) d = (GATEWAY_OK, Some q, d1)"
      "sink_queue s1 = queued q" "mk_durable s1" "mk_device_id s1 = device_id c"
      "moves taken s1 (sink_state ?p)" "at_rest (sink_state ?p)"
      "consumer_error ?p = GATEWAY_OK \<Longrightarrow> taken = g_consumed ?p" "order_ok first cap ?p"
    using mqtt_run_result [OF assms(1-5)] by metis
  obtain code res where j: "gateway_pipeline_join (Some ?p) = Some (code, res)"
    using assms(6) by (auto simp: mqtt_finish_def split: option.split_asm)
  then obtain p1 where p1: "res = Some p1" using join_some by blast
  have ok: "code = GATEWAY_OK"
    using assms(6) j by (cases "code = GATEWAY_OK") (simp_all add: mqtt_finish_def)
  note jr = join_result [OF j [unfolded ok p1]]
  obtain fc t1 where fl: "gateway_mqtt_sink_flush (sink_state p1) = (fc, t1)" by (metis surj_pair)
  obtain v1 t2 where r1: "gateway_mqtt_sink_read t1 = (v1, t2)" by (metis surj_pair)
  obtain v t3 where r2: "gateway_mqtt_sink_read t2 = (v, t3)" by (metis surj_pair)
  have st: "p' = p1\<lparr>sink_state := t3\<rparr>" "\<not> control_error" "consumer_error p1 = GATEWAY_OK"
      "rb_count (queue p1) = 0" "\<not> sn_failed v" "\<not> sn_in_flight v"
    using assms(6) unfolding mqtt_finish_def j option.case prod.case ok p1
    by (auto simp: fl r1 r2 gateway_pipeline_read_def gateway_ring_buffer_read_def Let_def split: if_split_asm)
  have v: "v = mk_snapshot t3" using r2 by (auto simp: gateway_mqtt_sink_read_def Let_def)
  have rest: "at_rest (sink_state p1)" using jr r(6) by simp
  note m1 = flush_moves [OF fl rest]
  note m2 = read_moves [OF r1 moves_at_rest [OF m1 rest]]
  note m3 = read_moves [OF r2 moves_at_rest [OF m2 moves_at_rest [OF m1 rest]]]
  have taken: "taken = g_pushed p'" "ring_items (queue p') = []"
  proof -
    have "ring_items (queue p1) = []" using st(4) by (rule ring_items_nil)
    then show "ring_items (queue p') = []" "taken = g_pushed p'"
      using st(1,3) jr r(7,8) by (simp_all add: order_ok_def rq.ledger_def)
  qed
  have m: "moves (g_pushed p') s1 t3"
    using moves_nil_trans(2) [OF moves_nil_trans(2) [OF moves_nil_trans(2) [OF r(5) m1 [unfolded jr [THEN conjunct1]]] m2] m3]
      taken(1) by simp
  then obtain batches where "concat batches @ sink_queue t3 = queued q @ g_pushed p'"
      "\<forall>b\<in>set batches. delivered_batch (device_id c) (log_of t3) b"
    using r(2,4) by (auto simp: moves_def)
  moreover have "sink_queue t3 = queued (the_spool t3)"
    using moves_durable [OF m] r(3) by (simp add: sink_queue_def)
  ultimately show ?thesis
    using r(1) st v taken(2) by (intro exI [of _ q] exI [of _ d1] exI [of _ batches]) simp
qed

subsection \<open>The mode with the mock sink\<close>

lemma subseq_sorted_wrt: "subseq xs ys \<Longrightarrow> sorted_wrt P ys \<Longrightarrow> sorted_wrt P xs"
proof (induction rule: list_emb.induct)
  case (list_emb_Cons2 x y xs ys)
  then show ?case using list_emb_set [OF list_emb_Cons2(2)] by auto
qed auto

lemma numbered_increasing:
  assumes "length xs < 2 ^ 64" "numbered 1 xs"
  shows "sorted_wrt (<) (map gateway_seq xs)"
proof -
  have "(1 :: u64) + of_nat i < 1 + of_nat j" if "i < j" "Suc j \<le> length xs" for i j
  proof -
    have "unat (1 + of_nat k :: u64) = Suc k" if "k < length xs" for k
      using that assms(1) by (simp add: unat_word_ariths unat_of_nat take_bit_nat_eq_self)
    then show ?thesis using that by (simp add: word_less_nat_alt)
  qed
  then show ?thesis
    using assms(2) by (auto simp: numbered_def sorted_wrt_iff_nth_less)
qed

lemma mock_taken:
  assumes "pipeline_reach (socket_receive rx t) valid_socket_env p0 p" "created cfg p0" "mock.served p0"
    "initial_gateway_seq cfg = 0" "sink_state p0 = \<lparr>sink_values = zero_sink_snapshot, delay_ms = d, sink_initialized = True\<rparr>"
    "length (g_received p) < 2 ^ 64"
  shows "\<exists>taken. sink_values (sink_state p) = count_all taken zero_sink_snapshot \<and> subseq taken (g_consumed p) \<and>
    (consumer_error p = GATEWAY_OK \<longrightarrow> taken = g_consumed p) \<and> sink_initialized (sink_state p) \<and>
    sorted_wrt (\<lambda>a b. gateway_seq a < gateway_seq b) taken \<and> (\<forall>r\<in>set taken. record_valid r) \<and> length taken < 2 ^ 64"
proof -
  have "mock.taken_over (sink_state p0) p"
    using mock.reach_taken_over [OF assms(1-3)] assms(5) by simp
  then obtain taken where t: "mock_moved taken (sink_state p0) (sink_state p)" "subseq taken (g_consumed p)"
      "consumer_error p = GATEWAY_OK \<longrightarrow> taken = g_consumed p"
    by (auto simp: mock.taken_over_def)
  have inv: "order_ok 1 (queue_capacity cfg) p" "offers_valid p"
    using reach_order_ok [OF assms(2,1)] assms(4) by (simp_all add: first_seq_def)
  obtain rest where o: "g_offered p = rest @ pending_push p" "subseq (g_pushed p) rest"
    using inv(1) by (auto simp: order_ok_def)
  have "subseq taken (g_pushed p)"
    using t(2) inv(1) by (auto simp: order_ok_def rq.ledger_def)
  then have sub: "subseq taken (g_offered p)"
    using o by (metis subseq_order.trans list_emb_prefix)
  then have "subseq (map gateway_seq taken) (map gateway_seq (g_received p))"
    using inv(1) subseq_map subseq_order.trans unfolding order_ok_def by blast
  then have "sorted_wrt (<) (map gateway_seq taken)" "length taken < 2 ^ 64"
    using subseq_sorted_wrt numbered_increasing [OF assms(6)] inv(1) list_emb_length assms(6)
    by (fastforce simp: order_ok_def)+
  moreover have "\<forall>r\<in>set taken. record_valid r"
    using sub inv(2) list_emb_set by (fastforce simp: offers_valid_def)
  moreover have "sink_values (sink_state p) = count_all taken zero_sink_snapshot" "sink_initialized (sink_state p)"
    using t(1) assms(5) by (simp_all add: mock_moved_def count_all_def)
  ultimately show ?thesis
    using t(2,3) by (intro exI [of _ taken]) (simp add: sorted_wrt_map)
qed

lemma mock_startup_result:
  assumes "mock_startup env mutex_ok c delay = Some (run0, rx)"
  shows "\<exists>p0. created (mock_pipeline_config c) p0 \<and> mock.served p0 \<and>
    sink_state p0 = \<lparr>sink_values = zero_sink_snapshot, delay_ms = of_nat delay, sink_initialized = True\<rparr> \<and>
    pipeline_reach (socket_receive rx M5_RECEIVE_POLL_MS) valid_socket_env p0 (rn_pipeline run0)"
proof -
  let ?sink = "\<lparr>sink_values = zero_sink_snapshot, delay_ms = of_nat delay, sink_initialized = True\<rparr> :: gateway_mock_sink"
  obtain ls run where "run_start env ls ?sink (mock_pipeline_config c) = Inr run" "run0 = run"
    using assms by (auto simp: mock_startup_def gateway_mock_sink_init_def
        split: option.split_asm prod.split_asm if_split_asm sum.split_asm)
  from run_start_created [OF this(1)] this(2) obtain p0 where p0: "created (mock_pipeline_config c) p0" "sink_state p0 = ?sink"
      "pipeline_reach (socket_receive rx M5_RECEIVE_POLL_MS) valid_socket_env p0 (rn_pipeline run0)"
    by blast
  moreover have "mock.served p0"
    using created_fields [OF p0(1)] by (simp add: mock.served_def mock_pipeline_config_def)
  ultimately show ?thesis by blast
qed

text \<open>C19: The mode with the mock sink reports the truth. When the workers have been joined, the exit status is 0 exactly
  when neither the controlling thread nor a worker failed: the sink never sees an invalid record or one out of order. If
  the consumer did not fail, every record that was pushed has been counted, and the counted gap is exactly the number
  of sequence numbers missing between the first and the last of them.\<close>

theorem mock_run_reports_truth:
  assumes "mock_startup env mutex_ok c delay = Some (run0, rx)"
    and "run_reach (socket_receive rx M5_RECEIVE_POLL_MS) valid_socket_env run0 run"
    and "gateway_pipeline_join (Some (rn_pipeline run)) = Some (GATEWAY_OK, Some p)"
    and "length (g_received p) < 2 ^ 64"
  shows "mock_finish control_error (rn_pipeline run) =
      Some (if \<not> control_error \<and> producer_error p = GATEWAY_OK \<and> consumer_error p = GATEWAY_OK then 0 else 1, p) \<and>
    (consumer_error p = GATEWAY_OK \<longrightarrow>
      consumed (sink_values (sink_state p)) = of_nat (length (g_pushed p)) \<and>
      (g_pushed p \<noteq> [] \<longrightarrow> sequence_gap_records (sink_values (sink_state p)) =
         gateway_seq (last (g_pushed p)) - gateway_seq (hd (g_pushed p)) + 1 - of_nat (length (g_pushed p))))"
proof -
  obtain p0 where p0: "created (mock_pipeline_config c) p0" "mock.served p0"
      "sink_state p0 = \<lparr>sink_values = zero_sink_snapshot, delay_ms = of_nat delay, sink_initialized = True\<rparr>"
      "pipeline_reach (socket_receive rx M5_RECEIVE_POLL_MS) valid_socket_env p0 (rn_pipeline run0)"
    using mock_startup_result [OF assms(1)] by blast
  have r: "pipeline_reach (socket_receive rx M5_RECEIVE_POLL_MS) valid_socket_env p0 p"
    by (rule pipeline_reach.there [OF reach_trans [OF p0(4) run_reach_pipeline [OF assms(2)]] pipeline_step.join [OF assms(3)]])
  have "initial_gateway_seq (mock_pipeline_config c) = 0" by (simp add: mock_pipeline_config_def)
  from mock_taken [OF r p0(1,2) this p0(3) assms(4)] obtain taken where
    t: "sink_values (sink_state p) = count_all taken zero_sink_snapshot" "consumer_error p = GATEWAY_OK \<longrightarrow> taken = g_consumed p"
      "sink_initialized (sink_state p)" "sorted_wrt (\<lambda>a b. gateway_seq a < gateway_seq b) taken" "\<forall>r\<in>set taken. record_valid r"
      "length taken < 2 ^ 64"
    by blast
  have counts: "non_monotonic_records (sink_values (sink_state p)) = 0" "invalid_records (sink_values (sink_state p)) = 0"
      "consumed (sink_values (sink_state p)) = of_nat (length taken)"
      "taken \<noteq> [] \<Longrightarrow> sequence_gap_records (sink_values (sink_state p)) =
         gateway_seq (last taken) - gateway_seq (hd taken) + 1 - of_nat (length taken)"
    using count_increasing [OF _ t(4,6)] t(1,5)
    by (cases "taken = []"; simp add: count_all_def zero_sink_snapshot_def filter_empty_conv)+
  have "joined p"
    using assms(3) by (auto simp: gateway_pipeline_join_def Let_def split: if_split_asm)
  moreover have "shutdown_ok p"
    using r created_ok [OF p0(1), THEN conjunct2, THEN conjunct2, THEN conjunct2]
    by (rule reach_invariant) (rule step_shutdown_ok)
  ultimately have "rb_count (queue p) = 0" if "consumer_error p = GATEWAY_OK"
    using that by (simp add: shutdown_ok_def)
  then have "g_consumed p = g_pushed p" if "consumer_error p = GATEWAY_OK"
    using that reach_order_ok [OF p0(1) r] ring_items_nil [of "queue p"] by (auto simp: order_ok_def rq.ledger_def)
  moreover have "the (gateway_mock_sink_read (Some (sink_state p)) (Some zero_sink_snapshot)) = sink_values (sink_state p)"
    using t(3) by (simp add: gateway_mock_sink_read_def)
  ultimately show ?thesis
    using counts t(2) assms(3) by (auto simp: mock_finish_def gateway_pipeline_read_def Let_def)
qed

subsection \<open>The receiving mode\<close>

definition session_ok :: "u64 \<Rightarrow> can_session \<Rightarrow> bool" where
  "session_ok limit s \<longleftrightarrow> cs_accepted s = of_nat (length (cs_frames s)) \<and> length (cs_frames s) \<le> unat limit \<and>
     map gateway_seq (cs_frames s) = map (\<lambda>i. of_nat (Suc i)) [0..<length (cs_frames s)] \<and>
     counters (cs_stats s) GATEWAY_STAT_CAN_RECEIVE_SUCCESS = of_nat (length (cs_frames s)) \<and>
     (\<forall>r\<in>set (cs_frames s). wf_record r \<and> status_flags r = GATEWAY_RECORD_STATUS_KERNEL_TIMESTAMP_VALID)"

lemma count_can_ok: "c \<noteq> GATEWAY_STAT_CAN_RECEIVE_SUCCESS \<Longrightarrow> session_ok n (count_can c s) = session_ok n s"
  by (simp add: session_ok_def count_can_def)

lemma count_can_fields [simp]:
  "cs_accepted (count_can c s) = cs_accepted s" "cs_frames (count_can c s) = cs_frames s"
  by (simp_all add: count_can_def)

lemma rejection_counter_other: "rejection_counter r \<noteq> GATEWAY_STAT_CAN_RECEIVE_SUCCESS"
  by (cases r) simp_all

lemma unat_length: "length xs \<le> unat (n :: u64) \<Longrightarrow> unat (of_nat (length xs) :: u64) = length xs"
  using unsigned_less [where 'a = nat, of n] by (simp add: unat_of_nat take_bit_nat_eq_self)

lemma receive_turn_ok:
  assumes "receive_turn rx deadline a s = Some (go_on, s')" "session_ok n s" "cs_accepted s < n" "valid_socket_env (snd a)"
  shows "session_ok n s'"
proof -
  let ?s1 = "count_can GATEWAY_STAT_CAN_RECEIVE_ATTEMPTS s"
  consider "s' = count_can GATEWAY_STAT_CAN_RECEIVE_ERRORS s" | "s' = count_can GATEWAY_STAT_CAN_RECEIVE_TIMEOUTS s"
    | "s' = count_can GATEWAY_STAT_CAN_RECEIVE_ERRORS ?s1" | "s' = count_can GATEWAY_STAT_CAN_RECEIVE_TIMEOUTS ?s1"
    | reason where "s' = count_can (rejection_counter reason) ?s1"
    | (got) reason r where "socket_receive rx (remaining_ms deadline (fst a)) (snd a) (cs_accepted s + 1) = Some (GATEWAY_OK, reason, r)"
      "s' = (count_can GATEWAY_STAT_CAN_RECEIVE_SUCCESS ?s1)\<lparr>cs_accepted := cs_accepted s + 1, cs_frames := cs_frames s @ [r]\<rparr>"
    using assms(1) by (auto simp: receive_turn_def count_frame_rejection_def Let_def split: if_split_asm option.split_asm)
  then show ?thesis
  proof cases
    case got
    have r: "wf_record r" "gateway_seq r = cs_accepted s + 1" "status_flags r = GATEWAY_RECORD_STATUS_KERNEL_TIMESTAMP_VALID"
      using socket.ok_record [OF assms(4) got(1)] by simp_all
    have "length (cs_frames s) < unat n"
      using assms(2,3) unat_length [of "cs_frames s" n] by (simp add: session_ok_def word_less_nat_alt)
    then show ?thesis
      using assms(2) r got(2) by (auto simp: session_ok_def count_can_def)
  qed (use assms(2) in \<open>simp_all add: count_can_ok rejection_counter_other\<close>)
qed

lemma receive_loop_ok:
  assumes "receive_loop rx deadline n answers s = Some s'" "session_ok n s" "\<forall>a\<in>set answers. valid_socket_env (snd a)"
  shows "session_ok n s'"
  using assms
proof (induction answers arbitrary: s)
  case Nil
  then show ?case by (simp add: receive_loop.simps split: if_split_asm)
next
  case (Cons a answers)
  show ?case
  proof (cases "cs_accepted s < n")
    case False
    then show ?thesis using Cons.prems by (simp add: receive_loop.simps)
  next
    case True
    then obtain go_on s1 where t: "receive_turn rx deadline a s = Some (go_on, s1)"
      using Cons.prems(1) by (auto simp: receive_loop.simps split: option.split_asm)
    have "session_ok n s1" using receive_turn_ok [OF t Cons.prems(2) True] Cons.prems(3) by simp
    then show ?thesis
      using Cons True t by (cases go_on) (auto simp: receive_loop.simps [of rx deadline n "a # answers"])
  qed
qed



subsection \<open>Waiting for a signal\<close>

lemma wait_signal_keeps_handlers:
  assumes "gateway_lifecycle_wait_signal polls reads ok t sig (l, p) = Some (code, sig', l', p')"
  shows "handlers_installed l' = handlers_installed l \<and> previous_sigint l' = previous_sigint l \<and>
    previous_sigterm l' = previous_sigterm l \<and> sigint_action p' = sigint_action p \<and> sigterm_action p' = sigterm_action p"
  using assms
  by (auto simp: gateway_lifecycle_wait_signal_def gateway_lifecycle_request_stop_def Let_def
      split: if_split_asm option.split_asm pipe_poll.split_asm bool.split_asm)

text \<open>When the waiting mode ends, both signals have the disposition they had before, whatever failed.\<close>

lemma wait_mode_restores:
  assumes "wait_mode env polls reads lock_ok = Some (status, after)"
  shows "sigint_action after = sigint_action (se_signals env) \<and> sigterm_action after = sigterm_action (se_signals env)"
proof -
  obtain code l fds where i: "gateway_lifecycle_init (se_lifecycle env) (Some cleared_lifecycle) = (code, l, fds)"
    by (metis prod_cases3)
  have l: "code = GATEWAY_OK \<Longrightarrow> \<not> handlers_installed (the l)"
    using i by (auto simp: gateway_lifecycle_init_def cleared_lifecycle_def Let_def split: if_split_asm option.split_asm prod.split_asm)
  obtain code2 l2 p2 where h: "gateway_lifecycle_install_signal_handlers (se_sigint_ok env) (se_sigterm_ok env)
      (the l, se_signals env) = (code2, (l2, p2))" by (metis prod_cases3)
  have installed: "if code2 = GATEWAY_OK
      then handlers_installed l2 \<and> previous_sigint l2 = sigint_action (se_signals env) \<and>
        previous_sigterm l2 = sigterm_action (se_signals env)
      else \<not> handlers_installed l2 \<and> sigint_action p2 = sigint_action (se_signals env) \<and>
        sigterm_action p2 = sigterm_action (se_signals env)" if "code = GATEWAY_OK"
    using h l [OF that] by (auto simp: gateway_lifecycle_install_signal_handlers_def Let_def split: if_split_asm)
  note destroy = gateway_lifecycle_destroy_def gateway_lifecycle_restore_signal_handlers_def
  show ?thesis
  proof (cases "code = GATEWAY_OK \<and> code2 = GATEWAY_OK")
    case True
    obtain code3 sig l3 p3 where w: "gateway_lifecycle_wait_signal polls reads lock_ok (- 1) (Some 0) (l2, p2) =
        Some (code3, sig, l3, p3)" "after = snd (fst (gateway_lifecycle_destroy (l3, p3)))"
      using assms True i h by (auto simp: wait_mode_def split: option.split_asm)
    show ?thesis
      using wait_signal_keeps_handlers [OF w(1)] installed True w(2) by (simp add: destroy Let_def)
  next
    case False
    then show ?thesis
      using assms i h installed by (cases "code = GATEWAY_OK") (auto simp: wait_mode_def destroy Let_def)
  qed
qed

subsection \<open>The command line\<close>

lemma validated_config:
  assumes "gateway_config_validate (Some c) e = (GATEWAY_OK, e')"
  shows "config_valid c"
  using validate_checks_pass [of c e] assms by (simp add: config_valid_def gateway_config_validate_def)

lemma main_decide_cases:
  assumes "main_decide files arguments = action"
  obtains "action \<in> {Show_help, Show_version, Usage_error}" | e where "action = Config_error e"
  | opts c where "options_bounded opts" "\<not> options_conflict opts" "config_valid c" "action = choose_mode opts c"
proof (cases "arguments = [''--help''] \<or> arguments = [''--version'']")
  case True
  then show ?thesis using assms that(1) by (auto simp: main_decide_def)
next
  case False
  show ?thesis
  proof (cases "parse_arguments arguments no_options")
    case None
    then show ?thesis using assms that(1) False by (simp add: main_decide_def)
  next
    case (Some opts)
    have "options_bounded no_options" by (simp add: options_bounded_def no_options_def)
    then have b: "options_bounded opts" using parse_arguments_bounded Some by blast
    show ?thesis
    proof (cases "options_conflict opts")
      case True
      then show ?thesis using assms that(1) False Some by (simp add: main_decide_def)
    next
      case agree: False
      show ?thesis
      proof (cases "merge_config files opts")
        case (Inl e)
        then have "action = Config_error e" using assms False Some agree by (simp add: main_decide_def)
        then show ?thesis by (rule that(2))
      next
        case (Inr c)
        then have "config_valid c"
          by (auto simp: merge_config_def Let_def intro: validated_config split: prod.split_asm if_split_asm)
        then show ?thesis using assms that(3) [OF b agree] False Some agree Inr by (simp add: main_decide_def)
      qed
    qed
  qed
qed

lemma pipeline_config_accepted:
  assumes "queue_capacity cfg \<noteq> 0" "\<not> receive_timeout_ms cfg < 0" "receive_given cfg" "consume_fn cfg \<noteq> None"
    "lifecycle_given cfg" "stats_given cfg" "consume_idle cfg = None \<or> consumer_idle_timeout_ms cfg \<noteq> 0"
  shows "fst (gateway_pipeline_create ring calloc_ok mutex_ok True l st s (Some cfg)) \<noteq> GATEWAY_ERROR_ARGUMENT"
  using assms by (auto simp: gateway_pipeline_create_def split: prod.split option.split gateway_error_code.split)


text \<open>The check for a minus sign looks at the first character only, while \<open>strtoull\<close> skips spaces and wraps a negative
  number around: a negative count behind a space is accepted.\<close>

lemma negative_count_accepted:
  "parse_unsigned_argument '' -18446744073709551615'' 1 CAN_RECEIVE_COUNT_MAX = Some 1"
  "parse_unsigned_argument ''-18446744073709551615'' 1 CAN_RECEIVE_COUNT_MAX = None"
  by code_simp+

end
