(* ===== verification/Gw_Main_Examples.thy ===== *)
theory Gw_Main_Examples
  imports Gw_Main_Props "HOL-Library.Code_Target_Numeral"
begin

text \<open>
  Concrete runs of the program, from its start to its exit status, at which the properties of the whole program are
  applied.
\<close>

subsection \<open>A run that is stopped\<close>

lemma pipeline_run_reach:
  assumes "pipeline_reach receive valid_env (rn_pipeline run0) p"
  shows "run_reach receive valid_env run0 (run0\<lparr>rn_pipeline := p\<rparr>)"
  using assms
proof (induction rule: pipeline_reach.induct)
  case here
  show ?case using run_reach.run_here by simp
next
  case (there p p')
  show ?case using run_reach.run_there [OF there.IH run_step.worker, of p'] there.hyps(2) by simp
qed

text \<open>The pipeline after a stop, when both threads have left.\<close>

definition stopped_pipeline :: "'c gateway_pipeline \<Rightarrow> 'c gateway_pipeline" where
  "stopped_pipeline p = producer_leave GATEWAY_OK (close_queue (request_lifecycle_stop 15 p))"

definition left_pipeline :: "'c gateway_pipeline \<Rightarrow> 'c gateway_pipeline" where
  "left_pipeline p = consumer_leave GATEWAY_OK (count GATEWAY_STAT_QUEUE_POP_CLOSED (stopped_pipeline p))"

definition run_ready :: "('c gateway_run \<times> gateway_can_receiver) option \<Rightarrow> bool" where
  "run_ready start = (case start of None \<Rightarrow> False | Some (run, rx) \<Rightarrow>
     let p = rn_pipeline run in producer_created p \<and> consumer_created p \<and> producer_at p = P_loop \<and>
       consumer_at p = C_loop \<and> rb_count (queue p) = 0 \<and> \<not> joined p \<and> g_received p = [])"

lemma idle_run_ends:
  fixes run0 :: "'c gateway_run"
  assumes "run_ready (Some (run0, rx))"
  shows "run_reach (socket_receive rx t) valid_socket_env run0 (run0\<lparr>rn_pipeline := left_pipeline (rn_pipeline run0)\<rparr>)"
proof (rule pipeline_run_reach)
  let ?start = "rn_pipeline run0" and ?src = "socket_receive rx t"
  let ?halted = "close_queue (request_lifecycle_stop 15 ?start)"
  have ready: "producer_created ?start" "consumer_created ?start" "producer_at ?start = P_loop" "consumer_at ?start = C_loop"
      "rb_count (queue ?start) = 0"
    using assms by (simp_all add: run_ready_def Let_def)
  have "valid_socket_env ([], [])" by (simp add: valid_socket_env_def)
  moreover have "producer_pass ?src ([], []) ?halted = Some (stopped_pipeline ?start)"
    using stop_requested_after [of 15 ?start]
    by (simp add: producer_pass_def gateway_lifecycle_is_stop_requested_def stopped_pipeline_def)
  ultimately have "pipeline_step ?src valid_socket_env ?halted (stopped_pipeline ?start)"
    using ready by (intro pipeline_step.produce [where e = "([], [])"]) (simp_all add: pipe_frame)
  then have stopped: "pipeline_reach ?src valid_socket_env ?start (stopped_pipeline ?start)"
    by (rule pipeline_reach.there [OF reach_step [OF pipeline_step.stop]])
  have "consumer_pass (Pop_loop_end GATEWAY_OK) (stopped_pipeline ?start) = left_pipeline ?start"
    unfolding left_pipeline_def using ready by (intro pop_drained_pass) (simp_all add: stopped_pipeline_def pipe_frame)
  moreover have "pipeline_step ?src valid_socket_env (stopped_pipeline ?start)
      (consumer_pass (Pop_loop_end GATEWAY_OK) (stopped_pipeline ?start))"
    using ready by (intro pipeline_step.consume) (simp_all add: stopped_pipeline_def pipe_frame)
  ultimately show "pipeline_reach ?src valid_socket_env ?start (left_pipeline ?start)"
    using pipeline_reach.there [OF stopped] by simp
qed

lemma ready_left:
  assumes "run_ready (Some (run0, rx))"
  shows "\<exists>p. gateway_pipeline_join (Some (left_pipeline (rn_pipeline run0))) = Some (GATEWAY_OK, Some p)"
    and "consumer_error (left_pipeline (rn_pipeline run0)) = GATEWAY_OK \<and>
      producer_error (left_pipeline (rn_pipeline run0)) = GATEWAY_OK \<and> g_received (left_pipeline (rn_pipeline run0)) = []"
  using assms
  by (simp_all add: run_ready_def left_pipeline_def stopped_pipeline_def gateway_pipeline_join_def Let_def pipe_frame)

subsection \<open>With the MQTT sink\<close>

definition start_answers :: start_env where
  "start_answers = \<lparr>se_stats_ok = True, se_lifecycle = \<lparr>li_mutex_ok = True, li_condattr_ok = True, li_setclock_ok = True,
     li_cond_ok = True, li_pipe = Some (3, 4), li_read_end_ok = True, li_write_end_ok = True\<rparr>, se_sigint_ok = True,
     se_sigterm_ok = True, se_signals = \<lparr>signal_write_fd = - 1, sigint_action = Other_disposition 0,
       sigterm_action = Other_disposition 0, signal_pipe_bytes = []\<rparr>,
     se_open = \<lparr>socket_result = 7, getfd_ok = True, setfd_ok = True, set_filters_ok = (\<lambda>_. True),
       set_timestamps_ok = True, interface_index = 1, bind_ok = True\<rparr>, se_ring = all_ok_env,
     se_calloc_ok = True, se_mutex_ok = True, se_consumer_ok = True, se_producer_ok = True\<rparr>"

definition small_config :: gateway_config where
  "small_config = gateway_config_init_defaults\<lparr>Gw_Config.queue_capacity := 1\<rparr>"

text \<open>A broker that accepts the connection.\<close>

definition broker_world :: mqtt_world where
  "broker_world = quiet_world\<lparr>socket_answers := replicate 20 5,
     clock_answers := map (\<lambda>sec. Some \<lparr>tv_sec = sec, tv_nsec = 0\<rparr>) [10, 11, 12, 12],
     epoll_answers := [Epoll_events [(REACTOR_TAG_MQTT, EPOLLIN)]],
     lib_answers := [\<lparr>reply_code = 0, reply_mid = 0, reply_callbacks = []\<rparr>,
       \<lparr>reply_code = 0, reply_mid = 0, reply_callbacks = [On_connect 0]\<rparr>]\<rparr>"

definition demo_start :: "(gateway_mqtt_sink gateway_run \<times> gateway_can_receiver) option \<times> disk \<times> mqtt_world" where
  "demo_start = mqtt_startup start_answers small_config empty_disk broker_world"

lemma demo_ready: "run_ready (fst demo_start)"
  by code_simp

lemma demo_start_parts:
  obtains run0 rx d' w' where "demo_start = (Some (run0, rx), d', w')"
proof -
  obtain x where "fst demo_start = Some x"
    using demo_ready by (cases "fst demo_start") (simp_all add: run_ready_def)
  then have "demo_start = (Some (fst x, snd x), fst (snd demo_start), snd (snd demo_start))"
    by (simp add: prod_eq_iff)
  then show thesis by (rule that)
qed

lemma demo_status: "map_option fst (mqtt_finish False (left_pipeline (rn_pipeline (fst (the (fst demo_start)))))) = Some 0"
  by code_simp

lemma demo_spool: "spool_opens_well (mqtt_sink_config small_config) empty_disk"
proof -
  have "legacy_path_ok (spool_path small_config)"
    by (simp add: legacy_path_ok_def LEGACY_PATH_SIZE_def small_config_def gateway_config_init_defaults_def
        copy_string_def config_bounds)
  moreover have "outcomes empty_disk = []" "disk_wf empty_disk" "view empty_disk n = None" for n
    by (simp_all add: empty_disk_def disk_wf_def view_def)
  ultimately obtain s d where o: "legacy_open (Some (spool_path small_config)) empty_disk = (GATEWAY_OK, Some s, d)"
    and s: "lg_inv s" "lg_batch s = 0"
    using legacy_first_open by blast
  have "spool_format small_config = GATEWAY_SPOOL_FORMAT_LEGACY"
    by (simp add: small_config_def gateway_config_init_defaults_def)
  then show ?thesis
    using o s by (simp add: spool_opens_well_def opened_spool_def mqtt_sink_config_def gateway_spool_open_def queue_defs)
qed

lemma demo_facts: "delivered broker_world = []" "spool_path small_config \<noteq> []"
  by code_simp+


lemma exit_status_zero_loses_nothing_witness:
  "\<exists>p'. mqtt_finish False (left_pipeline (rn_pipeline (fst (the (fst demo_start))))) = Some (0, p') \<and>
     ring_items (queue p') = [] \<and> \<not> sink_failed (sink_state p')"
proof -
  obtain run0 rx d' w' where st: "demo_start = (Some (run0, rx), d', w')"
    by (rule demo_start_parts)
  note ready = demo_ready [unfolded st fst_conv]
  obtain p' where p: "mqtt_finish False (left_pipeline (rn_pipeline (fst (the (fst demo_start))))) = Some (0, p')"
    using demo_status by auto
  then have "mqtt_finish False (rn_pipeline (run0\<lparr>rn_pipeline := left_pipeline (rn_pipeline run0)\<rparr>)) = Some (0, p')"
    unfolding st by simp
  from exit_status_zero_loses_nothing [OF st [unfolded demo_start_def] demo_facts(1) demo_spool demo_facts(2)
      idle_run_ends [OF ready] this]
  show ?thesis using p by blast
qed

subsection \<open>The other modes\<close>

text \<open>A receiver that reports the one frame it was asked for.\<close>

definition demo_receive_run :: "(int \<times> can_session \<times> int list) option" where
  "demo_receive_run = run_can_receive True (Some \<lparr>tv_sec = 1, tv_nsec = 0\<rparr>) (se_open start_answers)
     [(Some \<lparr>tv_sec = 2, tv_nsec = 0\<rparr>, demo_env)] small_config 1 5000"



definition mock_demo :: "(gateway_mock_sink gateway_run \<times> gateway_can_receiver) option" where
  "mock_demo = mock_startup start_answers True small_config 0"

lemma mock_ready: "run_ready mock_demo"
  by code_simp

lemma mock_run_reports_truth_witness:
  "\<exists>(run :: gateway_mock_sink gateway_run) p. mock_finish False (rn_pipeline run) = Some (0, p) \<and>
     consumed (sink_values (sink_state p)) = of_nat (length (g_pushed p))"
proof -
  obtain run0 rx where st: "mock_demo = Some (run0, rx)"
    using mock_ready by (cases mock_demo) (auto simp: run_ready_def)
  note ready = mock_ready [unfolded st]
  let ?run = "run0\<lparr>rn_pipeline := left_pipeline (rn_pipeline run0)\<rparr>"
  obtain p where j: "gateway_pipeline_join (Some (rn_pipeline ?run)) = Some (GATEWAY_OK, Some p)"
    using ready_left(1) [OF ready] by auto
  note jr = join_result [OF j]
  have "length (g_received p) < 2 ^ 64" using jr ready_left(2) [OF ready] by simp
  from mock_run_reports_truth [OF st [unfolded mock_demo_def] idle_run_ends [OF ready] j this, of False]
  show ?thesis using jr ready_left(2) [OF ready] by (intro exI [of _ ?run]) auto
qed

end
