(* ===== verification/Spec2Isabelle.thy ===== *)
theory Spec2Isabelle
  imports Wire_Codec Telemetry Vehicle_Decoder Ecu_Firmware Gw_Stats Ring_Buffer
    Can_Receiver Lifecycle Mock_Sink Pipeline Spool_V2_Lives Spool_Facade
    Mqtt_Encode_Props Gw_Main_Examples
begin

text \<open>
  Verification of the CAN to MQTT gateway: the application \<open>gatewayd\<close> for the i.MX6ULL board (\<open>src/gateway\<close>) and
  the traffic source on the STM32 (\<open>src/stm32\<close>).

  \<^bold>\<open>The program.\<close> The STM32 firmware simulates a vehicle and sends three kinds of CAN frames. The gateway receives
  them over SocketCAN, numbers and decodes them in a producer thread, and passes the records through a bounded queue to
  a consumer thread. The consumer is the MQTT sink, which stores each record in a spool on disk, publishes batches as
  JSON documents with QoS 1, one at a time, and removes a batch from the spool when the broker's PUBACK has come; or,
  for tests, a mock sink that counts. The main program reads the command line and the configuration, starts the mode
  that was asked for, waits for a signal, stops the threads and turns what happened into its exit status.

  \<^bold>\<open>Theories.\<close> A theory models a file, in the order of its functions and under their names; the theories behind it
  hold its lemmas.

  \<^item> \<open>Gw_Prelude\<close>: integer types, error codes (\<open>error.c\<close>) and generic lemmas. \<open>C_Text\<close>: the text routines of the C
    library that are used.
  \<^item> \<open>Wire_Codec\<close>, \<open>Telemetry\<close>, \<open>Entry_Log\<close>: little-endian codec, CRC-32, the record and its two images on disk.
  \<^item> \<open>Vehicle_Decoder\<close>: \<open>vehicle_decoder.c\<close>. \<open>Ecu_Firmware\<close>: \<open>Core/Src/main.c\<close> and \<open>CAN_SendMessage\<close> of
    \<open>Core/Src/can.c\<close>, for both traffic profiles.
  \<^item> \<open>Gw_Stats\<close>, \<open>Ring_Buffer\<close>, \<open>Can_Receiver\<close>, \<open>Lifecycle\<close>, \<open>Mock_Sink\<close>, \<open>Pipeline\<close>: the files of these names.
    \<open>Record_Consumer\<close> states what the pipeline needs of a consumer.
  \<^item> \<open>Posix_Io\<close>: the file system. \<open>Spool_V2\<close> (with \<open>_Format\<close>, \<open>_Frames\<close>, \<open>_Queue\<close>, \<open>_Ops\<close>, \<open>_Batches\<close>, \<open>_Acks\<close>,
    \<open>_Open\<close>, \<open>_Contract\<close>, \<open>_Props\<close>): \<open>spool_v2.c\<close>; what a directory left by an earlier process opens to
    (\<open>_Scan\<close>, \<open>_Reopen\<close>, \<open>_Restart\<close>), what every operation keeps on disk for it (\<open>_Saved\<close>, \<open>_Saved_Acks\<close>), and the
    histories with restarts (\<open>_Survives\<close>, \<open>_Lives\<close>). \<open>Spool_Legacy\<close> (with \<open>_Queue\<close>, \<open>_Acks\<close>, \<open>_Recovery\<close>, \<open>_Contract\<close>,
    \<open>_Props\<close>) and \<open>Spool_Facade\<close>: \<open>spool.c\<close>. \<open>Spool_Contract\<close>: the abstract queue that both formats implement.
  \<^item> \<open>Gw_Log\<close>, \<open>Gw_Config\<close>, \<open>Gw_Config_Props\<close>: \<open>log.c\<close> and \<open>config.c\<close>.
  \<^item> \<open>Mqtt_Encode\<close>, \<open>Mqtt_Encode_Props\<close>: the JSON encoder of \<open>mqtt_sink.c\<close>. \<open>Mqtt_Reactor\<close>: \<open>mqtt_reactor.c\<close>.
    \<open>Mqtt_Sink\<close> (with \<open>_Queue\<close>, \<open>_Delivery\<close>, \<open>_Ops\<close>, \<open>_Props\<close>): the rest of \<open>mqtt_sink.c\<close>.
  \<^item> \<open>Gw_Main\<close>, \<open>Gw_Main_Runs\<close>, \<open>Gw_Main_Props\<close>, \<open>Gw_Main_Examples\<close>: \<open>main.c\<close> and the program as a whole.

  \<^bold>\<open>How the code is modelled.\<close> A struct is a record with its fields, an enumeration a datatype, a machine integer a word
  of its width; sizes, offsets and counters that the code guards before they would wrap are naturals, and the guards are
  branches of the definitions. A pointer that may be null is an option. A function maps the state to a result code and the
  new state. The system is environment: a call takes the next answer of a list, and every answer may be a
  failure, short or interrupted; a call that has not returned is \<open>None\<close>. In \<open>Posix_Io\<close> a list that has run out means that
  the remaining calls succeed. Threads are step relations: a critical section or a pass of a
  loop is one step, and the properties hold in every interleaving (\<open>pipeline_reach\<close>, \<open>run_reach\<close>). Ghost fields list what was
  received, decoded, pushed and consumed; \<open>history\<close> lists the calls to the MQTT library and the callbacks that it ran.

  \<^bold>\<open>Interfaces.\<close> \<open>Spool_Contract\<close> states a spool as a queue with one prepared batch; the segmented spool, the one-file spool
  and their union in \<open>Spool_Facade\<close> are instances, and what follows for all sequences of calls is proved once.
  \<open>can_source\<close> and \<open>record_consumer\<close> state what the pipeline relies on at its two ends; the SocketCAN receiver is
  an instance of the first, the MQTT sink and the mock sink are instances of the second.

  \<^bold>\<open>What is proved.\<close>
  \<^item> The whole program: status 0 in the MQTT mode means that nothing that entered the queue was lost; in every interleaving
    the records leave in order, in batches, each with the evidence of its PUBACK; the mock mode reports exactly what
    was lost; the receiving mode reports exactly what was asked for and ends by its deadline; every mode starts with valid
    parameters only, which no component refuses.
  \<^item> The MQTT sink: at-least-once delivery over all sequences of calls, its invariant, creation, deadlines, reconnections, and that a
    JSON reader gets the records back from a document.
  \<^item> The spools: every operation refines the abstract queue, at-least-once over all sequences of calls; for the one-file
    spool also across a kill of the process at any point; for the segmented spool across any number of deaths of an
    open spool between two calls, or while it writes the next record or the next state file (\<open>crash_leaves\<close>), after
    each of which the next process opens the same queue; capacity, order, detection of corrupted bytes.
  \<^item> Queue and pipeline: a bounded FIFO under every interleaving, an account of every frame, draining at shutdown, and
    that a stop can always be completed.
  \<^item> Firmware and decoder: every frame the firmware builds is decoded to the simulated signals; every changed byte is noticed;
    the counters have no gap; the blocking send returns.
  \<^item> Configuration: single assignments and validation agree; a refused assignment has no effect.

  \<^bold>\<open>Bounds.\<close> No fuel is used in the model: loops are structural in the list of answers or in the input, or have a measure. The
  turns of the one-file spool (\<open>lg_turns\<close>) bound the number of calls before a 64-bit number would wrap; they exceed any
  practical life. The clock is read as a timespec of integers. \<open>size_t\<close> has 32 bits on
  the target; values of that type that the configuration bounds are not wrapped. The main program and the sink share one
  \<open>gateway_stats\<close> object; the model keeps the counters of the pipeline and those of the sink in one record each, which
  is the same as long as no counter is used by both, and none is.

  \<^bold>\<open>Not modelled.\<close>
  \<^item> libmosquitto, the kernel and the HAL are environment: their answers are arguments, constrained only where a
    theorem says so.
  \<^item> Log lines other than their format in \<open>Gw_Log\<close>, the usage text, the summary lines and \<open>report_config_error\<close>: output only.
  \<^item> Power loss of the segmented spool, which may also lose what was written and not yet synchronised. That a theorem on it
    needs a hypothesis on the batches between two synchronisations is one of the findings. Neither is the state covered that a
    spool leaves after one of its calls failed, nor the death of a process between the replacement of the state file and
    the return of the acknowledgement. The restart theorems need segments of at least 16 records, so that the segments
    of the largest spool fit the table, and 64-bit counters that are not used up.
  \<^item> Code generated by CubeMX (clock, GPIO, UART, interrupt vectors), the vendored HAL and CMSIS under \<open>Drivers\<close>, the
    Python and shell tools, the deployment files, the tests and the recorded artifacts.
\<close>

end
